(* ===== verification/Wdd_Prelude.thy ===== *)
theory Wdd_Prelude
  imports Main "HOL-Library.Monad_Syntax" "HOL-Library.Multiset"
begin

text \<open>
  What every component of the development shares: the C integer types the sources use,
  checked array accesses, and generic facts on lists, options and maps.

  A C operation is a HOL function into an \<open>option\<close> type wherever the code can do
  something C leaves undefined (an index outside an array, a division by zero, a use of a
  freed object): \<open>None\<close> is that fault, \<open>Some\<close> a normal return. Error codes that the code
  returns are ordinary integers inside the \<open>Some\<close>. Theorems of the form
  \<open>f x = Some y\<close> therefore include memory safety.

  C \<open>int\<close> is \<open>int\<close> with \<open>s32\<close> at every place where an addition, a multiplication or a
  conversion can leave the 32-bit range; the reading is two's complement wrap-around, which
  is what the code's own overflow test in \<open>objpool_alloc\<close> relies on.
\<close>

named_theorems int32_simps
named_theorems arr_simps

type_synonym 'a fault = "'a option"

section \<open>Machine integers\<close>

definition s32 :: "int \<Rightarrow> int" where
  "s32 x = (x + 2147483648) mod 4294967296 - 2147483648"

definition u32 :: "int \<Rightarrow> int" where
  "u32 x = x mod 4294967296"

definition u64 :: "int \<Rightarrow> int" where
  "u64 x = x mod 18446744073709551616"

text \<open>C's \<open>%\<close> truncates towards zero and faults on a zero divisor.\<close>

definition c_mod :: "int \<Rightarrow> int \<Rightarrow> int fault" where
  "c_mod a b = (if b = 0 then None else Some (sgn a * (\<bar>a\<bar> mod \<bar>b\<bar>)))"

lemma s32_id [int32_simps]: "- 2147483648 \<le> x \<Longrightarrow> x < 2147483648 \<Longrightarrow> s32 x = x"
  by (simp add: s32_def)

lemma s32_range: "- 2147483648 \<le> s32 x \<and> s32 x < 2147483648"
  by (simp add: s32_def)

lemma s32_wraps_negative: "2147483648 \<le> x \<Longrightarrow> x < 4294967296 \<Longrightarrow> s32 x = x - 4294967296"
proof -
  assume "2147483648 \<le> x" "x < 4294967296"
  then have "(x - 2147483648) mod 4294967296 = x - 2147483648" by simp
  moreover have "(x + 2147483648) mod 4294967296 = (x - 2147483648) mod 4294967296"
    using mod_add_self2 [of "x - 2147483648" "4294967296 :: int"] by (simp add: add.commute)
  ultimately show ?thesis by (simp add: s32_def)
qed

lemma s32_add_s32: "s32 (s32 x + y) = s32 (x + y)"
proof -
  have "(s32 x + y + 2147483648) mod 4294967296 =
      ((x + 2147483648) mod 4294967296 + y) mod 4294967296"
    by (simp add: s32_def algebra_simps)
  also have "\<dots> = (x + y + 2147483648) mod 4294967296"
    by (simp add: mod_simps algebra_simps)
  finally show ?thesis by (simp add: s32_def)
qed

lemma u32_id [int32_simps]: "0 \<le> x \<Longrightarrow> x < 4294967296 \<Longrightarrow> u32 x = x"
  by (simp add: u32_def)

lemma u32_range: "0 \<le> u32 x \<and> u32 x < 4294967296"
  by (simp add: u32_def)

lemma u64_id [int32_simps]: "0 \<le> x \<Longrightarrow> x < 18446744073709551616 \<Longrightarrow> u64 x = x"
  by (simp add: u64_def)

lemma c_mod_nonneg [int32_simps]: "0 \<le> a \<Longrightarrow> 0 < b \<Longrightarrow> c_mod a b = Some (a mod b)"
  by (cases "a = 0") (simp_all add: c_mod_def)

lemma c_mod_pos:
  assumes "0 < b"
  shows "\<exists>k. c_mod a b = Some k \<and> k < b \<and> (a < 0 \<longrightarrow> k \<le> 0) \<and> (0 \<le> a \<longrightarrow> 0 \<le> k \<and> k = a mod b)"
proof (cases "0 \<le> a")
  case True
  with assms show ?thesis by (simp add: c_mod_nonneg)
next
  case False
  moreover have "0 \<le> - a mod b" using assms by simp
  moreover from this have "- (- a mod b) < b" using assms by linarith
  ultimately show ?thesis using assms by (simp add: c_mod_def)
qed

section \<open>Checked array accesses\<close>

definition arr_get :: "'a list \<Rightarrow> int \<Rightarrow> 'a fault" where
  "arr_get xs i = (if 0 \<le> i \<and> i < int (length xs) then Some (xs ! nat i) else None)"

definition arr_upd :: "'a list \<Rightarrow> int \<Rightarrow> ('a \<Rightarrow> 'a) \<Rightarrow> 'a list fault" where
  "arr_upd xs i f =
     (if 0 \<le> i \<and> i < int (length xs) then Some (xs[nat i := f (xs ! nat i)]) else None)"

lemma arr_get_int [arr_simps]: "i < length xs \<Longrightarrow> arr_get xs (int i) = Some (xs ! i)"
  by (simp add: arr_get_def)

lemma arr_upd_int [arr_simps]: "i < length xs \<Longrightarrow> arr_upd xs (int i) f = Some (xs[i := f (xs ! i)])"
  by (simp add: arr_upd_def)

lemma arr_get_Some_iff:
  "arr_get xs i = Some x \<longleftrightarrow> 0 \<le> i \<and> i < int (length xs) \<and> x = xs ! nat i"
  by (auto simp: arr_get_def)

section \<open>Lists and maps\<close>

lemma upt_last_update: "0 < n \<Longrightarrow> (map f [0..<n])[n - 1 := v] = map (f(n - 1 := v)) [0..<n]"
  by (rule nth_equalityI) (auto simp: nth_list_update)

text \<open>Writing an entry without changing one of its fields.\<close>

lemma nth_update_field: "f v = f (xs ! i) \<Longrightarrow> f (xs[i := v] ! j) = f (xs ! j)"
  by (cases "i < length xs") (auto simp: nth_list_update list_update_beyond)

lemma distinct_split_eq:
  assumes "distinct (xs @ x # ys)" and "xs @ x # ys = xs' @ x # ys'"
  shows "xs = xs' \<and> ys = ys'"
  using assms by (metis append_Cons_eq_iff distinct.simps(2) distinct_append not_distinct_conv_prefix)

lemma map_pair_eqI:
  assumes "\<And>k x y. m k = Some (x, y) \<longleftrightarrow> m' k = Some (x, y)"
  shows "m = m'"
proof
  show "m k = m' k" for k
    using assms [of k] by (cases "m k"; cases "m' k") auto
qed

lemma list_update_last: "xs \<noteq> [] \<Longrightarrow> xs[length xs - 1 := v] = butlast xs @ [v]"
  by (cases xs rule: rev_cases) auto

lemma set_remove_nth:
  assumes "distinct (map fst xs)" and "i < length xs"
  shows "set (take i xs @ drop (Suc i) xs) = {e \<in> set xs. fst e \<noteq> fst (xs ! i)}"
proof -
  have x: "xs = take i xs @ xs ! i # drop (Suc i) xs" using assms(2) by (rule id_take_nth_drop)
  have "distinct (map fst (take i xs @ xs ! i # drop (Suc i) xs))" using assms(1) x by simp
  then have "fst e \<noteq> fst (xs ! i)" if "e \<in> set (take i xs @ drop (Suc i) xs)" for e
    using that by (cases "e \<in> set (take i xs)") (simp_all add: image_iff, metis+)
  moreover have "set xs = insert (xs ! i) (set (take i xs @ drop (Suc i) xs))"
    by (subst x) simp
  ultimately show ?thesis by auto
qed

end
