(* ===== verification/Handle_Table.thy ===== *)
theory Handle_Table
  imports Wdd_Prelude
begin

text \<open>
  The contract of a bounded table that hands out integer handles: the object pool of
  \<^verbatim>\<open>src/util/container\<close> and the connection table of \<^verbatim>\<open>src/connsvr/epollsvr\<close> both
  promise it. \<open>contents\<close> is the finite map from the live handles to what they refer to; an
  operation returns a non-negative handle or \<open>0\<close> on success and a negative code on failure.
\<close>

datatype handle_op = HAlloc | HRelease int

locale handle_table =
  fixes inv :: "'s \<Rightarrow> bool"
    and contents :: "'s \<Rightarrow> int \<Rightarrow> 'v option"
    and capacity :: "'s \<Rightarrow> nat"
    and alloc :: "'s \<Rightarrow> (int \<times> 's) option"
    and release :: "'s \<Rightarrow> int \<Rightarrow> (int \<times> 's) option"
  assumes contents_bounded:
      "inv s \<Longrightarrow> finite (dom (contents s)) \<and> card (dom (contents s)) \<le> capacity s"
    and alloc_room:
      "inv s \<Longrightarrow> card (dom (contents s)) < capacity s \<Longrightarrow>
         \<exists>h s' v. alloc s = Some (h, s') \<and> inv s' \<and> 0 \<le> h \<and> contents s h = None \<and>
           contents s' = (contents s)(h \<mapsto> v) \<and> capacity s' = capacity s"
    and alloc_full:
      "inv s \<Longrightarrow> card (dom (contents s)) = capacity s \<Longrightarrow> \<exists>e < 0. alloc s = Some (e, s)"
    and release_live:
      "inv s \<Longrightarrow> h \<in> dom (contents s) \<Longrightarrow>
         \<exists>s'. release s h = Some (0, s') \<and> inv s' \<and>
           contents s' = (contents s)(h := None) \<and> capacity s' = capacity s"
    and release_dead:
      "inv s \<Longrightarrow> h \<notin> dom (contents s) \<Longrightarrow> \<exists>e < 0. release s h = Some (e, s)"
begin

lemma handles_nonneg_preserved:
  assumes "inv s" and "alloc s = Some (h, s')" and "0 \<le> h"
  shows "card (dom (contents s)) < capacity s" and "inv s'" and "contents s h = None"
    and "\<exists>v. contents s' = (contents s)(h \<mapsto> v)" and "capacity s' = capacity s"
proof -
  show lt: "card (dom (contents s)) < capacity s"
    using contents_bounded [OF assms(1)] alloc_full [OF assms(1)] assms(2,3) by fastforce
  show "inv s'" "contents s h = None" "\<exists>v. contents s' = (contents s)(h \<mapsto> v)"
    "capacity s' = capacity s"
    using alloc_room [OF assms(1) lt] assms(2) by auto
qed

text \<open>Releasing what was just allocated gives back the old contents.\<close>

lemma alloc_release:
  assumes "inv s" and "alloc s = Some (h, s')" and "0 \<le> h"
  shows "\<exists>s''. release s' h = Some (0, s'') \<and> inv s'' \<and> contents s'' = contents s"
proof -
  note a = handles_nonneg_preserved [OF assms]
  have "h \<in> dom (contents s')" using a(4) by auto
  from release_live [OF a(2) this] obtain s'' where s'': "release s' h = Some (0, s'')" "inv s''"
    "contents s'' = (contents s')(h := None)" by blast
  have "contents s'' = contents s" using s''(3) a(3,4) by (auto simp: fun_eq_iff)
  with s'' show ?thesis by blast
qed

text \<open>A second release of the same handle fails and changes nothing.\<close>

lemma double_release:
  assumes "inv s" and "release s h = Some (0, s')"
  shows "\<exists>e < 0. release s' h = Some (e, s')"
proof -
  have "h \<in> dom (contents s)" using release_dead [OF assms(1)] assms(2) by fastforce
  from release_live [OF assms(1) this] assms(2)
  have "inv s'" "contents s' = (contents s)(h := None)" by auto
  then show ?thesis using release_dead by fastforce
qed

fun run :: "'s \<Rightarrow> handle_op list \<Rightarrow> 's option" where
  "run s [] = Some s"
| "run s (HAlloc # xs) = (case alloc s of None \<Rightarrow> None | Some (_, s') \<Rightarrow> run s' xs)"
| "run s (HRelease h # xs) = (case release s h of None \<Rightarrow> None | Some (_, s') \<Rightarrow> run s' xs)"

lemma alloc_total: "inv s \<Longrightarrow> \<exists>h s'. alloc s = Some (h, s') \<and> inv s' \<and> capacity s' = capacity s"
  using contents_bounded [of s] alloc_room [of s] alloc_full [of s]
  by (cases "card (dom (contents s)) < capacity s") fastforce+

lemma release_total: "inv s \<Longrightarrow> \<exists>e s'. release s h = Some (e, s') \<and> inv s' \<and> capacity s' = capacity s"
  using release_live [of s h] release_dead [of s h] by (cases "h \<in> dom (contents s)") fastforce+

text \<open>No sequence of operations faults, whatever handles it releases.\<close>

lemma run_total: "inv s \<Longrightarrow> \<exists>s'. run s xs = Some s' \<and> inv s' \<and> capacity s' = capacity s"
proof (induction s xs rule: run.induct)
  case (1 s)
  then show ?case by simp
next
  case (2 s xs)
  from alloc_total [OF "2.prems"] obtain h s1
    where "alloc s = Some (h, s1)" "inv s1" "capacity s1 = capacity s" by blast
  with "2.IH" show ?case by fastforce
next
  case (3 s h xs)
  from release_total [OF "3.prems"] obtain e s1
    where "release s h = Some (e, s1)" "inv s1" "capacity s1 = capacity s" by blast
  with "3.IH" show ?case by fastforce
qed

end

end
