(* ===== verification/ObjPool.thy ===== *)
theory ObjPool
  imports Wdd_Prelude Handle_Table
begin

text \<open>
  The fixed-size object pool of \<^verbatim>\<open>src/util/container/obj_pool.{h,cpp}\<close>.

  The pool is one memory block: a header (\<open>TObjPool\<close>), an array of index entries
  (\<open>TPoolIdx\<close>, which carry two intrusive doubly linked lists: the used chain and the free
  chain) and an array of objects. A pool pointer is an \<open>option\<close> (\<open>None\<close> is \<open>NULL\<close>); a
  pointer to an object is its byte offset from \<open>m_pObj\<close>. The object area is a list of
  typed cells of \<open>m_iUnitSize\<close> bytes each.

  The invariant \<open>pool_rel p us fs\<close> says that the two chains partition the slots, that the
  flags and counters agree with them and that no handle overflows; \<open>pool_map\<close> is the finite
  map from live handles to objects that the pool stands for. The pool is an instance of the
  contract \<open>handle_table\<close>.
\<close>

section \<open>Data\<close>

definition ERR_OBJPOOL_NULLPTR :: int where "ERR_OBJPOOL_NULLPTR = -1"
definition ERR_OBJPOOL_MEMOVER :: int where "ERR_OBJPOOL_MEMOVER = -2"
definition ERR_OBJPOOL_FULL :: int where "ERR_OBJPOOL_FULL = -3"
definition ERR_OBJPOOL_LOGICERROR :: int where "ERR_OBJPOOL_LOGICERROR = -5"

lemmas objpool_errs = ERR_OBJPOOL_NULLPTR_def ERR_OBJPOOL_MEMOVER_def ERR_OBJPOOL_FULL_def
  ERR_OBJPOOL_LOGICERROR_def

record TPoolIdx =
  m_iNextIdx :: int
  m_iPrevIdx :: int
  m_iAccumulate :: int
  m_iUsedFlag :: int

record 'a TObjPool =
  m_iUsedCount :: int
  m_iFreeHead :: int
  m_iFreeTail :: int
  m_iUsedHead :: int
  m_iCapacity :: int
  m_iUnitSize :: int
  m_pIdx :: "TPoolIdx list"
  m_pObj :: "'a list"

type_synonym 'a TObjPoolPtr = "'a TObjPool option"

datatype TRAVEL_RET = DO_THING | BREAK_TRAVEL | REMOVE_ME

section \<open>Operations\<close>

text \<open>The macro computes in \<open>size_t\<close>: \<open>sizeof(TPoolIdx)\<close> is 16 and \<open>sizeof(TObjPool)\<close> is 40.\<close>

definition GET_POOL_MEM_SIZE :: "int \<Rightarrow> int \<Rightarrow> int" where
  "GET_POOL_MEM_SIZE ITEMSIZE POOL_CAPACITY = u64 ((ITEMSIZE + 16) * POOL_CAPACITY + 40)"

definition fresh_idx :: "nat \<Rightarrow> TPoolIdx" where
  "fresh_idx i = \<lparr> m_iNextIdx = s32 (int i + 1), m_iPrevIdx = s32 (int i - 1),
                   m_iAccumulate = 0, m_iUsedFlag = 0 \<rparr>"

text \<open>
  \<open>malloc n\<close> tells whether the allocator hands out \<open>n\<close> bytes, \<open>garbage i\<close> is what the
  uninitialised memory holds in object cell \<open>i\<close>. The byte count goes through an \<open>int\<close>, as
  in the source; a block that is too small for the index array (or an empty index array,
  whose last entry the code writes) is an out-of-bounds write. The argument is the pointer
  to the caller's pool pointer: \<open>None\<close> is \<open>NULL\<close>.
\<close>

definition objpool_init ::
  "(int \<Rightarrow> bool) \<Rightarrow> (nat \<Rightarrow> 'a) \<Rightarrow> 'a TObjPoolPtr option \<Rightarrow> nat \<Rightarrow> nat \<Rightarrow>
     (int \<times> 'a TObjPoolPtr option) fault" where
  "objpool_init malloc garbage pObjPool iMax iUnit =
     (case pObjPool of
        None \<Rightarrow> Some (ERR_OBJPOOL_NULLPTR, None)
      | Some _ \<Rightarrow>
          let iMemCost = s32 (GET_POOL_MEM_SIZE (int iUnit) (int iMax)) in
          if \<not> malloc (u64 iMemCost) then Some (ERR_OBJPOOL_MEMOVER, Some None)
          else if iMax = 0 \<or> u64 iMemCost < 40 + 16 * int iMax then None
          else
            let idx = (map fresh_idx [0..<iMax])
                        [iMax - 1 := (fresh_idx (iMax - 1)) \<lparr> m_iNextIdx := -1 \<rparr>];
                nobj = nat ((u64 iMemCost - 40 - 16 * int iMax) div int iUnit)
            in Some (0, Some (Some
                 \<lparr> m_iUsedCount = 0, m_iFreeHead = 0, m_iFreeTail = s32 (int iMax - 1),
                   m_iUsedHead = -1, m_iCapacity = s32 (int iMax), m_iUnitSize = s32 (int iUnit),
                   m_pIdx = idx, m_pObj = map garbage [0..<nobj] \<rparr>)))"

definition objpool_destroy :: "'a TObjPoolPtr option \<Rightarrow> int \<times> 'a TObjPoolPtr option" where
  "objpool_destroy pObjPool = (0, map_option (\<lambda>_. None) pObjPool)"

definition objpool_get :: "'a TObjPoolPtr \<Rightarrow> int \<Rightarrow> int option fault" where
  "objpool_get pObjPool iIdx =
     (case pObjPool of
        None \<Rightarrow> Some None
      | Some p \<Rightarrow> do {
          iRealIdx \<leftarrow> c_mod iIdx (m_iCapacity p);
          if iRealIdx \<ge> m_iCapacity p \<or> iRealIdx < 0 \<or> m_iUsedCount p \<le> 0 then Some None
          else do {
            e \<leftarrow> arr_get (m_pIdx p) iRealIdx;
            let iBoundCheckIdx = s32 (s32 (m_iCapacity p * m_iAccumulate e) + iRealIdx);
            if iIdx \<noteq> iBoundCheckIdx then Some None
            else if m_iUsedFlag e = 0 then Some None
            else Some (Some (s32 (iRealIdx * m_iUnitSize p)))
          }
        })"

definition objpool_get_bypos :: "'a TObjPoolPtr \<Rightarrow> int \<Rightarrow> int option" where
  "objpool_get_bypos pObjPool iPos =
     (case pObjPool of
        None \<Rightarrow> None
      | Some p \<Rightarrow>
          if iPos \<ge> m_iCapacity p \<or> iPos < 0 \<or> m_iUsedCount p \<le> 0 then None
          else Some (s32 (iPos * m_iUnitSize p)))"

definition objpool_alloc :: "'a TObjPoolPtr \<Rightarrow> (int \<times> 'a TObjPoolPtr) fault" where
  "objpool_alloc pObjPool =
     (case pObjPool of
        None \<Rightarrow> Some (ERR_OBJPOOL_NULLPTR, None)
      | Some p \<Rightarrow>
          if m_iUsedCount p \<ge> m_iCapacity p then Some (ERR_OBJPOOL_FULL, Some p)
          else do {
            let iTempIdx = m_iFreeHead p;
            let iUsedPrevIdx = m_iUsedHead p;
            pNewIdx \<leftarrow> arr_get (m_pIdx p) iTempIdx;
            let iFreeNextIdx = m_iNextIdx pNewIdx;
            let p = p \<lparr> m_iFreeHead := iFreeNextIdx, m_iUsedHead := iTempIdx \<rparr>;
            let p = (if m_iFreeHead p < 0 then p \<lparr> m_iFreeTail := -1 \<rparr> else p);
            let p = p \<lparr> m_iUsedCount := s32 (m_iUsedCount p + 1) \<rparr>;
            a \<leftarrow> (if iFreeNextIdx \<ge> 0
                  then arr_upd (m_pIdx p) iFreeNextIdx (\<lambda>e. e \<lparr> m_iPrevIdx := -1 \<rparr>)
                  else Some (m_pIdx p));
            a \<leftarrow> (if iUsedPrevIdx \<ge> 0
                  then arr_upd a iUsedPrevIdx (\<lambda>e. e \<lparr> m_iPrevIdx := iTempIdx \<rparr>)
                  else Some a);
            a \<leftarrow> arr_upd a iTempIdx (\<lambda>e. e \<lparr> m_iUsedFlag := 1, m_iNextIdx := iUsedPrevIdx,
                   m_iPrevIdx := -1, m_iAccumulate := s32 (m_iAccumulate e + 1) \<rparr>);
            pNewIdx \<leftarrow> arr_get a iTempIdx;
            let iLogicIdx = s32 (s32 (m_iAccumulate pNewIdx * m_iCapacity p) + iTempIdx);
            if m_iAccumulate pNewIdx < 0 \<or> iLogicIdx < 0
            then do {
              a \<leftarrow> arr_upd a iTempIdx (\<lambda>e. e \<lparr> m_iAccumulate := 1 \<rparr>);
              Some (s32 (s32 (1 * m_iCapacity p) + iTempIdx), Some (p \<lparr> m_pIdx := a \<rparr>))
            }
            else Some (iLogicIdx, Some (p \<lparr> m_pIdx := a \<rparr>))
          })"

definition objpool_free :: "'a TObjPoolPtr \<Rightarrow> int \<Rightarrow> (int \<times> 'a TObjPoolPtr) fault" where
  "objpool_free pObjPool iIdx =
     (case pObjPool of
        None \<Rightarrow> Some (ERR_OBJPOOL_NULLPTR, None)
      | Some p \<Rightarrow> do {
          iReadIdx \<leftarrow> c_mod iIdx (m_iCapacity p);
          if iReadIdx \<ge> m_iCapacity p \<or> iReadIdx < 0 \<or> m_iUsedCount p \<le> 0
          then Some (ERR_OBJPOOL_LOGICERROR, Some p)
          else do {
            pCurIdx \<leftarrow> arr_get (m_pIdx p) iReadIdx;
            if m_iUsedFlag pCurIdx \<noteq> 1 then Some (ERR_OBJPOOL_LOGICERROR, Some p)
            else do {
              let iBoundCheckIdx = s32 (s32 (m_iCapacity p * m_iAccumulate pCurIdx) + iReadIdx);
              if iIdx \<noteq> iBoundCheckIdx then Some (ERR_OBJPOOL_LOGICERROR, Some p)
              else do {
                let iLastFreeTail = m_iFreeTail p;
                let iNextUsedIdx = m_iNextIdx pCurIdx;
                let iPrevUsedIdx = m_iPrevIdx pCurIdx;
                let p = p \<lparr> m_iFreeTail := iReadIdx \<rparr>;
                let p = (if iLastFreeTail < 0 then p \<lparr> m_iFreeHead := iReadIdx \<rparr> else p);
                let p = (if m_iUsedHead p = iReadIdx then p \<lparr> m_iUsedHead := iNextUsedIdx \<rparr> else p);
                let p = p \<lparr> m_iUsedCount := s32 (m_iUsedCount p - 1) \<rparr>;
                a \<leftarrow> (if iPrevUsedIdx \<ge> 0
                      then arr_upd (m_pIdx p) iPrevUsedIdx
                             (\<lambda>e. e \<lparr> m_iNextIdx := m_iNextIdx pCurIdx \<rparr>)
                      else Some (m_pIdx p));
                pCurIdx \<leftarrow> arr_get a iReadIdx;
                a \<leftarrow> (if iNextUsedIdx \<ge> 0
                      then arr_upd a iNextUsedIdx (\<lambda>e. e \<lparr> m_iPrevIdx := m_iPrevIdx pCurIdx \<rparr>)
                      else Some a);
                a \<leftarrow> (if iLastFreeTail \<ge> 0
                      then arr_upd a iLastFreeTail (\<lambda>e. e \<lparr> m_iNextIdx := iReadIdx \<rparr>)
                      else Some a);
                a \<leftarrow> arr_upd a iReadIdx (\<lambda>e. e \<lparr> m_iUsedFlag := 0, m_iNextIdx := -1,
                       m_iPrevIdx := iLastFreeTail \<rparr>);
                Some (0, Some (p \<lparr> m_pIdx := a \<rparr>))
              }
            }
          }
        })"

definition objpool_free_bypos :: "'a TObjPoolPtr \<Rightarrow> int \<Rightarrow> (int \<times> 'a TObjPoolPtr) fault" where
  "objpool_free_bypos pObjPool iPos =
     (case pObjPool of
        None \<Rightarrow> Some (ERR_OBJPOOL_NULLPTR, None)
      | Some p \<Rightarrow>
          if iPos \<ge> m_iCapacity p \<or> iPos < 0 \<or> m_iUsedCount p \<le> 0
          then Some (ERR_OBJPOOL_LOGICERROR, Some p)
          else do {
            pCurIdx \<leftarrow> arr_get (m_pIdx p) iPos;
            objpool_free (Some p) (s32 (s32 (m_iCapacity p * m_iAccumulate pCurIdx) + iPos))
          })"

text \<open>The two counters return \<open>size_t\<close>, so the error code comes out as \<open>SIZE_MAX\<close>.\<close>

definition objpool_get_used_items :: "'a TObjPoolPtr \<Rightarrow> int" where
  "objpool_get_used_items pObjPool =
     (case pObjPool of None \<Rightarrow> u64 ERR_OBJPOOL_NULLPTR | Some p \<Rightarrow> u64 (m_iUsedCount p))"

definition objpool_get_size :: "'a TObjPoolPtr \<Rightarrow> int" where
  "objpool_get_size pObjPool =
     (case pObjPool of None \<Rightarrow> u64 ERR_OBJPOOL_NULLPTR | Some p \<Rightarrow> u64 (m_iCapacity p))"

text \<open>
  Reading and writing through a pointer that the pool handed out: the pointer is the byte
  offset of a cell; anything else is outside the block or not aligned to a cell.
\<close>

definition cell_of :: "'a TObjPool \<Rightarrow> int \<Rightarrow> int" where
  "cell_of p off = (if off mod m_iUnitSize p = 0 then off div m_iUnitSize p else -1)"

definition obj_read :: "'a TObjPool \<Rightarrow> int \<Rightarrow> 'a fault" where
  "obj_read p off = arr_get (m_pObj p) (cell_of p off)"

definition obj_write :: "'a TObjPool \<Rightarrow> int \<Rightarrow> ('a \<Rightarrow> 'a) \<Rightarrow> 'a TObjPool fault" where
  "obj_write p off f = do {
     objs \<leftarrow> arr_upd (m_pObj p) (cell_of p off) f;
     Some (p \<lparr> m_pObj := objs \<rparr>)
   }"

text \<open>
  The traversal. The callback may change the pool and any other state \<open>'s\<close>; the loop reads
  the successor after the callback returned, so \<open>None\<close> is a fault or a loop that does not end.
\<close>

partial_function (option) travel_loop ::
  "(int option \<Rightarrow> 'a TObjPool \<times> 's \<Rightarrow> (TRAVEL_RET \<times> 'a TObjPool \<times> 's) option) \<Rightarrow>
     int \<Rightarrow> 'a TObjPool \<times> 's \<Rightarrow> ('a TObjPool \<times> 's) option" where
  "travel_loop pfnTravel i st =
     (if i = -1 then Some st
      else do {
        (ret, p, s) \<leftarrow> pfnTravel (objpool_get_bypos (Some (fst st)) i) st;
        if ret = BREAK_TRAVEL then Some (p, s)
        else do {
          e \<leftarrow> arr_get (m_pIdx p) i;
          if ret = REMOVE_ME
          then do {
            (_, pp) \<leftarrow> objpool_free_bypos (Some p) i;
            p \<leftarrow> pp;
            travel_loop pfnTravel (m_iNextIdx e) (p, s)
          }
          else travel_loop pfnTravel (m_iNextIdx e) (p, s)
        }
      })"

definition objpool_travel_used ::
  "(int option \<Rightarrow> 'a TObjPool \<times> 's \<Rightarrow> (TRAVEL_RET \<times> 'a TObjPool \<times> 's) option) \<Rightarrow>
     'a TObjPoolPtr \<Rightarrow> 's \<Rightarrow> (int \<times> 'a TObjPoolPtr \<times> 's) option" where
  "objpool_travel_used pfnTravel pObjPool s =
     (case pObjPool of
        None \<Rightarrow> Some (ERR_OBJPOOL_NULLPTR, None, s)
      | Some p \<Rightarrow> do {
          (p', s') \<leftarrow> travel_loop pfnTravel (m_iUsedHead p) (p, s);
          Some (0, Some p', s')
        })"

section \<open>Chains\<close>

fun hd_idx :: "nat list \<Rightarrow> int \<Rightarrow> int" where
  "hd_idx [] n = n"
| "hd_idx (x # _) n = int x"

fun last_idx :: "nat list \<Rightarrow> int \<Rightarrow> int" where
  "last_idx [] p = p"
| "last_idx (x # xs) p = last_idx xs (int x)"

fun dlseg :: "TPoolIdx list \<Rightarrow> int \<Rightarrow> nat list \<Rightarrow> int \<Rightarrow> bool" where
  "dlseg a p [] n \<longleftrightarrow> True"
| "dlseg a p (x # xs) n \<longleftrightarrow> x < length a \<and> m_iPrevIdx (a ! x) = p \<and>
     m_iNextIdx (a ! x) = hd_idx xs n \<and> dlseg a (int x) xs n"

lemma hd_idx_append [simp]: "hd_idx (xs @ ys) n = hd_idx xs (hd_idx ys n)"
  by (cases xs) auto

lemma last_idx_append [simp]: "last_idx (xs @ ys) p = last_idx ys (last_idx xs p)"
  by (induction xs arbitrary: p) auto

lemma hd_idx_nonneg: "0 \<le> hd_idx xs (-1) \<longleftrightarrow> xs \<noteq> []"
  by (cases xs) auto

lemma last_idx_nonneg: "0 \<le> last_idx xs (-1) \<longleftrightarrow> xs \<noteq> []"
  by (induction xs rule: rev_induct) auto

lemma dlseg_append [simp]:
  "dlseg a p (xs @ ys) n \<longleftrightarrow> dlseg a p xs (hd_idx ys n) \<and> dlseg a (last_idx xs p) ys n"
  by (induction xs arbitrary: p) auto

lemma dlseg_bound: "dlseg a p xs n \<Longrightarrow> x \<in> set xs \<Longrightarrow> x < length a"
  by (induction xs arbitrary: p) auto

lemma dlseg_cong:
  assumes "dlseg a p xs n" and "length a' = length a"
    and "\<And>x. x \<in> set xs \<Longrightarrow>
           m_iPrevIdx (a' ! x) = m_iPrevIdx (a ! x) \<and> m_iNextIdx (a' ! x) = m_iNextIdx (a ! x)"
  shows "dlseg a' p xs n"
  using assms by (induction xs arbitrary: p) auto

text \<open>Writing an entry of another chain leaves a chain alone.\<close>

lemma dlseg_upd_other [simp]: "x \<notin> set xs \<Longrightarrow> dlseg (a[x := v]) p xs n = dlseg a p xs n"
  by (induction xs arbitrary: p) (auto simp: nth_list_update)

text \<open>Relinking either end of a chain.\<close>

lemma dlseg_set_prev:
  assumes "dlseg a p (x # xs) n" and "x \<notin> set xs"
  shows "dlseg (a[x := (a ! x) \<lparr> m_iPrevIdx := q \<rparr>]) q (x # xs) n"
  using assms by simp

lemma dlseg_set_next:
  assumes "dlseg a p (xs @ [x]) n" and "x \<notin> set xs"
  shows "dlseg (a[x := (a ! x) \<lparr> m_iNextIdx := m \<rparr>]) p (xs @ [x]) m"
  using assms by simp

section \<open>Invariant\<close>

text \<open>\<open>us\<close> is the used chain from its head, \<open>fs\<close> the free chain.\<close>

definition acc_of :: "'a TObjPool \<Rightarrow> nat \<Rightarrow> int" where
  "acc_of p i = m_iAccumulate (m_pIdx p ! i)"

definition pool_shape :: "'a TObjPool \<Rightarrow> bool" where
  "pool_shape p \<longleftrightarrow>
     m_iCapacity p = int (length (m_pIdx p)) \<and> 0 < length (m_pIdx p) \<and>
     length (m_pObj p) = length (m_pIdx p) \<and> 0 < m_iUnitSize p \<and>
     (m_iUnitSize p + 16) * m_iCapacity p + 40 < 2147483648"

definition acc_ok :: "'a TObjPool \<Rightarrow> nat set \<Rightarrow> bool" where
  "acc_ok p U \<longleftrightarrow> (\<forall>i < length (m_pIdx p).
     0 \<le> acc_of p i \<and> acc_of p i * m_iCapacity p + int i < 2147483648 \<and>
     m_iUsedFlag (m_pIdx p ! i) = (if i \<in> U then 1 else 0) \<and>
     (i \<in> U \<longrightarrow> 1 \<le> acc_of p i))"

definition pool_chains :: "'a TObjPool \<Rightarrow> nat list \<Rightarrow> nat list \<Rightarrow> bool" where
  "pool_chains p us fs \<longleftrightarrow>
     dlseg (m_pIdx p) (-1) us (-1) \<and> m_iUsedHead p = hd_idx us (-1) \<and>
     dlseg (m_pIdx p) (-1) fs (-1) \<and> m_iFreeHead p = hd_idx fs (-1) \<and>
     m_iFreeTail p = last_idx fs (-1) \<and>
     distinct (us @ fs) \<and> set us \<union> set fs = {..<length (m_pIdx p)} \<and>
     m_iUsedCount p = int (length us)"

definition pool_rel :: "'a TObjPool \<Rightarrow> nat list \<Rightarrow> nat list \<Rightarrow> bool" where
  "pool_rel p us fs \<longleftrightarrow> pool_shape p \<and> pool_chains p us fs \<and> acc_ok p (set us)"

definition pool_inv :: "'a TObjPool \<Rightarrow> bool" where
  "pool_inv p \<longleftrightarrow> (\<exists>us fs. pool_rel p us fs)"

text \<open>The live handles and what they refer to.\<close>

definition pool_live :: "'a TObjPool \<Rightarrow> int \<Rightarrow> bool" where
  "pool_live p h \<longleftrightarrow> 0 \<le> h \<and>
     m_iUsedFlag (m_pIdx p ! nat (h mod m_iCapacity p)) = 1 \<and>
     acc_of p (nat (h mod m_iCapacity p)) * m_iCapacity p + h mod m_iCapacity p = h"

definition pool_map :: "'a TObjPool \<Rightarrow> int \<Rightarrow> 'a option" where
  "pool_map p h = (if pool_live p h then Some (m_pObj p ! nat (h mod m_iCapacity p)) else None)"

lemma pool_shape_cong:
  assumes "pool_shape p" and "length (m_pIdx q) = length (m_pIdx p)"
    and "length (m_pObj q) = length (m_pObj p)" and "m_iCapacity q = m_iCapacity p"
    and "m_iUnitSize q = m_iUnitSize p"
  shows "pool_shape q"
  using assms unfolding pool_shape_def by auto

lemma pool_shapeD:
  assumes "pool_shape p"
  shows "m_iCapacity p = int (length (m_pIdx p))" "0 < length (m_pIdx p)"
    "length (m_pObj p) = length (m_pIdx p)" "0 < m_iUnitSize p"
    "m_iCapacity p < 134217728"
    "i < length (m_pIdx p) \<Longrightarrow> int i * m_iUnitSize p + m_iUnitSize p < 2147483648"
proof -
  from assms show c: "m_iCapacity p = int (length (m_pIdx p))" "0 < length (m_pIdx p)"
    "length (m_pObj p) = length (m_pIdx p)" and u: "0 < m_iUnitSize p"
    by (auto simp: pool_shape_def)
  have b: "(m_iUnitSize p + 16) * m_iCapacity p + 40 < 2147483648"
    using assms unfolding pool_shape_def by blast
  have "0 \<le> m_iUnitSize p * m_iCapacity p" using u c by simp
  with b show "m_iCapacity p < 134217728" by (simp add: algebra_simps)
  assume "i < length (m_pIdx p)"
  then have "(int i + 1) * m_iUnitSize p \<le> m_iCapacity p * m_iUnitSize p"
    using u c by (intro mult_right_mono) auto
  with b c show "int i * m_iUnitSize p + m_iUnitSize p < 2147483648"
    by (simp add: algebra_simps)
qed

lemma pool_chains_length: "pool_chains p us fs \<Longrightarrow> length us + length fs = length (m_pIdx p)"
proof -
  assume ch: "pool_chains p us fs"
  then have "distinct (us @ fs)" "set (us @ fs) = {..<length (m_pIdx p)}"
    by (simp_all add: pool_chains_def)
  then show ?thesis by (metis card_lessThan distinct_card length_append)
qed

lemma handle_mod: "i < n \<Longrightarrow> (a * int n + int i) mod int n = int i"
  by simp

lemma pool_live_iff:
  assumes "pool_rel p us fs"
  shows "pool_live p h \<longleftrightarrow> (\<exists>i \<in> set us. h = acc_of p i * m_iCapacity p + int i)"
proof
  have sh: "pool_shape p" and ch: "pool_chains p us fs" and ac: "acc_ok p (set us)"
    using assms by (auto simp: pool_rel_def)
  note c = pool_shapeD [OF sh]
  { assume l: "pool_live p h"
    let ?i = "nat (h mod m_iCapacity p)"
    have i: "?i < length (m_pIdx p)" using c by (simp add: nat_less_iff)
    then have "?i \<in> set us" using l ac by (auto simp: pool_live_def acc_ok_def split: if_splits)
    moreover have "h = acc_of p ?i * m_iCapacity p + int ?i" using l c by (simp add: pool_live_def)
    ultimately show "\<exists>i \<in> set us. h = acc_of p i * m_iCapacity p + int i" by blast }
  { assume "\<exists>i \<in> set us. h = acc_of p i * m_iCapacity p + int i"
    then obtain i where i: "i \<in> set us" and h: "h = acc_of p i * m_iCapacity p + int i" by blast
    have il: "i < length (m_pIdx p)" using i ch by (auto simp: pool_chains_def)
    have m: "h mod m_iCapacity p = int i" unfolding h using c(1) il by simp
    show "pool_live p h" using i il ac c(1) h by (simp add: pool_live_def m acc_ok_def) }
qed


lemma pool_relD:
  assumes "pool_rel p us fs"
  shows "pool_shape p" "pool_chains p us fs" "acc_ok p (set us)"
  using assms by (auto simp: pool_rel_def)

lemma handle_eq: "i < length (m_pIdx p) \<Longrightarrow> acc_ok p U \<Longrightarrow> pool_shape p \<Longrightarrow>
   s32 (s32 (m_iCapacity p * m_iAccumulate (m_pIdx p ! i)) + int i) =
     acc_of p i * m_iCapacity p + int i"
proof -
  assume i: "i < length (m_pIdx p)" and ac: "acc_ok p U" and sh: "pool_shape p"
  note c = pool_shapeD [OF sh]
  have a: "0 \<le> acc_of p i" "acc_of p i * m_iCapacity p + int i < 2147483648"
    using ac i by (auto simp: acc_ok_def)
  have "0 \<le> acc_of p i * m_iCapacity p" using a(1) c by simp
  with a(2) show ?thesis
    by (simp add: int32_simps acc_of_def mult.commute)
qed

text \<open>Every handle the pool does not hold is refused; a held one yields its cell.\<close>

lemma objpool_get_rel:
  assumes r: "pool_rel p us fs"
  shows "objpool_get (Some p) h =
    Some (if pool_live p h then Some ((h mod m_iCapacity p) * m_iUnitSize p) else None)"
proof -
  note sh = pool_relD(1) [OF r] and ch = pool_relD(2) [OF r] and ac = pool_relD(3) [OF r]
  note c = pool_shapeD [OF sh]
  obtain k where k: "c_mod h (m_iCapacity p) = Some k" and kb: "k < m_iCapacity p"
      and kneg: "h < 0 \<longrightarrow> k \<le> 0" and kpos: "0 \<le> h \<longrightarrow> 0 \<le> k \<and> k = h mod m_iCapacity p"
    using c_mod_pos [of "m_iCapacity p" h] c(1,2) by auto
  show ?thesis
  proof (cases "k < 0 \<or> m_iUsedCount p \<le> 0")
    case True
    moreover have "\<not> pool_live p h"
    proof (cases "k < 0")
      case True with kpos have "h < 0" by linarith
      then show ?thesis by (simp add: pool_live_def)
    next
      case False with True have "us = []" using ch by (auto simp: pool_chains_def)
      then show ?thesis by (simp add: pool_live_iff [OF r])
    qed
    ultimately show ?thesis using k by (auto simp: objpool_get_def)
  next
    case False
    let ?i = "nat k"
    have i: "?i < length (m_pIdx p)" "k = int ?i" using False kb c by auto
    have g: "arr_get (m_pIdx p) k = Some (m_pIdx p ! ?i)" using i arr_get_int by metis
    have hq: "s32 (s32 (m_iCapacity p * m_iAccumulate (m_pIdx p ! ?i)) + k) =
        acc_of p ?i * m_iCapacity p + k"
      using handle_eq [OF i(1) ac sh] i(2) by simp
    have off: "s32 (k * m_iUnitSize p) = k * m_iUnitSize p"
    proof (rule s32_id)
      have "0 \<le> k * m_iUnitSize p" using False c(4) by simp
      then show "- 2147483648 \<le> k * m_iUnitSize p" by simp
      show "k * m_iUnitSize p < 2147483648" using c(6) [OF i(1)] c(4) i(2) by simp
    qed
    have nn: "0 \<le> acc_of p ?i * m_iCapacity p + k"
      using ac i c(1) False by (auto simp: acc_ok_def)
    have uf: "m_iUsedFlag (m_pIdx p ! ?i) \<in> {0, 1}" using ac i(1) by (auto simp: acc_ok_def)
    have live: "pool_live p h \<longleftrightarrow> h = acc_of p ?i * m_iCapacity p + k \<and> m_iUsedFlag (m_pIdx p ! ?i) \<noteq> 0"
    proof
      assume l: "pool_live p h"
      then have "0 \<le> h" by (simp add: pool_live_def)
      with kpos have "k = h mod m_iCapacity p" by simp
      with l show "h = acc_of p ?i * m_iCapacity p + k \<and> m_iUsedFlag (m_pIdx p ! ?i) \<noteq> 0"
        by (simp add: pool_live_def)
    next
      assume a: "h = acc_of p ?i * m_iCapacity p + k \<and> m_iUsedFlag (m_pIdx p ! ?i) \<noteq> 0"
      then have h0: "0 \<le> h" using nn by linarith
      with kpos have "h mod m_iCapacity p = k" by blast
      with a h0 uf show "pool_live p h" unfolding pool_live_def by auto
    qed
    have km: "pool_live p h \<Longrightarrow> h mod m_iCapacity p = k"
      using kpos by (auto simp: pool_live_def)
    have "objpool_get (Some p) h = Some (if h \<noteq> acc_of p ?i * m_iCapacity p + k then None
        else if m_iUsedFlag (m_pIdx p ! ?i) = 0 then None else Some (k * m_iUnitSize p))"
      using False kb by (simp add: objpool_get_def k g hq off)
    then show ?thesis using live km by (simp split: if_splits)
  qed
qed


section \<open>Relinking\<close>

definition set_head_prev :: "TPoolIdx list \<Rightarrow> nat list \<Rightarrow> int \<Rightarrow> TPoolIdx list" where
  "set_head_prev a xs q =
     (case xs of [] \<Rightarrow> a | x # _ \<Rightarrow> a[x := (a ! x) \<lparr> m_iPrevIdx := q \<rparr>])"

definition set_last_next :: "TPoolIdx list \<Rightarrow> nat list \<Rightarrow> int \<Rightarrow> TPoolIdx list" where
  "set_last_next a xs q =
     (if xs = [] then a else a[last xs := (a ! last xs) \<lparr> m_iNextIdx := q \<rparr>])"

lemma last_idx_last: "xs \<noteq> [] \<Longrightarrow> last_idx xs p = int (last xs)"
  by (induction xs rule: rev_induct) auto

lemma relink_length [simp]:
  "length (set_head_prev a xs q) = length a" "length (set_last_next a xs q) = length a"
  by (auto simp: set_head_prev_def set_last_next_def split: list.splits)

lemma relink_fields [simp]:
  "m_iAccumulate (set_head_prev a xs q ! i) = m_iAccumulate (a ! i)"
  "m_iUsedFlag (set_head_prev a xs q ! i) = m_iUsedFlag (a ! i)"
  "m_iNextIdx (set_head_prev a xs q ! i) = m_iNextIdx (a ! i)"
  "m_iAccumulate (set_last_next a xs q ! i) = m_iAccumulate (a ! i)"
  "m_iUsedFlag (set_last_next a xs q ! i) = m_iUsedFlag (a ! i)"
  "m_iPrevIdx (set_last_next a xs q ! i) = m_iPrevIdx (a ! i)"
  by (auto simp: set_head_prev_def set_last_next_def nth_update_field split: list.splits)

lemma relink_other [simp]:
  "i \<notin> set xs \<Longrightarrow> set_head_prev a xs q ! i = a ! i"
  "i \<notin> set xs \<Longrightarrow> set_last_next a xs q ! i = a ! i"
  by (auto simp: set_head_prev_def set_last_next_def split: list.splits)
    (metis last_in_set nth_list_update_neq)

lemma dlseg_relink_other [simp]:
  "set xs \<inter> set ys = {} \<Longrightarrow> dlseg (set_head_prev a xs q) p ys n = dlseg a p ys n"
  "set xs \<inter> set ys = {} \<Longrightarrow> dlseg (set_last_next a xs q) p ys n = dlseg a p ys n"
  by (auto simp: set_head_prev_def set_last_next_def disjoint_iff split: list.splits)

lemma dlseg_set_head_prev:
  "dlseg a p xs n \<Longrightarrow> distinct xs \<Longrightarrow> dlseg (set_head_prev a xs q) q xs n"
  by (cases xs) (auto simp: set_head_prev_def)

lemma dlseg_set_last_next:
  "dlseg a p xs n \<Longrightarrow> distinct xs \<Longrightarrow> dlseg (set_last_next a xs m) p xs m"
  by (cases xs rule: rev_cases) (auto simp: set_last_next_def)

text \<open>The guarded pointer writes of the code are these relinkings.\<close>

lemma head_prev_write:
  "dlseg a p xs n \<Longrightarrow>
   (if hd_idx xs (-1) \<ge> 0 then arr_upd a (hd_idx xs (-1)) (\<lambda>e. e \<lparr> m_iPrevIdx := q \<rparr>) else Some a)
     = Some (set_head_prev a xs q)"
  by (cases xs) (auto simp: set_head_prev_def arr_simps)

lemma last_next_write:
  "dlseg a p xs n \<Longrightarrow>
   (if last_idx xs (-1) \<ge> 0 then arr_upd a (last_idx xs (-1)) (\<lambda>e. e \<lparr> m_iNextIdx := q \<rparr>) else Some a)
     = Some (set_last_next a xs q)"
  by (cases xs rule: rev_cases) (auto simp: set_last_next_def arr_simps)

section \<open>Allocation\<close>

text \<open>The generation of a slot's next handle: it restarts at 1 when the handle would overflow.\<close>

definition next_acc :: "'a TObjPool \<Rightarrow> nat \<Rightarrow> int" where
  "next_acc p f =
     (if (acc_of p f + 1) * m_iCapacity p + int f < 2147483648 then acc_of p f + 1 else 1)"

definition pool_push :: "'a TObjPool \<Rightarrow> nat list \<Rightarrow> nat \<Rightarrow> nat list \<Rightarrow> 'a TObjPool" where
  "pool_push p us f fs = p
     \<lparr> m_iFreeHead := hd_idx fs (-1), m_iUsedHead := int f,
       m_iFreeTail := last_idx fs (-1), m_iUsedCount := m_iUsedCount p + 1,
       m_pIdx := (set_head_prev (set_head_prev (m_pIdx p) fs (-1)) us (int f))
         [f := \<lparr> m_iNextIdx = hd_idx us (-1), m_iPrevIdx = -1,
                  m_iAccumulate = next_acc p f, m_iUsedFlag = 1 \<rparr>] \<rparr>"

lemma idx_overwrite:
  "e \<lparr> m_iUsedFlag := u, m_iNextIdx := n, m_iPrevIdx := q, m_iAccumulate := g \<rparr> =
     \<lparr> m_iNextIdx = n, m_iPrevIdx = q, m_iAccumulate = g, m_iUsedFlag = u \<rparr>"
  for e :: TPoolIdx
  by (rule TPoolIdx.equality) simp_all

lemma alloc_handle:
  assumes sh: "pool_shape p" and ac: "acc_ok p U" and f: "f < length (m_pIdx p)"
  defines "a \<equiv> s32 (acc_of p f + 1)"
  defines "h \<equiv> s32 (s32 (a * m_iCapacity p) + int f)"
  shows "(if a < 0 \<or> h < 0 then 1 else a) = next_acc p f"
    and "(if a < 0 \<or> h < 0 then s32 (s32 (1 * m_iCapacity p) + int f) else h) =
           next_acc p f * m_iCapacity p + int f"
    and "1 \<le> next_acc p f" and "next_acc p f * m_iCapacity p + int f < 2147483648"
proof -
  note c = pool_shapeD [OF sh]
  have b: "0 \<le> acc_of p f" "acc_of p f * m_iCapacity p + int f < 2147483648"
    using ac f by (auto simp: acc_ok_def)
  have c1: "1 \<le> m_iCapacity p" "int f < m_iCapacity p" using c f by auto
  have "acc_of p f * 1 \<le> acc_of p f * m_iCapacity p" using b(1) c1 by (intro mult_left_mono) auto
  then have al: "acc_of p f < 2147483648" using b by simp
  let ?v = "(acc_of p f + 1) * m_iCapacity p + int f"
  have v: "0 \<le> ?v" "?v < 4294967296" using b c(5) c1 by (auto simp: algebra_simps)
  have one: "s32 (s32 (1 * m_iCapacity p) + int f) = m_iCapacity p + int f"
    using c(5) c1 by (simp add: int32_simps)
  show "1 \<le> next_acc p f" "next_acc p f * m_iCapacity p + int f < 2147483648"
    using b c(5) c1 by (auto simp: next_acc_def)
  have key: "(if a < 0 \<or> h < 0 then 1 else a) = next_acc p f \<and>
     (if a < 0 \<or> h < 0 then s32 (s32 (1 * m_iCapacity p) + int f) else h) =
        next_acc p f * m_iCapacity p + int f"
  proof (cases "acc_of p f + 1 < 2147483648")
    case True
    then have a: "a = acc_of p f + 1" using b(1) by (simp add: a_def s32_id)
    then have h: "h = s32 ?v" by (simp add: h_def s32_add_s32)
    show ?thesis
    proof (cases "?v < 2147483648")
      case True
      then have "h = ?v" using h v by (simp add: s32_id)
      then show ?thesis using a b(1) v True by (simp add: next_acc_def)
    next
      case False
      then have "h < 0" using h v s32_wraps_negative [of ?v] by simp
      then show ?thesis using False one by (simp add: next_acc_def)
    qed
  next
    case False
    then have acc: "acc_of p f = 2147483647" using al by simp
    then have "a < 0" by (simp add: a_def s32_def)
    moreover have "2147483648 * 1 \<le> 2147483648 * m_iCapacity p" using c1 by simp
    then have "\<not> ?v < 2147483648" using acc by simp
    ultimately show ?thesis using one by (simp add: next_acc_def)
  qed
  from key show "(if a < 0 \<or> h < 0 then 1 else a) = next_acc p f" by blast
  from key show "(if a < 0 \<or> h < 0 then s32 (s32 (1 * m_iCapacity p) + int f) else h) =
           next_acc p f * m_iCapacity p + int f" by blast
qed


lemma objpool_alloc_eq:
  assumes r: "pool_rel p us (f # fs)"
  shows "objpool_alloc (Some p) =
    Some (next_acc p f * m_iCapacity p + int f, Some (pool_push p us f fs))"
proof -
  note sh = pool_relD(1) [OF r] and ch = pool_relD(2) [OF r] and ac = pool_relD(3) [OF r]
  note c = pool_shapeD [OF sh]
  have d: "distinct (us @ f # fs)" "dlseg (m_pIdx p) (-1) us (-1)" "f < length (m_pIdx p)"
      "m_iNextIdx (m_pIdx p ! f) = hd_idx fs (-1)" "dlseg (m_pIdx p) (int f) fs (-1)"
      "m_iUsedHead p = hd_idx us (-1)" "m_iFreeHead p = int f"
      "m_iFreeTail p = last_idx fs (int f)" "m_iUsedCount p = int (length us)"
    using ch by (auto simp: pool_chains_def)
  have cnt: "m_iUsedCount p < m_iCapacity p" using pool_chains_length [OF ch] c(1) d(9) by simp
  let ?a1 = "set_head_prev (m_pIdx p) fs (-1)"
  let ?a2 = "set_head_prev ?a1 us (int f)"
  have w1: "(if hd_idx fs (-1) \<ge> 0 then arr_upd (m_pIdx p) (hd_idx fs (-1)) (\<lambda>e. e \<lparr> m_iPrevIdx := -1 \<rparr>)
       else Some (m_pIdx p)) = Some ?a1"
    by (rule head_prev_write [OF d(5)])
  have "dlseg ?a1 (-1) us (-1)" using d by (simp add: Int_commute)
  note w2 = head_prev_write [OF this]
  have f2: "?a2 ! f = m_pIdx p ! f" using d(1) by simp
  have cnt1: "s32 (m_iUsedCount p + 1) = m_iUsedCount p + 1"
    using cnt c(5) d(9) by (intro s32_id) auto
  note hd = alloc_handle [OF sh ac d(3)]
  have ft: "(if hd_idx fs (-1) < 0 then -1 else m_iFreeTail p) = last_idx fs (-1)"
    using d(8) by (cases fs) auto
  define q where "q = (if hd_idx fs (-1) < 0 then -1 else m_iFreeTail p)"
  have qe: "(if hd_idx fs (-1) < 0
      then p \<lparr> m_iFreeHead := hd_idx fs (-1), m_iUsedHead := int f, m_iFreeTail := -1 \<rparr>
      else p \<lparr> m_iFreeHead := hd_idx fs (-1), m_iUsedHead := int f \<rparr>) =
    p \<lparr> m_iFreeHead := hd_idx fs (-1), m_iUsedHead := int f, m_iFreeTail := q \<rparr>"
    by (simp add: q_def)
  have fin: "objpool_alloc (Some p) = (let a = s32 (acc_of p f + 1);
      h = s32 (s32 (a * m_iCapacity p) + int f);
      e = \<lambda>g. \<lparr> m_iNextIdx = hd_idx us (-1), m_iPrevIdx = -1, m_iAccumulate = g, m_iUsedFlag = 1 \<rparr>;
      P = \<lambda>g. p \<lparr> m_iFreeHead := hd_idx fs (-1), m_iUsedHead := int f, m_iFreeTail := q,
            m_iUsedCount := m_iUsedCount p + 1, m_pIdx := ?a2[f := e g] \<rparr>
     in if a < 0 \<or> h < 0 then Some (s32 (s32 (1 * m_iCapacity p) + int f), Some (P 1))
        else Some (h, Some (P a)))"
    using cnt
    apply (simp add: objpool_alloc_def Let_def d(4,6,7) arr_simps d(3) w1 w2 f2 cnt1 acc_of_def qe idx_overwrite cong: if_cong split del: if_split)
    done
  have "q = last_idx fs (-1)" using ft by (simp add: q_def)
  then show ?thesis using hd(1,2) unfolding fin Let_def pool_push_def
    by (auto split: if_splits)
qed


lemma pool_push_rel:
  assumes r: "pool_rel p us (f # fs)"
  shows "pool_rel (pool_push p us f fs) (f # us) fs"
    and "i < length (m_pIdx p) \<Longrightarrow> acc_of (pool_push p us f fs) i = (if i = f then next_acc p f else acc_of p i)"
proof -
  note sh = pool_relD(1) [OF r] and ch = pool_relD(2) [OF r] and ac = pool_relD(3) [OF r]
  have d: "distinct (us @ f # fs)" "dlseg (m_pIdx p) (-1) us (-1)" "f < length (m_pIdx p)"
      "dlseg (m_pIdx p) (int f) fs (-1)" "m_iUsedCount p = int (length us)"
      "set us \<union> set (f # fs) = {..<length (m_pIdx p)}"
    using ch by (auto simp: pool_chains_def)
  let ?p = "pool_push p us f fs"
  let ?a1 = "set_head_prev (m_pIdx p) fs (-1)"
  let ?a2 = "set_head_prev ?a1 us (int f)"
  have "dlseg ?a1 (-1) fs (-1)" using d by (intro dlseg_set_head_prev) auto
  then have fr: "dlseg ?a2 (-1) fs (-1)" using d by simp
  have "dlseg ?a1 (-1) us (-1)" using d by (simp add: Int_commute)
  then have us: "dlseg ?a2 (int f) us (-1)" using d by (intro dlseg_set_head_prev) auto
  have c1: "pool_chains ?p (f # us) fs"
    using d fr us by (auto simp: pool_chains_def pool_push_def)
  show acc: "acc_of ?p i = (if i = f then next_acc p f else acc_of p i)"
    if "i < length (m_pIdx p)" for i
    using that d(3) by (auto simp: acc_of_def pool_push_def nth_list_update)
  have "acc_ok ?p (set (f # us))"
    unfolding acc_ok_def
  proof (intro allI impI)
    fix i assume "i < length (m_pIdx ?p)"
    then have i: "i < length (m_pIdx p)" by (simp add: pool_push_def)
    have cap: "m_iCapacity ?p = m_iCapacity p" by (simp add: pool_push_def)
    have fl: "m_iUsedFlag (m_pIdx ?p ! i) = (if i = f then 1 else m_iUsedFlag (m_pIdx p ! i))"
      using i by (auto simp: pool_push_def nth_list_update)
    show "0 \<le> acc_of ?p i \<and> acc_of ?p i * m_iCapacity ?p + int i < 2147483648 \<and>
       m_iUsedFlag (m_pIdx ?p ! i) = (if i \<in> set (f # us) then 1 else 0) \<and>
       (i \<in> set (f # us) \<longrightarrow> 1 \<le> acc_of ?p i)"
    proof (cases "i = f")
      case True
      then show ?thesis using alloc_handle(3,4) [OF sh ac d(3)] acc [OF i] fl by (simp add: cap)
    next
      case False
      then show ?thesis using ac i by (simp add: acc [OF i] cap fl acc_ok_def)
    qed
  qed
  moreover have "pool_shape ?p" by (rule pool_shape_cong [OF sh]) (simp_all add: pool_push_def)
  ultimately show "pool_rel ?p (f # us) fs" using c1 by (simp add: pool_rel_def)
qed

section \<open>Release\<close>

definition pool_pull :: "'a TObjPool \<Rightarrow> nat list \<Rightarrow> nat \<Rightarrow> nat list \<Rightarrow> nat list \<Rightarrow> 'a TObjPool" where
  "pool_pull p us1 x us2 fs = p
     \<lparr> m_iFreeTail := int x, m_iFreeHead := hd_idx fs (int x),
       m_iUsedHead := hd_idx (us1 @ us2) (-1), m_iUsedCount := m_iUsedCount p - 1,
       m_pIdx := (set_last_next (set_head_prev (set_last_next (m_pIdx p) us1 (hd_idx us2 (-1)))
                     us2 (last_idx us1 (-1))) fs (int x))
         [x := \<lparr> m_iNextIdx = -1, m_iPrevIdx = last_idx fs (-1),
                  m_iAccumulate = acc_of p x, m_iUsedFlag = 0 \<rparr>] \<rparr>"

lemma objpool_free_eq:
  assumes r: "pool_rel p (us1 @ x # us2) fs"
  shows "objpool_free (Some p) (acc_of p x * m_iCapacity p + int x) =
    Some (0, Some (pool_pull p us1 x us2 fs))"
proof -
  note sh = pool_relD(1) [OF r] and ch = pool_relD(2) [OF r] and ac = pool_relD(3) [OF r]
  note c = pool_shapeD [OF sh]
  have d: "distinct (us1 @ x # us2 @ fs)" "dlseg (m_pIdx p) (-1) us1 (int x)"
      "dlseg (m_pIdx p) (int x) us2 (-1)" "dlseg (m_pIdx p) (-1) fs (-1)"
      "x < length (m_pIdx p)" "m_iPrevIdx (m_pIdx p ! x) = last_idx us1 (-1)"
      "m_iNextIdx (m_pIdx p ! x) = hd_idx us2 (-1)"
      "m_iUsedHead p = hd_idx us1 (int x)" "m_iFreeHead p = hd_idx fs (-1)"
      "m_iFreeTail p = last_idx fs (-1)" "m_iUsedCount p = 1 + int (length us1) + int (length us2)"
    using ch by (auto simp: pool_chains_def)
  let ?h = "acc_of p x * m_iCapacity p + int x"
  have xc: "int x < m_iCapacity p" using c d(5) by simp
  have ax: "0 \<le> acc_of p x" "m_iUsedFlag (m_pIdx p ! x) = 1"
    using ac d(5) by (auto simp: acc_ok_def)
  have cm: "c_mod ?h (m_iCapacity p) = Some (int x)"
    using ax(1) c(1,2) d(5) by (simp add: c_mod_nonneg)
  have hq: "s32 (s32 (m_iCapacity p * m_iAccumulate (m_pIdx p ! x)) + int x) = ?h"
    by (rule handle_eq [OF d(5) ac sh])
  have cnt: "s32 (m_iUsedCount p - 1) = m_iUsedCount p - 1"
    using c(1,5) d(11) pool_chains_length [OF ch] by (intro s32_id) auto
  let ?a1 = "set_last_next (m_pIdx p) us1 (hd_idx us2 (-1))"
  let ?a2 = "set_head_prev ?a1 us2 (last_idx us1 (-1))"
  let ?a3 = "set_last_next ?a2 fs (int x)"
  note w1 = last_next_write [OF d(2)]
  have dj: "set us1 \<inter> set us2 = {}" "set us1 \<inter> set fs = {}" "set us2 \<inter> set fs = {}"
    using d(1) by auto
  have "dlseg ?a1 (int x) us2 (-1)" using d(3) by (simp add: dj)
  note w2 = head_prev_write [OF this]
  have "dlseg ?a2 (-1) fs (-1)" using d(4) by (simp add: dj)
  note w3 = last_next_write [OF this]
  have x1: "?a1 ! x = m_pIdx p ! x" and x3: "?a3 ! x = m_pIdx p ! x" using d(1) by auto
  have uh: "(if hd_idx us1 (int x) = int x then hd_idx us2 (-1) else hd_idx us1 (int x)) =
      hd_idx us1 (hd_idx us2 (-1))"
    using d(1) by (cases us1) auto
  have fh: "(if last_idx fs (-1) < 0 then int x else hd_idx fs (-1)) = hd_idx fs (int x)"
    using last_idx_nonneg [of fs] by (cases fs) auto
  have q1: "(if last_idx fs (-1) < 0 then p \<lparr> m_iFreeTail := int x, m_iFreeHead := int x \<rparr>
       else p \<lparr> m_iFreeTail := int x \<rparr>) =
     p \<lparr> m_iFreeTail := int x, m_iFreeHead := hd_idx fs (int x) \<rparr>"
    using fh d(9) by (auto split: if_splits)
  have q2: "(if hd_idx us1 (int x) = int x
       then p \<lparr> m_iFreeTail := int x, m_iFreeHead := hd_idx fs (int x), m_iUsedHead := hd_idx us2 (-1) \<rparr>
       else p \<lparr> m_iFreeTail := int x, m_iFreeHead := hd_idx fs (int x) \<rparr>) =
     p \<lparr> m_iFreeTail := int x, m_iFreeHead := hd_idx fs (int x),
         m_iUsedHead := hd_idx us1 (hd_idx us2 (-1)) \<rparr>"
    using uh d(8) by (auto split: if_splits)
  have e3: "(m_pIdx p ! x) \<lparr> m_iUsedFlag := 0, m_iNextIdx := -1, m_iPrevIdx := last_idx fs (-1) \<rparr> =
     \<lparr> m_iNextIdx = -1, m_iPrevIdx = last_idx fs (-1), m_iAccumulate = acc_of p x, m_iUsedFlag = 0 \<rparr>"
    by (rule TPoolIdx.equality) (simp_all add: acc_of_def)
  have "0 < m_iUsedCount p" using d(11) by simp
  then show ?thesis
    using xc ax
    by (simp add: objpool_free_def cm arr_simps d(5-8) d(10) hq Let_def q1 q2 w1 x1 w2 w3 x3 cnt e3
        pool_pull_def cong: if_cong split del: if_split)
qed


lemma pool_pull_rel:
  assumes r: "pool_rel p (us1 @ x # us2) fs"
  shows "pool_rel (pool_pull p us1 x us2 fs) (us1 @ us2) (fs @ [x])"
    and "acc_of (pool_pull p us1 x us2 fs) i = acc_of p i"
proof -
  note sh = pool_relD(1) [OF r] and ch = pool_relD(2) [OF r] and ac = pool_relD(3) [OF r]
  have d: "distinct (us1 @ x # us2 @ fs)" "dlseg (m_pIdx p) (-1) us1 (int x)"
      "dlseg (m_pIdx p) (int x) us2 (-1)" "dlseg (m_pIdx p) (-1) fs (-1)"
      "x < length (m_pIdx p)" "m_iUsedCount p = 1 + int (length us1) + int (length us2)"
      "insert x (set us1 \<union> set us2 \<union> set fs) = {..<length (m_pIdx p)}"
    using ch by (auto simp: pool_chains_def)
  have dj: "set us1 \<inter> set us2 = {}" "set us1 \<inter> set fs = {}" "set us2 \<inter> set fs = {}"
      "set us2 \<inter> set us1 = {}" "set fs \<inter> set us1 = {}" "set fs \<inter> set us2 = {}"
      "distinct us1" "distinct us2" "distinct fs" "x \<notin> set us1" "x \<notin> set us2" "x \<notin> set fs"
    using d(1) by auto
  let ?p = "pool_pull p us1 x us2 fs"
  let ?a1 = "set_last_next (m_pIdx p) us1 (hd_idx us2 (-1))"
  let ?a2 = "set_head_prev ?a1 us2 (last_idx us1 (-1))"
  let ?a3 = "set_last_next ?a2 fs (int x)"
  have u1: "dlseg ?a3 (-1) us1 (hd_idx us2 (-1))"
    using dlseg_set_last_next [OF d(2) dj(7)] by (simp add: dj)
  have "dlseg ?a1 (int x) us2 (-1)" using d(3) by (simp add: dj)
  from dlseg_set_head_prev [OF this dj(8)] have u2: "dlseg ?a3 (last_idx us1 (-1)) us2 (-1)"
    by (simp add: dj)
  have "dlseg ?a2 (-1) fs (-1)" using d(4) by (simp add: dj)
  from dlseg_set_last_next [OF this dj(9)] have f1: "dlseg ?a3 (-1) fs (int x)" .
  have c1: "pool_chains ?p (us1 @ us2) (fs @ [x])"
    using d(5-7) u1 u2 f1 dj by (auto simp: pool_chains_def pool_pull_def)
  show acc: "acc_of ?p i = acc_of p i" for i
    using d(5) by (cases "i = x") (auto simp: acc_of_def pool_pull_def)
  have "acc_ok ?p (set (us1 @ us2))"
    unfolding acc_ok_def
  proof (intro allI impI)
    fix i assume "i < length (m_pIdx ?p)"
    then have i: "i < length (m_pIdx p)" by (simp add: pool_pull_def)
    have cap: "m_iCapacity ?p = m_iCapacity p" by (simp add: pool_pull_def)
    have fl: "m_iUsedFlag (m_pIdx ?p ! i) = (if i = x then 0 else m_iUsedFlag (m_pIdx p ! i))"
      using i by (auto simp: pool_pull_def nth_list_update)
    show "0 \<le> acc_of ?p i \<and> acc_of ?p i * m_iCapacity ?p + int i < 2147483648 \<and>
       m_iUsedFlag (m_pIdx ?p ! i) = (if i \<in> set (us1 @ us2) then 1 else 0) \<and>
       (i \<in> set (us1 @ us2) \<longrightarrow> 1 \<le> acc_of ?p i)"
      using ac i dj(10,11) by (auto simp: acc cap fl acc_ok_def)
  qed
  moreover have "pool_shape ?p" by (rule pool_shape_cong [OF sh]) (simp_all add: pool_pull_def)
  ultimately show "pool_rel ?p (us1 @ us2) (fs @ [x])" using c1 by (simp add: pool_rel_def)
qed

text \<open>Handles that are not live are refused and nothing changes.\<close>

lemma objpool_free_dead:
  assumes r: "pool_rel p us fs" and nl: "\<not> pool_live p h"
  shows "objpool_free (Some p) h = Some (ERR_OBJPOOL_LOGICERROR, Some p)"
proof -
  note sh = pool_relD(1) [OF r] and ch = pool_relD(2) [OF r] and ac = pool_relD(3) [OF r]
  note c = pool_shapeD [OF sh]
  obtain k where k: "c_mod h (m_iCapacity p) = Some k" and kb: "k < m_iCapacity p"
      and kpos: "0 \<le> h \<longrightarrow> 0 \<le> k \<and> k = h mod m_iCapacity p"
    using c_mod_pos [of "m_iCapacity p" h] c(1,2) by auto
  show ?thesis
  proof (cases "k < 0 \<or> m_iUsedCount p \<le> 0")
    case True
    with k show ?thesis by (auto simp: objpool_free_def)
  next
    case False
    let ?i = "nat k"
    have i: "?i < length (m_pIdx p)" "k = int ?i" using False kb c by auto
    have g: "arr_get (m_pIdx p) k = Some (m_pIdx p ! ?i)" using i arr_get_int by metis
    have hq: "s32 (s32 (m_iCapacity p * m_iAccumulate (m_pIdx p ! ?i)) + k) =
        acc_of p ?i * m_iCapacity p + k"
      using handle_eq [OF i(1) ac sh] i(2) by simp
    have "m_iUsedFlag (m_pIdx p ! ?i) = 1 \<Longrightarrow> h \<noteq> acc_of p ?i * m_iCapacity p + k"
      using nl i ac pool_live_iff [OF r] by (auto simp: acc_ok_def split: if_splits)
    then show ?thesis using False kb by (auto simp: objpool_free_def k g hq)
  qed
qed


section \<open>The pool as a finite map\<close>

lemma handle_inj:
  assumes "i < n" "j < n" and "a * int n + int i = b * int n + int j"
  shows "i = j \<and> a = b"
proof -
  have "int i = int j" using assms by (metis handle_mod)
  with assms show ?thesis by auto
qed

lemma pool_map_iff:
  assumes r: "pool_rel p us fs"
  shows "pool_map p h = Some v \<longleftrightarrow>
    (\<exists>i \<in> set us. h = acc_of p i * m_iCapacity p + int i \<and> v = m_pObj p ! i)"
proof -
  note c = pool_shapeD [OF pool_relD(1) [OF r]]
  have b: "i < length (m_pIdx p)" if "i \<in> set us" for i
    using pool_relD(2) [OF r] that by (auto simp: pool_chains_def)
  have m: "nat ((acc_of p i * m_iCapacity p + int i) mod m_iCapacity p) = i" if "i \<in> set us" for i
    unfolding c(1) handle_mod [OF b [OF that]] by simp
  show ?thesis
  proof
    assume a: "pool_map p h = Some v"
    then have "pool_live p h" and v: "v = m_pObj p ! nat (h mod m_iCapacity p)"
      by (auto simp: pool_map_def split: if_splits)
    then obtain i where i: "i \<in> set us" and h: "h = acc_of p i * m_iCapacity p + int i"
      using pool_live_iff [OF r] by blast
    have "v = m_pObj p ! i" using v m [OF i] unfolding h by argo
    with i h show "\<exists>i \<in> set us. h = acc_of p i * m_iCapacity p + int i \<and> v = m_pObj p ! i" by blast
  next
    assume "\<exists>i \<in> set us. h = acc_of p i * m_iCapacity p + int i \<and> v = m_pObj p ! i"
    then obtain i where i: "i \<in> set us" and h: "h = acc_of p i * m_iCapacity p + int i"
      and v: "v = m_pObj p ! i" by blast
    have l: "pool_live p h" using pool_live_iff [OF r] i h by blast
    have "nat (h mod m_iCapacity p) = i" unfolding h by (rule m [OF i])
    with l v show "pool_map p h = Some v" by (simp only: pool_map_def if_True)
  qed
qed

lemma pool_map_dom:
  assumes r: "pool_rel p us fs"
  shows "dom (pool_map p) = (\<lambda>i. acc_of p i * m_iCapacity p + int i) ` set us"
  using pool_map_iff [OF r] by (auto simp: dom_def)

lemma pool_card:
  assumes r: "pool_rel p us fs"
  shows "card (dom (pool_map p)) = length us"
proof -
  note c = pool_shapeD [OF pool_relD(1) [OF r]]
  have u: "set us \<subseteq> {..<length (m_pIdx p)}" "distinct us"
    using pool_relD(2) [OF r] by (auto simp: pool_chains_def)
  have "inj_on (\<lambda>i. acc_of p i * m_iCapacity p + int i) (set us)"
  proof (rule inj_onI)
    fix i j assume "i \<in> set us" "j \<in> set us"
      and "acc_of p i * m_iCapacity p + int i = acc_of p j * m_iCapacity p + int j"
    then show "i = j" using u(1) handle_inj [of i "length (m_pIdx p)" j] c(1) by auto
  qed
  then show ?thesis unfolding pool_map_dom [OF r] using u(2) by (simp add: card_image distinct_card)
qed

lemma pool_push_map:
  assumes r: "pool_rel p us (f # fs)"
  defines "h \<equiv> next_acc p f * m_iCapacity p + int f"
  shows "pool_map p h = None"
    and "pool_map (pool_push p us f fs) = (pool_map p)(h \<mapsto> m_pObj p ! f)"
proof -
  let ?p = "pool_push p us f fs"
  note c = pool_shapeD [OF pool_relD(1) [OF r]]
  have bd: "f < length (m_pIdx p)" "f \<notin> set us" "set us \<subseteq> {..<length (m_pIdx p)}"
    using pool_relD(2) [OF r] by (auto simp: pool_chains_def)
  note r' = pool_push_rel(1) [OF r] and acc = pool_push_rel(2) [OF r]
  have cap: "m_iCapacity ?p = m_iCapacity p" "m_pObj ?p = m_pObj p" by (simp_all add: pool_push_def)
  have nh: "h \<noteq> acc_of p i * m_iCapacity p + int i" if "i \<in> set us" for i
    using handle_inj [of f "length (m_pIdx p)" i] that bd c(1) by (auto simp: h_def)
  then show n: "pool_map p h = None"
    using pool_map_iff [OF r, of h] by (cases "pool_map p h") auto
  have af: "acc_of ?p f = next_acc p f" using acc bd by simp
  have au: "acc_of ?p i = acc_of p i" if "i \<in> set us" for i using acc [of i] bd that by auto
  show "pool_map ?p = (pool_map p)(h \<mapsto> m_pObj p ! f)"
  proof
    fix k
    have "pool_map ?p k = Some v \<longleftrightarrow> (k = h \<and> v = m_pObj p ! f) \<or> pool_map p k = Some v" for v
      unfolding pool_map_iff [OF r'] pool_map_iff [OF r] using af au by (auto simp: cap h_def)
    then have "pool_map ?p k = Some v \<longleftrightarrow> ((pool_map p)(h \<mapsto> m_pObj p ! f)) k = Some v" for v
      using n by auto
    then show "pool_map ?p k = ((pool_map p)(h \<mapsto> m_pObj p ! f)) k"
      by (metis option.exhaust)
  qed
qed

lemma pool_pull_map:
  assumes r: "pool_rel p (us1 @ x # us2) fs"
  shows "pool_map (pool_pull p us1 x us2 fs) =
    (pool_map p)(acc_of p x * m_iCapacity p + int x := None)"
proof
  fix k
  let ?p = "pool_pull p us1 x us2 fs" and ?h = "acc_of p x * m_iCapacity p + int x"
  note c = pool_shapeD [OF pool_relD(1) [OF r]]
  have bd: "x < length (m_pIdx p)" "x \<notin> set us1" "x \<notin> set us2"
      "set us1 \<union> set us2 \<subseteq> {..<length (m_pIdx p)}"
    using pool_relD(2) [OF r] by (auto simp: pool_chains_def)
  note r' = pool_pull_rel(1) [OF r] and acc = pool_pull_rel(2) [OF r]
  have cap: "m_iCapacity ?p = m_iCapacity p" "m_pObj ?p = m_pObj p" by (simp_all add: pool_pull_def)
  have nh: "?h \<noteq> acc_of p i * m_iCapacity p + int i" if "i \<in> set us1 \<union> set us2" for i
    using handle_inj [of x "length (m_pIdx p)" i] that bd c(1) by auto
  have "pool_map ?p k = Some v \<longleftrightarrow> ((pool_map p)(?h := None)) k = Some v" for v
    unfolding pool_map_iff [OF r'] fun_upd_apply
    using pool_map_iff [OF r, of k v] nh by (auto simp: cap acc)
  then show "pool_map ?p k = ((pool_map p)(?h := None)) k"
    by (metis option.exhaust)
qed

lemma pool_objs_written:
  assumes r: "pool_rel p us fs" and l: "length objs = length (m_pObj p)"
  shows "pool_rel (p \<lparr> m_pObj := objs \<rparr>) us fs"
proof -
  have "pool_shape (p \<lparr> m_pObj := objs \<rparr>)"
    by (rule pool_shape_cong [OF pool_relD(1) [OF r]]) (simp_all add: l)
  then show ?thesis using r by (simp add: pool_rel_def pool_chains_def acc_ok_def acc_of_def)
qed


section \<open>The contract\<close>

definition ptr_inv :: "'a TObjPoolPtr \<Rightarrow> bool" where
  "ptr_inv pp \<longleftrightarrow> (case pp of None \<Rightarrow> False | Some p \<Rightarrow> pool_inv p)"

definition ptr_map :: "'a TObjPoolPtr \<Rightarrow> int \<Rightarrow> 'a option" where
  "ptr_map pp = (case pp of None \<Rightarrow> Map.empty | Some p \<Rightarrow> pool_map p)"

definition ptr_capacity :: "'a TObjPoolPtr \<Rightarrow> nat" where
  "ptr_capacity pp = (case pp of None \<Rightarrow> 0 | Some p \<Rightarrow> nat (m_iCapacity p))"

lemma pool_alloc_room:
  assumes "pool_rel p us (f # fs)"
  shows "\<exists>h p' v. objpool_alloc (Some p) = Some (h, Some p') \<and> pool_rel p' (f # us) fs \<and>
    m_iCapacity p \<le> h \<and> h < 2147483648 \<and> h mod m_iCapacity p = int f \<and> pool_map p h = None \<and>
    pool_map p' = (pool_map p)(h \<mapsto> v) \<and> m_iCapacity p' = m_iCapacity p \<and> m_pObj p' = m_pObj p \<and>
    m_iUnitSize p' = m_iUnitSize p"
proof -
  let ?h = "next_acc p f * m_iCapacity p + int f" and ?p = "pool_push p us f fs"
  note r = assms
  note c = pool_shapeD [OF pool_relD(1) [OF r]]
  have f: "f < length (m_pIdx p)" using pool_relD(2) [OF r] by (simp add: pool_chains_def)
  note hd = alloc_handle(3,4) [OF pool_relD(1) [OF r] pool_relD(3) [OF r] f]
  have "1 * m_iCapacity p \<le> next_acc p f * m_iCapacity p" using hd(1) c(1) by (intro mult_right_mono) auto
  then have b: "m_iCapacity p \<le> ?h" by simp
  have m: "?h mod m_iCapacity p = int f" unfolding c(1) by (rule handle_mod [OF f])
  have "m_iCapacity ?p = m_iCapacity p" "m_pObj ?p = m_pObj p" "m_iUnitSize ?p = m_iUnitSize p"
    by (simp_all add: pool_push_def)
  with objpool_alloc_eq [OF r] pool_push_rel(1) [OF r] pool_push_map [OF r] b hd(2) m
  show ?thesis by blast
qed

lemma pool_alloc_full:
  assumes "pool_rel p us []"
  shows "objpool_alloc (Some p) = Some (ERR_OBJPOOL_FULL, Some p)"
  using pool_chains_length [OF pool_relD(2) [OF assms]] pool_shapeD(1) [OF pool_relD(1) [OF assms]]
    pool_relD(2) [OF assms]
  by (simp add: objpool_alloc_def pool_chains_def)

lemma pool_free_live:
  assumes "pool_rel p us fs" and "pool_live p h"
  shows "\<exists>p' us' fs'. objpool_free (Some p) h = Some (0, Some p') \<and> pool_rel p' us' fs' \<and>
    pool_map p' = (pool_map p)(h := None) \<and> m_iCapacity p' = m_iCapacity p \<and> m_pObj p' = m_pObj p \<and>
    fs' = fs @ [nat (h mod m_iCapacity p)] \<and> (\<forall>i. acc_of p' i = acc_of p i) \<and> m_iUnitSize p' = m_iUnitSize p"
proof -
  obtain x where x: "x \<in> set us" and h: "h = acc_of p x * m_iCapacity p + int x"
    using pool_live_iff [OF assms(1)] assms(2) by blast
  from x obtain us1 us2 where us: "us = us1 @ x # us2" by (meson split_list)
  have r: "pool_rel p (us1 @ x # us2) fs" using assms(1) us by simp
  let ?p = "pool_pull p us1 x us2 fs"
  note c = pool_shapeD [OF pool_relD(1) [OF r]]
  have xl: "x < length (m_pIdx p)" using pool_relD(2) [OF r] by (simp add: pool_chains_def)
  have m: "nat (h mod m_iCapacity p) = x" unfolding h c(1) handle_mod [OF xl] by simp
  have fe: "objpool_free (Some p) h = Some (0, Some ?p)" "pool_map ?p = (pool_map p)(h := None)"
    unfolding h by (rule objpool_free_eq [OF r], rule pool_pull_map [OF r])
  have "m_iCapacity ?p = m_iCapacity p" "m_pObj ?p = m_pObj p" "m_iUnitSize ?p = m_iUnitSize p"
    by (simp_all add: pool_pull_def)
  with fe pool_pull_rel [OF r] show ?thesis unfolding m by blast
qed

lemma pool_map_live: "pool_map p h = None \<longleftrightarrow> \<not> pool_live p h"
  by (simp add: pool_map_def)

interpretation pool_ht: handle_table ptr_inv ptr_map ptr_capacity objpool_alloc objpool_free
proof unfold_locales
  fix s :: "'a TObjPoolPtr" and h :: int
  assume "ptr_inv s"
  then obtain p us fs where s: "s = Some p" and r: "pool_rel p us fs"
    by (auto simp: ptr_inv_def pool_inv_def split: option.splits)
  note c = pool_shapeD [OF pool_relD(1) [OF r]]
  have len: "length us + length fs = ptr_capacity s"
    using pool_chains_length [OF pool_relD(2) [OF r]] c(1) s by (simp add: ptr_capacity_def)
  have card: "card (dom (ptr_map s)) = length us" using pool_card [OF r] s by (simp add: ptr_map_def)
  show "finite (dom (ptr_map s)) \<and> card (dom (ptr_map s)) \<le> ptr_capacity s"
    using card len s pool_map_dom [OF r] by (simp add: ptr_map_def)
  show "\<exists>h s' v. objpool_alloc s = Some (h, s') \<and> ptr_inv s' \<and> 0 \<le> h \<and> ptr_map s h = None \<and>
      ptr_map s' = (ptr_map s)(h \<mapsto> v) \<and> ptr_capacity s' = ptr_capacity s"
    if room: "card (dom (ptr_map s)) < ptr_capacity s"
  proof -
    obtain f fs' where fs: "fs = f # fs'" using room card len by (cases fs) auto
    from pool_alloc_room [OF r [unfolded fs]] obtain h p' v where
      a: "objpool_alloc (Some p) = Some (h, Some p')" "pool_rel p' (f # us) fs'" "m_iCapacity p \<le> h"
        "pool_map p h = None" "pool_map p' = (pool_map p)(h \<mapsto> v)" "m_iCapacity p' = m_iCapacity p"
      by blast
    have "0 \<le> h" using a(3) c(1) by simp
    moreover have "ptr_inv (Some p')" using a(2) by (auto simp: ptr_inv_def pool_inv_def)
    ultimately show ?thesis using a s by (fastforce simp: ptr_map_def ptr_capacity_def)
  qed
  show "\<exists>e < 0. objpool_alloc s = Some (e, s)" if "card (dom (ptr_map s)) = ptr_capacity s"
  proof -
    have "fs = []" using that card len by simp
    then show ?thesis using pool_alloc_full [of p us] r s by (auto simp: objpool_errs)
  qed
  show "\<exists>s'. objpool_free s h = Some (0, s') \<and> ptr_inv s' \<and> ptr_map s' = (ptr_map s)(h := None) \<and>
      ptr_capacity s' = ptr_capacity s" if "h \<in> dom (ptr_map s)"
  proof -
    have "pool_live p h" using that s pool_map_live [of p h] by (auto simp: ptr_map_def)
    from pool_free_live [OF r this] obtain p' us' fs' where
      "objpool_free (Some p) h = Some (0, Some p')" "pool_rel p' us' fs'"
      "pool_map p' = (pool_map p)(h := None)" "m_iCapacity p' = m_iCapacity p" by blast
    then show ?thesis using s by (auto simp: ptr_inv_def pool_inv_def ptr_map_def ptr_capacity_def)
  qed
  show "\<exists>e < 0. objpool_free s h = Some (e, s)" if "h \<notin> dom (ptr_map s)"
  proof -
    have "\<not> pool_live p h" using that s pool_map_live [of p h] by (auto simp: ptr_map_def)
    then show ?thesis using objpool_free_dead [OF r] s by (auto simp: objpool_errs)
  qed
qed


section \<open>Initialisation\<close>

lemma dlseg_upt:
  assumes "length a = n" and "k \<le> n"
    and "\<And>i. i < n \<Longrightarrow> m_iPrevIdx (a ! i) = int i - 1 \<and>
           m_iNextIdx (a ! i) = (if Suc i = n then -1 else int i + 1)"
  shows "dlseg a (int k - 1) [k..<n] (-1)"
  using assms(2)
proof (induction "n - k" arbitrary: k)
  case 0
  then show ?case by simp
next
  case (Suc d)
  then have k: "k < n" by simp
  then have u: "[k..<n] = k # [Suc k..<n]" by (simp add: upt_conv_Cons)
  have "dlseg a (int (Suc k) - 1) [Suc k..<n] (-1)" using Suc k by (intro Suc.hyps(1)) auto
  moreover have "hd_idx [Suc k..<n] (-1) = (if Suc k = n then -1 else int k + 1)"
    using k by (cases "Suc k = n") (auto simp: upt_conv_Cons)
  ultimately show ?case unfolding u using assms(1,3) k by auto
qed

lemma objpool_init_ok:
  assumes "0 < iMax" and "0 < iUnit" and b: "(int iUnit + 16) * int iMax + 40 < 2147483648"
    and m: "malloc ((int iUnit + 16) * int iMax + 40)"
  shows "\<exists>p. objpool_init malloc garbage (Some pp) iMax iUnit = Some (0, Some (Some p)) \<and>
    pool_rel p [] [0..<iMax] \<and> pool_map p = Map.empty \<and> m_iCapacity p = int iMax \<and>
    m_iUnitSize p = int iUnit \<and> (\<forall>i < iMax. acc_of p i = 0)"
proof -
  let ?c = "(int iUnit + 16) * int iMax + 40"
  have c0: "0 \<le> ?c" by simp
  have sz: "u64 (s32 (GET_POOL_MEM_SIZE (int iUnit) (int iMax))) = ?c"
    using b c0 by (simp add: GET_POOL_MEM_SIZE_def int32_simps)
  have pr: "0 < int iUnit * int iMax" using assms by simp
  have lt: "int iMax < 134217728" using b pr by (simp add: algebra_simps)
  have "int iUnit * 1 \<le> int iUnit * int iMax" using assms(1) by (intro mult_left_mono) auto
  then have ut: "int iUnit < 2147483648" using b by (simp add: algebra_simps)
  have no: "nat ((?c - 40 - 16 * int iMax) div int iUnit) = iMax"
    using assms(2) by (simp add: algebra_simps)
  define a where "a = (map fresh_idx [0..<iMax])[iMax - 1 := (fresh_idx (iMax - 1)) \<lparr> m_iNextIdx := -1 \<rparr>]"
  define p where "p = \<lparr> m_iUsedCount = 0, m_iFreeHead = 0, m_iFreeTail = int iMax - 1,
     m_iUsedHead = -1, m_iCapacity = int iMax, m_iUnitSize = int iUnit,
     m_pIdx = a, m_pObj = map garbage [0..<iMax] \<rparr>"
  have e: "objpool_init malloc garbage (Some pp) iMax iUnit = Some (0, Some (Some p))"
    using assms(1,2) m lt ut pr zero_le_mult_iff [of "int iMax" "int iUnit"]
    unfolding p_def a_def objpool_init_def
    by (simp add: Let_def sz no s32_id algebra_simps not_less)
  have la: "length a = iMax" by (simp add: a_def)
  have ai: "m_iPrevIdx (a ! i) = int i - 1" "m_iNextIdx (a ! i) = (if Suc i = iMax then -1 else int i + 1)"
      "m_iAccumulate (a ! i) = 0" "m_iUsedFlag (a ! i) = 0" if "i < iMax" for i
    using that lt by (auto simp: a_def fresh_idx_def nth_list_update s32_id)
  have dl: "dlseg a (-1) [0..<iMax] (-1)" using dlseg_upt [of a iMax 0] la ai by auto
  have hd0: "hd_idx [0..<iMax] (-1) = 0" using assms(1) by (simp add: upt_conv_Cons)
  have la1: "last_idx [0..<iMax] (-1) = int iMax - 1"
    using assms(1) by (cases iMax) auto
  have "pool_chains p [] [0..<iMax]" using dl hd0 la1 la by (auto simp: pool_chains_def p_def)
  moreover have "pool_shape p" using la b assms(1,2) by (simp add: pool_shape_def p_def)
  moreover have "acc_ok p (set [])" using ai la lt by (auto simp: acc_ok_def acc_of_def p_def)
  ultimately have r: "pool_rel p [] [0..<iMax]" by (simp add: pool_rel_def)
  moreover have "pool_map p = Map.empty" using pool_map_dom [OF r] by simp
  ultimately show ?thesis using e ai by (auto simp: p_def acc_of_def)
qed

section \<open>Object access\<close>

lemma live_cell:
  assumes r: "pool_rel p us fs" and l: "pool_live p h"
  defines "i \<equiv> nat (h mod m_iCapacity p)" and "off \<equiv> (h mod m_iCapacity p) * m_iUnitSize p"
  shows "objpool_get (Some p) h = Some (Some off)" and "cell_of p off = int i"
    and "i < length (m_pObj p)" and "obj_read p off = pool_map p h"
    and "0 \<le> off" and "off + m_iUnitSize p \<le> m_iCapacity p * m_iUnitSize p"
proof -
  note c = pool_shapeD [OF pool_relD(1) [OF r]]
  have b: "0 \<le> h mod m_iCapacity p" "h mod m_iCapacity p < m_iCapacity p" using c by auto
  show "objpool_get (Some p) h = Some (Some off)" using objpool_get_rel [OF r] l by (simp add: off_def)
  show ce: "cell_of p off = int i" using c(4) b by (simp add: cell_of_def off_def i_def)
  show il: "i < length (m_pObj p)" using b c(1,3) by (simp add: i_def nat_less_iff)
  show "obj_read p off = pool_map p h"
    unfolding obj_read_def ce arr_get_int [OF il] using l by (simp add: pool_map_def i_def)
  show "0 \<le> off" using b c(4) by (simp add: off_def)
  have "(h mod m_iCapacity p + 1) * m_iUnitSize p \<le> m_iCapacity p * m_iUnitSize p"
    using b c(4) by (intro mult_right_mono) auto
  then show "off + m_iUnitSize p \<le> m_iCapacity p * m_iUnitSize p" by (simp add: off_def algebra_simps)
qed

lemma live_write:
  assumes r: "pool_rel p us fs" and l: "pool_live p h"
  shows "\<exists>p'. obj_write p ((h mod m_iCapacity p) * m_iUnitSize p) f = Some p' \<and> pool_rel p' us fs \<and>
    pool_map p' = (pool_map p)(h \<mapsto> f (the (pool_map p h))) \<and> m_iCapacity p' = m_iCapacity p \<and>
    m_iUnitSize p' = m_iUnitSize p \<and> m_iUsedCount p' = m_iUsedCount p"
proof -
  let ?off = "(h mod m_iCapacity p) * m_iUnitSize p" and ?i = "nat (h mod m_iCapacity p)"
  note lc = live_cell [OF r l]
  let ?objs = "(m_pObj p)[?i := f (m_pObj p ! ?i)]"
  let ?p = "p \<lparr> m_pObj := ?objs \<rparr>"
  have w: "obj_write p ?off f = Some ?p" unfolding obj_write_def lc(2) arr_upd_int [OF lc(3)] by simp
  have r': "pool_rel ?p us fs" by (rule pool_objs_written [OF r]) simp
  have live: "pool_live ?p k = pool_live p k" for k by (simp add: pool_live_def acc_of_def)
  have eq: "k = h" if "pool_live p k" "nat (k mod m_iCapacity p) = ?i" for k
  proof -
    have "k mod m_iCapacity p = h mod m_iCapacity p"
      using that(2) pool_shapeD(1,2) [OF pool_relD(1) [OF r]] by (simp add: nat_eq_iff2)
    then show ?thesis using that(1) l unfolding pool_live_def by metis
  qed
  have pm: "pool_map ?p k = ((pool_map p)(h \<mapsto> f (the (pool_map p h)))) k" for k
  proof (cases "k = h")
    case True
    then show ?thesis using l lc(3) by (simp add: pool_map_def live)
  next
    case False
    then have "pool_live p k \<Longrightarrow> nat (k mod m_iCapacity p) \<noteq> ?i" using eq by blast
    then show ?thesis using False by (auto simp: pool_map_def live)
  qed
  show ?thesis using w r' pm by (intro exI [of _ ?p]) (auto simp: fun_eq_iff)
qed

text \<open>A handle that was just released is not the next one handed out.\<close>

lemma realloc_fresh:
  assumes r: "pool_rel p us fs" and l: "pool_live p h"
    and f: "objpool_free (Some p) h = Some (0, pp)"
    and a: "objpool_alloc pp = Some (h', pp')"
  shows "h' \<noteq> h"
proof -
  from pool_free_live [OF r l] f obtain p1 us1 fs1 where pp: "pp = Some p1"
    and r1: "pool_rel p1 us1 fs1" and fs1: "fs1 = fs @ [nat (h mod m_iCapacity p)]"
    and acc: "\<forall>i. acc_of p1 i = acc_of p i" and cap: "m_iCapacity p1 = m_iCapacity p" by auto
  obtain g gs where g: "fs1 = g # gs" using fs1 by (cases fs) auto
  note c = pool_shapeD [OF pool_relD(1) [OF r1]]
  have gl: "g < length (m_pIdx p1)" using pool_relD(2) [OF r1] g by (auto simp: pool_chains_def)
  have h': "h' = next_acc p1 g * m_iCapacity p1 + int g"
    using a objpool_alloc_eq [OF r1 [unfolded g]] pp by simp
  have h0: "h = acc_of p (nat (h mod m_iCapacity p)) * m_iCapacity p + h mod m_iCapacity p"
    using l unfolding pool_live_def by simp
  have "next_acc p1 g \<noteq> acc_of p1 g"
  proof (cases "acc_of p1 g = 1")
    case True
    then have "(acc_of p1 g + 1) * m_iCapacity p1 + int g < 2147483648" using c(1,5) gl by simp
    then show ?thesis using True by (simp add: next_acc_def)
  next
    case False
    then show ?thesis by (simp add: next_acc_def)
  qed
  then have ne: "next_acc p1 g \<noteq> acc_of p g" using acc by simp
  show ?thesis
  proof
    assume eq: "h' = h"
    have hm: "h' mod m_iCapacity p = int g" unfolding h' cap [symmetric] c(1) by (rule handle_mod [OF gl])
    have "h = acc_of p g * m_iCapacity p + int g" using h0 hm eq by simp
    then have "(next_acc p1 g - acc_of p g) * m_iCapacity p = 0" using h' eq cap by (auto simp: algebra_simps)
    then show False using ne c(1,2) cap by simp
  qed
qed


section \<open>Traversal\<close>

text \<open>
  A callback that looks at and rewrites only the node it is given, and the traversal it
  should amount to: the used nodes in chain order, each once.
\<close>

definition node_callback ::
  "('a \<Rightarrow> 's \<Rightarrow> TRAVEL_RET \<times> 'a \<times> 's) \<Rightarrow> int option \<Rightarrow> 'a TObjPool \<times> 's \<Rightarrow>
     (TRAVEL_RET \<times> 'a TObjPool \<times> 's) option" where
  "node_callback g pvNode st = do {
     off \<leftarrow> pvNode;
     v \<leftarrow> obj_read (fst st) off;
     let (ret, v', s') = g v (snd st);
     p' \<leftarrow> obj_write (fst st) off (\<lambda>_. v');
     Some (ret, p', s')
   }"

fun travel_ref :: "('a \<Rightarrow> 's \<Rightarrow> TRAVEL_RET \<times> 'a \<times> 's) \<Rightarrow> (nat \<times> 'a) list \<Rightarrow> 's \<Rightarrow>
    (nat \<times> 'a) list \<times> 's" where
  "travel_ref g [] s = ([], s)"
| "travel_ref g ((i, v) # xs) s =
     (let (ret, v', s') = g v s in
      case ret of
        BREAK_TRAVEL \<Rightarrow> ((i, v') # xs, s')
      | REMOVE_ME \<Rightarrow> travel_ref g xs s'
      | DO_THING \<Rightarrow> (let (ys, s'') = travel_ref g xs s' in ((i, v') # ys, s'')))"

definition chain_objs :: "'a TObjPool \<Rightarrow> nat list \<Rightarrow> (nat \<times> 'a) list" where
  "chain_objs p us = map (\<lambda>i. (i, m_pObj p ! i)) us"

lemma chain_objs_simps [simp]:
  "chain_objs p [] = []" "chain_objs p (x # us) = (x, m_pObj p ! x) # chain_objs p us"
  "chain_objs (pool_pull p us1 x us2 fs) us = chain_objs p us"
  by (simp_all add: chain_objs_def pool_pull_def)

lemma slot_write:
  assumes "pool_rel p us fs" and "x < length (m_pIdx p)"
  shows "obj_read p (int x * m_iUnitSize p) = Some (m_pObj p ! x)"
    and "obj_write p (int x * m_iUnitSize p) f = Some (p \<lparr> m_pObj := (m_pObj p)[x := f (m_pObj p ! x)] \<rparr>)"
proof -
  note c = pool_shapeD [OF pool_relD(1) [OF assms(1)]]
  have ce: "cell_of p (int x * m_iUnitSize p) = int x" using c(4) by (simp add: cell_of_def)
  have l: "x < length (m_pObj p)" using assms(2) c(3) by simp
  show "obj_read p (int x * m_iUnitSize p) = Some (m_pObj p ! x)"
    unfolding obj_read_def ce by (rule arr_get_int [OF l])
  show "obj_write p (int x * m_iUnitSize p) f = Some (p \<lparr> m_pObj := (m_pObj p)[x := f (m_pObj p ! x)] \<rparr>)"
    unfolding obj_write_def ce arr_upd_int [OF l] by simp
qed

lemma bypos_used:
  assumes "pool_rel p us fs" and "x \<in> set us"
  shows "objpool_get_bypos (Some p) (int x) = Some (int x * m_iUnitSize p)"
    and "x < length (m_pIdx p)"
proof -
  note c = pool_shapeD [OF pool_relD(1) [OF assms(1)]]
  have ch: "set us \<union> set fs = {..<length (m_pIdx p)}" "m_iUsedCount p = int (length us)"
    using pool_relD(2) [OF assms(1)] by (simp_all add: pool_chains_def)
  show xl: "x < length (m_pIdx p)" using ch(1) assms(2) by blast
  have u: "0 < m_iUsedCount p" using ch(2) assms(2) by (cases us) simp_all
  have "s32 (int x * m_iUnitSize p) = int x * m_iUnitSize p"
  proof (rule s32_id)
    have "0 \<le> int x * m_iUnitSize p" using c(4) by simp
    then show "- 2147483648 \<le> int x * m_iUnitSize p" by simp
    show "int x * m_iUnitSize p < 2147483648" using c(6) [OF xl] c(4) by simp
  qed
  then show "objpool_get_bypos (Some p) (int x) = Some (int x * m_iUnitSize p)"
    using u xl c(1) by (simp add: objpool_get_bypos_def)
qed

lemma free_bypos_eq:
  assumes r: "pool_rel p (us1 @ x # us2) fs"
  shows "objpool_free_bypos (Some p) (int x) = Some (0, Some (pool_pull p us1 x us2 fs))"
proof -
  note c = pool_shapeD [OF pool_relD(1) [OF r]]
  have x: "x \<in> set (us1 @ x # us2)" by simp
  note xl = bypos_used(2) [OF r x]
  have u: "0 < m_iUsedCount p" using pool_relD(2) [OF r] by (simp add: pool_chains_def)
  show ?thesis
    using u xl c(1) handle_eq [OF xl pool_relD(3) [OF r] pool_relD(1) [OF r]] objpool_free_eq [OF r]
    by (simp add: objpool_free_bypos_def arr_simps)
qed

lemma travel_loop_ref:
  assumes "pool_rel p (ds @ us) fs" and "travel_ref g (chain_objs p us) s = (ys, s')"
  shows "\<exists>p' fs'. travel_loop (node_callback g) (hd_idx us (-1)) (p, s) = Some (p', s') \<and>
    pool_rel p' (ds @ map fst ys) fs' \<and> chain_objs p' (map fst ys) = ys \<and>
    chain_objs p' ds = chain_objs p ds \<and>
    m_iCapacity p' = m_iCapacity p \<and> (\<forall>i. acc_of p' i = acc_of p i)"
  using assms
proof (induction us arbitrary: p ds fs s ys)
  case Nil
  then show ?case by (auto simp: travel_loop.simps chain_objs_def)
next
  case (Cons x us)
  note r = Cons.prems(1)
  have x: "x \<in> set (ds @ x # us)" by simp
  note bp = bypos_used [OF r x]
  obtain ret v' s1 where g: "g (m_pObj p ! x) s = (ret, v', s1)" by (cases "g (m_pObj p ! x) s")
  let ?q = "p \<lparr> m_pObj := (m_pObj p)[x := v'] \<rparr>"
  have rq: "pool_rel ?q (ds @ x # us) fs" by (rule pool_objs_written [OF r]) simp
  have xn: "x \<notin> set ds" "x \<notin> set us" using pool_relD(2) [OF r] by (auto simp: pool_chains_def)
  have ol: "x < length (m_pObj p)" using pool_shapeD(3) [OF pool_relD(1) [OF r]] bp(2) by simp
  have oq: "chain_objs ?q us = chain_objs p us" "chain_objs ?q ds = chain_objs p ds"
    using xn by (auto simp: chain_objs_def intro!: nth_list_update_neq)
  have nx: "m_iNextIdx (m_pIdx p ! x) = hd_idx us (-1)"
    using pool_relD(2) [OF r] by (simp add: pool_chains_def)
  have cb: "node_callback g (objpool_get_bypos (Some p) (int x)) (p, s) = Some (ret, ?q, s1)"
    using bp slot_write [OF r bp(2)] g by (simp add: node_callback_def)
  have step: "travel_loop (node_callback g) (int x) (p, s) =
     (if ret = BREAK_TRAVEL then Some (?q, s1)
      else if ret = REMOVE_ME
      then travel_loop (node_callback g) (hd_idx us (-1)) (pool_pull ?q ds x us fs, s1)
      else travel_loop (node_callback g) (hd_idx us (-1)) (?q, s1))"
    by (subst travel_loop.simps) (simp add: cb arr_simps bp(2) nx free_bypos_eq [OF rq])
  have acc: "acc_of ?q i = acc_of p i" for i by (simp add: acc_of_def)
  show ?case
  proof (cases ret)
    case BREAK_TRAVEL
    then have ys: "ys = (x, v') # chain_objs p us" "s' = s1" using Cons.prems(2) g by (auto simp: chain_objs_def)
    then have "map fst ys = x # us" by (simp add: chain_objs_def comp_def)
    then show ?thesis using BREAK_TRAVEL step rq ys ol oq acc by (auto simp: chain_objs_def)
  next
    case REMOVE_ME
    let ?p = "pool_pull ?q ds x us fs"
    have ref: "travel_ref g (chain_objs ?p us) s1 = (ys, s')"
      using Cons.prems(2) g REMOVE_ME oq by simp
    from Cons.IH [OF pool_pull_rel(1) [OF rq] ref] obtain p' fs' where
      "travel_loop (node_callback g) (hd_idx us (-1)) (?p, s1) = Some (p', s')"
      "pool_rel p' (ds @ map fst ys) fs'" "chain_objs p' (map fst ys) = ys"
      "chain_objs p' ds = chain_objs ?p ds" "m_iCapacity p' = m_iCapacity ?p"
      "\<forall>i. acc_of p' i = acc_of ?p i" by blast
    moreover have "chain_objs ?p ds = chain_objs p ds" "m_iCapacity ?p = m_iCapacity p"
      using oq by simp (simp add: pool_pull_def)
    ultimately show ?thesis using REMOVE_ME step pool_pull_rel(2) [OF rq] acc by auto
  next
    case DO_THING
    obtain zs where ref: "travel_ref g (chain_objs ?q us) s1 = (zs, s')" and ys: "ys = (x, v') # zs"
      using Cons.prems(2) g DO_THING unfolding oq by (auto split: prod.splits)
    have r1: "pool_rel ?q ((ds @ [x]) @ us) fs" using rq by simp
    from Cons.IH [OF r1 ref] obtain p' fs' where
      "travel_loop (node_callback g) (hd_idx us (-1)) (?q, s1) = Some (p', s')"
      "pool_rel p' ((ds @ [x]) @ map fst zs) fs'" "chain_objs p' (map fst zs) = zs"
      "chain_objs p' (ds @ [x]) = chain_objs ?q (ds @ [x])" "m_iCapacity p' = m_iCapacity ?q"
      "\<forall>i. acc_of p' i = acc_of ?q i" by blast
    then show ?thesis using DO_THING step ys ol oq acc by (auto simp: chain_objs_def)
  qed
qed

section \<open>Properties\<close>

fun objpool_run :: "'a TObjPoolPtr \<Rightarrow> handle_op list \<Rightarrow> 'a TObjPoolPtr option" where
  "objpool_run pp [] = Some pp"
| "objpool_run pp (HAlloc # xs) =
     (case objpool_alloc pp of None \<Rightarrow> None | Some (_, pp') \<Rightarrow> objpool_run pp' xs)"
| "objpool_run pp (HRelease h # xs) =
     (case objpool_free pp h of None \<Rightarrow> None | Some (_, pp') \<Rightarrow> objpool_run pp' xs)"

text \<open>A two-slot pool of integers, as the initialisation leaves it, for the witnesses.\<close>

definition pool_example :: "int TObjPool" where
  "pool_example =
     \<lparr> m_iUsedCount = 0, m_iFreeHead = 0, m_iFreeTail = 1, m_iUsedHead = -1,
       m_iCapacity = 2, m_iUnitSize = 4,
       m_pIdx = [\<lparr> m_iNextIdx = 1, m_iPrevIdx = -1, m_iAccumulate = 0, m_iUsedFlag = 0 \<rparr>,
                 \<lparr> m_iNextIdx = -1, m_iPrevIdx = 0, m_iAccumulate = 0, m_iUsedFlag = 0 \<rparr>],
       m_pObj = [7, 8] \<rparr>"

text \<open>The same pool after one allocation: handle 2 is live in slot 0.\<close>

definition pool_example1 :: "int TObjPool" where
  "pool_example1 =
     \<lparr> m_iUsedCount = 1, m_iFreeHead = 1, m_iFreeTail = 1, m_iUsedHead = 0,
       m_iCapacity = 2, m_iUnitSize = 4,
       m_pIdx = [\<lparr> m_iNextIdx = -1, m_iPrevIdx = -1, m_iAccumulate = 1, m_iUsedFlag = 1 \<rparr>,
                 \<lparr> m_iNextIdx = -1, m_iPrevIdx = -1, m_iAccumulate = 0, m_iUsedFlag = 0 \<rparr>],
       m_pObj = [7, 8] \<rparr>"

lemmas pool_example_defs = pool_example_def pool_example1_def pool_rel_def pool_shape_def
  pool_chains_def acc_ok_def acc_of_def All_less_Suc2

lemma pool_example_rel: "pool_rel pool_example [] [0, 1]"
  by (auto simp: pool_example_defs less_2_cases_iff)

lemma pool_example1_rel: "pool_rel pool_example1 [0] [1]"
  by (auto simp: pool_example_defs less_2_cases_iff)

lemma pool_example_inv: "ptr_inv (Some pool_example)" "ptr_inv (Some pool_example1)"
  using pool_example_rel pool_example1_rel by (auto simp: ptr_inv_def pool_inv_def)

lemma pool_example1_map: "ptr_map (Some pool_example1) = [2 \<mapsto> 7]"
proof
  fix h
  have "pool_map pool_example1 h = Some v \<longleftrightarrow> [2 \<mapsto> 7] h = Some v" for v
    unfolding pool_map_iff [OF pool_example1_rel] by (auto simp: pool_example1_def acc_of_def)
  then show "ptr_map (Some pool_example1) h = [2 \<mapsto> 7] h"
    by (simp add: ptr_map_def) (metis option.exhaust)
qed

text \<open>
  C1. \<open>objpool_alloc\<close> refines insertion into a finite map of live handles: on a well-formed
  pool it never faults and keeps the invariant; when every slot is in use it returns
  \<open>ERR_OBJPOOL_FULL\<close> and changes nothing, otherwise it returns a handle that was not live, lies
  between the capacity and \<open>INT_MAX\<close> and is now live, and no other handle or object changes.
\<close>

theorem objpool_alloc_refines:
  assumes "ptr_inv pp"
  shows "\<exists>h pp'. objpool_alloc pp = Some (h, pp') \<and> ptr_inv pp' \<and>
    ptr_capacity pp' = ptr_capacity pp \<and>
    (if card (dom (ptr_map pp)) = ptr_capacity pp then h = ERR_OBJPOOL_FULL \<and> pp' = pp
     else int (ptr_capacity pp) \<le> h \<and> h < 2147483648 \<and> ptr_map pp h = None \<and>
       (\<exists>v. ptr_map pp' = (ptr_map pp)(h \<mapsto> v)))"
proof -
  from assms obtain p us fs where s: "pp = Some p" and r: "pool_rel p us fs"
    by (auto simp: ptr_inv_def pool_inv_def split: option.splits)
  note c = pool_shapeD [OF pool_relD(1) [OF r]]
  have card: "card (dom (ptr_map pp)) = length us" and cap: "ptr_capacity pp = length us + length fs"
    and ci: "int (ptr_capacity pp) = m_iCapacity p"
    using pool_card [OF r] s pool_chains_length [OF pool_relD(2) [OF r]] c(1)
    by (simp_all add: ptr_map_def ptr_capacity_def)
  show ?thesis
  proof (cases fs)
    case Nil
    then show ?thesis using pool_alloc_full [of p us] r s card cap assms by simp
  next
    case (Cons f fs')
    from pool_alloc_room [OF r [unfolded Cons]] obtain h p' v where
      a: "objpool_alloc (Some p) = Some (h, Some p')" "pool_rel p' (f # us) fs'" "m_iCapacity p \<le> h"
        "h < 2147483648" "pool_map p h = None" "pool_map p' = (pool_map p)(h \<mapsto> v)"
        "m_iCapacity p' = m_iCapacity p" by blast
    have "ptr_inv (Some p')" using a(2) by (auto simp: ptr_inv_def pool_inv_def)
    then show ?thesis using a Cons card cap ci s by (auto simp: ptr_map_def ptr_capacity_def)
  qed
qed

theorem objpool_alloc_refines_witness:
  "ptr_inv (Some pool_example) \<and> (\<exists>h pp'. objpool_alloc (Some pool_example) = Some (h, pp') \<and> ptr_inv pp')"
  using pool_example_inv(1) objpool_alloc_refines [OF pool_example_inv(1)] by blast

text \<open>
  C2. \<open>objpool_free\<close> refines removal: it never faults, a live handle is removed and \<open>0\<close> is
  returned, and every other argument (stale, forged, negative or already freed) is answered
  with \<open>ERR_OBJPOOL_LOGICERROR\<close> and leaves the pool exactly as it was.
\<close>

theorem objpool_free_refines:
  assumes "ptr_inv pp"
  shows "\<exists>e pp'. objpool_free pp h = Some (e, pp') \<and> ptr_inv pp' \<and>
    ptr_capacity pp' = ptr_capacity pp \<and> ptr_map pp' = (ptr_map pp)(h := None) \<and>
    (if ptr_map pp h = None then e = ERR_OBJPOOL_LOGICERROR \<and> pp' = pp else e = 0)"
proof -
  from assms obtain p us fs where s: "pp = Some p" and r: "pool_rel p us fs"
    by (auto simp: ptr_inv_def pool_inv_def split: option.splits)
  show ?thesis
  proof (cases "pool_live p h")
    case True
    then have "h \<in> dom (ptr_map pp)" using s by (simp add: ptr_map_def pool_map_def dom_def)
    from pool_ht.release_live [OF assms this] this show ?thesis by auto
  next
    case False
    then show ?thesis using objpool_free_dead [OF r False] s assms
      by (auto simp: ptr_map_def pool_map_def fun_eq_iff)
  qed
qed

theorem objpool_free_refines_witness:
  "ptr_inv (Some pool_example1) \<and>
   (\<exists>pp'. objpool_free (Some pool_example1) 2 = Some (0, pp') \<and> ptr_map pp' = Map.empty)"
  using pool_example_inv(2) objpool_free_refines [OF pool_example_inv(2), of 2]
  by (auto simp: pool_example1_map)

text \<open>
  C3. \<open>objpool_get\<close> is lookup: it never faults, returns a pointer exactly for the live handles,
  the pointer addresses a whole object inside the pool's object area, and reading through it
  gives what the handle refers to.
\<close>

theorem objpool_get_lookup:
  assumes "ptr_inv (Some p)"
  shows "\<exists>r. objpool_get (Some p) h = Some r \<and>
    (case r of
       None \<Rightarrow> ptr_map (Some p) h = None
     | Some off \<Rightarrow> 0 \<le> off \<and> off + m_iUnitSize p \<le> m_iCapacity p * m_iUnitSize p \<and>
         obj_read p off = ptr_map (Some p) h \<and> ptr_map (Some p) h \<noteq> None)"
proof -
  from assms obtain us fs where r: "pool_rel p us fs" by (auto simp: ptr_inv_def pool_inv_def)
  show ?thesis
  proof (cases "pool_live p h")
    case True
    then show ?thesis using live_cell [OF r True] by (auto simp: ptr_map_def pool_map_def)
  next
    case False
    then show ?thesis using objpool_get_rel [OF r] by (simp add: ptr_map_def pool_map_def)
  qed
qed

theorem objpool_get_lookup_witness:
  "ptr_inv (Some pool_example1) \<and> objpool_get (Some pool_example1) 2 \<noteq> None"
  using pool_example_inv(2) objpool_get_lookup [OF pool_example_inv(2), of 2] by auto

text \<open>
  Two different live handles never share a byte: the objects their pointers address are
  disjoint.
\<close>

theorem objpool_objects_disjoint:
  assumes "ptr_inv (Some p)" and "h \<noteq> k"
    and "objpool_get (Some p) h = Some (Some off)" and "objpool_get (Some p) k = Some (Some off')"
  shows "off + m_iUnitSize p \<le> off' \<or> off' + m_iUnitSize p \<le> off"
proof -
  from assms(1) obtain us fs where r: "pool_rel p us fs" by (auto simp: ptr_inv_def pool_inv_def)
  note c = pool_shapeD [OF pool_relD(1) [OF r]]
  let ?i = "h mod m_iCapacity p" and ?j = "k mod m_iCapacity p"
  have l: "pool_live p h" "pool_live p k" and o: "off = ?i * m_iUnitSize p" "off' = ?j * m_iUnitSize p"
    using assms(3,4) by (auto simp: objpool_get_rel [OF r] split: if_splits)
  have "?i \<noteq> ?j" using l assms(2) unfolding pool_live_def by metis
  then have "(?i + 1) * m_iUnitSize p \<le> ?j * m_iUnitSize p \<or> (?j + 1) * m_iUnitSize p \<le> ?i * m_iUnitSize p"
    using c(4) by (cases "?i < ?j") (auto intro!: mult_right_mono)
  then show ?thesis unfolding o by (simp add: algebra_simps)
qed

theorem objpool_objects_disjoint_witness:
  "(4 :: int) + m_iUnitSize (the (snd (the (objpool_alloc (Some pool_example1))))) \<le> 0 \<or>
   0 + m_iUnitSize (the (snd (the (objpool_alloc (Some pool_example1))))) \<le> 4"
proof -
  let ?pp = "snd (the (objpool_alloc (Some pool_example1)))"
  have e: "objpool_alloc (Some pool_example1) \<noteq> None" "?pp \<noteq> None"
    "objpool_get ?pp 3 = Some (Some 4)" "objpool_get ?pp 2 = Some (Some 0)"
    by code_simp+
  obtain p where p: "?pp = Some p" using e(2) by blast
  have "ptr_inv ?pp"
    using pool_ht.alloc_total [OF pool_example_inv(2)] by auto
  then have "ptr_inv (Some p)" by (simp add: p)
  from objpool_objects_disjoint [OF this, of 3 2 4 0] show ?thesis using e(3,4) p by simp
qed

text \<open>
  C4. From a fresh pool no sequence of allocations and releases, with any arguments, faults:
  after \<open>objpool_init\<close> succeeds for a block below 2 GB every such run ends in a well-formed pool
  of the same capacity.
\<close>

theorem objpool_runs_safe:
  assumes "0 < iMax" and "0 < iUnit" and "(int iUnit + 16) * int iMax + 40 < 2147483648"
    and "malloc ((int iUnit + 16) * int iMax + 40)"
  shows "\<exists>pp pp'. objpool_init malloc garbage (Some old) iMax iUnit = Some (0, Some pp) \<and>
    ptr_map pp = Map.empty \<and> objpool_run pp ops = Some pp' \<and> ptr_inv pp' \<and> ptr_capacity pp' = iMax"
proof -
  from objpool_init_ok [of iMax iUnit malloc garbage old, OF assms] obtain p where
    p: "objpool_init malloc garbage (Some old) iMax iUnit = Some (0, Some (Some p))"
      "pool_rel p [] [0..<iMax]" "pool_map p = Map.empty" "m_iCapacity p = int iMax" by blast
  have i: "ptr_inv (Some p)" using p(2) by (auto simp: ptr_inv_def pool_inv_def)
  have eq: "pool_ht.run pp xs = objpool_run pp xs" for pp :: "'a TObjPoolPtr" and xs
    by (induction pp xs rule: objpool_run.induct) (auto split: option.splits)
  from pool_ht.run_total [OF i, of ops] show ?thesis
    unfolding eq using p by (auto simp: ptr_map_def ptr_capacity_def)
qed

theorem objpool_runs_safe_witness:
  "\<exists>pp pp'. objpool_init (\<lambda>_. True) (\<lambda>_. 0 :: int) (Some None) 2 4 = Some (0, Some pp) \<and>
    ptr_map pp = Map.empty \<and>
    objpool_run pp [HAlloc, HRelease 99, HAlloc, HAlloc, HRelease 2] = Some pp' \<and>
    ptr_inv pp' \<and> ptr_capacity pp' = 2"
  by (rule objpool_runs_safe) simp_all

text \<open>
  C5. A released handle is not handed out again by the next allocation, even when its slot is:
  the generation counter in the handle makes it stale.
\<close>

theorem objpool_handle_not_reissued:
  assumes "ptr_inv pp" and "objpool_free pp h = Some (0, pp')" and "objpool_alloc pp' = Some (h', pp'')"
  shows "h' \<noteq> h"
proof -
  from assms obtain p us fs where s: "pp = Some p" and r: "pool_rel p us fs"
    by (auto simp: ptr_inv_def pool_inv_def split: option.splits)
  have "pool_live p h"
    using objpool_free_dead [OF r, of h] assms(2) s by (auto simp: objpool_errs)
  then show ?thesis using realloc_fresh [OF r] assms(2,3) s by blast
qed

theorem objpool_handle_not_reissued_witness:
  "fst (the (objpool_alloc (snd (the (objpool_free (Some pool_example1) 2))))) \<noteq> 2"
proof -
  have "objpool_free (Some pool_example1) 2 =
      Some (0, snd (the (objpool_free (Some pool_example1) 2)))" by code_simp
  moreover have "objpool_alloc (snd (the (objpool_free (Some pool_example1) 2))) \<noteq> None" by code_simp
  then obtain h' pp'' where "objpool_alloc (snd (the (objpool_free (Some pool_example1) 2))) = Some (h', pp'')"
    by auto
  ultimately show ?thesis using objpool_handle_not_reissued [OF pool_example_inv(2)] by (metis fst_conv option.sel)
qed

text \<open>
  C6. \<open>objpool_travel_used\<close> with a callback that works on its own node visits the used nodes
  exactly once each, most recently allocated first, stops at \<open>BREAK_TRAVEL\<close>, and removes
  exactly the nodes the callback answers \<open>REMOVE_ME\<close> for, although the loop unlinks them while
  it walks the chain: it terminates, never faults and computes what the reference fold over the
  list of used nodes computes.
\<close>

theorem objpool_travel_used_ref:
  assumes "pool_rel p us fs"
  shows "\<exists>p' fs'. objpool_travel_used (node_callback g) (Some p) s =
      Some (0, Some p', snd (travel_ref g (chain_objs p us) s)) \<and>
    pool_rel p' (map fst (fst (travel_ref g (chain_objs p us) s))) fs' \<and>
    chain_objs p' (map fst (fst (travel_ref g (chain_objs p us) s))) =
      fst (travel_ref g (chain_objs p us) s) \<and>
    (\<forall>i. acc_of p' i = acc_of p i)"
proof -
  have "pool_rel p ([] @ us) fs" using assms by simp
  from travel_loop_ref [OF this, of g s "fst (travel_ref g (chain_objs p us) s)"
      "snd (travel_ref g (chain_objs p us) s)"]
  show ?thesis using pool_relD(2) [OF assms]
    by (auto simp: objpool_travel_used_def pool_chains_def)
qed

theorem objpool_travel_used_ref_witness:
  "\<exists>p' fs'. objpool_travel_used (node_callback (\<lambda>v s. (if v = 7 then REMOVE_ME else DO_THING, v, v # s)))
      (Some pool_example1) [] = Some (0, Some p', [7]) \<and> pool_rel p' [] fs'"
  using objpool_travel_used_ref [OF pool_example1_rel,
      of "\<lambda>v s. (if v = 7 then REMOVE_ME else DO_THING, v, v # s)" "[]"]
  by (auto simp: pool_example1_def)

text \<open>
  The block size passes through an \<open>int\<close>: for a pool of \<open>2\<^sup>2\<^sup>7\<close> objects of 16 bytes the
  requested size wraps to the bare header and the initialisation writes outside the block; an
  empty pool makes it write the entry before the first. Both are undefined behaviour although
  the allocation succeeds.
\<close>

theorem objpool_init_overruns:
  "objpool_init (\<lambda>_. True) garbage (Some old) 134217728 16 = None \<and>
   objpool_init (\<lambda>_. True) garbage (Some old) 0 iUnit = None"
  by (simp add: objpool_init_def GET_POOL_MEM_SIZE_def u64_def s32_def)

end
