(* ===== verification/Heap_Ref.thy ===== *)
theory Heap_Ref
  imports Wdd_Prelude
begin

text \<open>
  A reference for the binary-heap algorithms behind \<open>std::push_heap\<close> and \<open>std::pop_heap\<close>
  (libstdc++'s \<open>__push_heap\<close> and \<open>__adjust_heap\<close>), on plain lists with an integer key and
  the smallest key at the root. \<^verbatim>\<open>LiteTimer.thy\<close> models the algorithms themselves, with
  the side effect of every element assignment, and shows that they compute this.
\<close>

definition par :: "nat \<Rightarrow> nat" where
  "par i = (i - 1) div 2"

lemma par_less: "0 < i \<Longrightarrow> par i < i"
  by (simp add: par_def)

lemma par_child: "0 < i \<Longrightarrow> par i = h \<longleftrightarrow> i = 2 * h + 1 \<or> i = 2 * h + 2"
  unfolding par_def by presburger

definition heap_on :: "('e \<Rightarrow> int) \<Rightarrow> nat \<Rightarrow> 'e list \<Rightarrow> bool" where
  "heap_on k n xs \<longleftrightarrow> (\<forall>i. 0 < i \<and> i < n \<longrightarrow> k (xs ! par i) \<le> k (xs ! i))"

function sift_up :: "('e \<Rightarrow> int) \<Rightarrow> 'e list \<Rightarrow> nat \<Rightarrow> 'e \<Rightarrow> 'e list" where
  "sift_up k xs hole v =
     (if 0 < hole \<and> k v < k (xs ! par hole)
      then sift_up k (xs[hole := xs ! par hole]) (par hole) v
      else xs[hole := v])"
  by pat_completeness auto
termination
  by (relation "measure (\<lambda>(k, xs, hole, v). hole)") (auto simp: par_less)

declare sift_up.simps [simp del]

definition pick_child :: "('e \<Rightarrow> int) \<Rightarrow> 'e list \<Rightarrow> nat \<Rightarrow> nat" where
  "pick_child k xs hole =
     (let s = 2 * (hole + 1) in if k (xs ! s) > k (xs ! (s - 1)) then s - 1 else s)"

function hole_down :: "('e \<Rightarrow> int) \<Rightarrow> 'e list \<Rightarrow> nat \<Rightarrow> nat \<Rightarrow> 'e list \<times> nat" where
  "hole_down k xs hole len =
     (if hole < (len - 1) div 2
      then hole_down k (xs[hole := xs ! pick_child k xs hole]) (pick_child k xs hole) len
      else if even len \<and> hole = (len - 2) div 2
      then (xs[hole := xs ! (2 * hole + 1)], 2 * hole + 1)
      else (xs, hole))"
  by pat_completeness auto
termination
  by (relation "measure (\<lambda>(k, xs, hole, len). len - hole)") (auto simp: pick_child_def Let_def)

declare hole_down.simps [simp del]

definition adjust :: "('e \<Rightarrow> int) \<Rightarrow> 'e list \<Rightarrow> nat \<Rightarrow> nat \<Rightarrow> 'e \<Rightarrow> 'e list" where
  "adjust k xs hole len v = (let (ys, h) = hole_down k xs hole len in sift_up k ys h v)"

definition heap_pop :: "('e \<Rightarrow> int) \<Rightarrow> 'e list \<Rightarrow> nat \<Rightarrow> 'e list" where
  "heap_pop k xs n =
     (if 1 < n then adjust k (xs[n - 1 := xs ! 0]) 0 (n - 1) (xs ! (n - 1)) else xs)"

section \<open>Contents\<close>

lemma mset_move_hole:
  assumes "h < length xs" "j < length xs" "h \<noteq> j"
  shows "mset (xs[h := xs ! j, j := v]) = mset (xs[h := v])"
proof -
  have "xs ! j \<in># add_mset (xs ! j) (mset xs - {#xs ! h#})" by simp
  then show ?thesis using assms by (simp add: mset_update)
qed

lemma sift_up_length [simp]: "length (sift_up k xs hole v) = length xs"
  by (induction k xs hole v rule: sift_up.induct) (subst sift_up.simps, simp)

lemma sift_up_mset:
  "hole < length xs \<Longrightarrow> mset (sift_up k xs hole v) = mset (xs[hole := v])"
proof (induction k xs hole v rule: sift_up.induct)
  case (1 k xs hole v)
  show ?case
  proof (cases "0 < hole \<and> k v < k (xs ! par hole)")
    case True
    then have p: "par hole < length xs" "hole \<noteq> par hole" using "1.prems" par_less [of hole] by auto
    have "mset (sift_up k xs hole v) = mset (xs[hole := xs ! par hole, par hole := v])"
      using "1.IH" [OF True] p True by (subst sift_up.simps) simp
    also have "\<dots> = mset (xs[hole := v])" using mset_move_hole [OF "1.prems" p(1,2)] .
    finally show ?thesis .
  next
    case False
    then show ?thesis by (subst sift_up.simps) auto
  qed
qed

lemma sift_up_above: "hole < j \<Longrightarrow> sift_up k xs hole v ! j = xs ! j"
proof (induction k xs hole v rule: sift_up.induct)
  case (1 k xs hole v)
  then show ?case using par_less [of hole] by (subst sift_up.simps) auto
qed

text \<open>An element smaller than everything above it ends at the root.\<close>

lemma sift_up_min_root:
  assumes "hole < length xs" and "\<forall>i < hole. k v < k (xs ! i)"
  shows "sift_up k xs hole v ! 0 = v"
  using assms
proof (induction k xs hole v rule: sift_up.induct)
  case (1 k xs hole v)
  show ?case
  proof (cases "0 < hole")
    case True
    then have pl: "par hole < hole" by (rule par_less)
    then have c: "0 < hole \<and> k v < k (xs ! par hole)" using "1.prems" True by auto
    have "sift_up k (xs[hole := xs ! par hole]) (par hole) v ! 0 = v"
      using "1.prems" pl by (intro "1.IH" [OF c]) auto
    then show ?thesis using c by (subst sift_up.simps) simp
  next
    case False
    then show ?thesis using "1.prems" by (subst sift_up.simps) simp
  qed
qed

section \<open>Heap order\<close>

text \<open>The order with a hole: every edge that avoids the hole, and the edges across it.\<close>

definition hole_ok :: "('e \<Rightarrow> int) \<Rightarrow> nat \<Rightarrow> 'e list \<Rightarrow> nat \<Rightarrow> bool" where
  "hole_ok k n xs hole \<longleftrightarrow> hole < n \<and> n \<le> length xs \<and>
     (\<forall>i. 0 < i \<and> i < n \<and> i \<noteq> hole \<and> par i \<noteq> hole \<longrightarrow> k (xs ! par i) \<le> k (xs ! i)) \<and>
     (\<forall>i. 0 < i \<and> i < n \<and> par i = hole \<and> 0 < hole \<longrightarrow> k (xs ! par hole) \<le> k (xs ! i))"

definition below_hole :: "('e \<Rightarrow> int) \<Rightarrow> nat \<Rightarrow> 'e list \<Rightarrow> nat \<Rightarrow> 'e \<Rightarrow> bool" where
  "below_hole k n xs hole v \<longleftrightarrow> (\<forall>i. 0 < i \<and> i < n \<and> par i = hole \<longrightarrow> k v \<le> k (xs ! i))"

lemma heap_on_hole_ok: "heap_on k n xs \<Longrightarrow> hole < n \<Longrightarrow> n \<le> length xs \<Longrightarrow> hole_ok k n xs hole"
  unfolding hole_ok_def
proof (intro conjI allI impI)
  fix i assume h: "heap_on k n xs" and i: "0 < i \<and> i < n \<and> par i = hole \<and> 0 < hole"
  then have "k (xs ! par hole) \<le> k (xs ! hole)" "k (xs ! hole) \<le> k (xs ! i)"
    using par_less [of i] unfolding heap_on_def by auto
  then show "k (xs ! par hole) \<le> k (xs ! i)" by simp
qed (auto simp: heap_on_def)

lemma sift_up_heap:
  assumes "hole_ok k n xs hole" and "below_hole k n xs hole v"
  shows "heap_on k n (sift_up k xs hole v)"
  using assms
proof (induction k xs hole v rule: sift_up.induct)
  case (1 k xs hole v)
  note ok = "1.prems"(1)
  have hn: "hole < n" "n \<le> length xs" using ok by (auto simp: hole_ok_def)
  have e: "k (xs ! par i) \<le> k (xs ! i)" if "0 < i" "i < n" "i \<noteq> hole" "par i \<noteq> hole" for i
    using ok that by (auto simp: hole_ok_def)
  have x: "k (xs ! par hole) \<le> k (xs ! i)" if "0 < i" "i < n" "par i = hole" "0 < hole" for i
    using ok that by (auto simp: hole_ok_def)
  show ?case
  proof (cases "0 < hole \<and> k v < k (xs ! par hole)")
    case True
    let ?p = "par hole" and ?xs = "xs[hole := xs ! par hole]"
    have p: "?p < hole" using True by (simp add: par_less)
    have nth: "?xs ! i = (if i = hole then xs ! ?p else xs ! i)" for i
      using hn by (simp add: nth_list_update)
    have pe: "k (xs ! ?p) \<le> k (xs ! i)" if "0 < i" "i < n" "par i = ?p" "i \<noteq> hole" for i
      using e [of i] that p by auto
    have pp: "0 < ?p \<Longrightarrow> k (xs ! par ?p) \<le> k (xs ! ?p) \<and> par ?p < ?p"
      using e [of ?p] p hn par_less [of ?p] by auto
    have "hole_ok k n ?xs ?p"
      unfolding hole_ok_def
    proof (intro conjI allI impI)
      fix i assume i: "0 < i \<and> i < n \<and> i \<noteq> ?p \<and> par i \<noteq> ?p"
      then show "k (?xs ! par i) \<le> k (?xs ! i)" using e [of i] x [of i] True by (auto simp: nth)
    next
      fix i assume i: "0 < i \<and> i < n \<and> par i = ?p \<and> 0 < ?p"
      then show "k (?xs ! par ?p) \<le> k (?xs ! i)"
        using pp pe [of i] p by (cases "i = hole") (auto simp: nth)
    qed (use hn p in auto)
    moreover have "below_hole k n ?xs ?p v"
      unfolding below_hole_def
    proof (intro allI impI)
      fix i assume i: "0 < i \<and> i < n \<and> par i = ?p"
      then show "k v \<le> k (?xs ! i)" using True pe [of i] by (cases "i = hole") (auto simp: nth)
    qed
    ultimately have "heap_on k n (sift_up k ?xs ?p v)" by (rule "1.IH" [OF True])
    then show ?thesis using True by (subst sift_up.simps) simp
  next
    case False
    have "heap_on k n (xs[hole := v])"
      unfolding heap_on_def
    proof (intro allI impI)
      fix i assume i: "0 < i \<and> i < n"
      then have "par i < i" by (simp add: par_less)
      then show "k (xs[hole := v] ! par i) \<le> k (xs[hole := v] ! i)"
        using i e [of i] False "1.prems"(2) hn by (auto simp: below_hole_def nth_list_update)
    qed
    then show ?thesis using False by (subst sift_up.simps) auto
  qed
qed

lemma hole_ok_down:
  assumes ok: "hole_ok k n xs hole" and c: "0 < c" "c < n" "par c = hole"
    and min: "\<And>i. 0 < i \<Longrightarrow> i < n \<Longrightarrow> par i = hole \<Longrightarrow> k (xs ! c) \<le> k (xs ! i)"
  shows "hole_ok k n (xs[hole := xs ! c]) c"
  unfolding hole_ok_def
proof (intro conjI allI impI)
  have hn: "hole < n" "n \<le> length xs" using ok by (auto simp: hole_ok_def)
  have hc: "hole < c" using c par_less [of c] by simp
  have nth: "xs[hole := xs ! c] ! i = (if i = hole then xs ! c else xs ! i)" for i
    using hn by (simp add: nth_list_update)
  show "c < n" by (rule c(2))
  show "n \<le> length (xs[hole := xs ! c])" using hn by simp
  fix i
  { assume i: "0 < i \<and> i < n \<and> i \<noteq> c \<and> par i \<noteq> c"
    show "k (xs[hole := xs ! c] ! par i) \<le> k (xs[hole := xs ! c] ! i)"
    proof (cases "par i = hole")
      case True
      then have "i \<noteq> hole" using i par_less [of i] by auto
      then show ?thesis using True min [of i] i by (simp add: nth)
    next
      case False
      then show ?thesis using ok c hc i by (auto simp: nth hole_ok_def)
    qed }
  { assume i: "0 < i \<and> i < n \<and> par i = c \<and> 0 < c"
    then have ci: "c < i" using par_less [of i] by auto
    have "k (xs ! par i) \<le> k (xs ! i)" using ok i hc ci by (auto simp: hole_ok_def)
    then show "k (xs[hole := xs ! c] ! par c) \<le> k (xs[hole := xs ! c] ! i)"
      using i c(3) hc ci by (auto simp: nth) }
qed


lemma pick_child_props:
  assumes "hole < (len - 1) div 2"
  shows "0 < pick_child k xs hole" "pick_child k xs hole < len" "par (pick_child k xs hole) = hole"
    "hole < pick_child k xs hole"
    and "0 < i \<Longrightarrow> par i = hole \<Longrightarrow> k (xs ! pick_child k xs hole) \<le> k (xs ! i)"
proof -
  let ?c = "pick_child k xs hole"
  have c: "?c = 2 * hole + 1 \<or> ?c = 2 * hole + 2" by (auto simp: pick_child_def Let_def)
  show c0: "0 < ?c" and "?c < len" using c assms(1) by linarith+
  show "par ?c = hole" using c par_child [OF c0] by blast
  show "hole < ?c" using c by linarith
  show "k (xs ! ?c) \<le> k (xs ! i)" if "0 < i" "par i = hole"
    using that(2) par_child [OF that(1), of hole] by (auto simp: pick_child_def Let_def)
qed

lemma hole_down_props:
  assumes "hole_ok k len xs hole" and "hole_down k xs hole len = (ys, h)"
  shows "hole_ok k len ys h" and "\<not> 2 * h + 1 < len" and "length ys = length xs"
    and "mset (ys[h := v]) = mset (xs[hole := v])" and "len \<le> j \<Longrightarrow> ys ! j = xs ! j"
proof -
  have "hole_ok k len ys h \<and> \<not> 2 * h + 1 < len \<and> length ys = length xs \<and>
     mset (ys[h := v]) = mset (xs[hole := v]) \<and> (len \<le> j \<longrightarrow> ys ! j = xs ! j)"
    using assms
  proof (induction k xs hole len rule: hole_down.induct)
    case (1 k xs hole len)
    have hn: "hole < len" "len \<le> length xs" using "1.prems"(1) by (auto simp: hole_ok_def)
    show ?case
    proof (cases "hole < (len - 1) div 2")
      case True
      let ?c = "pick_child k xs hole"
      note c = pick_child_props [OF True, where k = k and xs = xs]
      have "hole_ok k len (xs[hole := xs ! ?c]) ?c"
        by (rule hole_ok_down [OF "1.prems"(1) c(1-3)]) (rule c(5))
      moreover have "hole_down k (xs[hole := xs ! ?c]) ?c len = (ys, h)"
        using "1.prems"(2) True by (subst (asm) hole_down.simps) simp
      ultimately have IH: "hole_ok k len ys h \<and> \<not> 2 * h + 1 < len \<and>
         length ys = length (xs[hole := xs ! ?c]) \<and>
         mset (ys[h := v]) = mset (xs[hole := xs ! ?c, ?c := v]) \<and>
         (len \<le> j \<longrightarrow> ys ! j = xs[hole := xs ! ?c] ! j)"
        using "1.IH"(1) [OF True] by blast
      have "mset (xs[hole := xs ! ?c, ?c := v]) = mset (xs[hole := v])"
        by (rule mset_move_hole) (use hn c in auto)
      with IH hn show ?thesis by auto
    next
      case False
      show ?thesis
      proof (cases "even len \<and> hole = (len - 2) div 2")
        case True
        let ?c = "2 * hole + 1"
        have ev: "len = 2 * hole + 2" using True hn(1) by presburger
        have "hole_down k xs hole len = (xs[hole := xs ! ?c], ?c)"
          unfolding hole_down.simps [of k xs hole len] if_not_P [OF False] if_P [OF True] ..
        then have r: "ys = xs[hole := xs ! ?c]" "h = ?c" using "1.prems"(2) by auto
        have "hole_ok k len ys h" unfolding r
        proof (rule hole_ok_down [OF "1.prems"(1)])
          show "0 < ?c" "?c < len" using ev by auto
          show "par ?c = hole" by (simp add: par_child)
          fix i assume "0 < i" "i < len" "par i = hole"
          then have "i = ?c" using par_child [of i hole] ev by auto
          then show "k (xs ! ?c) \<le> k (xs ! i)" by simp
        qed
        moreover have "mset (xs[hole := xs ! ?c, ?c := v]) = mset (xs[hole := v])"
          by (rule mset_move_hole) (use hn ev in auto)
        ultimately show ?thesis using r ev hn by auto
      next
        case nev: False
        have "hole_down k xs hole len = (xs, hole)"
          unfolding hole_down.simps [of k xs hole len] if_not_P [OF False] if_not_P [OF nev] ..
        then have r: "ys = xs" "h = hole" using "1.prems"(2) by auto
        have "\<not> 2 * hole + 1 < len"
        proof
          assume "2 * hole + 1 < len"
          with False have "len = 2 * hole + 2" by linarith
          with nev show False by simp
        qed
        with r "1.prems"(1) show ?thesis by simp
      qed
    qed
  qed
  then show "hole_ok k len ys h" "\<not> 2 * h + 1 < len" "length ys = length xs"
    "mset (ys[h := v]) = mset (xs[hole := v])" "len \<le> j \<Longrightarrow> ys ! j = xs ! j" by blast+
qed

lemma adjust_props:
  assumes "hole_ok k len xs hole"
  shows "heap_on k len (adjust k xs hole len v)"
    and "mset (adjust k xs hole len v) = mset (xs[hole := v])"
    and "len \<le> j \<Longrightarrow> adjust k xs hole len v ! j = xs ! j"
proof -
  obtain ys h where d: "hole_down k xs hole len = (ys, h)" by fastforce
  note p = hole_down_props [OF assms d]
  have hl: "h < len" "len \<le> length ys" using p(1) by (auto simp: hole_ok_def)
  have a: "adjust k xs hole len v = sift_up k ys h v" by (simp add: adjust_def d)
  have "below_hole k len ys h v"
    unfolding below_hole_def
  proof (intro allI impI)
    fix i assume "0 < i \<and> i < len \<and> par i = h"
    then show "k v \<le> k (ys ! i)" using p(2) par_child [of i h] by auto
  qed
  then show "heap_on k len (adjust k xs hole len v)" unfolding a by (rule sift_up_heap [OF p(1)])
  show "mset (adjust k xs hole len v) = mset (xs[hole := v])"
    unfolding a using sift_up_mset [of h ys k v] hl p(4) by simp
  show "adjust k xs hole len v ! j = xs ! j" if "len \<le> j"
    unfolding a using sift_up_above [of h j k ys v] hl p(5) that by simp
qed

lemma heap_pop_props:
  assumes "heap_on k n xs" and "n \<le> length xs" and "0 < n"
  shows "heap_on k (n - 1) (heap_pop k xs n)" and "mset (heap_pop k xs n) = mset xs"
    and "heap_pop k xs n ! (n - 1) = xs ! 0"
proof -
  have "heap_on k (n - 1) (heap_pop k xs n) \<and> mset (heap_pop k xs n) = mset xs \<and>
     heap_pop k xs n ! (n - 1) = xs ! 0"
  proof (cases "1 < n")
    case True
    let ?xs = "xs[n - 1 := xs ! 0]"
    have "heap_on k (n - 1) ?xs"
      unfolding heap_on_def
    proof (intro allI impI)
      fix i assume i: "0 < i \<and> i < n - 1"
      then have "par i < i" by (simp add: par_less)
      then show "k (?xs ! par i) \<le> k (?xs ! i)" using i assms(1) by (auto simp: heap_on_def)
    qed
    then have ok: "hole_ok k (n - 1) ?xs 0" by (rule heap_on_hole_ok) (use True assms(2) in auto)
    note p = adjust_props [OF ok, where v = "xs ! (n - 1)"]
    have "mset (?xs[0 := xs ! (n - 1)]) = mset xs"
    proof -
      have "mset (xs[n - 1 := xs ! 0, 0 := xs ! (n - 1)]) = mset (xs[n - 1 := xs ! (n - 1)])"
        by (rule mset_move_hole) (use True assms(2) in auto)
      then show ?thesis by simp
    qed
    then show ?thesis using True p(1,2) p(3) [of "n - 1"] assms(2) by (simp add: heap_pop_def)
  next
    case False
    then show ?thesis using assms(3) by (auto simp: heap_pop_def heap_on_def)
  qed
  then show "heap_on k (n - 1) (heap_pop k xs n)" "mset (heap_pop k xs n) = mset xs"
    "heap_pop k xs n ! (n - 1) = xs ! 0" by blast+
qed

text \<open>The root is a minimum.\<close>

lemma heap_on_root: "heap_on k n xs \<Longrightarrow> i < n \<Longrightarrow> k (xs ! 0) \<le> k (xs ! i)"
proof (induction i rule: less_induct)
  case (less i)
  show ?case
  proof (cases "i = 0")
    case False
    then have "par i < i" by (simp add: par_less)
    then have "k (xs ! 0) \<le> k (xs ! par i)" using less by simp
    also have "\<dots> \<le> k (xs ! i)" using less False by (auto simp: heap_on_def)
    finally show ?thesis .
  qed simp
qed

lemma heap_on_mono: "heap_on k n xs \<Longrightarrow> m \<le> n \<Longrightarrow> heap_on k m xs"
  by (auto simp: heap_on_def)

lemma heap_on_cong:
  assumes "\<And>i. i < n \<Longrightarrow> xs ! i = ys ! i"
  shows "heap_on k n xs = heap_on k n ys"
proof -
  have "xs ! i = ys ! i \<and> xs ! par i = ys ! par i" if "0 < i \<and> i < n" for i
    using that assms par_less [of i] by auto
  then show ?thesis unfolding heap_on_def by auto
qed

lemma hole_ok_update:
  assumes "hole_ok k n xs hole"
  shows "hole_ok k n (xs[hole := v]) hole"
  unfolding hole_ok_def
proof (intro conjI allI impI)
  fix i assume "0 < i \<and> i < n \<and> par i = hole \<and> 0 < hole"
  then show "k (xs[hole := v] ! par hole) \<le> k (xs[hole := v] ! i)"
    using assms par_less [of hole] par_less [of i] by (simp add: hole_ok_def)
qed (use assms in \<open>auto simp: hole_ok_def\<close>)

end
