(* ===== verification/Timer_Service.thy ===== *)
theory Timer_Service
  imports Wdd_Prelude
begin

text \<open>
  What a client of the timer manager relies on, as an interface over the abstract state: a
  finite map from handles to an expiry time and a caller's buffer. The laws say what each
  operation does to the map; the lemmas are about a client that ticks until nothing is due.
\<close>

datatype 'b timer_op = TStart int 'b | TStop int | TUpdate int int | TTick int

locale timer_service =
  fixes inv :: "'s \<Rightarrow> bool"
    and timers :: "'s \<Rightarrow> int \<Rightarrow> (int \<times> 'b) option"
    and capacity :: "'s \<Rightarrow> nat"
    and start :: "'s \<Rightarrow> int \<Rightarrow> 'b \<Rightarrow> (int \<times> 's) option"
    and stop :: "'s \<Rightarrow> int \<Rightarrow> (int \<times> 's) option"
    and update :: "'s \<Rightarrow> int \<Rightarrow> int \<Rightarrow> (int \<times> 's) option"
    and tick :: "'s \<Rightarrow> int \<Rightarrow> 'b \<Rightarrow> (int \<times> 's \<times> 'b) option"
  assumes timers_bounded: "inv s \<Longrightarrow> finite (dom (timers s)) \<and> card (dom (timers s)) \<le> capacity s"
    and start_room: "inv s \<Longrightarrow> 0 < e \<Longrightarrow> card (dom (timers s)) < capacity s \<Longrightarrow>
      \<exists>h s'. start s e b = Some (0, s') \<and> inv s' \<and> capacity s' = capacity s \<and> 0 \<le> h \<and>
        timers s h = None \<and> timers s' = (timers s)(h \<mapsto> (e, b))"
    and start_full: "inv s \<Longrightarrow> card (dom (timers s)) = capacity s \<Longrightarrow> \<exists>c < 0. start s e b = Some (c, s)"
    and stop_live: "inv s \<Longrightarrow> timers s h \<noteq> None \<Longrightarrow>
      \<exists>s'. stop s h = Some (0, s') \<and> inv s' \<and> capacity s' = capacity s \<and> timers s' = (timers s)(h := None)"
    and stop_dead: "inv s \<Longrightarrow> timers s h = None \<Longrightarrow> \<exists>c < 0. stop s h = Some (c, s)"
    and update_live: "inv s \<Longrightarrow> timers s h = Some (e, b) \<Longrightarrow> 0 < e' \<Longrightarrow>
      \<exists>s'. update s h e' = Some (0, s') \<and> inv s' \<and> capacity s' = capacity s \<and>
        timers s' = (timers s)(h \<mapsto> (e', b))"
    and update_dead: "inv s \<Longrightarrow> timers s h = None \<Longrightarrow> \<exists>c < 0. update s h e' = Some (c, s)"
    and tick_due: "inv s \<Longrightarrow> timers s k = Some (f, c) \<Longrightarrow> f \<le> now \<Longrightarrow>
      \<exists>h e b s'. tick s now a = Some (h, s', b) \<and> inv s' \<and> capacity s' = capacity s \<and> 0 \<le> h \<and>
        timers s h = Some (e, b) \<and> e \<le> now \<and> (\<forall>h' e' b'. timers s h' = Some (e', b') \<longrightarrow> e \<le> e') \<and>
        timers s' = (timers s)(h := None)"
    and tick_idle: "inv s \<Longrightarrow> (\<And>h e b. timers s h = Some (e, b) \<Longrightarrow> now < e) \<Longrightarrow>
      \<exists>c < 0. tick s now a = Some (c, s, a)"
begin

text \<open>Every operation returns and keeps the invariant.\<close>

lemma start_total: "inv s \<Longrightarrow> 0 < e \<Longrightarrow> \<exists>r s'. start s e b = Some (r, s') \<and> inv s' \<and> capacity s' = capacity s"
  using timers_bounded [of s] start_room [of s e b] start_full [of s e b]
  by (cases "card (dom (timers s)) < capacity s") fastforce+

lemma stop_total: "inv s \<Longrightarrow> \<exists>r s'. stop s h = Some (r, s') \<and> inv s' \<and> capacity s' = capacity s"
  using stop_live [of s h] stop_dead [of s h] by (cases "timers s h = None") fastforce+

lemma update_total: "inv s \<Longrightarrow> 0 < e \<Longrightarrow> \<exists>r s'. update s h e = Some (r, s') \<and> inv s' \<and> capacity s' = capacity s"
  using update_live [of s h] update_dead [of s h e] by (cases "timers s h") fastforce+

lemma tick_total: "inv s \<Longrightarrow> \<exists>r s' b. tick s now a = Some (r, s', b) \<and> inv s' \<and> capacity s' = capacity s"
proof (cases "\<exists>h e b. timers s h = Some (e, b) \<and> e \<le> now")
  case True
  assume "inv s"
  then show ?thesis using True tick_due by blast
next
  case False
  assume "inv s"
  moreover have "\<And>h e b. timers s h = Some (e, b) \<Longrightarrow> now < e" using False by fastforce
  ultimately show ?thesis using tick_idle [of s now a] by blast
qed

text \<open>A main loop's use of the service: tick until a negative handle comes back.\<close>

fun drain :: "nat \<Rightarrow> 's \<Rightarrow> int \<Rightarrow> 'b \<Rightarrow> ((int \<times> 'b) list \<times> 's) option" where
  "drain 0 s now a = None"
| "drain (Suc n) s now a =
     (case tick s now a of
        None \<Rightarrow> None
      | Some (h, s', b) \<Rightarrow>
          if h < 0 then Some ([], s')
          else (case drain n s' now b of None \<Rightarrow> None | Some (xs, s'') \<Rightarrow> Some ((h, b) # xs, s'')))"

definition due :: "'s \<Rightarrow> int \<Rightarrow> int set" where
  "due s now = {h. \<exists>e b. timers s h = Some (e, b) \<and> e \<le> now}"

lemma due_finite: "inv s \<Longrightarrow> finite (due s now)"
  using timers_bounded [of s] by (rule_tac finite_subset [of _ "dom (timers s)"]) (auto simp: due_def)

text \<open>
  Draining ends, hands out every due timer exactly once with its own buffer, in the order of
  the expiry times, and leaves exactly the timers that are not due.
\<close>

lemma drain_due:
  assumes "inv s" and "card (due s now) < n"
  shows "\<exists>xs s'. drain n s now a = Some (xs, s') \<and> inv s' \<and> capacity s' = capacity s \<and>
    distinct (map fst xs) \<and> set (map fst xs) = due s now \<and>
    (\<forall>(h, b) \<in> set xs. map_option snd (timers s h) = Some b) \<and>
    sorted (map (\<lambda>(h, b). fst (the (timers s h))) xs) \<and>
    timers s' = (\<lambda>h. if h \<in> due s now then None else timers s h)"
  using assms
proof (induction n arbitrary: s a)
  case 0
  then show ?case by simp
next
  case (Suc n)
  show ?case
  proof (cases "due s now = {}")
    case True
    then have "\<And>h e b. timers s h = Some (e, b) \<Longrightarrow> now < e" by (force simp: due_def)
    then obtain c where "c < 0" "tick s now a = Some (c, s, a)"
      using tick_idle [OF Suc.prems(1), of now a] by blast
    then show ?thesis using True Suc.prems by auto
  next
    case False
    then obtain k f c where "timers s k = Some (f, c)" "f \<le> now" by (auto simp: due_def)
    from tick_due [OF Suc.prems(1) this, of a] obtain h e b s1 where
      t: "tick s now a = Some (h, s1, b)" "inv s1" "capacity s1 = capacity s" "0 \<le> h"
        "timers s h = Some (e, b)" "e \<le> now" "\<And>h' e' b'. timers s h' = Some (e', b') \<Longrightarrow> e \<le> e'"
        "timers s1 = (timers s)(h := None)" by blast
    have d1: "due s1 now = due s now - {h}" and hd: "h \<in> due s now"
      using t(5,6,8) by (auto simp: due_def)
    have "card (due s1 now) < n"
      unfolding d1 using card_Diff_singleton [OF hd] card_gt_0_iff [of "due s now"]
        due_finite [OF Suc.prems(1)] hd Suc.prems(2) by force
    from Suc.IH [OF t(2) this, of b] obtain xs s' where
      i: "drain n s1 now b = Some (xs, s')" "inv s'" "capacity s' = capacity s1" "distinct (map fst xs)"
        "set (map fst xs) = due s1 now" "\<forall>(h, b) \<in> set xs. map_option snd (timers s1 h) = Some b"
        "sorted (map (\<lambda>(h, b). fst (the (timers s1 h))) xs)"
        "timers s' = (\<lambda>h. if h \<in> due s1 now then None else timers s1 h)" by blast
    have nh: "fst x \<noteq> h" if "x \<in> set xs" for x using that i(5) d1 by auto
    have m: "map (\<lambda>(h, b). fst (the (timers s1 h))) xs = map (\<lambda>(h, b). fst (the (timers s h))) xs"
      using nh t(8) by (intro map_cong) auto
    have lo: "e \<le> fst (the (timers s (fst x)))" if "x \<in> set xs" for x
    proof -
      have "fst x \<in> due s now" using that i(5) d1 by auto
      then show ?thesis using t(7) by (auto simp: due_def)
    qed
    have "drain (Suc n) s now a = Some ((h, b) # xs, s')" using t(1,4) i(1) by simp
    moreover have "sorted (map (\<lambda>(h, b). fst (the (timers s h))) ((h, b) # xs))"
      using i(7) lo t(5) unfolding m by (auto simp: case_prod_unfold)
    moreover have "\<forall>(h, b) \<in> set ((h, b) # xs). map_option snd (timers s h) = Some b"
      using i(6) nh t(5,8) by fastforce
    moreover have "timers s' = (\<lambda>h. if h \<in> due s now then None else timers s h)"
      using i(8) t(8) d1 hd by (auto simp: fun_eq_iff)
    moreover have "distinct (map fst ((h, b) # xs))" using i(4) nh by auto
    moreover have "set (map fst ((h, b) # xs)) = due s now" using i(5) d1 hd by auto
    ultimately show ?thesis using i(2) i(3) [unfolded t(3)] by (intro exI conjI)
  qed
qed

end

end
