(* ===== verification/LiteTimer.thy ===== *)
theory LiteTimer
  imports ObjPool Heap_Ref Timer_Service
begin

text \<open>
  The timer manager of \<^verbatim>\<open>src/util/timer/lite_timer.{h,cpp}\<close>.

  A manager is a binary heap of timers in a vector, ordered by expiry time, and an object pool
  that holds, for each timer handle, the caller's buffer and the timer's current position in
  the vector. The heap is maintained by \<open>std::push_heap\<close> and \<open>std::pop_heap\<close>; every element
  they move goes through \<open>LiteTimer::operator=\<close>, which writes the new position back into the
  pool. The model runs the algorithms of libstdc++ with that side effect at every assignment.
\<close>

section \<open>Data\<close>

record LiteTimer =
  m_id :: int
  m_TimerIdx :: int
  m_expireTime :: int

record 'b TTimerArg =
  m_iTimerIdx :: int
  m_Buf :: 'b

record 'b LiteTimerMgr =
  m_TimerHeap :: "LiteTimer list"
  m_pTimerArgPool :: "'b TTimerArg TObjPoolPtr"

section \<open>The pool side\<close>

definition SetTimerIdxById :: "'b LiteTimerMgr \<Rightarrow> int \<Rightarrow> int \<Rightarrow> (int \<times> 'b LiteTimerMgr) fault" where
  "SetTimerIdxById m tid idx =
     (case m_pTimerArgPool m of
        None \<Rightarrow> Some (-1, m)
      | Some p \<Rightarrow> do {
          pTimerArg \<leftarrow> objpool_get (Some p) tid;
          (case pTimerArg of
             None \<Rightarrow> Some (-2, m)
           | Some off \<Rightarrow> do {
               p' \<leftarrow> obj_write p off (\<lambda>a. a \<lparr> m_iTimerIdx := idx \<rparr>);
               Some (0, m \<lparr> m_pTimerArgPool := Some p' \<rparr>)
             })
        })"

definition GetTimerIdxByID :: "'b LiteTimerMgr \<Rightarrow> int \<Rightarrow> int fault" where
  "GetTimerIdxByID m tid =
     (case m_pTimerArgPool m of
        None \<Rightarrow> Some (-1)
      | Some p \<Rightarrow> do {
          pTimerArg \<leftarrow> objpool_get (Some p) tid;
          (case pTimerArg of
             None \<Rightarrow> Some (-2)
           | Some off \<Rightarrow> do { a \<leftarrow> obj_read p off; Some (m_iTimerIdx a) })
        })"

section \<open>Element assignment and comparison\<close>

definition LiteTimer_less :: "LiteTimer \<Rightarrow> LiteTimer \<Rightarrow> bool" where
  "LiteTimer_less a b \<longleftrightarrow> m_expireTime a > m_expireTime b"

definition LiteTimer_assign :: "nat \<Rightarrow> LiteTimer \<Rightarrow> 'b LiteTimerMgr \<Rightarrow> 'b LiteTimerMgr fault" where
  "LiteTimer_assign d elem m = do {
     t \<leftarrow> arr_get (m_TimerHeap m) (int d);
     let t = t \<lparr> m_id := m_id elem, m_expireTime := m_expireTime elem \<rparr>;
     (_, m) \<leftarrow> SetTimerIdxById (m \<lparr> m_TimerHeap := (m_TimerHeap m)[d := t] \<rparr>) (m_id t) (m_TimerIdx t);
     Some m
   }"

section \<open>The standard heap algorithms\<close>

function std_push_loop :: "nat \<Rightarrow> LiteTimer \<Rightarrow> 'b LiteTimerMgr \<Rightarrow> 'b LiteTimerMgr fault" where
  "std_push_loop hole v m =
     (if 0 < hole
      then do {
        e \<leftarrow> arr_get (m_TimerHeap m) (int (par hole));
        if LiteTimer_less e v
        then do {
          m \<leftarrow> LiteTimer_assign hole e m;
          std_push_loop (par hole) v m
        }
        else LiteTimer_assign hole v m
      }
      else LiteTimer_assign hole v m)"
  by pat_completeness auto
termination
  by (relation "measure (\<lambda>(hole, v, m). hole)") (auto simp: par_less)

definition std_push_heap :: "nat \<Rightarrow> 'b LiteTimerMgr \<Rightarrow> 'b LiteTimerMgr fault" where
  "std_push_heap n m = do {
     v \<leftarrow> arr_get (m_TimerHeap m) (int n - 1);
     std_push_loop (n - 1) v m
   }"

function std_adjust_loop :: "nat \<Rightarrow> nat \<Rightarrow> 'b LiteTimerMgr \<Rightarrow> (nat \<times> 'b LiteTimerMgr) fault" where
  "std_adjust_loop hole len m =
     (if hole < (len - 1) div 2
      then do {
        let second = 2 * (hole + 1);
        a \<leftarrow> arr_get (m_TimerHeap m) (int second);
        b \<leftarrow> arr_get (m_TimerHeap m) (int (second - 1));
        let second = (if LiteTimer_less a b then second - 1 else second);
        e \<leftarrow> arr_get (m_TimerHeap m) (int second);
        m \<leftarrow> LiteTimer_assign hole e m;
        std_adjust_loop second len m
      }
      else if even len \<and> hole = (len - 2) div 2
      then do {
        e \<leftarrow> arr_get (m_TimerHeap m) (int (2 * (hole + 1) - 1));
        m \<leftarrow> LiteTimer_assign hole e m;
        Some (2 * (hole + 1) - 1, m)
      }
      else Some (hole, m))"
  by pat_completeness auto
termination
  by (relation "measure (\<lambda>(hole, len, m). len - hole)") auto

declare std_push_loop.simps [simp del] std_adjust_loop.simps [simp del]

definition std_pop_heap :: "nat \<Rightarrow> 'b LiteTimerMgr \<Rightarrow> 'b LiteTimerMgr fault" where
  "std_pop_heap n m =
     (if 1 < n
      then do {
        v \<leftarrow> arr_get (m_TimerHeap m) (int (n - 1));
        front \<leftarrow> arr_get (m_TimerHeap m) 0;
        m \<leftarrow> LiteTimer_assign (n - 1) front m;
        (hole, m) \<leftarrow> std_adjust_loop 0 (n - 1) m;
        std_push_loop hole v m
      }
      else Some m)"

section \<open>\<open>IAmTimerMgr\<close>\<close>

definition Reset :: "'b LiteTimerMgr \<Rightarrow> int \<times> 'b LiteTimerMgr" where
  "Reset m = (0, m \<lparr> m_TimerHeap := [] \<rparr>)"

text \<open>\<open>m_TimerHeap[idx].m_expireTime = t\<close>.\<close>

definition set_expire :: "int \<Rightarrow> int \<Rightarrow> 'b LiteTimerMgr \<Rightarrow> 'b LiteTimerMgr fault" where
  "set_expire idx t m = do {
     h \<leftarrow> arr_upd (m_TimerHeap m) idx (\<lambda>e. e \<lparr> m_expireTime := t \<rparr>);
     Some (m \<lparr> m_TimerHeap := h \<rparr>)
   }"

definition IAm_StartTimer :: "'b LiteTimerMgr \<Rightarrow> int \<Rightarrow> int \<Rightarrow> (int \<times> 'b LiteTimerMgr) fault" where
  "IAm_StartTimer m tid expireTime = do {
     let idx = s32 (int (length (m_TimerHeap m)));
     let m = m \<lparr> m_TimerHeap := m_TimerHeap m @
                   [\<lparr> m_id = tid, m_TimerIdx = idx, m_expireTime = expireTime \<rparr>] \<rparr>;
     (_, m) \<leftarrow> SetTimerIdxById m tid idx;
     m \<leftarrow> std_push_heap (length (m_TimerHeap m)) m;
     Some (0, m)
   }"

definition IAm_UpdateTimer :: "'b LiteTimerMgr \<Rightarrow> int \<Rightarrow> int \<Rightarrow> (int \<times> 'b LiteTimerMgr) fault" where
  "IAm_UpdateTimer m tid expireTime = do {
     idx \<leftarrow> GetTimerIdxByID m tid;
     if idx < 0 \<or> length (m_TimerHeap m) < 1 \<or> expireTime = 0 then Some (-1, m)
     else do {
       m \<leftarrow> set_expire idx 0 m;
       m \<leftarrow> std_push_heap (nat idx + 1) m;
       m \<leftarrow> std_pop_heap (length (m_TimerHeap m)) m;
       m \<leftarrow> set_expire (int (length (m_TimerHeap m)) - 1) expireTime m;
       m \<leftarrow> std_push_heap (length (m_TimerHeap m)) m;
       Some (0, m)
     }
   }"

definition IAm_StopTimer :: "'b LiteTimerMgr \<Rightarrow> int \<Rightarrow> (int \<times> 'b LiteTimerMgr) fault" where
  "IAm_StopTimer m tid = do {
     idx \<leftarrow> GetTimerIdxByID m tid;
     if idx < 0 \<or> length (m_TimerHeap m) < 1 then Some (-1, m)
     else do {
       m \<leftarrow> set_expire idx 0 m;
       m \<leftarrow> std_push_heap (nat idx + 1) m;
       m \<leftarrow> std_pop_heap (length (m_TimerHeap m)) m;
       Some (0, m \<lparr> m_TimerHeap := butlast (m_TimerHeap m) \<rparr>)
     }
   }"

definition IAm_TickOneExpireTimer :: "'b LiteTimerMgr \<Rightarrow> int \<Rightarrow> (int \<times> 'b LiteTimerMgr) fault" where
  "IAm_TickOneExpireTimer m now =
     (case m_TimerHeap m of
        [] \<Rightarrow> Some (-1, m)
      | t # _ \<Rightarrow>
          if m_expireTime t \<le> now
          then do {
            m \<leftarrow> std_pop_heap (length (m_TimerHeap m)) m;
            Some (m_id t, m \<lparr> m_TimerHeap := butlast (m_TimerHeap m) \<rparr>)
          }
          else Some (-1, m))"

section \<open>\<open>LiteTimerMgr\<close>\<close>

definition LiteTimerMgr_new :: "'b LiteTimerMgr" where
  "LiteTimerMgr_new = \<lparr> m_TimerHeap = [], m_pTimerArgPool = None \<rparr>"

text \<open>\<open>iArgSize\<close> is \<open>sizeof(TTimerArg)\<close>; the \<open>int\<close> count converts to \<open>size_t\<close>.\<close>

definition InitTimerMgr ::
  "(int \<Rightarrow> bool) \<Rightarrow> (nat \<Rightarrow> 'b TTimerArg) \<Rightarrow> nat \<Rightarrow> 'b LiteTimerMgr \<Rightarrow> int \<Rightarrow>
     (int \<times> 'b LiteTimerMgr) fault" where
  "InitTimerMgr malloc garbage iArgSize m iMaxCount =
     (if m_pTimerArgPool m \<noteq> None then Some (-1, m)
      else do {
        (iRet, pp) \<leftarrow> objpool_init malloc garbage (Some (m_pTimerArgPool m)) (nat (u64 iMaxCount)) iArgSize;
        p \<leftarrow> pp;
        let m = m \<lparr> m_pTimerArgPool := p \<rparr>;
        if iRet < 0 then Some (-2, m) else Some (0, snd (Reset m))
      })"

definition Destory :: "'b LiteTimerMgr \<Rightarrow> int \<times> 'b LiteTimerMgr" where
  "Destory m = (0, snd (Reset (m \<lparr> m_pTimerArgPool := None \<rparr>)))"

definition StartTimer :: "'b LiteTimerMgr \<Rightarrow> int \<Rightarrow> 'b \<Rightarrow> (int \<times> 'b LiteTimerMgr) fault" where
  "StartTimer m expireTime buf =
     (if m_pTimerArgPool m = None \<or> expireTime = 0 then Some (-1, m)
      else do {
        (iID, pp) \<leftarrow> objpool_alloc (m_pTimerArgPool m);
        let m = m \<lparr> m_pTimerArgPool := pp \<rparr>;
        if 0 > iID then Some (-2, m)
        else do {
          pTimerArg \<leftarrow> objpool_get (m_pTimerArgPool m) iID;
          (case pTimerArg of
             None \<Rightarrow> Some (-3, m)
           | Some off \<Rightarrow> do {
               p \<leftarrow> m_pTimerArgPool m;
               p \<leftarrow> obj_write p off (\<lambda>a. a \<lparr> m_Buf := buf \<rparr>);
               (iRet, m) \<leftarrow> IAm_StartTimer (m \<lparr> m_pTimerArgPool := Some p \<rparr>) iID expireTime;
               if iRet < 0 then Some (-4, m) else Some (0, m)
             })
        }
      })"

definition UpdateTimer :: "'b LiteTimerMgr \<Rightarrow> int \<Rightarrow> int \<Rightarrow> (int \<times> 'b LiteTimerMgr) fault" where
  "UpdateTimer m tid expireTime =
     (if m_pTimerArgPool m = None \<or> expireTime = 0 then Some (-1, m)
      else do {
        (iRet, m) \<leftarrow> IAm_UpdateTimer m tid expireTime;
        if iRet < 0 then Some (-2, m) else Some (0, m)
      })"

definition StopTimer :: "'b LiteTimerMgr \<Rightarrow> int \<Rightarrow> (int \<times> 'b LiteTimerMgr) fault" where
  "StopTimer m tid =
     (if m_pTimerArgPool m = None then Some (-1, m)
      else do {
        (iRet, m) \<leftarrow> IAm_StopTimer m tid;
        if iRet < 0 then Some (-2, m)
        else do {
          (_, pp) \<leftarrow> objpool_free (m_pTimerArgPool m) tid;
          Some (0, m \<lparr> m_pTimerArgPool := pp \<rparr>)
        }
      })"

text \<open>The last component of the result is what the reference argument \<open>arg\<close> holds afterwards.\<close>

definition TickOneExpireTimer :: "'b LiteTimerMgr \<Rightarrow> int \<Rightarrow> 'b \<Rightarrow> (int \<times> 'b LiteTimerMgr \<times> 'b) fault" where
  "TickOneExpireTimer m now arg =
     (if m_pTimerArgPool m = None then Some (-1, m, arg)
      else do {
        (iID, m) \<leftarrow> IAm_TickOneExpireTimer m now;
        if iID < 0 then Some (-1, m, arg)
        else do {
          pTimerArg \<leftarrow> objpool_get (m_pTimerArgPool m) iID;
          (case pTimerArg of
             None \<Rightarrow> Some (-1, m, arg)
           | Some off \<Rightarrow> do {
               p \<leftarrow> m_pTimerArgPool m;
               a \<leftarrow> obj_read p off;
               (_, pp) \<leftarrow> objpool_free (Some p) iID;
               Some (iID, m \<lparr> m_pTimerArgPool := pp \<rparr>, m_Buf a)
             })
        }
      })"

text \<open>The overloads without a buffer; \<open>buf\<close> is the default-constructed local variable.\<close>

definition StartTimer_plain :: "'b \<Rightarrow> 'b LiteTimerMgr \<Rightarrow> int \<Rightarrow> (int \<times> 'b LiteTimerMgr) fault" where
  "StartTimer_plain buf m expireTime = StartTimer m expireTime buf"

definition TickOneExpireTimer_plain :: "'b \<Rightarrow> 'b LiteTimerMgr \<Rightarrow> int \<Rightarrow> (int \<times> 'b LiteTimerMgr) fault" where
  "TickOneExpireTimer_plain buf m now = do { (ret, m, _) \<leftarrow> TickOneExpireTimer m now buf; Some (ret, m) }"

definition GetActiveCount :: "'b LiteTimerMgr \<Rightarrow> int" where
  "GetActiveCount m =
     (let iCount1 = s32 (objpool_get_used_items (m_pTimerArgPool m));
          iCount2 = s32 (int (length (m_TimerHeap m)))
      in if iCount1 \<noteq> iCount2 then -1 else iCount2)"

section \<open>Views of the state\<close>

text \<open>
  \<open>ents\<close> is the vector without the position fields, \<open>tidx\<close> and \<open>tbuf\<close> are the two halves of
  what the pool holds for a handle.
\<close>

definition ent :: "LiteTimer \<Rightarrow> int \<times> int" where
  "ent t = (m_id t, m_expireTime t)"

definition ents :: "'b LiteTimerMgr \<Rightarrow> (int \<times> int) list" where
  "ents m = map ent (m_TimerHeap m)"

definition tidx :: "'b LiteTimerMgr \<Rightarrow> int \<Rightarrow> int option" where
  "tidx m h = map_option m_iTimerIdx (ptr_map (m_pTimerArgPool m) h)"

definition tbuf :: "'b LiteTimerMgr \<Rightarrow> int \<Rightarrow> 'b option" where
  "tbuf m h = map_option m_Buf (ptr_map (m_pTimerArgPool m) h)"

text \<open>The pool is well formed and every vector cell knows its own position.\<close>

definition mgr_ok :: "'b LiteTimerMgr \<Rightarrow> bool" where
  "mgr_ok m \<longleftrightarrow> ptr_inv (m_pTimerArgPool m) \<and>
     (\<forall>i < length (m_TimerHeap m). m_TimerIdx (m_TimerHeap m ! i) = int i)"

text \<open>What moving elements around never changes.\<close>

definition frame :: "'b LiteTimerMgr \<Rightarrow> 'b LiteTimerMgr \<Rightarrow> bool" where
  "frame m m' \<longleftrightarrow> tbuf m' = tbuf m \<and>
     ptr_capacity (m_pTimerArgPool m') = ptr_capacity (m_pTimerArgPool m)"

text \<open>The pool's positions agree with the vector, except at a hole that waits for \<open>v\<close>.\<close>

definition hole_idx :: "'b LiteTimerMgr \<Rightarrow> nat \<Rightarrow> int \<times> int \<Rightarrow> bool" where
  "hole_idx m hole v \<longleftrightarrow> hole < length (ents m) \<and>
     (\<forall>i < length (ents m). i \<noteq> hole \<longrightarrow> tidx m (fst (ents m ! i)) = Some (int i)) \<and>
     distinct (map fst ((ents m)[hole := v])) \<and> tidx m (fst v) \<noteq> None"

definition full_idx :: "'b LiteTimerMgr \<Rightarrow> bool" where
  "full_idx m \<longleftrightarrow> (\<forall>i < length (ents m). tidx m (fst (ents m ! i)) = Some (int i)) \<and>
     distinct (map fst (ents m))"

lemma frame_refl [simp]: "frame m m" and frame_trans: "frame m m' \<Longrightarrow> frame m' m'' \<Longrightarrow> frame m m''"
  by (auto simp: frame_def)

lemma length_ents [simp]: "length (ents m) = length (m_TimerHeap m)"
  by (simp add: ents_def)

lemma ents_nth [simp]: "i < length (m_TimerHeap m) \<Longrightarrow> ents m ! i = ent (m_TimerHeap m ! i)"
  by (simp add: ents_def)

lemma tidx_None_iff: "tidx m h = None \<longleftrightarrow> tbuf m h = None"
  by (simp add: tidx_def tbuf_def)

lemma ptr_live:
  assumes "ptr_inv (Some p)" and "ptr_map (Some p) h = Some a"
  obtains us fs off where "pool_rel p us fs" "pool_live p h" "objpool_get (Some p) h = Some (Some off)"
    "off = (h mod m_iCapacity p) * m_iUnitSize p" "obj_read p off = Some a"
proof -
  from assms(1) obtain us fs where r: "pool_rel p us fs" by (auto simp: ptr_inv_def pool_inv_def)
  have l: "pool_live p h" using assms(2) by (auto simp: ptr_map_def pool_map_def split: if_splits)
  from live_cell(1,4) [OF r l] that r l assms(2) show ?thesis by (auto simp: ptr_map_def)
qed

lemma ptr_write:
  assumes "ptr_inv (Some p)" and "ptr_map (Some p) h = Some a"
  shows "\<exists>off p'. objpool_get (Some p) h = Some (Some off) \<and> obj_write p off f = Some p' \<and>
    ptr_inv (Some p') \<and> ptr_map (Some p') = (ptr_map (Some p))(h \<mapsto> f a) \<and>
    ptr_capacity (Some p') = ptr_capacity (Some p)"
proof -
  obtain us fs off where r: "pool_rel p us fs" and l: "pool_live p h"
    and g: "objpool_get (Some p) h = Some (Some off)" and o: "off = (h mod m_iCapacity p) * m_iUnitSize p"
    using ptr_live [OF assms] by metis
  from live_write [OF r l, of f] obtain p' where "obj_write p off f = Some p'" "pool_rel p' us fs"
    "pool_map p' = (pool_map p)(h \<mapsto> f (the (pool_map p h)))" "m_iCapacity p' = m_iCapacity p"
    unfolding o by blast
  with g assms(2) show ?thesis by (auto simp: ptr_inv_def pool_inv_def ptr_map_def ptr_capacity_def)
qed

lemma SetTimerIdxById_live:
  assumes "ptr_inv (m_pTimerArgPool m)" and "tidx m h \<noteq> None"
  shows "\<exists>pp'. SetTimerIdxById m h idx = Some (0, m \<lparr> m_pTimerArgPool := pp' \<rparr>) \<and> ptr_inv pp' \<and>
    ptr_capacity pp' = ptr_capacity (m_pTimerArgPool m) \<and>
    tidx (m \<lparr> m_pTimerArgPool := pp' \<rparr>) = (tidx m)(h \<mapsto> idx) \<and>
    tbuf (m \<lparr> m_pTimerArgPool := pp' \<rparr>) = tbuf m"
proof -
  from assms obtain p a where p: "m_pTimerArgPool m = Some p" and a: "ptr_map (Some p) h = Some a"
    by (auto simp: ptr_inv_def tidx_def split: option.splits)
  from ptr_write [OF assms(1) [unfolded p] a, of "\<lambda>a. a \<lparr> m_iTimerIdx := idx \<rparr>"] obtain off p' where
    w: "objpool_get (Some p) h = Some (Some off)"
      "obj_write p off (\<lambda>a. a \<lparr> m_iTimerIdx := idx \<rparr>) = Some p'" "ptr_inv (Some p')"
      "ptr_map (Some p') = (ptr_map (Some p))(h \<mapsto> a \<lparr> m_iTimerIdx := idx \<rparr>)"
      "ptr_capacity (Some p') = ptr_capacity (Some p)" by blast
  have "SetTimerIdxById m h idx = Some (0, m \<lparr> m_pTimerArgPool := Some p' \<rparr>)"
    by (simp add: SetTimerIdxById_def p w(1,2))
  then show ?thesis using w(3-5) p a
    by (intro exI [of _ "Some p'"]) (auto simp: tidx_def tbuf_def fun_eq_iff)
qed

lemma GetTimerIdxByID_eq:
  assumes "ptr_inv (m_pTimerArgPool m)"
  shows "GetTimerIdxByID m h = Some (case tidx m h of None \<Rightarrow> -2 | Some i \<Rightarrow> i)"
proof -
  from assms obtain p where p: "m_pTimerArgPool m = Some p"
    by (auto simp: ptr_inv_def split: option.splits)
  from assms p obtain us fs where r: "pool_rel p us fs" by (auto simp: ptr_inv_def pool_inv_def)
  show ?thesis
  proof (cases "ptr_map (Some p) h")
    case None
    then have "objpool_get (Some p) h = Some None"
      using objpool_get_rel [OF r] by (simp add: ptr_map_def pool_map_def split: if_splits)
    then show ?thesis using None p by (simp add: GetTimerIdxByID_def tidx_def)
  next
    case (Some a)
    obtain off where "objpool_get (Some p) h = Some (Some off)" "obj_read p off = Some a"
      using ptr_live [OF assms [unfolded p] Some] by metis
    then show ?thesis using Some p by (simp add: GetTimerIdxByID_def tidx_def)
  qed
qed

section \<open>Moving elements\<close>

lemma LiteTimer_assign_ok:
  assumes ok: "mgr_ok m" and d: "d < length (m_TimerHeap m)" and live: "tidx m (m_id e) \<noteq> None"
  shows "\<exists>m'. LiteTimer_assign d e m = Some m' \<and> mgr_ok m' \<and> frame m m' \<and>
    ents m' = (ents m)[d := ent e] \<and> tidx m' = (tidx m)(m_id e \<mapsto> int d)"
proof -
  let ?t = "(m_TimerHeap m ! d) \<lparr> m_id := m_id e, m_expireTime := m_expireTime e \<rparr>"
  let ?m = "m \<lparr> m_TimerHeap := (m_TimerHeap m)[d := ?t] \<rparr>"
  have ti: "m_TimerIdx ?t = int d" using ok d by (simp add: mgr_ok_def)
  have pi: "ptr_inv (m_pTimerArgPool ?m)" using ok by (simp add: mgr_ok_def)
  have tm: "tidx ?m = tidx m" "tbuf ?m = tbuf m" by (simp_all add: tidx_def tbuf_def fun_eq_iff)
  have "tidx ?m (m_id ?t) \<noteq> None" using live tm by simp
  from SetTimerIdxById_live [OF pi this, of "int d"] obtain pp' where
    s: "SetTimerIdxById ?m (m_id ?t) (int d) = Some (0, ?m \<lparr> m_pTimerArgPool := pp' \<rparr>)" "ptr_inv pp'"
      "ptr_capacity pp' = ptr_capacity (m_pTimerArgPool ?m)"
      "tidx (?m \<lparr> m_pTimerArgPool := pp' \<rparr>) = (tidx ?m)(m_id ?t \<mapsto> int d)"
      "tbuf (?m \<lparr> m_pTimerArgPool := pp' \<rparr>) = tbuf ?m" by blast
  let ?m' = "?m \<lparr> m_pTimerArgPool := pp' \<rparr>"
  have "LiteTimer_assign d e m = Some ?m'"
    using s(1) ti by (simp add: LiteTimer_assign_def arr_simps d Let_def)
  moreover have "mgr_ok ?m'" using ok s(2) by (simp add: mgr_ok_def nth_update_field)
  moreover have "frame m ?m'" using s(3,5) tm by (simp add: frame_def)
  moreover have "ents ?m' = (ents m)[d := ent e]" by (simp add: ents_def map_update ent_def)
  moreover have "tidx ?m' = (tidx m)(m_id e \<mapsto> int d)" using s(4) tm by simp
  ultimately show ?thesis by blast
qed

text \<open>Moving the element at \<open>c\<close> into the hole moves the hole to \<open>c\<close>.\<close>

lemma hole_move:
  assumes ok: "mgr_ok m" and hi: "hole_idx m hole v" and c: "c < length (m_TimerHeap m)" "c \<noteq> hole"
  shows "\<exists>m'. LiteTimer_assign hole (m_TimerHeap m ! c) m = Some m' \<and> mgr_ok m' \<and> frame m m' \<and>
    ents m' = (ents m)[hole := ents m ! c] \<and> hole_idx m' c v"
proof -
  let ?e = "m_TimerHeap m ! c"
  have h: "hole < length (m_TimerHeap m)" using hi by (simp add: hole_idx_def)
  have ie: "tidx m (m_id ?e) = Some (int c)" using hi c by (auto simp: hole_idx_def ent_def)
  then have "tidx m (m_id ?e) \<noteq> None" by simp
  from LiteTimer_assign_ok [OF ok h this] obtain m' where
    m': "LiteTimer_assign hole ?e m = Some m'" "mgr_ok m'" "frame m m'"
      "ents m' = (ents m)[hole := ent ?e]" "tidx m' = (tidx m)(m_id ?e \<mapsto> int hole)" by blast
  have en: "ents m' = (ents m)[hole := ents m ! c]" using m'(4) c by simp
  have len: "length (m_TimerHeap m') = length (m_TimerHeap m)"
    using arg_cong [OF en, of length] by simp
  have ms: "mset ((ents m)[hole := ents m ! c, c := v]) = mset ((ents m)[hole := v])"
    by (rule mset_move_hole) (use h c in auto)
  then have "mset (map fst ((ents m')[c := v])) = mset (map fst ((ents m)[hole := v]))"
    unfolding en by (metis mset_map)
  then have dist: "distinct (map fst ((ents m')[c := v]))"
    using hi mset_eq_imp_distinct_iff unfolding hole_idx_def by blast
  have "tidx m' (fst (ents m' ! i)) = Some (int i)" if i: "i < length (m_TimerHeap m)" "i \<noteq> c" for i
  proof (cases "i = hole")
    case True
    then show ?thesis using h m'(5) c unfolding en by (simp add: ent_def)
  next
    case False
    have "fst (ents m ! i) \<noteq> m_id ?e"
    proof
      assume "fst (ents m ! i) = m_id ?e"
      moreover have "tidx m (fst (ents m ! i)) = Some (int i)" using hi i False by (simp add: hole_idx_def)
      ultimately show False using ie i by simp
    qed
    then show ?thesis using hi i False m'(5) unfolding en by (simp add: hole_idx_def)
  qed
  moreover have "tidx m' (fst v) \<noteq> None" using hi m'(5) by (auto simp: hole_idx_def)
  ultimately have "hole_idx m' c v" using dist c len by (simp add: hole_idx_def)
  with m' en show ?thesis by blast
qed

text \<open>Filling the hole completes the vector.\<close>

lemma hole_fill:
  assumes ok: "mgr_ok m" and hi: "hole_idx m hole (ent v)"
  shows "\<exists>m'. LiteTimer_assign hole v m = Some m' \<and> mgr_ok m' \<and> frame m m' \<and>
    ents m' = (ents m)[hole := ent v] \<and> full_idx m'"
proof -
  have h: "hole < length (m_TimerHeap m)" and l: "tidx m (m_id v) \<noteq> None"
    using hi by (auto simp: hole_idx_def ent_def)
  from LiteTimer_assign_ok [OF ok h l] obtain m' where
    m': "LiteTimer_assign hole v m = Some m'" "mgr_ok m'" "frame m m'"
      "ents m' = (ents m)[hole := ent v]" "tidx m' = (tidx m)(m_id v \<mapsto> int hole)" by blast
  have len: "length (m_TimerHeap m') = length (m_TimerHeap m)"
    using arg_cong [OF m'(4), of length] by simp
  have dist: "distinct (map fst ((ents m)[hole := ent v]))" using hi by (simp add: hole_idx_def)
  have "tidx m' (fst (ents m' ! i)) = Some (int i)" if i: "i < length (m_TimerHeap m)" for i
  proof (cases "i = hole")
    case True
    then show ?thesis using h m'(5) unfolding m'(4) by (simp add: ent_def)
  next
    case False
    have "fst (ents m ! i) \<noteq> m_id v"
      using nth_eq_iff_index_eq [OF dist, of i hole] i h False by (simp add: ent_def)
    then show ?thesis using hi i False m'(5) unfolding m'(4) by (simp add: hole_idx_def)
  qed
  then have "full_idx m'" using dist len m'(4) by (simp add: full_idx_def)
  with m' show ?thesis by blast
qed


section \<open>The heap algorithms compute the reference\<close>

lemma LiteTimer_less_ent: "LiteTimer_less a b \<longleftrightarrow> snd (ent b) < snd (ent a)"
  by (simp add: LiteTimer_less_def ent_def)

lemma std_push_loop_sim:
  assumes "mgr_ok m" and "hole_idx m hole (ent v)"
  shows "\<exists>m'. std_push_loop hole v m = Some m' \<and> mgr_ok m' \<and> frame m m' \<and> full_idx m' \<and>
    ents m' = sift_up snd (ents m) hole (ent v)"
  using assms
proof (induction hole arbitrary: m rule: less_induct)
  case (less hole)
  have h: "hole < length (m_TimerHeap m)" using less.prems(2) by (simp add: hole_idx_def)
  show ?case
  proof (cases "0 < hole \<and> snd (ent v) < snd (ents m ! par hole)")
    case True
    then have pl: "par hole < hole" by (simp add: par_less)
    then have p: "par hole < length (m_TimerHeap m)" "par hole \<noteq> hole" using h by auto
    from hole_move [OF less.prems p] obtain m1 where
      m1: "LiteTimer_assign hole (m_TimerHeap m ! par hole) m = Some m1" "mgr_ok m1" "frame m m1"
        "ents m1 = (ents m)[hole := ents m ! par hole]" "hole_idx m1 (par hole) (ent v)" by blast
    from less.IH [OF pl m1(2,5)] obtain m' where
      m': "std_push_loop (par hole) v m1 = Some m'" "mgr_ok m'" "frame m1 m'" "full_idx m'"
        "ents m' = sift_up snd (ents m1) (par hole) (ent v)" by blast
    have "std_push_loop hole v m = Some m'"
      using True p m1(1) m'(1) by (subst std_push_loop.simps) (simp add: arr_simps LiteTimer_less_ent)
    moreover have "ents m' = sift_up snd (ents m) hole (ent v)"
      using True m'(5) m1(4) by (subst sift_up.simps) simp
    ultimately show ?thesis using m' m1(3) frame_trans by blast
  next
    case False
    from hole_fill [OF less.prems] obtain m' where
      m': "LiteTimer_assign hole v m = Some m'" "mgr_ok m'" "frame m m'"
        "ents m' = (ents m)[hole := ent v]" "full_idx m'" by blast
    have pl: "0 < hole \<Longrightarrow> par hole < length (m_TimerHeap m)" using h par_less [of hole] by simp
    have "std_push_loop hole v m = Some m'"
      using False pl m'(1) by (subst std_push_loop.simps) (auto simp: arr_simps LiteTimer_less_ent)
    moreover have "ents m' = sift_up snd (ents m) hole (ent v)"
      using False m'(4) by (subst sift_up.simps) auto
    ultimately show ?thesis using m' by blast
  qed
qed

lemma full_idx_hole: "full_idx m \<Longrightarrow> i < length (m_TimerHeap m) \<Longrightarrow> hole_idx m i (ents m ! i)"
  unfolding full_idx_def hole_idx_def list_update_id by (auto simp: tidx_None_iff)

lemma std_push_heap_sim:
  assumes "mgr_ok m" and "full_idx m" and "0 < n" and "n \<le> length (m_TimerHeap m)"
  shows "\<exists>m'. std_push_heap n m = Some m' \<and> mgr_ok m' \<and> frame m m' \<and> full_idx m' \<and>
    ents m' = sift_up snd (ents m) (n - 1) (ents m ! (n - 1))"
proof -
  have n: "n - 1 < length (m_TimerHeap m)" "int n - 1 = int (n - 1)" using assms(3,4) by auto
  have "hole_idx m (n - 1) (ent (m_TimerHeap m ! (n - 1)))"
    using full_idx_hole [OF assms(2) n(1)] n(1) by simp
  from std_push_loop_sim [OF assms(1) this] show ?thesis
    unfolding std_push_heap_def n(2) arr_get_int [OF n(1)] Option.bind.simps ents_nth [OF n(1)] .
qed

lemma std_adjust_loop_sim:
  assumes "mgr_ok m" and "hole_idx m hole v" and "hole < len" and "len \<le> length (m_TimerHeap m)"
  shows "\<exists>h m'. std_adjust_loop hole len m = Some (h, m') \<and> mgr_ok m' \<and> frame m m' \<and>
    hole_down snd (ents m) hole len = (ents m', h) \<and> hole_idx m' h v"
  using assms
proof (induction "len - hole" arbitrary: m hole rule: less_induct)
  case less
  show ?case
  proof (cases "hole < (len - 1) div 2")
    case True
    let ?c = "pick_child snd (ents m) hole"
    note c = pick_child_props [OF True, where k = snd and xs = "ents m"]
    have cl: "?c < length (m_TimerHeap m)" "?c \<noteq> hole" using c less.prems(4) by auto
    from hole_move [OF less.prems(1,2) cl] obtain m1 where
      m1: "LiteTimer_assign hole (m_TimerHeap m ! ?c) m = Some m1" "mgr_ok m1" "frame m m1"
        "ents m1 = (ents m)[hole := ents m ! ?c]" "hole_idx m1 ?c v" by blast
    have len: "length (m_TimerHeap m1) = length (m_TimerHeap m)"
      using arg_cong [OF m1(4), of length] by simp
    have "len - ?c < len - hole" using c by simp
    from less.hyps [OF this m1(2,5)] c(2) less.prems(4) len obtain h m' where
      m': "std_adjust_loop ?c len m1 = Some (h, m')" "mgr_ok m'" "frame m1 m'"
        "hole_down snd (ents m1) ?c len = (ents m', h)" "hole_idx m' h v" by auto
    have sl: "2 * (hole + 1) < length (m_TimerHeap m)" "2 * (hole + 1) - 1 < length (m_TimerHeap m)"
      using True less.prems(4) by auto
    have pc: "(if LiteTimer_less (m_TimerHeap m ! (2 * (hole + 1))) (m_TimerHeap m ! (2 * (hole + 1) - 1))
        then 2 * (hole + 1) - 1 else 2 * (hole + 1)) = ?c"
      using sl by (simp add: pick_child_def LiteTimer_less_ent Let_def)
    have "std_adjust_loop hole len m = Some (h, m')"
      unfolding std_adjust_loop.simps [of hole len m]
      using True m1(1) m'(1) cl(1)
      by (simp only: Let_def arr_get_int [OF sl(1)] arr_get_int [OF sl(2)] pc if_True
          Option.bind.simps arr_get_int)
    moreover have "hole_down snd (ents m) hole len = (ents m', h)"
      using True m'(4) m1(4) by (subst hole_down.simps) simp
    ultimately show ?thesis using m' m1(3) frame_trans by blast
  next
    case nT: False
    show ?thesis
    proof (cases "even len \<and> hole = (len - 2) div 2")
      case True
      have c: "2 * hole + 1 < length (m_TimerHeap m)" "2 * hole + 1 \<noteq> hole"
        using True less.prems(3,4) by presburger+
      from hole_move [OF less.prems(1,2) c] obtain m1 where
        m1: "LiteTimer_assign hole (m_TimerHeap m ! (2 * hole + 1)) m = Some m1" "mgr_ok m1" "frame m m1"
          "ents m1 = (ents m)[hole := ents m ! (2 * hole + 1)]" "hole_idx m1 (2 * hole + 1) v" by blast
      have e: "2 * (hole + 1) - 1 = 2 * hole + 1" by simp
      have "std_adjust_loop hole len m = Some (2 * hole + 1, m1)"
        unfolding std_adjust_loop.simps [of hole len m] if_not_P [OF nT] if_P [OF True] e
          arr_get_int [OF c(1)] Option.bind.simps m1(1) ..
      moreover have "hole_down snd (ents m) hole len = (ents m1, 2 * hole + 1)"
        unfolding hole_down.simps [of snd "ents m" hole len] if_not_P [OF nT] if_P [OF True] m1(4) ..
      ultimately show ?thesis using m1 by blast
    next
      case False
      have "std_adjust_loop hole len m = Some (hole, m)"
        unfolding std_adjust_loop.simps [of hole len m] if_not_P [OF nT] if_not_P [OF False] ..
      moreover have "hole_down snd (ents m) hole len = (ents m, hole)"
        unfolding hole_down.simps [of snd "ents m" hole len] if_not_P [OF nT] if_not_P [OF False] ..
      ultimately show ?thesis using less.prems by auto
    qed
  qed
qed

lemma std_pop_heap_sim:
  assumes "mgr_ok m" and "full_idx m" and "n = length (m_TimerHeap m)"
  shows "\<exists>m'. std_pop_heap n m = Some m' \<and> mgr_ok m' \<and> frame m m' \<and> full_idx m' \<and>
    ents m' = heap_pop snd (ents m) n"
proof (cases "1 < n")
  case True
  let ?v = "m_TimerHeap m ! (n - 1)"
  have l: "n - 1 < length (m_TimerHeap m)" "0 < length (m_TimerHeap m)" "0 \<noteq> n - 1"
    using True assms(3) by auto
  have "hole_idx m (n - 1) (ent ?v)" using full_idx_hole [OF assms(2) l(1)] l(1) by simp
  from hole_move [OF assms(1) this l(2,3)] obtain m1 where
    m1: "LiteTimer_assign (n - 1) (m_TimerHeap m ! 0) m = Some m1" "mgr_ok m1" "frame m m1"
      "ents m1 = (ents m)[n - 1 := ents m ! 0]" "hole_idx m1 0 (ent ?v)" by blast
  have len: "length (m_TimerHeap m1) = n" using arg_cong [OF m1(4), of length] assms(3) by simp
  from std_adjust_loop_sim [OF m1(2,5), of "n - 1"] True len obtain h m2 where
    m2: "std_adjust_loop 0 (n - 1) m1 = Some (h, m2)" "mgr_ok m2" "frame m1 m2"
      "hole_down snd (ents m1) 0 (n - 1) = (ents m2, h)" "hole_idx m2 h (ent ?v)" by auto
  from std_push_loop_sim [OF m2(2,5)] obtain m3 where
    m3: "std_push_loop h ?v m2 = Some m3" "mgr_ok m3" "frame m2 m3" "full_idx m3"
      "ents m3 = sift_up snd (ents m2) h (ent ?v)" by blast
  have g0: "arr_get (m_TimerHeap m) 0 = Some (m_TimerHeap m ! 0)"
    using arr_get_int [OF l(2)] by simp
  have "std_pop_heap n m = Some m3"
    unfolding std_pop_heap_def if_P [OF True] arr_get_int [OF l(1)] g0 Option.bind.simps m1(1) m2(1)
      prod.case by (rule m3(1))
  moreover have "ents m3 = heap_pop snd (ents m) n"
    using True m3(5) m2(4) m1(4) l(1) by (simp add: heap_pop_def adjust_def)
  ultimately show ?thesis using m3 m1(3) m2(3) frame_trans by blast
next
  case False
  then show ?thesis using assms by (simp add: std_pop_heap_def heap_pop_def)
qed

lemma ents_Nil_iff [simp]: "ents m = [] \<longleftrightarrow> m_TimerHeap m = []"
  by (simp add: ents_def)

section \<open>The invariant and the abstract state\<close>

text \<open>
  An abstract timer service is a finite map from handles to an expiry time and a buffer. The
  vector holds the expiry times, the pool the buffers, and both hold the same handles.
\<close>

definition timers :: "'b LiteTimerMgr \<Rightarrow> int \<Rightarrow> (int \<times> 'b) option" where
  "timers m h = (case map_of (ents m) h of None \<Rightarrow> None
     | Some e \<Rightarrow> map_option (Pair e) (tbuf m h))"

definition timer_capacity :: "'b LiteTimerMgr \<Rightarrow> nat" where
  "timer_capacity m = ptr_capacity (m_pTimerArgPool m)"

definition timer_core :: "'b LiteTimerMgr \<Rightarrow> bool" where
  "timer_core m \<longleftrightarrow> mgr_ok m \<and> full_idx m \<and> heap_on snd (length (ents m)) (ents m) \<and>
     (\<forall>e \<in> set (ents m). 0 < snd e)"

definition timer_inv :: "'b LiteTimerMgr \<Rightarrow> bool" where
  "timer_inv m \<longleftrightarrow> timer_core m \<and> fst ` set (ents m) = dom (tbuf m)"

lemma timer_coreD:
  assumes "timer_core m"
  shows "mgr_ok m" "full_idx m" "heap_on snd (length (ents m)) (ents m)" "distinct (map fst (ents m))"
    "e \<in> set (ents m) \<Longrightarrow> 0 < snd e" "fst ` set (ents m) \<subseteq> dom (tbuf m)" "ptr_inv (m_pTimerArgPool m)"
proof -
  show "mgr_ok m" "full_idx m" "heap_on snd (length (ents m)) (ents m)" "distinct (map fst (ents m))"
    "e \<in> set (ents m) \<Longrightarrow> 0 < snd e" "ptr_inv (m_pTimerArgPool m)"
    using assms by (auto simp: timer_core_def full_idx_def mgr_ok_def)
  show "fst ` set (ents m) \<subseteq> dom (tbuf m)"
  proof
    fix h assume "h \<in> fst ` set (ents m)"
    then obtain i where "i < length (ents m)" "h = fst (ents m ! i)" by (auto simp: in_set_conv_nth)
    then have "tidx m h \<noteq> None" using assms by (simp add: timer_core_def full_idx_def)
    then show "h \<in> dom (tbuf m)" by (auto simp: tidx_None_iff)
  qed
qed

lemma timer_invD:
  assumes "timer_inv m"
  shows "timer_core m" "fst ` set (ents m) = dom (tbuf m)" "ptr_inv (m_pTimerArgPool m)"
    "dom (ptr_map (m_pTimerArgPool m)) = dom (tbuf m)" "dom (timers m) = dom (tbuf m)"
    "length (m_TimerHeap m) = card (dom (ptr_map (m_pTimerArgPool m)))"
    "length (m_TimerHeap m) \<le> timer_capacity m"
proof -
  show c: "timer_core m" and s: "fst ` set (ents m) = dom (tbuf m)" using assms by (auto simp: timer_inv_def)
  show pi: "ptr_inv (m_pTimerArgPool m)" by (rule timer_coreD(7) [OF c])
  show d: "dom (ptr_map (m_pTimerArgPool m)) = dom (tbuf m)" by (auto simp: tbuf_def)
  show "dom (timers m) = dom (tbuf m)" using s by (auto simp: timers_def map_of_eq_None_iff split: option.splits)
  have "card (set (map fst (ents m))) = length (map fst (ents m))"
    using timer_coreD(4) [OF c] by (rule distinct_card)
  then show l: "length (m_TimerHeap m) = card (dom (ptr_map (m_pTimerArgPool m)))" using s d by simp
  show "length (m_TimerHeap m) \<le> timer_capacity m"
    using pool_ht.contents_bounded [OF pi] l by (simp add: timer_capacity_def)
qed

lemma ptr_capacity_bound: "ptr_inv pp \<Longrightarrow> ptr_capacity pp < 134217728"
proof -
  assume "ptr_inv pp"
  then obtain p us fs where "pp = Some p" "pool_rel p us fs"
    by (auto simp: ptr_inv_def pool_inv_def split: option.splits)
  then show ?thesis using pool_shapeD(5) [OF pool_relD(1) [of p us fs]] by (simp add: ptr_capacity_def)
qed

lemma timers_eq_iff:
  assumes "timer_core m"
  shows "timers m h = Some (e, b) \<longleftrightarrow> (h, e) \<in> set (ents m) \<and> tbuf m h = Some b"
proof -
  have "map_of (ents m) h = Some e \<longleftrightarrow> (h, e) \<in> set (ents m)"
    by (rule map_of_eq_Some_iff [OF timer_coreD(4) [OF assms]])
  then show ?thesis by (cases "map_of (ents m) h") (auto simp: timers_def)
qed

text \<open>Steps that only permute the entries keep the abstract state.\<close>

lemma timers_cong:
  assumes "full_idx m" and "full_idx m'" and "set (ents m') = set (ents m)" and "tbuf m' = tbuf m"
  shows "timers m' = timers m"
proof -
  have "map_of (ents m') = map_of (ents m)"
    using assms by (subst map_of_inject_set) (auto simp: full_idx_def)
  then show ?thesis using assms(4) by (intro ext) (simp add: timers_def split: option.split)
qed

section \<open>Writing an expiry time, popping the last cell\<close>

lemma set_expire_ok:
  assumes "mgr_ok m" and "full_idx m" and "i < length (m_TimerHeap m)"
  shows "\<exists>m'. set_expire (int i) t m = Some m' \<and> mgr_ok m' \<and> frame m m' \<and> full_idx m' \<and>
    ents m' = (ents m)[i := (fst (ents m ! i), t)] \<and> tidx m' = tidx m"
proof -
  let ?m = "m \<lparr> m_TimerHeap := (m_TimerHeap m)[i := (m_TimerHeap m ! i) \<lparr> m_expireTime := t \<rparr>] \<rparr>"
  have e: "set_expire (int i) t m = Some ?m" by (simp add: set_expire_def arr_simps assms(3))
  have t: "tidx ?m = tidx m" "tbuf ?m = tbuf m" by (simp_all add: tidx_def tbuf_def fun_eq_iff)
  have en: "ents ?m = (ents m)[i := (fst (ents m ! i), t)]"
    using assms(3) by (simp add: ents_def map_update ent_def)
  have fs: "map fst (ents ?m) = map fst (ents m)"
    unfolding en map_update using assms(3) by (simp add: list_update_same_conv del: ents_nth)
  have fi: "fst (ents ?m ! j) = fst (ents m ! j)" if "j < length (m_TimerHeap m)" for j
    using arg_cong [OF fs, of "\<lambda>xs. xs ! j"] that by (simp del: ents_nth)
  have "full_idx ?m" using assms(2) fs fi t(1) unfolding full_idx_def by (simp del: ents_nth)
  moreover have "mgr_ok ?m" using assms(1) by (simp add: mgr_ok_def nth_update_field)
  moreover have "frame m ?m" using t by (simp add: frame_def)
  ultimately show ?thesis using e en t by blast
qed

definition pop_back :: "'b LiteTimerMgr \<Rightarrow> 'b LiteTimerMgr" where
  "pop_back m = m \<lparr> m_TimerHeap := butlast (m_TimerHeap m) \<rparr>"

lemma pop_back_ok:
  assumes "mgr_ok m" and "full_idx m"
  shows "mgr_ok (pop_back m)" "full_idx (pop_back m)" "frame m (pop_back m)"
    "ents (pop_back m) = butlast (ents m)"
proof -
  show e: "ents (pop_back m) = butlast (ents m)" by (simp add: ents_def pop_back_def map_butlast)
  have t: "tidx (pop_back m) = tidx m" "tbuf (pop_back m) = tbuf m"
    by (simp_all add: tidx_def tbuf_def pop_back_def fun_eq_iff)
  show "frame m (pop_back m)" using t by (simp add: frame_def pop_back_def)
  show "mgr_ok (pop_back m)" using assms(1) by (simp add: mgr_ok_def pop_back_def nth_butlast)
  show "full_idx (pop_back m)" using assms(2) unfolding full_idx_def e t
    by (simp add: nth_butlast map_butlast distinct_butlast del: ents_nth)
qed

text \<open>
  The step that \<open>_StopTimer\<close> and \<open>UpdateTimer\<close> share: a timer whose expiry time was set below
  every other one goes to the root and from there to the last cell.
\<close>

lemma raise_and_pop:
  assumes c: "timer_core m" and i: "i < length (m_TimerHeap m)"
  defines "tid \<equiv> fst (ents m ! i)"
  shows "\<exists>m1 m2 m3. set_expire (int i) 0 m = Some m1 \<and> std_push_heap (i + 1) m1 = Some m2 \<and>
    std_pop_heap (length (m_TimerHeap m2)) m2 = Some m3 \<and> mgr_ok m3 \<and> full_idx m3 \<and> frame m m3 \<and>
    length (m_TimerHeap m3) = length (m_TimerHeap m) \<and>
    heap_on snd (length (ents m) - 1) (ents m3) \<and>
    last (ents m3) = (tid, 0) \<and>
    set (butlast (ents m3)) = {e \<in> set (ents m). fst e \<noteq> tid}"
proof -
  let ?n = "length (m_TimerHeap m)"
  note d = timer_coreD [OF c]
  from set_expire_ok [OF d(1,2) i, of 0] obtain m1 where
    m1: "set_expire (int i) 0 m = Some m1" "mgr_ok m1" "frame m m1" "full_idx m1"
      "ents m1 = (ents m)[i := (tid, 0)]" unfolding tid_def by blast
  have l1: "length (m_TimerHeap m1) = ?n" using arg_cong [OF m1(5), of length] by simp
  have "0 < i + 1" "i + 1 \<le> length (m_TimerHeap m1)" using i l1 by auto
  from std_push_heap_sim [OF m1(2,4) this] obtain m2 where
    m2: "std_push_heap (i + 1) m1 = Some m2" "mgr_ok m2" "frame m1 m2" "full_idx m2"
      "ents m2 = sift_up snd (ents m1) i (ents m1 ! i)" by auto
  have l2: "length (m_TimerHeap m2) = ?n" using arg_cong [OF m2(5), of length] l1 by simp
  have vi: "ents m1 ! i = (tid, 0)" using i unfolding m1(5) by simp
  have ok1: "hole_ok snd ?n (ents m1) i"
  proof -
    have "hole_ok snd ?n (ents m) i" using heap_on_hole_ok [OF d(3), of i] i by simp
    then show ?thesis unfolding m1(5) by (simp add: hole_ok_update)
  qed
  have pos: "0 < snd (ents m ! j)" if "j < ?n" for j using d(5) [of "ents m ! j"] that by (simp del: ents_nth)
  have gt: "0 < snd (ents m1 ! j)" if "j < ?n" "j \<noteq> i" for j
    using pos that unfolding m1(5) by (simp del: ents_nth)
  have b1: "below_hole snd ?n (ents m1) i (tid, 0)"
    unfolding below_hole_def
  proof (intro allI impI)
    fix j assume "0 < j \<and> j < ?n \<and> par j = i"
    then show "snd (tid, 0) \<le> snd (ents m1 ! j)" using gt [of j] par_less [of j] by auto
  qed
  have h2: "heap_on snd ?n (ents m2)" unfolding m2(5) vi by (rule sift_up_heap [OF ok1 b1])
  have r2: "ents m2 ! 0 = (tid, 0)" unfolding m2(5) vi
    by (rule sift_up_min_root) (use i l1 gt in auto)
  have s2: "mset (ents m2) = mset ((ents m)[i := (tid, 0)])"
    unfolding m2(5) vi using sift_up_mset [of i "ents m1" snd "(tid, 0)"] i l1 m1(5) by simp
  from std_pop_heap_sim [OF m2(2,4) refl] obtain m3 where
    m3: "std_pop_heap (length (m_TimerHeap m2)) m2 = Some m3" "mgr_ok m3" "frame m2 m3" "full_idx m3"
      "ents m3 = heap_pop snd (ents m2) ?n" unfolding l2 by blast
  note hp = heap_pop_props [of snd ?n "ents m2", OF h2, folded m3(5)]
  have n0: "?n \<le> length (ents m2)" "0 < ?n" using l2 i by auto
  have l3: "length (m_TimerHeap m3) = ?n"
    using mset_eq_length [OF hp(2) [OF n0]] l2 by simp
  have ne: "ents m3 \<noteq> []" using l3 n0(2) by auto
  have la: "last (ents m3) = (tid, 0)"
    using hp(3) [OF n0] r2 l3 last_conv_nth [OF ne] by (simp del: ents_nth)
  have "mset (ents m3) = mset ((ents m)[i := (tid, 0)])" using hp(2) [OF n0] s2 by simp
  moreover have "mset (ents m3) = mset (butlast (ents m3)) + {#(tid, 0)#}"
    using append_butlast_last_id [OF ne] la by (metis mset.simps mset_append add_mset_add_single empty_neutral(1))
  ultimately have "mset (butlast (ents m3)) = mset (ents m) - {#ents m ! i#}"
    using i by (simp add: mset_update del: ents_nth)
  also have "\<dots> = mset (take i (ents m) @ drop (Suc i) (ents m))"
    using id_take_nth_drop [of i "ents m"] i
    by (metis add_mset_remove_trivial length_ents mset.simps(2) mset_append union_mset_add_mset_right)
  finally have "set (butlast (ents m3)) = set (take i (ents m) @ drop (Suc i) (ents m))"
    by (metis set_mset_mset)
  moreover have "set (take i (ents m) @ drop (Suc i) (ents m)) = {e \<in> set (ents m). fst e \<noteq> tid}"
    unfolding tid_def by (rule set_remove_nth [OF d(4)]) (use i in simp)
  ultimately have sb: "set (butlast (ents m3)) = {e \<in> set (ents m). fst e \<noteq> tid}" by simp
  have "frame m m3" using m1(3) m2(3) m3(3) frame_trans by blast
  moreover have "heap_on snd (length (ents m) - 1) (ents m3)" using hp(1) [OF n0] by simp
  ultimately show ?thesis using m1(1) m2(1) m3 l3 la sb by blast
qed


lemma push_last:
  assumes "mgr_ok m" and "full_idx m" and h: "heap_on snd (n - 1) (ents m)"
    and n: "n = length (m_TimerHeap m)" "0 < n"
  shows "\<exists>m'. std_push_heap n m = Some m' \<and> mgr_ok m' \<and> frame m m' \<and> full_idx m' \<and>
    heap_on snd n (ents m') \<and> mset (ents m') = mset (ents m)"
proof -
  let ?v = "ents m ! (n - 1)"
  have nl: "n \<le> length (m_TimerHeap m)" "n - 1 < length (ents m)" using n by auto
  from std_push_heap_sim [OF assms(1,2) n(2) nl(1)] obtain m' where
    m': "std_push_heap n m = Some m'" "mgr_ok m'" "frame m m'" "full_idx m'"
      "ents m' = sift_up snd (ents m) (n - 1) ?v" by blast
  have nc: "par i \<noteq> n - 1" if "0 < i" "i < n" for i using par_less [of i] that by simp
  have "hole_ok snd n (ents m) (n - 1)"
    using h n nc unfolding hole_ok_def heap_on_def by (auto simp del: ents_nth)
  moreover have "below_hole snd n (ents m) (n - 1) ?v" using nc unfolding below_hole_def by auto
  ultimately have "heap_on snd n (ents m')" unfolding m'(5) by (rule sift_up_heap)
  moreover have "mset (ents m') = mset (ents m)"
    unfolding m'(5) sift_up_mset [OF nl(2)] by (simp only: list_update_id)
  ultimately show ?thesis using m' by blast
qed

lemma mset_length_ents: "mset (ents m') = mset (ents m) \<Longrightarrow> length (m_TimerHeap m') = length (m_TimerHeap m)"
  using mset_eq_length by fastforce

section \<open>The base manager\<close>

lemma IAm_StartTimer_ok:
  assumes c: "timer_core m" and live: "tidx m h \<noteq> None" and new: "h \<notin> fst ` set (ents m)"
    and e: "0 < e" and b: "length (m_TimerHeap m) < 134217728"
  shows "\<exists>m'. IAm_StartTimer m h e = Some (0, m') \<and> timer_core m' \<and> frame m m' \<and>
    set (ents m') = insert (h, e) (set (ents m))"
proof -
  let ?n = "length (m_TimerHeap m)"
  let ?t = "\<lparr> m_id = h, m_TimerIdx = int ?n, m_expireTime = e \<rparr>"
  let ?m1 = "m \<lparr> m_TimerHeap := m_TimerHeap m @ [?t] \<rparr>"
  note d = timer_coreD [OF c]
  have idx: "s32 (int ?n) = int ?n" using b by (intro s32_id) auto
  have t1: "tidx ?m1 = tidx m" "tbuf ?m1 = tbuf m" by (simp_all add: tidx_def tbuf_def fun_eq_iff)
  have "ptr_inv (m_pTimerArgPool ?m1)" "tidx ?m1 h \<noteq> None" using d(7) live t1 by auto
  from SetTimerIdxById_live [OF this, of "int ?n"] obtain pp where
    s: "SetTimerIdxById ?m1 h (int ?n) = Some (0, ?m1 \<lparr> m_pTimerArgPool := pp \<rparr>)" "ptr_inv pp"
      "ptr_capacity pp = ptr_capacity (m_pTimerArgPool ?m1)"
      "tidx (?m1 \<lparr> m_pTimerArgPool := pp \<rparr>) = (tidx ?m1)(h \<mapsto> int ?n)"
      "tbuf (?m1 \<lparr> m_pTimerArgPool := pp \<rparr>) = tbuf ?m1" by blast
  let ?m2 = "?m1 \<lparr> m_pTimerArgPool := pp \<rparr>"
  have e2: "ents ?m2 = ents m @ [(h, e)]" by (simp add: ents_def ent_def)
  have l2: "length (m_TimerHeap ?m2) = Suc ?n" by simp
  have ok2: "mgr_ok ?m2" using d(1) s(2) by (auto simp: mgr_ok_def nth_append less_Suc_eq)
  have fr2: "frame m ?m2" using s(3,5) t1 by (simp add: frame_def)
  have ti2: "tidx ?m2 (fst (ents ?m2 ! i)) = Some (int i)" if "i < Suc ?n" for i
  proof (cases "i = ?n")
    case True
    then show ?thesis unfolding e2 s(4) by (simp add: nth_append)
  next
    case False
    then have i: "i < length (ents m)" using that by simp
    then have "fst (ents m ! i) \<noteq> h" using new nth_mem [OF i] by force
    then show ?thesis using d(2) i unfolding e2 s(4) t1 by (simp add: nth_append full_idx_def)
  qed
  have fi2: "full_idx ?m2" using ti2 d(4) new unfolding full_idx_def e2 by auto
  have h2: "heap_on snd (Suc ?n - 1) (ents ?m2)"
    using d(3) heap_on_cong [of ?n "ents m @ [(h, e)]" "ents m" snd] unfolding e2
    by (simp add: nth_append)
  from push_last [OF ok2 fi2 h2] l2 obtain m' where
    m': "std_push_heap (Suc ?n) ?m2 = Some m'" "mgr_ok m'" "frame ?m2 m'" "full_idx m'"
      "heap_on snd (Suc ?n) (ents m')" "mset (ents m') = mset (ents ?m2)" by auto
  have se: "set (ents m') = insert (h, e) (set (ents m))"
    using m'(6) unfolding e2 by (metis Un_insert_right list.simps(15) set_append set_mset_mset sup_bot.right_neutral list.set(1))
  have "IAm_StartTimer m h e = Some (0, m')"
    using s(1) m'(1) by (simp add: IAm_StartTimer_def Let_def idx)
  moreover have "timer_core m'"
    using m' mset_length_ents [OF m'(6)] l2 se d(5) e by (auto simp: timer_core_def)
  ultimately show ?thesis using se frame_trans [OF fr2 m'(3)] by blast
qed

lemma tidx_ents:
  assumes "timer_core m" and "h \<in> fst ` set (ents m)"
  obtains i where "i < length (m_TimerHeap m)" "fst (ents m ! i) = h" "tidx m h = Some (int i)"
proof -
  from assms(2) obtain i where "i < length (ents m)" "fst (ents m ! i) = h" by (auto simp: in_set_conv_nth)
  then show ?thesis using that assms(1) by (auto simp: timer_core_def full_idx_def simp del: ents_nth)
qed

lemma IAm_StopTimer_ok:
  assumes c: "timer_core m" and h: "h \<in> fst ` set (ents m)"
  shows "\<exists>m'. IAm_StopTimer m h = Some (0, m') \<and> timer_core m' \<and> frame m m' \<and>
    set (ents m') = {x \<in> set (ents m). fst x \<noteq> h}"
proof -
  obtain i where i: "i < length (m_TimerHeap m)" "fst (ents m ! i) = h" "tidx m h = Some (int i)"
    by (rule tidx_ents [OF c h])
  from raise_and_pop [OF c i(1)] obtain m1 m2 m3 where
    r: "set_expire (int i) 0 m = Some m1" "std_push_heap (i + 1) m1 = Some m2"
      "std_pop_heap (length (m_TimerHeap m2)) m2 = Some m3" "mgr_ok m3" "full_idx m3" "frame m m3"
      "length (m_TimerHeap m3) = length (m_TimerHeap m)" "heap_on snd (length (ents m) - 1) (ents m3)"
      "set (butlast (ents m3)) = {e \<in> set (ents m). fst e \<noteq> h}" unfolding i(2) by blast
  note p = pop_back_ok [OF r(4,5)]
  have "IAm_StopTimer m h = Some (0, pop_back m3)"
    using i(1,3) GetTimerIdxByID_eq [OF timer_coreD(7) [OF c], of h] r(1-3)
    by (auto simp: IAm_StopTimer_def pop_back_def)
  moreover have "timer_core (pop_back m3)"
  proof -
    have "heap_on snd (length (ents m) - 1) (butlast (ents m3))"
      using r(7,8) heap_on_cong [of "length (ents m) - 1" "butlast (ents m3)" "ents m3" snd]
      by (simp add: nth_butlast del: ents_nth)
    then show ?thesis using p r(7,9) timer_coreD(5) [OF c]
      unfolding timer_core_def p(4) by simp
  qed
  ultimately show ?thesis using r(6,9) p(3,4) frame_trans by metis
qed

lemma IAm_dead:
  assumes "ptr_inv (m_pTimerArgPool m)" and "tidx m h = None"
  shows "IAm_StopTimer m h = Some (-1, m)" and "IAm_UpdateTimer m h e = Some (-1, m)"
  using assms by (simp_all add: IAm_StopTimer_def IAm_UpdateTimer_def GetTimerIdxByID_eq)


lemma IAm_UpdateTimer_ok:
  assumes c: "timer_core m" and h: "h \<in> fst ` set (ents m)" and e: "0 < e"
  shows "\<exists>m'. IAm_UpdateTimer m h e = Some (0, m') \<and> timer_core m' \<and> frame m m' \<and>
    set (ents m') = insert (h, e) {x \<in> set (ents m). fst x \<noteq> h}"
proof -
  obtain i where i: "i < length (m_TimerHeap m)" "fst (ents m ! i) = h" "tidx m h = Some (int i)"
    by (rule tidx_ents [OF c h])
  let ?n = "length (m_TimerHeap m)"
  from raise_and_pop [OF c i(1)] obtain m1 m2 m3 where
    r: "set_expire (int i) 0 m = Some m1" "std_push_heap (i + 1) m1 = Some m2"
      "std_pop_heap (length (m_TimerHeap m2)) m2 = Some m3" "mgr_ok m3" "full_idx m3" "frame m m3"
      "length (m_TimerHeap m3) = ?n" "heap_on snd (length (ents m) - 1) (ents m3)"
      "last (ents m3) = (h, 0)" "set (butlast (ents m3)) = {e \<in> set (ents m). fst e \<noteq> h}"
    unfolding i(2) by blast
  have n: "?n - 1 < length (m_TimerHeap m3)" "int (length (m_TimerHeap m3)) - 1 = int (?n - 1)"
    using i(1) r(7) by auto
  from set_expire_ok [OF r(4,5) n(1), of e] obtain m4 where
    m4: "set_expire (int (?n - 1)) e m3 = Some m4" "mgr_ok m4" "frame m3 m4" "full_idx m4"
      "ents m4 = (ents m3)[?n - 1 := (fst (ents m3 ! (?n - 1)), e)]" by blast
  have l4: "length (m_TimerHeap m4) = ?n" using arg_cong [OF m4(5), of length] r(7) by simp
  have ne: "ents m3 \<noteq> []" using r(7) i(1) by auto
  have lst: "ents m3 ! (?n - 1) = (h, 0)" using r(7,9) last_conv_nth [OF ne] by simp
  have b4: "ents m4 = butlast (ents m3) @ [(h, e)]"
    unfolding m4(5) lst fst_conv using list_update_last [OF ne] r(7) by simp
  have "heap_on snd (?n - 1) (ents m4)"
    using r(8) heap_on_cong [of "?n - 1" "ents m4" "ents m3" snd] m4(5) by simp
  moreover have "0 < ?n" using i(1) by linarith
  ultimately obtain m5 where
    m5: "std_push_heap ?n m4 = Some m5" "mgr_ok m5" "frame m4 m5" "full_idx m5"
      "heap_on snd ?n (ents m5)" "mset (ents m5) = mset (ents m4)" using push_last [OF m4(2,4) _ l4 [symmetric]] by blast
  have se: "set (ents m5) = insert (h, e) {x \<in> set (ents m). fst x \<noteq> h}"
    using arg_cong [OF m5(6), of set_mset] r(10) unfolding b4 by simp
  have g: "GetTimerIdxByID m h = Some (int i)"
    using GetTimerIdxByID_eq [OF timer_coreD(7) [OF c], of h] i(3) by simp
  have "\<not> (int i < 0 \<or> ?n < 1 \<or> e = 0)" using i(1) e by auto
  then have "IAm_UpdateTimer m h e = Some (0, m5)"
    using r(1-3) m4(1) m5(1) l4 by (simp add: IAm_UpdateTimer_def g n(2) nat_int_add)
  moreover have "timer_core m5"
    using m5 mset_length_ents [OF m5(6)] l4 se timer_coreD(5) [OF c] e by (auto simp: timer_core_def)
  moreover have "frame m m5" using r(6) m4(3) m5(3) frame_trans by blast
  ultimately show ?thesis using se by blast
qed

lemma IAm_Tick_due:
  assumes c: "timer_core m" and ne: "m_TimerHeap m \<noteq> []" and due: "snd (ents m ! 0) \<le> now"
  shows "\<exists>m'. IAm_TickOneExpireTimer m now = Some (fst (ents m ! 0), m') \<and> timer_core m' \<and> frame m m' \<and>
    set (ents m') = {x \<in> set (ents m). fst x \<noteq> fst (ents m ! 0)} \<and>
    (\<forall>x \<in> set (ents m). snd (ents m ! 0) \<le> snd x)"
proof -
  let ?n = "length (m_TimerHeap m)"
  note d = timer_coreD [OF c]
  have n: "0 < ?n" using ne by simp
  from std_pop_heap_sim [OF d(1,2) refl] obtain m1 where
    m1: "std_pop_heap ?n m = Some m1" "mgr_ok m1" "frame m m1" "full_idx m1"
      "ents m1 = heap_pop snd (ents m) ?n" by blast
  have h: "heap_on snd ?n (ents m)" using d(3) by simp
  note hp = heap_pop_props [OF h, folded m1(5)]
  have ln: "?n \<le> length (ents m)" by simp
  have l1: "length (m_TimerHeap m1) = ?n" by (rule mset_length_ents [OF hp(2) [OF ln n]])
  have ne1: "ents m1 \<noteq> []" using l1 n by auto
  have la: "last (ents m1) = ents m ! 0"
    using hp(3) [OF ln n] l1 last_conv_nth [OF ne1] by (simp del: ents_nth)
  note p = pop_back_ok [OF m1(2,4)]
  have "ents m1 = butlast (ents m1) @ [ents m ! 0]"
    using append_butlast_last_id [OF ne1] la by simp
  then have "mset (butlast (ents m1)) = mset (ents m) - {#ents m ! 0#}"
    using hp(2) [OF ln n] by (metis add_mset_remove_trivial mset.simps add_mset_add_single mset_append empty_neutral(1))
  also have "\<dots> = mset (take 0 (ents m) @ drop (Suc 0) (ents m))"
    using id_take_nth_drop [of 0 "ents m"] n
    by (metis add_mset_remove_trivial append_Nil length_ents mset.simps(2) take0)
  finally have "set (butlast (ents m1)) = set (take 0 (ents m) @ drop (Suc 0) (ents m))"
    by (metis set_mset_mset)
  then have sb: "set (butlast (ents m1)) = {x \<in> set (ents m). fst x \<noteq> fst (ents m ! 0)}"
    using set_remove_nth [OF d(4), of 0] n by (simp del: ents_nth)
  have "heap_on snd (?n - 1) (butlast (ents m1))"
    using hp(1) [OF ln n] l1 heap_on_cong [of "?n - 1" "butlast (ents m1)" "ents m1" snd]
    by (simp add: nth_butlast del: ents_nth)
  then have "timer_core (pop_back m1)"
    using p sb l1 d(5) unfolding timer_core_def p(4) by simp
  moreover have "IAm_TickOneExpireTimer m now = Some (fst (ents m ! 0), pop_back m1)"
    using ne due m1(1) by (cases "m_TimerHeap m") (auto simp: IAm_TickOneExpireTimer_def pop_back_def ent_def ents_def)
  moreover have "snd (ents m ! 0) \<le> snd x" if "x \<in> set (ents m)" for x
    using that heap_on_root [OF h] by (auto simp: in_set_conv_nth simp del: ents_nth)
  ultimately show ?thesis using p(3,4) sb m1(3) frame_trans by metis
qed

lemma IAm_Tick_idle:
  assumes c: "timer_core m" and "\<And>x. x \<in> set (ents m) \<Longrightarrow> now < snd x"
  shows "IAm_TickOneExpireTimer m now = Some (-1, m)"
proof (cases "m_TimerHeap m")
  case (Cons t ts)
  then have "ent t \<in> set (ents m)" by (simp add: ents_def)
  then have "now < m_expireTime t" using assms(2) by (fastforce simp: ent_def)
  then show ?thesis using Cons by (simp add: IAm_TickOneExpireTimer_def)
qed (simp add: IAm_TickOneExpireTimer_def)


section \<open>The manager\<close>

lemma timer_pool:
  assumes "timer_inv m"
  obtains p where "m_pTimerArgPool m = Some p" "ptr_inv (Some p)"
  using timer_invD(3) [OF assms] by (cases "m_pTimerArgPool m") (auto simp: ptr_inv_def)

lemma frame_timer_inv:
  assumes "timer_inv m" and "timer_core m'" and "frame m m'" and "fst ` set (ents m') = fst ` set (ents m)"
  shows "timer_inv m'" and "timer_capacity m' = timer_capacity m"
  using assms by (auto simp: timer_inv_def frame_def timer_capacity_def)

lemma UpdateTimer_live:
  assumes i: "timer_inv m" and h: "timers m h = Some (e, b)" and e: "0 < e'"
  shows "\<exists>m'. UpdateTimer m h e' = Some (0, m') \<and> timer_inv m' \<and> timer_capacity m' = timer_capacity m \<and>
    timers m' = (timers m)(h \<mapsto> (e', b))"
proof -
  note d = timer_invD [OF i]
  have he: "(h, e) \<in> set (ents m)" "tbuf m h = Some b" using h timers_eq_iff [OF d(1)] by auto
  then have "h \<in> fst ` set (ents m)" by force
  from IAm_UpdateTimer_ok [OF d(1) this e] obtain m' where
    m': "IAm_UpdateTimer m h e' = Some (0, m')" "timer_core m'" "frame m m'"
      "set (ents m') = insert (h, e') {x \<in> set (ents m). fst x \<noteq> h}" by blast
  have "fst ` set (ents m') = fst ` set (ents m)" using m'(4) he by force
  note fi = frame_timer_inv [OF i m'(2,3) this]
  obtain p where "m_pTimerArgPool m = Some p" by (rule timer_pool [OF i])
  then have "UpdateTimer m h e' = Some (0, m')" using m'(1) e by (simp add: UpdateTimer_def)
  moreover have "timers m' k = Some (x, y) \<longleftrightarrow> ((timers m)(h \<mapsto> (e', b))) k = Some (x, y)" for k x y
    using m'(3) he(2) timers_eq_iff [OF d(1), of k x y] unfolding timers_eq_iff [OF m'(2)] m'(4) frame_def
    by auto
  then have "timers m' = (timers m)(h \<mapsto> (e', b))" by (intro map_pair_eqI)
  ultimately show ?thesis using fi by blast
qed

lemma timers_None_tidx: "timer_inv m \<Longrightarrow> timers m h = None \<longleftrightarrow> tidx m h = None"
  using timer_invD(5) [of m] by (metis domIff tidx_None_iff)

lemma UpdateTimer_dead:
  assumes "timer_inv m" and "timers m h = None"
  shows "UpdateTimer m h e = Some (if e = 0 then -1 else -2, m)"
proof -
  obtain p where "m_pTimerArgPool m = Some p" by (rule timer_pool [OF assms(1)])
  then show ?thesis using IAm_dead(2) [OF timer_invD(3) [OF assms(1)], of h e] assms
    by (simp add: UpdateTimer_def timers_None_tidx)
qed

text \<open>Releasing a handle whose entry has left the vector.\<close>

lemma release_timer:
  assumes i: "timer_inv m" and c: "timer_core m'" and f: "frame m m'"
    and h: "h \<in> fst ` set (ents m)" and s: "set (ents m') = {x \<in> set (ents m). fst x \<noteq> h}"
  shows "\<exists>pp. objpool_free (m_pTimerArgPool m') h = Some (0, pp) \<and>
    timer_inv (m' \<lparr> m_pTimerArgPool := pp \<rparr>) \<and>
    timer_capacity (m' \<lparr> m_pTimerArgPool := pp \<rparr>) = timer_capacity m \<and>
    timers (m' \<lparr> m_pTimerArgPool := pp \<rparr>) = (timers m)(h := None)"
proof -
  note d = timer_invD [OF i]
  have dm: "dom (ptr_map (m_pTimerArgPool m')) = dom (tbuf m')" by (auto simp: tbuf_def)
  have "h \<in> dom (ptr_map (m_pTimerArgPool m'))" using h d(2) f unfolding dm by (simp add: frame_def)
  from pool_ht.release_live [OF timer_coreD(7) [OF c] this] obtain pp where
    pp: "objpool_free (m_pTimerArgPool m') h = Some (0, pp)" "ptr_inv pp"
      "ptr_map pp = (ptr_map (m_pTimerArgPool m'))(h := None)"
      "ptr_capacity pp = ptr_capacity (m_pTimerArgPool m')" by blast
  let ?m = "m' \<lparr> m_pTimerArgPool := pp \<rparr>"
  have en: "ents ?m = ents m'" by (simp add: ents_def)
  have t: "tidx ?m = (tidx m')(h := None)" "tbuf ?m = (tbuf m')(h := None)"
    by (auto simp: tidx_def tbuf_def pp(3) fun_eq_iff)
  have nh: "fst (ents m' ! j) \<noteq> h" if "j < length (ents m')" for j
    using nth_mem [OF that] s by auto
  have "full_idx ?m" using timer_coreD(2) [OF c] nh unfolding full_idx_def en t(1) by auto
  moreover have "mgr_ok ?m" using timer_coreD(1) [OF c] pp(2) by (simp add: mgr_ok_def)
  ultimately have c': "timer_core ?m" using c unfolding timer_core_def en by simp
  have "fst ` set (ents m') = dom (tbuf m) - {h}" unfolding s d(2) [symmetric] by auto
  then have "timer_inv ?m" using c' t(2) f unfolding timer_inv_def en by (simp add: frame_def)
  moreover have "timer_capacity ?m = timer_capacity m" using pp(4) f by (simp add: timer_capacity_def frame_def)
  moreover have "timers ?m k = Some (x, y) \<longleftrightarrow> ((timers m)(h := None)) k = Some (x, y)" for k x y
    using f timers_eq_iff [OF d(1), of k x y] unfolding timers_eq_iff [OF c'] en s t(2) frame_def by auto
  then have "timers ?m = (timers m)(h := None)" by (intro map_pair_eqI)
  ultimately show ?thesis using pp(1) by blast
qed

lemma StopTimer_live:
  assumes i: "timer_inv m" and h: "timers m h \<noteq> None"
  shows "\<exists>m'. StopTimer m h = Some (0, m') \<and> timer_inv m' \<and> timer_capacity m' = timer_capacity m \<and>
    timers m' = (timers m)(h := None)"
proof -
  note d = timer_invD [OF i]
  have hs: "h \<in> fst ` set (ents m)" using h d(2,5) by auto
  from IAm_StopTimer_ok [OF d(1) hs] obtain m' where
    m': "IAm_StopTimer m h = Some (0, m')" "timer_core m'" "frame m m'"
      "set (ents m') = {x \<in> set (ents m). fst x \<noteq> h}" by blast
  obtain p where "m_pTimerArgPool m = Some p" by (rule timer_pool [OF i])
  with release_timer [OF i m'(2,3) hs m'(4)] m'(1) show ?thesis by (auto simp: StopTimer_def)
qed

lemma StopTimer_dead:
  assumes "timer_inv m" and "timers m h = None"
  shows "StopTimer m h = Some (-2, m)"
proof -
  obtain p where "m_pTimerArgPool m = Some p" by (rule timer_pool [OF assms(1)])
  then show ?thesis using IAm_dead(1) [OF timer_invD(3) [OF assms(1)], of h] assms
    by (simp add: StopTimer_def timers_None_tidx)
qed


lemma StartTimer_full:
  assumes "timer_inv m" and "card (dom (timers m)) = timer_capacity m"
  shows "StartTimer m e b = Some (if e = 0 then -1 else -2, m)"
proof -
  note d = timer_invD [OF assms(1)]
  obtain p where p: "m_pTimerArgPool m = Some p" by (rule timer_pool [OF assms(1)])
  have "card (dom (ptr_map (m_pTimerArgPool m))) = ptr_capacity (m_pTimerArgPool m)"
    using assms(2) d(4,5) by (simp add: timer_capacity_def)
  from pool_ht.alloc_full [OF d(3) this] show ?thesis using p by (auto simp: StartTimer_def)
qed

lemma StartTimer_room:
  assumes i: "timer_inv m" and e: "0 < e" and room: "card (dom (timers m)) < timer_capacity m"
  shows "\<exists>h m'. StartTimer m e b = Some (0, m') \<and> timer_inv m' \<and> timer_capacity m' = timer_capacity m \<and>
    0 \<le> h \<and> timers m h = None \<and> timers m' = (timers m)(h \<mapsto> (e, b))"
proof -
  note d = timer_invD [OF i]
  obtain p where p: "m_pTimerArgPool m = Some p" by (rule timer_pool [OF i])
  have "card (dom (ptr_map (m_pTimerArgPool m))) < ptr_capacity (m_pTimerArgPool m)"
    using room d(4,5) by (simp add: timer_capacity_def)
  from pool_ht.alloc_room [OF d(3) this] obtain h pp v where
    a: "objpool_alloc (m_pTimerArgPool m) = Some (h, pp)" "ptr_inv pp" "0 \<le> h"
      "ptr_map (m_pTimerArgPool m) h = None" "ptr_map pp = (ptr_map (m_pTimerArgPool m))(h \<mapsto> v)"
      "ptr_capacity pp = ptr_capacity (m_pTimerArgPool m)" by blast
  obtain q where q: "pp = Some q" using a(2) by (cases pp) (auto simp: ptr_inv_def)
  have "ptr_map (Some q) h = Some v" using a(5) q by simp
  from ptr_write [OF a(2) [unfolded q] this, of "\<lambda>a. a \<lparr> m_Buf := b \<rparr>"] obtain off q' where
    w: "objpool_get (Some q) h = Some (Some off)" "obj_write q off (\<lambda>a. a \<lparr> m_Buf := b \<rparr>) = Some q'"
      "ptr_inv (Some q')" "ptr_map (Some q') = (ptr_map (Some q))(h \<mapsto> v \<lparr> m_Buf := b \<rparr>)"
      "ptr_capacity (Some q') = ptr_capacity (Some q)" by blast
  let ?m = "m \<lparr> m_pTimerArgPool := Some q' \<rparr>"
  have en: "ents ?m = ents m" by (simp add: ents_def)
  have pm: "ptr_map (Some q') = (ptr_map (m_pTimerArgPool m))(h \<mapsto> v \<lparr> m_Buf := b \<rparr>)"
    using w(4) a(5) q by simp
  have t: "tidx ?m = (tidx m)(h \<mapsto> m_iTimerIdx v)" "tbuf ?m = (tbuf m)(h \<mapsto> b)"
    by (auto simp: tidx_def tbuf_def pm fun_eq_iff)
  have nh: "h \<notin> fst ` set (ents m)" using a(4) d(2,4) by auto
  have "mgr_ok ?m" using timer_coreD(1) [OF d(1)] w(3) by (simp add: mgr_ok_def)
  moreover have "full_idx ?m"
  proof -
    have "fst (ents m ! j) \<noteq> h" if "j < length (ents m)" for j using nh nth_mem [OF that] by force
    then show ?thesis using timer_coreD(2) [OF d(1)] unfolding full_idx_def en t(1) by simp
  qed
  ultimately have c: "timer_core ?m" using d(1) unfolding timer_core_def en by simp
  have lb: "length (m_TimerHeap ?m) < 134217728"
    using d(7) ptr_capacity_bound [OF d(3)] by (simp add: timer_capacity_def)
  have "tidx ?m h \<noteq> None" by (simp add: t)
  from IAm_StartTimer_ok [OF c this nh [folded en] e lb] obtain m' where
    m': "IAm_StartTimer ?m h e = Some (0, m')" "timer_core m'" "frame ?m m'"
      "set (ents m') = insert (h, e) (set (ents m))" unfolding en by blast
  have "StartTimer m e b = Some (0, m')"
    using a(1,3) p q w(1,2) m'(1) e by (simp add: StartTimer_def Let_def)
  moreover have "timer_inv m'"
    using m' d(2) t(2) unfolding timer_inv_def frame_def by auto
  moreover have "timer_capacity m' = timer_capacity m"
    using m'(3) w(5) a(6) q by (simp add: timer_capacity_def frame_def)
  moreover have "timers m h = None" using a(4) d(4,5) by (metis domIff)
  moreover have "timers m' k = Some (x, y) \<longleftrightarrow> ((timers m)(h \<mapsto> (e, b))) k = Some (x, y)" for k x y
  proof -
    have "tbuf m' = (tbuf m)(h \<mapsto> b)" using m'(3) t(2) by (simp add: frame_def)
    moreover have "(h, x) \<notin> set (ents m)" using nh by force
    ultimately show ?thesis
      using timers_eq_iff [OF d(1), of k x y] unfolding timers_eq_iff [OF m'(2)] m'(4) by auto
  qed
  then have "timers m' = (timers m)(h \<mapsto> (e, b))" by (intro map_pair_eqI)
  ultimately show ?thesis using a(3) by blast
qed

lemma handle_nonneg: "ptr_map pp h = Some a \<Longrightarrow> 0 \<le> h"
  by (auto simp: ptr_map_def pool_map_def pool_live_def split: option.splits if_splits)

lemma Tick_due:
  assumes i: "timer_inv m" and k: "timers m k = Some (f, c)" and le: "f \<le> now"
  shows "\<exists>h e b m'. TickOneExpireTimer m now arg = Some (h, m', b) \<and> timer_inv m' \<and>
    timer_capacity m' = timer_capacity m \<and> 0 \<le> h \<and> timers m h = Some (e, b) \<and> e \<le> now \<and>
    (\<forall>h' e' b'. timers m h' = Some (e', b') \<longrightarrow> e \<le> e') \<and> timers m' = (timers m)(h := None)"
proof -
  note d = timer_invD [OF i]
  obtain p where p: "m_pTimerArgPool m = Some p" by (rule timer_pool [OF i])
  have kf: "(k, f) \<in> set (ents m)" using k timers_eq_iff [OF d(1)] by auto
  then have ne: "m_TimerHeap m \<noteq> []" by (auto simp: ents_def)
  then have "0 < length (ents m)" by simp
  then have "snd (ents m ! 0) \<le> f"
    using heap_on_root [OF timer_coreD(3) [OF d(1)]] kf by (metis in_set_conv_nth snd_conv)
  then have due: "snd (ents m ! 0) \<le> now" using le by simp
  let ?h = "fst (ents m ! 0)" and ?e = "snd (ents m ! 0)"
  from IAm_Tick_due [OF d(1) ne due] obtain m1 where
    m1: "IAm_TickOneExpireTimer m now = Some (?h, m1)" "timer_core m1" "frame m m1"
      "set (ents m1) = {x \<in> set (ents m). fst x \<noteq> ?h}" "\<forall>x \<in> set (ents m). ?e \<le> snd x" by blast
  have in0: "(?h, ?e) \<in> set (ents m)" using ne by (simp add: ents_def)
  then have hs: "?h \<in> fst ` set (ents m)" by force
  then obtain b where b: "tbuf m ?h = Some b" using d(2) by auto
  have th: "timers m ?h = Some (?e, b)" using timers_eq_iff [OF d(1)] in0 b by blast
  have "tbuf m1 ?h = Some b" using b m1(3) by (simp add: frame_def)
  then obtain a where a: "ptr_map (m_pTimerArgPool m1) ?h = Some a" "m_Buf a = b" by (auto simp: tbuf_def)
  obtain q where q: "m_pTimerArgPool m1 = Some q"
    using timer_coreD(7) [OF m1(2)] by (cases "m_pTimerArgPool m1") (auto simp: ptr_inv_def)
  obtain off where g: "objpool_get (Some q) ?h = Some (Some off)" "obj_read q off = Some a"
    using ptr_live [of q ?h a] timer_coreD(7) [OF m1(2)] a(1) q by metis
  from release_timer [OF i m1(2,3) hs m1(4)] obtain pp where
    r: "objpool_free (Some q) ?h = Some (0, pp)" "timer_inv (m1 \<lparr> m_pTimerArgPool := pp \<rparr>)"
      "timer_capacity (m1 \<lparr> m_pTimerArgPool := pp \<rparr>) = timer_capacity m"
      "timers (m1 \<lparr> m_pTimerArgPool := pp \<rparr>) = (timers m)(?h := None)" unfolding q by blast
  have h0: "0 \<le> ?h" using handle_nonneg [OF a(1)] .
  have "TickOneExpireTimer m now arg = Some (?h, m1 \<lparr> m_pTimerArgPool := pp \<rparr>, b)"
    using p q m1(1) h0 g r(1) a(2) by (simp add: TickOneExpireTimer_def del: ents_nth)
  moreover have "\<forall>h' e' b'. timers m h' = Some (e', b') \<longrightarrow> ?e \<le> e'"
    using m1(5) timers_eq_iff [OF d(1)] by fastforce
  ultimately show ?thesis using r th h0 due by blast
qed

lemma Tick_idle:
  assumes i: "timer_inv m" and n: "\<And>h e b. timers m h = Some (e, b) \<Longrightarrow> now < e"
  shows "TickOneExpireTimer m now arg = Some (-1, m, arg)"
proof -
  note d = timer_invD [OF i]
  obtain p where p: "m_pTimerArgPool m = Some p" by (rule timer_pool [OF i])
  have "now < snd x" if x: "x \<in> set (ents m)" for x
  proof -
    obtain h e where he: "x = (h, e)" by fastforce
    then obtain b where "tbuf m h = Some b" using x d(2) by force
    then have "timers m h = Some (e, b)" using timers_eq_iff [OF d(1)] x he by blast
    then show ?thesis using n he by auto
  qed
  from IAm_Tick_idle [OF d(1) this] show ?thesis using p by (simp add: TickOneExpireTimer_def)
qed

interpretation timer_ts: timer_service timer_inv timers timer_capacity StartTimer StopTimer UpdateTimer
  TickOneExpireTimer
proof unfold_locales
  fix m :: "'a LiteTimerMgr" and h k e f e' now :: int and b c a :: 'a
  assume i: "timer_inv m"
  show "finite (dom (timers m)) \<and> card (dom (timers m)) \<le> timer_capacity m"
    using pool_ht.contents_bounded [OF timer_invD(3) [OF i]] timer_invD(4,5) [OF i]
    by (simp add: timer_capacity_def)
  show "\<exists>h s'. StartTimer m e b = Some (0, s') \<and> timer_inv s' \<and> timer_capacity s' = timer_capacity m \<and>
      0 \<le> h \<and> timers m h = None \<and> timers s' = (timers m)(h \<mapsto> (e, b))"
    if "0 < e" "card (dom (timers m)) < timer_capacity m"
    using StartTimer_room [OF i that] by blast
  show "\<exists>c < 0. StartTimer m e b = Some (c, m)" if "card (dom (timers m)) = timer_capacity m"
    using StartTimer_full [OF i that] by auto
  show "\<exists>s'. StopTimer m h = Some (0, s') \<and> timer_inv s' \<and> timer_capacity s' = timer_capacity m \<and>
      timers s' = (timers m)(h := None)" if "timers m h \<noteq> None"
    by (rule StopTimer_live [OF i that])
  show "\<exists>c < 0. StopTimer m h = Some (c, m)" if "timers m h = None"
    using StopTimer_dead [OF i that] by simp
  show "\<exists>s'. UpdateTimer m h e' = Some (0, s') \<and> timer_inv s' \<and> timer_capacity s' = timer_capacity m \<and>
      timers s' = (timers m)(h \<mapsto> (e', b))" if "timers m h = Some (e, b)" "0 < e'"
    by (rule UpdateTimer_live [OF i that])
  show "\<exists>c < 0. UpdateTimer m h e' = Some (c, m)" if "timers m h = None"
    using UpdateTimer_dead [OF i that] by simp
  show "\<exists>h e b s'. TickOneExpireTimer m now a = Some (h, s', b) \<and> timer_inv s' \<and>
      timer_capacity s' = timer_capacity m \<and> 0 \<le> h \<and> timers m h = Some (e, b) \<and> e \<le> now \<and>
      (\<forall>h' e' b'. timers m h' = Some (e', b') \<longrightarrow> e \<le> e') \<and> timers s' = (timers m)(h := None)"
    if "timers m k = Some (f, c)" "f \<le> now"
    by (rule Tick_due [OF i that])
  show "\<exists>c < 0. TickOneExpireTimer m now a = Some (c, m, a)"
    if "\<And>h e b. timers m h = Some (e, b) \<Longrightarrow> now < e"
    using Tick_idle [OF i that] by simp
qed

section \<open>Initialisation and counting\<close>

lemma InitTimerMgr_ok:
  assumes "m_pTimerArgPool m = None" and n: "0 < n" and sz: "0 < sz"
    and b: "(int sz + 16) * int n + 40 < 2147483648" and "malloc ((int sz + 16) * int n + 40)"
  shows "\<exists>m'. InitTimerMgr malloc garbage sz m (int n) = Some (0, m') \<and> timer_inv m' \<and>
    timers m' = Map.empty \<and> timer_capacity m' = n"
proof -
  have "1 * int n \<le> (int sz + 16) * int n" by (intro mult_right_mono) auto
  then have "u64 (int n) = int n" using b by (intro u64_id) auto
  then have u: "nat (u64 (int n)) = n" by simp
  from objpool_init_ok [of n sz malloc garbage None, OF n sz b assms(5)] obtain p where
    p: "objpool_init malloc garbage (Some None) n sz = Some (0, Some (Some p))"
      "pool_rel p [] [0..<n]" "pool_map p = Map.empty" "m_iCapacity p = int n" by blast
  let ?m = "m \<lparr> m_pTimerArgPool := Some p, m_TimerHeap := [] \<rparr>"
  have "InitTimerMgr malloc garbage sz m (int n) = Some (0, ?m)"
    using p(1) assms(1) by (simp add: InitTimerMgr_def u Reset_def Let_def)
  moreover have "timer_inv ?m"
    using p(2,3) by (auto simp: timer_inv_def timer_core_def mgr_ok_def full_idx_def heap_on_def ents_def
      ptr_inv_def pool_inv_def tbuf_def ptr_map_def)
  moreover have "timers ?m = Map.empty" by (auto simp: timers_def ents_def)
  moreover have "timer_capacity ?m = n" using p(4) by (simp add: timer_capacity_def ptr_capacity_def)
  ultimately show ?thesis by blast
qed

section \<open>Properties\<close>

fun timer_run :: "'b LiteTimerMgr \<Rightarrow> 'b \<Rightarrow> 'b timer_op list \<Rightarrow> 'b LiteTimerMgr fault" where
  "timer_run m a [] = Some m"
| "timer_run m a (TStart e b # xs) = do { (_, m) \<leftarrow> StartTimer m e b; timer_run m a xs }"
| "timer_run m a (TStop h # xs) = do { (_, m) \<leftarrow> StopTimer m h; timer_run m a xs }"
| "timer_run m a (TUpdate h e # xs) = do { (_, m) \<leftarrow> UpdateTimer m h e; timer_run m a xs }"
| "timer_run m a (TTick now # xs) = do { (_, m, a) \<leftarrow> TickOneExpireTimer m now a; timer_run m a xs }"

text \<open>A main loop that ticks until nothing is due.\<close>

fun tick_all :: "nat \<Rightarrow> 'b LiteTimerMgr \<Rightarrow> int \<Rightarrow> 'b \<Rightarrow> ((int \<times> 'b) list \<times> 'b LiteTimerMgr) fault" where
  "tick_all 0 m now arg = None"
| "tick_all (Suc n) m now arg =
     (case TickOneExpireTimer m now arg of
        None \<Rightarrow> None
      | Some (h, m', b) \<Rightarrow>
          if h < 0 then Some ([], m')
          else (case tick_all n m' now b of None \<Rightarrow> None | Some (xs, m'') \<Rightarrow> Some ((h, b) # xs, m'')))"

text \<open>A manager for two timers with one timer running: handle 2, due at 5, buffer 42.\<close>

definition timer_example :: "int LiteTimerMgr" where
  "timer_example = the (timer_run (snd (the (InitTimerMgr (\<lambda>_. True)
     (\<lambda>_. \<lparr> m_iTimerIdx = 0, m_Buf = 0 \<rparr>) 8 LiteTimerMgr_new 2))) 0 [TStart 5 42])"

lemma timer_example_ok: "timer_inv timer_example" "timers timer_example 2 = Some (5, 42)"
  "timer_capacity timer_example = 2" "card (dom (timers timer_example)) = 1"
proof -
  let ?g = "\<lambda>_. \<lparr> m_iTimerIdx = 0, m_Buf = 0 \<rparr> :: int TTimerArg"
  from InitTimerMgr_ok [of LiteTimerMgr_new 2 8 "\<lambda>_. True" ?g] obtain m where
    m: "InitTimerMgr (\<lambda>_. True) ?g 8 LiteTimerMgr_new 2 = Some (0, m)" "timer_inv m"
      "timers m = Map.empty" "timer_capacity m = 2" by (auto simp: LiteTimerMgr_new_def)
  from StartTimer_room [OF m(2), of 5 42] m obtain h m' where
    s: "StartTimer m 5 42 = Some (0, m')" "timer_inv m'" "timer_capacity m' = 2" "timers m' = [h \<mapsto> (5, 42)]"
    by auto
  have e: "timer_example = m'" using m(1) s(1) by (simp add: timer_example_def)
  show "timer_inv timer_example" "timer_capacity timer_example = 2"
    "card (dom (timers timer_example)) = 1" using s e by auto
  have "map_of (ents timer_example) 2 = Some 5" by code_simp
  then have "2 \<in> fst ` set (ents timer_example)" by (force dest: map_of_SomeD)
  then have "2 \<in> dom (timers timer_example)" using timer_invD(2,5) [OF s(2)] e by simp
  then show "timers timer_example 2 = Some (5, 42)" using s(4) e by (auto split: if_splits)
qed

lemma zero_time: "StartTimer m 0 b = Some (-1, m)" "UpdateTimer m h 0 = Some (-1, m)"
  by (simp_all add: StartTimer_def UpdateTimer_def)

lemma timer_run_ok:
  assumes "timer_inv m"
    and "\<forall>x \<in> set ops. case x of TStart e b \<Rightarrow> 0 \<le> e | TUpdate h e \<Rightarrow> 0 \<le> e | _ \<Rightarrow> True"
  shows "\<exists>m'. timer_run m a ops = Some m' \<and> timer_inv m' \<and> timer_capacity m' = timer_capacity m"
  using assms
proof (induction m a ops rule: timer_run.induct)
  case (2 m a e b xs)
  obtain r m1 where s: "StartTimer m e b = Some (r, m1)" "timer_inv m1" "timer_capacity m1 = timer_capacity m"
    using timer_ts.start_total [OF "2.prems"(1), of e b] "2.prems" by (cases "e = 0") (auto simp: zero_time)
  then show ?case using "2.IH" [of "(r, m1)" r m1] "2.prems"(2) by auto
next
  case (3 m a h xs)
  obtain r m1 where s: "StopTimer m h = Some (r, m1)" "timer_inv m1" "timer_capacity m1 = timer_capacity m"
    using timer_ts.stop_total [OF "3.prems"(1), of h] by blast
  then show ?case using "3.IH" [of "(r, m1)" r m1] "3.prems"(2) by auto
next
  case (4 m a h e xs)
  obtain r m1 where s: "UpdateTimer m h e = Some (r, m1)" "timer_inv m1" "timer_capacity m1 = timer_capacity m"
    using timer_ts.update_total [OF "4.prems"(1), of e h] "4.prems" by (cases "e = 0") (auto simp: zero_time)
  then show ?case using "4.IH" [of "(r, m1)" r m1] "4.prems"(2) by auto
next
  case (5 m a now xs)
  obtain r m1 a1 where s: "TickOneExpireTimer m now a = Some (r, m1, a1)" "timer_inv m1"
      "timer_capacity m1 = timer_capacity m"
    using timer_ts.tick_total [OF "5.prems"(1), of now a] by blast
  then show ?case using "5.IH" [of "(r, m1, a1)" r "(m1, a1)" m1 a1] "5.prems"(2) by auto
qed auto

lemma GetActiveCount_ok:
  assumes "timer_inv m"
  shows "GetActiveCount m = int (card (dom (timers m)))"
proof -
  note d = timer_invD [OF assms]
  obtain p where p: "m_pTimerArgPool m = Some p" "ptr_inv (Some p)" by (rule timer_pool [OF assms])
  then obtain us fs where r: "pool_rel p us fs" by (auto simp: ptr_inv_def pool_inv_def)
  have "m_iUsedCount p = int (length us)" using pool_relD(2) [OF r] by (simp add: pool_chains_def)
  moreover have "length us = length (m_TimerHeap m)" using pool_card [OF r] d(6) p by (simp add: ptr_map_def)
  moreover have "length (m_TimerHeap m) < 134217728"
    using d(7) ptr_capacity_bound [OF d(3)] by (simp add: timer_capacity_def)
  ultimately show ?thesis using d(4,5,6) p
    by (simp add: GetActiveCount_def objpool_get_used_items_def int32_simps)
qed





text \<open>
  \<open>UpdateTimer\<close> moves a running timer to a new expiry time and keeps its buffer; an unknown
  handle is answered with \<open>-2\<close>, a zero time with \<open>-1\<close>, and then nothing changes.
\<close>

theorem UpdateTimer_refines:
  assumes "timer_inv m" and "0 \<le> e"
  shows "\<exists>r m'. UpdateTimer m h e = Some (r, m') \<and> timer_inv m' \<and> timer_capacity m' = timer_capacity m \<and>
    (if e = 0 then r = -1 \<and> m' = m
     else case timers m h of
       None \<Rightarrow> r = -2 \<and> m' = m
     | Some (_, b) \<Rightarrow> r = 0 \<and> timers m' = (timers m)(h \<mapsto> (e, b)))"
proof (cases "e = 0 \<or> timers m h = None")
  case True
  then show ?thesis using assms UpdateTimer_dead [OF assms(1), of h e] by (cases "e = 0") (auto simp: zero_time)
next
  case False
  then obtain e' b where "timers m h = Some (e', b)" by auto
  from UpdateTimer_live [OF assms(1) this, of e] this False assms(2) show ?thesis by auto
qed

theorem UpdateTimer_refines_witness:
  "timer_inv timer_example \<and> (\<exists>m'. UpdateTimer timer_example 2 9 = Some (0, m') \<and> timers m' 2 = Some (9, 42))"
  using timer_example_ok UpdateTimer_refines [OF timer_example_ok(1), of 9 2] by auto

text \<open>
  C9. Ticking until nothing is due ends within one call more than there are due timers, hands
  out every timer that is due exactly once together with its own buffer, in the order of the
  expiry times, and leaves exactly the timers that are not due.
\<close>

theorem tick_all_due:
  assumes "timer_inv m" and "card {h. \<exists>e b. timers m h = Some (e, b) \<and> e \<le> now} < n"
  shows "\<exists>xs m'. tick_all n m now arg = Some (xs, m') \<and> timer_inv m' \<and>
    distinct (map fst xs) \<and> set (map fst xs) = {h. \<exists>e b. timers m h = Some (e, b) \<and> e \<le> now} \<and>
    (\<forall>(h, b) \<in> set xs. map_option snd (timers m h) = Some b) \<and>
    sorted (map (\<lambda>(h, b). fst (the (timers m h))) xs) \<and>
    (\<forall>h. timers m' h = (case timers m h of Some (e, b) \<Rightarrow> if e \<le> now then None else Some (e, b) | None \<Rightarrow> None))"
proof -
  have eq: "timer_ts.drain n m now arg = tick_all n m now arg"
    by (induction n arbitrary: m arg) (auto split: option.splits prod.splits)
  have "card (timer_ts.due m now) < n" using assms(2) by (simp add: timer_ts.due_def)
  from timer_ts.drain_due [OF assms(1) this, of arg] obtain xs m' where
    d: "tick_all n m now arg = Some (xs, m')" "timer_inv m'" "distinct (map fst xs)"
      "set (map fst xs) = timer_ts.due m now" "\<forall>(h, b) \<in> set xs. map_option snd (timers m h) = Some b"
      "sorted (map (\<lambda>(h, b). fst (the (timers m h))) xs)"
      "timers m' = (\<lambda>h. if h \<in> timer_ts.due m now then None else timers m h)" unfolding eq by blast
  have "timers m' h = (case timers m h of Some (e, b) \<Rightarrow> if e \<le> now then None else Some (e, b) | None \<Rightarrow> None)" for h
    unfolding d(7) timer_ts.due_def by (auto split: option.splits)
  then show ?thesis using d(1-6) unfolding timer_ts.due_def by blast
qed

theorem tick_all_due_witness:
  "\<exists>xs m'. tick_all 3 timer_example 5 0 = Some (xs, m') \<and> 2 \<in> fst ` set xs \<and> timers m' 2 = None"
proof -
  have "{h. \<exists>e b. timers timer_example h = Some (e, b) \<and> e \<le> 5} \<subseteq> dom (timers timer_example)" by auto
  from card_mono [OF conjunct1 [OF timer_ts.timers_bounded [OF timer_example_ok(1)]] this]
  have "card {h. \<exists>e b. timers timer_example h = Some (e, b) \<and> e \<le> 5} < 3" using timer_example_ok(4) by linarith
  from tick_all_due [OF timer_example_ok(1) this, of 0] obtain xs m' where
    "tick_all 3 timer_example 5 0 = Some (xs, m')"
    "set (map fst xs) = {h. \<exists>e b. timers timer_example h = Some (e, b) \<and> e \<le> 5}"
    "\<forall>h. timers m' h = (case timers timer_example h of Some (e, b) \<Rightarrow> if e \<le> 5 then None else Some (e, b) | None \<Rightarrow> None)"
    by blast
  then show ?thesis using timer_example_ok(2) by auto
qed

text \<open>
  C10. From \<open>InitTimerMgr\<close> on, no sequence of the manager's operations with non-negative times
  faults, whatever handles it names, and afterwards \<open>GetActiveCount\<close> reports the number of
  running timers: the vector and the pool never disagree.
\<close>

theorem timer_runs_safe:
  assumes "0 < n" and "0 < sz" and "(int sz + 16) * int n + 40 < 2147483648"
    and "malloc ((int sz + 16) * int n + 40)"
    and "\<forall>x \<in> set ops. case x of TStart e b \<Rightarrow> 0 \<le> e | TUpdate h e \<Rightarrow> 0 \<le> e | _ \<Rightarrow> True"
  shows "\<exists>m m'. InitTimerMgr malloc garbage sz LiteTimerMgr_new (int n) = Some (0, m) \<and>
    timer_run m a ops = Some m' \<and> timer_inv m' \<and> timer_capacity m' = n \<and>
    GetActiveCount m' = int (card (dom (timers m')))"
proof -
  have "m_pTimerArgPool LiteTimerMgr_new = None" by (simp add: LiteTimerMgr_new_def)
  from InitTimerMgr_ok [of LiteTimerMgr_new n sz malloc garbage, OF this assms(1-4)] obtain m where
    m: "InitTimerMgr malloc garbage sz LiteTimerMgr_new (int n) = Some (0, m)" "timer_inv m"
      "timer_capacity m = n" by blast
  from timer_run_ok [OF m(2) assms(5), of a] obtain m' where
    "timer_run m a ops = Some m'" "timer_inv m'" "timer_capacity m' = timer_capacity m" by blast
  then show ?thesis using m GetActiveCount_ok by blast
qed


theorem timer_runs_safe_witness:
  "\<exists>m m'. InitTimerMgr (\<lambda>_. True) (\<lambda>_. \<lparr> m_iTimerIdx = 0, m_Buf = 0 \<rparr>) 8 LiteTimerMgr_new (int 3) = Some (0, m) \<and>
    timer_run m (0 :: int) [TStart 5 1, TStart 3 2, TStop 77, TUpdate 3 9, TTick 6] = Some m' \<and> timer_inv m' \<and>
    timer_capacity m' = 3 \<and> GetActiveCount m' = int (card (dom (timers m')))"
  by (rule timer_runs_safe) simp_all

text \<open>
  A negative expiry time is accepted and breaks \<open>StopTimer\<close>: with timers due at \<open>-5\<close>
  (handle 2) and \<open>10\<close> (handle 3), stopping handle 3 reports success but takes the other timer
  out of the heap and releases handle 3, whose entry stays behind. The next tick pops that entry
  and returns \<open>-1\<close>, so the timer due at \<open>-5\<close> never fires and its slot is lost.
\<close>

theorem negative_expiry_breaks_StopTimer:
  "let init = snd (the (InitTimerMgr (\<lambda>_. True) (\<lambda>_. \<lparr> m_iTimerIdx = 0, m_Buf = 0 \<rparr>) 8 LiteTimerMgr_new 2));
       m1 = snd (the (StartTimer init (-5) (1 :: int)));
       m2 = snd (the (StartTimer m1 10 2));
       stopped = the (StopTimer m2 3);
       ticked = the (TickOneExpireTimer (snd stopped) 100 0)
   in ents m2 = [(2, -5), (3, 10)] \<and> fst stopped = 0 \<and> ents (snd stopped) = [(3, 0)] \<and>
      fst ticked = -1 \<and> ents (fst (snd ticked)) = [] \<and> GetActiveCount (fst (snd ticked)) = -1"
  by code_simp

end
