(* ===== verification/Bytes.thy ===== *)
theory Bytes
  imports Wdd_Prelude "HOL-Library.Word"
begin

text \<open>
  Bytes, blocks of memory and the 32-bit network byte order, as the network components use
  them. A block is a list of bytes; reading or writing a range that is not inside the block is
  a fault.
\<close>

type_synonym byte = "8 word"

named_theorems mem_simps

definition mem_read :: "byte list \<Rightarrow> int \<Rightarrow> int \<Rightarrow> byte list fault" where
  "mem_read xs off n =
     (if 0 \<le> off \<and> 0 \<le> n \<and> off + n \<le> int (length xs) then Some (take (nat n) (drop (nat off) xs)) else None)"

definition mem_write :: "byte list \<Rightarrow> int \<Rightarrow> byte list \<Rightarrow> byte list fault" where
  "mem_write xs off ys =
     (if 0 \<le> off \<and> off + int (length ys) \<le> int (length xs)
      then Some (take (nat off) xs @ ys @ drop (nat off + length ys) xs) else None)"

lemma mem_read_length: "mem_read xs off n = Some ys \<Longrightarrow> length ys = nat n"
  by (auto simp: mem_read_def split: if_splits)

lemma mem_write_length: "mem_write xs off ys = Some zs \<Longrightarrow> length zs = length xs"
  by (auto simp: mem_write_def split: if_splits)

lemma mem_read_nat [mem_simps]:
  "i + n \<le> length xs \<Longrightarrow> mem_read xs (int i) (int n) = Some (take n (drop i xs))"
  by (simp add: mem_read_def)

lemma mem_write_nat [mem_simps]:
  "i + length ys \<le> length xs \<Longrightarrow> mem_write xs (int i) ys = Some (take i xs @ ys @ drop (i + length ys) xs)"
  by (simp add: mem_write_def)

text \<open>What was written is what is read back, and nothing before it changes.\<close>

lemma mem_write_read:
  assumes "mem_write xs off ys = Some zs"
  shows "mem_read zs off (int (length ys)) = Some ys" "take (nat off) zs = take (nat off) xs"
  using assms by (auto simp: mem_write_def mem_read_def split: if_splits)

section \<open>Network byte order\<close>

text \<open>\<open>*(uint32_t* )p = htonl(x)\<close> and \<open>ntohl(*(uint32_t* )p)\<close>.\<close>

definition htonl_bytes :: "int \<Rightarrow> byte list" where
  "htonl_bytes x = map word_of_int [x div 256 div 256 div 256, x div 256 div 256, x div 256, x]"

fun ntohl_bytes :: "byte list \<Rightarrow> int" where
  "ntohl_bytes [a, b, c, d] = ((uint a * 256 + uint b) * 256 + uint c) * 256 + uint d"
| "ntohl_bytes _ = 0"

lemma length_htonl [simp]: "length (htonl_bytes x) = 4"
  by (simp add: htonl_bytes_def)

lemma byte_uint: "0 \<le> uint (b :: byte)" "uint (b :: byte) < 256"
  using uint_lt2p [of b] by auto

lemma ntohl_htonl: "0 \<le> x \<Longrightarrow> x < 4294967296 \<Longrightarrow> ntohl_bytes (htonl_bytes x) = x"
proof -
  assume x: "0 \<le> x" "x < 4294967296"
  have u: "uint (word_of_int y :: byte) = y mod 256" for y
    by (simp add: uint_word_of_int take_bit_eq_mod)
  have "x div 256 div 256 div 256 < 256" "0 \<le> x div 256 div 256 div 256" using x by auto
  then have "x div 256 div 256 div 256 mod 256 = x div 256 div 256 div 256" by (intro mod_pos_pos_trivial)
  then show ?thesis
    unfolding htonl_bytes_def list.map ntohl_bytes.simps u by (simp only: div_mult_mod_eq)
qed

lemma ntohl_range: "0 \<le> ntohl_bytes bs \<and> ntohl_bytes bs < 4294967296"
proof (induction bs rule: ntohl_bytes.induct)
  case (1 a b c d)
  have g: "0 \<le> w \<Longrightarrow> w \<le> 255 \<Longrightarrow> 0 \<le> x \<Longrightarrow> x \<le> 255 \<Longrightarrow> 0 \<le> y \<Longrightarrow> y \<le> 255 \<Longrightarrow> 0 \<le> z \<Longrightarrow> z \<le> 255 \<Longrightarrow>
    0 \<le> ((w * 256 + x) * 256 + y) * 256 + z \<and> ((w * 256 + x) * 256 + y) * 256 + z < 4294967296"
    for w x y z :: int by (simp add: algebra_simps)
  have u: "uint v \<le> 255" for v :: byte using byte_uint(2) [of v] by linarith
  show ?case unfolding ntohl_bytes.simps by (rule g) (rule byte_uint(1) u)+
qed simp_all

end
