(* ===== verification/Step_Simulation.thy ===== *)
theory Step_Simulation
  imports Wdd_Prelude
begin

text \<open>
  Forward simulation between a specification that executes labelled steps and an
  implementation that executes the same ones: both return an observation and a new state, or
  nothing (the specification when the step is not allowed, the implementation on a fault).
  Runs carry over: the implementation allows every run the specification allows, and shows
  the same observations.
\<close>

fun run_steps :: "('op \<Rightarrow> 's \<Rightarrow> ('o \<times> 's) option) \<Rightarrow> 'op list \<Rightarrow> 's \<Rightarrow> ('o list \<times> 's) option" where
  "run_steps step [] s = Some ([], s)"
| "run_steps step (x # xs) s = do {
     (r, s) \<leftarrow> step x s;
     (rs, s) \<leftarrow> run_steps step xs s;
     Some (r # rs, s)
   }"

locale step_simulation =
  fixes rel :: "'c \<Rightarrow> 'a \<Rightarrow> bool"
    and ok :: "'op \<Rightarrow> bool"
    and spec :: "'op \<Rightarrow> 'a \<Rightarrow> ('o \<times> 'a) option"
    and impl :: "'op \<Rightarrow> 'c \<Rightarrow> ('o \<times> 'c) option"
  assumes simulates: "rel c a \<Longrightarrow> ok x \<Longrightarrow> spec x a = Some (r, a') \<Longrightarrow>
    \<exists>c'. impl x c = Some (r, c') \<and> rel c' a'"
begin

lemma runs:
  assumes "rel c a" and "list_all ok xs" and "run_steps spec xs a = Some (rs, a')"
  shows "\<exists>c'. run_steps impl xs c = Some (rs, c') \<and> rel c' a'"
  using assms
proof (induction xs arbitrary: c a rs)
  case Nil
  then show ?case by auto
next
  case (Cons x xs)
  from Cons.prems(3) obtain r rs2 b where s: "spec x a = Some (r, b)"
      "run_steps spec xs b = Some (rs2, a')" "rs = r # rs2"
    by (auto split: bind_splits)
  from simulates [OF Cons.prems(1) _ s(1)] Cons.prems(2)
  obtain d where d: "impl x c = Some (r, d)" "rel d b" by auto
  from Cons.IH [OF d(2) _ s(2)] Cons.prems(2)
  obtain e where "run_steps impl xs d = Some (rs2, e)" "rel e a'" by auto
  with d s(3) show ?case by auto
qed

end

end
