(* ===== verification/Coroutine.thy ===== *)
theory Coroutine
  imports Bytes Step_Simulation
begin

text \<open>
  The asymmetric coroutines of \<^verbatim>\<open>src/util/coroutine/coroutine.{h,cpp}\<close>.

  A context (\<open>ucontext_t\<close>) is the continuation that was saved in it, of an arbitrary type
  \<open>'k\<close>, with its stack area and its link; \<open>co_swapcontext\<close> (in assembly, theory \<open>CoSwapContext\<close>)
  saves the continuation of the caller and hands control to the continuation of the target.
  An operation of the component therefore either returns a code (\<open>Inl\<close>) or passes control to a
  continuation (\<open>Inr\<close>); all that the functions do after \<open>co_swapcontext\<close> has come back is to
  return 0. \<open>schedule\<close> is the C structure together with the memory the functions work on:
  the \<open>coroutine\<close> structures by address and the blocks of the stack allocator.

  In the dynamic mode coroutines run on two shared stacks, and the part of the stack in use is
  copied out when a coroutine stops and copied back before it goes on. The position of the
  stack pointer at the time of a call, \<open>sp\<close>, is an argument of the operations.
\<close>

section \<open>Data\<close>

definition CO_STATE_NONE :: int where "CO_STATE_NONE = 0"
definition CO_STATE_READY :: int where "CO_STATE_READY = 1"
definition CO_STATE_RUN :: int where "CO_STATE_RUN = 2"
definition CO_STATE_SUSPEND :: int where "CO_STATE_SUSPEND = 3"
definition CO_STATE_END :: int where "CO_STATE_END = 4"

lemmas co_states = CO_STATE_NONE_def CO_STATE_READY_def CO_STATE_RUN_def CO_STATE_SUSPEND_def
  CO_STATE_END_def

datatype ctx_ref = SchCtx | CoCtx int

record ('f, 'k) coroutine =
  func :: 'f
  arg :: int
  uc_sp :: int
  uc_size :: int
  uc_link :: ctx_ref
  uc_cont :: "'k option"
  status :: int
  parent :: "int option"
  stacksize :: int
  stackmaxsize :: int
  stack :: int
  usesecondstack :: bool

record ('f, 'k) schedule =
  sch_sp :: int
  sch_size :: int
  sch_cont :: "'k option"
  isDynamicStack :: bool
  pRunCo :: "int option"
  allocfunc :: bool
  freefunc :: bool
  secondstackmaxsize :: int
  secondstack :: int
  firststackmaxsize :: int
  firststack :: int
  blocks :: "int \<Rightarrow> byte list option"
  cos :: "int \<Rightarrow> ('f, 'k) coroutine"

definition upd_co :: "int \<Rightarrow> (('f, 'k) coroutine \<Rightarrow> ('f, 'k) coroutine) \<Rightarrow>
    ('f, 'k, 'z) schedule_scheme \<Rightarrow> ('f, 'k, 'z) schedule_scheme" where
  "upd_co a f w = w \<lparr> cos := (cos w)(a := f (cos w a)) \<rparr>"

text \<open>
  \<open>allocfunc\<close> and \<open>freefunc\<close> are function pointers of the client; \<open>False\<close> is \<open>NULL\<close>. What
  the allocator returns for a size, an address (0 for \<open>NULL\<close>) and the contents of the new
  block, is the parameter \<open>mal\<close>; freeing \<open>NULL\<close> does nothing, and freeing anything that is
  not a live block is a fault.
\<close>

type_synonym stack_alloc = "(int \<Rightarrow> byte list option) \<Rightarrow> int \<Rightarrow> int \<times> byte list"

definition co_alloc :: "stack_alloc \<Rightarrow> int \<Rightarrow> ('f, 'k, 'z) schedule_scheme \<Rightarrow>
    (int \<times> ('f, 'k, 'z) schedule_scheme) fault" where
  "co_alloc mal n w =
     (if \<not> allocfunc w then None
      else let (p, bs) = mal (blocks w) n
           in Some (p, if p = 0 then w else w \<lparr> blocks := (blocks w)(p \<mapsto> bs) \<rparr>))"

definition co_free :: "int \<Rightarrow> ('f, 'k, 'z) schedule_scheme \<Rightarrow> ('f, 'k, 'z) schedule_scheme fault" where
  "co_free p w =
     (if \<not> freefunc w then None
      else if p = 0 then Some w
      else do { _ \<leftarrow> blocks w p; Some (w \<lparr> blocks := (blocks w)(p := None) \<rparr>) })"

section \<open>Stacks\<close>

definition get_runningstack :: "('f, 'k) coroutine \<Rightarrow> ('f, 'k, 'z) schedule_scheme \<Rightarrow> int" where
  "get_runningstack c w = (if usesecondstack c then secondstack w else firststack w)"

definition get_runningstacksize :: "('f, 'k) coroutine \<Rightarrow> ('f, 'k, 'z) schedule_scheme \<Rightarrow> int" where
  "get_runningstacksize c w = (if usesecondstack c then secondstackmaxsize w else firststackmaxsize w)"

text \<open>The block for the copy of a stack is replaced when it is too small for \<open>ssize\<close> bytes.\<close>

definition stack_room :: "stack_alloc \<Rightarrow> int \<Rightarrow> int \<Rightarrow> ('f, 'k, 'z) schedule_scheme \<Rightarrow>
    ('f, 'k, 'z) schedule_scheme fault" where
  "stack_room mal ssize pCo w =
     (if stackmaxsize (cos w pCo) < ssize
      then do {
        w \<leftarrow> co_free (stack (cos w pCo)) w;
        let w = upd_co pCo (\<lambda>c. c \<lparr> stackmaxsize := ssize \<rparr>) w;
        (p, w) \<leftarrow> co_alloc mal ssize w;
        Some (upd_co pCo (\<lambda>c. c \<lparr> stack := p \<rparr>) w)
      }
      else Some w)"

definition save_stack :: "stack_alloc \<Rightarrow> int \<Rightarrow> int \<Rightarrow> ('f, 'k, 'z) schedule_scheme \<Rightarrow>
    ('f, 'k, 'z) schedule_scheme fault" where
  "save_stack mal sp pCo w = do {
     let pstack = get_runningstack (cos w pCo) w;
     let top = pstack + get_runningstacksize (cos w pCo) w;
     let ssize = s32 (top - sp);
     w \<leftarrow> stack_room mal ssize pCo w;
     let w = upd_co pCo (\<lambda>c. c \<lparr> stacksize := ssize \<rparr>) w;
     src \<leftarrow> blocks w pstack;
     bytes \<leftarrow> mem_read src (sp - pstack) ssize;
     dst \<leftarrow> blocks w (stack (cos w pCo));
     dst \<leftarrow> mem_write dst 0 bytes;
     Some (w \<lparr> blocks := (blocks w)(stack (cos w pCo) \<mapsto> dst) \<rparr>)
   }"

definition restore_stack :: "int \<Rightarrow> ('f, 'k, 'z) schedule_scheme \<Rightarrow> ('f, 'k, 'z) schedule_scheme fault" where
  "restore_stack pCo w = do {
     let c = cos w pCo;
     let pstack = get_runningstack c w;
     src \<leftarrow> blocks w (stack c);
     bytes \<leftarrow> mem_read src 0 (stacksize c);
     dst \<leftarrow> blocks w pstack;
     dst \<leftarrow> mem_write dst (get_runningstacksize c w - stacksize c) bytes;
     Some (w \<lparr> blocks := (blocks w)(pstack \<mapsto> dst) \<rparr>)
   }"

definition set_dynamic_stack :: "int \<Rightarrow> bool \<Rightarrow> ('f, 'k, 'z) schedule_scheme \<Rightarrow> ('f, 'k, 'z) schedule_scheme" where
  "set_dynamic_stack pCo issecond w =
     (if \<not> issecond
      then upd_co pCo (\<lambda>c. c \<lparr> usesecondstack := False, uc_sp := firststack w, uc_size := firststackmaxsize w \<rparr>) w
      else upd_co pCo (\<lambda>c. c \<lparr> usesecondstack := True, uc_sp := secondstack w, uc_size := secondstackmaxsize w \<rparr>) w)"

section \<open>Contexts\<close>

fun ctx_save :: "ctx_ref \<Rightarrow> 'k \<Rightarrow> ('f, 'k, 'z) schedule_scheme \<Rightarrow> ('f, 'k, 'z) schedule_scheme" where
  "ctx_save SchCtx k w = w \<lparr> sch_cont := Some k \<rparr>"
| "ctx_save (CoCtx a) k w = upd_co a (\<lambda>c. c \<lparr> uc_cont := Some k \<rparr>) w"

fun ctx_load :: "ctx_ref \<Rightarrow> ('f, 'k, 'z) schedule_scheme \<Rightarrow> 'k option" where
  "ctx_load SchCtx w = sch_cont w"
| "ctx_load (CoCtx a) w = uc_cont (cos w a)"

definition co_swapcontext :: "'k \<Rightarrow> ctx_ref \<Rightarrow> ctx_ref \<Rightarrow> ('f, 'k, 'z) schedule_scheme \<Rightarrow>
    ((int + 'k) \<times> ('f, 'k, 'z) schedule_scheme) fault" where
  "co_swapcontext k from to w = do {
     let w = ctx_save from k w;
     k' \<leftarrow> ctx_load to w;
     Some (Inr k', w)
   }"

definition parent_ctx :: "int \<Rightarrow> ('f, 'k, 'z) schedule_scheme \<Rightarrow> ctx_ref" where
  "parent_ctx pCo w = (case parent (cos w pCo) of Some q \<Rightarrow> CoCtx q | None \<Rightarrow> SchCtx)"

section \<open>Operations\<close>

definition co_init :: "int option \<Rightarrow> 'f \<Rightarrow> int \<Rightarrow> int \<Rightarrow> int \<Rightarrow> ('f, 'k, 'z) schedule_scheme \<Rightarrow>
    int \<times> ('f, 'k, 'z) schedule_scheme" where
  "co_init pCo f a pStack iStackSize w =
     (case pCo of
        None \<Rightarrow> (-1, w)
      | Some p \<Rightarrow> (0, upd_co p (\<lambda>c. c \<lparr> func := f, arg := a, status := CO_STATE_READY, uc_sp := pStack,
            uc_size := iStackSize, uc_link := SchCtx, stacksize := 0, stack := 0, stackmaxsize := 0,
            usesecondstack := False \<rparr>) w))"

text \<open>
  The entry function of a context gets the address of the schedule in two halves. It returns
  at once when nothing runs; otherwise it calls the function of the running coroutine
  (\<open>process_enter\<close>) and, when that has returned, ends the coroutine (\<open>process_end\<close>); \<open>k\<close> is the
  rest of the entry function, which is never reached again.
\<close>

definition process_arg :: "int \<Rightarrow> int \<Rightarrow> int" where
  "process_arg low32 hi32 = or low32 (push_bit 32 hi32)"

definition process_enter :: "('f, 'k, 'z) schedule_scheme \<Rightarrow> (int \<times> 'f \<times> int) option" where
  "process_enter w = map_option (\<lambda>p. (p, func (cos w p), arg (cos w p))) (pRunCo w)"

definition process_end :: "'k \<Rightarrow> int \<Rightarrow> ('f, 'k, 'z) schedule_scheme \<Rightarrow>
    ((int + 'k) \<times> ('f, 'k, 'z) schedule_scheme) fault" where
  "process_end k pCo w = (
     let w = upd_co pCo (\<lambda>c. c \<lparr> status := CO_STATE_END \<rparr>) w;
         w = w \<lparr> pRunCo := parent (cos w pCo) \<rparr>
     in case parent (cos w pCo) of
          Some awake \<Rightarrow> do {
            let w = upd_co pCo (\<lambda>c. c \<lparr> uc_link := CoCtx awake, parent := None \<rparr>) w;
            let w = upd_co awake (\<lambda>c. c \<lparr> status := CO_STATE_RUN \<rparr>) w;
            w \<leftarrow> (if isDynamicStack w then restore_stack awake w else Some w);
            co_swapcontext k (CoCtx pCo) (CoCtx awake) w
          }
        | None \<Rightarrow> co_swapcontext k (CoCtx pCo) SchCtx w)"

text \<open>The coroutine that calls \<open>co_resume\<close> becomes the parent of the resumed one and stops.\<close>

definition pause_running :: "stack_alloc \<Rightarrow> int \<Rightarrow> int \<Rightarrow> ('f, 'k, 'z) schedule_scheme \<Rightarrow>
    ('f, 'k, 'z) schedule_scheme fault" where
  "pause_running mal sp a w =
     (case pRunCo w of
        None \<Rightarrow> Some w
      | Some r \<Rightarrow> do {
          let w = upd_co a (\<lambda>c. c \<lparr> parent := Some r \<rparr>) w;
          let w = upd_co r (\<lambda>c. c \<lparr> status := CO_STATE_SUSPEND \<rparr>) w;
          if isDynamicStack w then save_stack mal sp r w else Some w
        })"

text \<open>\<open>entry\<close> is the continuation that \<open>makecontext\<close> installs: a call of the entry function.\<close>

definition co_resume :: "'k \<Rightarrow> stack_alloc \<Rightarrow> int \<Rightarrow> 'k \<Rightarrow> int option \<Rightarrow> ('f, 'k, 'z) schedule_scheme \<Rightarrow>
    ((int + 'k) \<times> ('f, 'k, 'z) schedule_scheme) fault" where
  "co_resume entry mal sp k pCo w =
     (case pCo of
        None \<Rightarrow> Some (Inl (-1), w)
      | Some a \<Rightarrow> do {
          let w = upd_co a (\<lambda>c. c \<lparr> parent := None \<rparr>) w;
          w \<leftarrow> pause_running mal sp a w;
          let w = w \<lparr> pRunCo := Some a \<rparr>;
          if status (cos w a) = CO_STATE_READY then do {
            let w = upd_co a (\<lambda>c. c \<lparr> status := CO_STATE_RUN \<rparr>) w;
            let w = (if isDynamicStack w
                     then set_dynamic_stack a (case parent (cos w a) of
                            Some q \<Rightarrow> \<not> usesecondstack (cos w q) | None \<Rightarrow> False) w
                     else w);
            let w = upd_co a (\<lambda>c. c \<lparr> uc_cont := Some entry \<rparr>) w;
            co_swapcontext k (parent_ctx a w) (CoCtx a) w
          }
          else if status (cos w a) = CO_STATE_SUSPEND then do {
            let w = upd_co a (\<lambda>c. c \<lparr> status := CO_STATE_RUN \<rparr>) w;
            w \<leftarrow> (if isDynamicStack w then restore_stack a w else Some w);
            co_swapcontext k (parent_ctx a w) (CoCtx a) w
          }
          else Some (Inl (-2), w)
        })"

definition co_yield :: "stack_alloc \<Rightarrow> int \<Rightarrow> 'k \<Rightarrow> ('f, 'k, 'z) schedule_scheme \<Rightarrow>
    ((int + 'k) \<times> ('f, 'k, 'z) schedule_scheme) fault" where
  "co_yield mal sp k w =
     (case pRunCo w of
        None \<Rightarrow> Some (Inl (-1), w)
      | Some pCo \<Rightarrow> do {
          w \<leftarrow> (if isDynamicStack w then save_stack mal sp pCo w else Some w);
          let w = upd_co pCo (\<lambda>c. c \<lparr> status := CO_STATE_SUSPEND \<rparr>) w;
          let w = w \<lparr> pRunCo := parent (cos w pCo) \<rparr>;
          case parent (cos w pCo) of
            Some awake \<Rightarrow> do {
              let w = upd_co awake (\<lambda>c. c \<lparr> status := CO_STATE_RUN \<rparr>) w;
              let w = upd_co pCo (\<lambda>c. c \<lparr> parent := None \<rparr>) w;
              w \<leftarrow> (if isDynamicStack w then restore_stack awake w else Some w);
              co_swapcontext k (CoCtx pCo) (CoCtx awake) w
            }
          | None \<Rightarrow> co_swapcontext k (CoCtx pCo) SchCtx w
        })"

definition co_runningstacksize :: "int \<Rightarrow> ('f, 'k, 'z) schedule_scheme \<Rightarrow> int" where
  "co_runningstacksize sp w =
     (case pRunCo w of
        None \<Rightarrow> -1
      | Some p \<Rightarrow>
          let c = cos w p;
              pstack = (if isDynamicStack w then get_runningstack c w else uc_sp c);
              size = (if isDynamicStack w then get_runningstacksize c w else uc_size c)
          in s32 (pstack + size - sp))"

section \<open>Specification\<close>

text \<open>
  What coroutines promise: control is a stack. Resuming a coroutine pushes the continuation of
  the caller and goes on where the coroutine stopped (at its entry when it has not run);
  yielding or ending pops one caller and goes on there. In the dynamic mode a continuation
  comes with the bytes of the stack it had in use. The operations of the specification carry
  these bytes, the observation after a step is the continuation that goes on and the bytes it
  finds on its stack.
\<close>

record 'k ctl =
  chain :: "int list"
  callers :: "('k \<times> byte list) list"
  parked :: "int \<Rightarrow> ('k \<times> byte list) option"

datatype 'k co_op = CoResume "byte list" 'k int | CoYield "byte list" 'k | CoFinish 'k

definition ctl_return :: "('k \<times> byte list) option \<Rightarrow> 'k ctl \<Rightarrow> (((int + 'k) \<times> byte list) \<times> 'k ctl) option" where
  "ctl_return park s =
     (case (chain s, callers s) of
        (a # cs, (k, bs) # ks) \<Rightarrow>
          Some ((Inr k, bs), \<lparr> chain = cs, callers = ks, parked = (parked s)(a := park) \<rparr>)
      | _ \<Rightarrow> None)"

fun ctl_step :: "bool \<Rightarrow> 'k co_op \<Rightarrow> 'k ctl \<Rightarrow> (((int + 'k) \<times> byte list) \<times> 'k ctl) option" where
  "ctl_step dyn (CoResume bs k a) s =
     (case parked s a of
        None \<Rightarrow> None
      | Some (k', bs') \<Rightarrow>
          Some ((Inr k', bs'), \<lparr> chain = a # chain s,
             callers = (k, if dyn \<and> chain s \<noteq> [] then bs else []) # callers s,
             parked = (parked s)(a := None) \<rparr>))"
| "ctl_step dyn (CoYield bs k) s =
     (if chain s = [] then Some ((Inl (-1), []), s)
      else ctl_return (Some (k, if dyn then bs else [])) s)"
| "ctl_step dyn (CoFinish k) s = ctl_return None s"

text \<open>
  The implementation of the same steps: before a coroutine stops its code has left the bytes
  \<open>bs\<close> at the upper end of its stack (\<open>poke\<close>), and the observation reads the part of the stack
  that the coroutine that goes on had in use (\<open>peek\<close>).
\<close>

definition poke :: "byte list \<Rightarrow> ('f, 'k, 'z) schedule_scheme \<Rightarrow> ('f, 'k, 'z) schedule_scheme fault" where
  "poke bs w =
     (case pRunCo w of
        Some a \<Rightarrow>
          if isDynamicStack w then do {
            let c = cos w a;
            st \<leftarrow> blocks w (get_runningstack c w);
            st \<leftarrow> mem_write st (get_runningstacksize c w - int (length bs)) bs;
            Some (w \<lparr> blocks := (blocks w)(get_runningstack c w \<mapsto> st) \<rparr>)
          } else Some w
      | None \<Rightarrow> Some w)"

definition peek :: "('f, 'k, 'z) schedule_scheme \<Rightarrow> byte list fault" where
  "peek w =
     (case pRunCo w of
        Some a \<Rightarrow>
          if isDynamicStack w then do {
            let c = cos w a;
            st \<leftarrow> blocks w (get_runningstack c w);
            mem_read st (get_runningstacksize c w - stacksize c) (stacksize c)
          } else Some []
      | None \<Rightarrow> Some [])"

definition stack_pos :: "byte list \<Rightarrow> ('f, 'k, 'z) schedule_scheme \<Rightarrow> int" where
  "stack_pos bs w =
     (case pRunCo w of
        Some a \<Rightarrow> get_runningstack (cos w a) w + get_runningstacksize (cos w a) w - int (length bs)
      | None \<Rightarrow> 0)"

definition observe :: "((int + 'k) \<times> ('f, 'k, 'z) schedule_scheme) fault \<Rightarrow>
    (((int + 'k) \<times> byte list) \<times> ('f, 'k, 'z) schedule_scheme) fault" where
  "observe m = do { (r, w) \<leftarrow> m; bs \<leftarrow> peek w; Some ((r, bs), w) }"

fun co_step :: "'k \<Rightarrow> stack_alloc \<Rightarrow> 'k co_op \<Rightarrow> ('f, 'k, 'z) schedule_scheme \<Rightarrow>
    (((int + 'k) \<times> byte list) \<times> ('f, 'k, 'z) schedule_scheme) option" where
  "co_step entry mal (CoResume bs k a) w = do {
     w \<leftarrow> poke bs w;
     observe (co_resume entry mal (stack_pos bs w) k (Some a) w)
   }"
| "co_step entry mal (CoYield bs k) w = do {
     w \<leftarrow> poke bs w;
     observe (co_yield mal (stack_pos bs w) k w)
   }"
| "co_step entry mal (CoFinish k) w = do { p \<leftarrow> pRunCo w; observe (process_end k p w) }"

section \<open>Stacks of stopped coroutines\<close>

text \<open>The allocator returns a fresh block of the size asked for.\<close>

definition mal_ok :: "stack_alloc \<Rightarrow> bool" where
  "mal_ok mal \<longleftrightarrow> (\<forall>bl n. finite (dom bl) \<longrightarrow>
     fst (mal bl n) \<noteq> 0 \<and> bl (fst (mal bl n)) = None \<and> int (length (snd (mal bl n))) = max 0 n)"

definition block_len :: "('f, 'k, 'z) schedule_scheme \<Rightarrow> int \<Rightarrow> int \<Rightarrow> bool" where
  "block_len w p n \<longleftrightarrow> (\<exists>b. blocks w p = Some b \<and> int (length b) = n)"

text \<open>
  \<open>S\<close> are the addresses of the coroutines, \<open>N\<close> is the size of the two shared stacks: every
  coroutine owns at most one block, the blocks are live, have the recorded size and are
  different from each other and from the shared stacks.
\<close>

definition stacks_core :: "int \<Rightarrow> int set \<Rightarrow> ('f, 'k, 'z) schedule_scheme \<Rightarrow> bool" where
  "stacks_core N S w \<longleftrightarrow>
     allocfunc w \<and> freefunc w \<and> finite (dom (blocks w)) \<and> N < 2147483648 \<and>
     firststackmaxsize w = N \<and> secondstackmaxsize w = N \<and> firststack w \<noteq> secondstack w \<and>
     block_len w (firststack w) N \<and> block_len w (secondstack w) N \<and>
     (\<forall>a \<in> S. 0 \<le> stackmaxsize (cos w a) \<and>
        (if stack (cos w a) = 0 then stackmaxsize (cos w a) = 0
         else block_len w (stack (cos w a)) (stackmaxsize (cos w a)) \<and>
              stack (cos w a) \<noteq> firststack w \<and> stack (cos w a) \<noteq> secondstack w)) \<and>
     (\<forall>a \<in> S. \<forall>b \<in> S. a \<noteq> b \<longrightarrow> stack (cos w a) \<noteq> 0 \<longrightarrow> stack (cos w a) \<noteq> stack (cos w b))"

definition stopped_ok :: "int \<Rightarrow> ('f, 'k, 'z) schedule_scheme \<Rightarrow> int \<Rightarrow> bool" where
  "stopped_ok N w a \<longleftrightarrow> stack (cos w a) \<noteq> 0 \<and> 0 \<le> stacksize (cos w a) \<and>
     stacksize (cos w a) \<le> stackmaxsize (cos w a) \<and> stacksize (cos w a) \<le> N"

definition saved :: "('f, 'k, 'z) schedule_scheme \<Rightarrow> int \<Rightarrow> byte list" where
  "saved w a = (case blocks w (stack (cos w a)) of
     Some b \<Rightarrow> take (nat (stacksize (cos w a))) b | None \<Rightarrow> [])"

text \<open>The bytes in use at the upper end of the stack of a coroutine.\<close>

definition stack_top :: "('f, 'k, 'z) schedule_scheme \<Rightarrow> int \<Rightarrow> int \<Rightarrow> byte list" where
  "stack_top w a n = (case blocks w (get_runningstack (cos w a) w) of
     Some b \<Rightarrow> drop (length b - nat n) b | None \<Rightarrow> [])"

lemma running_block:
  assumes "stacks_core N S w"
  obtains b where "blocks w (get_runningstack (cos w a) w) = Some b" "int (length b) = N"
    "get_runningstacksize (cos w a) w = N"
proof -
  have "block_len w (firststack w) N" "block_len w (secondstack w) N"
      "firststackmaxsize w = N" "secondstackmaxsize w = N"
    using assms unfolding stacks_core_def by blast+
  then show thesis using that unfolding block_len_def get_runningstack_def get_runningstacksize_def
    by (cases "usesecondstack (cos w a)") auto
qed

lemma own_block:
  assumes "stacks_core N S w" "a \<in> S" "stack (cos w a) \<noteq> 0"
  obtains b where "blocks w (stack (cos w a)) = Some b" "int (length b) = stackmaxsize (cos w a)"
    "stack (cos w a) \<noteq> get_runningstack (cos w c) w"
proof -
  have "if stack (cos w a) = 0 then stackmaxsize (cos w a) = 0
      else block_len w (stack (cos w a)) (stackmaxsize (cos w a)) \<and>
           stack (cos w a) \<noteq> firststack w \<and> stack (cos w a) \<noteq> secondstack w"
    using assms(1,2) unfolding stacks_core_def by blast
  then have "block_len w (stack (cos w a)) (stackmaxsize (cos w a))"
      "stack (cos w a) \<noteq> get_runningstack (cos w c) w"
    using assms(3) by (simp_all add: get_runningstack_def)
  then show thesis using that unfolding block_len_def by blast
qed

lemma saved_length: "stacks_core N S w \<Longrightarrow> a \<in> S \<Longrightarrow> stopped_ok N w a \<Longrightarrow>
    int (length (saved w a)) = stacksize (cos w a)"
  by (rule own_block [of N S w a]) (auto simp: saved_def stopped_ok_def)

lemma stacks_core_cong:
  assumes "stacks_core N S w"
    and "allocfunc w' = allocfunc w" "freefunc w' = freefunc w" "firststackmaxsize w' = firststackmaxsize w"
      "secondstackmaxsize w' = secondstackmaxsize w" "firststack w' = firststack w" "secondstack w' = secondstack w"
      "blocks w' = blocks w"
    and "\<And>a. a \<in> S \<Longrightarrow> stack (cos w' a) = stack (cos w a)"
      "\<And>a. a \<in> S \<Longrightarrow> stackmaxsize (cos w' a) = stackmaxsize (cos w a)"
  shows "stacks_core N S w'"
  using assms unfolding stacks_core_def block_len_def by simp

text \<open>Overwriting a block by one of the same length keeps the shape.\<close>

lemma stacks_core_write:
  assumes "stacks_core N S w" and "blocks w p = Some b" "length b' = length b"
  shows "stacks_core N S (w \<lparr> blocks := (blocks w)(p \<mapsto> b') \<rparr>)"
proof -
  have "block_len (w \<lparr> blocks := (blocks w)(p \<mapsto> b') \<rparr>) q n = block_len w q n" for q n
    using assms(2,3) by (auto simp: block_len_def)
  then show ?thesis using assms(1) by (simp add: stacks_core_def)
qed

lemma poke_ok:
  assumes c: "stacks_core N S w" and d: "int (length bs) \<le> N" and r: "pRunCo w = Some a" "isDynamicStack w"
  shows "\<exists>bl. poke bs w = Some (w \<lparr> blocks := bl \<rparr>) \<and> stacks_core N S (w \<lparr> blocks := bl \<rparr>) \<and>
    (\<forall>x \<in> S. stack (cos w x) \<noteq> 0 \<longrightarrow> bl (stack (cos w x)) = blocks w (stack (cos w x))) \<and>
    stack_top (w \<lparr> blocks := bl \<rparr>) a (int (length bs)) = bs"
proof -
  obtain b where b: "blocks w (get_runningstack (cos w a) w) = Some b" "int (length b) = N"
    "get_runningstacksize (cos w a) w = N" using running_block [OF c, of a] .
  let ?b = "take (length b - length bs) b @ bs"
  let ?w = "w \<lparr> blocks := (blocks w)(get_runningstack (cos w a) w \<mapsto> ?b) \<rparr>"
  have lb: "length bs \<le> length b" using d b(2) by linarith
  have "mem_write b (N - int (length bs)) bs = Some ?b"
    using lb b(2) mem_write_nat [of "length b - length bs" bs b] by (auto simp: of_nat_diff)
  then have p: "poke bs w = Some ?w" using r b by (simp add: poke_def)
  have core: "stacks_core N S ?w" using stacks_core_write [OF c b(1)] lb by simp
  have "(blocks ?w) (stack (cos w x)) = blocks w (stack (cos w x))" if "x \<in> S" "stack (cos w x) \<noteq> 0" for x
    using own_block [OF c that] by auto
  moreover have "get_runningstack (cos w a) ?w = get_runningstack (cos w a) w"
    by (simp add: get_runningstack_def)
  then have "stack_top ?w a (int (length bs)) = bs" using lb by (simp add: stack_top_def)
  ultimately show ?thesis using p core by auto
qed

text \<open>Restoring writes the saved bytes back to the upper end of the stack and changes nothing else.\<close>

lemma restore_ok:
  assumes c: "stacks_core N S w" and a: "a \<in> S" and s: "stopped_ok N w a"
  shows "\<exists>bl. restore_stack a w = Some (w \<lparr> blocks := bl \<rparr>) \<and> stacks_core N S (w \<lparr> blocks := bl \<rparr>) \<and>
    (\<forall>x \<in> S. stack (cos w x) \<noteq> 0 \<longrightarrow> bl (stack (cos w x)) = blocks w (stack (cos w x))) \<and>
    (\<exists>st. bl (get_runningstack (cos w a) w) = Some st \<and>
      mem_read st (get_runningstacksize (cos w a) w - stacksize (cos w a)) (stacksize (cos w a)) = Some (saved w a))"
proof -
  have nz: "stack (cos w a) \<noteq> 0" using s by (simp add: stopped_ok_def)
  obtain b where b: "blocks w (get_runningstack (cos w a) w) = Some b" "int (length b) = N"
    "get_runningstacksize (cos w a) w = N" using running_block [OF c, of a] .
  obtain o1 where o1: "blocks w (stack (cos w a)) = Some o1" "int (length o1) = stackmaxsize (cos w a)"
    using own_block [OF c a nz] by metis
  obtain n where n: "stacksize (cos w a) = int n" using s by (metis stopped_ok_def nonneg_int_cases)
  have le: "n \<le> length o1" "n \<le> length b" using s n o1(2) b(2) by (auto simp: stopped_ok_def)
  have sv: "saved w a = take n o1" using o1(1) n by (simp add: saved_def)
  have rd: "mem_read o1 0 (int n) = Some (take n o1)" using mem_read_nat [of 0 n o1] le by simp
  let ?b = "take (length b - n) b @ take n o1"
  have "mem_write b (int (length b - n)) (take n o1) = Some ?b"
    using le by (subst mem_write_nat) auto
  moreover have off: "N - int n = int (length b - n)" using b(2) le by linarith
  ultimately have wr: "mem_write b (N - int n) (take n o1) = Some ?b" by simp
  let ?w = "w \<lparr> blocks := (blocks w)(get_runningstack (cos w a) w \<mapsto> ?b) \<rparr>"
  have eq: "restore_stack a w = Some ?w" using o1(1) b rd wr n by (simp add: restore_stack_def)
  have core: "stacks_core N S ?w" using stacks_core_write [OF c b(1)] le by simp
  have oth: "(blocks ?w) (stack (cos w x)) = blocks w (stack (cos w x))" if "x \<in> S" "stack (cos w x) \<noteq> 0" for x
    using own_block [OF c that] by auto
  have "mem_read ?b (int (length b - n)) (int n) = Some (take n o1)"
    using le by (subst mem_read_nat) auto
  then have "mem_read ?b (get_runningstacksize (cos w a) w - stacksize (cos w a)) (stacksize (cos w a)) = Some (saved w a)"
    unfolding b(3) n off sv .
  with eq core oth show ?thesis by auto
qed

definition set_stack :: "int \<Rightarrow> int \<Rightarrow> int \<Rightarrow> (int \<Rightarrow> byte list option) \<Rightarrow> ('f, 'k, 'z) schedule_scheme \<Rightarrow>
    ('f, 'k, 'z) schedule_scheme" where
  "set_stack a p m bl w = w \<lparr> blocks := bl, cos := (cos w)(a := (cos w a) \<lparr> stackmaxsize := m, stack := p \<rparr>) \<rparr>"

text \<open>A new block for the stack of one coroutine, in place of its old one.\<close>

lemma stacks_core_new_block:
  assumes c: "stacks_core N S w" and a: "a \<in> S" and p: "p \<noteq> 0" "int (length b) = m" "0 \<le> m"
    and fresh: "p = stack (cos w a) \<or> blocks w p = None"
    and old: "bl = (if stack (cos w a) = 0 then blocks w else (blocks w)(stack (cos w a) := None))"
  shows "stacks_core N S (set_stack a p m (bl(p \<mapsto> b)) w)" (is ?core)
    and "x \<in> S \<Longrightarrow> x \<noteq> a \<Longrightarrow> stack (cos w x) \<noteq> 0 \<Longrightarrow> stack (cos w x) \<noteq> p \<and>
      (bl(p \<mapsto> b)) (stack (cos w x)) = blocks w (stack (cos w x))"
    and "get_runningstack (cos w a) w \<noteq> p"
      "(bl(p \<mapsto> b)) (get_runningstack (cos w a) w) = blocks w (get_runningstack (cos w a) w)"
proof -
  have live: "blocks w q \<noteq> None \<Longrightarrow> q \<noteq> stack (cos w a) \<Longrightarrow> q \<noteq> p \<and> (bl(p \<mapsto> b)) q = blocks w q" for q
    using fresh by (auto simp: old)
  have shared: "blocks w (firststack w) \<noteq> None" "blocks w (secondstack w) \<noteq> None"
      "firststack w \<noteq> stack (cos w a)" "secondstack w \<noteq> stack (cos w a)" if "stack (cos w a) \<noteq> 0"
    using c a that unfolding stacks_core_def block_len_def by (fastforce split: if_splits)+
  have shared0: "blocks w (firststack w) \<noteq> None" "blocks w (secondstack w) \<noteq> None"
    using c unfolding stacks_core_def block_len_def by auto
  have sh: "q \<noteq> p \<and> (bl(p \<mapsto> b)) q = blocks w q" if q: "q = firststack w \<or> q = secondstack w" for q
  proof (cases "stack (cos w a) = 0")
    case True
    have "q \<noteq> p" using shared0 q fresh p(1) True by auto
    with True show ?thesis by (simp add: old)
  next
    case False
    show ?thesis using q live [OF shared(1) [OF False] shared(3) [OF False]]
        live [OF shared(2) [OF False] shared(4) [OF False]] by metis
  qed
  show oth: "stack (cos w x) \<noteq> p \<and> (bl(p \<mapsto> b)) (stack (cos w x)) = blocks w (stack (cos w x))"
    if x: "x \<in> S" "x \<noteq> a" "stack (cos w x) \<noteq> 0" for x
  proof -
    have "stack (cos w x) \<noteq> stack (cos w a)" using c x a unfolding stacks_core_def by blast
    moreover have "blocks w (stack (cos w x)) \<noteq> None" using own_block [OF c x(1,3)] by auto
    ultimately show ?thesis by (metis live)
  qed
  show "get_runningstack (cos w a) w \<noteq> p"
      "(bl(p \<mapsto> b)) (get_runningstack (cos w a) w) = blocks w (get_runningstack (cos w a) w)"
    using sh [of "get_runningstack (cos w a) w"] by (auto simp: get_runningstack_def)
  let ?w = "set_stack a p m (bl(p \<mapsto> b)) w"
  have fin: "finite (dom (bl(p \<mapsto> b)))" using c by (simp add: stacks_core_def old)
  have flds: "blocks ?w = bl(p \<mapsto> b)" "firststack ?w = firststack w" "secondstack ?w = secondstack w"
      "stack (cos ?w a) = p" "stackmaxsize (cos ?w a) = m"
      "x \<noteq> a \<Longrightarrow> cos ?w x = cos w x" for x
    by (simp_all add: set_stack_def)
  have bl: "block_len ?w q n = block_len w q n" if "(bl(p \<mapsto> b)) q = blocks w q" for q n
    unfolding block_len_def flds that ..
  have "block_len ?w (firststack w) N" "block_len ?w (secondstack w) N"
    using c bl [of "firststack w"] bl [of "secondstack w"] sh unfolding stacks_core_def by blast+
  moreover have "0 \<le> stackmaxsize (cos ?w x) \<and>
        (if stack (cos ?w x) = 0 then stackmaxsize (cos ?w x) = 0
         else block_len ?w (stack (cos ?w x)) (stackmaxsize (cos ?w x)) \<and>
              stack (cos ?w x) \<noteq> firststack ?w \<and> stack (cos ?w x) \<noteq> secondstack ?w)" if x: "x \<in> S" for x
  proof (cases "x = a")
    case True
    then show ?thesis using p sh [of "firststack w"] sh [of "secondstack w"]
      by (auto simp: flds block_len_def)
  next
    case False
    have "stack (cos w x) \<noteq> 0 \<Longrightarrow> (bl(p \<mapsto> b)) (stack (cos w x)) = blocks w (stack (cos w x))"
      using oth [OF x False] by blast
    with bl have "stack (cos w x) \<noteq> 0 \<Longrightarrow> block_len ?w (stack (cos w x)) n = block_len w (stack (cos w x)) n" for n
      by blast
    then show ?thesis using c x False unfolding stacks_core_def flds(2,3) flds(6) [OF False] by auto
  qed
  moreover have "stack (cos ?w x) \<noteq> stack (cos ?w y)"
    if "x \<in> S" "y \<in> S" "x \<noteq> y" "stack (cos ?w x) \<noteq> 0" for x y
  proof -
    have "x \<noteq> a \<Longrightarrow> y \<noteq> a \<Longrightarrow> ?thesis" using c that unfolding stacks_core_def by (simp add: flds)
    moreover have "x = a \<Longrightarrow> ?thesis" using that oth [of y] p(1) by (cases "stack (cos w y) = 0") (auto simp: flds)
    moreover have "y = a \<Longrightarrow> ?thesis" using that oth [of x] by (auto simp: flds)
    ultimately show ?thesis by blast
  qed
  moreover have "allocfunc ?w" "freefunc ?w" "firststackmaxsize ?w = N" "secondstackmaxsize ?w = N"
      "firststack ?w \<noteq> secondstack ?w" "N < 2147483648"
    using c by (simp_all add: stacks_core_def set_stack_def)
  ultimately show ?core using fin unfolding stacks_core_def flds(1,2,3) by blast
qed

lemma save_room:
  assumes mal: "mal_ok mal" and c: "stacks_core N S w" and a: "a \<in> S" and n: "1 \<le> n"
  shows "\<exists>bl p m b. stack_room mal n a w = Some (set_stack a p m bl w) \<and>
    stacks_core N S (set_stack a p m bl w) \<and> p \<noteq> 0 \<and> n \<le> m \<and> bl p = Some b \<and> int (length b) = m \<and>
    get_runningstack (cos w a) w \<noteq> p \<and>
    bl (get_runningstack (cos w a) w) = blocks w (get_runningstack (cos w a) w) \<and>
    (\<forall>x \<in> S. x \<noteq> a \<longrightarrow> stack (cos w x) \<noteq> 0 \<longrightarrow> stack (cos w x) \<noteq> p \<and> bl (stack (cos w x)) = blocks w (stack (cos w x)))"
proof (cases "stackmaxsize (cos w a) < n")
  case True
  define bl where "bl = (if stack (cos w a) = 0 then blocks w else (blocks w)(stack (cos w a) := None))"
  obtain p b where pb: "mal bl n = (p, b)" by (cases "mal bl n")
  have fin: "finite (dom bl)" using c by (simp add: stacks_core_def bl_def)
  have af: "allocfunc w" "freefunc w" using c by (simp_all add: stacks_core_def)
  have p: "p \<noteq> 0" "bl p = None" "int (length b) = n" using mal [unfolded mal_ok_def, rule_format, OF fin, of n] n pb by auto
  have fresh: "p = stack (cos w a) \<or> blocks w p = None" using p(2) by (auto simp: bl_def split: if_splits)
  have fr: "co_free (stack (cos w a)) w = Some (w \<lparr> blocks := bl \<rparr>)"
    using own_block [OF c a] af(2) by (fastforce simp: co_free_def bl_def)
  have st: "stack_room mal n a w = Some (set_stack a p n (bl(p \<mapsto> b)) w)"
    unfolding stack_room_def fr using True af(1) p(1) pb
    by (simp add: co_alloc_def upd_co_def set_stack_def)
  have "0 \<le> n" using n by simp
  note nb = stacks_core_new_block [OF c a p(1,3) this fresh bl_def]
  have "\<forall>x \<in> S. x \<noteq> a \<longrightarrow> stack (cos w x) \<noteq> 0 \<longrightarrow> stack (cos w x) \<noteq> p \<and> (bl(p \<mapsto> b)) (stack (cos w x)) = blocks w (stack (cos w x))"
    using nb(2) by blast
  moreover have "n \<le> n" "(bl(p \<mapsto> b)) p = Some b" by simp_all
  ultimately show ?thesis using st nb(1,3,4) p(1,3) by blast
next
  case False
  then have nz: "stack (cos w a) \<noteq> 0" using c a n unfolding stacks_core_def by (metis dual_order.strict_trans1 not_less zero_less_one)
  obtain b where b: "blocks w (stack (cos w a)) = Some b" "int (length b) = stackmaxsize (cos w a)"
    "stack (cos w a) \<noteq> get_runningstack (cos w a) w" using own_block [OF c a nz] by metis
  have "set_stack a (stack (cos w a)) (stackmaxsize (cos w a)) (blocks w) w = w"
    by (simp add: set_stack_def)
  moreover have "stack_room mal n a w = Some w" using False by (simp add: stack_room_def)
  moreover have "x \<in> S \<Longrightarrow> x \<noteq> a \<Longrightarrow> stack (cos w x) \<noteq> 0 \<Longrightarrow> stack (cos w x) \<noteq> stack (cos w a)" for x
    using c a unfolding stacks_core_def by blast
  ultimately show ?thesis using False b c nz
    by (intro exI [of _ "blocks w"] exI [of _ "stack (cos w a)"] exI [of _ "stackmaxsize (cos w a)"] exI [of _ b])
      auto
qed

definition stopped :: "int \<Rightarrow> byte list \<Rightarrow> int \<Rightarrow> int \<Rightarrow> (int \<Rightarrow> byte list option) \<Rightarrow> ('f, 'k, 'z) schedule_scheme \<Rightarrow>
    ('f, 'k, 'z) schedule_scheme" where
  "stopped a bs p m bl w = w \<lparr>
     cos := (cos w)(a := (cos w a) \<lparr> stackmaxsize := m, stack := p, stacksize := int (length bs) \<rparr>),
     blocks := bl \<rparr>"

text \<open>Saving copies the bytes in use to a block of the coroutine and touches no other coroutine.\<close>

lemma save_ok:
  assumes mal: "mal_ok mal" and c: "stacks_core N S w" and a: "a \<in> S"
    and bs: "bs \<noteq> []" "int (length bs) \<le> N" "stack_top w a (int (length bs)) = bs"
  shows "\<exists>bl p m. save_stack mal (get_runningstack (cos w a) w + get_runningstacksize (cos w a) w - int (length bs)) a w
      = Some (stopped a bs p m bl w) \<and> stacks_core N S (stopped a bs p m bl w) \<and>
    stopped_ok N (stopped a bs p m bl w) a \<and> saved (stopped a bs p m bl w) a = bs \<and>
    (\<forall>x \<in> S. x \<noteq> a \<longrightarrow> stack (cos w x) \<noteq> 0 \<longrightarrow> bl (stack (cos w x)) = blocks w (stack (cos w x)))"
proof -
  obtain r where r: "blocks w (get_runningstack (cos w a) w) = Some r" "int (length r) = N"
    "get_runningstacksize (cos w a) w = N" using running_block [OF c, of a] .
  have n1: "1 \<le> int (length bs)" using bs(1) by (cases bs) auto
  have N: "N < 2147483648" using c by (simp add: stacks_core_def)
  have sz: "s32 (get_runningstack (cos w a) w + N - (get_runningstack (cos w a) w + N - int (length bs))) = int (length bs)"
    using bs(2) N by (simp add: s32_id)
  obtain bl p m b where room: "stack_room mal (int (length bs)) a w = Some (set_stack a p m bl w)"
    and core: "stacks_core N S (set_stack a p m bl w)" and p: "p \<noteq> 0" "int (length bs) \<le> m" "bl p = Some b"
      "int (length b) = m" "get_runningstack (cos w a) w \<noteq> p"
      "bl (get_runningstack (cos w a) w) = blocks w (get_runningstack (cos w a) w)"
    and oth: "\<forall>x \<in> S. x \<noteq> a \<longrightarrow> stack (cos w x) \<noteq> 0 \<longrightarrow> stack (cos w x) \<noteq> p \<and> bl (stack (cos w x)) = blocks w (stack (cos w x))"
    using save_room [OF mal c a n1] by blast
  have "drop (length r - length bs) r = bs" using bs(3) r(1) by (simp add: stack_top_def)
  moreover have off: "N - int (length bs) = int (length r - length bs)" using bs(2) r(2) by linarith
  ultimately have rd: "mem_read r (N - int (length bs)) (int (length bs)) = Some bs"
    using mem_read_nat [of "length r - length bs" "length bs" r] bs(2) r(2) by simp
  let ?b = "bs @ drop (length bs) b"
  have wr: "mem_write b 0 bs = Some ?b" using p(2,4) mem_write_nat [of 0 bs b] by simp
  let ?w = "stopped a bs p m (bl(p \<mapsto> ?b)) w"
  have sp: "get_runningstack (cos w a) w + N - int (length bs) - get_runningstack (cos w a) w = N - int (length bs)"
    by simp
  have eq: "save_stack mal (get_runningstack (cos w a) w + get_runningstacksize (cos w a) w - int (length bs)) a w = Some ?w"
    unfolding save_stack_def Let_def r(3) sz sp
    using room p r(1) rd wr by (simp add: upd_co_def set_stack_def stopped_def Let_def)
  have "stacks_core N S ((set_stack a p m bl w) \<lparr> blocks := (blocks (set_stack a p m bl w))(p \<mapsto> ?b) \<rparr>)"
    using stacks_core_write [OF core, of p b] p by (simp add: set_stack_def)
  then have core': "stacks_core N S ?w"
    by (rule stacks_core_cong) (simp_all add: stopped_def set_stack_def)
  have "stopped_ok N ?w a" "saved ?w a = bs" using p bs by (simp_all add: stopped_ok_def stopped_def saved_def)
  moreover have "\<forall>x \<in> S. x \<noteq> a \<longrightarrow> stack (cos w x) \<noteq> 0 \<longrightarrow>
      (bl(p \<mapsto> ?b)) (stack (cos w x)) = blocks w (stack (cos w x))"
    using oth by auto
  ultimately show ?thesis using eq core' by blast
qed

section \<open>Simulation\<close>

primrec run_chain :: "(int \<Rightarrow> ('f, 'k) coroutine) \<Rightarrow> int option \<Rightarrow> int list \<Rightarrow> bool" where
  "run_chain h p [] \<longleftrightarrow> p = None"
| "run_chain h p (a # cs) \<longleftrightarrow> p = Some a \<and> run_chain h (parent (h a)) cs"

definition frame_of :: "('f, 'k, 'z) schedule_scheme \<Rightarrow> int \<Rightarrow> byte list" where
  "frame_of w a = (if isDynamicStack w then saved w a else [])"

fun caller_conts :: "('f, 'k, 'z) schedule_scheme \<Rightarrow> int list \<Rightarrow> ('k option \<times> byte list) list" where
  "caller_conts w [] = []"
| "caller_conts w (a # cs) = map (\<lambda>c. (uc_cont (cos w c), frame_of w c)) cs @ [(sch_cont w, [])]"

definition parked_at :: "'k \<Rightarrow> ('f, 'k, 'z) schedule_scheme \<Rightarrow> int \<Rightarrow> ('k \<times> byte list) option" where
  "parked_at entry w b =
     (if status (cos w b) = CO_STATE_READY then Some (entry, [])
      else if status (cos w b) = CO_STATE_SUSPEND then map_option (\<lambda>k. (k, frame_of w b)) (uc_cont (cos w b))
      else None)"

definition chain_ok :: "int set \<Rightarrow> ('f, 'k, 'z) schedule_scheme \<Rightarrow> int list \<Rightarrow> bool" where
  "chain_ok S w cs \<longleftrightarrow> run_chain (cos w) (pRunCo w) cs \<and> distinct cs \<and> set cs \<subseteq> S \<and>
     (case cs of [] \<Rightarrow> True | a # ds \<Rightarrow> status (cos w a) = CO_STATE_RUN \<and>
        (\<forall>c \<in> set ds. status (cos w c) = CO_STATE_SUSPEND))"

definition stacks_ok :: "int \<Rightarrow> int set \<Rightarrow> ('f, 'k, 'z) schedule_scheme \<Rightarrow> bool" where
  "stacks_ok N S w \<longleftrightarrow>
     (\<forall>b \<in> S. status (cos w b) = CO_STATE_READY \<longrightarrow> stacksize (cos w b) = 0) \<and>
     (isDynamicStack w \<longrightarrow> stacks_core N S w \<and>
        (\<forall>b \<in> S. status (cos w b) = CO_STATE_SUSPEND \<longrightarrow> stopped_ok N w b))"

definition co_rel :: "bool \<Rightarrow> 'k \<Rightarrow> int \<Rightarrow> int set \<Rightarrow> ('f, 'k, 'z) schedule_scheme \<Rightarrow> 'k ctl \<Rightarrow> bool" where
  "co_rel dyn entry N S w s \<longleftrightarrow>
     isDynamicStack w = dyn \<and> chain_ok S w (chain s) \<and>
     map (\<lambda>(k, bs). (Some k, bs)) (callers s) = caller_conts w (chain s) \<and>
     parked s = (\<lambda>b. if b \<in> S \<and> b \<notin> set (chain s) then parked_at entry w b else None) \<and>
     stacks_ok N S w"

lemma run_chain_cong: "(\<And>a. a \<in> set cs \<Longrightarrow> parent (h' a) = parent (h a)) \<Longrightarrow> run_chain h' p cs = run_chain h p cs"
  by (induction cs arbitrary: p) auto

lemma chain_ok_cong:
  assumes "\<And>a. a \<in> S \<Longrightarrow> parent (cos w' a) = parent (cos w a)" "\<And>a. a \<in> S \<Longrightarrow> status (cos w' a) = status (cos w a)"
    and "pRunCo w' = pRunCo w" and "chain_ok S w cs"
  shows "chain_ok S w' cs"
proof -
  have p: "run_chain (cos w') (pRunCo w') cs = run_chain (cos w) (pRunCo w) cs"
    using assms(1,3,4) run_chain_cong [of cs "cos w'" "cos w"] by (auto simp: chain_ok_def)
  show ?thesis
  proof (cases cs)
    case Nil
    with p assms(4) show ?thesis by (simp add: chain_ok_def)
  next
    case (Cons a ds)
    have "status (cos w' c) = status (cos w c)" if "c \<in> set cs" for c using assms(2,4) that by (auto simp: chain_ok_def)
    with p assms(4) Cons show ?thesis by (simp add: chain_ok_def)
  qed
qed

lemma map_inj_callers: "map (\<lambda>(k, bs). (Some k, bs)) xs = (x, y) # ys \<longleftrightarrow>
    (\<exists>k zs. xs = (k, y) # zs \<and> x = Some k \<and> map (\<lambda>(k, bs). (Some k, bs)) zs = ys)"
  by (cases xs) auto

text \<open>Only the saved bytes of stopped coroutines matter to the relation.\<close>

lemma co_rel_blocks:
  assumes r: "co_rel dyn entry N S w s"
    and f: "isDynamicStack w' = isDynamicStack w" "pRunCo w' = pRunCo w" "sch_cont w' = sch_cont w"
      "\<And>a. a \<in> S \<Longrightarrow> parent (cos w' a) = parent (cos w a)" "\<And>a. a \<in> S \<Longrightarrow> status (cos w' a) = status (cos w a)"
      "\<And>a. a \<in> S \<Longrightarrow> uc_cont (cos w' a) = uc_cont (cos w a)"
    and s: "\<And>a. a \<in> S \<Longrightarrow> status (cos w a) = CO_STATE_SUSPEND \<Longrightarrow> dyn \<Longrightarrow> saved w' a = saved w a"
    and ok: "stacks_ok N S w'"
  shows "co_rel dyn entry N S w' s"
proof -
  have fr: "frame_of w' a = frame_of w a" if "a \<in> S" "status (cos w a) = CO_STATE_SUSPEND" for a
    using s [OF that] f(1) r by (simp add: frame_of_def co_rel_def)
  have c: "chain_ok S w (chain s)" using r by (simp add: co_rel_def)
  have "caller_conts w' (chain s) = caller_conts w (chain s)"
    using c f(3,6) fr by (cases "chain s") (auto simp: chain_ok_def)
  moreover have "parked_at entry w' b = parked_at entry w b" if "b \<in> S" for b
    using f(5,6) [OF that] fr [OF that] by (simp add: parked_at_def)
  moreover have "chain_ok S w' (chain s)" using chain_ok_cong [OF f(4,5,2) c] by blast
  ultimately show ?thesis using r f(1) ok by (auto simp: co_rel_def)
qed

lemma saved_cong: "blocks w' (stack (cos w' a)) = blocks w (stack (cos w a)) \<Longrightarrow>
    stacksize (cos w' a) = stacksize (cos w a) \<Longrightarrow> saved w' a = saved w a"
  by (simp add: saved_def split: option.split)

lemma co_relD:
  assumes "co_rel dyn entry N S w s"
  shows "isDynamicStack w = dyn" "chain_ok S w (chain s)" "stacks_ok N S w"
    "map (\<lambda>(k, bs). (Some k, bs)) (callers s) = caller_conts w (chain s)"
    "parked s b = (if b \<in> S \<and> b \<notin> set (chain s) then parked_at entry w b else None)"
  using assms by (simp_all add: co_rel_def)

lemma poke_rel:
  assumes r: "co_rel dyn entry N S w s" and bs: "int (length bs) \<le> N"
  shows "\<exists>bl. poke bs w = Some (w \<lparr> blocks := bl \<rparr>) \<and> co_rel dyn entry N S (w \<lparr> blocks := bl \<rparr>) s \<and>
    (\<forall>a. pRunCo w = Some a \<longrightarrow> dyn \<longrightarrow> stack_top (w \<lparr> blocks := bl \<rparr>) a (int (length bs)) = bs)"
proof (cases "dyn \<and> pRunCo w \<noteq> None")
  case False
  then have "poke bs w = Some (w \<lparr> blocks := blocks w \<rparr>)"
    using co_relD(1) [OF r] by (cases "pRunCo w") (auto simp: poke_def)
  moreover have "co_rel dyn entry N S (w \<lparr> blocks := blocks w \<rparr>) s" using r by simp
  ultimately show ?thesis using False by blast
next
  case True
  then obtain a where a: "pRunCo w = Some a" by auto
  have d: "isDynamicStack w" using True co_relD(1) [OF r] by simp
  have core: "stacks_core N S w" using co_relD(3) [OF r] d by (simp add: stacks_ok_def)
  from poke_ok [OF core bs a d] obtain bl where bl: "poke bs w = Some (w \<lparr> blocks := bl \<rparr>)"
    "stacks_core N S (w \<lparr> blocks := bl \<rparr>)"
    "\<forall>x \<in> S. stack (cos w x) \<noteq> 0 \<longrightarrow> bl (stack (cos w x)) = blocks w (stack (cos w x))"
    "stack_top (w \<lparr> blocks := bl \<rparr>) a (int (length bs)) = bs" by blast
  have st: "stacks_ok N S (w \<lparr> blocks := bl \<rparr>)"
    using co_relD(3) [OF r] bl(2) by (simp add: stacks_ok_def stopped_ok_def)
  have "saved (w \<lparr> blocks := bl \<rparr>) x = saved w x" if "x \<in> S" "status (cos w x) = CO_STATE_SUSPEND" for x
    using bl(3) that co_relD(3) [OF r] d by (intro saved_cong) (simp_all add: stacks_ok_def stopped_ok_def)
  then have "co_rel dyn entry N S (w \<lparr> blocks := bl \<rparr>) s" by (intro co_rel_blocks [OF r] st) simp_all
  with bl a show ?thesis by auto
qed

text \<open>The running coroutine may save its stack at any time.\<close>

lemma save_rel:
  assumes mal: "mal_ok mal" and r: "co_rel True entry N S w s" and a: "chain s = a # cs"
    and bs: "bs \<noteq> []" "int (length bs) \<le> N" "stack_top w a (int (length bs)) = bs"
  shows "\<exists>w'. save_stack mal (stack_pos bs w) a w = Some w' \<and> co_rel True entry N S w' s \<and> stopped_ok N w' a \<and>
    saved w' a = bs \<and> pRunCo w' = pRunCo w \<and> sch_cont w' = sch_cont w \<and>
    (\<forall>b. parent (cos w' b) = parent (cos w b) \<and> status (cos w' b) = status (cos w b) \<and> uc_cont (cos w' b) = uc_cont (cos w b)
       \<and> usesecondstack (cos w' b) = usesecondstack (cos w b))"
proof -
  have run: "pRunCo w = Some a" "a \<in> S" "status (cos w a) = CO_STATE_RUN"
    using co_relD(2) [OF r] a by (auto simp: chain_ok_def)
  have d: "isDynamicStack w" using co_relD(1) [OF r] by simp
  have core: "stacks_core N S w" using co_relD(3) [OF r] d by (simp add: stacks_ok_def)
  from save_ok [OF mal core run(2) bs] obtain bl p m where sv:
    "save_stack mal (get_runningstack (cos w a) w + get_runningstacksize (cos w a) w - int (length bs)) a w
      = Some (stopped a bs p m bl w)" "stacks_core N S (stopped a bs p m bl w)"
    "stopped_ok N (stopped a bs p m bl w) a" "saved (stopped a bs p m bl w) a = bs"
    "\<forall>x \<in> S. x \<noteq> a \<longrightarrow> stack (cos w x) \<noteq> 0 \<longrightarrow> bl (stack (cos w x)) = blocks w (stack (cos w x))" by blast
  let ?w = "stopped a bs p m bl w"
  have f: "isDynamicStack ?w = isDynamicStack w" "pRunCo ?w = pRunCo w" "sch_cont ?w = sch_cont w"
    "parent (cos ?w b) = parent (cos w b)" "status (cos ?w b) = status (cos w b)" "uc_cont (cos ?w b) = uc_cont (cos w b)"
    "usesecondstack (cos ?w b) = usesecondstack (cos w b)" "b \<noteq> a \<Longrightarrow> cos ?w b = cos w b" for b
    by (simp_all add: stopped_def)
  have n: "status (cos w b) = CO_STATE_SUSPEND \<Longrightarrow> b \<noteq> a" "status (cos w b) = CO_STATE_READY \<Longrightarrow> b \<noteq> a" for b
    using run(3) by (auto simp: co_states)
  have st: "stacks_ok N S ?w" using co_relD(3) [OF r] sv(2) n f unfolding stacks_ok_def stopped_ok_def by metis
  have "saved ?w x = saved w x" if "x \<in> S" "status (cos w x) = CO_STATE_SUSPEND" for x
    using sv(5) that n(1) [OF that(2)] co_relD(3) [OF r] d
    by (intro saved_cong) (simp_all add: stacks_ok_def stopped_ok_def stopped_def)
  then have "co_rel True entry N S ?w s" by (intro co_rel_blocks [OF r] st f)
  moreover have "save_stack mal (stack_pos bs w) a w = Some ?w" using sv(1) run(1) by (simp add: stack_pos_def)
  ultimately show ?thesis using sv(3,4) f by blast
qed

lemma upd_co_sel [simp]:
  "cos (upd_co a f w) = (cos w)(a := f (cos w a))" "isDynamicStack (upd_co a f w) = isDynamicStack w"
  "pRunCo (upd_co a f w) = pRunCo w" "sch_cont (upd_co a f w) = sch_cont w" "blocks (upd_co a f w) = blocks w"
  "allocfunc (upd_co a f w) = allocfunc w" "freefunc (upd_co a f w) = freefunc w"
  "firststack (upd_co a f w) = firststack w" "secondstack (upd_co a f w) = secondstack w"
  "firststackmaxsize (upd_co a f w) = firststackmaxsize w" "secondstackmaxsize (upd_co a f w) = secondstackmaxsize w"
  by (simp_all add: upd_co_def)

text \<open>
  A stopped coroutine \<open>a\<close> gets its stack back. The shape of the stacks is stated for a state
  that differs from the current one in the control part only.
\<close>

lemma wake_ok:
  assumes ok: "isDynamicStack w \<Longrightarrow> stacks_core N S w" "isDynamicStack w \<Longrightarrow> stopped_ok N w a" and a: "a \<in> S"
    and p: "pRunCo w = Some a"
  shows "\<exists>bl. (if isDynamicStack w then restore_stack a w else Some w) = Some (w \<lparr> blocks := bl \<rparr>) \<and>
    (isDynamicStack w \<longrightarrow> stacks_core N S (w \<lparr> blocks := bl \<rparr>)) \<and>
    (\<forall>x \<in> S. isDynamicStack w \<longrightarrow> stack (cos w x) \<noteq> 0 \<longrightarrow> bl (stack (cos w x)) = blocks w (stack (cos w x))) \<and>
    peek (w \<lparr> blocks := bl \<rparr>) = Some (frame_of w a)"
proof (cases "isDynamicStack w")
  case False
  with p show ?thesis by (intro exI [of _ "blocks w"]) (simp add: peek_def frame_of_def)
next
  case True
  from restore_ok [OF ok(1) a ok(2)] True obtain bl st where bl:
    "restore_stack a w = Some (w \<lparr> blocks := bl \<rparr>)" "stacks_core N S (w \<lparr> blocks := bl \<rparr>)"
    "\<forall>x \<in> S. stack (cos w x) \<noteq> 0 \<longrightarrow> bl (stack (cos w x)) = blocks w (stack (cos w x))"
    "bl (get_runningstack (cos w a) w) = Some st"
    "mem_read st (get_runningstacksize (cos w a) w - stacksize (cos w a)) (stacksize (cos w a)) = Some (saved w a)" by blast
  have "peek (w \<lparr> blocks := bl \<rparr>) = Some (saved w a)"
    using p bl(4,5) True by (cases "usesecondstack (cos w a)")
      (simp_all add: peek_def get_runningstack_def get_runningstacksize_def)
  with bl True show ?thesis by (auto simp: frame_of_def)
qed

definition leave :: "int \<Rightarrow> (int \<Rightarrow> ('f, 'k) coroutine \<Rightarrow> ('f, 'k) coroutine) \<Rightarrow> 'k \<Rightarrow> int \<Rightarrow> ('f, 'k, 'z) schedule_scheme \<Rightarrow>
    ((int + 'k) \<times> ('f, 'k, 'z) schedule_scheme) fault" where
  "leave st lnk k a w = (
     let w = upd_co a (\<lambda>c. c \<lparr> status := st \<rparr>) w;
         w = w \<lparr> pRunCo := parent (cos w a) \<rparr>
     in case parent (cos w a) of
          Some awake \<Rightarrow> do {
            let w = upd_co a (\<lambda>c. (lnk awake c) \<lparr> parent := None \<rparr>) w;
            let w = upd_co awake (\<lambda>c. c \<lparr> status := CO_STATE_RUN \<rparr>) w;
            w \<leftarrow> (if isDynamicStack w then restore_stack awake w else Some w);
            co_swapcontext k (CoCtx a) (CoCtx awake) w
          }
        | None \<Rightarrow> co_swapcontext k (CoCtx a) SchCtx w)"

lemma process_end_leave: "process_end k a w = leave CO_STATE_END (\<lambda>q c. c \<lparr> uc_link := CoCtx q \<rparr>) k a w"
  by (simp add: process_end_def leave_def)

lemma upd_co_commute: "a \<noteq> b \<Longrightarrow> upd_co a f (upd_co b g w) = upd_co b g (upd_co a f w)"
  by (simp add: upd_co_def fun_upd_twist)

lemma co_yield_leave:
  assumes "pRunCo w = Some a" and "(if isDynamicStack w then save_stack mal sp a w else Some w) = Some w'"
    and "parent (cos w' a) \<noteq> Some a"
  shows "co_yield mal sp k w = leave CO_STATE_SUSPEND (\<lambda>_ c. c) k a w'"
  using assms(3) unfolding co_yield_def leave_def assms(1) option.case assms(2) Option.bind.simps Let_def
  by (auto simp: upd_co_commute split: option.split)

text \<open>The relation after the running coroutine \<open>a\<close> has left with the status \<open>st\<close>.\<close>

lemma leave_rel:
  assumes r: "co_rel dyn entry N S w s" and a: "chain s = a # cs" and ks: "callers s = x # ks"
    and st: "st = CO_STATE_END \<and> park = None \<or>
      st = CO_STATE_SUSPEND \<and> (dyn \<longrightarrow> stopped_ok N w a) \<and> park = Some (k, frame_of w a)"
    and f: "isDynamicStack w' = isDynamicStack w" "pRunCo w' = parent (cos w a)" "sch_cont w' = sch_cont w"
      "\<And>b. b \<noteq> a \<Longrightarrow> parent (cos w' b) = parent (cos w b)"
      "\<And>b. status (cos w' b) = (if b = a then st else if parent (cos w a) = Some b then CO_STATE_RUN else status (cos w b))"
      "\<And>b. uc_cont (cos w' b) = (if b = a then Some k else uc_cont (cos w b))"
      "\<And>b. stack (cos w' b) = stack (cos w b)" "\<And>b. stackmaxsize (cos w' b) = stackmaxsize (cos w b)"
      "\<And>b. stacksize (cos w' b) = stacksize (cos w b)"
    and core: "dyn \<Longrightarrow> stacks_core N S w'"
    and bl: "\<And>x. dyn \<Longrightarrow> x \<in> S \<Longrightarrow> stack (cos w x) \<noteq> 0 \<Longrightarrow> blocks w' (stack (cos w x)) = blocks w (stack (cos w x))"
  shows "co_rel dyn entry N S w' \<lparr> chain = cs, callers = ks, parked = (parked s)(a := park) \<rparr>"
proof -
  have c: "run_chain (cos w) (parent (cos w a)) cs" "a \<notin> set cs" "distinct cs" "set cs \<subseteq> S" "a \<in> S"
      "status (cos w a) = CO_STATE_RUN" "\<And>b. b \<in> set cs \<Longrightarrow> status (cos w b) = CO_STATE_SUSPEND"
    using co_relD(2) [OF r] a by (auto simp: chain_ok_def)
  have d: "isDynamicStack w = dyn" using co_relD(1) [OF r] .
  have ok: "stacks_ok N S w" using co_relD(3) [OF r] .
  have so: "dyn \<Longrightarrow> b \<in> S \<Longrightarrow> status (cos w b) = CO_STATE_SUSPEND \<or> st = CO_STATE_SUSPEND \<and> b = a \<Longrightarrow> stopped_ok N w b" for b
    using ok st d by (auto simp: stacks_ok_def co_states)
  have fr: "frame_of w' b = frame_of w b"
    if "b \<in> S" "status (cos w b) = CO_STATE_SUSPEND \<or> st = CO_STATE_SUSPEND \<and> b = a" for b
    using so [OF _ that] bl [OF _ that(1)] f(7,9) d f(1) unfolding frame_of_def stopped_ok_def
    by (auto intro!: saved_cong)
  have par: "parent (cos w a) = Some b \<Longrightarrow> b \<in> set cs" for b using c(1) by (cases cs) auto
  have "run_chain (cos w') (parent (cos w a)) cs" using c(1,2) f(4) run_chain_cong [of cs "cos w'" "cos w"] by metis
  then have ch: "chain_ok S w' cs"
    using c f(2,5) by (cases cs) (auto simp: chain_ok_def)
  have "caller_conts w (chain s) = (uc_cont (cos w q), frame_of w q) # caller_conts w cs" if "cs = q # ds" for q ds
    using a that by simp
  moreover have "caller_conts w' cs = caller_conts w cs"
    using f(3,6) c(2,4,7) fr by (cases cs) auto
  ultimately have cl: "map (\<lambda>(k, bs). (Some k, bs)) ks = caller_conts w' cs"
    using co_relD(4) [OF r] ks a by (cases cs) (auto split: prod.splits)
  have "parked_at entry w' b = parked_at entry w b" if "b \<in> S" "b \<noteq> a" "b \<notin> set cs" for b
    using f(5,6) that par fr [OF that(1)] by (auto simp: parked_at_def co_states)
  moreover have "parked_at entry w' a = park"
    using f(5,6) st fr [OF c(5)] by (auto simp: parked_at_def co_states)
  ultimately have pk: "(parked s)(a := park) = (\<lambda>b. if b \<in> S \<and> b \<notin> set cs then parked_at entry w' b else None)"
    using co_relD(5) [OF r] c(2,5) a by (auto simp: fun_eq_iff)
  have "stacks_ok N S w'"
    using ok core so st d f(1,5) par c unfolding stacks_ok_def stopped_ok_def f(7,8,9)
    by (auto simp: co_states split: if_splits)
  with ch cl pk d f(1) show ?thesis by (simp add: co_rel_def)
qed

text \<open>The running coroutine leaves: its caller goes on and finds its stack as it left it.\<close>

lemma leave_ok:
  assumes r: "co_rel dyn entry N S w s" and a: "chain s = a # cs"
    and st: "st = CO_STATE_END \<and> park = None \<or>
      st = CO_STATE_SUSPEND \<and> (dyn \<longrightarrow> stopped_ok N w a) \<and> park = Some (k, frame_of w a)"
    and l: "\<And>q c. parent (lnk q c) = parent c" "\<And>q c. status (lnk q c) = status c" "\<And>q c. uc_cont (lnk q c) = uc_cont c"
      "\<And>q c. stack (lnk q c) = stack c" "\<And>q c. stackmaxsize (lnk q c) = stackmaxsize c"
      "\<And>q c. stacksize (lnk q c) = stacksize c"
  shows "\<exists>o1 w' s'. ctl_return park s = Some (o1, s') \<and> observe (leave st lnk k a w) = Some (o1, w') \<and> co_rel dyn entry N S w' s'"
proof (cases cs)
  case Nil
  have c: "pRunCo w = Some a" "parent (cos w a) = None" "a \<in> S" using co_relD(2) [OF r] a Nil by (auto simp: chain_ok_def)
  obtain k0 where k0: "callers s = [(k0, [])]" "sch_cont w = Some k0"
    using co_relD(4) [OF r] a Nil by (auto simp: map_inj_callers)
  let ?s = "\<lparr> chain = [], callers = [], parked = (parked s)(a := park) \<rparr>"
  let ?w = "upd_co a (\<lambda>c. c \<lparr> uc_cont := Some k \<rparr>) ((upd_co a (\<lambda>c. c \<lparr> status := st \<rparr>) w) \<lparr> pRunCo := None \<rparr>)"
  have "leave st lnk k a w = Some (Inr k0, ?w)" using c k0(2) by (simp add: leave_def co_swapcontext_def)
  moreover have "peek ?w = Some []" by (simp add: peek_def)
  ultimately have "observe (leave st lnk k a w) = Some ((Inr k0, []), ?w)" by (simp add: observe_def)
  moreover have "ctl_return park s = Some ((Inr k0, []), ?s)" using a Nil k0 by (simp add: ctl_return_def)
  moreover have "co_rel dyn entry N S ?w ?s"
    by (rule leave_rel [OF r a [unfolded Nil] k0(1) st])
      (use c co_relD(1,3) [OF r] in \<open>auto simp: stacks_ok_def intro: stacks_core_cong\<close>)
  ultimately show ?thesis by blast
next
  case (Cons q ds)
  have c: "pRunCo w = Some a" "parent (cos w a) = Some q" "a \<in> S" "q \<in> S" "q \<noteq> a" "status (cos w q) = CO_STATE_SUSPEND"
    using co_relD(2) [OF r] a Cons by (auto simp: chain_ok_def)
  have d: "isDynamicStack w = dyn" using co_relD(1) [OF r] .
  obtain k0 ks where k0: "callers s = (k0, frame_of w q) # ks" "uc_cont (cos w q) = Some k0"
    using co_relD(4) [OF r] a Cons by (auto simp: map_inj_callers)
  let ?s = "\<lparr> chain = cs, callers = ks, parked = (parked s)(a := park) \<rparr>"
  let ?v = "upd_co q (\<lambda>c. c \<lparr> status := CO_STATE_RUN \<rparr>) (upd_co a (\<lambda>c. (lnk q c) \<lparr> parent := None \<rparr>)
    ((upd_co a (\<lambda>c. c \<lparr> status := st \<rparr>) w) \<lparr> pRunCo := Some q \<rparr>))"
  have flds: "stack (cos ?v b) = stack (cos w b)" "stackmaxsize (cos ?v b) = stackmaxsize (cos w b)"
      "stacksize (cos ?v b) = stacksize (cos w b)" for b using l c(5) by auto
  have core: "isDynamicStack ?v \<Longrightarrow> stacks_core N S ?v"
    by (rule stacks_core_cong [of N S w]) (use co_relD(3) [OF r] d flds in \<open>simp_all add: stacks_ok_def\<close>)
  have so: "isDynamicStack ?v \<Longrightarrow> stopped_ok N ?v q"
    using co_relD(3) [OF r] c(4,6) unfolding stopped_ok_def flds by (simp add: stacks_ok_def stopped_ok_def)
  have "saved ?v q = saved w q" by (rule saved_cong, unfold flds) simp_all
  then have "frame_of ?v q = frame_of w q" by (simp add: frame_of_def)
  with wake_ok [OF core so c(4)] obtain bl where bl:
    "(if isDynamicStack ?v then restore_stack q ?v else Some ?v) = Some (?v \<lparr> blocks := bl \<rparr>)"
    "isDynamicStack ?v \<longrightarrow> stacks_core N S (?v \<lparr> blocks := bl \<rparr>)"
    "\<forall>x \<in> S. isDynamicStack ?v \<longrightarrow> stack (cos ?v x) \<noteq> 0 \<longrightarrow> bl (stack (cos ?v x)) = blocks ?v (stack (cos ?v x))"
    "peek (?v \<lparr> blocks := bl \<rparr>) = Some (frame_of w q)" by auto
  let ?w = "upd_co a (\<lambda>c. c \<lparr> uc_cont := Some k \<rparr>) (?v \<lparr> blocks := bl \<rparr>)"
  have u: "uc_cont (cos ?w q) = Some k0" using k0(2) c(5) by simp
  have sw: "co_swapcontext k (CoCtx a) (CoCtx q) (?v \<lparr> blocks := bl \<rparr>) = Some (Inr k0, ?w)"
    unfolding co_swapcontext_def ctx_save.simps ctx_load.simps Let_def u by simp
  have pa: "parent (cos (upd_co a (\<lambda>c. c \<lparr> status := st \<rparr>) w) a) = Some q"
      "parent (cos ((upd_co a (\<lambda>c. c \<lparr> status := st \<rparr>) w) \<lparr> pRunCo := Some q \<rparr>) a) = Some q"
    using c(2) by simp_all
  have "leave st lnk k a w = Some (Inr k0, ?w)"
    unfolding leave_def Let_def pa option.case bl(1) Option.bind.simps sw ..
  moreover have "peek ?w = peek (?v \<lparr> blocks := bl \<rparr>)" using c(5)
    by (simp add: peek_def get_runningstack_def get_runningstacksize_def)
  ultimately have "observe (leave st lnk k a w) = Some ((Inr k0, frame_of w q), ?w)" using bl(4) by (simp add: observe_def)
  moreover have "ctl_return park s = Some ((Inr k0, frame_of w q), ?s)" using a k0 by (simp add: ctl_return_def)
  moreover have "co_rel dyn entry N S ?w ?s"
    by (rule leave_rel [OF r a k0(1) st])
      (use c d bl(2,3) flds l in \<open>auto intro: stacks_core_cong\<close>)
  ultimately show ?thesis by blast
qed

text \<open>The relation after the coroutine \<open>a\<close> has been entered.\<close>

lemma enter_rel:
  assumes r: "co_rel dyn entry N S w s" and a: "parked s a = Some x"
    and f: "isDynamicStack w' = isDynamicStack w" "pRunCo w' = Some a"
      "\<And>b. parent (cos w' b) = (if b = a then pRunCo w else parent (cos w b))"
      "\<And>b. status (cos w' b) = (if b = a then CO_STATE_RUN else if pRunCo w = Some b then CO_STATE_SUSPEND else status (cos w b))"
      "\<And>b. b \<noteq> a \<Longrightarrow> uc_cont (cos w' b) = (if pRunCo w = Some b then Some k else uc_cont (cos w b))"
      "sch_cont w' = (if pRunCo w = None then Some k else sch_cont w)"
    and ok: "stacks_ok N S w'"
    and fr: "\<And>b. b \<in> S \<Longrightarrow> b \<noteq> a \<Longrightarrow> status (cos w b) = CO_STATE_SUSPEND \<Longrightarrow> frame_of w' b = frame_of w b"
      "\<And>q. pRunCo w = Some q \<Longrightarrow> frame_of w' q = fr0"
  shows "co_rel dyn entry N S w' \<lparr> chain = a # chain s, callers = (k, if chain s \<noteq> [] then fr0 else []) # callers s,
    parked = (parked s)(a := None) \<rparr>"
proof -
  have a': "a \<in> S" "a \<notin> set (chain s)" using co_relD(5) [OF r, of a] a by (auto split: if_splits)
  note c = co_relD(2) [OF r]
  have "run_chain (cos w') (pRunCo w) (chain s)"
    using c a'(2) f(3) run_chain_cong [of "chain s" "cos w'" "cos w"] by (metis chain_ok_def)
  then have ch: "chain_ok S w' (a # chain s)"
    using c a' f by (cases "chain s") (auto simp: chain_ok_def)
  have "caller_conts w' (a # chain s) = (Some k, if chain s \<noteq> [] then fr0 else []) # caller_conts w (chain s)"
  proof (cases "chain s")
    case Nil
    then show ?thesis using c f(6) by (simp add: chain_ok_def)
  next
    case (Cons q ds)
    have q: "pRunCo w = Some q" "q \<noteq> a" "q \<notin> set ds" "\<And>d. d \<in> set ds \<Longrightarrow> d \<noteq> a \<and> d \<noteq> q \<and> d \<in> S \<and> status (cos w d) = CO_STATE_SUSPEND"
      using c Cons a'(2) by (auto simp: chain_ok_def)
    then show ?thesis using Cons f(5,6) fr by simp
  qed
  then have cl: "map (\<lambda>(k, bs). (Some k, bs)) ((k, if chain s \<noteq> [] then fr0 else []) # callers s) = caller_conts w' (a # chain s)"
    using co_relD(4) [OF r] by simp
  have run: "pRunCo w = Some b \<Longrightarrow> b \<in> set (chain s)" for b using c by (cases "chain s") (auto simp: chain_ok_def)
  have "parked_at entry w' b = parked_at entry w b" if "b \<in> S" "b \<noteq> a" "b \<notin> set (chain s)" for b
    using f(4,5) that run fr(1) [OF that(1,2)] by (auto simp: parked_at_def)
  then have pk: "(parked s)(a := None) = (\<lambda>b. if b \<in> S \<and> b \<notin> set (a # chain s) then parked_at entry w' b else None)"
    using co_relD(5) [OF r] by (auto simp: fun_eq_iff)
  show ?thesis unfolding co_rel_def
    using co_relD(1) [OF r] ch cl pk ok f(1) by simp
qed

text \<open>The running coroutine stops in favour of the coroutine \<open>a\<close>.\<close>

lemma pause_ok:
  assumes mal: "mal_ok mal" and r: "co_rel dyn entry N S w s" and a: "a \<in> S" "a \<notin> set (chain s)"
    and bs: "bs \<noteq> []" "int (length bs) \<le> N" "\<And>q. pRunCo w = Some q \<Longrightarrow> dyn \<Longrightarrow> stack_top w q (int (length bs)) = bs"
  shows "\<exists>w'. pause_running mal (stack_pos bs w) a (upd_co a (\<lambda>c. c \<lparr> parent := None \<rparr>) w) = Some w' \<and>
    isDynamicStack w' = isDynamicStack w \<and> pRunCo w' = pRunCo w \<and> sch_cont w' = sch_cont w \<and>
    (\<forall>b. parent (cos w' b) = (if b = a then pRunCo w else parent (cos w b))) \<and>
    (\<forall>b. status (cos w' b) = (if pRunCo w = Some b then CO_STATE_SUSPEND else status (cos w b))) \<and>
    (\<forall>b. uc_cont (cos w' b) = uc_cont (cos w b)) \<and> stacks_ok N S w' \<and>
    (\<forall>b \<in> S. status (cos w b) = CO_STATE_SUSPEND \<longrightarrow> frame_of w' b = frame_of w b) \<and>
    (\<forall>q. pRunCo w = Some q \<longrightarrow> frame_of w' q = (if dyn then bs else []))"
proof (cases "pRunCo w")
  case None
  let ?w = "upd_co a (\<lambda>c. c \<lparr> parent := None \<rparr>) w"
  have "stacks_ok N S ?w" using co_relD(3) [OF r]
    by (auto simp: stacks_ok_def stopped_ok_def intro: stacks_core_cong)
  moreover have "frame_of ?w b = frame_of w b" for b by (auto simp: frame_of_def intro!: saved_cong)
  ultimately show ?thesis using None by (simp add: pause_running_def)
next
  case (Some q)
  have q: "q \<in> S" "q \<noteq> a" "status (cos w q) = CO_STATE_RUN"
    using co_relD(2) [OF r] a(2) Some by (cases "chain s"; auto simp: chain_ok_def)+
  let ?v = "upd_co q (\<lambda>c. c \<lparr> status := CO_STATE_SUSPEND \<rparr>) (upd_co a (\<lambda>c. c \<lparr> parent := Some q \<rparr>)
    (upd_co a (\<lambda>c. c \<lparr> parent := None \<rparr>) w))"
  have flds: "stack (cos ?v b) = stack (cos w b)" "stackmaxsize (cos ?v b) = stackmaxsize (cos w b)"
      "stacksize (cos ?v b) = stacksize (cos w b)" "usesecondstack (cos ?v b) = usesecondstack (cos w b)"
      "uc_cont (cos ?v b) = uc_cont (cos w b)" for b by auto
  have ctl: "parent (cos ?v b) = (if b = a then pRunCo w else parent (cos w b))"
      "status (cos ?v b) = (if pRunCo w = Some b then CO_STATE_SUSPEND else status (cos w b))" for b
    using Some q(2) by auto
  have eq: "pause_running mal (stack_pos bs w) a (upd_co a (\<lambda>c. c \<lparr> parent := None \<rparr>) w) =
      (if isDynamicStack w then save_stack mal (stack_pos bs w) q ?v else Some ?v)"
    using Some by (simp add: pause_running_def)
  note ok = co_relD(3) [OF r]
  have sv: "saved ?v b = saved w b" for b by (rule saved_cong, unfold flds) simp_all
  show ?thesis
  proof (cases dyn)
    case False
    with co_relD(1) [OF r] have d: "\<not> isDynamicStack w" by simp
    have "stacks_ok N S ?v" using ok d q ctl(2) unfolding stacks_ok_def flds by (auto simp: co_states)
    then show ?thesis unfolding eq using d Some False ctl flds
      by (intro exI [of _ ?v]) (simp add: frame_of_def)
  next
    case True
    with co_relD(1) [OF r] have d: "isDynamicStack w" by simp
    have core: "stacks_core N S ?v"
      by (rule stacks_core_cong [of N S w]) (use ok d in \<open>simp_all add: stacks_ok_def\<close>)
    have gr: "get_runningstack (cos ?v q) ?v = get_runningstack (cos w q) w"
        "get_runningstacksize (cos ?v q) ?v = get_runningstacksize (cos w q) w"
      unfolding get_runningstack_def get_runningstacksize_def flds by simp_all
    have "stack_top ?v q (int (length bs)) = bs"
      using bs(3) [OF Some True] unfolding stack_top_def gr by simp
    from save_ok [OF mal core q(1) bs(1,2) this] obtain bl p m where w':
      "save_stack mal (get_runningstack (cos ?v q) ?v + get_runningstacksize (cos ?v q) ?v - int (length bs)) q ?v
        = Some (stopped q bs p m bl ?v)" "stacks_core N S (stopped q bs p m bl ?v)"
      "stopped_ok N (stopped q bs p m bl ?v) q" "saved (stopped q bs p m bl ?v) q = bs"
      "\<forall>x \<in> S. x \<noteq> q \<longrightarrow> stack (cos ?v x) \<noteq> 0 \<longrightarrow> bl (stack (cos ?v x)) = blocks ?v (stack (cos ?v x))" by blast
    let ?w = "stopped q bs p m bl ?v"
    have g: "isDynamicStack ?w = isDynamicStack w" "pRunCo ?w = pRunCo w" "sch_cont ?w = sch_cont w"
        "parent (cos ?w b) = parent (cos ?v b)" "status (cos ?w b) = status (cos ?v b)"
        "uc_cont (cos ?w b) = uc_cont (cos ?v b)" "b \<noteq> q \<Longrightarrow> stack (cos ?w b) = stack (cos ?v b)"
        "b \<noteq> q \<Longrightarrow> stackmaxsize (cos ?w b) = stackmaxsize (cos ?v b)" "b \<noteq> q \<Longrightarrow> stacksize (cos ?w b) = stacksize (cos ?v b)"
        "blocks ?w = bl" for b
      by (simp_all add: stopped_def)
    have so: "stopped_ok N w b" if "b \<in> S" "status (cos w b) = CO_STATE_SUSPEND" for b
      using ok d that by (simp add: stacks_ok_def)
    have nq: "b \<noteq> q" if "status (cos w b) = CO_STATE_SUSPEND" for b using that q(3) by (auto simp: co_states)
    have fr: "frame_of ?w b = frame_of w b" if b: "b \<in> S" "status (cos w b) = CO_STATE_SUSPEND" for b
    proof -
      have "saved ?w b = saved ?v b"
        by (rule saved_cong) (use g(7,9) [OF nq [OF b(2)]] w'(5) b(1) nq [OF b(2)] so [OF b] flds(1) in
          \<open>auto simp: stopped_ok_def g(10)\<close>)
      with sv g(1) show ?thesis by (simp add: frame_of_def)
    qed
    have "stopped_ok N ?w b" if "b \<in> S" "status (cos ?w b) = CO_STATE_SUSPEND" for b
    proof (cases "b = q")
      case False
      then have "status (cos w b) = CO_STATE_SUSPEND" using that(2) Some unfolding g(5) ctl(2) by simp
      from so [OF that(1) this] show ?thesis unfolding stopped_ok_def g(7,8,9) [OF False] flds .
    qed (simp add: w'(3))
    moreover have "stacksize (cos ?w b) = 0" if "b \<in> S" "status (cos ?w b) = CO_STATE_READY" for b
    proof -
      have "b \<noteq> q" "status (cos w b) = CO_STATE_READY"
        using that(2) Some unfolding g(5) ctl(2) by (auto simp: co_states split: if_splits)
      then show ?thesis using ok that(1) unfolding g(9) [OF \<open>b \<noteq> q\<close>] flds stacks_ok_def by blast
    qed
    ultimately have "stacks_ok N S ?w" using w'(2) unfolding stacks_ok_def by blast
    moreover have "stack_pos bs w = get_runningstack (cos ?v q) ?v + get_runningstacksize (cos ?v q) ?v - int (length bs)"
      using Some unfolding gr by (simp add: stack_pos_def)
    then have "pause_running mal (stack_pos bs w) a (upd_co a (\<lambda>c. c \<lparr> parent := None \<rparr>) w) = Some ?w"
      unfolding eq using d w'(1) by simp
    moreover have "frame_of ?w q = bs" using w'(4) d g(1) by (simp add: frame_of_def)
    moreover have "\<forall>b. parent (cos ?w b) = (if b = a then pRunCo w else parent (cos w b))"
        "\<forall>b. status (cos ?w b) = (if pRunCo w = Some b then CO_STATE_SUSPEND else status (cos w b))"
        "\<forall>b. uc_cont (cos ?w b) = uc_cont (cos w b)"
      unfolding g(4,5,6) ctl flds(5) by blast+
    ultimately show ?thesis using g(1,2,3) fr Some True by (intro exI [of _ ?w]) simp
  qed
qed

lemma ctx_save_sel [simp]:
  "isDynamicStack (ctx_save c k w) = isDynamicStack w" "pRunCo (ctx_save c k w) = pRunCo w"
  "blocks (ctx_save c k w) = blocks w"
  "parent (cos (ctx_save c k w) b) = parent (cos w b)" "status (cos (ctx_save c k w) b) = status (cos w b)"
  "stack (cos (ctx_save c k w) b) = stack (cos w b)" "stackmaxsize (cos (ctx_save c k w) b) = stackmaxsize (cos w b)"
  "stacksize (cos (ctx_save c k w) b) = stacksize (cos w b)"
  "usesecondstack (cos (ctx_save c k w) b) = usesecondstack (cos w b)"
  "allocfunc (ctx_save c k w) = allocfunc w" "freefunc (ctx_save c k w) = freefunc w"
  "firststack (ctx_save c k w) = firststack w" "secondstack (ctx_save c k w) = secondstack w"
  "firststackmaxsize (ctx_save c k w) = firststackmaxsize w"
  "secondstackmaxsize (ctx_save c k w) = secondstackmaxsize w"
  by (cases c; simp)+

lemma ctx_save_cont: "uc_cont (cos (ctx_save c k w) b) = (if c = CoCtx b then Some k else uc_cont (cos w b))"
  "sch_cont (ctx_save c k w) = (if c = SchCtx then Some k else sch_cont w)"
  by (cases c; simp)+

lemma ctx_save_stacks: "stacks_ok N S w \<Longrightarrow> stacks_ok N S (ctx_save c k w)"
  by (auto simp: stacks_ok_def stopped_ok_def intro: stacks_core_cong)

lemma frame_cong: "isDynamicStack w' = isDynamicStack w \<Longrightarrow>
    (isDynamicStack w \<Longrightarrow> blocks w' (stack (cos w' a)) = blocks w (stack (cos w a))) \<Longrightarrow>
    stacksize (cos w' a) = stacksize (cos w a) \<Longrightarrow> frame_of w' a = frame_of w a"
  by (auto simp: frame_of_def intro: saved_cong)

lemma peek_cong: "pRunCo w' = pRunCo w \<Longrightarrow> isDynamicStack w' = isDynamicStack w \<Longrightarrow> blocks w' = blocks w \<Longrightarrow>
    firststack w' = firststack w \<Longrightarrow> secondstack w' = secondstack w \<Longrightarrow>
    firststackmaxsize w' = firststackmaxsize w \<Longrightarrow> secondstackmaxsize w' = secondstackmaxsize w \<Longrightarrow>
    (\<And>a. stacksize (cos w' a) = stacksize (cos w a)) \<Longrightarrow>
    (\<And>a. usesecondstack (cos w' a) = usesecondstack (cos w a)) \<Longrightarrow> peek w' = peek w"
  unfolding peek_def get_runningstack_def get_runningstacksize_def by (simp add: Let_def split: option.split)

text \<open>The last step of both branches: a state in which \<open>a\<close> runs, its stack in place.\<close>

lemma enter_swap:
  assumes r: "co_rel dyn entry N S w s" and a: "parked s a = Some x"
    and f: "isDynamicStack v = isDynamicStack w" "pRunCo v = Some a" "sch_cont v = sch_cont w"
      "\<And>b. parent (cos v b) = (if b = a then pRunCo w else parent (cos w b))"
      "\<And>b. status (cos v b) = (if b = a then CO_STATE_RUN else if pRunCo w = Some b then CO_STATE_SUSPEND else status (cos w b))"
      "\<And>b. b \<noteq> a \<Longrightarrow> uc_cont (cos v b) = uc_cont (cos w b)" "uc_cont (cos v a) = Some k'"
    and ok: "stacks_ok N S v"
    and fr: "\<And>b. b \<in> S \<Longrightarrow> b \<noteq> a \<Longrightarrow> status (cos w b) = CO_STATE_SUSPEND \<Longrightarrow> frame_of v b = frame_of w b"
      "\<And>q. pRunCo w = Some q \<Longrightarrow> frame_of v q = fr0"
    and pk: "peek v = Some bs'"
  shows "\<exists>w'. observe (co_swapcontext k (parent_ctx a v) (CoCtx a) v) = Some ((Inr k', bs'), w') \<and>
    co_rel dyn entry N S w' \<lparr> chain = a # chain s, callers = (k, if chain s \<noteq> [] then fr0 else []) # callers s,
      parked = (parked s)(a := None) \<rparr>"
proof -
  let ?w = "ctx_save (parent_ctx a v) k v"
  have a': "a \<in> S" "a \<notin> set (chain s)" using co_relD(5) [OF r, of a] a by (auto split: if_splits)
  have pc: "parent_ctx a v = (case pRunCo w of Some q \<Rightarrow> CoCtx q | None \<Rightarrow> SchCtx)"
    using f(4) [of a] by (simp add: parent_ctx_def)
  have "pRunCo w \<noteq> Some a" using co_relD(2) [OF r] a' by (cases "chain s") (auto simp: chain_ok_def)
  then have na: "parent_ctx a v \<noteq> CoCtx a" by (auto simp: pc split: option.splits)
  have "uc_cont (cos ?w a) = Some k'" using na f(7) by (simp add: ctx_save_cont)
  then have "co_swapcontext k (parent_ctx a v) (CoCtx a) v = Some (Inr k', ?w)" by (simp add: co_swapcontext_def)
  moreover have "peek ?w = peek v" by (rule peek_cong) simp_all
  ultimately have "observe (co_swapcontext k (parent_ctx a v) (CoCtx a) v) = Some ((Inr k', bs'), ?w)"
    using pk by (simp add: observe_def)
  moreover have fw: "frame_of ?w b = frame_of v b" for b by (rule frame_cong) simp_all
  have "co_rel dyn entry N S ?w \<lparr> chain = a # chain s, callers = (k, if chain s \<noteq> [] then fr0 else []) # callers s,
      parked = (parked s)(a := None) \<rparr>"
  proof (rule enter_rel [OF r a])
    show "uc_cont (cos ?w b) = (if pRunCo w = Some b then Some k else uc_cont (cos w b))" if "b \<noteq> a" for b
      using f(6) [OF that] by (auto simp: ctx_save_cont pc split: option.splits)
    show "sch_cont ?w = (if pRunCo w = None then Some k else sch_cont w)"
      by (simp add: ctx_save_cont pc f(3) split: option.splits)
  qed (use f ok fr in \<open>simp_all add: fw ctx_save_stacks\<close>)
  ultimately show ?thesis by blast
qed

lemma resume_ok:
  assumes mal: "mal_ok mal" and r: "co_rel dyn entry N S w s" and a: "parked s a = Some (k', bs')"
    and bs: "bs \<noteq> []" "int (length bs) \<le> N" "\<And>q. pRunCo w = Some q \<Longrightarrow> dyn \<Longrightarrow> stack_top w q (int (length bs)) = bs"
  shows "\<exists>w'. observe (co_resume entry mal (stack_pos bs w) k (Some a) w) = Some ((Inr k', bs'), w') \<and>
    co_rel dyn entry N S w' \<lparr> chain = a # chain s, callers = (k, if chain s \<noteq> [] then if dyn then bs else [] else []) # callers s,
      parked = (parked s)(a := None) \<rparr>"
proof -
  have a': "a \<in> S" "a \<notin> set (chain s)" "parked_at entry w a = Some (k', bs')"
    using co_relD(5) [OF r, of a] a by (auto split: if_splits)
  have na: "pRunCo w \<noteq> Some a" using co_relD(2) [OF r] a' by (cases "chain s") (auto simp: chain_ok_def)
  obtain v where v: "pause_running mal (stack_pos bs w) a (upd_co a (\<lambda>c. c \<lparr> parent := None \<rparr>) w) = Some v"
    and f: "isDynamicStack v = isDynamicStack w" "pRunCo v = pRunCo w" "sch_cont v = sch_cont w"
    "\<And>b. parent (cos v b) = (if b = a then pRunCo w else parent (cos w b))"
    "\<And>b. status (cos v b) = (if pRunCo w = Some b then CO_STATE_SUSPEND else status (cos w b))"
    "\<And>b. uc_cont (cos v b) = uc_cont (cos w b)" and ok: "stacks_ok N S v"
    and fr: "\<And>b. b \<in> S \<Longrightarrow> status (cos w b) = CO_STATE_SUSPEND \<Longrightarrow> frame_of v b = frame_of w b"
    "\<And>q. pRunCo w = Some q \<Longrightarrow> frame_of v q = (if dyn then bs else [])"
    using pause_ok [OF mal r a'(1,2) bs] by blast
  let ?u = "upd_co a (\<lambda>c. c \<lparr> status := CO_STATE_RUN \<rparr>) (v \<lparr> pRunCo := Some a \<rparr>)"
  have st: "status (cos (v \<lparr> pRunCo := Some a \<rparr>) a) = status (cos w a)" using f(5) na by simp
  have so: "stacks_ok N S ?u" using ok
    by (auto simp: stacks_ok_def stopped_ok_def co_states intro: stacks_core_cong)
  have fu: "frame_of ?u b = frame_of v b" for b by (rule frame_cong) auto
  show ?thesis
  proof (cases "status (cos w a) = CO_STATE_READY")
    case True
    have kb: "k' = entry" "bs' = []" using a'(3) True by (simp_all add: parked_at_def)
    have sz: "stacksize (cos v a) = 0" using ok a'(1) True f(5) [of a] na by (simp add: stacks_ok_def)
    define second where "second = (case parent (cos ?u a) of Some q \<Rightarrow> \<not> usesecondstack (cos ?u q) | None \<Rightarrow> False)"
    define t where "t = upd_co a (\<lambda>c. c \<lparr> uc_cont := Some entry \<rparr>) (if isDynamicStack ?u then set_dynamic_stack a second ?u else ?u)"
    have g: "isDynamicStack t = isDynamicStack w" "pRunCo t = Some a" "sch_cont t = sch_cont w" "blocks t = blocks v"
        "stack (cos t b) = stack (cos v b)" "stackmaxsize (cos t b) = stackmaxsize (cos v b)"
        "stacksize (cos t b) = stacksize (cos v b)" "parent (cos t b) = parent (cos v b)"
        "status (cos t b) = status (cos ?u b)" "b \<noteq> a \<Longrightarrow> uc_cont (cos t b) = uc_cont (cos v b)"
        "uc_cont (cos t a) = Some entry" "allocfunc t = allocfunc ?u" "freefunc t = freefunc ?u"
        "firststack t = firststack ?u" "secondstack t = secondstack ?u" "firststackmaxsize t = firststackmaxsize ?u"
        "secondstackmaxsize t = secondstackmaxsize ?u" for b
      unfolding t_def using f by (auto simp: set_dynamic_stack_def)
    have eq: "co_resume entry mal (stack_pos bs w) k (Some a) w = co_swapcontext k (parent_ctx a t) (CoCtx a) t"
      unfolding co_resume_def option.case Let_def v Option.bind.simps if_P [OF st [unfolded True]] t_def second_def ..
    have core: "isDynamicStack t \<Longrightarrow> stacks_core N S t"
      by (rule stacks_core_cong [of N S ?u]) (use so f g in \<open>auto simp: stacks_ok_def\<close>)
    have ok': "stacks_ok N S t" using so core g(1) f(1) unfolding stacks_ok_def stopped_ok_def g(5,6,7,9) by auto
    have "peek t = Some []"
    proof (cases "isDynamicStack t")
      case d: True
      obtain b where "blocks t (get_runningstack (cos t a) t) = Some b" "int (length b) = N"
        "get_runningstacksize (cos t a) t = N" using running_block [OF core [OF d], of a] .
      then show ?thesis using g(2,7) d sz by (simp add: peek_def mem_read_def)
    qed (simp add: peek_def g(2))
    moreover have "frame_of t b = frame_of v b" for b by (rule frame_cong) (use g f in auto)
    ultimately show ?thesis unfolding eq kb
      by (intro enter_swap [OF r a]) (use g f fr ok' in \<open>auto simp: na\<close>)
  next
    case False
    then have sus: "status (cos w a) = CO_STATE_SUSPEND" "uc_cont (cos w a) = Some k'" "bs' = frame_of w a"
      using a'(3) by (auto simp: parked_at_def split: if_splits)
    have nr: "\<not> status (cos (v \<lparr> pRunCo := Some a \<rparr>) a) = CO_STATE_READY" using st False by simp
    have core: "isDynamicStack ?u \<Longrightarrow> stacks_core N S ?u" using so by (simp add: stacks_ok_def)
    have sa: "isDynamicStack ?u \<Longrightarrow> stopped_ok N ?u a"
      using ok a'(1) f(5) [of a] na sus(1) by (simp add: stacks_ok_def stopped_ok_def)
    have "frame_of ?u a = bs'" using fu fr(1) [OF a'(1) sus(1)] sus(3) by simp
    with wake_ok [OF core sa a'(1)] obtain bl where bl:
      "(if isDynamicStack ?u then restore_stack a ?u else Some ?u) = Some (?u \<lparr> blocks := bl \<rparr>)"
      "isDynamicStack ?u \<longrightarrow> stacks_core N S (?u \<lparr> blocks := bl \<rparr>)"
      "\<forall>x \<in> S. isDynamicStack ?u \<longrightarrow> stack (cos ?u x) \<noteq> 0 \<longrightarrow> bl (stack (cos ?u x)) = blocks ?u (stack (cos ?u x))"
      "peek (?u \<lparr> blocks := bl \<rparr>) = Some bs'" by auto
    let ?t = "?u \<lparr> blocks := bl \<rparr>"
    have eq: "co_resume entry mal (stack_pos bs w) k (Some a) w = co_swapcontext k (parent_ctx a ?t) (CoCtx a) ?t"
      unfolding co_resume_def option.case Let_def v Option.bind.simps if_not_P [OF nr] if_P [OF st [unfolded sus(1)]] bl(1) ..
    have ok': "stacks_ok N S ?t" using so bl(2) by (simp add: stacks_ok_def stopped_ok_def)
    have ft: "frame_of ?t b = frame_of v b" if "b \<in> S" "isDynamicStack v \<Longrightarrow> stopped_ok N v b" for b
      unfolding fu [symmetric] by (rule frame_cong) (use that bl(3) in \<open>auto simp: stopped_ok_def\<close>)
    have sv: "isDynamicStack v \<Longrightarrow> b \<in> S \<Longrightarrow> status (cos v b) = CO_STATE_SUSPEND \<Longrightarrow> stopped_ok N v b" for b
      using ok by (simp add: stacks_ok_def)
    have q: "pRunCo w = Some q \<Longrightarrow> q \<in> S" for q using co_relD(2) [OF r] by (cases "chain s") (auto simp: chain_ok_def)
    show ?thesis unfolding eq
      by (intro enter_swap [OF r a]) (use f fr ok' ft sv q sus bl(4) in \<open>auto simp: na\<close>)
  qed
qed

fun co_op_ok :: "stack_alloc \<Rightarrow> int \<Rightarrow> 'k co_op \<Rightarrow> bool" where
  "co_op_ok mal N (CoResume bs k a) \<longleftrightarrow> mal_ok mal \<and> bs \<noteq> [] \<and> int (length bs) \<le> N"
| "co_op_ok mal N (CoYield bs k) \<longleftrightarrow> mal_ok mal \<and> bs \<noteq> [] \<and> int (length bs) \<le> N"
| "co_op_ok mal N (CoFinish k) \<longleftrightarrow> True"

lemma step_resume:
  assumes r: "co_rel dyn entry N S w s" and ok: "co_op_ok mal N (CoResume bs k a)"
    and s: "ctl_step dyn (CoResume bs k a) s = Some (o1, s')"
  shows "\<exists>w'. co_step entry mal (CoResume bs k a) w = Some (o1, w') \<and> co_rel dyn entry N S w' s'"
proof -
  obtain k' bs' where p: "parked s a = Some (k', bs')" "o1 = (Inr k', bs')"
    "s' = \<lparr> chain = a # chain s, callers = (k, if dyn \<and> chain s \<noteq> [] then bs else []) # callers s,
       parked = (parked s)(a := None) \<rparr>"
    using s by (auto split: option.splits)
  obtain bl where bl: "poke bs w = Some (w \<lparr> blocks := bl \<rparr>)" "co_rel dyn entry N S (w \<lparr> blocks := bl \<rparr>) s"
    "\<And>q. pRunCo w = Some q \<Longrightarrow> dyn \<Longrightarrow> stack_top (w \<lparr> blocks := bl \<rparr>) q (int (length bs)) = bs"
    using poke_rel [OF r, of bs] ok by auto
  have "(if chain s \<noteq> [] then if dyn then bs else [] else []) = (if dyn \<and> chain s \<noteq> [] then bs else [])" by simp
  with resume_ok [OF _ bl(2) p(1), of mal bs k] ok bl(1,3) p(2,3) show ?thesis by auto
qed

lemma step_yield:
  assumes r: "co_rel dyn entry N S w s" and ok: "co_op_ok mal N (CoYield bs k)"
    and s: "ctl_step dyn (CoYield bs k) s = Some (o1, s')"
  shows "\<exists>w'. co_step entry mal (CoYield bs k) w = Some (o1, w') \<and> co_rel dyn entry N S w' s'"
proof -
  obtain bl where bl: "poke bs w = Some (w \<lparr> blocks := bl \<rparr>)" "co_rel dyn entry N S (w \<lparr> blocks := bl \<rparr>) s"
    "\<And>q. pRunCo w = Some q \<Longrightarrow> dyn \<Longrightarrow> stack_top (w \<lparr> blocks := bl \<rparr>) q (int (length bs)) = bs"
    using poke_rel [OF r, of bs] ok by auto
  let ?w = "w \<lparr> blocks := bl \<rparr>"
  show ?thesis
  proof (cases "chain s")
    case Nil
    then have "pRunCo w = None" using co_relD(2) [OF r] by (simp add: chain_ok_def)
    then show ?thesis using Nil s bl(1,2) by (auto simp: co_yield_def observe_def peek_def)
  next
    case (Cons a cs)
    have c: "pRunCo ?w = Some a" "parent (cos ?w a) \<noteq> Some a"
      using co_relD(2) [OF bl(2)] Cons by (cases cs; auto simp: chain_ok_def)+
    have d: "isDynamicStack ?w = dyn" using co_relD(1) [OF bl(2)] .
    have "\<exists>v. (if isDynamicStack ?w then save_stack mal (stack_pos bs ?w) a ?w else Some ?w) = Some v \<and>
        co_rel dyn entry N S v s \<and> (dyn \<longrightarrow> stopped_ok N v a) \<and> frame_of v a = (if dyn then bs else []) \<and>
        parent (cos v a) = parent (cos ?w a)"
    proof (cases dyn)
      case True
      then have r1: "co_rel True entry N S ?w s" using bl(2) by simp
      from save_rel [OF _ r1 Cons, of mal bs] ok c(1) bl(3) True obtain v where v:
        "save_stack mal (stack_pos bs ?w) a ?w = Some v" "co_rel True entry N S v s" "stopped_ok N v a" "saved v a = bs"
        "parent (cos v a) = parent (cos ?w a)" by auto
      then show ?thesis using True d co_relD(1) [OF v(2)] by (simp add: frame_of_def)
    next
      case False
      then show ?thesis using bl(2) d by (simp add: frame_of_def)
    qed
    then obtain v where v: "(if isDynamicStack ?w then save_stack mal (stack_pos bs ?w) a ?w else Some ?w) = Some v"
      "co_rel dyn entry N S v s" "dyn \<longrightarrow> stopped_ok N v a" "frame_of v a = (if dyn then bs else [])"
      "parent (cos v a) = parent (cos ?w a)" by blast
    have "parent (cos v a) \<noteq> Some a" using v(5) c(2) by simp
    from co_yield_leave [OF c(1) v(1) this, of k]
    have eq: "co_step entry mal (CoYield bs k) w = observe (leave CO_STATE_SUSPEND (\<lambda>_ c. c) k a v)" using bl(1) by simp
    have "ctl_return (Some (k, frame_of v a)) s = Some (o1, s')" using s Cons v(4) by simp
    moreover have "\<exists>o2 w' s2. ctl_return (Some (k, frame_of v a)) s = Some (o2, s2) \<and>
        observe (leave CO_STATE_SUSPEND (\<lambda>_ c. c) k a v) = Some (o2, w') \<and> co_rel dyn entry N S w' s2"
      by (rule leave_ok [OF v(2) Cons]) (use v(3) in auto)
    ultimately show ?thesis unfolding eq by auto
  qed
qed

lemma step_finish:
  assumes r: "co_rel dyn entry N S w s" and s: "ctl_step dyn (CoFinish k) s = Some (o1, s')"
  shows "\<exists>w'. co_step entry mal (CoFinish k) w = Some (o1, w') \<and> co_rel dyn entry N S w' s'"
proof -
  obtain a cs where a: "chain s = a # cs" using s by (auto simp: ctl_return_def split: list.splits)
  then have "pRunCo w = Some a" using co_relD(2) [OF r] by (simp add: chain_ok_def)
  moreover have "\<exists>o2 w' s2. ctl_return None s = Some (o2, s2) \<and>
      observe (leave CO_STATE_END (\<lambda>q c. c \<lparr> uc_link := CoCtx q \<rparr>) k a w) = Some (o2, w') \<and> co_rel dyn entry N S w' s2"
    by (rule leave_ok [OF r a]) auto
  ultimately show ?thesis using s by (auto simp: process_end_leave)
qed

interpretation co_sim: step_simulation "co_rel dyn entry N S" "co_op_ok mal N" "ctl_step dyn" "co_step entry mal"
  for dyn entry N S mal
proof unfold_locales
  fix c a x r a'
  assume "co_rel dyn entry N S c a" "co_op_ok mal N x" "ctl_step dyn x a = Some (r, a')"
  then show "\<exists>c'. co_step entry mal x c = Some (r, c') \<and> co_rel dyn entry N S c' a'"
    by (cases x) (blast intro: step_resume step_yield step_finish)+
qed

text \<open>Coroutines that were initialised and have not run.\<close>

definition co_start :: "int \<Rightarrow> int set \<Rightarrow> ('f, 'k, 'z) schedule_scheme \<Rightarrow> bool" where
  "co_start N S w \<longleftrightarrow> pRunCo w = None \<and>
     (\<forall>a \<in> S. status (cos w a) = CO_STATE_READY \<and> stacksize (cos w a) = 0) \<and>
     (isDynamicStack w \<longrightarrow> stacks_core N S w)"

definition ctl_start :: "'k \<Rightarrow> int set \<Rightarrow> 'k ctl" where
  "ctl_start entry S = \<lparr> chain = [], callers = [], parked = (\<lambda>a. if a \<in> S then Some (entry, []) else None) \<rparr>"

lemma co_start_rel: "co_start N S w \<Longrightarrow> co_rel (isDynamicStack w) entry N S w (ctl_start entry S)"
  by (auto simp: co_start_def ctl_start_def co_rel_def chain_ok_def stacks_ok_def parked_at_def co_states fun_eq_iff)


definition fresh_alloc :: stack_alloc where
  "fresh_alloc bl n = (Max (insert 0 (dom bl)) + 1, replicate (nat n) 0)"

lemma fresh_alloc_ok: "mal_ok fresh_alloc"
  unfolding mal_ok_def
proof (intro allI impI)
  fix bl :: "int \<Rightarrow> byte list option" and n :: int
  assume "finite (dom bl)"
  then have "x \<le> Max (insert 0 (dom bl))" if "x \<in> insert 0 (dom bl)" for x using that by simp
  from this [of 0] this [of "Max (insert 0 (dom bl)) + 1"]
  show "fst (fresh_alloc bl n) \<noteq> 0 \<and> bl (fst (fresh_alloc bl n)) = None \<and>
      int (length (snd (fresh_alloc bl n))) = max 0 n"
    by (auto simp: fresh_alloc_def)
qed

definition dyn_world :: "(unit, nat) schedule" where
  "dyn_world = \<lparr> sch_sp = 0, sch_size = 0, sch_cont = None, isDynamicStack = True, pRunCo = None,
     allocfunc = True, freefunc = True, secondstackmaxsize = 4, secondstack = 2, firststackmaxsize = 4,
     firststack = 1, blocks = [1 \<mapsto> [0, 0, 0, 0], 2 \<mapsto> [0, 0, 0, 0]],
     cos = (\<lambda>_. \<lparr> func = (), arg = 0, uc_sp = 0, uc_size = 0, uc_link = SchCtx, uc_cont = None,
       status = CO_STATE_READY, parent = None, stacksize = 0, stackmaxsize = 0, stack = 0,
       usesecondstack = False \<rparr>) \<rparr>"

lemma dyn_world_start: "co_start 4 {10, 20} dyn_world"
  by (simp add: co_start_def dyn_world_def stacks_core_def block_len_def)


text \<open>
  Resuming a coroutine that has ended from inside a running one is refused with -2, but
  only after the running coroutine has been replaced as the running one and marked as
  suspended.
\<close>

theorem co_resume_ended_corrupts:
  assumes "pRunCo w = Some r" and "a \<noteq> r" and "status (cos w a) = CO_STATE_END" and "\<not> isDynamicStack w"
  shows "\<exists>w'. co_resume entry mal sp k (Some a) w = Some (Inl (-2), w') \<and> pRunCo w' = Some a \<and>
    status (cos w' r) = CO_STATE_SUSPEND"
  using assms by (simp add: co_resume_def pause_running_def co_states)

theorem co_resume_ended_corrupts_witness:
  "\<exists>w'. co_resume (0 :: nat) fresh_alloc 0 1 (Some 20)
      (upd_co 20 (\<lambda>c. c \<lparr> status := CO_STATE_END \<rparr>) (dyn_world \<lparr> isDynamicStack := False, pRunCo := Some 10 \<rparr>))
    = Some (Inl (-2), w') \<and> pRunCo w' = Some 20 \<and> status (cos w' 10) = CO_STATE_SUSPEND"
  by (rule co_resume_ended_corrupts) (simp_all add: dyn_world_def)

end
