(* ===== verification/CoMgr.thy ===== *)
theory CoMgr
  imports ObjPool Coroutine
begin

text \<open>
  The coroutine manager of \<^verbatim>\<open>src/util/coroutine/comgr.{h,cpp}\<close>: a pool of coroutines with
  argument areas and expiry times, on top of the object pool and of the coroutines.

  The manager extends the record \<open>schedule\<close> (its member \<open>m_Sch\<close>). The pool holds the fields of
  \<open>SCoroutine\<close> other than the embedded \<open>coroutine\<close>, which is the first member: it has the same
  address and lives in the memory \<open>cos\<close> of the schedule.

  The code of a coroutine is what it does with the manager: a (possibly infinite) tree of calls,
  each with the continuation that gets the result. A saved context is then the rest of the
  manager's function that was interrupted, together with the code it returns to.
\<close>

section \<open>Data\<close>

definition YIELD_TIMEOUT :: int where "YIELD_TIMEOUT = -987654321"

definition FIXED_STACKSIZE_POOL :: int where "FIXED_STACKSIZE_POOL = 0"
definition FIXED_STACKSIZE_MALLOC :: int where "FIXED_STACKSIZE_MALLOC = 1"
definition DYNAMIC_STACKSIZE_MALLOC :: int where "DYNAMIC_STACKSIZE_MALLOC = 2"

lemmas work_modes = FIXED_STACKSIZE_POOL_def FIXED_STACKSIZE_MALLOC_def DYNAMIC_STACKSIZE_MALLOC_def

codatatype co_code =
    CReturn int
  | CResume int "int \<Rightarrow> co_code"
  | CYield int "int \<Rightarrow> co_code"
  | CAlloc "int \<Rightarrow> co_code" "byte list" int "int \<Rightarrow> co_code"
  | CRelease int "int \<Rightarrow> co_code"

type_synonym SCoFunc = "int \<Rightarrow> co_code"

text \<open>
  \<open>KResume\<close> and \<open>KYield\<close> are the rest of \<open>Resume\<close> and \<open>Yield\<close> called by the coroutine that
  \<open>_process\<close> runs in its first argument; \<open>KMain\<close> is the rest of \<open>Resume\<close> called by the main program.
\<close>

datatype kont =
    KEntry
  | KDead
  | KMain int int
  | KResume int int int "int \<Rightarrow> co_code"
  | KYield int int "int \<Rightarrow> co_code"

record SCoroutine =
  iPoolID :: int
  tExpireTime :: int
  isTimeOut :: bool
  m_Buf :: "byte list"

record SCoMgr = "(SCoFunc, kont) schedule" +
  m_WorkMode :: int
  m_pCoPool :: "SCoroutine TObjPoolPtr"
  m_iDefaultStackSize :: int
  m_iArgSize :: int
  m_iRunningID :: int

section \<open>Initialisation\<close>

text \<open>What the constructor leaves uninitialised comes from \<open>garbage\<close>.\<close>

definition SCoMgr_new :: "SCoMgr \<Rightarrow> SCoMgr" where
  "SCoMgr_new garbage = garbage \<lparr> m_WorkMode := FIXED_STACKSIZE_POOL, m_pCoPool := None,
     m_iDefaultStackSize := 0, m_iArgSize := 0, m_iRunningID := 0, allocfunc := False, freefunc := False,
     pRunCo := None, isDynamicStack := False, sch_sp := 0, sch_size := 0 \<rparr>"

text \<open>
  \<open>szco\<close> is \<open>sizeof(SCoroutine)\<close>, \<open>rlim\<close> the stack limit that \<open>getrlimit\<close> returns (\<open>None\<close> when it
  fails); the other parameters belong to \<open>objpool_init\<close> and the stack allocator.
\<close>

definition InitCoMgr :: "(int \<Rightarrow> bool) \<Rightarrow> (nat \<Rightarrow> SCoroutine) \<Rightarrow> int option \<Rightarrow> stack_alloc \<Rightarrow> int \<Rightarrow>
    int \<Rightarrow> int \<Rightarrow> int \<Rightarrow> int \<Rightarrow> bool \<Rightarrow> bool \<Rightarrow> SCoMgr \<Rightarrow> (int \<times> SCoMgr) fault" where
  "InitCoMgr malloc garbage rlim mal szco iArgSize iStackSize iPoolSize iMode allocFunc freeFunc w =
     (if m_pCoPool w \<noteq> None then Some (-1, w)
      else do {
        let iPoolUnitSize = (if iMode = FIXED_STACKSIZE_POOL then s32 (szco + iArgSize + iStackSize)
                             else s32 (szco + iArgSize));
        (iRet, pp) \<leftarrow> objpool_init malloc garbage (Some (m_pCoPool w)) (nat (u64 iPoolSize)) (nat (u64 iPoolUnitSize));
        pool \<leftarrow> pp;
        let w = w \<lparr> m_pCoPool := pool \<rparr>;
        if iRet < 0 then Some (-2, w)
        else do {
          let w = w \<lparr> m_iDefaultStackSize := iStackSize, m_iArgSize := iArgSize, m_WorkMode := iMode,
            m_iRunningID := 0, allocfunc := False, freefunc := False, pRunCo := None, isDynamicStack := False,
            sch_sp := 0, sch_size := 0 \<rparr>;
          if iMode = FIXED_STACKSIZE_POOL then Some (0, w)
          else if iMode = FIXED_STACKSIZE_MALLOC
          then Some (0, w \<lparr> allocfunc := allocFunc, freefunc := freeFunc \<rparr>)
          else if iMode = DYNAMIC_STACKSIZE_MALLOC
          then do {
            let w = w \<lparr> allocfunc := allocFunc, freefunc := freeFunc, isDynamicStack := True \<rparr>;
            case rlim of
              None \<Rightarrow> Some (-3, w)
            | Some cur \<Rightarrow> do {
                (p, w) \<leftarrow> co_alloc mal cur w;
                let w = w \<lparr> firststack := p, firststackmaxsize := s32 cur \<rparr>;
                (p, w) \<leftarrow> co_alloc mal cur w;
                Some (0, w \<lparr> secondstack := p, secondstackmaxsize := s32 cur \<rparr>)
              }
          }
          else Some (-4, w)
        }
      })"

section \<open>Coroutines of the pool\<close>

definition GetCo :: "int \<Rightarrow> SCoMgr \<Rightarrow> int option fault" where
  "GetCo iID w = objpool_get (m_pCoPool w) iID"

definition upd_cell :: "int \<Rightarrow> (SCoroutine \<Rightarrow> SCoroutine) \<Rightarrow> SCoMgr \<Rightarrow> SCoMgr fault" where
  "upd_cell p f w = do { pool \<leftarrow> m_pCoPool w; pool \<leftarrow> obj_write pool p f; Some (w \<lparr> m_pCoPool := Some pool \<rparr>) }"

definition get_cell :: "int \<Rightarrow> SCoMgr \<Rightarrow> SCoroutine fault" where
  "get_cell p w = do { pool \<leftarrow> m_pCoPool w; obj_read pool p }"

text \<open>The argument is copied with the configured size; its own length \<open>iArgLen\<close> is not used.\<close>

definition Alloc :: "stack_alloc \<Rightarrow> int \<Rightarrow> SCoFunc \<Rightarrow> byte list \<Rightarrow> int \<Rightarrow> SCoMgr \<Rightarrow> (int \<times> SCoMgr) fault" where
  "Alloc mal szco f a iArgLen w = do {
     (iIdx, pp) \<leftarrow> objpool_alloc (m_pCoPool w);
     let w = w \<lparr> m_pCoPool := pp \<rparr>;
     if 0 > iIdx then Some (-1, w)
     else do {
       q \<leftarrow> GetCo iIdx w;
       case q of
         None \<Rightarrow> Some (-2, w)
       | Some pCo \<Rightarrow> do {
           w \<leftarrow> upd_cell pCo (\<lambda>c. c \<lparr> iPoolID := iIdx, tExpireTime := 0, isTimeOut := False \<rparr>) w;
           bytes \<leftarrow> mem_read a 0 (m_iArgSize w);
           w \<leftarrow> upd_cell pCo (\<lambda>c. c \<lparr> m_Buf := bytes \<rparr>) w;
           (ok, pStack, iStackSize, w) \<leftarrow>
             (if m_WorkMode w = FIXED_STACKSIZE_POOL
              then Some (True, pCo + szco + m_iArgSize w, m_iDefaultStackSize w, w)
              else if m_WorkMode w = FIXED_STACKSIZE_MALLOC
              then do { (p, w) \<leftarrow> co_alloc mal (m_iDefaultStackSize w) w; Some (True, p, m_iDefaultStackSize w, w) }
              else if m_WorkMode w = DYNAMIC_STACKSIZE_MALLOC
              then Some (True, firststack w, firststackmaxsize w, w)
              else Some (False, 0, 0, w));
           if \<not> ok then Some (-4, w)
           else do {
             let (iRet, w) = co_init (Some pCo) f iIdx pStack iStackSize w;
             if iRet < 0 then Some (-5, w)
             else if m_WorkMode w = DYNAMIC_STACKSIZE_MALLOC \<and> m_iDefaultStackSize w \<noteq> 0
             then do {
               (p, w) \<leftarrow> co_alloc mal (m_iDefaultStackSize w) w;
               Some (iIdx, upd_co pCo (\<lambda>c. c \<lparr> stack := p, stackmaxsize := m_iDefaultStackSize w \<rparr>) w)
             }
             else Some (iIdx, w)
           }
         }
     }
   }"

definition Release :: "int \<Rightarrow> SCoMgr \<Rightarrow> (int \<times> SCoMgr) fault" where
  "Release iID w = do {
     q \<leftarrow> objpool_get (m_pCoPool w) iID;
     case q of
       None \<Rightarrow> Some (-1, w)
     | Some pCo \<Rightarrow> do {
         w \<leftarrow> (if m_WorkMode w = DYNAMIC_STACKSIZE_MALLOC
               then (if stack (cos w pCo) \<noteq> 0 \<and> freefunc w
                     then do {
                       w \<leftarrow> co_free (stack (cos w pCo)) w;
                       Some (upd_co pCo (\<lambda>c. c \<lparr> stack := 0, stacksize := 0, stackmaxsize := 0 \<rparr>) w)
                     }
                     else Some w)
               else if m_WorkMode w = FIXED_STACKSIZE_MALLOC
               then (if uc_sp (cos w pCo) \<noteq> 0 \<and> freefunc w
                     then do {
                       w \<leftarrow> co_free (uc_sp (cos w pCo)) w;
                       Some (upd_co pCo (\<lambda>c. c \<lparr> uc_sp := 0, uc_size := 0 \<rparr>) w)
                     }
                     else Some w)
               else Some w);
         (r, pp) \<leftarrow> objpool_free (m_pCoPool w) iID;
         Some (r, w \<lparr> m_pCoPool := pp \<rparr>)
       }
   }"

text \<open>\<open>Destory\<close> of \<open>SCoMgr\<close>; the name is taken by the timer manager.\<close>

definition CoMgr_Destory :: "SCoMgr \<Rightarrow> (int \<times> SCoMgr) fault" where
  "CoMgr_Destory w = do {
     w \<leftarrow> (if m_WorkMode w = DYNAMIC_STACKSIZE_MALLOC \<and> freefunc w
           then do {
             w \<leftarrow> (if sch_sp w \<noteq> 0
                   then do { w \<leftarrow> co_free (sch_sp w) w; Some (w \<lparr> sch_sp := 0 \<rparr>) }
                   else Some w);
             Some (w \<lparr> sch_size := 0 \<rparr>)
           }
           else Some w);
     let w = w \<lparr> allocfunc := False, freefunc := False, pRunCo := None, isDynamicStack := False \<rparr>;
     Some (0, w \<lparr> m_pCoPool := None, m_iDefaultStackSize := 0, m_iArgSize := 0, m_iRunningID := 0,
       m_WorkMode := FIXED_STACKSIZE_POOL \<rparr>)
   }"

definition GetArg :: "int \<Rightarrow> SCoMgr \<Rightarrow> byte list option fault" where
  "GetArg iID w = do {
     q \<leftarrow> GetCo iID w;
     case q of None \<Rightarrow> Some None | Some pCo \<Rightarrow> do { c \<leftarrow> get_cell pCo w; Some (Some (m_Buf c)) }
   }"

definition GeCoCount :: "SCoMgr \<Rightarrow> int" where
  "GeCoCount w = s32 (objpool_get_used_items (m_pCoPool w))"

definition GetRunningCoStackSize :: "int \<Rightarrow> SCoMgr \<Rightarrow> int" where
  "GetRunningCoStackSize sp w = co_runningstacksize sp w"

section \<open>Resume and yield\<close>

text \<open>
  Both functions are cut at the context switch: \<open>Resume_after\<close> and \<open>Yield_after\<close> are what runs
  when control has come back; \<open>Resume_call\<close> and \<open>Yield_call\<close> either return a code or pass control.
\<close>

definition Resume_after :: "int \<Rightarrow> int \<Rightarrow> SCoMgr \<Rightarrow> (int \<times> SCoMgr) fault" where
  "Resume_after iID pCo w = do {
     let w = w \<lparr> m_iRunningID := 0 \<rparr>;
     if status (cos w pCo) = CO_STATE_END
     then do { (_, w) \<leftarrow> Release iID w; Some (0, w) }
     else Some (iID, w)
   }"

definition Resume_call :: "stack_alloc \<Rightarrow> int \<Rightarrow> (int \<Rightarrow> kont) \<Rightarrow> int \<Rightarrow> SCoMgr \<Rightarrow> ((int + kont) \<times> SCoMgr) fault" where
  "Resume_call mal sp k iID w = do {
     q \<leftarrow> GetCo iID w;
     case q of
       None \<Rightarrow> Some (Inl (-1), w)
     | Some pCo \<Rightarrow> do {
         let w = w \<lparr> m_iRunningID := iID \<rparr>;
         (r, w) \<leftarrow> co_resume KEntry mal sp (k pCo) (Some pCo) w;
         case r of
           Inr k' \<Rightarrow> Some (Inr k', w)
         | Inl iRet \<Rightarrow>
             if iRet < 0 then do { (_, w) \<leftarrow> Release iID w; Some (Inl (-2), w) }
             else do { (v, w) \<leftarrow> Resume_after iID pCo w; Some (Inl v, w) }
       }
   }"

definition Yield_after :: "int \<Rightarrow> SCoMgr \<Rightarrow> int fault" where
  "Yield_after pCo w = do { c \<leftarrow> get_cell pCo w; Some (if isTimeOut c then YIELD_TIMEOUT else 0) }"

definition Yield_call :: "stack_alloc \<Rightarrow> int \<Rightarrow> (int \<Rightarrow> kont) \<Rightarrow> int \<Rightarrow> SCoMgr \<Rightarrow> ((int + kont) \<times> SCoMgr) fault" where
  "Yield_call mal sp k expiretime w = do {
     q \<leftarrow> GetCo (m_iRunningID w) w;
     case q of
       None \<Rightarrow> Some (Inl (-1), w)
     | Some pCo \<Rightarrow> do {
         w \<leftarrow> upd_cell pCo (\<lambda>c. c \<lparr> tExpireTime := expiretime, isTimeOut := False \<rparr>) w;
         (r, w) \<leftarrow> co_yield mal sp (k pCo) w;
         case r of
           Inr k' \<Rightarrow> Some (Inr k', w)
         | Inl _ \<Rightarrow> do { v \<leftarrow> Yield_after pCo w; Some (Inl v, w) }
       }
   }"

section \<open>Execution\<close>

text \<open>
  Where control is: in the main program, to which a call has returned a value, or in the code
  of a coroutine. \<open>enter_kont\<close> goes on at a saved context; entering the entry function when
  nothing runs, or the context of a coroutine that has ended, does not happen in a sound run.
\<close>

datatype control = InMain int | InCo int co_code

fun enter_kont :: "kont \<Rightarrow> SCoMgr \<Rightarrow> (control \<times> SCoMgr) fault" where
  "enter_kont KEntry w = do { (p, f, a) \<leftarrow> process_enter w; Some (InCo p (f a), w) }"
| "enter_kont KDead w = None"
| "enter_kont (KMain iID pCo) w = do { (r, w) \<leftarrow> Resume_after iID pCo w; Some (InMain r, w) }"
| "enter_kont (KResume self iID pCo k) w = do { (r, w) \<leftarrow> Resume_after iID pCo w; Some (InCo self (k r), w) }"
| "enter_kont (KYield self pCo k) w = do { r \<leftarrow> Yield_after pCo w; Some (InCo self (k r), w) }"

definition return_to :: "int \<Rightarrow> (int \<Rightarrow> co_code) \<Rightarrow> ((int + kont) \<times> SCoMgr) fault \<Rightarrow> (control \<times> SCoMgr) fault" where
  "return_to self k m = do {
     (r, w) \<leftarrow> m;
     case r of Inl v \<Rightarrow> Some (InCo self (k v), w) | Inr k' \<Rightarrow> enter_kont k' w
   }"

text \<open>\<open>spf\<close> gives the stack pointer at the call.\<close>

definition co_exec :: "stack_alloc \<Rightarrow> int \<Rightarrow> (SCoMgr \<Rightarrow> int) \<Rightarrow> int \<Rightarrow> co_code \<Rightarrow> SCoMgr \<Rightarrow> (control \<times> SCoMgr) fault" where
  "co_exec mal szco spf self c w =
     (case c of
        CReturn _ \<Rightarrow> do {
          (r, w) \<leftarrow> process_end KDead self w;
          case r of Inl _ \<Rightarrow> None | Inr k \<Rightarrow> enter_kont k w
        }
      | CResume iID k \<Rightarrow> return_to self k (Resume_call mal (spf w) (\<lambda>p. KResume self iID p k) iID w)
      | CYield t k \<Rightarrow> return_to self k (Yield_call mal (spf w) (\<lambda>p. KYield self p k) t w)
      | CAlloc f a n k \<Rightarrow> do { (r, w) \<leftarrow> Alloc mal szco f a n w; Some (InCo self (k r), w) }
      | CRelease iID k \<Rightarrow> do { (r, w) \<leftarrow> Release iID w; Some (InCo self (k r), w) })"

partial_function (option) run_co :: "stack_alloc \<Rightarrow> int \<Rightarrow> (SCoMgr \<Rightarrow> int) \<Rightarrow> control \<Rightarrow> SCoMgr \<Rightarrow> (int \<times> SCoMgr) option" where
  "run_co mal szco spf c w =
     (case c of
        InMain r \<Rightarrow> Some (r, w)
      | InCo self code \<Rightarrow> do { (c, w) \<leftarrow> co_exec mal szco spf self code w; run_co mal szco spf c w })"

text \<open>\<open>Resume\<close> called by the main program, up to its return.\<close>

definition Resume :: "stack_alloc \<Rightarrow> int \<Rightarrow> (SCoMgr \<Rightarrow> int) \<Rightarrow> int \<Rightarrow> SCoMgr \<Rightarrow> (int \<times> SCoMgr) option" where
  "Resume mal szco spf iID w = do {
     (r, w) \<leftarrow> Resume_call mal (spf w) (KMain iID) iID w;
     case r of
       Inl v \<Rightarrow> Some (v, w)
     | Inr k \<Rightarrow> do { (c, w) \<leftarrow> enter_kont k w; run_co mal szco spf c w }
   }"

section \<open>Expiry\<close>

definition fnProcessExpire :: "stack_alloc \<Rightarrow> int \<Rightarrow> (SCoMgr \<Rightarrow> int) \<Rightarrow> int \<Rightarrow> int option \<Rightarrow>
    SCoroutine TObjPool \<times> SCoMgr \<Rightarrow> (TRAVEL_RET \<times> SCoroutine TObjPool \<times> SCoMgr) option" where
  "fnProcessExpire mal szco spf tNow pvNode st =
     (case pvNode of
        None \<Rightarrow> Some (DO_THING, st)
      | Some pCo \<Rightarrow> do {
          let w = (snd st) \<lparr> m_pCoPool := Some (fst st) \<rparr>;
          c \<leftarrow> get_cell pCo w;
          if tExpireTime c \<le> tNow then do {
            w \<leftarrow> upd_cell pCo (\<lambda>c. c \<lparr> isTimeOut := True \<rparr>) w;
            (_, w) \<leftarrow> Resume mal szco spf (iPoolID c) w;
            pool \<leftarrow> m_pCoPool w;
            Some (DO_THING, pool, w)
          }
          else Some (DO_THING, st)
        })"

definition ProcessAllExpire :: "stack_alloc \<Rightarrow> int \<Rightarrow> (SCoMgr \<Rightarrow> int) \<Rightarrow> int \<Rightarrow> SCoMgr \<Rightarrow> (int \<times> SCoMgr) option" where
  "ProcessAllExpire mal szco spf tNow w = do {
     (r, pp, w) \<leftarrow> objpool_travel_used (fnProcessExpire mal szco spf tNow) (m_pCoPool w) w;
     Some (r, w \<lparr> m_pCoPool := pp \<rparr>)
   }"

text \<open>The static position \<open>iLastPos\<close> is threaded through; \<open>n\<close> counts the iterations left.\<close>

fun part_expire_loop :: "stack_alloc \<Rightarrow> int \<Rightarrow> (SCoMgr \<Rightarrow> int) \<Rightarrow> int \<Rightarrow> nat \<Rightarrow> int \<Rightarrow> SCoMgr \<Rightarrow> (int \<times> SCoMgr) option" where
  "part_expire_loop mal szco spf tNow 0 iLastPos w = Some (iLastPos, w)"
| "part_expire_loop mal szco spf tNow (Suc n) iLastPos w = do {
     w \<leftarrow> (case objpool_get_bypos (m_pCoPool w) iLastPos of
             None \<Rightarrow> Some w
           | Some pCo \<Rightarrow> do {
               c \<leftarrow> get_cell pCo w;
               if tExpireTime c \<le> tNow then do {
                 w \<leftarrow> upd_cell pCo (\<lambda>c. c \<lparr> isTimeOut := True \<rparr>) w;
                 (_, w) \<leftarrow> Resume mal szco spf (iPoolID c) w;
                 Some w
               }
               else Some w
             });
     part_expire_loop mal szco spf tNow n (iLastPos + 1) w
   }"

definition ProcessPartExpire :: "stack_alloc \<Rightarrow> int \<Rightarrow> (SCoMgr \<Rightarrow> int) \<Rightarrow> int \<Rightarrow> int \<Rightarrow> int \<Rightarrow> SCoMgr \<Rightarrow>
    (int \<times> int \<times> SCoMgr) option" where
  "ProcessPartExpire mal szco spf tNow iOnceProcessCount iLastPos w = do {
     let iMaxCount = s32 (objpool_get_size (m_pCoPool w));
     let iLastPos = (if iLastPos \<ge> iMaxCount then 0 else iLastPos);
     let iEnd = s32 (iLastPos + iOnceProcessCount);
     let iEnd = (if iEnd > iMaxCount then iMaxCount else iEnd);
     (iLastPos, w) \<leftarrow> part_expire_loop mal szco spf tNow (nat (iEnd - iLastPos)) iLastPos w;
     Some (0, iLastPos, w)
   }"

text \<open>\<open>g\<close> is the client's function: what it does to the manager when called with an id.\<close>

definition fnProcessfun :: "(int \<Rightarrow> SCoMgr \<Rightarrow> SCoMgr option) \<Rightarrow> int option \<Rightarrow>
    SCoroutine TObjPool \<times> SCoMgr \<Rightarrow> (TRAVEL_RET \<times> SCoroutine TObjPool \<times> SCoMgr) option" where
  "fnProcessfun g pvNode st =
     (case pvNode of
        None \<Rightarrow> Some (DO_THING, st)
      | Some pCo \<Rightarrow> do {
          let w = (snd st) \<lparr> m_pCoPool := Some (fst st) \<rparr>;
          c \<leftarrow> get_cell pCo w;
          w \<leftarrow> g (iPoolID c) w;
          pool \<leftarrow> m_pCoPool w;
          Some (DO_THING, pool, w)
        })"

definition ProcessAllActiveFun :: "(int \<Rightarrow> SCoMgr \<Rightarrow> SCoMgr option) \<Rightarrow> SCoMgr \<Rightarrow> (int \<times> SCoMgr) option" where
  "ProcessAllActiveFun g w = do {
     (r, pp, w) \<leftarrow> objpool_travel_used (fnProcessfun g) (m_pCoPool w) w;
     Some (r, w \<lparr> m_pCoPool := pp \<rparr>)
   }"

section \<open>The manager between two calls of the main program\<close>

text \<open>
  Between two calls of the main program no coroutine runs, and the manager stands for a map from
  the live ids to the code each coroutine goes on with. The statements are for stacks in the
  pool, where the stack memory is part of the object.
\<close>

definition co_addr :: "SCoroutine TObjPool \<Rightarrow> int \<Rightarrow> int" where
  "co_addr p h = (h mod m_iCapacity p) * m_iUnitSize p"

definition next_code :: "SCoMgr \<Rightarrow> int \<Rightarrow> SCoroutine \<Rightarrow> co_code option" where
  "next_code w a v =
     (if status (cos w a) = CO_STATE_READY then Some (func (cos w a) (arg (cos w a)))
      else if status (cos w a) = CO_STATE_SUSPEND then
        (case uc_cont (cos w a) of
           Some (KYield self p k) \<Rightarrow>
             if self = a \<and> p = a then Some (k (if isTimeOut v then YIELD_TIMEOUT else 0)) else None
         | _ \<Rightarrow> None)
      else None)"

definition mgr_rel :: "SCoMgr \<Rightarrow> (int \<Rightarrow> co_code option) \<Rightarrow> bool" where
  "mgr_rel w m \<longleftrightarrow> pRunCo w = None \<and> \<not> isDynamicStack w \<and> m_WorkMode w = FIXED_STACKSIZE_POOL \<and>
     (\<exists>p us fs. m_pCoPool w = Some p \<and> pool_rel p us fs \<and> dom m = dom (pool_map p) \<and>
        (\<forall>h v. pool_map p h = Some v \<longrightarrow> m h = next_code w (co_addr p h) v))"

lemma co_addr_inj:
  assumes r: "pool_rel p us fs" and l: "pool_live p h" "pool_live p h'" and e: "co_addr p h = co_addr p h'"
  shows "h = h'"
proof -
  have "0 < m_iUnitSize p" using pool_shapeD(4) [OF pool_relD(1) [OF r]] .
  then have "h mod m_iCapacity p = h' mod m_iCapacity p" using e by (simp add: co_addr_def)
  then show ?thesis using l unfolding pool_live_def by metis
qed

lemma pool_map_SomeD: "pool_map p h = Some v \<Longrightarrow> pool_live p h"
  by (simp add: pool_map_def split: if_splits)

lemma GetCo_live: "m_pCoPool w = Some p \<Longrightarrow> pool_rel p us fs \<Longrightarrow> pool_live p h \<Longrightarrow>
    GetCo h w = Some (Some (co_addr p h))"
  using live_cell(1) by (simp add: GetCo_def co_addr_def)

lemma GetCo_dead: "m_pCoPool w = Some p \<Longrightarrow> pool_rel p us fs \<Longrightarrow> \<not> pool_live p h \<Longrightarrow> GetCo h w = Some None"
  by (simp add: GetCo_def objpool_get_rel)

lemma get_cell_live: "m_pCoPool w = Some p \<Longrightarrow> pool_rel p us fs \<Longrightarrow> pool_map p h = Some v \<Longrightarrow>
    get_cell (co_addr p h) w = Some v"
  using live_cell(4) [of p us fs h] by (simp add: get_cell_def co_addr_def pool_map_SomeD)

lemma upd_cell_live:
  assumes "m_pCoPool w = Some p" "pool_rel p us fs" "pool_map p h = Some v"
  shows "\<exists>p'. upd_cell (co_addr p h) f w = Some (w \<lparr> m_pCoPool := Some p' \<rparr>) \<and> pool_rel p' us fs \<and>
    pool_map p' = (pool_map p)(h \<mapsto> f v) \<and> co_addr p' = co_addr p"
  using live_write [OF assms(2) pool_map_SomeD [OF assms(3)], of f] assms(1,3)
  by (auto simp: upd_cell_def co_addr_def fun_eq_iff)

lemma Resume_runs: "Resume_call mal (spf w) (KMain h) h w = Some (Inr k, w1) \<Longrightarrow> enter_kont k w1 = Some (c, w2) \<Longrightarrow>
    Resume mal szco spf h w = run_co mal szco spf c w2"
  by (simp add: Resume_def)

text \<open>Resuming from the main program starts the code where it stopped.\<close>

lemma Resume_enters:
  assumes w: "pRunCo w = None" "\<not> isDynamicStack w" "m_pCoPool w = Some p" "pool_rel p us fs"
    and v: "pool_map p h = Some v" "next_code w (co_addr p h) v = Some c"
  shows "\<exists>w'. Resume mal szco spf h w = run_co mal szco spf (InCo (co_addr p h) c) w' \<and>
    pRunCo w' = Some (co_addr p h) \<and> \<not> isDynamicStack w' \<and> m_pCoPool w' = Some p \<and> m_WorkMode w' = m_WorkMode w \<and>
    m_iRunningID w' = h \<and> sch_cont w' = Some (KMain h (co_addr p h)) \<and> parent (cos w' (co_addr p h)) = None \<and>
    (\<forall>b. b \<noteq> co_addr p h \<longrightarrow> cos w' b = cos w b)"
proof -
  let ?a = "co_addr p h"
  have g: "GetCo h w = Some (Some ?a)" using GetCo_live [OF w(3,4) pool_map_SomeD [OF v(1)]] .
  show ?thesis
  proof (cases "status (cos w ?a) = CO_STATE_READY")
    case True
    then have c: "func (cos w ?a) (arg (cos w ?a)) = c" using v(2) by (simp add: next_code_def)
    let ?u = "upd_co ?a (\<lambda>c. c \<lparr> uc_cont := Some KEntry \<rparr>) (upd_co ?a (\<lambda>c. c \<lparr> status := CO_STATE_RUN \<rparr>)
      ((upd_co ?a (\<lambda>c. c \<lparr> parent := None \<rparr>) (w \<lparr> m_iRunningID := h \<rparr>)) \<lparr> pRunCo := Some ?a \<rparr>))"
    let ?w = "?u \<lparr> sch_cont := Some (KMain h ?a) \<rparr>"
    have "co_resume KEntry mal (spf w) (KMain h ?a) (Some ?a) (w \<lparr> m_iRunningID := h \<rparr>) = Some (Inr KEntry, ?w)"
      using True w(1,2)
      by (simp add: co_resume_def pause_running_def co_swapcontext_def parent_ctx_def)
    then have "Resume_call mal (spf w) (KMain h) h w = Some (Inr KEntry, ?w)" using g by (simp add: Resume_call_def)
    moreover have "enter_kont KEntry ?w = Some (InCo ?a c, ?w)" using c by (simp add: process_enter_def)
    ultimately have "Resume mal szco spf h w = run_co mal szco spf (InCo ?a c) ?w" by (rule Resume_runs)
    then show ?thesis using w by (intro exI [of _ ?w]) (simp add: upd_co_def)
  next
    case False
    then obtain k where k: "status (cos w ?a) = CO_STATE_SUSPEND" "uc_cont (cos w ?a) = Some (KYield ?a ?a k)"
      "c = k (if isTimeOut v then YIELD_TIMEOUT else 0)"
      using v(2) by (auto simp: next_code_def split: if_splits option.splits kont.splits)
    let ?u = "upd_co ?a (\<lambda>c. c \<lparr> status := CO_STATE_RUN \<rparr>)
      ((upd_co ?a (\<lambda>c. c \<lparr> parent := None \<rparr>) (w \<lparr> m_iRunningID := h \<rparr>)) \<lparr> pRunCo := Some ?a \<rparr>)"
    let ?w = "?u \<lparr> sch_cont := Some (KMain h ?a) \<rparr>"
    have "co_resume KEntry mal (spf w) (KMain h ?a) (Some ?a) (w \<lparr> m_iRunningID := h \<rparr>) = Some (Inr (KYield ?a ?a k), ?w)"
      using k False w(1,2)
      by (simp add: co_resume_def pause_running_def co_swapcontext_def parent_ctx_def)
    then have "Resume_call mal (spf w) (KMain h) h w = Some (Inr (KYield ?a ?a k), ?w)" using g by (simp add: Resume_call_def)
    moreover have mp: "m_pCoPool ?w = Some p" using w(3) by (simp add: upd_co_def)
    have "enter_kont (KYield ?a ?a k) ?w = Some (InCo ?a c, ?w)"
      using get_cell_live [OF mp w(4) v(1)] k(3) by (simp add: Yield_after_def)
    ultimately have "Resume mal szco spf h w = run_co mal szco spf (InCo ?a c) ?w" by (rule Resume_runs)
    then show ?thesis using w by (intro exI [of _ ?w]) (simp add: upd_co_def)
  qed
qed

text \<open>A coroutine that runs on behalf of the main program, at a yield and at its return.\<close>

definition running :: "SCoroutine TObjPool \<Rightarrow> int \<Rightarrow> SCoMgr \<Rightarrow> bool" where
  "running p h w \<longleftrightarrow> pRunCo w = Some (co_addr p h) \<and> \<not> isDynamicStack w \<and> m_pCoPool w = Some p \<and>
     m_WorkMode w = FIXED_STACKSIZE_POOL \<and> m_iRunningID w = h \<and>
     sch_cont w = Some (KMain h (co_addr p h)) \<and> parent (cos w (co_addr p h)) = None"

lemma upd_co_mgr [simp]:
  "m_WorkMode (upd_co a f w) = m_WorkMode w" "m_pCoPool (upd_co a f w) = m_pCoPool w"
  "m_iRunningID (upd_co a f w) = m_iRunningID w"
  by (simp_all add: upd_co_def)

lemma run_yield:
  assumes w: "running p h w" and r: "pool_rel p us fs" and v: "pool_map p h = Some v"
  shows "\<exists>w' p'. run_co mal szco spf (InCo (co_addr p h) (CYield t k)) w = Some (h, w') \<and>
    pRunCo w' = None \<and> \<not> isDynamicStack w' \<and> m_WorkMode w' = FIXED_STACKSIZE_POOL \<and> m_pCoPool w' = Some p' \<and>
    pool_rel p' us fs \<and> pool_map p' = (pool_map p)(h \<mapsto> v \<lparr> tExpireTime := t, isTimeOut := False \<rparr>) \<and>
    co_addr p' = co_addr p \<and> (\<forall>b. b \<noteq> co_addr p h \<longrightarrow> cos w' b = cos w b) \<and>
    status (cos w' (co_addr p h)) = CO_STATE_SUSPEND \<and>
    uc_cont (cos w' (co_addr p h)) = Some (KYield (co_addr p h) (co_addr p h) k)"
proof -
  let ?a = "co_addr p h"
  note f = w [unfolded running_def]
  have pl: "m_pCoPool w = Some p" using f by blast
  have g: "GetCo (m_iRunningID w) w = Some (Some ?a)" using GetCo_live [OF pl r pool_map_SomeD [OF v]] f by simp
  from upd_cell_live [OF pl r v, of "\<lambda>c. c \<lparr> tExpireTime := t, isTimeOut := False \<rparr>"] obtain p' where
    u: "upd_cell ?a (\<lambda>c. c \<lparr> tExpireTime := t, isTimeOut := False \<rparr>) w = Some (w \<lparr> m_pCoPool := Some p' \<rparr>)"
    and p': "pool_rel p' us fs" "pool_map p' = (pool_map p)(h \<mapsto> v \<lparr> tExpireTime := t, isTimeOut := False \<rparr>)"
      "co_addr p' = co_addr p" by blast
  let ?v = "upd_co ?a (\<lambda>c. c \<lparr> uc_cont := Some (KYield ?a ?a k) \<rparr>)
    ((upd_co ?a (\<lambda>c. c \<lparr> status := CO_STATE_SUSPEND \<rparr>) (w \<lparr> m_pCoPool := Some p' \<rparr>)) \<lparr> pRunCo := None \<rparr>)"
  have "co_yield mal sp (KYield ?a ?a k) (w \<lparr> m_pCoPool := Some p' \<rparr>) = Some (Inr (KMain h ?a), ?v)" for sp
    using f by (simp add: co_yield_def co_swapcontext_def)
  then have y: "Yield_call mal sp (\<lambda>q. KYield ?a q k) t w = Some (Inr (KMain h ?a), ?v)" for sp
    unfolding Yield_call_def g Option.bind.simps option.case u by simp
  have e: "enter_kont (KMain h ?a) ?v = Some (InMain h, ?v \<lparr> m_iRunningID := 0 \<rparr>)"
    by (simp add: Resume_after_def co_states)
  have "run_co mal szco spf (InCo ?a (CYield t k)) w = Some (h, ?v \<lparr> m_iRunningID := 0 \<rparr>)"
    unfolding run_co.simps [of _ _ _ "InCo ?a (CYield t k)"] control.case co_exec_def co_code.case return_to_def y
      Option.bind.simps prod.case sum.case e run_co.simps [of _ _ _ "InMain h"] ..
  then show ?thesis using f p' by (intro exI [of _ "?v \<lparr> m_iRunningID := 0 \<rparr>"] exI [of _ p']) simp
qed

lemma run_return:
  assumes w: "running p h w" and r: "pool_rel p us fs" and v: "pool_map p h = Some v"
  shows "\<exists>w' p' us' fs'. run_co mal szco spf (InCo (co_addr p h) (CReturn x)) w = Some (0, w') \<and>
    pRunCo w' = None \<and> \<not> isDynamicStack w' \<and> m_WorkMode w' = FIXED_STACKSIZE_POOL \<and> m_pCoPool w' = Some p' \<and>
    pool_rel p' us' fs' \<and> pool_map p' = (pool_map p)(h := None) \<and> co_addr p' = co_addr p \<and>
    (\<forall>b. b \<noteq> co_addr p h \<longrightarrow> cos w' b = cos w b)"
proof -
  let ?a = "co_addr p h"
  note f = w [unfolded running_def]
  have pl: "m_pCoPool w = Some p" using f by blast
  from pool_free_live [OF r pool_map_SomeD [OF v]] obtain p' us' fs' where
    p': "objpool_free (Some p) h = Some (0, Some p')" "pool_rel p' us' fs'" "pool_map p' = (pool_map p)(h := None)"
      "m_iCapacity p' = m_iCapacity p" "m_iUnitSize p' = m_iUnitSize p" by blast
  let ?v = "upd_co ?a (\<lambda>c. c \<lparr> uc_cont := Some KDead \<rparr>) ((upd_co ?a (\<lambda>c. c \<lparr> status := CO_STATE_END \<rparr>) w) \<lparr> pRunCo := None \<rparr>)"
  let ?w = "?v \<lparr> m_iRunningID := 0, m_pCoPool := Some p' \<rparr>"
  have pe: "process_end KDead ?a w = Some (Inr (KMain h ?a), ?v)"
    using f by (simp add: process_end_def co_swapcontext_def)
  have "objpool_get (Some p) h = Some (Some ?a)" using live_cell(1) [OF r pool_map_SomeD [OF v]] by (simp add: co_addr_def)
  then have "Release h (?v \<lparr> m_iRunningID := 0 \<rparr>) = Some (0, ?w)"
    using f p'(1) by (simp add: Release_def work_modes)
  then have e: "enter_kont (KMain h ?a) ?v = Some (InMain 0, ?w)" by (simp add: Resume_after_def)
  have "run_co mal szco spf (InCo ?a (CReturn x)) w = Some (0, ?w)"
    unfolding run_co.simps [of _ _ _ "InCo ?a (CReturn x)"] control.case co_exec_def co_code.case pe
      Option.bind.simps prod.case sum.case e run_co.simps [of _ _ _ "InMain 0"] ..
  moreover have "co_addr p' = co_addr p" using p'(4,5) by (simp add: co_addr_def fun_eq_iff)
  ultimately show ?thesis using f p'(2,3)
    by (intro exI [of _ ?w] exI [of _ p'] exI [of _ us'] exI [of _ fs']) simp
qed

section \<open>The manager as a map of suspended computations\<close>

datatype co_call = CallResume int | CallRelease int

fun sched_step :: "co_call \<Rightarrow> (int \<Rightarrow> co_code option) \<Rightarrow> (int \<times> (int \<Rightarrow> co_code option)) option" where
  "sched_step (CallResume h) m =
     (case m h of
        None \<Rightarrow> Some (-1, m)
      | Some (CYield t k) \<Rightarrow> Some (h, m(h \<mapsto> k 0))
      | Some (CReturn _) \<Rightarrow> Some (0, m(h := None))
      | _ \<Rightarrow> None)"
| "sched_step (CallRelease h) m = (if m h = None then Some (-1, m) else Some (0, m(h := None)))"

fun mgr_step :: "stack_alloc \<Rightarrow> int \<Rightarrow> (SCoMgr \<Rightarrow> int) \<Rightarrow> co_call \<Rightarrow> SCoMgr \<Rightarrow> (int \<times> SCoMgr) option" where
  "mgr_step mal szco spf (CallResume h) w = Resume mal szco spf h w"
| "mgr_step mal szco spf (CallRelease h) w = Release h w"

lemma mgr_relE:
  assumes "mgr_rel w m"
  obtains p us fs where "pRunCo w = None" "\<not> isDynamicStack w" "m_WorkMode w = FIXED_STACKSIZE_POOL"
    "m_pCoPool w = Some p" "pool_rel p us fs" "dom m = dom (pool_map p)"
    "\<And>h v. pool_map p h = Some v \<Longrightarrow> m h = next_code w (co_addr p h) v"
  using assms unfolding mgr_rel_def by blast

lemma mgr_rel_live:
  assumes "dom m = dom (pool_map p)" and "m h = Some c"
  obtains v where "pool_map p h = Some v"
  using assms by (metis domD domI)

text \<open>The other coroutines are not touched when only the structure at one address changes.\<close>

lemma mgr_rel_step:
  assumes m: "dom m = dom (pool_map p)" "\<And>h v. pool_map p h = Some v \<Longrightarrow> m h = next_code w (co_addr p h) v"
    and r: "pool_rel p us fs" and l: "pool_live p h"
    and w': "pRunCo w' = None" "\<not> isDynamicStack w'" "m_WorkMode w' = FIXED_STACKSIZE_POOL" "m_pCoPool w' = Some p'"
      "pool_rel p' us' fs'" "pool_map p' = (pool_map p)(h := x)" "co_addr p' = co_addr p"
      "\<And>b. b \<noteq> co_addr p h \<Longrightarrow> cos w' b = cos w b"
    and c: "case x of None \<Rightarrow> c = None | Some v \<Rightarrow> c \<noteq> None \<and> next_code w' (co_addr p h) v = c"
  shows "mgr_rel w' (m(h := c))"
proof -
  have "next_code w' (co_addr p g) v = m g" if "g \<noteq> h" "pool_map p g = Some v" for g v
  proof -
    have "co_addr p g \<noteq> co_addr p h" using co_addr_inj [OF r pool_map_SomeD [OF that(2)] l] that(1) by blast
    then show ?thesis using w'(8) [of "co_addr p g"] m(2) [OF that(2)] by (simp add: next_code_def)
  qed
  then have "(m(h := c)) g = next_code w' (co_addr p' g) v" if "pool_map p' g = Some v" for g v
    using that c w'(6,7) by (cases "g = h") auto
  moreover have "dom (m(h := c)) = dom (pool_map p')" using m(1) c w'(6) by (auto split: option.splits)
  ultimately show ?thesis using w' unfolding mgr_rel_def by blast
qed

lemma resume_step:
  assumes rel: "mgr_rel w m" and s: "sched_step (CallResume h) m = Some (r, m')"
  shows "\<exists>w'. Resume mal szco spf h w = Some (r, w') \<and> mgr_rel w' m'"
proof -
  obtain p us fs where w: "pRunCo w = None" "\<not> isDynamicStack w" "m_WorkMode w = FIXED_STACKSIZE_POOL"
    "m_pCoPool w = Some p" "pool_rel p us fs" and m: "dom m = dom (pool_map p)"
    "\<And>h v. pool_map p h = Some v \<Longrightarrow> m h = next_code w (co_addr p h) v" using mgr_relE [OF rel] by metis
  show ?thesis
  proof (cases "m h")
    case None
    then have "\<not> pool_live p h" using m(1) by (metis domIff pool_map_live)
    then have "Resume mal szco spf h w = Some (-1, w)"
      using GetCo_dead [OF w(4,5)] by (simp add: Resume_def Resume_call_def)
    then show ?thesis using None s rel by simp
  next
    case (Some c)
    obtain v where v: "pool_map p h = Some v" using mgr_rel_live [OF m(1) Some] .
    have nc: "next_code w (co_addr p h) v = Some c" using m(2) [OF v] Some by simp
    from Resume_enters [OF w(1,2,4,5) v nc, of mal szco spf] obtain u where
      u: "Resume mal szco spf h w = run_co mal szco spf (InCo (co_addr p h) c) u" "running p h u"
      and oth: "\<And>b. b \<noteq> co_addr p h \<Longrightarrow> cos u b = cos w b"
      using w(3) by (auto simp: running_def)
    note l = pool_map_SomeD [OF v]
    consider (ret) y where "c = CReturn y" "r = 0" "m' = m(h := None)"
      | (yld) t k where "c = CYield t k" "r = h" "m' = m(h \<mapsto> k 0)"
      using s Some by (auto split: co_code.splits)
    then show ?thesis
    proof cases
      case ret
      from run_return [OF u(2) w(5) v] obtain w' p' us' fs' where w':
        "run_co mal szco spf (InCo (co_addr p h) (CReturn y)) u = Some (0, w')"
        "pRunCo w' = None" "\<not> isDynamicStack w'" "m_WorkMode w' = FIXED_STACKSIZE_POOL" "m_pCoPool w' = Some p'"
        "pool_rel p' us' fs'" "pool_map p' = (pool_map p)(h := None)" "co_addr p' = co_addr p"
        "\<And>b. b \<noteq> co_addr p h \<Longrightarrow> cos w' b = cos u b" by metis
      have "mgr_rel w' (m(h := None))"
        by (rule mgr_rel_step [OF m w(5) l w'(2-8)]) (use w'(9) oth in auto)
      then show ?thesis using u(1) w'(1) ret by simp
    next
      case yld
      from run_yield [OF u(2) w(5) v] obtain w' p' where w':
        "run_co mal szco spf (InCo (co_addr p h) (CYield t k)) u = Some (h, w')"
        "pRunCo w' = None" "\<not> isDynamicStack w'" "m_WorkMode w' = FIXED_STACKSIZE_POOL" "m_pCoPool w' = Some p'"
        "pool_rel p' us fs" "pool_map p' = (pool_map p)(h \<mapsto> v \<lparr> tExpireTime := t, isTimeOut := False \<rparr>)"
        "co_addr p' = co_addr p" "\<And>b. b \<noteq> co_addr p h \<Longrightarrow> cos w' b = cos u b"
        "status (cos w' (co_addr p h)) = CO_STATE_SUSPEND"
        "uc_cont (cos w' (co_addr p h)) = Some (KYield (co_addr p h) (co_addr p h) k)" by metis
      have "mgr_rel w' (m(h := Some (k 0)))"
        by (rule mgr_rel_step [OF m w(5) l w'(2-8)])
          (use w'(9,10,11) oth in \<open>auto simp: next_code_def co_states\<close>)
      then show ?thesis using u(1) w'(1) yld by simp
    qed
  qed
qed

lemma release_step:
  assumes rel: "mgr_rel w m" and s: "sched_step (CallRelease h) m = Some (r, m')"
  shows "\<exists>w'. Release h w = Some (r, w') \<and> mgr_rel w' m'"
proof -
  obtain p us fs where w: "pRunCo w = None" "\<not> isDynamicStack w" "m_WorkMode w = FIXED_STACKSIZE_POOL"
    "m_pCoPool w = Some p" "pool_rel p us fs" and m: "dom m = dom (pool_map p)"
    "\<And>h v. pool_map p h = Some v \<Longrightarrow> m h = next_code w (co_addr p h) v" using mgr_relE [OF rel] by metis
  show ?thesis
  proof (cases "m h")
    case None
    then have "\<not> pool_live p h" using m(1) by (metis domIff pool_map_live)
    then have "Release h w = Some (-1, w)" using w(4,5) by (simp add: Release_def objpool_get_rel)
    then show ?thesis using None s rel by simp
  next
    case (Some c)
    obtain v where v: "pool_map p h = Some v" using mgr_rel_live [OF m(1) Some] .
    note l = pool_map_SomeD [OF v]
    from pool_free_live [OF w(5) l] obtain p' us' fs' where
      p': "objpool_free (Some p) h = Some (0, Some p')" "pool_rel p' us' fs'" "pool_map p' = (pool_map p)(h := None)"
        "m_iCapacity p' = m_iCapacity p" "m_iUnitSize p' = m_iUnitSize p" by blast
    let ?w = "w \<lparr> m_pCoPool := Some p' \<rparr>"
    have "Release h w = Some (0, ?w)"
      using w p'(1) l by (simp add: Release_def objpool_get_rel work_modes)
    moreover have "co_addr p' = co_addr p" using p'(4,5) by (simp add: co_addr_def fun_eq_iff)
    then have "mgr_rel ?w (m(h := None))"
      by (intro mgr_rel_step [OF m w(5) l _ _ _ _ p'(2,3)]) (use w in auto)
    ultimately show ?thesis using Some s by auto
  qed
qed

interpretation mgr_sim: step_simulation mgr_rel "\<lambda>_. True" sched_step "mgr_step mal szco spf" for mal szco spf
proof unfold_locales
  fix c a x r a'
  assume "mgr_rel c a" "sched_step x a = Some (r, a')"
  then show "\<exists>c'. mgr_step mal szco spf x c = Some (r, c') \<and> mgr_rel c' a'"
    by (cases x) (auto dest: resume_step release_step simp del: sched_step.simps)
qed

lemma pool_size_bounds:
  assumes "0 < (u :: int)" "0 < n" "(u + 16) * n + 40 < B"
  shows "u < B" "n < B"
proof -
  obtain P where P: "P = (u + 16) * n" by blast
  have "u + 16 \<le> P" "n \<le> P"
    using mult_left_mono [of 1 n "u + 16"] mult_right_mono [of 1 "u + 16" n] assms(1,2) unfolding P by simp_all
  with assms(3) show "u < B" "n < B" unfolding P [symmetric] by linarith+
qed

lemma InitCoMgr_ok:
  assumes "m_pCoPool w = None" "0 < iPoolSize" "0 < szco + iArgSize + iStackSize"
    and b: "(szco + iArgSize + iStackSize + 16) * iPoolSize + 40 < 2147483648"
    and m: "malloc ((szco + iArgSize + iStackSize + 16) * iPoolSize + 40)"
  shows "\<exists>w' p fs. InitCoMgr malloc garbage rlim mal szco iArgSize iStackSize iPoolSize FIXED_STACKSIZE_POOL af ff w = Some (0, w') \<and>
    mgr_rel w' Map.empty \<and> m_iArgSize w' = iArgSize \<and> m_pCoPool w' = Some p \<and> pool_rel p [] fs \<and> m_iCapacity p = iPoolSize"
proof -
  let ?u = "szco + iArgSize + iStackSize"
  note lt = pool_size_bounds [OF assms(3,2) b]
  have e: "u64 (s32 ?u) = ?u" "u64 iPoolSize = iPoolSize" using assms(2,3) lt by (simp_all add: s32_id u64_id)
  from objpool_init_ok [of "nat (u64 iPoolSize)" "nat (u64 (s32 ?u))" malloc garbage None] obtain p where p:
    "objpool_init malloc garbage (Some None) (nat (u64 iPoolSize)) (nat (u64 (s32 ?u))) = Some (0, Some (Some p))"
    "pool_rel p [] [0..<nat (u64 iPoolSize)]" "pool_map p = Map.empty" "m_iCapacity p = iPoolSize"
    using assms unfolding e by auto
  show ?thesis using assms(1) p by (simp add: InitCoMgr_def work_modes mgr_rel_def) blast
qed

lemma Alloc_ok:
  assumes rel: "mgr_rel w m" and room: "card (dom m) < ptr_capacity (m_pCoPool w)"
    and a: "0 \<le> m_iArgSize w" "m_iArgSize w \<le> int (length bs)"
  shows "\<exists>h w'. Alloc mal szco f bs n w = Some (h, w') \<and> 0 < h \<and> m h = None \<and> mgr_rel w' (m(h \<mapsto> f h)) \<and>
    GetArg h w' = Some (Some (take (nat (m_iArgSize w)) bs))"
proof -
  obtain p us fs where w: "pRunCo w = None" "\<not> isDynamicStack w" "m_WorkMode w = FIXED_STACKSIZE_POOL"
    "m_pCoPool w = Some p" "pool_rel p us fs" and m: "dom m = dom (pool_map p)"
    "\<And>h v. pool_map p h = Some v \<Longrightarrow> m h = next_code w (co_addr p h) v" using mgr_relE [OF rel] by metis
  note c = pool_shapeD [OF pool_relD(1) [OF w(5)]]
  have "length us < length (m_pIdx p)" using room m(1) w(4) pool_card [OF w(5)] c(1) by (simp add: ptr_capacity_def)
  then obtain i fs' where fs: "fs = i # fs'" using pool_chains_length [OF pool_relD(2) [OF w(5)]] by (cases fs) auto
  from pool_alloc_room [OF w(5) [unfolded fs]] obtain h p1 v where p1:
    "objpool_alloc (Some p) = Some (h, Some p1)" "pool_rel p1 (i # us) fs'" "m_iCapacity p \<le> h" "pool_map p h = None"
    "pool_map p1 = (pool_map p)(h \<mapsto> v)" "m_iCapacity p1 = m_iCapacity p" "m_iUnitSize p1 = m_iUnitSize p" by blast
  have "0 < m_iCapacity p" using c(1,2) by simp
  then have h: "0 < h" using p1(3) by linarith
  let ?w1 = "w \<lparr> m_pCoPool := Some p1 \<rparr>" and ?a = "co_addr p1 h"
  have ad: "co_addr p1 = co_addr p" using p1(6,7) by (simp add: co_addr_def fun_eq_iff)
  have v1: "pool_map p1 h = Some v" using p1(5) by simp
  have g: "GetCo h ?w1 = Some (Some ?a)" using GetCo_live [OF _ p1(2) pool_map_SomeD [OF v1]] by simp
  from upd_cell_live [of ?w1 p1, OF _ p1(2) v1, of "\<lambda>c. c \<lparr> iPoolID := h, tExpireTime := 0, isTimeOut := False \<rparr>"] obtain p2 where p2:
    "upd_cell ?a (\<lambda>c. c \<lparr> iPoolID := h, tExpireTime := 0, isTimeOut := False \<rparr>) ?w1 = Some (w \<lparr> m_pCoPool := Some p2 \<rparr>)"
    "pool_rel p2 (i # us) fs'" "pool_map p2 = (pool_map p1)(h \<mapsto> v \<lparr> iPoolID := h, tExpireTime := 0, isTimeOut := False \<rparr>)"
    "co_addr p2 = co_addr p1" by auto
  let ?bytes = "take (nat (m_iArgSize w)) bs"
  have rd: "mem_read bs 0 (m_iArgSize w) = Some ?bytes" using a by (simp add: mem_read_def)
  have v2: "pool_map p2 h = Some (v \<lparr> iPoolID := h, tExpireTime := 0, isTimeOut := False \<rparr>)" using p2(3) by simp
  from upd_cell_live [of "w \<lparr> m_pCoPool := Some p2 \<rparr>" p2, OF _ p2(2) v2, of "\<lambda>c. c \<lparr> m_Buf := ?bytes \<rparr>"] obtain p3 where p3:
    "upd_cell ?a (\<lambda>c. c \<lparr> m_Buf := ?bytes \<rparr>) (w \<lparr> m_pCoPool := Some p2 \<rparr>) = Some (w \<lparr> m_pCoPool := Some p3 \<rparr>)"
    "pool_rel p3 (i # us) fs'" "co_addr p3 = co_addr p1"
    "pool_map p3 = (pool_map p2)(h \<mapsto> v \<lparr> iPoolID := h, tExpireTime := 0, isTimeOut := False, m_Buf := ?bytes \<rparr>)"
    using p2(4) by auto
  let ?w = "snd (co_init (Some ?a) f h (?a + szco + m_iArgSize w) (m_iDefaultStackSize w) (w \<lparr> m_pCoPool := Some p3 \<rparr>))"
  have nh: "\<not> 0 > h" using h by simp
  have al: "Alloc mal szco f bs n w = Some (h, ?w)"
    unfolding Alloc_def w(4) p1(1) Option.bind.simps prod.case Let_def if_not_P [OF nh] g option.case p2(1)
    using w(3) rd p3(1) by (simp add: work_modes co_init_def)
  have wf: "m_pCoPool ?w = Some p3" "pRunCo ?w = None" "\<not> isDynamicStack ?w" "m_WorkMode ?w = FIXED_STACKSIZE_POOL"
      "b \<noteq> ?a \<Longrightarrow> cos ?w b = cos w b" "status (cos ?w ?a) = CO_STATE_READY" "func (cos ?w ?a) = f" "arg (cos ?w ?a) = h" for b
    using w by (simp_all add: co_init_def)
  have v3: "pool_map p3 h = Some (v \<lparr> iPoolID := h, tExpireTime := 0, isTimeOut := False, m_Buf := ?bytes \<rparr>)" using p3(4) by simp
  have pm: "pool_map p3 g = pool_map p g" if "g \<noteq> h" for g using that p3(4) p2(3) p1(5) by simp
  have "next_code ?w (co_addr p3 g) x = (m(h \<mapsto> f h)) g" if "pool_map p3 g = Some x" for g x
  proof (cases "g = h")
    case True
    then show ?thesis using wf(6-8) p3(3) by (simp add: next_code_def)
  next
    case False
    have "co_addr p3 g \<noteq> co_addr p3 h"
      using co_addr_inj [OF p3(2) pool_map_SomeD [OF that] pool_map_SomeD [OF v3]] False by blast
    then have "cos ?w (co_addr p g) = cos w (co_addr p g)" using wf(5) p3(3) ad by simp
    then have "next_code ?w (co_addr p g) x = next_code w (co_addr p g) x" unfolding next_code_def by simp
    moreover have "co_addr p3 g = co_addr p g" using p3(3) ad by simp
    ultimately show ?thesis using m(2) [of g x] that pm [OF False] False by simp
  qed
  moreover have "dom (m(h \<mapsto> f h)) = dom (pool_map p3)" using m(1) p3(4) p2(3) p1(5) by auto
  ultimately have "mgr_rel ?w (m(h \<mapsto> f h))" using wf(1-4) p3(2) unfolding mgr_rel_def by fastforce
  moreover have "GetArg h ?w = Some (Some ?bytes)"
    using GetCo_live [OF wf(1) p3(2) pool_map_SomeD [OF v3]] get_cell_live [OF wf(1) p3(2) v3] by (simp add: GetArg_def)
  moreover have "m h = None" using m(1) p1(4) by (metis domIff)
  ultimately show ?thesis using al h by blast
qed


text \<open>
  \<open>Alloc\<close> on a manager with a free slot adds one computation, the function applied to the
  new id, under an id that was not live; \<open>GetArg\<close> then returns the copy of the argument.
\<close>

theorem Alloc_adds_computation:
  assumes "mgr_rel w m" and "card (dom m) < ptr_capacity (m_pCoPool w)"
    and "0 \<le> m_iArgSize w" and "m_iArgSize w \<le> int (length bs)"
  shows "\<exists>h w'. Alloc mal szco f bs n w = Some (h, w') \<and> 0 < h \<and> m h = None \<and> mgr_rel w' (m(h \<mapsto> f h)) \<and>
    GetArg h w' = Some (Some (take (nat (m_iArgSize w)) bs))"
  by (rule Alloc_ok [OF assms])

definition idle_mgr :: SCoMgr where
  "idle_mgr = \<lparr> sch_sp = 0, sch_size = 0, sch_cont = None, isDynamicStack = False, pRunCo = None, allocfunc = False,
     freefunc = False, secondstackmaxsize = 0, secondstack = 0, firststackmaxsize = 0, firststack = 0,
     blocks = Map.empty,
     cos = (\<lambda>_. \<lparr> func = CReturn, arg = 0, uc_sp = 0, uc_size = 0, uc_link = SchCtx, uc_cont = None,
       status = 0, parent = None, stacksize = 0, stackmaxsize = 0, stack = 0, usesecondstack = False \<rparr>),
     m_WorkMode = 0, m_pCoPool = None, m_iDefaultStackSize = 0, m_iArgSize = 0, m_iRunningID = 0 \<rparr>"

lemma idle_mgr_init: "\<exists>w p fs. InitCoMgr (\<lambda>_. True) (\<lambda>_. g) None fresh_alloc 1000 2 64 3 FIXED_STACKSIZE_POOL False False (SCoMgr_new idle_mgr)
    = Some (0, w) \<and> mgr_rel w Map.empty \<and> m_iArgSize w = 2 \<and> m_pCoPool w = Some p \<and> pool_rel p [] fs \<and> m_iCapacity p = 3"
  by (rule InitCoMgr_ok) (simp_all add: SCoMgr_new_def idle_mgr_def)

theorem Alloc_adds_computation_witness:
  "\<exists>w h w'. mgr_rel w Map.empty \<and> Alloc fresh_alloc 1000 CReturn [1, 2, 3] 3 w = Some (h, w') \<and>
    mgr_rel w' [h \<mapsto> CReturn h] \<and> GetArg h w' = Some (Some [1, 2])"
proof -
  obtain w p fs where w: "mgr_rel w Map.empty" "m_iArgSize w = 2" "m_pCoPool w = Some p" "m_iCapacity p = 3"
    using idle_mgr_init by blast
  from Alloc_adds_computation [OF w(1), of "[1, 2, 3]" fresh_alloc 1000 CReturn 3] w show ?thesis
    by (auto simp: ptr_capacity_def)
qed


text \<open>
  After a nested \<open>Resume\<close> has returned to a coroutine, that coroutine cannot yield: \<open>Resume\<close>
  leaves 0 as the id of the running coroutine, no coroutine has that id, and \<open>Yield\<close> returns -1
  without giving up control.
\<close>

theorem Yield_after_nested_Resume_fails:
  assumes "m_pCoPool w = Some p" and "pool_inv p" and "Resume_after h a w = Some (r, w')"
  shows "Yield_call mal sp k t w' = Some (Inl (-1), w')"
proof -
  obtain us fs where r: "pool_rel p us fs" using assms(2) by (auto simp: pool_inv_def)
  have "m_iRunningID w' = 0 \<and> (\<exists>q us fs. m_pCoPool w' = Some q \<and> pool_rel q us fs)"
  proof (cases "status (cos w a) = CO_STATE_END")
    case False
    then have "w' = w \<lparr> m_iRunningID := 0 \<rparr>" using assms(3) by (simp add: Resume_after_def)
    then show ?thesis using assms(1) r by (intro conjI exI [of _ p] exI [of _ us] exI [of _ fs]) simp_all
  next
    case True
    then obtain x where rel: "Release h (w \<lparr> m_iRunningID := 0 \<rparr>) = Some (x, w')"
      using assms(3) by (auto simp: Resume_after_def split: bind_splits)
    show ?thesis
    proof (cases "pool_live p h")
      case False
      then have "w' = w \<lparr> m_iRunningID := 0 \<rparr>" using rel assms(1) r by (simp add: Release_def objpool_get_rel)
      then show ?thesis using assms(1) r by (intro conjI exI [of _ p] exI [of _ us] exI [of _ fs]) simp_all
    next
      case live: True
      obtain p' us' fs' where f: "objpool_free (Some p) h = Some (0, Some p')" "pool_rel p' us' fs'"
        using pool_free_live [OF r live] by blast
      have "m_iRunningID w' = 0 \<and> m_pCoPool w' = Some p'"
        using rel assms(1) objpool_get_rel [OF r, of h] live f(1)
        by (auto simp: Release_def co_free_def upd_co_def split: bind_splits if_splits)
      with f(2) show ?thesis by blast
    qed
  qed
  then obtain q us' fs' where q: "m_iRunningID w' = 0" "m_pCoPool w' = Some q" "pool_rel q us' fs'" by blast
  note c = pool_shapeD [OF pool_relD(1) [OF q(3)]]
  have "\<not> pool_live q 0"
  proof
    assume "pool_live q 0"
    then obtain i where i: "i \<in> set us'" "0 = acc_of q i * m_iCapacity q + int i" using pool_live_iff [OF q(3)] by blast
    then have "i < length (m_pIdx q)" using pool_relD(2) [OF q(3)] by (auto simp: pool_chains_def)
    then have "1 \<le> acc_of q i" using pool_relD(3) [OF q(3)] i(1) by (simp add: acc_ok_def)
    then have "1 * m_iCapacity q \<le> acc_of q i * m_iCapacity q" using c(1) by (intro mult_right_mono) auto
    then show False using i(2) c(1,2) by simp
  qed
  then show ?thesis using GetCo_dead [OF q(2,3)] q(1) by (simp add: Yield_call_def)
qed

theorem Yield_after_nested_Resume_fails_witness:
  "\<exists>w w'. Resume_after 7 0 w = Some (7, w') \<and> Yield_call fresh_alloc 0 (\<lambda>_. KDead) 9 w' = Some (Inl (-1), w')"
proof -
  obtain w :: SCoMgr and p fs where w: "m_pCoPool w = Some p" "pool_rel p [] fs" using idle_mgr_init by metis
  let ?w = "upd_co 0 (\<lambda>c. c \<lparr> status := CO_STATE_SUSPEND \<rparr>) w"
  have r: "Resume_after 7 0 ?w = Some (7, ?w \<lparr> m_iRunningID := 0 \<rparr>)" by (simp add: Resume_after_def co_states)
  have "pool_inv p" using w(2) by (auto simp: pool_inv_def)
  moreover have "m_pCoPool ?w = Some p" using w(1) by simp
  ultimately have "Yield_call fresh_alloc 0 (\<lambda>_. KDead) 9 (?w \<lparr> m_iRunningID := 0 \<rparr>) = Some (Inl (-1), ?w \<lparr> m_iRunningID := 0 \<rparr>)"
    by (intro Yield_after_nested_Resume_fails [OF _ _ r])
  with r show ?thesis by blast
qed

end
