(* ===== verification/X86.thy ===== *)
theory X86
  imports Bytes
begin

unbundle bit_operations_syntax

text \<open>
  The part of the i386 and x86-64 machines that \<^verbatim>\<open>src/util/coroutine/co_swapcontext.S\<close> uses:
  the integer registers, the segment register \<open>fs\<close>, a memory of bytes and the instructions of that
  file in its AT\&T order of operands. The length of the machine word \<open>'w\<close> is 32 or 64; an address
  wraps around at that length, and words are stored with the low byte first.
\<close>

section \<open>Words in a memory of bytes\<close>

type_synonym 'w memory = "'w word \<Rightarrow> byte"

definition wbytes :: "'w :: len itself \<Rightarrow> nat" where
  "wbytes t = LENGTH('w) div 8"

definition byte_of :: "nat \<Rightarrow> 'w :: len word \<Rightarrow> byte" where
  "byte_of i v = ucast (drop_bit (8 * i) v)"

definition of_bytes :: "byte list \<Rightarrow> 'w :: len word" where
  "of_bytes bs = foldr (\<lambda>b w. ucast b OR push_bit 8 w) bs 0"

definition load :: "'w :: len word \<Rightarrow> 'w memory \<Rightarrow> 'w word" where
  "load a m = of_bytes (map (\<lambda>i. m (a + of_nat i)) [0..<wbytes TYPE('w)])"

definition store :: "'w :: len word \<Rightarrow> 'w word \<Rightarrow> 'w memory \<Rightarrow> 'w memory" where
  "store a v m = (\<lambda>x. if unat (x - a) < wbytes TYPE('w) then byte_of (unat (x - a)) v else m x)"

text \<open>The \<open>n\<close> bytes at \<open>a\<close> and the \<open>k\<close> bytes at \<open>b\<close> have no byte in common.\<close>

definition apart :: "nat \<Rightarrow> 'w :: len word \<Rightarrow> nat \<Rightarrow> 'w word \<Rightarrow> bool" where
  "apart n a k b \<longleftrightarrow> (\<forall>i\<in>{..<n}. \<forall>j\<in>{..<k}. a + of_nat i \<noteq> b + of_nat j)"

lemma apart_sym: "apart n a k b \<Longrightarrow> apart k b n a"
  unfolding apart_def by metis

lemma apart_sub:
  assumes "apart n a k b" "o1 + n' \<le> n" "o2 + k' \<le> k"
  shows "apart n' (a + of_nat o1) k' (b + of_nat o2)"
  unfolding apart_def
proof (intro ballI)
  fix i j assume "i \<in> {..<n'}" "j \<in> {..<k'}"
  then have "o1 + i \<in> {..<n}" "o2 + j \<in> {..<k}" using assms by auto
  then have "a + of_nat (o1 + i) \<noteq> b + of_nat (o2 + j)" using assms(1) unfolding apart_def by blast
  then show "a + of_nat o1 + of_nat i \<noteq> b + of_nat o2 + of_nat j" by (simp add: add.assoc)
qed

lemma of_bytes_byte_of:
  fixes v :: "'w :: len word"
  shows "of_bytes (map (\<lambda>i. byte_of i v) [0..<n]) = take_bit (8 * n) v"
proof (induction n arbitrary: v)
  case 0
  show ?case by (simp add: of_bytes_def)
next
  case (Suc n)
  have "of_bytes (map (\<lambda>i. byte_of i v) [0..<Suc n]) =
    ucast (byte_of 0 v) OR push_bit 8 (of_bytes (map (\<lambda>i. byte_of i (drop_bit 8 v)) [0..<n]) :: 'w word)"
    by (simp add: of_bytes_def byte_of_def upt_conv_Cons del: upt_Suc flip: map_Suc_upt)
      (simp add: comp_def add.commute)
  also have "\<dots> = take_bit (8 * Suc n) v"
    unfolding Suc by (rule bit_word_eqI) (auto simp: byte_of_def bit_simps not_less)
  finally show ?case .
qed

lemma load_store [simp]:
  fixes a :: "'w :: len word"
  assumes "8 dvd LENGTH('w)"
  shows "load a (store a v m) = v"
proof -
  have n: "8 * wbytes TYPE('w) = LENGTH('w)" using assms by (simp add: wbytes_def)
  have "unat (of_nat i :: 'w word) = i" if "i < wbytes TYPE('w)" for i
  proof -
    have "i < 2 ^ LENGTH('w)" using that n less_exp [of "LENGTH('w)"] by linarith
    then show ?thesis by (simp add: unat_of_nat)
  qed
  then have "load a (store a v m) = of_bytes (map (\<lambda>i. byte_of i v) [0..<wbytes TYPE('w)])"
    unfolding load_def store_def by (intro arg_cong [where f = of_bytes]) simp
  then show ?thesis by (simp add: of_bytes_byte_of n)
qed

lemma load_store_apart:
  fixes a :: "'w :: len word"
  assumes "apart (wbytes TYPE('w)) a (wbytes TYPE('w)) b"
  shows "load b (store a v m) = load b m"
proof -
  have "\<not> unat (b + of_nat i - a) < wbytes TYPE('w)" if "i < wbytes TYPE('w)" for i
  proof
    assume "unat (b + of_nat i - a) < wbytes TYPE('w)"
    moreover have "a + of_nat (unat (b + of_nat i - a)) = b + of_nat i" by simp
    ultimately show False using assms that unfolding apart_def by (metis lessThan_iff)
  qed
  then show ?thesis unfolding load_def store_def by (intro arg_cong [where f = of_bytes]) simp
qed

text \<open>Two words whose addresses differ by at least the size of a word are apart.\<close>

lemma apart_diff:
  fixes a :: "'w :: len word"
  assumes "n \<le> unat (b - a)" "k \<le> unat (a - b)"
  shows "apart n a k b"
  unfolding apart_def
proof (intro ballI notI)
  fix i j assume ij: "i \<in> {..<n}" "j \<in> {..<k}" and eq: "a + of_nat i = b + of_nat j"
  have n: "n < 2 ^ LENGTH('w)" "k < 2 ^ LENGTH('w)"
    using assms by (meson le_less_trans unsigned_less)+
  show False
  proof (cases "j \<le> i")
    case True
    then have "b - a = of_nat (i - j)" using eq by (simp add: of_nat_diff algebra_simps)
    moreover have "unat (of_nat (i - j) :: 'w word) = i - j" using ij n by (simp add: unat_of_nat take_bit_nat_eq_self)
    ultimately show ?thesis using assms(1) ij by simp
  next
    case False
    then have "a - b = of_nat (j - i)" using eq by (simp add: of_nat_diff algebra_simps)
    moreover have "unat (of_nat (j - i) :: 'w word) = j - i" using ij n by (simp add: unat_of_nat take_bit_nat_eq_self)
    ultimately show ?thesis using assms(2) ij by simp
  qed
qed

text \<open>A word depends on its own bytes only, and storing what is there changes nothing.\<close>

lemma load_cong:
  fixes a :: "'w :: len word"
  shows "(\<And>i. i < wbytes TYPE('w) \<Longrightarrow> m (a + of_nat i) = m' (a + of_nat i)) \<Longrightarrow> load a m = load a m'"
  unfolding load_def by (intro arg_cong [where f = of_bytes]) simp

lemma store_outside:
  fixes a :: "'w :: len word"
  assumes "\<And>i. i < wbytes TYPE('w) \<Longrightarrow> x \<noteq> a + of_nat i"
  shows "store a v m x = m x"
proof -
  have "x = a + of_nat (unat (x - a))" by simp
  then show ?thesis using assms unfolding store_def by metis
qed

lemma byte_of_of_bytes:
  assumes "i < length bs" "8 * length bs \<le> LENGTH('w)"
  shows "byte_of i (of_bytes bs :: 'w :: len word) = bs ! i"
  using assms
proof (induction bs arbitrary: i)
  case (Cons b bs)
  have 0: "of_bytes (b # bs) = ucast b OR push_bit 8 (of_bytes bs :: 'w word)" by (simp add: of_bytes_def)
  show ?case
  proof (cases i)
    case 0
    show ?thesis unfolding \<open>i = 0\<close> byte_of_def \<open>of_bytes (b # bs) = _\<close>
      using Cons.prems by (auto intro!: bit_word_eqI simp: bit_simps)
  next
    case (Suc j)
    have [simp]: "\<not> bit b (8 + k)" for k using bit_imp_le_length [of b "8 + k"] by auto
    have "byte_of (Suc j) (of_bytes (b # bs) :: 'w word) = byte_of j (of_bytes bs :: 'w word)"
      unfolding byte_of_def 0 using Cons.prems Suc
      by (auto intro!: bit_word_eqI simp: bit_simps add.assoc)
    then show ?thesis using Cons Suc by simp
  qed
qed simp

lemma store_load:
  fixes a :: "'w :: len word"
  shows "store a (load a m) m = m"
proof
  fix x
  have "8 * wbytes TYPE('w) \<le> LENGTH('w)" by (simp add: wbytes_def)
  then show "store a (load a m) m x = m x" by (simp add: store_def load_def byte_of_of_bytes)
qed

section \<open>Instructions\<close>

datatype reg = AX | BX | CX | DX | SI | DI | BP | SP | R8 | R9 | R12 | R13 | R14 | R15

text \<open>
  \<open>x87cw\<close> and \<open>mxcsr\<close> are the control words of the floating-point units, which no instruction of
  the file reads or writes. \<open>ip\<close> is where the machine goes on after a \<open>ret\<close>.
\<close>

record 'a machine =
  regs :: "reg \<Rightarrow> 'a"
  fs :: "16 word"
  x87cw :: "16 word"
  mxcsr :: "32 word"
  mem :: "'a \<Rightarrow> byte"
  ip :: "'a"

datatype instr =
    MovRM reg int reg    \<comment> \<open>\<open>mov %src, off(%base)\<close>\<close>
  | MovMR int reg reg    \<comment> \<open>\<open>mov off(%base), %dst\<close>\<close>
  | MovIM int int reg    \<comment> \<open>\<open>mov $imm, off(%base)\<close>\<close>
  | Lea int reg reg      \<comment> \<open>\<open>lea off(%base), %dst\<close>\<close>
  | Xorl reg reg         \<comment> \<open>\<open>xorl %src, %dst\<close>: 32 bits, the rest of the register becomes 0\<close>
  | MovFsR reg           \<comment> \<open>\<open>movw %fs, %dst\<close>: the low 16 bits\<close>
  | MovRFs reg           \<comment> \<open>\<open>movw %src, %fs\<close>\<close>
  | Push reg
  | Ret

definition ea :: "int \<Rightarrow> reg \<Rightarrow> 'w :: len word machine \<Rightarrow> 'w word" where
  "ea off base s = regs s base + word_of_int off"

definition set_reg :: "reg \<Rightarrow> 'w :: len word \<Rightarrow> 'w word machine \<Rightarrow> 'w word machine" where
  "set_reg r v s = s \<lparr> regs := (regs s)(r := v) \<rparr>"

definition set_mem :: "'w :: len word \<Rightarrow> 'w word \<Rightarrow> 'w word machine \<Rightarrow> 'w word machine" where
  "set_mem a v s = s \<lparr> mem := store a v (mem s) \<rparr>"

fun exec1 :: "instr \<Rightarrow> 'w :: len word machine \<Rightarrow> 'w word machine" where
  "exec1 (MovRM src off base) s = set_mem (ea off base s) (regs s src) s"
| "exec1 (MovMR off base dst) s = set_reg dst (load (ea off base s) (mem s)) s"
| "exec1 (MovIM imm off base) s = set_mem (ea off base s) (word_of_int imm) s"
| "exec1 (Lea off base dst) s = set_reg dst (ea off base s) s"
| "exec1 (Xorl src dst) s =
     set_reg dst (ucast ((ucast (regs s dst) :: 32 word) XOR ucast (regs s src))) s"
| "exec1 (MovFsR dst) s =
     set_reg dst (push_bit 16 (drop_bit 16 (regs s dst)) OR ucast (fs s)) s"
| "exec1 (MovRFs src) s = s \<lparr> fs := ucast (regs s src) \<rparr>"
| "exec1 (Push r) s =
     (let sp = regs s SP - of_nat (wbytes TYPE('w)) in set_reg SP sp (set_mem sp (regs s r) s))"
| "exec1 Ret s =
     (set_reg SP (regs s SP + of_nat (wbytes TYPE('w))) s) \<lparr> ip := load (regs s SP) (mem s) \<rparr>"

text \<open>The code has no jump: it runs from its entry to the \<open>ret\<close>. \<open>None\<close> is running past the end.\<close>

fun exec :: "instr list \<Rightarrow> 'w :: len word machine \<Rightarrow> 'w word machine option" where
  "exec [] s = None"
| "exec (i # is) s = (if i = Ret then Some (exec1 Ret s) else exec is (exec1 i s))"

lemma exec_append:
  "Ret \<notin> set is \<Longrightarrow> exec (is @ js) s = exec js (fold exec1 is s)"
  by (induction "is" arbitrary: s) auto

end
