(* ===== verification/CoSwapContext.thy ===== *)
theory CoSwapContext
  imports X86 Coroutine
begin

text \<open>
  The context switch of \<^verbatim>\<open>src/util/coroutine/co_swapcontext.S\<close>, in its two versions: the
  instructions of the file on the machine of theory \<open>X86\<close>. The coroutines see a context as a
  saved continuation (\<open>co_swapcontext\<close> in theory \<open>Coroutine\<close>); here a continuation is what the
  code puts into a \<open>ucontext_t\<close>, and the locale \<open>context_switch\<close> shows, for both versions at
  once, that the code refines that view and that a function that was switched away from goes on
  with the registers it had.
\<close>

section \<open>What a context switch promises\<close>

text \<open>
  \<open>ctx_at\<close> reads the continuation out of the context at an address and \<open>put_ctx\<close> saves one there;
  \<open>cont\<close> is the continuation of the caller, \<open>called from to\<close> that the machine is at the entry of the
  code with these arguments, with its part of the stack outside the context \<open>from\<close>, and \<open>resumed\<close>
  that the registers are those of a continuation. The code pushes the address to return to below the
  stack pointer of the target.
\<close>

locale context_switch =
  fixes prog :: "instr list"
    and csize :: nat
    and ctx_at :: "'w :: len word \<Rightarrow> 'w memory \<Rightarrow> 'k"
    and put_ctx :: "'w word \<Rightarrow> 'k \<Rightarrow> 'w memory \<Rightarrow> 'w memory"
    and cont :: "'w word machine \<Rightarrow> 'k"
    and slot :: "'k \<Rightarrow> 'w word"
    and target :: "'k \<Rightarrow> 'w word"
    and called :: "'w word \<Rightarrow> 'w word \<Rightarrow> 'w word machine \<Rightarrow> bool"
    and resumed :: "'k \<Rightarrow> 'w word machine \<Rightarrow> bool"
  assumes get_put: "ctx_at a (put_ctx a k m) = k"
    and ctx_local: "(\<And>i. i < csize \<Longrightarrow> m (a + of_nat i) = m' (a + of_nat i)) \<Longrightarrow> ctx_at a m = ctx_at a m'"
    and put_outside: "(\<And>i. i < csize \<Longrightarrow> x \<noteq> a + of_nat i) \<Longrightarrow> put_ctx a k m x = m x"
    and ret_slot: "target (cont s) = load (slot (cont s)) (mem s)"
    and run: "called from to s \<Longrightarrow> k = ctx_at to (put_ctx from (cont s) (mem s)) \<Longrightarrow>
      apart (wbytes TYPE('w)) (slot k) csize to \<Longrightarrow>
      \<exists>s'. exec prog s = Some s' \<and> resumed k s' \<and>
        mem s' = store (slot k) (target k) (put_ctx from (cont s) (mem s))"
begin

lemma put_frame:
  assumes "apart csize a csize b"
  shows "ctx_at b (put_ctx a k m) = ctx_at b m"
  using assms by (intro ctx_local put_outside) (metis apart_def lessThan_iff)

lemma slot_frame:
  assumes "apart (wbytes TYPE('w)) a csize b"
  shows "ctx_at b (store a v m) = ctx_at b m"
  using assms by (intro ctx_local store_outside) (metis apart_def lessThan_iff)

lemma load_put:
  assumes "apart (wbytes TYPE('w)) a csize b"
  shows "load a (put_ctx b k m) = load a m"
  using assms by (intro load_cong put_outside) (metis apart_def lessThan_iff)

text \<open>A function that switches to a context that was saved before gets there.\<close>

lemma switch_to:
  assumes "called from to s" "apart csize from csize to"
    "apart (wbytes TYPE('w)) (slot (ctx_at to (mem s))) csize to"
  shows "\<exists>s'. exec prog s = Some s' \<and> resumed (ctx_at to (mem s)) s' \<and>
    mem s' = store (slot (ctx_at to (mem s))) (target (ctx_at to (mem s))) (put_ctx from (cont s) (mem s))"
  using run [OF assms(1) refl] put_frame [OF assms(2)] assms(3) by auto

text \<open>
  The function at \<open>s\<close> switches away; later another one, at \<open>t\<close>, switches to the context it was saved
  in. Between the two neither the saved context nor the return address on its stack has been
  written to. The switch changes nothing but the context of \<open>t\<close>.
\<close>

lemma switch_back:
  assumes s: "called a b s" "exec prog s = Some s'"
    and slot_b: "apart (wbytes TYPE('w)) (slot (ctx_at b (put_ctx a (cont s) (mem s)))) csize b"
    and slot_a: "apart (wbytes TYPE('w)) (slot (ctx_at b (put_ctx a (cont s) (mem s)))) csize a"
    and kept: "ctx_at a (mem t) = ctx_at a (mem s')"
    and ret: "load (slot (cont s)) (mem t) = load (slot (cont s)) (mem s)"
    and t: "called c a t" "apart csize c csize a"
    and slot_s: "apart (wbytes TYPE('w)) (slot (cont s)) csize a" "apart (wbytes TYPE('w)) (slot (cont s)) csize c"
  shows "\<exists>t'. exec prog t = Some t' \<and> resumed (cont s) t' \<and> mem t' = put_ctx c (cont t) (mem t)"
proof -
  have "mem s' = store (slot (ctx_at b (put_ctx a (cont s) (mem s))))
      (target (ctx_at b (put_ctx a (cont s) (mem s)))) (put_ctx a (cont s) (mem s))"
    using run [OF s(1) refl slot_b] s(2) by auto
  then have a: "ctx_at a (mem t) = cont s" using slot_frame [OF slot_a] get_put kept by simp
  have "target (cont s) = load (slot (cont s)) (put_ctx c (cont t) (mem t))"
    by (simp add: ret_slot ret load_put [OF slot_s(2)])
  with switch_to [OF t] a slot_s(1) store_load show ?thesis by auto
qed

text \<open>Switching to the context one is saved in is a call that returns.\<close>

lemma switch_self:
  assumes "called a a s" "apart (wbytes TYPE('w)) (slot (cont s)) csize a"
  shows "\<exists>s'. exec prog s = Some s' \<and> resumed (cont s) s'"
  using run [OF assms(1) refl] assms(2) get_put by auto

end

text \<open>
  The contexts \<open>R\<close> of a schedule in memory: \<open>adr\<close> is the address of each, they do not overlap, and a
  context that holds a continuation has it at its address.
\<close>

definition placed :: "nat \<Rightarrow> (ctx_ref \<Rightarrow> 'w :: len word) \<Rightarrow> ctx_ref set \<Rightarrow> bool" where
  "placed n adr R \<longleftrightarrow> (\<forall>r\<in>R. \<forall>r'\<in>R. r \<noteq> r' \<longrightarrow> apart n (adr r) n (adr r'))"

definition in_memory :: "('w :: len word \<Rightarrow> 'w memory \<Rightarrow> 'k) \<Rightarrow> (ctx_ref \<Rightarrow> 'w word) \<Rightarrow> ctx_ref set \<Rightarrow>
    'w memory \<Rightarrow> ('f, 'k, 'z) schedule_scheme \<Rightarrow> bool" where
  "in_memory ctx_at adr R m w \<longleftrightarrow> (\<forall>r\<in>R. \<forall>k. ctx_load r w = Some k \<longrightarrow> ctx_at (adr r) m = k)"

definition inside :: "nat \<Rightarrow> 'w :: len word \<Rightarrow> 'w word \<Rightarrow> bool" where
  "inside n a x \<longleftrightarrow> (\<exists>i\<in>{..<n}. x = a + of_nat i)"

lemma ctx_load_save [simp]: "ctx_load r (ctx_save q k w) = (if r = q then Some k else ctx_load r w)"
  by (cases r; cases q) (auto simp: upd_co_def)

context context_switch
begin

lemma in_memory_put:
  assumes "placed csize adr R" "from \<in> R" "in_memory ctx_at adr R m w"
  shows "in_memory ctx_at adr R (put_ctx (adr from) k m) (ctx_save from k w)"
  using assms put_frame get_put by (auto simp: in_memory_def placed_def)

lemma refines:
  assumes placed: "placed csize adr R" and mem: "in_memory ctx_at adr R (mem s) w"
    and R: "from \<in> R" "to \<in> R" and called: "called (adr from) (adr to) s"
    and abs: "Coroutine.co_swapcontext (cont s) from to w = Some (Inr k, w')"
    and slot: "\<forall>r\<in>R. apart (wbytes TYPE('w)) (slot k) csize (adr r)"
  shows "\<exists>s'. exec prog s = Some s' \<and> resumed k s' \<and> in_memory ctx_at adr R (mem s') w' \<and>
    (\<forall>x. \<not> inside csize (adr from) x \<and> \<not> inside (wbytes TYPE('w)) (slot k) x \<longrightarrow> mem s' x = mem s x)"
proof -
  let ?m = "put_ctx (adr from) (cont s) (mem s)"
  have w': "w' = ctx_save from (cont s) w" and k: "ctx_load to w' = Some k"
    using abs by (auto simp: co_swapcontext_def Let_def bind_eq_Some_conv)
  have saved: "in_memory ctx_at adr R ?m w'"
    unfolding w' by (rule in_memory_put [OF placed R(1) mem])
  then have "k = ctx_at (adr to) ?m" using k R(2) by (auto simp: in_memory_def)
  from run [OF called this bspec [OF slot R(2)]] obtain s' where
    s': "exec prog s = Some s'" "resumed k s'" "mem s' = store (slot k) (target k) ?m" by blast
  have "in_memory ctx_at adr R (mem s') w'"
    unfolding s'(3) using saved slot slot_frame by (simp add: in_memory_def)
  moreover have "mem s' x = mem s x" if "\<not> inside csize (adr from) x" "\<not> inside (wbytes TYPE('w)) (slot k) x" for x
    using that unfolding s'(3) inside_def by (subst store_outside) (auto intro: put_outside)
  ultimately show ?thesis using s' by blast
qed

end

section \<open>x86-64\<close>

definition oR8 :: int where "oR8 = 40"
definition oR9 :: int where "oR9 = 48"
definition oR12 :: int where "oR12 = 72"
definition oR13 :: int where "oR13 = 80"
definition oR14 :: int where "oR14 = 88"
definition oR15 :: int where "oR15 = 96"
definition oRDI :: int where "oRDI = 104"
definition oRSI :: int where "oRSI = 112"
definition oRBP :: int where "oRBP = 120"
definition oRBX :: int where "oRBX = 128"
definition oRDX :: int where "oRDX = 136"
definition oRCX :: int where "oRCX = 152"
definition oRSP :: int where "oRSP = 160"
definition oRIP :: int where "oRIP = 168"

lemmas offsets64 = oR8_def oR9_def oR12_def oR13_def oR14_def oR15_def oRDI_def oRSI_def oRBP_def oRBX_def
  oRDX_def oRCX_def oRSP_def oRIP_def

definition save_x86_64 :: "instr list" where
  "save_x86_64 = [
     MovRM BX oRBX DI,
     MovRM BP oRBP DI,
     MovRM R12 oR12 DI,
     MovRM R13 oR13 DI,
     MovRM R14 oR14 DI,
     MovRM R15 oR15 DI,
     MovRM DI oRDI DI,
     MovRM SI oRSI DI,
     MovRM DX oRDX DI,
     MovRM CX oRCX DI,
     MovRM R8 oR8 DI,
     MovRM R9 oR9 DI,
     MovMR 0 SP CX,
     MovRM CX oRIP DI,
     Lea 8 SP CX,
     MovRM CX oRSP DI]"

definition restore_x86_64 :: "instr list" where
  "restore_x86_64 = [
     MovMR oRSP SI SP,
     MovMR oRBX SI BX,
     MovMR oRBP SI BP,
     MovMR oR12 SI R12,
     MovMR oR13 SI R13,
     MovMR oR14 SI R14,
     MovMR oR15 SI R15,
     MovMR oRIP SI CX,
     Push CX,
     MovMR oRDI SI DI,
     MovMR oRDX SI DX,
     MovMR oRCX SI CX,
     MovMR oR8 SI R8,
     MovMR oR9 SI R9,
     MovMR oRSI SI SI,
     Xorl AX AX,
     Ret]"

definition co_swapcontext_x86_64 :: "instr list" where
  "co_swapcontext_x86_64 = save_x86_64 @ restore_x86_64"

text \<open>The fields of \<open>uc_mcontext\<close> that the code uses.\<close>

record context64 =
  k_rbx :: "64 word"
  k_rbp :: "64 word"
  k_r12 :: "64 word"
  k_r13 :: "64 word"
  k_r14 :: "64 word"
  k_r15 :: "64 word"
  k_rdi :: "64 word"
  k_rsi :: "64 word"
  k_rdx :: "64 word"
  k_rcx :: "64 word"
  k_r8 :: "64 word"
  k_r9 :: "64 word"
  k_rip :: "64 word"
  k_rsp :: "64 word"

definition size64 :: nat where "size64 = 176"

definition ctx_at64 :: "64 word \<Rightarrow> 64 memory \<Rightarrow> context64" where
  "ctx_at64 a m = \<lparr> k_rbx = load (a + 128) m, k_rbp = load (a + 120) m, k_r12 = load (a + 72) m,
     k_r13 = load (a + 80) m, k_r14 = load (a + 88) m, k_r15 = load (a + 96) m, k_rdi = load (a + 104) m,
     k_rsi = load (a + 112) m, k_rdx = load (a + 136) m, k_rcx = load (a + 152) m, k_r8 = load (a + 40) m,
     k_r9 = load (a + 48) m, k_rip = load (a + 168) m, k_rsp = load (a + 160) m \<rparr>"

definition put_ctx64 :: "64 word \<Rightarrow> context64 \<Rightarrow> 64 memory \<Rightarrow> 64 memory" where
  "put_ctx64 a k m =
     store (a + 160) (k_rsp k) (store (a + 168) (k_rip k) (store (a + 48) (k_r9 k) (store (a + 40) (k_r8 k)
      (store (a + 152) (k_rcx k) (store (a + 136) (k_rdx k) (store (a + 112) (k_rsi k) (store (a + 104) (k_rdi k)
      (store (a + 96) (k_r15 k) (store (a + 88) (k_r14 k) (store (a + 80) (k_r13 k) (store (a + 72) (k_r12 k)
      (store (a + 120) (k_rbp k) (store (a + 128) (k_rbx k) m)))))))))))))"

text \<open>The caller goes on behind the call, its registers unchanged.\<close>

definition cont64 :: "64 word machine \<Rightarrow> context64" where
  "cont64 s = \<lparr> k_rbx = regs s BX, k_rbp = regs s BP, k_r12 = regs s R12, k_r13 = regs s R13,
     k_r14 = regs s R14, k_r15 = regs s R15, k_rdi = regs s DI, k_rsi = regs s SI, k_rdx = regs s DX,
     k_rcx = regs s CX, k_r8 = regs s R8, k_r9 = regs s R9, k_rip = load (regs s SP) (mem s),
     k_rsp = regs s SP + 8 \<rparr>"

definition slot64 :: "context64 \<Rightarrow> 64 word" where "slot64 k = k_rsp k - 8"

definition called64 :: "64 word \<Rightarrow> 64 word \<Rightarrow> 64 word machine \<Rightarrow> bool" where
  "called64 from to s \<longleftrightarrow> regs s DI = from \<and> regs s SI = to \<and> apart 8 (regs s SP) size64 from"

definition resumed64 :: "context64 \<Rightarrow> 64 word machine \<Rightarrow> bool" where
  "resumed64 k s \<longleftrightarrow> ip s = k_rip k \<and> regs s SP = k_rsp k \<and> regs s AX = 0 \<and> regs s BX = k_rbx k \<and>
     regs s BP = k_rbp k \<and> regs s R12 = k_r12 k \<and> regs s R13 = k_r13 k \<and> regs s R14 = k_r14 k \<and>
     regs s R15 = k_r15 k \<and> regs s DI = k_rdi k \<and> regs s SI = k_rsi k \<and> regs s DX = k_rdx k \<and>
     regs s CX = k_rcx k \<and> regs s R8 = k_r8 k \<and> regs s R9 = k_r9 k"

lemma wbytes64 [simp]: "wbytes TYPE(64) = 8"
  by (simp add: wbytes_def)

lemma load_store64: "load (a :: 64 word) (store a v m) = v"
  by simp

lemma load_store_field64:
  "8 \<le> unat (b - a) \<Longrightarrow> 8 \<le> unat (a - b) \<Longrightarrow> load (x + b :: 64 word) (store (x + a) v m) = load (x + b) m"
  by (rule load_store_apart) (rule apart_diff; simp)

lemma get_put64: "ctx_at64 a (put_ctx64 a k m) = k"
  by (cases k) (simp add: ctx_at64_def put_ctx64_def load_store_field64)

lemma load_store_area64:
  assumes "apart n a k b" "unat i + 8 \<le> n" "unat j + 8 \<le> k"
  shows "load (b + j :: 64 word) (store (a + i) v m) = load (b + j) m"
  using apart_sub [OF assms] by (intro load_store_apart) simp

lemma ctx_local64:
  assumes "\<And>i. i < size64 \<Longrightarrow> m (a + of_nat i) = m' (a + of_nat i)"
  shows "ctx_at64 a m = ctx_at64 a m'"
proof -
  have "load (a + d) m = load (a + d) m'" if "unat d + 8 \<le> 176" for d
    using that assms [of "unat d + i" for i] by (intro load_cong) (simp add: size64_def add.assoc)
  then show ?thesis by (simp add: ctx_at64_def)
qed

lemma put_outside64:
  assumes "\<And>i. i < size64 \<Longrightarrow> x \<noteq> a + of_nat i"
  shows "put_ctx64 a k m x = m x"
proof -
  have "store (a + d) v m x = m x" if "unat d + 8 \<le> 176" for d v m
    using that assms [of "unat d + i" for i] by (intro store_outside) (simp add: size64_def add.assoc)
  then show ?thesis by (simp add: put_ctx64_def)
qed

lemmas exec_simps = ea_def set_reg_def set_mem_def Let_def

lemma exec_save64:
  assumes "called64 from to s"
  shows "fold exec1 save_x86_64 s =
    s \<lparr> regs := (regs s)(CX := regs s SP + 8), mem := put_ctx64 from (cont64 s) (mem s) \<rparr>"
proof -
  have *: "load (regs s SP) (store (from + i) v m) = load (regs s SP) m" if "unat i + 8 \<le> 176" for i v m
    using assms that load_store_area64 [of 176 "from" 8 "regs s SP" i 0]
    by (simp add: called64_def size64_def apart_sym)
  show ?thesis using assms
    by (simp add: save_x86_64_def exec_simps put_ctx64_def cont64_def called64_def offsets64 *)
qed

lemma exec_restore64:
  assumes "regs s SI = to" "apart 8 (slot64 (ctx_at64 to (mem s))) size64 to"
  shows "\<exists>s'. exec restore_x86_64 s = Some s' \<and> resumed64 (ctx_at64 to (mem s)) s' \<and>
    mem s' = store (slot64 (ctx_at64 to (mem s))) (k_rip (ctx_at64 to (mem s))) (mem s)"
proof -
  have *: "load (to + j) (store (load (to + 160) (mem s) - 8) v (mem s)) = load (to + j) (mem s)"
    if "unat j + 8 \<le> 176" for j v
    using assms that load_store_area64 [of 8 "load (to + 160) (mem s) - 8" 176 to 0 j]
    by (simp add: slot64_def ctx_at64_def size64_def)
  show ?thesis using assms(1)
    by (simp add: restore_x86_64_def exec_simps offsets64 resumed64_def ctx_at64_def slot64_def *)
qed

lemma run64:
  assumes "called64 from to s" "k = ctx_at64 to (put_ctx64 from (cont64 s) (mem s))"
    "apart 8 (slot64 k) size64 to"
  shows "\<exists>s'. exec co_swapcontext_x86_64 s = Some s' \<and> resumed64 k s' \<and>
    mem s' = store (slot64 k) (k_rip k) (put_ctx64 from (cont64 s) (mem s))"
proof -
  let ?t = "s \<lparr> regs := (regs s)(CX := regs s SP + 8), mem := put_ctx64 from (cont64 s) (mem s) \<rparr>"
  have "exec co_swapcontext_x86_64 s = exec restore_x86_64 ?t"
    unfolding co_swapcontext_x86_64_def exec_save64 [OF assms(1), symmetric]
    by (rule exec_append) (simp add: save_x86_64_def)
  then show ?thesis
    using exec_restore64 [of ?t to] assms by (simp add: called64_def)
qed

interpretation x86_64: context_switch co_swapcontext_x86_64 size64 ctx_at64 put_ctx64 cont64 slot64 k_rip
    called64 resumed64
  proof unfold_locales
  show "k_rip (cont64 s) = load (slot64 (cont64 s)) (mem s)" for s
    by (simp add: cont64_def slot64_def)
qed (auto intro: ctx_local64 put_outside64 run64 simp: get_put64)

section \<open>i386\<close>

definition oFS :: int where "oFS = 24"
definition oEDI :: int where "oEDI = 36"
definition oESI :: int where "oESI = 40"
definition oEBP :: int where "oEBP = 44"
definition oESP :: int where "oESP = 48"
definition oEBX :: int where "oEBX = 52"
definition oEDX :: int where "oEDX = 56"
definition oECX :: int where "oECX = 60"
definition oEAX :: int where "oEAX = 64"
definition oEIP :: int where "oEIP = 76"

lemmas offsets32 = oFS_def oEDI_def oESI_def oEBP_def oESP_def oEBX_def oEDX_def oECX_def oEAX_def oEIP_def

definition save_i386 :: "instr list" where
  "save_i386 = [
     MovMR 4 SP AX,
     MovIM 0 oEAX AX,
     MovRM CX oECX AX,
     MovRM DX oEDX AX,
     MovRM DI oEDI AX,
     MovRM SI oESI AX,
     MovRM BP oEBP AX,
     MovMR 0 SP CX,
     MovRM CX oEIP AX,
     Lea 4 SP CX,
     MovRM CX oESP AX,
     MovRM BX oEBX AX,
     Xorl DX DX,
     MovFsR DX,
     MovRM DX oFS AX]"

definition restore_i386 :: "instr list" where
  "restore_i386 = [
     MovMR 8 SP AX,
     MovMR oFS AX DX,
     MovRFs DX,
     MovMR oEIP AX CX,
     MovMR oESP AX SP,
     Push CX,
     MovMR oEDI AX DI,
     MovMR oESI AX SI,
     MovMR oEBP AX BP,
     MovMR oEBX AX BX,
     MovMR oEDX AX DX,
     MovMR oECX AX CX,
     MovMR oEAX AX AX,
     Ret]"

definition co_swapcontext_i386 :: "instr list" where
  "co_swapcontext_i386 = save_i386 @ restore_i386"

record context32 =
  k_eax :: "32 word"
  k_ecx :: "32 word"
  k_edx :: "32 word"
  k_edi :: "32 word"
  k_esi :: "32 word"
  k_ebp :: "32 word"
  k_eip :: "32 word"
  k_esp :: "32 word"
  k_ebx :: "32 word"
  k_fs :: "32 word"

definition size32 :: nat where "size32 = 80"

definition ctx_at32 :: "32 word \<Rightarrow> 32 memory \<Rightarrow> context32" where
  "ctx_at32 a m = \<lparr> k_eax = load (a + 64) m, k_ecx = load (a + 60) m, k_edx = load (a + 56) m, k_edi =
    load (a + 36) m, k_esi = load (a + 40) m, k_ebp = load (a + 44) m, k_eip = load (a + 76) m, k_esp = load
    (a + 48) m, k_ebx = load (a + 52) m, k_fs = load (a + 24) m \<rparr>"

definition put_ctx32 :: "32 word \<Rightarrow> context32 \<Rightarrow> 32 memory \<Rightarrow> 32 memory" where
  "put_ctx32 a k m =
     store (a + 24) (k_fs k) (store (a + 52) (k_ebx k) (store (a + 48) (k_esp k) (store (a + 76) (k_eip k)
       (store (a + 44) (k_ebp k) (store (a + 40) (k_esi k) (store (a + 36) (k_edi k) (store (a + 56) (k_edx k)
       (store (a + 60) (k_ecx k) (store (a + 64) (k_eax k) m)))))))))"

text \<open>The result of the call is 0; \<open>fs\<close> is saved as a word.\<close>

definition cont32 :: "32 word machine \<Rightarrow> context32" where
  "cont32 s = \<lparr> k_eax = 0, k_ecx = regs s CX, k_edx = regs s DX, k_edi = regs s DI, k_esi = regs s SI,
     k_ebp = regs s BP, k_eip = load (regs s SP) (mem s), k_esp = regs s SP + 4, k_ebx = regs s BX,
     k_fs = ucast (fs s) \<rparr>"

definition slot32 :: "context32 \<Rightarrow> 32 word" where "slot32 k = k_esp k - 4"

text \<open>The arguments are on the stack above the return address.\<close>

definition called32 :: "32 word \<Rightarrow> 32 word \<Rightarrow> 32 word machine \<Rightarrow> bool" where
  "called32 from to s \<longleftrightarrow> load (regs s SP + 4) (mem s) = from \<and> load (regs s SP + 8) (mem s) = to \<and>
     apart 12 (regs s SP) size32 from"

definition resumed32 :: "context32 \<Rightarrow> 32 word machine \<Rightarrow> bool" where
  "resumed32 k s \<longleftrightarrow> ip s = k_eip k \<and> regs s SP = k_esp k \<and> regs s AX = k_eax k
    \<and> regs s BX = k_ebx k \<and>
     regs s CX = k_ecx k \<and> regs s DX = k_edx k \<and> regs s SI = k_esi k \<and> regs s DI = k_edi k \<and>
     regs s BP = k_ebp k \<and> fs s = ucast (k_fs k)"

lemma wbytes32 [simp]: "wbytes TYPE(32) = 4"
  by (simp add: wbytes_def)

lemma load_store_field32:
  "4 \<le> unat (b - a) \<Longrightarrow> 4 \<le> unat (a - b) \<Longrightarrow> load (x + b :: 32 word) (store (x + a) v m) = load (x + b) m"
  by (rule load_store_apart) (rule apart_diff; simp)

lemma load_store_area32:
  assumes "apart n a k b" "unat i + 4 \<le> n" "unat j + 4 \<le> k"
  shows "load (b + j :: 32 word) (store (a + i) v m) = load (b + j) m"
  using apart_sub [OF assms] by (intro load_store_apart) simp

lemma get_put32: "ctx_at32 a (put_ctx32 a k m) = k"
  by (cases k) (simp add: ctx_at32_def put_ctx32_def load_store_field32)

lemma ctx_local32:
  assumes "\<And>i. i < size32 \<Longrightarrow> m (a + of_nat i) = m' (a + of_nat i)"
  shows "ctx_at32 a m = ctx_at32 a m'"
proof -
  have "load (a + d) m = load (a + d) m'" if "unat d + 4 \<le> 80" for d
    using that assms [of "unat d + i" for i] by (intro load_cong) (simp add: size32_def add.assoc)
  then show ?thesis by (simp add: ctx_at32_def)
qed

lemma put_outside32:
  assumes "\<And>i. i < size32 \<Longrightarrow> x \<noteq> a + of_nat i"
  shows "put_ctx32 a k m x = m x"
proof -
  have "store (a + d) v m x = m x" if "unat d + 4 \<le> 80" for d v m
    using that assms [of "unat d + i" for i] by (intro store_outside) (simp add: size32_def add.assoc)
  then show ?thesis by (simp add: put_ctx32_def)
qed

lemma exec_save32:
  assumes "called32 from to s"
  shows "fold exec1 save_i386 s =
    s \<lparr> regs := (regs s)(AX := from, CX := regs s SP + 4, DX := ucast (fs s)), mem := put_ctx32 from (cont32 s) (mem s) \<rparr>"
proof -
  have *: "load (regs s SP) (store (from + i) v m) = load (regs s SP) m" if "unat i + 4 \<le> 80" for i v m
    using assms that load_store_area32 [of 80 "from" 12 "regs s SP" i 0]
    by (simp add: called32_def size32_def apart_sym)
  show ?thesis using assms
    by (simp add: save_i386_def exec_simps put_ctx32_def cont32_def called32_def offsets32 fun_upd_twist *)
qed

lemma exec_restore32:
  assumes "load (regs s SP + 8) (mem s) = to" "apart 4 (slot32 (ctx_at32 to (mem s))) size32 to"
  shows "\<exists>s'. exec restore_i386 s = Some s' \<and> resumed32 (ctx_at32 to (mem s)) s' \<and>
    mem s' = store (slot32 (ctx_at32 to (mem s))) (k_eip (ctx_at32 to (mem s))) (mem s)"
proof -
  have *: "load (to + j) (store (load (to + 48) (mem s) - 4) v (mem s)) = load (to + j) (mem s)"
    if "unat j + 4 \<le> 80" for j v
    using assms that load_store_area32 [of 4 "load (to + 48) (mem s) - 4" 80 to 0 j]
    by (simp add: slot32_def ctx_at32_def size32_def)
  show ?thesis using assms(1)
    by (simp add: restore_i386_def exec_simps offsets32 resumed32_def ctx_at32_def slot32_def *)
qed

lemma run32:
  assumes "called32 from to s" "k = ctx_at32 to (put_ctx32 from (cont32 s) (mem s))"
    "apart 4 (slot32 k) size32 to"
  shows "\<exists>s'. exec co_swapcontext_i386 s = Some s' \<and> resumed32 k s' \<and>
    mem s' = store (slot32 k) (k_eip k) (put_ctx32 from (cont32 s) (mem s))"
proof -
  let ?m = "put_ctx32 from (cont32 s) (mem s)"
  let ?t = "s \<lparr> regs := (regs s)(AX := from, CX := regs s SP + 4, DX := ucast (fs s)), mem := ?m \<rparr>"
  have "exec co_swapcontext_i386 s = exec restore_i386 ?t"
    unfolding co_swapcontext_i386_def exec_save32 [OF assms(1), symmetric]
    by (rule exec_append) (simp add: save_i386_def)
  moreover have "load (regs s SP + 8) ?m = to"
    using assms(1) load_store_area32 [of 80 "from" 12 "regs s SP"]
    by (simp add: called32_def size32_def apart_sym put_ctx32_def)
  ultimately show ?thesis
    using exec_restore32 [of ?t to] assms by simp
qed

interpretation i386: context_switch co_swapcontext_i386 size32 ctx_at32 put_ctx32 cont32 slot32 k_eip
    called32 resumed32
  proof unfold_locales
  show "k_eip (cont32 s) = load (slot32 (cont32 s)) (mem s)" for s
    by (simp add: cont32_def slot32_def)
qed (auto intro: ctx_local32 put_outside32 run32 simp: get_put32)

section \<open>The switch as the coroutines use it\<close>

text \<open>
  C34. On x86-64 the code of \<open>co_swapcontext\<close> refines the switch of the coroutines. The contexts of
  the schedule are in memory and do not overlap, and the stack of the target has room for a return
  address outside of them. Then the code saves the continuation of the caller, goes on with the
  continuation of the target, all its registers loaded, and the contexts in memory are those of the
  schedule after the abstract switch; apart from the caller's context and the return address pushed
  for the target no byte of the memory changes.
\<close>

theorem x86_64_switch_refines:
  assumes "placed size64 adr R" "in_memory ctx_at64 adr R (mem s) w" "from \<in> R" "to \<in> R"
    and "called64 (adr from) (adr to) s"
    and "Coroutine.co_swapcontext (cont64 s) from to w = Some (Inr k, w')"
    and "\<forall>r\<in>R. apart 8 (slot64 k) size64 (adr r)"
  shows "\<exists>s'. exec co_swapcontext_x86_64 s = Some s' \<and> resumed64 k s' \<and> in_memory ctx_at64 adr R (mem s') w' \<and>
    (\<forall>x. \<not> inside size64 (adr from) x \<and> \<not> inside 8 (slot64 k) x \<longrightarrow> mem s' x = mem s x)"
  using x86_64.refines [OF assms(1-6)] assms(7) by simp

lemma i386_switch_refines:
  assumes "placed size32 adr R" "in_memory ctx_at32 adr R (mem s) w" "from \<in> R" "to \<in> R"
    and "called32 (adr from) (adr to) s"
    and "Coroutine.co_swapcontext (cont32 s) from to w = Some (Inr k, w')"
    and "\<forall>r\<in>R. apart 4 (slot32 k) size32 (adr r)"
  shows "\<exists>s'. exec co_swapcontext_i386 s = Some s' \<and> resumed32 k s' \<and> in_memory ctx_at32 adr R (mem s') w' \<and>
    (\<forall>x. \<not> inside size32 (adr from) x \<and> \<not> inside 4 (slot32 k) x \<longrightarrow> mem s' x = mem s x)"
  using i386.refines [OF assms(1-6)] assms(7) by simp

text \<open>A schedule and a coroutine with their contexts at 0x1000 and 0x2000, the coroutine to be entered.\<close>

definition ex_adr :: "ctx_ref \<Rightarrow> 64 word" where
  "ex_adr r = (case r of SchCtx \<Rightarrow> 0x1000 | CoCtx _ \<Rightarrow> 0x2000)"

definition ex_target :: context64 where
  "ex_target = \<lparr> k_rbx = 1, k_rbp = 2, k_r12 = 3, k_r13 = 4, k_r14 = 5, k_r15 = 6, k_rdi = 7, k_rsi = 8,
     k_rdx = 9, k_rcx = 10, k_r8 = 11, k_r9 = 12, k_rip = 0x400800, k_rsp = 0x9000 \<rparr>"

definition ex_co :: "(unit, context64) coroutine" where
  "ex_co = \<lparr> func = (), arg = 0, uc_sp = 0, uc_size = 0, uc_link = SchCtx, uc_cont = Some ex_target,
     status = CO_STATE_RUN, parent = None, stacksize = 0, stackmaxsize = 0, stack = 0, usesecondstack = False \<rparr>"

definition ex_sched :: "(unit, context64) schedule" where
  "ex_sched = \<lparr> sch_sp = 0, sch_size = 0, sch_cont = None, isDynamicStack = False, pRunCo = Some 1,
     allocfunc = True, freefunc = True, secondstackmaxsize = 0, secondstack = 0, firststackmaxsize = 0,
     firststack = 0, blocks = Map.empty, cos = (\<lambda>_. ex_co) \<rparr>"

definition ex_machine :: "64 word machine" where
  "ex_machine = \<lparr> regs = (\<lambda>_. 77)(DI := 0x1000, SI := 0x2000, SP := 0x8000), fs = 0, x87cw = 0x37f, mxcsr = 0x1f80,
     mem = put_ctx64 0x2000 ex_target (\<lambda>_. 0), ip = 0 \<rparr>"

lemmas ex_simps = ex_adr_def ex_target_def ex_machine_def size64_def slot64_def apart_diff

lemma ex_called: "called64 (ex_adr SchCtx) (ex_adr (CoCtx 1)) ex_machine"
  by (simp add: called64_def ex_simps)

lemma ex_placed: "placed size64 ex_adr {SchCtx, CoCtx 1}"
  by (simp add: placed_def ex_simps)

lemma ex_in_memory: "in_memory ctx_at64 ex_adr {SchCtx, CoCtx 1} (mem ex_machine) ex_sched"
  by (simp add: in_memory_def ex_sched_def ex_co_def ex_machine_def ex_adr_def get_put64)

lemma ex_switch: "Coroutine.co_swapcontext (cont64 ex_machine) SchCtx (CoCtx 1) ex_sched =
    Some (Inr ex_target, ex_sched \<lparr> sch_cont := Some (cont64 ex_machine) \<rparr>)"
  by (simp add: co_swapcontext_def ex_sched_def ex_co_def)

lemma ex_slots: "r \<in> {SchCtx, CoCtx 1} \<Longrightarrow> apart 8 (slot64 ex_target) size64 (ex_adr r)"
  by (auto simp: ex_simps)

theorem x86_64_switch_refines_witness:
  "\<exists>s'. exec co_swapcontext_x86_64 ex_machine = Some s' \<and> resumed64 ex_target s' \<and>
    in_memory ctx_at64 ex_adr {SchCtx, CoCtx 1} (mem s') (ex_sched \<lparr> sch_cont := Some (cont64 ex_machine) \<rparr>)"
  using x86_64_switch_refines [OF ex_placed ex_in_memory _ _ ex_called ex_switch] ex_slots by blast

text \<open>
  C35. A function that was switched away from comes back with what it had. It is saved in the context at
  \<open>a\<close>; later some function switches to that context, which is unchanged, as is the return address on
  the saved stack. The code then ends with every saved register, the stack pointer and the
  instruction pointer as after a call that returned, 0 as its result, and the memory changed in the
  context of the switching function only, so that the stack of the function is as it left it.
\<close>

theorem x86_64_switch_back:
  assumes "called64 a b s" "exec co_swapcontext_x86_64 s = Some s'"
    and "apart 8 (slot64 (ctx_at64 b (put_ctx64 a (cont64 s) (mem s)))) size64 b"
    and "apart 8 (slot64 (ctx_at64 b (put_ctx64 a (cont64 s) (mem s)))) size64 a"
    and "ctx_at64 a (mem t) = ctx_at64 a (mem s')" "load (regs s SP) (mem t) = load (regs s SP) (mem s)"
    and "called64 c a t" "apart size64 c size64 a"
    and "apart 8 (regs s SP) size64 c"
  shows "\<exists>t'. exec co_swapcontext_x86_64 t = Some t' \<and> resumed64 (cont64 s) t' \<and>
    mem t' = put_ctx64 c (cont64 t) (mem t)"
proof -
  have "slot64 (cont64 s) = regs s SP" by (simp add: slot64_def cont64_def)
  moreover have "apart 8 (regs s SP) size64 a" using assms(1) by (simp add: called64_def)
  ultimately show ?thesis using x86_64.switch_back [of a b s s' t c] assms by simp
qed

definition ex_back :: "64 memory \<Rightarrow> 64 word machine" where
  "ex_back m = \<lparr> regs = (\<lambda>_. 88)(DI := 0x2000, SI := 0x1000, SP := 0x8ff8), fs = 0, x87cw = 0x37f, mxcsr = 0x1f80,
     mem = m, ip = 0 \<rparr>"

lemma ex_saved: "ctx_at64 0x2000 (put_ctx64 0x1000 (cont64 ex_machine) (mem ex_machine)) = ex_target"
  using x86_64.put_frame [of "0x1000" "0x2000"] by (simp add: ex_machine_def size64_def apart_diff get_put64)

lemma ex_run: "\<exists>s'. exec co_swapcontext_x86_64 ex_machine = Some s' \<and>
    mem s' = store 0x8ff8 0x400800 (put_ctx64 0x1000 (cont64 ex_machine) (mem ex_machine))"
  using x86_64.run [OF ex_called refl] ex_slots [of "CoCtx 1"] ex_saved by (auto simp: ex_adr_def ex_target_def slot64_def)

lemma ex_back_called: "called64 0x2000 0x1000 (ex_back m)"
  by (simp add: called64_def ex_back_def size64_def apart_diff)

theorem x86_64_switch_back_witness:
  "\<exists>s' t'. exec co_swapcontext_x86_64 ex_machine = Some s' \<and>
    exec co_swapcontext_x86_64 (ex_back (mem s')) = Some t' \<and> resumed64 (cont64 ex_machine) t'"
proof -
  from ex_run obtain s' where s': "exec co_swapcontext_x86_64 ex_machine = Some s'"
    "mem s' = store 0x8ff8 0x400800 (put_ctx64 0x1000 (cont64 ex_machine) (mem ex_machine))" by blast
  have sp: "regs ex_machine SP = 0x8000" by (simp add: ex_machine_def)
  have "load 0x8000 (mem s') = load 0x8000 (mem ex_machine)"
    unfolding s'(2) using x86_64.load_put [of "0x8000" "0x1000"]
    by (simp add: load_store_apart apart_diff size64_def)
  with x86_64_switch_back [of "0x1000" "0x2000" ex_machine s' "ex_back (mem s')" "0x2000"] ex_called s'(1)
  have "\<exists>t'. exec co_swapcontext_x86_64 (ex_back (mem s')) = Some t' \<and> resumed64 (cont64 ex_machine) t'"
    using ex_saved ex_slots [of SchCtx] ex_slots [of "CoCtx 1"] ex_back_called
    by (auto simp: ex_adr_def ex_back_def sp size64_def apart_diff)
  with s'(1) show ?thesis by blast
qed

lemma i386_switch_back:
  assumes "called32 a b s" "exec co_swapcontext_i386 s = Some s'"
    and "apart 4 (slot32 (ctx_at32 b (put_ctx32 a (cont32 s) (mem s)))) size32 b"
    and "apart 4 (slot32 (ctx_at32 b (put_ctx32 a (cont32 s) (mem s)))) size32 a"
    and "ctx_at32 a (mem t) = ctx_at32 a (mem s')" "load (regs s SP) (mem t) = load (regs s SP) (mem s)"
    and "called32 c a t" "apart size32 c size32 a"
    and "apart 4 (regs s SP) size32 c"
  shows "\<exists>t'. exec co_swapcontext_i386 t = Some t' \<and> resumed32 (cont32 s) t' \<and>
    mem t' = put_ctx32 c (cont32 t) (mem t)"
proof -
  have "slot32 (cont32 s) = regs s SP" by (simp add: slot32_def cont32_def)
  moreover have "apart 4 (regs s SP) size32 a"
    using assms(1) apart_sub [of 12 "regs s SP" size32 a 0 4 0 size32] by (simp add: called32_def)
  ultimately show ?thesis using i386.switch_back [of a b s s' t c] assms by simp
qed

section \<open>Entering a coroutine\<close>

text \<open>
  \<open>makecontext\<close> leaves a context whose first two arguments are the address of the schedule and its
  upper half; they arrive in the registers \<open>_process\<close> takes them from, which puts the address together
  again.
\<close>

lemma process_arg_halves:
  "process_arg (uint (ucast p :: 32 word)) (uint (ucast (drop_bit 32 p) :: 32 word)) = uint (p :: 64 word)"
  unfolding process_arg_def by (rule bit_eqI) (auto simp: bit_simps not_less dest: bit_imp_le_length)

lemma entry_gets_schedule:
  assumes "called64 from to s" "apart size64 from size64 to"
    and "apart 8 (slot64 (ctx_at64 to (mem s))) size64 to"
    and "k_rdi (ctx_at64 to (mem s)) = p" "k_rsi (ctx_at64 to (mem s)) = drop_bit 32 p"
  shows "\<exists>s'. exec co_swapcontext_x86_64 s = Some s' \<and> ip s' = k_rip (ctx_at64 to (mem s)) \<and>
    process_arg (uint (ucast (regs s' DI) :: 32 word)) (uint (ucast (regs s' SI) :: 32 word)) = uint p"
  using x86_64.switch_to [of "from" to s] assms process_arg_halves [of p] by (auto simp: resumed64_def)

section \<open>What the switch leaves alone\<close>

text \<open>
  No instruction touches the control words of the floating-point units, which the calling conventions
  count among the registers a call preserves: a coroutine that goes on has those of the function that
  switched to it, whatever it had set before.
\<close>

lemma exec1_control: "x87cw (exec1 i s) = x87cw s \<and> mxcsr (exec1 i s) = mxcsr s"
  by (cases i) (simp_all add: exec_simps)

lemma fp_control_not_switched:
  "exec is s = Some s' \<Longrightarrow> x87cw s' = x87cw s \<and> mxcsr s' = mxcsr s"
  by (induction "is" arbitrary: s) (auto simp: exec1_control split: if_splits simp del: exec1.simps)

end
