(* ===== verification/Byte_Queue.thy ===== *)
theory Byte_Queue
  imports Bytes
begin

text \<open>
  The contract of a byte queue: what is appended at one end comes out at the other, in order.
  The network channel relies on it for its send and receive buffers.
\<close>

datatype queue_op = QAppend "byte list" | QRetrieve nat

locale byte_queue =
  fixes inv :: "'q \<Rightarrow> bool"
    and content :: "'q \<Rightarrow> byte list"
    and room :: "'q \<Rightarrow> nat"
    and append :: "'q \<Rightarrow> byte list \<Rightarrow> 'q option"
    and retrieve :: "'q \<Rightarrow> nat \<Rightarrow> nat \<times> 'q"
  assumes append_ok: "inv q \<Longrightarrow> length xs \<le> room q \<Longrightarrow>
      \<exists>q'. append q xs = Some q' \<and> inv q' \<and> content q' = content q @ xs \<and> room q \<le> room q' + length xs"
    and retrieve_ok: "inv q \<Longrightarrow>
      \<exists>q'. retrieve q n = (min n (length (content q)), q') \<and> inv q' \<and> content q' = drop n (content q) \<and>
        room q \<le> room q'"
begin

text \<open>A run returns the bytes that came out.\<close>

fun run :: "'q \<Rightarrow> queue_op list \<Rightarrow> (byte list \<times> 'q) option" where
  "run q [] = Some ([], q)"
| "run q (QAppend xs # ops) = (case append q xs of None \<Rightarrow> None | Some q' \<Rightarrow> run q' ops)"
| "run q (QRetrieve n # ops) =
     (let (k, q') = retrieve q n
      in case run q' ops of None \<Rightarrow> None | Some (out, q'') \<Rightarrow> Some (take k (content q) @ out, q''))"

fun appended :: "queue_op list \<Rightarrow> byte list" where
  "appended [] = []"
| "appended (QAppend xs # ops) = xs @ appended ops"
| "appended (QRetrieve n # ops) = appended ops"

lemma run_fifo:
  assumes "inv q" and "length (appended ops) \<le> room q"
  shows "\<exists>out q'. run q ops = Some (out, q') \<and> inv q' \<and> out @ content q' = content q @ appended ops"
  using assms
proof (induction ops arbitrary: q)
  case Nil
  then show ?case by simp
next
  case (Cons op ops)
  show ?case
  proof (cases op)
    case (QAppend xs)
    have "length xs \<le> room q" using Cons.prems(2) QAppend by simp
    from append_ok [OF Cons.prems(1) this] obtain q1 where
      q1: "append q xs = Some q1" "inv q1" "content q1 = content q @ xs" "room q \<le> room q1 + length xs" by blast
    have "length (appended ops) \<le> room q1" using q1(4) Cons.prems(2) QAppend by simp
    from Cons.IH [OF q1(2) this] q1 show ?thesis using QAppend by auto
  next
    case (QRetrieve n)
    from retrieve_ok [OF Cons.prems(1), of n] obtain q1 where
      q1: "retrieve q n = (min n (length (content q)), q1)" "inv q1" "content q1 = drop n (content q)"
        "room q \<le> room q1" by blast
    have "length (appended ops) \<le> room q1" using q1(4) Cons.prems(2) QRetrieve by simp
    from Cons.IH [OF q1(2) this] obtain out q' where
      "run q1 ops = Some (out, q')" "inv q'" "out @ content q' = content q1 @ appended ops" by blast
    moreover from this have "(take (min n (length (content q))) (content q) @ out) @ content q' =
        (take (min n (length (content q))) (content q) @ drop n (content q)) @ appended ops"
      using q1(3) by simp
    moreover have "take (min n (length (content q))) (content q) @ drop n (content q) = content q"
      by (cases "n \<le> length (content q)") auto
    ultimately show ?thesis using QRetrieve q1(1) by auto
  qed
qed

end

end
