(* ===== verification/Buffer.thy ===== *)
theory Buffer
  imports Byte_Queue
begin

text \<open>
  The growable buffer of \<^verbatim>\<open>src/util/net/buffer.{h,cpp}\<close>: a vector of bytes with a read and
  a write index. Indices are \<open>size_t\<close>; every difference and sum is reduced with \<open>u64\<close> as the
  hardware does. \<open>std::copy\<close> over a range outside the vector is a fault, and so is a
  \<open>resize\<close> beyond the vector's \<open>max_size\<close>, where the library throws.
\<close>

record Buffer =
  m_buffer :: "byte list"
  m_iReadIndex :: int
  m_iWriteIndex :: int

definition vector_max :: int where
  "vector_max = 9223372036854775807"

definition vector_resize :: "byte list \<Rightarrow> int \<Rightarrow> byte list fault" where
  "vector_resize xs n =
     (if 0 \<le> n \<and> n \<le> vector_max then Some (take (nat n) xs @ replicate (nat n - length xs) 0) else None)"

definition Buffer_new :: "nat \<Rightarrow> Buffer" where
  "Buffer_new initSize = \<lparr> m_buffer = replicate initSize 0, m_iReadIndex = 0, m_iWriteIndex = 0 \<rparr>"

definition ReadableBytes :: "Buffer \<Rightarrow> int" where
  "ReadableBytes b = u64 (m_iWriteIndex b - m_iReadIndex b)"

definition WritableBytes :: "Buffer \<Rightarrow> int" where
  "WritableBytes b = u64 (int (length (m_buffer b)) - m_iWriteIndex b)"

text \<open>The first \<open>n\<close> bytes behind the pointer that \<open>Peek\<close> returns.\<close>

definition Peek :: "Buffer \<Rightarrow> int \<Rightarrow> byte list fault" where
  "Peek b n = mem_read (m_buffer b) (m_iReadIndex b) n"

text \<open>Bytes that someone stores behind the pointer that \<open>BeginWrite\<close> returns.\<close>

definition BeginWrite :: "Buffer \<Rightarrow> byte list \<Rightarrow> Buffer fault" where
  "BeginWrite b xs = do {
     v \<leftarrow> mem_write (m_buffer b) (m_iWriteIndex b) xs;
     Some (b \<lparr> m_buffer := v \<rparr>)
   }"

text \<open>\<open>std::copy(Begin()+m_iReadIndex, Begin()+m_iWriteIndex, Begin())\<close> and the new indices.\<close>

definition compact :: "Buffer \<Rightarrow> Buffer fault" where
  "compact b = do {
     let iReadable = ReadableBytes b;
     xs \<leftarrow> mem_read (m_buffer b) (m_iReadIndex b) (m_iWriteIndex b - m_iReadIndex b);
     v \<leftarrow> mem_write (m_buffer b) 0 xs;
     Some (b \<lparr> m_buffer := v, m_iReadIndex := 0, m_iWriteIndex := iReadable \<rparr>)
   }"

definition MakeSpace :: "Buffer \<Rightarrow> int \<Rightarrow> Buffer fault" where
  "MakeSpace b len = do {
     b \<leftarrow> compact b;
     if WritableBytes b < len
     then do {
       v \<leftarrow> vector_resize (m_buffer b) (u64 (m_iWriteIndex b + len));
       Some (b \<lparr> m_buffer := v \<rparr>)
     }
     else Some b
   }"

definition Retrieve :: "Buffer \<Rightarrow> int \<Rightarrow> int \<times> Buffer" where
  "Retrieve b len =
     (let readable = ReadableBytes b
      in if len < readable then (len, b \<lparr> m_iReadIndex := u64 (m_iReadIndex b + len) \<rparr>)
         else (readable, b \<lparr> m_iReadIndex := 0, m_iWriteIndex := 0 \<rparr>))"

definition EnsureWritableBytes :: "Buffer \<Rightarrow> int \<Rightarrow> Buffer fault" where
  "EnsureWritableBytes b len = (if WritableBytes b < len then MakeSpace b len else Some b)"

definition Append :: "Buffer \<Rightarrow> byte list \<Rightarrow> Buffer fault" where
  "Append b xs = do {
     b \<leftarrow> EnsureWritableBytes b (int (length xs));
     b \<leftarrow> BeginWrite b xs;
     Some (b \<lparr> m_iWriteIndex := u64 (m_iWriteIndex b + int (length xs)) \<rparr>)
   }"

definition Shrink :: "Buffer \<Rightarrow> int \<Rightarrow> Buffer fault" where
  "Shrink b reserve = do {
     let iReadable = ReadableBytes b;
     b \<leftarrow> compact b;
     v \<leftarrow> vector_resize (m_buffer b) (u64 (iReadable + reserve));
     Some (b \<lparr> m_buffer := v \<rparr>)
   }"

definition Writed :: "Buffer \<Rightarrow> int \<Rightarrow> (int \<times> Buffer) fault" where
  "Writed b len = do {
     let writable = WritableBytes b;
     b \<leftarrow> (if writable < len then MakeSpace b (u64 (len - writable)) else Some b);
     Some (0, b \<lparr> m_iWriteIndex := u64 (m_iWriteIndex b + len) \<rparr>)
   }"

section \<open>Invariant and contents\<close>

definition buf_inv :: "Buffer \<Rightarrow> bool" where
  "buf_inv b \<longleftrightarrow> 0 \<le> m_iReadIndex b \<and> m_iReadIndex b \<le> m_iWriteIndex b \<and>
     m_iWriteIndex b \<le> int (length (m_buffer b)) \<and> int (length (m_buffer b)) \<le> vector_max"

definition readable :: "Buffer \<Rightarrow> byte list" where
  "readable b = take (nat (m_iWriteIndex b - m_iReadIndex b)) (drop (nat (m_iReadIndex b)) (m_buffer b))"

definition buf_room :: "Buffer \<Rightarrow> nat" where
  "buf_room b = nat vector_max - length (readable b)"

lemma u64_small: "0 \<le> x \<Longrightarrow> x \<le> 2 * vector_max \<Longrightarrow> u64 x = x"
  by (intro u64_id) (auto simp: vector_max_def)

lemma buf_inv_counts:
  assumes "buf_inv b"
  shows "ReadableBytes b = m_iWriteIndex b - m_iReadIndex b"
    and "WritableBytes b = int (length (m_buffer b)) - m_iWriteIndex b"
    and "int (length (readable b)) = ReadableBytes b"
proof -
  show r: "ReadableBytes b = m_iWriteIndex b - m_iReadIndex b"
    unfolding ReadableBytes_def by (rule u64_small) (use assms in \<open>auto simp: buf_inv_def\<close>)
  show "WritableBytes b = int (length (m_buffer b)) - m_iWriteIndex b"
    unfolding WritableBytes_def by (rule u64_small) (use assms in \<open>auto simp: buf_inv_def\<close>)
  show "int (length (readable b)) = ReadableBytes b"
    using assms unfolding r by (auto simp: readable_def buf_inv_def)
qed

lemma Peek_readable:
  assumes "buf_inv b" and "0 \<le> n" and "n \<le> ReadableBytes b"
  shows "Peek b n = Some (take (nat n) (readable b))"
  using assms buf_inv_counts(1) [OF assms(1)]
  by (simp add: Peek_def mem_read_def buf_inv_def readable_def min_def)

lemma compact_ok:
  assumes "buf_inv b"
  shows "\<exists>b'. compact b = Some b' \<and> buf_inv b' \<and> readable b' = readable b \<and> m_iReadIndex b' = 0 \<and>
    m_iWriteIndex b' = ReadableBytes b \<and> length (m_buffer b') = length (m_buffer b)"
proof -
  let ?n = "m_iWriteIndex b - m_iReadIndex b"
  note c = buf_inv_counts [OF assms]
  have i: "0 \<le> m_iReadIndex b" "0 \<le> ?n" "m_iReadIndex b + ?n \<le> int (length (m_buffer b))"
    using assms by (auto simp: buf_inv_def)
  have r: "mem_read (m_buffer b) (m_iReadIndex b) ?n = Some (readable b)"
    using i by (simp add: mem_read_def readable_def)
  have l: "length (readable b) \<le> length (m_buffer b)" by (simp add: readable_def)
  let ?b = "b \<lparr> m_buffer := readable b @ drop (length (readable b)) (m_buffer b), m_iReadIndex := 0,
    m_iWriteIndex := ReadableBytes b \<rparr>"
  have "compact b = Some ?b" using r l by (simp add: compact_def mem_write_def Let_def)
  moreover have "buf_inv ?b" using assms c(3) l by (simp add: buf_inv_def)
  moreover have "readable ?b = readable b" by (subst readable_def) (simp flip: c(3))
  ultimately show ?thesis using l by fastforce
qed

lemma MakeSpace_ok:
  assumes "buf_inv b" and "0 \<le> len" and "ReadableBytes b + len \<le> vector_max"
  shows "\<exists>b'. MakeSpace b len = Some b' \<and> buf_inv b' \<and> readable b' = readable b \<and> len \<le> WritableBytes b' \<and>
    ReadableBytes b' = ReadableBytes b"
proof -
  from compact_ok [OF assms(1)] obtain b1 where
    b1: "compact b = Some b1" "buf_inv b1" "readable b1 = readable b" "m_iReadIndex b1 = 0"
      "m_iWriteIndex b1 = ReadableBytes b" by blast
  note c = buf_inv_counts [OF b1(2)]
  have r0: "0 \<le> ReadableBytes b" using buf_inv_counts(3) [OF assms(1)] by linarith
  show ?thesis
  proof (cases "WritableBytes b1 < len")
    case True
    let ?n = "ReadableBytes b + len"
    have u: "u64 ?n = ?n" using assms r0 by (intro u64_small) (auto simp: vector_max_def)
    have lt: "int (length (m_buffer b1)) < ?n" using True c(2) b1(5) by simp
    let ?b = "b1 \<lparr> m_buffer := m_buffer b1 @ replicate (nat ?n - length (m_buffer b1)) 0 \<rparr>"
    have "vector_resize (m_buffer b1) ?n = Some (m_buffer ?b)"
      using assms r0 lt by (simp add: vector_resize_def)
    then have m: "MakeSpace b len = Some ?b" using b1(1,5) True u by (simp add: MakeSpace_def)
    have lb: "int (length (m_buffer ?b)) = ?n" using lt by simp
    have bi: "buf_inv ?b" using b1(2,4,5) lb assms(2,3) r0 unfolding buf_inv_def by simp
    have rb: "readable ?b = readable b1"
      using b1(2,4) by (auto simp: readable_def buf_inv_def nat_le_iff)
    note cb = buf_inv_counts [OF bi]
    have "len \<le> WritableBytes ?b" unfolding cb(2) lb using b1(5) by simp
    moreover have "ReadableBytes ?b = ReadableBytes b" using b1(4,5) unfolding cb(1) by simp
    ultimately show ?thesis using m bi rb b1(3) by auto
  next
    case False
    then show ?thesis using b1 c(1) by (simp add: MakeSpace_def)
  qed
qed

lemma EnsureWritable_ok:
  assumes "buf_inv b" and "0 \<le> len" and "ReadableBytes b + len \<le> vector_max"
  shows "\<exists>b'. EnsureWritableBytes b len = Some b' \<and> buf_inv b' \<and> readable b' = readable b \<and>
    len \<le> WritableBytes b' \<and> ReadableBytes b' = ReadableBytes b"
  using MakeSpace_ok [OF assms] assms by (auto simp: EnsureWritableBytes_def)

text \<open>Storing bytes behind the write index and then advancing it appends them.\<close>

lemma advance_readable:
  assumes "buf_inv b" and "int (length xs) \<le> WritableBytes b"
  shows "\<exists>b'. BeginWrite b xs = Some b' \<and> buf_inv b' \<and> WritableBytes b' = WritableBytes b \<and>
    readable b' = readable b \<and> m_iWriteIndex b' = m_iWriteIndex b \<and> m_iReadIndex b' = m_iReadIndex b \<and>
    length (m_buffer b') = length (m_buffer b) \<and>
    (\<forall>w. m_iWriteIndex b \<le> w \<and> w \<le> m_iWriteIndex b + int (length xs) \<longrightarrow>
       buf_inv (b' \<lparr> m_iWriteIndex := w \<rparr>) \<and>
       readable (b' \<lparr> m_iWriteIndex := w \<rparr>) = readable b @ take (nat (w - m_iWriteIndex b)) xs)"
proof -
  note c = buf_inv_counts [OF assms(1)]
  obtain r w where rw: "m_iReadIndex b = int r" "m_iWriteIndex b = int w" "r \<le> w"
    using assms(1) by (metis buf_inv_def int_nat_eq nat_mono order_trans)
  have l: "w + length xs \<le> length (m_buffer b)" using assms(2) c(2) rw(2) by simp
  let ?v = "take w (m_buffer b) @ xs @ drop (w + length xs) (m_buffer b)"
  let ?b = "b \<lparr> m_buffer := ?v \<rparr>"
  have bw: "BeginWrite b xs = Some ?b" using l by (simp add: BeginWrite_def rw mem_simps)
  have lv: "length ?v = length (m_buffer b)" using l by simp
  have bi: "buf_inv ?b" using assms(1) lv by (simp add: buf_inv_def)
  have re: "readable (?b \<lparr> m_iWriteIndex := int (w + k) \<rparr>) = readable b @ take k xs" if "k \<le> length xs" for k
  proof -
    have "nat (int (w + k) - int r) = (w - r) + k" "nat (int w - int r) = w - r" using rw(3) by auto
    then have "readable (?b \<lparr> m_iWriteIndex := int (w + k) \<rparr>) = take (w - r + k) (drop r ?v)"
      "readable b = take (w - r) (drop r (m_buffer b))" using rw by (simp_all add: readable_def)
    moreover have "drop r ?v = take (w - r) (drop r (m_buffer b)) @ xs @ drop (w + length xs) (m_buffer b)"
      using rw(3) l by (simp add: drop_take)
    moreover have "length (take (w - r) (drop r (m_buffer b))) = w - r" using rw(3) l by simp
    ultimately show ?thesis using that by (simp only: take_append append_assoc) simp
  qed
  have "buf_inv (?b \<lparr> m_iWriteIndex := z \<rparr>) \<and>
       readable (?b \<lparr> m_iWriteIndex := z \<rparr>) = readable b @ take (nat (z - m_iWriteIndex b)) xs"
    if z: "m_iWriteIndex b \<le> z" "z \<le> m_iWriteIndex b + int (length xs)" for z
  proof -
    let ?k = "nat (z - int w)"
    have k: "?k \<le> length xs" "int (w + ?k) = z" using z rw by auto
    have "buf_inv (?b \<lparr> m_iWriteIndex := z \<rparr>)" using bi z rw l lv by (simp add: buf_inv_def)
    then show ?thesis using re [OF k(1)] unfolding k(2) rw(2) by simp
  qed
  moreover have "readable ?b = readable b" using re [of 0] rw by (simp add: readable_def)
  moreover have "WritableBytes ?b = WritableBytes b" using lv unfolding WritableBytes_def by simp
  ultimately show ?thesis using bw bi lv by (intro exI [of _ ?b]) simp
qed

lemma Append_ok:
  assumes "buf_inv b" and "ReadableBytes b + int (length xs) \<le> vector_max"
  shows "\<exists>b'. Append b xs = Some b' \<and> buf_inv b' \<and> readable b' = readable b @ xs"
proof -
  from EnsureWritable_ok [OF assms(1) _ assms(2)] obtain b1 where
    b1: "EnsureWritableBytes b (int (length xs)) = Some b1" "buf_inv b1" "readable b1 = readable b"
      "int (length xs) \<le> WritableBytes b1" by auto
  from advance_readable [OF b1(2,4)] obtain b2 where
    b2: "BeginWrite b1 xs = Some b2" "m_iWriteIndex b2 = m_iWriteIndex b1"
      "\<forall>w. m_iWriteIndex b1 \<le> w \<and> w \<le> m_iWriteIndex b1 + int (length xs) \<longrightarrow>
         buf_inv (b2 \<lparr> m_iWriteIndex := w \<rparr>) \<and>
         readable (b2 \<lparr> m_iWriteIndex := w \<rparr>) = readable b1 @ take (nat (w - m_iWriteIndex b1)) xs" by blast
  have u: "u64 (m_iWriteIndex b1 + int (length xs)) = m_iWriteIndex b1 + int (length xs)"
    using b1(2,4) buf_inv_counts(2) [OF b1(2)] by (intro u64_small) (auto simp: buf_inv_def)
  show ?thesis using b1(1,3) b2(1,2) b2(3) [rule_format, of "m_iWriteIndex b1 + int (length xs)"]
    by (simp add: Append_def u)
qed

lemma Retrieve_ok:
  assumes "buf_inv b" and "0 \<le> n"
  shows "\<exists>b'. Retrieve b n = (min n (ReadableBytes b), b') \<and> buf_inv b' \<and> readable b' = drop (nat n) (readable b)"
proof (cases "n < ReadableBytes b")
  case True
  note c = buf_inv_counts [OF assms(1)]
  have lt: "m_iReadIndex b + n < m_iWriteIndex b" using True c(1) by simp
  have u: "u64 (m_iReadIndex b + n) = m_iReadIndex b + n"
    using assms lt by (intro u64_small) (auto simp: buf_inv_def)
  let ?b = "b \<lparr> m_iReadIndex := m_iReadIndex b + n \<rparr>"
  have "buf_inv ?b" using assms lt by (simp add: buf_inv_def)
  moreover have "readable ?b = drop (nat n) (readable b)"
    using assms lt by (simp add: readable_def buf_inv_def drop_take nat_add_distrib nat_diff_distrib' diff_diff_eq algebra_simps)
  ultimately show ?thesis using True u by (simp add: Retrieve_def min_def)
next
  case False
  let ?b = "b \<lparr> m_iReadIndex := 0, m_iWriteIndex := 0 \<rparr>"
  have "length (readable b) \<le> nat n" using False buf_inv_counts(3) [OF assms(1)] by linarith
  moreover have "buf_inv ?b" using assms by (simp add: buf_inv_def)
  moreover have "readable ?b = []" by (simp add: readable_def)
  ultimately show ?thesis using False by (simp add: Retrieve_def min_def)
qed


lemma readable_bound: "buf_inv b \<Longrightarrow> int (length (readable b)) \<le> vector_max"
  using buf_inv_counts(1,3) [of b] by (simp add: buf_inv_def)

interpretation buf_q: byte_queue buf_inv readable buf_room Append
  "\<lambda>b n. (nat (fst (Retrieve b (int n))), snd (Retrieve b (int n)))"
proof unfold_locales
  fix b xs n
  assume i: "buf_inv b"
  note c = buf_inv_counts(3) [OF i] and rb = readable_bound [OF i]
  show "\<exists>b'. Append b xs = Some b' \<and> buf_inv b' \<and> readable b' = readable b @ xs \<and>
      buf_room b \<le> buf_room b' + length xs" if "length xs \<le> buf_room b"
  proof -
    have "ReadableBytes b + int (length xs) \<le> vector_max"
      using that c rb unfolding buf_room_def by linarith
    from Append_ok [OF i this] show ?thesis by (auto simp: buf_room_def)
  qed
  from Retrieve_ok [OF i, of "int n"] obtain b' where
    r: "Retrieve b (int n) = (min (int n) (ReadableBytes b), b')" "buf_inv b'"
      "readable b' = drop n (readable b)" by auto
  have "nat (min (int n) (ReadableBytes b)) = min n (length (readable b))" using c by linarith
  then show "\<exists>b'. (nat (fst (Retrieve b (int n))), snd (Retrieve b (int n))) = (min n (length (readable b)), b') \<and>
      buf_inv b' \<and> readable b' = drop n (readable b) \<and> buf_room b \<le> buf_room b'"
    using r by (simp add: buf_room_def)
qed

section \<open>What the channel uses\<close>

lemma Retrieve_all:
  assumes "buf_inv b"
  shows "\<exists>b'. Retrieve b (ReadableBytes b) = (ReadableBytes b, b') \<and> buf_inv b' \<and> readable b' = []"
proof -
  note c = buf_inv_counts(3) [OF assms]
  then have "0 \<le> ReadableBytes b" by linarith
  from Retrieve_ok [OF assms this] c show ?thesis by auto
qed

text \<open>Bytes stored behind \<open>BeginWrite\<close>, announced with \<open>Writed\<close>: no more than were writable.\<close>

lemma Writed_ok:
  assumes "buf_inv b" and "int (length xs) \<le> WritableBytes b"
  shows "\<exists>b1 b2. BeginWrite b xs = Some b1 \<and> Writed b1 (int (length xs)) = Some (0, b2) \<and> buf_inv b2 \<and>
    readable b2 = readable b @ xs"
proof -
  from advance_readable [OF assms] obtain b1 where
    b1: "BeginWrite b xs = Some b1" "buf_inv b1" "WritableBytes b1 = WritableBytes b"
      "m_iWriteIndex b1 = m_iWriteIndex b"
      "\<forall>w. m_iWriteIndex b \<le> w \<and> w \<le> m_iWriteIndex b + int (length xs) \<longrightarrow>
         buf_inv (b1 \<lparr> m_iWriteIndex := w \<rparr>) \<and>
         readable (b1 \<lparr> m_iWriteIndex := w \<rparr>) = readable b @ take (nat (w - m_iWriteIndex b)) xs" by blast
  have u: "u64 (m_iWriteIndex b + int (length xs)) = m_iWriteIndex b + int (length xs)"
    using assms buf_inv_counts(2) [OF assms(1)] by (intro u64_small) (auto simp: buf_inv_def)
  show ?thesis using b1 assms(2) b1(5) [rule_format, of "m_iWriteIndex b + int (length xs)"] u
    by (simp add: Writed_def)
qed

lemma Buffer_new_ok: "int n \<le> vector_max \<Longrightarrow> buf_inv (Buffer_new n)" "readable (Buffer_new n) = []"
  by (simp_all add: buf_inv_def Buffer_new_def readable_def)

section \<open>Properties\<close>

fun buffer_run :: "Buffer \<Rightarrow> queue_op list \<Rightarrow> (byte list \<times> Buffer) fault" where
  "buffer_run b [] = Some ([], b)"
| "buffer_run b (QAppend xs # ops) = do { b \<leftarrow> Append b xs; buffer_run b ops }"
| "buffer_run b (QRetrieve n # ops) = do {
     let (k, b') = Retrieve b (int n);
     out \<leftarrow> Peek b k;
     (rest, b'') \<leftarrow> buffer_run b' ops;
     Some (out @ rest, b'')
   }"

fun appended :: "queue_op list \<Rightarrow> byte list" where
  "appended [] = []"
| "appended (QAppend xs # ops) = xs @ appended ops"
| "appended (QRetrieve n # ops) = appended ops"

text \<open>
  C11. The buffer is a byte queue: on a well-formed buffer no sequence of \<open>Append\<close> and
  \<open>Retrieve\<close> faults, whatever compaction and growth it causes, as long as the appended bytes
  fit into a vector, and the bytes that came out followed by the bytes still readable are
  exactly the bytes that were readable followed by the bytes that were appended.
\<close>

theorem buffer_fifo:
  assumes "buf_inv b" and "int (length (readable b)) + int (length (appended ops)) \<le> vector_max"
  shows "\<exists>out b'. buffer_run b ops = Some (out, b') \<and> buf_inv b' \<and> out @ readable b' = readable b @ appended ops"
proof -
  have ap: "buf_q.appended ops = appended ops" for ops
    by (induction ops rule: appended.induct) auto
  have eq: "buffer_run b ops = buf_q.run b ops" if "buf_inv b" "length (appended ops) \<le> buf_room b" for b ops
    using that
  proof (induction b ops rule: buffer_run.induct)
    case (2 b xs ops)
    then have "length xs \<le> buf_room b" by simp
    from buf_q.append_ok [OF "2.prems"(1) this] obtain b1 where
      b1: "Append b xs = Some b1" "buf_inv b1" "buf_room b \<le> buf_room b1 + length xs" by blast
    then have "length (appended ops) \<le> buf_room b1" using "2.prems"(2) by simp
    then show ?case using "2.IH" b1 by simp
  next
    case (3 b n ops)
    from Retrieve_ok [OF "3.prems"(1), of "int n"] obtain b' where
      b': "Retrieve b (int n) = (min (int n) (ReadableBytes b), b')" "buf_inv b'" by auto
    have "0 \<le> min (int n) (ReadableBytes b)" using buf_inv_counts(3) [OF "3.prems"(1)] by linarith
    then have pk: "Peek b (min (int n) (ReadableBytes b)) =
        Some (take (nat (min (int n) (ReadableBytes b))) (readable b))"
      by (intro Peek_readable "3.prems") auto
    have "buf_room b \<le> buf_room b'" using buf_q.retrieve_ok [OF "3.prems"(1), of n] b'(1) by auto
    then have "buffer_run b' ops = buf_q.run b' ops" using "3.IH" b' pk "3.prems"(2) by simp
    then show ?case using b'(1) pk by (simp split: option.splits)
  qed simp
  have room: "length (appended ops) \<le> buf_room b"
    using assms(2) unfolding buf_room_def by linarith
  from buf_q.run_fifo [OF assms(1) room [folded ap]] show ?thesis
    unfolding eq [OF assms(1) room] ap .
qed

theorem buffer_fifo_witness:
  "\<exists>out b'. buffer_run (Buffer_new 2) [QAppend [1, 2, 3], QRetrieve 1, QAppend [4], QRetrieve 2] = Some (out, b') \<and>
     buf_inv b' \<and> out @ readable b' = readable (Buffer_new 2) @ [1, 2, 3, 4]"
  using buffer_fifo [of "Buffer_new 2" "[QAppend [1, 2, 3], QRetrieve 1, QAppend [4], QRetrieve 2]"]
  by (simp add: Buffer_new_ok vector_max_def)

text \<open>
  \<open>Writed\<close> with more bytes than are writable asks \<open>MakeSpace\<close> only for the missing ones,
  counted before the compaction: with an empty buffer of four bytes whose indices stand at zero
  it makes no room at all and leaves the write index behind the end of the vector.
\<close>

theorem Writed_overruns:
  "buf_inv (Buffer_new 4) \<and>
   (\<exists>b'. Writed (Buffer_new 4) 6 = Some (0, b') \<and> m_iWriteIndex b' = 6 \<and> length (m_buffer b') = 4 \<and> \<not> buf_inv b')"
proof
  show "buf_inv (Buffer_new 4)" by (rule Buffer_new_ok) (simp add: vector_max_def)
  have w: "Writed (Buffer_new 4) 6 = Some (0, \<lparr> m_buffer = [0, 0, 0, 0], m_iReadIndex = 0, m_iWriteIndex = 6 \<rparr>)"
    by code_simp
  show "\<exists>b'. Writed (Buffer_new 4) 6 = Some (0, b') \<and> m_iWriteIndex b' = 6 \<and> length (m_buffer b') = 4 \<and> \<not> buf_inv b'"
    unfolding w by (simp add: buf_inv_def)
qed

end
