(* ===== verification/TcpSocket.thy ===== *)
theory TcpSocket
  imports Buffer
begin

unbundle bit_operations_syntax

text \<open>
  Sockets and the poller: \<^verbatim>\<open>src/util/net/tcp_socket.{h,cpp}\<close> and
  \<^verbatim>\<open>src/util/net/epoll_poller.{h,cpp}\<close>.

  The operating system is a parameter: \<open>'k sys\<close> is the record of the system calls the
  sources make, each a function on an arbitrary kernel state \<open>'k\<close> that returns the call's
  result, where the code looks at it \<open>errno\<close>, and the next kernel state. Log lines do not
  change any state and are left out.
\<close>

section \<open>Addresses\<close>

record sockaddr_in =
  sin_family :: int
  sin_port :: int
  s_addr :: int

definition AF_INET :: int where "AF_INET = 2"

text \<open>The host is little endian: \<open>htobe16\<close> and \<open>be16toh\<close> swap the two bytes.\<close>

definition htobe16 :: "int \<Rightarrow> int" where
  "htobe16 p = (p mod 256) * 256 + p div 256 mod 256"

definition bzero_addr :: sockaddr_in where
  "bzero_addr = \<lparr> sin_family = 0, sin_port = 0, s_addr = 0 \<rparr>"

definition InetAddress_port :: "int \<Rightarrow> sockaddr_in" where
  "InetAddress_port port = bzero_addr \<lparr> sin_family := AF_INET, s_addr := 0, sin_port := htobe16 port \<rparr>"

text \<open>\<open>inet_pton\<close> is a parameter; on failure the address stays zero.\<close>

definition InetAddress_ip ::
  "(string \<Rightarrow> int option) \<Rightarrow> string \<Rightarrow> int \<Rightarrow> sockaddr_in" where
  "InetAddress_ip inet_pton ip port =
     (let a = bzero_addr \<lparr> sin_family := AF_INET, sin_port := htobe16 port \<rparr>
      in case inet_pton ip of None \<Rightarrow> a | Some x \<Rightarrow> a \<lparr> s_addr := x \<rparr>)"

definition InetAddress_copy :: "sockaddr_in \<Rightarrow> sockaddr_in" where
  "InetAddress_copy addr = bzero_addr"

definition ToIp :: "(int \<Rightarrow> string option) \<Rightarrow> sockaddr_in \<Rightarrow> string" where
  "ToIp inet_ntop a = (case inet_ntop (s_addr a) of None \<Rightarrow> ''INVALID'' | Some s \<Rightarrow> s)"

definition ToPort :: "sockaddr_in \<Rightarrow> int" where
  "ToPort a = htobe16 (sin_port a)"

text \<open>\<open>%u\<close>, and \<open>snprintf\<close> into a buffer of 32 characters, the last of which is the end of the string.\<close>

fun decimal :: "nat \<Rightarrow> string" where
  "decimal n = (if n < 10 then [char_of (48 + n)] else decimal (n div 10) @ [char_of (48 + n mod 10)])"

declare decimal.simps [simp del]

definition ToIpPort :: "(int \<Rightarrow> string option) \<Rightarrow> sockaddr_in \<Rightarrow> string" where
  "ToIpPort inet_ntop a = take 31 (ToIp inet_ntop a @ '':'' @ decimal (nat (ToPort a)))"

lemma length_decimal: "n < 10 ^ Suc k \<Longrightarrow> length (decimal n) \<le> Suc k"
proof (induction k arbitrary: n)
  case (Suc k)
  have "n div 10 < 10 ^ Suc k" using Suc.prems by (simp add: div_less_iff_less_mult mult.commute)
  from Suc.IH [OF this] show ?case by (subst decimal.simps) simp
qed (simp add: decimal.simps)

text \<open>The buffer is long enough: an address of four decimal bytes and a port are never cut.\<close>

lemma ToIpPort_not_cut:
  assumes "\<And>x s. inet_ntop x = Some s \<Longrightarrow> length s \<le> 15"
  shows "ToIpPort inet_ntop a = ToIp inet_ntop a @ '':'' @ decimal (nat (ToPort a))"
proof -
  have "0 \<le> sin_port a mod 256" "sin_port a mod 256 < 256" "0 \<le> sin_port a div 256 mod 256" "sin_port a div 256 mod 256 < 256"
    by simp_all
  then have "ToPort a < 65536" unfolding ToPort_def htobe16_def by linarith
  then have "length (decimal (nat (ToPort a))) \<le> Suc 4" by (intro length_decimal) simp
  moreover have "length (ToIp inet_ntop a) \<le> 15"
    using assms by (auto simp: ToIp_def split: option.splits)
  ultimately show ?thesis by (simp add: ToIpPort_def)
qed

section \<open>System calls\<close>

record 'k sys =
  sys_epoll_ctl :: "int \<Rightarrow> int \<Rightarrow> int \<Rightarrow> int \<Rightarrow> 'k \<Rightarrow> int \<times> 'k"
  sys_write :: "int \<Rightarrow> byte list \<Rightarrow> 'k \<Rightarrow> int \<times> int \<times> 'k"
  sys_readv :: "int \<Rightarrow> int \<Rightarrow> 'k \<Rightarrow> int \<times> byte list \<times> 'k"
  sys_close :: "int \<Rightarrow> 'k \<Rightarrow> int \<times> 'k"
  sys_socket :: "'k \<Rightarrow> int \<times> 'k"
  sys_connect :: "int \<Rightarrow> sockaddr_in \<Rightarrow> 'k \<Rightarrow> int \<times> int \<times> 'k"
  sys_so_error :: "int \<Rightarrow> 'k \<Rightarrow> int \<times> int \<times> int \<times> 'k"
  sys_bind :: "int \<Rightarrow> sockaddr_in \<Rightarrow> 'k \<Rightarrow> int \<times> 'k"
  sys_listen :: "int \<Rightarrow> 'k \<Rightarrow> int \<times> 'k"
  sys_accept4 :: "int \<Rightarrow> 'k \<Rightarrow> int \<times> int \<times> sockaddr_in \<times> 'k"
  sys_open_null :: "'k \<Rightarrow> int \<times> 'k"
  sys_fcntl_getfl :: "int \<Rightarrow> 'k \<Rightarrow> int"
  sys_fcntl_setfl :: "int \<Rightarrow> int \<Rightarrow> 'k \<Rightarrow> int \<times> 'k"
  sys_setsockopt :: "int \<Rightarrow> int \<Rightarrow> int \<Rightarrow> int \<Rightarrow> 'k \<Rightarrow> int \<times> 'k"
  sys_getsockname :: "int \<Rightarrow> 'k \<Rightarrow> sockaddr_in option"
  sys_getpeername :: "int \<Rightarrow> 'k \<Rightarrow> sockaddr_in option"

section \<open>Sockets\<close>

definition EPOLLIN :: int where "EPOLLIN = 1"
definition EPOLLPRI :: int where "EPOLLPRI = 2"
definition EPOLLOUT :: int where "EPOLLOUT = 4"
definition EPOLLERR :: int where "EPOLLERR = 8"
definition EPOLLHUP :: int where "EPOLLHUP = 16"
definition EPOLLRDHUP :: int where "EPOLLRDHUP = 8192"

definition EPOLL_CTL_ADD :: int where "EPOLL_CTL_ADD = 1"
definition EPOLL_CTL_DEL :: int where "EPOLL_CTL_DEL = 2"
definition EPOLL_CTL_MOD :: int where "EPOLL_CTL_MOD = 3"

lemmas epoll_consts = EPOLLIN_def EPOLLPRI_def EPOLLOUT_def EPOLLERR_def EPOLLHUP_def EPOLLRDHUP_def
  EPOLL_CTL_ADD_def EPOLL_CTL_DEL_def EPOLL_CTL_MOD_def

definition kNoneEvent :: int where "kNoneEvent = 0"
definition kReadEvent :: int where "kReadEvent = EPOLLIN OR EPOLLPRI"
definition kWriteEvent :: int where "kWriteEvent = EPOLLOUT"

record TcpSocket =
  m_iFD :: int
  m_iEvents :: int
  m_isPooling :: bool

definition TcpSocket_new :: TcpSocket where
  "TcpSocket_new = \<lparr> m_iFD = -1, m_iEvents = kNoneEvent, m_isPooling = False \<rparr>"

definition IsNoneEvent :: "'a TcpSocket_scheme \<Rightarrow> bool" where
  "IsNoneEvent s \<longleftrightarrow> m_iEvents s = kNoneEvent"

definition IsWriting :: "'a TcpSocket_scheme \<Rightarrow> bool" where
  "IsWriting s \<longleftrightarrow> m_iEvents s AND kWriteEvent \<noteq> 0"

definition SetFD :: "'a TcpSocket_scheme \<Rightarrow> int \<Rightarrow> int \<times> 'a TcpSocket_scheme" where
  "SetFD s iFD = (0, s \<lparr> m_iFD := iFD \<rparr>)"

definition SetPooling :: "'a TcpSocket_scheme \<Rightarrow> bool \<Rightarrow> 'a TcpSocket_scheme" where
  "SetPooling s on = s \<lparr> m_isPooling := on \<rparr>"

text \<open>The option setters: \<open>SOL_SOCKET\<close> is 1, \<open>IPPROTO_TCP\<close> is 6, \<open>O_NONBLOCK\<close> is 2048.\<close>

definition SetNonBlock :: "'k sys \<Rightarrow> 'a TcpSocket_scheme \<Rightarrow> 'k \<Rightarrow> int \<times> 'k" where
  "SetNonBlock sy s k = sys_fcntl_setfl sy (m_iFD s) (sys_fcntl_getfl sy (m_iFD s) k OR 2048) k"

definition SetReuseAddr :: "'k sys \<Rightarrow> 'a TcpSocket_scheme \<Rightarrow> bool \<Rightarrow> 'k \<Rightarrow> int \<times> 'k" where
  "SetReuseAddr sy s on k = (0, snd (sys_setsockopt sy (m_iFD s) 1 2 (if on then 1 else 0) k))"

definition SetReusePort :: "'k sys \<Rightarrow> 'a TcpSocket_scheme \<Rightarrow> bool \<Rightarrow> 'k \<Rightarrow> int \<times> 'k" where
  "SetReusePort sy s on k = sys_setsockopt sy (m_iFD s) 1 15 (if on then 1 else 0) k"

definition SetTcpNoDelay :: "'k sys \<Rightarrow> 'a TcpSocket_scheme \<Rightarrow> bool \<Rightarrow> 'k \<Rightarrow> int \<times> 'k" where
  "SetTcpNoDelay sy s on k = sys_setsockopt sy (m_iFD s) 6 1 (if on then 1 else 0) k"

definition SetKeepAlive :: "'k sys \<Rightarrow> 'a TcpSocket_scheme \<Rightarrow> bool \<Rightarrow> 'k \<Rightarrow> int \<times> 'k" where
  "SetKeepAlive sy s on k = sys_setsockopt sy (m_iFD s) 1 9 (if on then 1 else 0) k"

text \<open>\<open>getsockopt(SO_ERROR)\<close> yields its return code, the option value and \<open>errno\<close>.\<close>

definition GetSocketError :: "'k sys \<Rightarrow> 'a TcpSocket_scheme \<Rightarrow> 'k \<Rightarrow> int \<times> 'k" where
  "GetSocketError sy s k =
     (let (ret, optval, err, k) = sys_so_error sy (m_iFD s) k
      in if ret < 0 then (err, k) else (optval, k))"

definition TcpSocket_HandleError :: "'k sys \<Rightarrow> 'a TcpSocket_scheme \<Rightarrow> 'k \<Rightarrow> int \<times> 'k" where
  "TcpSocket_HandleError sy s k = (let (_, k) = GetSocketError sy s k in (0, k))"

definition CreateNoBlock :: "'k sys \<Rightarrow> 'a TcpSocket_scheme \<Rightarrow> 'k \<Rightarrow> int \<times> 'a TcpSocket_scheme \<times> 'k" where
  "CreateNoBlock sy s k =
     (let (sockfd, k) = sys_socket sy k
      in if sockfd < 0 then (-1, s, k) else (0, s \<lparr> m_iFD := sockfd \<rparr>, k))"

text \<open>A failed call leaves the default-constructed address, whatever it holds.\<close>

definition GetLocalAddr :: "'k sys \<Rightarrow> sockaddr_in \<Rightarrow> 'a TcpSocket_scheme \<Rightarrow> 'k \<Rightarrow> sockaddr_in" where
  "GetLocalAddr sy garbage s k = (case sys_getsockname sy (m_iFD s) k of None \<Rightarrow> garbage | Some a \<Rightarrow> a)"

definition GetPeerAddr :: "'k sys \<Rightarrow> sockaddr_in \<Rightarrow> 'a TcpSocket_scheme \<Rightarrow> 'k \<Rightarrow> sockaddr_in" where
  "GetPeerAddr sy garbage s k = (case sys_getpeername sy (m_iFD s) k of None \<Rightarrow> garbage | Some a \<Rightarrow> a)"

section \<open>The poller\<close>

record EPollPoller =
  m_EventListSize :: int
  m_EpollFD :: int

definition kInitEventListSize :: int where "kInitEventListSize = 16"

definition EPollPoller_new :: "int \<Rightarrow> EPollPoller" where
  "EPollPoller_new garbage = \<lparr> m_EventListSize = kInitEventListSize, m_EpollFD = garbage \<rparr>"

definition InitEpoll :: "('k \<Rightarrow> int \<times> 'k) \<Rightarrow> EPollPoller \<Rightarrow> 'k \<Rightarrow> int \<times> EPollPoller \<times> 'k" where
  "InitEpoll epoll_create1 ep k =
     (let (fd, k) = epoll_create1 k; ep = ep \<lparr> m_EpollFD := fd \<rparr>
      in if fd < 0 then (-1, ep, k) else (0, ep, k))"

definition Update :: "'k sys \<Rightarrow> EPollPoller \<Rightarrow> int \<Rightarrow> 'a TcpSocket_scheme \<Rightarrow> 'k \<Rightarrow> int \<times> 'k" where
  "Update sy ep op s k =
     (let (iRet, k) = sys_epoll_ctl sy (m_EpollFD ep) op (m_iFD s) (m_iEvents s) k
      in if iRet < 0 then (-1, k) else (0, k))"

definition EPoll_UpdateEvent ::
  "'k sys \<Rightarrow> EPollPoller \<Rightarrow> 'a TcpSocket_scheme \<Rightarrow> 'k \<Rightarrow> 'a TcpSocket_scheme \<times> 'k" where
  "EPoll_UpdateEvent sy ep s k =
     (if \<not> m_isPooling s
      then if IsNoneEvent s then (s, k)
           else (let (_, k) = Update sy ep EPOLL_CTL_ADD s k in (SetPooling s True, k))
      else if IsNoneEvent s
           then (let (_, k) = Update sy ep EPOLL_CTL_DEL s k in (SetPooling s False, k))
           else (let (_, k) = Update sy ep EPOLL_CTL_MOD s k in (s, k)))"

lemma UpdateEvent_pooling: "\<exists>p. fst (EPoll_UpdateEvent sy ep s k) = s \<lparr> m_isPooling := p \<rparr>"
proof -
  let ?s = "fst (EPoll_UpdateEvent sy ep s k)"
  have "?s = s \<or> ?s = s \<lparr> m_isPooling := True \<rparr> \<or> ?s = s \<lparr> m_isPooling := False \<rparr>"
    by (simp add: EPoll_UpdateEvent_def SetPooling_def split_beta)
  moreover have "s = s \<lparr> m_isPooling := m_isPooling s \<rparr>" by simp
  ultimately show ?thesis by metis
qed

section \<open>The event mask of a socket\<close>

definition EnableReading ::
  "'k sys \<Rightarrow> EPollPoller \<Rightarrow> 'a TcpSocket_scheme \<Rightarrow> 'k \<Rightarrow> 'a TcpSocket_scheme \<times> 'k" where
  "EnableReading sy ep s k = EPoll_UpdateEvent sy ep (s \<lparr> m_iEvents := m_iEvents s OR kReadEvent \<rparr>) k"

definition EnableWriting ::
  "'k sys \<Rightarrow> EPollPoller \<Rightarrow> 'a TcpSocket_scheme \<Rightarrow> 'k \<Rightarrow> 'a TcpSocket_scheme \<times> 'k" where
  "EnableWriting sy ep s k = EPoll_UpdateEvent sy ep (s \<lparr> m_iEvents := m_iEvents s OR kWriteEvent \<rparr>) k"

definition DisableWriting ::
  "'k sys \<Rightarrow> EPollPoller \<Rightarrow> 'a TcpSocket_scheme \<Rightarrow> 'k \<Rightarrow> 'a TcpSocket_scheme \<times> 'k" where
  "DisableWriting sy ep s k = EPoll_UpdateEvent sy ep (s \<lparr> m_iEvents := m_iEvents s AND NOT kWriteEvent \<rparr>) k"

definition DisableAll ::
  "'k sys \<Rightarrow> EPollPoller \<Rightarrow> 'a TcpSocket_scheme \<Rightarrow> 'k \<Rightarrow> 'a TcpSocket_scheme \<times> 'k" where
  "DisableAll sy ep s k = EPoll_UpdateEvent sy ep (s \<lparr> m_iEvents := kNoneEvent \<rparr>) k"

definition Close ::
  "'k sys \<Rightarrow> EPollPoller \<Rightarrow> 'a TcpSocket_scheme \<Rightarrow> 'k \<Rightarrow> int \<times> 'a TcpSocket_scheme \<times> 'k" where
  "Close sy ep s k =
     (let (s, k) = DisableAll sy ep s k; (iRet, k) = sys_close sy (m_iFD s) k
      in (iRet, s, k))"

section \<open>Dispatch\<close>

text \<open>
  The virtual functions of a socket object, as functions on a world \<open>'w\<close> that holds the
  objects: calling one on an object that was deleted is a fault.
\<close>

record 'w vtable =
  vHandleCanRecv :: "int \<Rightarrow> 'w \<Rightarrow> (int \<times> 'w) option"
  vHandleCanSend :: "int \<Rightarrow> 'w \<Rightarrow> (int \<times> 'w) option"
  vHandleError :: "int \<Rightarrow> 'w \<Rightarrow> (int \<times> 'w) option"
  vHandleClose :: "int \<Rightarrow> 'w \<Rightarrow> (int \<times> 'w) option"

definition HandleEvent :: "'w vtable \<Rightarrow> int \<Rightarrow> int \<Rightarrow> 'w \<Rightarrow> (int \<times> 'w) fault" where
  "HandleEvent vt pSocket iEvent w = do {
     (isError, w) \<leftarrow>
       (if iEvent AND EPOLLHUP \<noteq> 0 \<and> iEvent AND EPOLLIN = 0
        then do { (_, w) \<leftarrow> vHandleClose vt pSocket w; Some (True, w) }
        else if iEvent AND EPOLLERR \<noteq> 0
        then do { (_, w) \<leftarrow> vHandleError vt pSocket w; Some (True, w) }
        else Some (False, w));
     w \<leftarrow> (if iEvent AND (EPOLLIN OR EPOLLPRI OR EPOLLRDHUP) \<noteq> 0
          then map_option snd (vHandleCanRecv vt pSocket w) else Some w);
     w \<leftarrow> (if \<not> isError \<and> iEvent AND EPOLLOUT \<noteq> 0
          then map_option snd (vHandleCanSend vt pSocket w) else Some w);
     Some (0, w)
   }"

fun handle_events :: "'w vtable \<Rightarrow> (int \<times> int) list \<Rightarrow> 'w \<Rightarrow> 'w fault" where
  "handle_events vt [] w = Some w"
| "handle_events vt ((pSocket, events) # es) w = do {
     (_, w) \<leftarrow> HandleEvent vt pSocket events w;
     handle_events vt es w
   }"

text \<open>
  \<open>wait\<close> is what \<open>epoll_wait\<close> returns for the given list size: the count and the filled
  entries. A count of events larger than the filled list would be read from stale entries, so
  the model asks for exactly \<open>numEvents\<close> entries.
\<close>

definition Poll ::
  "'w vtable \<Rightarrow> (int \<Rightarrow> int \<times> (int \<times> int) list) \<Rightarrow> EPollPoller \<Rightarrow> 'w \<Rightarrow> (int \<times> EPollPoller \<times> 'w) fault" where
  "Poll vt wait ep w =
     (let (numEvents, evs) = wait (m_EventListSize ep);
          ep = (if numEvents > 0 \<and> numEvents = m_EventListSize ep
                then ep \<lparr> m_EventListSize := m_EventListSize ep * 2 \<rparr> else ep)
      in if numEvents < 0 then Some (-1, ep, w)
         else if int (length evs) < numEvents then None
         else do {
           w \<leftarrow> handle_events vt (take (nat numEvents) evs) w;
           Some (0, ep, w)
         })"

section \<open>The interest list\<close>

text \<open>
  What the code relies on of \<open>epoll_ctl\<close> (its manual page): an instance keeps a set of
  registered descriptors with their event masks; \<open>ADD\<close> succeeds on an absent descriptor,
  \<open>MOD\<close> and \<open>DEL\<close> succeed on a registered one, with the effect the names say.
\<close>

definition epoll_spec :: "'k sys \<Rightarrow> EPollPoller \<Rightarrow> ('k \<Rightarrow> int \<Rightarrow> int option) \<Rightarrow> bool" where
  "epoll_spec sy ep interest \<longleftrightarrow> (\<forall>k fd ev.
     (interest k fd = None \<longrightarrow>
        fst (sys_epoll_ctl sy (m_EpollFD ep) EPOLL_CTL_ADD fd ev k) = 0 \<and>
        interest (snd (sys_epoll_ctl sy (m_EpollFD ep) EPOLL_CTL_ADD fd ev k)) = (interest k)(fd \<mapsto> ev)) \<and>
     (interest k fd \<noteq> None \<longrightarrow>
        fst (sys_epoll_ctl sy (m_EpollFD ep) EPOLL_CTL_MOD fd ev k) = 0 \<and>
        interest (snd (sys_epoll_ctl sy (m_EpollFD ep) EPOLL_CTL_MOD fd ev k)) = (interest k)(fd \<mapsto> ev) \<and>
        fst (sys_epoll_ctl sy (m_EpollFD ep) EPOLL_CTL_DEL fd ev k) = 0 \<and>
        interest (snd (sys_epoll_ctl sy (m_EpollFD ep) EPOLL_CTL_DEL fd ev k)) = (interest k)(fd := None)))"

text \<open>The socket's own view and the kernel's agree.\<close>

definition registered :: "('k \<Rightarrow> int \<Rightarrow> int option) \<Rightarrow> 'a TcpSocket_scheme \<Rightarrow> 'k \<Rightarrow> bool" where
  "registered interest s k \<longleftrightarrow>
     interest k (m_iFD s) = (if m_isPooling s then Some (m_iEvents s) else None) \<and>
     (m_isPooling s \<longleftrightarrow> m_iEvents s \<noteq> kNoneEvent)"

text \<open>Only the mask was changed since they agreed.\<close>

lemma UpdateEvent_registers:
  assumes sp: "epoll_spec sy ep interest"
    and agree: "interest k (m_iFD s) = (if m_isPooling s then Some e else None)"
  shows "\<exists>k'. EPoll_UpdateEvent sy ep s k = (s \<lparr> m_isPooling := (m_iEvents s \<noteq> kNoneEvent) \<rparr>, k') \<and>
    interest k' = (interest k)(m_iFD s := if m_iEvents s = kNoneEvent then None else Some (m_iEvents s))"
proof -
  note d = EPoll_UpdateEvent_def IsNoneEvent_def SetPooling_def Update_def
  note sk = sp [unfolded epoll_spec_def, rule_format, of k "m_iFD s" "m_iEvents s"]
  consider "\<not> m_isPooling s" "m_iEvents s = kNoneEvent" | "\<not> m_isPooling s" "m_iEvents s \<noteq> kNoneEvent"
    | "m_isPooling s" "m_iEvents s = kNoneEvent" | "m_isPooling s" "m_iEvents s \<noteq> kNoneEvent" by blast
  then show ?thesis
  proof cases
    case 1
    then show ?thesis using agree by (simp add: d fun_upd_idem)
  next
    case 2
    then have "interest k (m_iFD s) = None" using agree by simp
    then show ?thesis using 2 sk by (simp add: d split_beta)
  next
    case 3
    then have "interest k (m_iFD s) \<noteq> None" using agree by simp
    then show ?thesis using 3 sk by (simp add: d split_beta)
  next
    case 4
    then have "interest k (m_iFD s) \<noteq> None" using agree by simp
    then show ?thesis using 4 sk by (simp add: d split_beta)
  qed
qed

lemma registered_agree:
  "registered interest s k \<Longrightarrow> interest k (m_iFD s) = (if m_isPooling s then Some (m_iEvents s) else None)"
  by (simp add: registered_def)

lemma registered_mask:
  assumes sp: "epoll_spec sy ep interest" and r: "registered interest s k"
  shows "\<exists>k'. EPoll_UpdateEvent sy ep (s \<lparr> m_iEvents := ev \<rparr>) k =
      (s \<lparr> m_iEvents := ev, m_isPooling := (ev \<noteq> kNoneEvent) \<rparr>, k') \<and>
    registered interest (s \<lparr> m_iEvents := ev, m_isPooling := (ev \<noteq> kNoneEvent) \<rparr>) k' \<and>
    (\<forall>fd. fd \<noteq> m_iFD s \<longrightarrow> interest k' fd = interest k fd)"
  using UpdateEvent_registers [OF sp, of k "s \<lparr> m_iEvents := ev \<rparr>" "m_iEvents s"] registered_agree [OF r]
  by (auto simp: registered_def)

section \<open>Properties\<close>

datatype mask_op = MEnableReading | MEnableWriting | MDisableWriting | MDisableAll

fun mask_step :: "'k sys \<Rightarrow> EPollPoller \<Rightarrow> mask_op \<Rightarrow> 'a TcpSocket_scheme \<times> 'k \<Rightarrow> 'a TcpSocket_scheme \<times> 'k" where
  "mask_step sy ep MEnableReading (s, k) = EnableReading sy ep s k"
| "mask_step sy ep MEnableWriting (s, k) = EnableWriting sy ep s k"
| "mask_step sy ep MDisableWriting (s, k) = DisableWriting sy ep s k"
| "mask_step sy ep MDisableAll (s, k) = DisableAll sy ep s k"

lemma mask_step_registered:
  assumes "epoll_spec sy ep interest" and "registered interest s k"
  shows "\<exists>s' k'. mask_step sy ep op (s, k) = (s', k') \<and> registered interest s' k' \<and> m_iFD s' = m_iFD s \<and>
    (\<forall>fd. fd \<noteq> m_iFD s \<longrightarrow> interest k' fd = interest k fd)"
  using registered_mask [OF assms, of "m_iEvents s OR kReadEvent"]
    registered_mask [OF assms, of "m_iEvents s OR kWriteEvent"]
    registered_mask [OF assms, of "m_iEvents s AND NOT kWriteEvent"]
    registered_mask [OF assms, of kNoneEvent]
  by (cases op) (auto simp: EnableReading_def EnableWriting_def DisableWriting_def DisableAll_def)

text \<open>
  C12. The poller keeps the kernel's interest list and the sockets' event masks in step: with
  an \<open>epoll_ctl\<close> that behaves as documented, after any sequence of enabling and disabling
  events on a socket the descriptor is registered exactly when the mask is not empty, with
  exactly that mask, and no other descriptor's registration has changed. So every \<open>ADD\<close>,
  \<open>MOD\<close> and \<open>DEL\<close> the code chose was the one that succeeds.
\<close>

theorem event_masks_registered:
  assumes "epoll_spec sy ep interest" and "registered interest s k"
  shows "\<exists>s' k'. fold (mask_step sy ep) ops (s, k) = (s', k') \<and> registered interest s' k' \<and>
    (\<forall>fd. fd \<noteq> m_iFD s \<longrightarrow> interest k' fd = interest k fd)"
  using assms(2)
proof (induction ops arbitrary: s k)
  case Nil
  then show ?case by simp
next
  case (Cons op ops)
  from mask_step_registered [OF assms(1) Cons.prems, of op] obtain s1 k1 where
    s1: "mask_step sy ep op (s, k) = (s1, k1)" "registered interest s1 k1" "m_iFD s1 = m_iFD s"
      "\<forall>fd. fd \<noteq> m_iFD s \<longrightarrow> interest k1 fd = interest k fd" by blast
  from Cons.IH [OF s1(2)] obtain s' k' where
    "fold (mask_step sy ep) ops (s1, k1) = (s', k')" "registered interest s' k'"
    "\<forall>fd. fd \<noteq> m_iFD s1 \<longrightarrow> interest k' fd = interest k1 fd" by blast
  then show ?case using s1 by auto
qed

text \<open>A kernel whose calls do nothing, to fill in for the ones an example does not use.\<close>

definition idle_sys :: "'k sys" where
  "idle_sys =
     \<lparr> sys_epoll_ctl = (\<lambda>_ _ _ _ k. (0, k)), sys_write = (\<lambda>_ buf k. (int (length buf), 0, k)),
       sys_readv = (\<lambda>_ _ k. (0, [], k)), sys_close = (\<lambda>_ k. (0, k)), sys_socket = (\<lambda>k. (3, k)),
       sys_connect = (\<lambda>_ _ k. (0, 0, k)), sys_so_error = (\<lambda>_ k. (0, 0, 0, k)),
       sys_bind = (\<lambda>_ _ k. (0, k)), sys_listen = (\<lambda>_ k. (0, k)),
       sys_accept4 = (\<lambda>_ k. (5, 0, bzero_addr, k)), sys_open_null = (\<lambda>k. (4, k)),
       sys_fcntl_getfl = (\<lambda>_ _. 0), sys_fcntl_setfl = (\<lambda>_ _ k. (0, k)),
       sys_setsockopt = (\<lambda>_ _ _ _ k. (0, k)), sys_getsockname = (\<lambda>_ _. None),
       sys_getpeername = (\<lambda>_ _. None) \<rparr>"

text \<open>A kernel that is nothing but its interest list.\<close>

definition map_ctl :: "int \<Rightarrow> int \<Rightarrow> int \<Rightarrow> int \<Rightarrow> (int \<Rightarrow> int option) \<Rightarrow> int \<times> (int \<Rightarrow> int option)" where
  "map_ctl epfd op fd ev k =
     (if op = EPOLL_CTL_ADD then if k fd = None then (0, k(fd \<mapsto> ev)) else (-1, k)
      else if op = EPOLL_CTL_MOD then if k fd \<noteq> None then (0, k(fd \<mapsto> ev)) else (-1, k)
      else if k fd \<noteq> None then (0, k(fd := None)) else (-1, k))"

lemma map_ctl_spec: "sys_epoll_ctl sy = map_ctl \<Longrightarrow> epoll_spec sy ep (\<lambda>k. k)"
  by (simp add: epoll_spec_def map_ctl_def epoll_consts)

theorem event_masks_registered_witness:
  "\<exists>s' k'. fold (mask_step (idle_sys \<lparr> sys_epoll_ctl := map_ctl \<rparr>) (EPollPoller_new 3))
       [MEnableReading, MEnableWriting, MDisableWriting] (TcpSocket_new \<lparr> m_iFD := 7 \<rparr>, Map.empty) = (s', k') \<and>
     registered (\<lambda>k. k) s' k' \<and> (\<forall>fd. fd \<noteq> 7 \<longrightarrow> k' fd = None)"
  using event_masks_registered [OF map_ctl_spec [of "idle_sys \<lparr> sys_epoll_ctl := map_ctl \<rparr>" "EPollPoller_new 3"],
      of "TcpSocket_new \<lparr> m_iFD := 7 \<rparr>" Map.empty "[MEnableReading, MEnableWriting, MDisableWriting]"]
  by (simp add: registered_def TcpSocket_new_def)

end
