(* ===== verification/TcpChannel.thy ===== *)
theory TcpChannel
  imports TcpSocket
begin

text \<open>
  The buffered channel of \<^verbatim>\<open>src/util/net/tcp_channel.{h,cpp}\<close>: a socket with a receive
  and a send buffer. The virtual calls at the end of \<open>DoRecv\<close> are its last action on each
  branch, so \<open>DoRecv\<close> returns which one is due and the derived classes make it.
\<close>

record TcpChannel = TcpSocket +
  m_RecvBuf :: Buffer
  m_SendBuf :: Buffer

definition k_MaxSendBufSize :: int where "k_MaxSendBufSize = 50 * 1024 * 1024"
definition k_MaxRecvBufSize :: int where "k_MaxRecvBufSize = 50 * 1024 * 1024"

definition EWOULDBLOCK :: int where "EWOULDBLOCK = 11"
definition EPIPE :: int where "EPIPE = 32"
definition ECONNRESET :: int where "ECONNRESET = 104"

definition TcpChannel_new :: TcpChannel where
  "TcpChannel_new = \<lparr> m_iFD = -1, m_iEvents = kNoneEvent, m_isPooling = False,
     m_RecvBuf = Buffer_new 1024, m_SendBuf = Buffer_new 1024 \<rparr>"

definition AppendSendBuf :: "'a TcpChannel_scheme \<Rightarrow> byte list \<Rightarrow> (int \<times> 'a TcpChannel_scheme) fault" where
  "AppendSendBuf ch buf = do {
     let b = m_SendBuf ch;
     let b = (if ReadableBytes b > k_MaxSendBufSize then snd (Retrieve b (ReadableBytes b)) else b);
     b \<leftarrow> Append b buf;
     Some (0, ch \<lparr> m_SendBuf := b \<rparr>)
   }"

definition DoSend ::
  "'k sys \<Rightarrow> EPollPoller \<Rightarrow> 'a TcpChannel_scheme \<Rightarrow> byte list \<Rightarrow> 'k \<Rightarrow> (int \<times> 'a TcpChannel_scheme \<times> 'k) fault" where
  "DoSend sy ep ch buf k =
     (let len = int (length buf);
          (ret, err, k1) = (if ReadableBytes (m_SendBuf ch) = 0 then sys_write sy (m_iFD ch) buf k else (0, 0, k));
          nwrote = s32 ret
      in if nwrote < 0 \<and> err \<noteq> EWOULDBLOCK \<and> (err = EPIPE \<or> err = ECONNRESET) then Some (-1, ch, k1)
         else
           let remaining = (if nwrote \<ge> 0 then u64 (len - nwrote) else len);
               nwrote = (if nwrote < 0 then 0 else nwrote)
           in if remaining > 0
              then do {
                rest \<leftarrow> mem_read buf nwrote remaining;
                (_, ch) \<leftarrow> AppendSendBuf ch rest;
                if \<not> IsWriting ch
                then (let (ch, k2) = EnableWriting sy ep ch k1 in Some (0, ch, k2))
                else Some (0, ch, k1)
              }
              else Some (0, ch, k1))"

definition DoContineSend ::
  "'k sys \<Rightarrow> EPollPoller \<Rightarrow> 'a TcpChannel_scheme \<Rightarrow> 'k \<Rightarrow> (int \<times> 'a TcpChannel_scheme \<times> 'k) fault" where
  "DoContineSend sy ep ch k =
     (if IsWriting ch
      then do {
        buf \<leftarrow> Peek (m_SendBuf ch) (ReadableBytes (m_SendBuf ch));
        let (ret, err, k) = sys_write sy (m_iFD ch) buf k;
        let nwrote = u64 ret;
        if nwrote > 0
        then
          let ch = ch \<lparr> m_SendBuf := snd (Retrieve (m_SendBuf ch) nwrote) \<rparr>
          in if ReadableBytes (m_SendBuf ch) = 0
             then (let (ch, k) = DisableWriting sy ep ch k in Some (0, ch, k))
             else Some (0, ch, k)
        else Some (0, ch, k)
      }
      else Some (0, ch, k))"

datatype recv_next = RecvClose | RecvError | RecvMsg

definition DoRecv ::
  "'k sys \<Rightarrow> 'a TcpChannel_scheme \<Rightarrow> 'k \<Rightarrow> (int \<times> recv_next \<times> 'a TcpChannel_scheme \<times> 'k) fault" where
  "DoRecv sy ch k = do {
     let b = m_RecvBuf ch;
     let b = (if ReadableBytes b > k_MaxRecvBufSize then snd (Retrieve b (ReadableBytes b)) else b);
     let writable = WritableBytes b;
     let space = (if writable < 65536 then writable + 65536 else writable);
     let (ret, xs, k) = sys_readv sy (m_iFD ch) space k;
     let n = s32 ret;
     b \<leftarrow> BeginWrite b (take (nat writable) xs);
     let ch = ch \<lparr> m_RecvBuf := b \<rparr>;
     if n = 0 then Some (0, RecvClose, ch, k)
     else if n < 0 then Some (-1, RecvError, ch, k)
     else if n \<le> writable
     then do {
       (_, b) \<leftarrow> Writed b n;
       Some (n, RecvMsg, ch \<lparr> m_RecvBuf := b \<rparr>, k)
     }
     else do {
       (_, b) \<leftarrow> Writed b writable;
       extra \<leftarrow> mem_read (drop (nat writable) xs) 0 (n - writable);
       b \<leftarrow> Append b extra;
       Some (n, RecvMsg, ch \<lparr> m_RecvBuf := b \<rparr>, k)
     }
   }"

section \<open>Invariant\<close>

definition chan_inv :: "'a TcpChannel_scheme \<Rightarrow> bool" where
  "chan_inv ch \<longleftrightarrow> buf_inv (m_RecvBuf ch) \<and> buf_inv (m_SendBuf ch)"

text \<open>The bytes a channel still has to send and those it has received and not handed on.\<close>

definition pending :: "'a TcpChannel_scheme \<Rightarrow> byte list" where
  "pending ch = readable (m_SendBuf ch)"

definition received :: "'a TcpChannel_scheme \<Rightarrow> byte list" where
  "received ch = readable (m_RecvBuf ch)"

text \<open>
  What the code relies on of \<open>write\<close>: on descriptor \<open>fd\<close> it takes a prefix of the buffer and
  returns its length, or fails with \<open>-1\<close> and takes nothing; it does not fail on a descriptor
  that is ready. \<open>wire\<close> is what the kernel has taken so far.
\<close>

definition write_spec ::
  "'k sys \<Rightarrow> ('k \<Rightarrow> int \<Rightarrow> byte list) \<Rightarrow> ('k \<Rightarrow> int \<Rightarrow> bool) \<Rightarrow> bool" where
  "write_spec sy wire ready \<longleftrightarrow>
     (\<forall>fd buf k. case sys_write sy fd buf k of (r, err, k') \<Rightarrow>
        -1 \<le> r \<and> r \<le> int (length buf) \<and> (r = -1 \<longrightarrow> \<not> ready k fd) \<and>
        wire k' = (wire k)(fd := wire k fd @ take (nat r) buf)) \<and>
     (\<forall>epfd op fd ev k. wire (snd (sys_epoll_ctl sy epfd op fd ev k)) = wire k)"

lemma write_specD:
  assumes "write_spec sy wire ready" and "sys_write sy fd buf k = (r, err, k')"
  shows "-1 \<le> r" "r \<le> int (length buf)" "r = -1 \<Longrightarrow> \<not> ready k fd"
    "wire k' fd = wire k fd @ take (nat r) buf"
proof -
  note w = assms(1) [unfolded write_spec_def, THEN conjunct1, THEN spec, of fd, THEN spec, of buf, THEN spec, of k]
  show "-1 \<le> r" "r \<le> int (length buf)" "r = -1 \<Longrightarrow> \<not> ready k fd"
    "wire k' fd = wire k fd @ take (nat r) buf" using w assms(2) by auto
qed

lemma UpdateEvent_wire:
  assumes "write_spec sy wire ready" and "EPoll_UpdateEvent sy ep s k = (s', k')"
  shows "wire k' = wire k" "\<exists>p. s' = s \<lparr> m_isPooling := p \<rparr>"
proof -
  have w: "wire (snd (Update sy ep op s k)) = wire k" for op
    using assms(1) by (simp add: write_spec_def Update_def split_beta)
  show "wire k' = wire k"
    using assms(2) w [of EPOLL_CTL_ADD] w [of EPOLL_CTL_DEL] w [of EPOLL_CTL_MOD]
    by (auto simp: EPoll_UpdateEvent_def split_beta split: if_splits)
  show "\<exists>p. s' = s \<lparr> m_isPooling := p \<rparr>" using UpdateEvent_pooling [of sy ep s k] assms(2) by auto
qed


definition after_limit :: "byte list \<Rightarrow> int \<Rightarrow> byte list" where
  "after_limit xs lim = (if int (length xs) > lim then [] else xs)"

lemma trim_buf:
  assumes "buf_inv b" and "lim \<ge> 0"
  shows "\<exists>b'. (if ReadableBytes b > lim then snd (Retrieve b (ReadableBytes b)) else b) = b' \<and> buf_inv b' \<and>
    readable b' = after_limit (readable b) lim"
  using Retrieve_all [OF assms(1)] buf_inv_counts(3) [OF assms(1)] assms(1) by (auto simp: after_limit_def)

lemma AppendSendBuf_ok:
  assumes "chan_inv ch" and "int (length xs) < 2147483648"
  shows "\<exists>b. AppendSendBuf ch xs = Some (0, ch \<lparr> m_SendBuf := b \<rparr>) \<and> buf_inv b \<and>
    readable b = after_limit (pending ch) k_MaxSendBufSize @ xs"
proof -
  have i: "buf_inv (m_SendBuf ch)" using assms(1) by (simp add: chan_inv_def)
  from trim_buf [OF i, of k_MaxSendBufSize] obtain b where
    b: "(if ReadableBytes (m_SendBuf ch) > k_MaxSendBufSize
        then snd (Retrieve (m_SendBuf ch) (ReadableBytes (m_SendBuf ch))) else m_SendBuf ch) = b"
      "buf_inv b" "readable b = after_limit (pending ch) k_MaxSendBufSize"
    by (auto simp: k_MaxSendBufSize_def pending_def)
  have "int (length (readable b)) \<le> k_MaxSendBufSize"
    unfolding b(3) by (simp add: after_limit_def k_MaxSendBufSize_def)
  then have "ReadableBytes b + int (length xs) \<le> vector_max"
    using assms(2) buf_inv_counts(3) [OF b(2)] by (simp add: k_MaxSendBufSize_def vector_max_def)
  from Append_ok [OF b(2) this] obtain b' where
    "Append b xs = Some b'" "buf_inv b'" "readable b' = readable b @ xs" by blast
  then show ?thesis by (intro exI [of _ b']) (simp add: AppendSendBuf_def Let_def b(1,3))
qed

lemma writing_mask:
  "IsWriting (s \<lparr> m_iEvents := m_iEvents s OR kWriteEvent, m_isPooling := p \<rparr>)"
proof -
  have "(m_iEvents s OR 4) AND 4 = (4 :: int)" by (simp add: bit_eq_iff bit_simps) blast
  then show ?thesis by (simp add: IsWriting_def kWriteEvent_def EPOLLOUT_def)
qed

text \<open>A channel with unsent bytes waits for the descriptor to become writable.\<close>

definition send_inv :: "'a TcpChannel_scheme \<Rightarrow> bool" where
  "send_inv ch \<longleftrightarrow> chan_inv ch \<and> (pending ch \<noteq> [] \<longrightarrow> IsWriting ch)"

text \<open>What the send side may change in a channel.\<close>

definition send_frame :: "'a TcpChannel_scheme \<Rightarrow> 'a TcpChannel_scheme \<Rightarrow> bool" where
  "send_frame ch ch' \<longleftrightarrow> (\<exists>b e p. ch' = ch \<lparr> m_SendBuf := b, m_iEvents := e, m_isPooling := p \<rparr>)"

lemma send_frameD:
  "send_frame ch ch' \<Longrightarrow> m_iFD ch' = m_iFD ch \<and> m_RecvBuf ch' = m_RecvBuf ch \<and>
     TcpChannel.more ch' = TcpChannel.more ch"
  by (auto simp: send_frame_def)

lemma send_frame_refl [simp]: "send_frame ch ch"
proof -
  have "ch = ch \<lparr> m_SendBuf := m_SendBuf ch, m_iEvents := m_iEvents ch, m_isPooling := m_isPooling ch \<rparr>" by simp
  then show ?thesis unfolding send_frame_def by blast
qed

lemma send_frame_buf [simp]: "send_frame ch (ch \<lparr> m_SendBuf := b \<rparr>)"
proof -
  have "ch \<lparr> m_SendBuf := b \<rparr> = ch \<lparr> m_SendBuf := b, m_iEvents := m_iEvents ch, m_isPooling := m_isPooling ch \<rparr>" by simp
  then show ?thesis unfolding send_frame_def by blast
qed

lemma DoSend_stream:
  assumes sp: "write_spec sy wire ready" and inv: "send_inv ch" and len: "int (length buf) < 2147483648"
  shows "\<exists>r ch' k'. DoSend sy ep ch buf k = Some (r, ch', k') \<and> send_inv ch' \<and> send_frame ch ch' \<and>
    (m_iEvents ch' = m_iEvents ch \<or> m_iEvents ch' = m_iEvents ch OR kWriteEvent) \<and>
    wire k' (m_iFD ch) @ pending ch' = wire k (m_iFD ch) @
      (if buf = [] then pending ch else after_limit (pending ch) k_MaxSendBufSize) @ (if r = 0 then buf else []) \<and>
    length (pending ch') \<le> length (pending ch) + length buf"
proof -
  have ci: "chan_inv ch" and bi: "buf_inv (m_SendBuf ch)" using inv by (auto simp: send_inv_def chan_inv_def)
  note c = buf_inv_counts(3) [OF bi]
  have al: "after_limit [] k_MaxSendBufSize = []"
    "length (after_limit (pending ch) k_MaxSendBufSize) \<le> length (pending ch)" by (auto simp: after_limit_def)
  obtain r err k1 where w: "(if ReadableBytes (m_SendBuf ch) = 0 then sys_write sy (m_iFD ch) buf k else (0, 0, k)) = (r, err, k1)"
    by (metis prod_cases3)
  have empty: "ReadableBytes (m_SendBuf ch) = 0 \<longleftrightarrow> pending ch = []" using c by (auto simp: pending_def)
  have wr: "-1 \<le> r" "r \<le> int (length buf)" "wire k1 (m_iFD ch) = wire k (m_iFD ch) @ take (nat r) buf"
    "pending ch \<noteq> [] \<Longrightarrow> r = 0"
    using w write_specD [OF sp, of "m_iFD ch" buf k r err k1] empty by (auto split: if_splits)
  have s: "s32 r = r" using wr(1,2) len by (intro s32_id) auto
  show ?thesis
  proof (cases "r < 0 \<and> err \<noteq> EWOULDBLOCK \<and> (err = EPIPE \<or> err = ECONNRESET)")
    case True
    then have "DoSend sy ep ch buf k = Some (-1, ch, k1)" using w s by (simp add: DoSend_def Let_def)
    then show ?thesis using inv wr True al by (cases "pending ch = []") auto
  next
    case False
    let ?n = "if r < 0 then 0 else r"
    let ?rem = "int (length buf) - ?n"
    have rem: "(if r \<ge> 0 then u64 (int (length buf) - r) else int (length buf)) = ?rem"
      using wr(1,2) len by (auto intro!: u64_id)
    have nn: "0 \<le> ?n" "?n \<le> int (length buf)" "nat ?n = nat r" using wr(1,2) by auto
    have unf: "DoSend sy ep ch buf k =
        (if ?rem > 0
         then do {
           rest \<leftarrow> mem_read buf ?n ?rem;
           (_, ch) \<leftarrow> AppendSendBuf ch rest;
           if \<not> IsWriting ch
           then (let (ch, k2) = EnableWriting sy ep ch k1 in Some (0, ch, k2))
           else Some (0, ch, k1)
         }
         else Some (0, ch, k1))"
      unfolding DoSend_def Let_def w prod.case s if_not_P [OF False] rem ..
    show ?thesis
    proof (cases "?rem > 0")
      case True
      let ?rest = "drop (nat r) buf"
      have mr: "mem_read buf ?n ?rem = Some ?rest"
        using nn by (simp add: mem_read_def)
      have "int (length ?rest) < 2147483648" using len by auto
      from AppendSendBuf_ok [OF ci this] obtain b where
        b: "AppendSendBuf ch ?rest = Some (0, ch \<lparr> m_SendBuf := b \<rparr>)" "buf_inv b" "readable b = after_limit (pending ch) k_MaxSendBufSize @ ?rest" by blast
      have ne: "buf \<noteq> []" using True nn by auto
      let ?ch = "ch \<lparr> m_SendBuf := b \<rparr>"
      have st: "wire k1 (m_iFD ch) @ readable b =
          wire k (m_iFD ch) @ after_limit (pending ch) k_MaxSendBufSize @ buf"
        using wr(3,4) b(3) al(1) by (cases "pending ch = []") auto
      have lb: "length (readable b) \<le> length (pending ch) + length buf" using al(2) b(3) by simp
      show ?thesis
      proof (cases "IsWriting ?ch")
        case iw: True
        have "DoSend sy ep ch buf k = Some (0, ?ch, k1)"
          unfolding unf if_P [OF True] mr using b(1) iw by simp
        then show ?thesis using st lb ne b ci iw by (auto simp: send_inv_def chan_inv_def pending_def)
      next
        case niw: False
        obtain ch' k2 where e: "EnableWriting sy ep ?ch k1 = (ch', k2)" by fastforce
        from UpdateEvent_wire [OF sp e [unfolded EnableWriting_def]] obtain p where
          ch': "wire k2 = wire k1" "ch' = ?ch \<lparr> m_iEvents := m_iEvents ?ch OR kWriteEvent, m_isPooling := p \<rparr>" by auto
        have "DoSend sy ep ch buf k = Some (0, ch', k2)"
          unfolding unf if_P [OF True] mr using b(1) niw e by simp
        moreover have "IsWriting ch'" unfolding ch'(2) by (rule writing_mask)
        moreover have "send_frame ch ch'" unfolding ch'(2) send_frame_def by auto
        ultimately show ?thesis using st lb ne b ci ch' by (auto simp: send_inv_def chan_inv_def pending_def)
      qed
    next
      case nrem: False
      then have "DoSend sy ep ch buf k = Some (0, ch, k1)"
        unfolding unf by (simp only: if_False)
      moreover have "take (nat r) buf = buf" using nrem nn by auto
      moreover have "pending ch \<noteq> [] \<Longrightarrow> buf = []" using nrem nn wr(4) by auto
      ultimately show ?thesis using inv wr(3) al(1) by (cases "pending ch = []") auto
    qed
  qed
qed

text \<open>The peer does not break the connection; then a send is accepted.\<close>

definition peer_up :: "'k sys \<Rightarrow> int \<Rightarrow> bool" where
  "peer_up sy fd \<longleftrightarrow> (\<forall>buf k. case sys_write sy fd buf k of (x, err, _) \<Rightarrow> 0 \<le> s32 x \<or> err = EWOULDBLOCK)"

lemma DoSend_accepted:
  assumes "DoSend sy ep ch buf k = Some (r, ch', k')"
    and "peer_up sy (m_iFD ch)"
  shows "r = 0"
proof -
  obtain x err k1 where w: "sys_write sy (m_iFD ch) buf k = (x, err, k1)" by (metis prod_cases3)
  then have "0 \<le> s32 x \<or> err = EWOULDBLOCK" using assms(2) [unfolded peer_up_def, rule_format, of buf k] by simp
  moreover have "s32 0 = 0" by (simp add: s32_def)
  ultimately show ?thesis using assms(1) w
    by (auto simp: DoSend_def Let_def split: if_splits Option.bind_splits prod.splits)
qed

lemma DoContineSend_stream:
  assumes sp: "write_spec sy wire ready" and inv: "send_inv ch"
  shows "\<exists>ch' k'. DoContineSend sy ep ch k = Some (0, ch', k') \<and> send_inv ch' \<and> send_frame ch ch' \<and>
    (m_iEvents ch' = m_iEvents ch \<or> m_iEvents ch' = m_iEvents ch AND NOT kWriteEvent) \<and>
    length (pending ch') \<le> length (pending ch) \<and>
    (ready k (m_iFD ch) \<longrightarrow> wire k' (m_iFD ch) @ pending ch' = wire k (m_iFD ch) @ pending ch)"
proof (cases "IsWriting ch")
  case True
  have ci: "chan_inv ch" and bi: "buf_inv (m_SendBuf ch)" using inv by (auto simp: send_inv_def chan_inv_def)
  note c = buf_inv_counts(3) [OF bi]
  have pk: "Peek (m_SendBuf ch) (ReadableBytes (m_SendBuf ch)) = Some (pending ch)"
    using Peek_readable [OF bi, of "ReadableBytes (m_SendBuf ch)"] c by (simp add: pending_def)
  obtain r err k1 where w: "sys_write sy (m_iFD ch) (pending ch) k = (r, err, k1)" by (metis prod_cases3)
  note wr = write_specD [OF sp w]
  have u0: "0 \<le> u64 r" by (simp add: u64_def)
  have u: "u64 r = r" if "0 \<le> r"
    using that wr(2) readable_bound [OF bi] by (intro u64_small) (auto simp: pending_def vector_max_def)
  have unf: "DoContineSend sy ep ch k =
      (if u64 r > 0
       then let ch = ch \<lparr> m_SendBuf := snd (Retrieve (m_SendBuf ch) (u64 r)) \<rparr>
            in if ReadableBytes (m_SendBuf ch) = 0
               then (let (ch, k) = DisableWriting sy ep ch k1 in Some (0, ch, k))
               else Some (0, ch, k1)
       else Some (0, ch, k1))"
    unfolding DoContineSend_def if_P [OF True] pk Option.bind.simps Let_def w prod.case ..
  show ?thesis
  proof (cases "u64 r > 0")
    case pos: True
    from Retrieve_ok [OF bi u0] obtain b where
      b: "snd (Retrieve (m_SendBuf ch) (u64 r)) = b" "buf_inv b" "readable b = drop (nat (u64 r)) (pending ch)"
      by (auto simp: pending_def)
    let ?ch = "ch \<lparr> m_SendBuf := b \<rparr>"
    have st: "wire k1 (m_iFD ch) @ readable b = wire k (m_iFD ch) @ pending ch" if "ready k (m_iFD ch)"
    proof -
      have "0 \<le> r" using wr(1,3) that by force
      then show ?thesis using wr(4) b(3) u by simp
    qed
    have sh: "length (readable b) \<le> length (pending ch)" using b(3) by simp
    show ?thesis
    proof (cases "ReadableBytes (m_SendBuf ?ch) = 0")
      case z: True
      obtain ch' k2 where e: "DisableWriting sy ep ?ch k1 = (ch', k2)" by fastforce
      from UpdateEvent_wire [OF sp e [unfolded DisableWriting_def]] obtain p where
        ch': "wire k2 = wire k1" "ch' = ?ch \<lparr> m_iEvents := m_iEvents ?ch AND NOT kWriteEvent, m_isPooling := p \<rparr>" by auto
      have "readable b = []" using z buf_inv_counts(3) [OF b(2)] by simp
      moreover have "DoContineSend sy ep ch k = Some (0, ch', k2)"
        unfolding unf b(1) Let_def using pos z e by simp
      moreover have "send_frame ch ch'" unfolding ch'(2) send_frame_def by auto
      ultimately show ?thesis using st b ci ch' by (auto simp: send_inv_def chan_inv_def pending_def)
    next
      case nz: False
      have "DoContineSend sy ep ch k = Some (0, ?ch, k1)" unfolding unf b(1) Let_def using pos nz by simp
      moreover have "IsWriting ?ch" using True by (simp add: IsWriting_def)
      ultimately show ?thesis using st sh b ci by (auto simp: send_inv_def chan_inv_def pending_def)
    qed
  next
    case False
    then have "DoContineSend sy ep ch k = Some (0, ch, k1)" unfolding unf by simp
    moreover have "r = 0 \<or> \<not> ready k (m_iFD ch)"
      using False u wr(1,3) by (cases "r = -1") auto
    ultimately show ?thesis using wr(4) inv by auto
  qed
next
  case False
  then show ?thesis using inv by (auto simp: DoContineSend_def)
qed

text \<open>\<open>readv\<close> fills the space it is given from the front and returns how much it stored.\<close>

definition readv_spec :: "'k sys \<Rightarrow> bool" where
  "readv_spec sy \<longleftrightarrow> (\<forall>fd space k. 0 \<le> space \<longrightarrow> (case sys_readv sy fd space k of (r, xs, k') \<Rightarrow>
     -1 \<le> r \<and> r \<le> space \<and> length xs = nat r))"

lemma DoRecv_stream:
  assumes sp: "readv_spec sy" and inv: "chan_inv ch"
    and rv: "sys_readv sy (m_iFD ch) space k = (r, xs, k')"
    and sp2: "space = (let w = WritableBytes (if ReadableBytes (m_RecvBuf ch) > k_MaxRecvBufSize
        then snd (Retrieve (m_RecvBuf ch) (ReadableBytes (m_RecvBuf ch))) else m_RecvBuf ch)
      in if w < 65536 then w + 65536 else w)"
    and r: "r < 2147483648"
  shows "\<exists>ch'. DoRecv sy ch k = Some (if r < 0 then -1 else r,
      if r < 0 then RecvError else if r = 0 then RecvClose else RecvMsg, ch', k') \<and> chan_inv ch' \<and>
    received ch' = after_limit (received ch) k_MaxRecvBufSize @ xs \<and> pending ch' = pending ch \<and>
    length xs = nat r \<and> -1 \<le> r \<and> (\<exists>b. ch' = ch \<lparr> m_RecvBuf := b \<rparr>)"
proof -
  have bi: "buf_inv (m_RecvBuf ch)" using inv by (simp add: chan_inv_def)
  from trim_buf [OF bi, of k_MaxRecvBufSize] obtain b where
    b: "(if ReadableBytes (m_RecvBuf ch) > k_MaxRecvBufSize
        then snd (Retrieve (m_RecvBuf ch) (ReadableBytes (m_RecvBuf ch))) else m_RecvBuf ch) = b"
      "buf_inv b" "readable b = after_limit (received ch) k_MaxRecvBufSize"
    by (auto simp: k_MaxRecvBufSize_def received_def)
  note cb = buf_inv_counts [OF b(2)]
  have w0: "0 \<le> WritableBytes b" using cb(2) b(2) by (simp add: buf_inv_def)
  have space: "space = (if WritableBytes b < 65536 then WritableBytes b + 65536 else WritableBytes b)"
    using sp2 unfolding b(1) Let_def .
  note rs = sp [unfolded readv_spec_def, THEN spec, of "m_iFD ch", THEN spec, of space, THEN spec, of k]
  have rr: "-1 \<le> r" "r \<le> space" "length xs = nat r" using rs rv w0 space by auto
  have s: "s32 r = r" using rr(1) r by (intro s32_id) auto
  let ?w = "WritableBytes b" and ?hd = "take (nat (WritableBytes b)) xs"
  have hw: "int (length ?hd) \<le> WritableBytes b" using w0 by simp
  from Writed_ok [OF b(2) hw] obtain b1 b2 where
    b12: "BeginWrite b ?hd = Some b1" "Writed b1 (int (length ?hd)) = Some (0, b2)" "buf_inv b2"
      "readable b2 = readable b @ ?hd" by blast
  from advance_readable [OF b(2) hw] b12(1) have b1: "buf_inv b1" "readable b1 = readable b" by auto
  have unf: "DoRecv sy ch k =
     (if r = 0 then Some (0, RecvClose, ch \<lparr> m_RecvBuf := b1 \<rparr>, k')
      else if r < 0 then Some (-1, RecvError, ch \<lparr> m_RecvBuf := b1 \<rparr>, k')
      else if r \<le> ?w
      then do { (_, b) \<leftarrow> Writed b1 r; Some (r, RecvMsg, ch \<lparr> m_RecvBuf := b1, m_RecvBuf := b \<rparr>, k') }
      else do { (_, b) \<leftarrow> Writed b1 ?w; extra \<leftarrow> mem_read (drop (nat ?w) xs) 0 (r - ?w);
                b \<leftarrow> Append b extra; Some (r, RecvMsg, ch \<lparr> m_RecvBuf := b1, m_RecvBuf := b \<rparr>, k') })"
    unfolding DoRecv_def Let_def b(1) space [symmetric] rv prod.case s b12(1) Option.bind.simps ..
  consider "r \<le> 0" | "0 < r" "r \<le> ?w" | "0 < r" "?w < r" by linarith
  then show ?thesis
  proof cases
    case 1
    have "xs = []" using 1 rr(3) by simp
    then show ?thesis unfolding unf using 1 rr(1,3) b b1 inv
      by (cases "r = 0") (auto simp: chan_inv_def received_def pending_def)
  next
    case 2
    have "int (length ?hd) = r" "?hd = xs" using 2 rr(3) by auto
    then show ?thesis unfolding unf using 2 rr(3) b12 b inv
      by (intro exI [of _ "ch \<lparr> m_RecvBuf := b2 \<rparr>"]) (auto simp: chan_inv_def received_def pending_def)
  next
    case 3
    have hl: "int (length ?hd) = ?w" using 3 rr(3) w0 by auto
    have ex: "mem_read (drop (nat ?w) xs) 0 (r - ?w) = Some (drop (nat ?w) xs)"
      using 3 rr(3) w0 by (simp add: mem_read_def nat_diff_distrib)
    have "?w < 65536" using 3 rr(2) unfolding space by (auto split: if_splits)
    then have le: "int (length (drop (nat ?w) xs)) \<le> 65536" using rr(2,3) w0 unfolding space by auto
    have "int (length (readable b)) \<le> k_MaxRecvBufSize"
      unfolding b(3) by (simp add: after_limit_def k_MaxRecvBufSize_def)
    then have "int (length (readable b2)) + int (length (drop (nat ?w) xs)) \<le> vector_max"
      using le \<open>?w < 65536\<close> hl unfolding b12(4) by (simp add: vector_max_def k_MaxRecvBufSize_def)
    then have "ReadableBytes b2 + int (length (drop (nat ?w) xs)) \<le> vector_max"
      using buf_inv_counts(3) [OF b12(3)] by simp
    from Append_ok [OF b12(3) this] obtain b3 where
      b3: "Append b2 (drop (nat ?w) xs) = Some b3" "buf_inv b3" "readable b3 = readable b2 @ drop (nat ?w) xs" by blast
    have "readable b3 = readable b @ xs" using b3(3) b12(4) by simp
    then show ?thesis unfolding unf using 3 rr(3) w0 b12(2) hl ex b3 b inv
      by (intro exI [of _ "ch \<lparr> m_RecvBuf := b3 \<rparr>"]) (auto simp: chan_inv_def received_def pending_def)
  qed
qed


section \<open>Properties\<close>

datatype chan_op = CSend "byte list" | CContinue

text \<open>
  A run of the sending side: messages to send and, whenever the poller finds the descriptor
  ready, \<open>DoContineSend\<close>. The first result is what was accepted for sending.
\<close>

fun chan_run ::
  "'k sys \<Rightarrow> EPollPoller \<Rightarrow> ('k \<Rightarrow> int \<Rightarrow> bool) \<Rightarrow> chan_op list \<Rightarrow> TcpChannel \<Rightarrow> 'k \<Rightarrow>
     (byte list \<times> TcpChannel \<times> 'k) fault" where
  "chan_run sy ep ready [] ch k = Some ([], ch, k)"
| "chan_run sy ep ready (CSend xs # ops) ch k = do {
     (r, ch, k) \<leftarrow> DoSend sy ep ch xs k;
     (ys, ch, k) \<leftarrow> chan_run sy ep ready ops ch k;
     Some ((if r = 0 then xs else []) @ ys, ch, k)
   }"
| "chan_run sy ep ready (CContinue # ops) ch k =
     (if ready k (m_iFD ch)
      then do {
        (_, ch, k) \<leftarrow> DoContineSend sy ep ch k;
        chan_run sy ep ready ops ch k
      }
      else chan_run sy ep ready ops ch k)"

fun asked :: "chan_op list \<Rightarrow> byte list" where
  "asked [] = []"
| "asked (CSend xs # ops) = xs @ asked ops"
| "asked (CContinue # ops) = asked ops"


text \<open>A kernel that takes at most two bytes per call and refuses every call on descriptor 9.\<close>

definition slow_sys :: "(int \<Rightarrow> byte list) sys" where
  "slow_sys = idle_sys \<lparr> sys_write := (\<lambda>fd buf k.
     if fd = 9 then (-1, EWOULDBLOCK, k)
     else (int (min 2 (length buf)), 0, k(fd := k fd @ take 2 buf))) \<rparr>"

lemma slow_sys_spec: "write_spec slow_sys (\<lambda>k. k) (\<lambda>k fd. fd \<noteq> 9)"
  by (auto simp: write_spec_def slow_sys_def idle_sys_def min_def fun_eq_iff)

lemma channel_new_send_inv: "send_inv (TcpChannel_new \<lparr> m_iFD := fd \<rparr>)" "pending (TcpChannel_new \<lparr> m_iFD := fd \<rparr>) = []"
  by (simp_all add: send_inv_def chan_inv_def pending_def TcpChannel_new_def Buffer_new_ok vector_max_def)


text \<open>
  \<open>DoRecv\<close> appends exactly the bytes that \<open>readv\<close> delivered, whether they fit behind the
  write index or spill into the stack buffer, never writes outside the buffer and keeps it well
  formed; only a backlog above 50 MB is dropped first. End of file and errors are reported to
  the right handler and deliver nothing.
\<close>

theorem channel_recv_stream:
  assumes "readv_spec sy" and "chan_inv ch"
    and "\<forall>fd space k. fst (sys_readv sy fd space k) < 2147483648"
  shows "\<exists>n next ch' xs k'. DoRecv sy ch k = Some (n, next, ch', k') \<and> chan_inv ch' \<and>
    received ch' = after_limit (received ch) k_MaxRecvBufSize @ xs \<and> pending ch' = pending ch \<and>
    (case next of RecvMsg \<Rightarrow> n = int (length xs) \<and> xs \<noteq> [] | RecvClose \<Rightarrow> n = 0 \<and> xs = []
     | RecvError \<Rightarrow> n = -1 \<and> xs = [])"
proof -
  let ?b = "if ReadableBytes (m_RecvBuf ch) > k_MaxRecvBufSize
    then snd (Retrieve (m_RecvBuf ch) (ReadableBytes (m_RecvBuf ch))) else m_RecvBuf ch"
  define space where "space = (let w = WritableBytes ?b in if w < 65536 then w + 65536 else w)"
  obtain r xs k' where rv: "sys_readv sy (m_iFD ch) space k = (r, xs, k')" by (metis prod_cases3)
  have "r < 2147483648" using assms(3) [rule_format, of "m_iFD ch" space k] rv by simp
  from DoRecv_stream [OF assms(1,2) rv space_def this] obtain ch' where
    d: "DoRecv sy ch k = Some (if r < 0 then -1 else r,
        if r < 0 then RecvError else if r = 0 then RecvClose else RecvMsg, ch', k')" "chan_inv ch'"
      "received ch' = after_limit (received ch) k_MaxRecvBufSize @ xs" "pending ch' = pending ch" "length xs = nat r" by blast
  show ?thesis
    by (intro exI conjI, rule d(1), rule d(2), rule d(3), rule d(4)) (use d(5) in auto)
qed

definition three_sys :: "unit sys" where
  "three_sys = idle_sys \<lparr> sys_readv := (\<lambda>_ space k. if space < 3 then (-1, [], k) else (3, [1, 2, 3], k)) \<rparr>"

theorem channel_recv_stream_witness:
  "\<exists>n next ch' xs k'. DoRecv three_sys TcpChannel_new () = Some (n, next, ch', k') \<and> chan_inv ch' \<and>
     received ch' = after_limit (received TcpChannel_new) k_MaxRecvBufSize @ xs"
proof -
  have "readv_spec three_sys" by (simp add: readv_spec_def three_sys_def)
  moreover have "chan_inv TcpChannel_new"
    by (simp add: chan_inv_def TcpChannel_new_def Buffer_new_ok vector_max_def)
  moreover have "\<forall>fd space k. fst (sys_readv three_sys fd space k) < 2147483648"
    by (simp add: three_sys_def)
  ultimately show ?thesis using channel_recv_stream [of three_sys TcpChannel_new "()"] by blast
qed

text \<open>
  A failing write in \<open>DoContineSend\<close> loses data: the result \<open>-1\<close> is stored in a
  \<open>size_t\<close>, passes the test for progress, and the whole unsent buffer is retrieved although the
  kernel took nothing; the channel then stops waiting for the writable event.
\<close>

theorem DoContineSend_drops:
  assumes "chan_inv ch" and "IsWriting ch" and "sys_write sy (m_iFD ch) (pending ch) k = (-1, err, k')"
  shows "\<exists>ch' k''. DoContineSend sy ep ch k = Some (0, ch', k'') \<and> pending ch' = [] \<and> \<not> IsWriting ch'"
proof -
  have bi: "buf_inv (m_SendBuf ch)" using assms(1) by (simp add: chan_inv_def)
  note c = buf_inv_counts(3) [OF bi]
  have pk: "Peek (m_SendBuf ch) (ReadableBytes (m_SendBuf ch)) = Some (pending ch)"
    using Peek_readable [OF bi, of "ReadableBytes (m_SendBuf ch)"] c by (simp add: pending_def)
  have u: "u64 (-1) = 18446744073709551615" by (simp add: u64_def)
  from Retrieve_ok [OF bi, of 18446744073709551615] obtain b where
    b: "snd (Retrieve (m_SendBuf ch) 18446744073709551615) = b" "buf_inv b"
      "readable b = drop (nat 18446744073709551615) (pending ch)" by (auto simp: pending_def)
  have "length (pending ch) \<le> nat 18446744073709551615"
    using readable_bound [OF bi] by (simp add: pending_def vector_max_def nat_le_iff)
  then have e: "readable b = []" using b(3) by simp
  then have z: "ReadableBytes b = 0" using buf_inv_counts(3) [OF b(2)] by simp
  obtain ch' k2 where d: "DisableWriting sy ep (ch \<lparr> m_SendBuf := b \<rparr>) k' = (ch', k2)" by fastforce
  obtain p where s: "ch' = ch \<lparr> m_SendBuf := b, m_iEvents := m_iEvents ch AND NOT kWriteEvent, m_isPooling := p \<rparr>"
    using d UpdateEvent_pooling [of sy ep "ch \<lparr> m_SendBuf := b, m_iEvents := m_iEvents ch AND NOT kWriteEvent \<rparr>" k']
    by (auto simp: DisableWriting_def)
  have "DoContineSend sy ep ch k = Some (0, ch', k2)"
    unfolding DoContineSend_def if_P [OF assms(2)] pk Option.bind.simps Let_def assms(3) prod.case u b(1)
    using z d by simp
  moreover have "\<not> IsWriting ch'"
  proof -
    have "(m_iEvents ch AND NOT 4) AND 4 = (0 :: int)" by (simp add: bit_eq_iff bit_simps)
    then show ?thesis by (subst s) (simp add: IsWriting_def kWriteEvent_def EPOLLOUT_def)
  qed
  moreover have "pending ch' = []" by (subst s) (simp add: pending_def e)
  ultimately show ?thesis by blast
qed


theorem DoContineSend_drops_witness:
  "\<exists>ch' k''. DoContineSend (idle_sys \<lparr> sys_write := (\<lambda>_ _ k. (-1, EWOULDBLOCK, k)) \<rparr>) (EPollPoller_new 3)
     (TcpChannel_new \<lparr> m_iEvents := 4, m_SendBuf := the (Append (Buffer_new 8) [1, 2, 3]) \<rparr>) () = Some (0, ch', k'') \<and>
     pending ch' = [] \<and> \<not> IsWriting ch'"
proof (rule DoContineSend_drops)
  let ?ch = "TcpChannel_new \<lparr> m_iEvents := 4, m_SendBuf := the (Append (Buffer_new 8) [1, 2, 3]) \<rparr>"
  have "buf_inv (the (Append (Buffer_new 8) [1, 2, 3]))"
    using Append_ok [of "Buffer_new 8" "[1, 2, 3]"] Buffer_new_ok [of 8] buf_inv_counts(3) [of "Buffer_new 8"]
    by (auto simp: vector_max_def)
  then show "chan_inv ?ch" by (simp add: chan_inv_def TcpChannel_new_def Buffer_new_ok vector_max_def)
  show "IsWriting ?ch" by (simp add: IsWriting_def kWriteEvent_def EPOLLOUT_def)
qed simp

end
