(* ===== verification/TcpServer.thy ===== *)
theory TcpServer
  imports TcpChannel
begin

text \<open>
  The server of \<^verbatim>\<open>src/util/net/tcp_server.{h,cpp}\<close>: an acceptor and one heap-allocated
  channel per connection, found through a map from descriptors to channels.

  Channels are objects with an address: \<open>objs\<close> is the heap, \<open>new\<close> puts an object at a fresh
  address, \<open>delete\<close> removes it, and using an address that holds no object is a fault. The
  poller gets the address of a channel as its event pointer; address \<open>0\<close> is the acceptor.
  \<open>std::map\<close> is a list of pairs sorted by key.
\<close>

record TcpAcceptor = TcpSocket +
  m_ListenAddr :: sockaddr_in
  m_isReUsePort :: bool
  m_iIdleFD :: int

record ServerChannel = TcpChannel +
  m_id :: int

record 'k TcpServer =
  m_EPoll :: EPollPoller
  m_Acceptor :: TcpAcceptor
  m_ChannelMap :: "(int \<times> int) list"
  objs :: "int \<Rightarrow> ServerChannel option"
  next_obj :: int
  kern :: 'k

section \<open>Ordered maps and objects\<close>

fun omap_set :: "int \<Rightarrow> 'v \<Rightarrow> (int \<times> 'v) list \<Rightarrow> (int \<times> 'v) list" where
  "omap_set k v [] = [(k, v)]"
| "omap_set k v ((k', v') # xs) =
     (if k = k' then (k, v) # xs else if k < k' then (k, v) # (k', v') # xs else (k', v') # omap_set k v xs)"

definition omap_erase :: "int \<Rightarrow> (int \<times> 'v) list \<Rightarrow> (int \<times> 'v) list" where
  "omap_erase k xs = filter (\<lambda>(k', _). k' \<noteq> k) xs"

lemma omap_set_map [simp]: "map_of (omap_set k v xs) = (map_of xs)(k \<mapsto> v)"
  by (induction xs) (auto simp: fun_eq_iff)

lemma omap_erase_map [simp]: "map_of (omap_erase k xs) = (map_of xs)(k := None)"
  by (induction xs) (auto simp: omap_erase_def)

definition set_obj :: "int \<Rightarrow> ServerChannel \<Rightarrow> ('k, 'a) TcpServer_scheme \<Rightarrow> ('k, 'a) TcpServer_scheme" where
  "set_obj p ch w = w \<lparr> objs := (objs w)(p \<mapsto> ch) \<rparr>"

text \<open>The virtual functions of the server that its channels and its acceptor call.\<close>

record 'w server_virt =
  vOnNewChannel :: "int \<Rightarrow> sockaddr_in \<Rightarrow> 'w \<Rightarrow> (int \<times> 'w) option"
  vOnMsgRecv :: "int \<Rightarrow> 'w \<Rightarrow> (int \<times> 'w) option"
  vOnCloseChannel :: "int \<Rightarrow> 'w \<Rightarrow> (int \<times> 'w) option"

section \<open>The acceptor\<close>

definition EMFILE :: int where "EMFILE = 24"

definition TcpAcceptor_new ::
  "'k sys \<Rightarrow> sockaddr_in \<Rightarrow> bool \<Rightarrow> 'k \<Rightarrow> TcpAcceptor \<times> 'k" where
  "TcpAcceptor_new sy addr isReUsePort k =
     (let (fd, k) = sys_open_null sy k
      in (\<lparr> m_iFD = -1, m_iEvents = kNoneEvent, m_isPooling = False, m_ListenAddr = addr,
            m_isReUsePort = isReUsePort, m_iIdleFD = fd \<rparr>, k))"

definition Listen ::
  "'k sys \<Rightarrow> EPollPoller \<Rightarrow> TcpAcceptor \<Rightarrow> 'k \<Rightarrow> int \<times> TcpAcceptor \<times> 'k" where
  "Listen sy ep a k =
     (let (ret, a, k) = CreateNoBlock sy a k
      in if ret < 0 then (-1, a, k)
         else
           let (_, k) = SetReuseAddr sy a True k;
               (_, k) = SetReusePort sy a (m_isReUsePort a) k;
               (ret, k) = sys_bind sy (m_iFD a) (m_ListenAddr a) k
           in if ret < 0 then (-1, a, k)
              else
                let (ret, k) = sys_listen sy (m_iFD a) k
                in if ret < 0 then (-2, a, k)
                   else (let (a, k) = EnableReading sy ep a k in (ret, a, k)))"

text \<open>\<open>Accept\<close> returns the descriptor, the error number it leaves in \<open>errno\<close>, and the peer.\<close>

definition Accept :: "'k sys \<Rightarrow> TcpAcceptor \<Rightarrow> 'k \<Rightarrow> int \<times> int \<times> sockaddr_in \<times> 'k" where
  "Accept sy a k = sys_accept4 sy (m_iFD a) k"

definition Acceptor_HandleCanRecv ::
  "'k sys \<Rightarrow> ('k, 'a) TcpServer_scheme server_virt \<Rightarrow> ('k, 'a) TcpServer_scheme \<Rightarrow>
     (int \<times> ('k, 'a) TcpServer_scheme) fault" where
  "Acceptor_HandleCanRecv sy vt w =
     (let (connfd, err, peerAddr, k) = Accept sy (m_Acceptor w) (kern w);
          w = w \<lparr> kern := k \<rparr>
      in if connfd \<ge> 0
         then do {
           (_, w) \<leftarrow> vOnNewChannel vt connfd peerAddr w;
           Some (0, w)
         }
         else if err = EMFILE
         then
           let a = m_Acceptor w;
               (_, k) = sys_close sy (m_iIdleFD a) k;
               (fd, _, _, k) = sys_accept4 sy (m_iFD a) k;
               (_, k) = sys_close sy fd k;
               (fd, k) = sys_open_null sy k
           in Some (0, w \<lparr> m_Acceptor := a \<lparr> m_iIdleFD := fd \<rparr>, kern := k \<rparr>)
         else Some (0, w))"

definition Acceptor_HandleCanSend :: "('k, 'a) TcpServer_scheme \<Rightarrow> int \<times> ('k, 'a) TcpServer_scheme" where
  "Acceptor_HandleCanSend w = (-1, w)"

definition Acceptor_HandleError :: "('k, 'a) TcpServer_scheme \<Rightarrow> int \<times> ('k, 'a) TcpServer_scheme" where
  "Acceptor_HandleError w = (-1, w)"

definition Acceptor_HandleClose ::
  "'k sys \<Rightarrow> ('k, 'a) TcpServer_scheme \<Rightarrow> int \<times> ('k, 'a) TcpServer_scheme" where
  "Acceptor_HandleClose sy w =
     (let (a, k) = DisableAll sy (m_EPoll w) (m_Acceptor w) (kern w);
          (_, a, k) = Close sy (m_EPoll w) a k
      in (-1, w \<lparr> m_Acceptor := a, kern := k \<rparr>))"

section \<open>Channels\<close>

definition ServerChannel_new :: ServerChannel where
  "ServerChannel_new = TcpChannel.extend TcpChannel_new \<lparr> m_id = 0 \<rparr>"

definition Server_HandleClose ::
  "'k sys \<Rightarrow> ('k, 'a) TcpServer_scheme server_virt \<Rightarrow> int \<Rightarrow> ('k, 'a) TcpServer_scheme \<Rightarrow>
     (int \<times> ('k, 'a) TcpServer_scheme) fault" where
  "Server_HandleClose sy vt p w = do {
     ch \<leftarrow> objs w p;
     let (ch, k) = DisableAll sy (m_EPoll w) ch (kern w);
     let (_, ch, k) = Close sy (m_EPoll w) ch k;
     vOnCloseChannel vt p (set_obj p ch w \<lparr> kern := k \<rparr>)
   }"

definition Server_Disconnect ::
  "'k sys \<Rightarrow> ('k, 'a) TcpServer_scheme server_virt \<Rightarrow> int \<Rightarrow> ('k, 'a) TcpServer_scheme \<Rightarrow>
     (int \<times> ('k, 'a) TcpServer_scheme) fault" where
  "Server_Disconnect sy vt p w = Server_HandleClose sy vt p w"

definition Server_HandleError ::
  "'k sys \<Rightarrow> int \<Rightarrow> ('k, 'a) TcpServer_scheme \<Rightarrow> (int \<times> ('k, 'a) TcpServer_scheme) fault" where
  "Server_HandleError sy p w = do {
     ch \<leftarrow> objs w p;
     let (_, k) = GetSocketError sy ch (kern w);
     Some (0, w \<lparr> kern := k \<rparr>)
   }"

definition Server_OnRecvMsg ::
  "('k, 'a) TcpServer_scheme server_virt \<Rightarrow> int \<Rightarrow> ('k, 'a) TcpServer_scheme \<Rightarrow> (int \<times> ('k, 'a) TcpServer_scheme) fault" where
  "Server_OnRecvMsg vt p w = vOnMsgRecv vt p w"

definition Server_HandleCanRecv ::
  "'k sys \<Rightarrow> ('k, 'a) TcpServer_scheme server_virt \<Rightarrow> int \<Rightarrow> ('k, 'a) TcpServer_scheme \<Rightarrow>
     (int \<times> ('k, 'a) TcpServer_scheme) fault" where
  "Server_HandleCanRecv sy vt p w = do {
     ch \<leftarrow> objs w p;
     (n, next, ch, k) \<leftarrow> DoRecv sy ch (kern w);
     let w = set_obj p ch w \<lparr> kern := k \<rparr>;
     (_, w) \<leftarrow> (case next of
        RecvClose \<Rightarrow> Server_HandleClose sy vt p w
      | RecvError \<Rightarrow> Server_HandleError sy p w
      | RecvMsg \<Rightarrow> Server_OnRecvMsg vt p w);
     Some (n, w)
   }"

definition Server_HandleCanSend ::
  "'k sys \<Rightarrow> int \<Rightarrow> ('k, 'a) TcpServer_scheme \<Rightarrow> (int \<times> ('k, 'a) TcpServer_scheme) fault" where
  "Server_HandleCanSend sy p w = do {
     ch \<leftarrow> objs w p;
     (r, ch, k) \<leftarrow> DoContineSend sy (m_EPoll w) ch (kern w);
     Some (r, set_obj p ch w \<lparr> kern := k \<rparr>)
   }"

definition Server_SendMsg ::
  "'k sys \<Rightarrow> int \<Rightarrow> byte list \<Rightarrow> ('k, 'a) TcpServer_scheme \<Rightarrow> (int \<times> ('k, 'a) TcpServer_scheme) fault" where
  "Server_SendMsg sy p xs w = do {
     ch \<leftarrow> objs w p;
     (r, ch, k) \<leftarrow> DoSend sy (m_EPoll w) ch xs (kern w);
     Some (r, set_obj p ch w \<lparr> kern := k \<rparr>)
   }"

definition AcceptedFD ::
  "'k sys \<Rightarrow> int \<Rightarrow> int \<Rightarrow> ('k, 'a) TcpServer_scheme \<Rightarrow> (int \<times> ('k, 'a) TcpServer_scheme) fault" where
  "AcceptedFD sy p iFD w = do {
     ch \<leftarrow> objs w p;
     let (ch, k) = EnableReading sy (m_EPoll w) (snd (SetFD ch iFD)) (kern w);
     Some (0, set_obj p ch w \<lparr> kern := k \<rparr>)
   }"

section \<open>The server\<close>

definition TcpServer_new :: "'k sys \<Rightarrow> EPollPoller \<Rightarrow> sockaddr_in \<Rightarrow> bool \<Rightarrow> 'k \<Rightarrow> 'k TcpServer" where
  "TcpServer_new sy poll addr isReUsePort k =
     (let (a, k) = TcpAcceptor_new sy addr isReUsePort k
      in \<lparr> m_EPoll = poll, m_Acceptor = a, m_ChannelMap = [], objs = Map.empty, next_obj = 1, kern = k \<rparr>)"

definition Server_Start :: "'k sys \<Rightarrow> ('k, 'a) TcpServer_scheme \<Rightarrow> int \<times> ('k, 'a) TcpServer_scheme" where
  "Server_Start sy w =
     (let (ret, a, k) = Listen sy (m_EPoll w) (m_Acceptor w) (kern w)
      in (ret, w \<lparr> m_Acceptor := a, kern := k \<rparr>))"

definition Server_OnMsgRecv :: "int \<Rightarrow> ('k, 'a) TcpServer_scheme \<Rightarrow> (int \<times> ('k, 'a) TcpServer_scheme) fault" where
  "Server_OnMsgRecv p w = Some (0, w)"

definition Server_OnCloseChannel ::
  "int \<Rightarrow> ('k, 'a) TcpServer_scheme \<Rightarrow> (int \<times> ('k, 'a) TcpServer_scheme) fault" where
  "Server_OnCloseChannel p w = do {
     ch \<leftarrow> objs w p;
     let iFD = m_iFD ch;
     Some (0, w \<lparr> objs := (objs w)(p := None), m_ChannelMap := omap_erase iFD (m_ChannelMap w) \<rparr>)
   }"

definition Server_OnNewChannel ::
  "'k sys \<Rightarrow> ('k, 'a) TcpServer_scheme server_virt \<Rightarrow> int \<Rightarrow> sockaddr_in \<Rightarrow> ('k, 'a) TcpServer_scheme \<Rightarrow>
     (int \<times> ('k, 'a) TcpServer_scheme) fault" where
  "Server_OnNewChannel sy vt iFD addr w = do {
     w \<leftarrow> (case map_of (m_ChannelMap w) iFD of
            None \<Rightarrow> Some w
          | Some p \<Rightarrow> map_option snd (Server_Disconnect sy vt p w));
     let p = next_obj w;
     let w = set_obj p ServerChannel_new w \<lparr> next_obj := p + 1 \<rparr>;
     let w = w \<lparr> m_ChannelMap := omap_set iFD p (m_ChannelMap w) \<rparr>;
     (_, w) \<leftarrow> AcceptedFD sy p iFD w;
     Some (0, w)
   }"

text \<open>
  The loop of \<open>Finish\<close>: the iterator that is advanced must still point into the map, so if
  \<open>Disconnect\<close> erased its element the increment is a fault.
\<close>

fun finish_loop ::
  "'k sys \<Rightarrow> ('k, 'a) TcpServer_scheme server_virt \<Rightarrow> (int \<times> int) list \<Rightarrow> ('k, 'a) TcpServer_scheme \<Rightarrow>
     ('k, 'a) TcpServer_scheme fault" where
  "finish_loop sy vt [] w = Some w"
| "finish_loop sy vt ((fd, p) # rest) w = do {
     (_, w) \<leftarrow> Server_Disconnect sy vt p w;
     if map_of (m_ChannelMap w) fd = None then None else finish_loop sy vt rest w
   }"

definition Finish ::
  "'k sys \<Rightarrow> ('k, 'a) TcpServer_scheme server_virt \<Rightarrow> ('k, 'a) TcpServer_scheme \<Rightarrow>
     (int \<times> ('k, 'a) TcpServer_scheme) fault" where
  "Finish sy vt w = do {
     let (_, w) = Acceptor_HandleClose sy w;
     w \<leftarrow> finish_loop sy vt (m_ChannelMap w) w;
     Some (0, w)
   }"

text \<open>The base class's own virtual functions.\<close>

definition base_virt :: "'k sys \<Rightarrow> ('k, 'a) TcpServer_scheme server_virt" where
  "base_virt sy =
     (let vt0 = \<lparr> vOnNewChannel = (\<lambda>_ _ w. Some (0, w)), vOnMsgRecv = Server_OnMsgRecv,
                  vOnCloseChannel = Server_OnCloseChannel \<rparr>
      in vt0 \<lparr> vOnNewChannel := Server_OnNewChannel sy vt0 \<rparr>)"

text \<open>What the poller calls, by the address in the event.\<close>

definition server_vtable :: "'k sys \<Rightarrow> ('k, 'a) TcpServer_scheme server_virt \<Rightarrow> ('k, 'a) TcpServer_scheme vtable" where
  "server_vtable sy vt =
     \<lparr> vHandleCanRecv = (\<lambda>p w. if p = 0 then Acceptor_HandleCanRecv sy vt w else Server_HandleCanRecv sy vt p w),
       vHandleCanSend = (\<lambda>p w. if p = 0 then Some (Acceptor_HandleCanSend w) else Server_HandleCanSend sy p w),
       vHandleError = (\<lambda>p w. if p = 0 then Some (Acceptor_HandleError w) else Server_HandleError sy p w),
       vHandleClose = (\<lambda>p w. if p = 0 then Some (Acceptor_HandleClose sy w) else Server_HandleClose sy vt p w) \<rparr>"

section \<open>Invariant\<close>

text \<open>Every channel object is in the map under its own descriptor, and nothing else is.\<close>

definition server_inv :: "('k, 'a) TcpServer_scheme \<Rightarrow> bool" where
  "server_inv w \<longleftrightarrow> 0 < next_obj w \<and>
     (\<forall>fd p. map_of (m_ChannelMap w) fd = Some p \<longrightarrow> (\<exists>ch. objs w p = Some ch \<and> m_iFD ch = fd)) \<and>
     (\<forall>p ch. objs w p = Some ch \<longrightarrow> 0 < p \<and> p < next_obj w \<and> send_inv ch \<and>
        map_of (m_ChannelMap w) (m_iFD ch) = Some p)"

lemma DisableAll_shape: "\<exists>p. fst (DisableAll sy ep s k) = s \<lparr> m_iEvents := kNoneEvent, m_isPooling := p \<rparr>"
  unfolding DisableAll_def by (rule UpdateEvent_pooling)

lemma Close_shape:
  "\<exists>p. fst (snd (Close sy ep s k)) = s \<lparr> m_iEvents := kNoneEvent, m_isPooling := p \<rparr>"
  using DisableAll_shape [of sy ep s k] by (simp add: Close_def split_beta)

text \<open>
  A step on channel \<open>p\<close> keeps the server well formed when it keeps the channel's descriptor
  and its send invariant.
\<close>

lemma server_inv_set:
  assumes "server_inv w" and "objs w p = Some ch" and "m_iFD ch' = m_iFD ch" and "send_inv ch'"
  shows "server_inv (set_obj p ch' w \<lparr> kern := k \<rparr>)"
  unfolding server_inv_def
proof (intro conjI allI impI)
  show "0 < next_obj (set_obj p ch' w \<lparr> kern := k \<rparr>)" using assms(1) by (simp add: server_inv_def set_obj_def)
next
  fix fd q assume "map_of (m_ChannelMap (set_obj p ch' w \<lparr> kern := k \<rparr>)) fd = Some q"
  then have "\<exists>ch. objs w q = Some ch \<and> m_iFD ch = fd" using assms(1) by (simp add: server_inv_def set_obj_def)
  then show "\<exists>ch. objs (set_obj p ch' w \<lparr> kern := k \<rparr>) q = Some ch \<and> m_iFD ch = fd"
    using assms(2,3) by (auto simp: set_obj_def)
next
  fix q c assume c: "objs (set_obj p ch' w \<lparr> kern := k \<rparr>) q = Some c"
  have "0 < q \<and> q < next_obj w \<and> send_inv c \<and> map_of (m_ChannelMap w) (m_iFD c) = Some q"
  proof (cases "q = p")
    case True
    then show ?thesis using c assms by (auto simp: server_inv_def set_obj_def)
  next
    case False
    then show ?thesis using c assms(1) by (auto simp: server_inv_def set_obj_def)
  qed
  then show "0 < q" "q < next_obj (set_obj p ch' w \<lparr> kern := k \<rparr>)" "send_inv c"
    "map_of (m_ChannelMap (set_obj p ch' w \<lparr> kern := k \<rparr>)) (m_iFD c) = Some q" by (simp_all add: set_obj_def)
qed

text \<open>Closing: whatever happened to the channel's mask, only its descriptor matters.\<close>

lemma OnCloseChannel_eq:
  assumes i: "server_inv w" and p: "objs w p = Some ch" and fd: "m_iFD ch' = m_iFD ch"
  shows "Server_OnCloseChannel p (set_obj p ch' w \<lparr> kern := k \<rparr>) = Some (0,
      w \<lparr> kern := k, objs := (objs w)(p := None), m_ChannelMap := omap_erase (m_iFD ch) (m_ChannelMap w) \<rparr>)"
    and "server_inv (w \<lparr> kern := k, objs := (objs w)(p := None), m_ChannelMap := omap_erase (m_iFD ch) (m_ChannelMap w) \<rparr>)"
proof -
  let ?w = "w \<lparr> kern := k, objs := (objs w)(p := None), m_ChannelMap := omap_erase (m_iFD ch) (m_ChannelMap w) \<rparr>"
  have mp: "map_of (m_ChannelMap w) (m_iFD ch) = Some p" using i p by (auto simp: server_inv_def)
  show "server_inv ?w"
    unfolding server_inv_def
  proof (intro conjI allI impI)
    show "0 < next_obj ?w" using i by (simp add: server_inv_def)
  next
    fix fd q assume q: "map_of (m_ChannelMap ?w) fd = Some q"
    then have fd: "fd \<noteq> m_iFD ch" "map_of (m_ChannelMap w) fd = Some q" by (auto split: if_splits)
    then obtain c where c: "objs w q = Some c" "m_iFD c = fd" using i by (auto simp: server_inv_def)
    then have "q \<noteq> p" using p fd(1) by auto
    then show "\<exists>c. objs ?w q = Some c \<and> m_iFD c = fd" using c by simp
  next
    fix q c assume "objs ?w q = Some c"
    then have q: "q \<noteq> p" "objs w q = Some c" by (auto split: if_splits)
    then have g: "0 < q \<and> q < next_obj w \<and> send_inv c \<and> map_of (m_ChannelMap w) (m_iFD c) = Some q"
      using i by (auto simp: server_inv_def)
    then have "m_iFD c \<noteq> m_iFD ch" using mp q(1) by auto
    then show "0 < q" "q < next_obj ?w" "send_inv c" "map_of (m_ChannelMap ?w) (m_iFD c) = Some q" using g by auto
  qed
  show "Server_OnCloseChannel p (set_obj p ch' w \<lparr> kern := k \<rparr>) = Some (0, ?w)"
    by (simp add: Server_OnCloseChannel_def set_obj_def fd)
qed

lemma Server_HandleClose_ok:
  assumes i: "server_inv w" and p: "objs w p = Some ch" and v: "vOnCloseChannel vt = Server_OnCloseChannel"
  shows "\<exists>w'. Server_HandleClose sy vt p w = Some (0, w') \<and> server_inv w' \<and> objs w' = (objs w)(p := None) \<and>
    map_of (m_ChannelMap w') = (map_of (m_ChannelMap w))(m_iFD ch := None) \<and>
    next_obj w' = next_obj w \<and> m_EPoll w' = m_EPoll w"
proof -
  obtain ch1 k1 where d: "DisableAll sy (m_EPoll w) ch (kern w) = (ch1, k1)" by fastforce
  obtain r ch2 k2 where c: "Close sy (m_EPoll w) ch1 k1 = (r, ch2, k2)" by (metis prod_cases3)
  have "m_iFD ch2 = m_iFD ch"
    using DisableAll_shape [of sy "m_EPoll w" ch "kern w"] Close_shape [of sy "m_EPoll w" ch1 k1] d c by auto
  from OnCloseChannel_eq [OF i p this, of k2] show ?thesis
    using p d c v by (auto simp: Server_HandleClose_def)
qed

text \<open>The part of \<open>OnNewChannel\<close> behind the test for an old channel on the same descriptor.\<close>

lemma accept_new:
  assumes i: "server_inv w" and n: "map_of (m_ChannelMap w) fd = None"
  shows "\<exists>ch k. AcceptedFD sy (next_obj w) fd
      (set_obj (next_obj w) ServerChannel_new w \<lparr> next_obj := next_obj w + 1, m_ChannelMap := omap_set fd (next_obj w) (m_ChannelMap w) \<rparr>) =
    Some (0, w \<lparr> objs := (objs w)(next_obj w \<mapsto> ch), next_obj := next_obj w + 1,
      m_ChannelMap := omap_set fd (next_obj w) (m_ChannelMap w), kern := k \<rparr>) \<and>
    server_inv (w \<lparr> objs := (objs w)(next_obj w \<mapsto> ch), next_obj := next_obj w + 1,
      m_ChannelMap := omap_set fd (next_obj w) (m_ChannelMap w), kern := k \<rparr>) \<and>
    m_iFD ch = fd \<and> m_iEvents ch = kReadEvent \<and> pending ch = [] \<and> m_id ch = 0 \<and> send_inv ch"
proof -
  let ?p = "next_obj w"
  let ?c0 = "ServerChannel_new \<lparr> m_iFD := fd \<rparr>"
  obtain ch k1 where e: "EnableReading sy (m_EPoll w) ?c0 (kern w) = (ch, k1)" by fastforce
  obtain q where ch: "ch = ?c0 \<lparr> m_iEvents := m_iEvents ?c0 OR kReadEvent, m_isPooling := q \<rparr>"
    using UpdateEvent_pooling [of sy "m_EPoll w" "?c0 \<lparr> m_iEvents := m_iEvents ?c0 OR kReadEvent \<rparr>" "kern w"] e
    by (auto simp: EnableReading_def)
  have m0: "m_iEvents ?c0 = 0" "kNoneEvent = 0"
    by (simp_all add: ServerChannel_new_def TcpChannel_new_def TcpChannel.extend_def kNoneEvent_def)
  have cp: "m_iFD ch = fd" "m_iEvents ch = kReadEvent" "pending ch = []" "send_inv ch" "m_id ch = 0"
    unfolding ch using m0
    by (simp_all add: ServerChannel_new_def TcpChannel_new_def TcpChannel.extend_def pending_def send_inv_def
        chan_inv_def Buffer_new_ok vector_max_def)
  let ?w = "w \<lparr> objs := (objs w)(?p \<mapsto> ch), next_obj := ?p + 1,
    m_ChannelMap := omap_set fd ?p (m_ChannelMap w), kern := k1 \<rparr>"
  have fresh: "objs w ?p = None" using i by (cases "objs w ?p") (auto simp: server_inv_def)
  have nfd: "m_iFD c \<noteq> fd" if "objs w q = Some c" for q c
  proof
    assume "m_iFD c = fd"
    moreover have "map_of (m_ChannelMap w) (m_iFD c) = Some q" using that i unfolding server_inv_def by blast
    ultimately show False using n by simp
  qed
  have "server_inv ?w"
    unfolding server_inv_def
  proof (intro conjI allI impI)
    show "0 < next_obj ?w" using i by (simp add: server_inv_def)
  next
    fix f q assume "map_of (m_ChannelMap ?w) f = Some q"
    then show "\<exists>c. objs ?w q = Some c \<and> m_iFD c = f"
      using i cp(1) fresh by (auto simp: server_inv_def split: if_splits)
  next
    fix q c assume c: "objs ?w q = Some c"
    have "0 < q \<and> q < ?p + 1 \<and> send_inv c \<and> map_of (m_ChannelMap ?w) (m_iFD c) = Some q"
    proof (cases "q = ?p")
      case True
      then show ?thesis using c i cp(1,4) by (auto simp: server_inv_def)
    next
      case False
      then have q: "objs w q = Some c" using c by simp
      then have "0 < q \<and> q < ?p \<and> send_inv c \<and> map_of (m_ChannelMap w) (m_iFD c) = Some q"
        using i unfolding server_inv_def by blast
      then show ?thesis using nfd [OF q] by simp
    qed
    then show "0 < q" "q < next_obj ?w" "send_inv c" "map_of (m_ChannelMap ?w) (m_iFD c) = Some q" by simp_all
  qed
  moreover have "AcceptedFD sy ?p fd
      (set_obj ?p ServerChannel_new w \<lparr> next_obj := ?p + 1, m_ChannelMap := omap_set fd ?p (m_ChannelMap w) \<rparr>) = Some (0, ?w)"
    using e by (simp add: AcceptedFD_def set_obj_def SetFD_def Let_def)
  ultimately show ?thesis using cp by blast
qed

lemma Server_OnNewChannel_ok:
  assumes i: "server_inv w" and v: "vOnCloseChannel vt = Server_OnCloseChannel"
  shows "\<exists>w' ch. Server_OnNewChannel sy vt fd addr w = Some (0, w') \<and> server_inv w' \<and>
    map_of (m_ChannelMap w') = (map_of (m_ChannelMap w))(fd \<mapsto> next_obj w) \<and>
    objs w' (next_obj w) = Some ch \<and> m_iFD ch = fd \<and> m_iEvents ch = kReadEvent \<and> pending ch = [] \<and>
    next_obj w' = next_obj w + 1"
proof -
  have "\<exists>w1. (case map_of (m_ChannelMap w) fd of None \<Rightarrow> Some w
      | Some p \<Rightarrow> map_option snd (Server_Disconnect sy vt p w)) = Some w1 \<and> server_inv w1 \<and>
      map_of (m_ChannelMap w1) = (map_of (m_ChannelMap w))(fd := None) \<and> next_obj w1 = next_obj w"
  proof (cases "map_of (m_ChannelMap w) fd")
    case None
    then show ?thesis using i by (simp add: fun_upd_idem)
  next
    case (Some p)
    then obtain ch where ch: "objs w p = Some ch" "m_iFD ch = fd" using i by (auto simp: server_inv_def)
    from Server_HandleClose_ok [OF i ch(1) v, of sy] show ?thesis using Some ch(2)
      by (auto simp: Server_Disconnect_def)
  qed
  then obtain w1 where
    w1: "(case map_of (m_ChannelMap w) fd of None \<Rightarrow> Some w
      | Some p \<Rightarrow> map_option snd (Server_Disconnect sy vt p w)) = Some w1" "server_inv w1"
      "map_of (m_ChannelMap w1) = (map_of (m_ChannelMap w))(fd := None)" "next_obj w1 = next_obj w" by blast
  have "map_of (m_ChannelMap w1) fd = None" using w1(3) by simp
  from accept_new [OF w1(2) this, of sy] obtain ch k where
    a: "AcceptedFD sy (next_obj w1) fd (set_obj (next_obj w1) ServerChannel_new w1
        \<lparr> next_obj := next_obj w1 + 1, m_ChannelMap := omap_set fd (next_obj w1) (m_ChannelMap w1) \<rparr>) =
      Some (0, w1 \<lparr> objs := (objs w1)(next_obj w1 \<mapsto> ch), next_obj := next_obj w1 + 1,
        m_ChannelMap := omap_set fd (next_obj w1) (m_ChannelMap w1), kern := k \<rparr>)"
      "server_inv (w1 \<lparr> objs := (objs w1)(next_obj w1 \<mapsto> ch), next_obj := next_obj w1 + 1,
        m_ChannelMap := omap_set fd (next_obj w1) (m_ChannelMap w1), kern := k \<rparr>)"
      "m_iFD ch = fd" "m_iEvents ch = kReadEvent" "pending ch = []" by blast
  then show ?thesis using w1(3,4) unfolding Server_OnNewChannel_def w1(1)
    by (auto simp: set_obj_def Let_def)
qed

lemma Server_HandleCanSend_ok:
  assumes sp: "write_spec sy wire ready" and i: "server_inv w" and p: "objs w p = Some ch"
  shows "\<exists>w'. Server_HandleCanSend sy p w = Some (0, w') \<and> server_inv w'"
proof -
  have "send_inv ch" using i p by (auto simp: server_inv_def)
  from DoContineSend_stream [OF sp this, of "m_EPoll w" "kern w"] obtain ch' k' where
    d: "DoContineSend sy (m_EPoll w) ch (kern w) = Some (0, ch', k')" "send_inv ch'" "send_frame ch ch'" by blast
  from server_inv_set [OF i p _ d(2), of k'] send_frameD [OF d(3)] d(1) p show ?thesis
    by (simp add: Server_HandleCanSend_def)
qed

lemma Server_SendMsg_ok:
  assumes sp: "write_spec sy wire ready" and i: "server_inv w" and p: "objs w p = Some ch"
    and l: "int (length xs) < 2147483648"
  shows "\<exists>r w'. Server_SendMsg sy p xs w = Some (r, w') \<and> server_inv w'"
proof -
  have "send_inv ch" using i p by (auto simp: server_inv_def)
  from DoSend_stream [OF sp this l, of "m_EPoll w" "kern w"] obtain r ch' k' where
    d: "DoSend sy (m_EPoll w) ch xs (kern w) = Some (r, ch', k')" "send_inv ch'" "send_frame ch ch'" by blast
  from server_inv_set [OF i p _ d(2), of k'] send_frameD [OF d(3)] d(1) p show ?thesis
    by (simp add: Server_SendMsg_def)
qed

text \<open>A message to a peer that is up and has room joins the bytes on their way to it.\<close>

lemma send_reply:
  assumes sp: "write_spec sy wire ready" and p: "objs w p = Some ch" and si: "send_inv ch" and up: "peer_up sy (m_iFD ch)"
    and l: "int (length (pending ch) + length out) \<le> k_MaxSendBufSize"
  shows "\<exists>ch' k. Server_SendMsg sy p out w = Some (0, set_obj p ch' w \<lparr> kern := k \<rparr>) \<and> send_inv ch' \<and>
    m_iFD ch' = m_iFD ch \<and> m_RecvBuf ch' = m_RecvBuf ch \<and> length (pending ch') \<le> length (pending ch) + length out \<and>
    wire k (m_iFD ch) @ pending ch' = wire (kern w) (m_iFD ch) @ pending ch @ out"
proof -
  have "int (length out) < 2147483648" using l by (simp add: k_MaxSendBufSize_def)
  from DoSend_stream [OF sp si this, of "m_EPoll w" "kern w"] obtain r ch' k where
    d: "DoSend sy (m_EPoll w) ch out (kern w) = Some (r, ch', k)" "send_inv ch'" "send_frame ch ch'"
      "wire k (m_iFD ch) @ pending ch' = wire (kern w) (m_iFD ch) @
        (if out = [] then pending ch else after_limit (pending ch) k_MaxSendBufSize) @ (if r = 0 then out else [])"
      "length (pending ch') \<le> length (pending ch) + length out" by blast
  have r: "r = 0" by (rule DoSend_accepted [OF d(1) up])
  have "after_limit (pending ch) k_MaxSendBufSize = pending ch" using l by (simp add: after_limit_def)
  then have "wire k (m_iFD ch) @ pending ch' = wire (kern w) (m_iFD ch) @ pending ch @ out" using d(4) r by simp
  then show ?thesis using d(1,2,5) r p send_frameD [OF d(3)]
    by (intro exI [of _ ch'] exI [of _ k]) (simp add: Server_SendMsg_def)
qed

lemma DoRecv_any:
  assumes sp: "readv_spec sy" and ci: "chan_inv ch" and lim: "\<And>fd space k. fst (sys_readv sy fd space k) < 2147483648"
  shows "\<exists>n next ch' k' b. DoRecv sy ch k = Some (n, next, ch', k') \<and> chan_inv ch' \<and> pending ch' = pending ch \<and>
    ch' = ch \<lparr> m_RecvBuf := b \<rparr>"
proof -
  let ?b = "if ReadableBytes (m_RecvBuf ch) > k_MaxRecvBufSize
    then snd (Retrieve (m_RecvBuf ch) (ReadableBytes (m_RecvBuf ch))) else m_RecvBuf ch"
  define space where "space = (let w = WritableBytes ?b in if w < 65536 then w + 65536 else w)"
  obtain r xs k1 where rv: "sys_readv sy (m_iFD ch) space k = (r, xs, k1)" by (metis prod_cases3)
  have "r < 2147483648" using lim [of "m_iFD ch" space k] rv by simp
  from DoRecv_stream [OF sp ci rv space_def this] show ?thesis by blast
qed

lemma Server_HandleCanRecv_ok:
  assumes sp: "readv_spec sy" and lim: "\<And>fd space k. fst (sys_readv sy fd space k) < 2147483648"
    and i: "server_inv w" and p: "objs w p = Some ch"
    and v: "vOnCloseChannel vt = Server_OnCloseChannel" "vOnMsgRecv vt = Server_OnMsgRecv"
  shows "\<exists>n w'. Server_HandleCanRecv sy vt p w = Some (n, w') \<and> server_inv w'"
proof -
  have si: "send_inv ch" using i p by (auto simp: server_inv_def)
  then have "chan_inv ch" by (simp add: send_inv_def)
  from DoRecv_any [OF sp this lim, of "kern w"] obtain n nx ch' k' b where
    d: "DoRecv sy ch (kern w) = Some (n, nx, ch', k')" "chan_inv ch'" "pending ch' = pending ch"
      "ch' = ch \<lparr> m_RecvBuf := b \<rparr>" by blast
  have "send_inv ch'" "m_iFD ch' = m_iFD ch" using si d(2,3) unfolding send_inv_def by (auto simp: d(4) IsWriting_def)
  note i1 = server_inv_set [OF i p this(2,1), of k']
  let ?w = "set_obj p ch' w \<lparr> kern := k' \<rparr>"
  have p1: "objs ?w p = Some ch'" by (simp add: set_obj_def)
  obtain e k2 where g: "GetSocketError sy ch' k' = (e, k2)" by fastforce
  have i2: "server_inv (?w \<lparr> kern := k2 \<rparr>)" using i1 by (simp add: server_inv_def)
  show ?thesis
  proof (cases nx)
    case RecvClose
    then show ?thesis using d(1) p Server_HandleClose_ok [OF i1 p1 v(1), of sy] by (auto simp: Server_HandleCanRecv_def Let_def)
  next
    case RecvError
    then show ?thesis using d(1) p p1 g i2 by (simp add: Server_HandleCanRecv_def Server_HandleError_def Let_def)
  next
    case RecvMsg
    then show ?thesis using d(1) p i1 v(2)
      by (simp add: Server_HandleCanRecv_def Server_OnRecvMsg_def Server_OnMsgRecv_def Let_def)
  qed
qed

section \<open>Properties\<close>

datatype server_op = SNew int sockaddr_in | SRecv int | SSend int | SClose int | SError int | SMsg int "byte list"

text \<open>One handler call; the addresses the poller reports are those of objects that exist.\<close>

fun server_step :: "'k sys \<Rightarrow> server_op \<Rightarrow> 'k TcpServer \<Rightarrow> (int \<times> 'k TcpServer) fault" where
  "server_step sy (SNew fd addr) w = Server_OnNewChannel sy (base_virt sy) fd addr w"
| "server_step sy (SRecv p) w = Server_HandleCanRecv sy (base_virt sy) p w"
| "server_step sy (SSend p) w = Server_HandleCanSend sy p w"
| "server_step sy (SClose p) w = Server_HandleClose sy (base_virt sy) p w"
| "server_step sy (SError p) w = Server_HandleError sy p w"
| "server_step sy (SMsg p xs) w = Server_SendMsg sy p xs w"

fun op_live :: "server_op \<Rightarrow> 'k TcpServer \<Rightarrow> bool" where
  "op_live (SNew fd addr) w \<longleftrightarrow> True"
| "op_live (SMsg p xs) w \<longleftrightarrow> objs w p \<noteq> None \<and> int (length xs) < 2147483648"
| "op_live (SRecv p) w \<longleftrightarrow> objs w p \<noteq> None"
| "op_live (SSend p) w \<longleftrightarrow> objs w p \<noteq> None"
| "op_live (SClose p) w \<longleftrightarrow> objs w p \<noteq> None"
| "op_live (SError p) w \<longleftrightarrow> objs w p \<noteq> None"

inductive server_reach :: "'k sys \<Rightarrow> 'k TcpServer \<Rightarrow> 'k TcpServer \<Rightarrow> bool"
  for sy :: "'k sys" and w0 :: "'k TcpServer" where
  start: "server_reach sy w0 w0"
| step: "server_reach sy w0 w \<Longrightarrow> op_live op w \<Longrightarrow> server_step sy op w = Some (r, w') \<Longrightarrow> server_reach sy w0 w'"

lemma base_virt_simps [simp]:
  "vOnCloseChannel (base_virt sy) = Server_OnCloseChannel" "vOnMsgRecv (base_virt sy) = Server_OnMsgRecv"
  by (simp_all add: base_virt_def Let_def)

lemma server_step_ok:
  assumes "write_spec sy wire ready" and "readv_spec sy"
    and "\<And>fd space k. fst (sys_readv sy fd space k) < 2147483648" and i: "server_inv w" and "op_live op w"
  shows "\<exists>r w'. server_step sy op w = Some (r, w') \<and> server_inv w'"
proof (cases op)
  case (SNew fd addr)
  from Server_OnNewChannel_ok [OF i, of "base_virt sy" sy fd addr] show ?thesis using SNew by auto
next
  case (SRecv p)
  then obtain ch where "objs w p = Some ch" using assms(5) by auto
  from Server_HandleCanRecv_ok [OF assms(2,3) i this, of "base_virt sy"] show ?thesis using SRecv by simp
next
  case (SSend p)
  then obtain ch where "objs w p = Some ch" using assms(5) by auto
  from Server_HandleCanSend_ok [OF assms(1) i this] show ?thesis using SSend by auto
next
  case (SClose p)
  then obtain ch where "objs w p = Some ch" using assms(5) by auto
  from Server_HandleClose_ok [OF i this, of "base_virt sy" sy] show ?thesis using SClose by auto
next
  case (SError p)
  then obtain ch where ch: "objs w p = Some ch" using assms(5) by auto
  obtain e k2 where "GetSocketError sy ch (kern w) = (e, k2)" by fastforce
  moreover have "server_inv (w \<lparr> kern := k2 \<rparr>)" using i by (simp add: server_inv_def)
  ultimately show ?thesis using SError ch by (simp add: Server_HandleError_def)
next
  case (SMsg p xs)
  then obtain ch where "objs w p = Some ch" using assms(5) by auto
  from Server_SendMsg_ok [OF assms(1) i this, of xs] show ?thesis using SMsg assms(5) by simp
qed

lemma TcpServer_new_inv: "server_inv (TcpServer_new sy ep addr b k)"
  by (simp add: server_inv_def TcpServer_new_def split_beta Let_def)

text \<open>
  C15. The server never loses track of a connection: from a new server, after any sequence of
  accepted descriptors (also ones it still has), reads, writes, errors, closes and sends on
  channels that exist, the channel map and the allocated channel objects are in one-to-one
  correspondence, each object under its own descriptor; and the next such call does not touch
  a deleted object or fault otherwise.
\<close>

theorem server_reachable_ok:
  assumes "write_spec sy wire ready" and "readv_spec sy"
    and "\<forall>fd space k. fst (sys_readv sy fd space k) < 2147483648"
    and "server_reach sy (TcpServer_new sy ep addr b k0) w" and "op_live op w"
  shows "server_inv w \<and> (\<exists>r w'. server_step sy op w = Some (r, w') \<and> server_inv w')"
proof -
  have "server_inv w" using assms(4)
  proof (induction rule: server_reach.induct)
    case start
    then show ?case by (rule TcpServer_new_inv)
  next
    case (step w op r w')
    then show ?case using server_step_ok [OF assms(1,2) assms(3) [rule_format], of w op] by auto
  qed
  then show ?thesis using server_step_ok [OF assms(1,2) assms(3) [rule_format], of w op] assms(5) by auto
qed

theorem server_reachable_ok_witness:
  "server_inv (TcpServer_new slow_sys (EPollPoller_new 3) bzero_addr True (\<lambda>_. []))"
proof -
  let ?w = "TcpServer_new slow_sys (EPollPoller_new 3) bzero_addr True (\<lambda>_. [])"
  have r: "readv_spec slow_sys" "\<forall>fd space k. fst (sys_readv slow_sys fd space k) < 2147483648"
    by (auto simp: readv_spec_def slow_sys_def idle_sys_def)
  from server_reachable_ok [OF slow_sys_spec r server_reach.start, of "SNew 5 bzero_addr" "EPollPoller_new 3" bzero_addr True "\<lambda>_. []"]
  show ?thesis by simp
qed

text \<open>
  C16. \<open>HandleEvent\<close> uses a deleted channel: when the poller reports a channel readable and
  writable at once and the read finds the end of the stream, \<open>HandleCanRecv\<close> closes and deletes
  the channel and \<open>HandleCanSend\<close> is then called on it.
\<close>

theorem HandleEvent_use_after_free:
  assumes "server_inv w" and "objs w p = Some ch"
    and "\<forall>fd space k. sys_readv sy fd space k = (0, [], k)"
  shows "HandleEvent (server_vtable sy (base_virt sy)) p (EPOLLIN OR EPOLLOUT) w = None"
proof -
  have p0: "p \<noteq> 0" using assms(1,2) by (force simp: server_inv_def)
  have si: "send_inv ch" using assms(1,2) by (auto simp: server_inv_def)
  then have ci: "chan_inv ch" by (simp add: send_inv_def)
  have sp: "readv_spec sy" using assms(3) by (simp add: readv_spec_def)
  have lim: "fst (sys_readv sy fd space k) < 2147483648" for fd space k using assms(3) by simp
  obtain r where ho: "r = (0 :: int)" by simp
  let ?b = "if ReadableBytes (m_RecvBuf ch) > k_MaxRecvBufSize
    then snd (Retrieve (m_RecvBuf ch) (ReadableBytes (m_RecvBuf ch))) else m_RecvBuf ch"
  define space where "space = (let w = WritableBytes ?b in if w < 65536 then w + 65536 else w)"
  have rv: "sys_readv sy (m_iFD ch) space (kern w) = (0, [], kern w)" using assms(3) by simp
  from DoRecv_stream [OF sp ci rv space_def] obtain ch' b where
    d: "DoRecv sy ch (kern w) = Some (0, RecvClose, ch', kern w)" "chan_inv ch'" "pending ch' = pending ch"
      "ch' = ch \<lparr> m_RecvBuf := b \<rparr>" by auto
  have "send_inv ch'" "m_iFD ch' = m_iFD ch" using si d(2,3) unfolding send_inv_def by (auto simp: d(4) IsWriting_def)
  note i1 = server_inv_set [OF assms(1,2) this(2,1), of "kern w"]
  have p1: "objs (set_obj p ch' w \<lparr> kern := kern w \<rparr>) p = Some ch'" by (simp add: set_obj_def)
  from Server_HandleClose_ok [OF i1 p1, of "base_virt sy" sy] obtain w' where
    c: "Server_HandleClose sy (base_virt sy) p (set_obj p ch' w \<lparr> kern := kern w \<rparr>) = Some (0, w')" "objs w' p = None"
    by auto
  have "Server_HandleCanRecv sy (base_virt sy) p w = Some (0, w')"
    using d(1) c(1) assms(2) by (simp add: Server_HandleCanRecv_def Let_def)
  moreover have "Server_HandleCanSend sy p w' = None" using c(2) by (simp add: Server_HandleCanSend_def)
  ultimately show ?thesis using p0 by (simp add: HandleEvent_def server_vtable_def epoll_consts)
qed

theorem HandleEvent_use_after_free_witness:
  "\<exists>w p. objs w p \<noteq> None \<and> HandleEvent (server_vtable idle_sys (base_virt idle_sys)) p (EPOLLIN OR EPOLLOUT)
     (w :: unit TcpServer) = None"
proof -
  let ?w = "TcpServer_new idle_sys (EPollPoller_new 3) bzero_addr True ()"
  from Server_OnNewChannel_ok [OF TcpServer_new_inv, of "base_virt idle_sys" idle_sys 5 bzero_addr idle_sys "EPollPoller_new 3" bzero_addr True "()"]
  obtain w' :: "unit TcpServer" and ch where w': "server_inv w'" "objs w' (next_obj ?w) = Some ch" by auto
  have "\<forall>fd space k. sys_readv idle_sys fd space k = (0, [], k)" by (simp add: idle_sys_def)
  from HandleEvent_use_after_free [OF w' this] w'(2) show ?thesis by blast
qed

lemma Acceptor_HandleClose_frame:
  "\<exists>a k. Acceptor_HandleClose sy w = (-1, w \<lparr> m_Acceptor := a, kern := k \<rparr>)"
  by (simp add: Acceptor_HandleClose_def split_beta Let_def) blast

text \<open>
  \<open>Finish\<close> on a server with any open connection is undefined: it disconnects the channel
  its iterator points to, which erases that element from the map, and then advances the
  iterator.
\<close>

theorem Finish_invalid_iterator:
  assumes "server_inv w" and "m_ChannelMap w \<noteq> []"
  shows "Finish sy (base_virt sy) w = None"
proof -
  obtain a k where h: "Acceptor_HandleClose sy w = (-1, w \<lparr> m_Acceptor := a, kern := k \<rparr>)"
    using Acceptor_HandleClose_frame [of sy w] by blast
  let ?w = "w \<lparr> m_Acceptor := a, kern := k \<rparr>"
  obtain fd p rest where m: "m_ChannelMap w = (fd, p) # rest" using assms(2) by (cases "m_ChannelMap w") auto
  then have "map_of (m_ChannelMap w) fd = Some p" by simp
  then obtain ch where ch: "objs w p = Some ch" "m_iFD ch = fd" using assms(1) unfolding server_inv_def by blast
  have i: "server_inv ?w" using assms(1) by (simp add: server_inv_def)
  have "objs ?w p = Some ch" using ch by simp
  from Server_HandleClose_ok [OF i this, of "base_virt sy" sy] ch(2) obtain w' where
    "Server_HandleClose sy (base_virt sy) p ?w = Some (0, w')" "map_of (m_ChannelMap w') fd = None" by auto
  then show ?thesis using h m by (simp add: Finish_def Server_Disconnect_def)
qed

theorem Finish_invalid_iterator_witness:
  "\<exists>w :: unit TcpServer. m_ChannelMap w \<noteq> [] \<and> Finish idle_sys (base_virt idle_sys) w = None"
proof -
  let ?w = "TcpServer_new idle_sys (EPollPoller_new 3) bzero_addr True ()"
  from Server_OnNewChannel_ok [OF TcpServer_new_inv, of "base_virt idle_sys" idle_sys 5 bzero_addr idle_sys "EPollPoller_new 3" bzero_addr True "()"]
  obtain w' :: "unit TcpServer" where w': "server_inv w'" "map_of (m_ChannelMap w') 5 \<noteq> None" by auto
  then have "m_ChannelMap w' \<noteq> []" by auto
  with Finish_invalid_iterator [OF w'(1)] show ?thesis by blast
qed

end
