(* ===== verification/PbParser.thy ===== *)
theory PbParser
  imports Bytes
begin

text \<open>
  The message framing of \<^verbatim>\<open>src/util/pbparser/PbParser.{h,cpp}\<close>. The protobuf library is a
  parameter: \<open>'m pb\<close> says how a message type serialises, parses and computes its size, and
  whether its descriptor carries the option \<open>protocolpacket = protocol_yes\<close>.

  A received message arrives as a pointer and a length; \<open>mem\<close> is the memory from the pointer to
  the end of the block it points into, so that a read behind it is a fault.
\<close>

record 'm pb =
  pb_ByteSize :: "'m \<Rightarrow> int"
  pb_SerializeToArray :: "'m \<Rightarrow> byte list option"
  pb_ParseFromArray :: "byte list \<Rightarrow> 'm option"
  pb_protocolpacket :: bool

type_synonym PbParser = "byte list"

definition PbParser_Init :: "PbParser \<Rightarrow> int \<Rightarrow> int \<times> PbParser" where
  "PbParser_Init b buffsize = (0, b)"

definition vec_resize :: "byte list \<Rightarrow> int \<Rightarrow> byte list" where
  "vec_resize xs n = take (nat n) xs @ replicate (nat n - length xs) 0"

text \<open>The results are the return value, the parser's buffer, which \<open>buff\<close> points to, and \<open>len\<close>.\<close>

definition Pack :: "'m pb \<Rightarrow> PbParser \<Rightarrow> 'm \<Rightarrow> (int \<times> PbParser \<times> int) fault" where
  "Pack pb m_buffer msg = do {
     let len = s32 (pb_ByteSize pb msg);
     let outbuffer = vec_resize m_buffer (u64 (len + 4));
     (len, outbuffer, off) \<leftarrow>
       (if pb_protocolpacket pb
        then do {
          let len = s32 (len + 4);
          b \<leftarrow> mem_write outbuffer 0 (htonl_bytes (u32 len));
          Some (len, b, 4)
        }
        else Some (len, outbuffer, 0));
     (case pb_SerializeToArray pb msg of
        None \<Rightarrow> Some (-1, outbuffer, 0)
      | Some xs \<Rightarrow> do {
          b \<leftarrow> mem_write outbuffer off xs;
          Some (0, b, len)
        })
   }"

text \<open>The results are the return value, the parsed message and \<open>len\<close>.\<close>

definition UnPack :: "'m pb \<Rightarrow> byte list \<Rightarrow> int \<Rightarrow> (int \<times> 'm option \<times> int) fault" where
  "UnPack pb mem len = do {
     (reallen, off, incomplete) \<leftarrow>
       (if pb_protocolpacket pb
        then do {
          hd \<leftarrow> mem_read mem 0 4;
          let reallen = u32 (ntohl_bytes hd - 4);
          Some (reallen, 4, reallen > u64 (len - 4))
        }
        else Some (u32 len, 0, False));
     if incomplete then Some (-1, None, len)
     else do {
       xs \<leftarrow> mem_read mem off (s32 reallen);
       (case pb_ParseFromArray pb xs of
          None \<Rightarrow> Some (-1, None, len)
        | Some m \<Rightarrow> Some (0, Some m, s32 (reallen + 4)))
     }
   }"

section \<open>Framing\<close>

text \<open>What the code relies on of the library: sizes are exact and parsing inverts serialising.\<close>

definition pb_ok :: "'m pb \<Rightarrow> bool" where
  "pb_ok pb \<longleftrightarrow> (\<forall>m xs. pb_SerializeToArray pb m = Some xs \<longrightarrow>
     pb_ByteSize pb m = int (length xs) \<and> pb_ParseFromArray pb xs = Some m)"

definition frame :: "byte list \<Rightarrow> byte list" where
  "frame xs = htonl_bytes (int (length xs) + 4) @ xs"

lemma length_frame [simp]: "length (frame xs) = length xs + 4"
  by (simp add: frame_def)

lemma mem_read_prefix: "mem_read (xs @ ys) 0 (int (length xs)) = Some xs"
  by (simp add: mem_read_def)

lemma Pack_frame:
  assumes "pb_protocolpacket pb" and "pb_ok pb" and s: "pb_SerializeToArray pb m = Some xs"
    and l: "int (length xs) + 4 < 2147483648"
  shows "Pack pb b m = Some (0, frame xs, int (length (frame xs)))"
proof -
  have sz: "pb_ByteSize pb m = int (length xs)" using assms(2) s by (simp add: pb_ok_def)
  have i: "s32 (int (length xs)) = int (length xs)" "s32 (int (length xs) + 4) = int (length xs) + 4"
    "u64 (int (length xs) + 4) = int (length xs) + 4" "u32 (int (length xs) + 4) = int (length xs) + 4"
    using l by (simp_all add: int32_simps)
  let ?v = "vec_resize b (int (length xs) + 4)"
  have lv: "length ?v = length xs + 4" by (simp add: vec_resize_def)
  have w1: "mem_write ?v 0 (htonl_bytes (int (length xs) + 4)) =
      Some (htonl_bytes (int (length xs) + 4) @ drop 4 ?v)" using lv by (simp add: mem_write_def)
  have w2: "mem_write (htonl_bytes (int (length xs) + 4) @ drop 4 ?v) 4 xs = Some (frame xs)"
    using lv by (simp add: mem_write_def frame_def)
  show ?thesis
    unfolding Pack_def Let_def sz i if_P [OF assms(1)] w1 Option.bind.simps prod.case s option.case w2 by simp
qed

text \<open>The header and the payload as \<open>UnPack\<close> reads them.\<close>

lemma frame_header:
  assumes "int (length xs) + 4 < 2147483648"
  shows "mem_read (frame xs @ rest) 0 4 = Some (htonl_bytes (int (length xs) + 4))"
    and "u32 (ntohl_bytes (htonl_bytes (int (length xs) + 4)) - 4) = int (length xs)"
    and "mem_read (frame xs @ rest) 4 (int (length xs)) = Some xs"
    and "s32 (int (length xs)) = int (length xs)" "s32 (int (length xs) + 4) = int (length xs) + 4"
  using assms by (simp_all add: frame_def mem_read_def ntohl_htonl int32_simps)

lemma UnPack_frame:
  assumes "pb_protocolpacket pb" and l: "int (length xs) + 4 < 2147483648"
    and len: "int (length (frame xs)) \<le> len" "len < 2147483648"
  shows "UnPack pb (frame xs @ rest) len =
    Some (case pb_ParseFromArray pb xs of None \<Rightarrow> (-1, None, len) | Some m \<Rightarrow> (0, Some m, int (length (frame xs))))"
proof -
  note f = frame_header(1) [OF l, of rest] frame_header(2) [OF l] frame_header(3) [OF l, of rest]
    frame_header(4,5) [OF l]
  have u: "u64 (len - 4) = len - 4" using len by (intro u64_id) auto
  have c: "\<not> len - 4 < int (length xs)" using len by simp
  show ?thesis
    unfolding UnPack_def if_P [OF assms(1)] f(1) Option.bind.simps Let_def f(2) u prod.case
    using c f(3,4,5) by (simp split: option.splits)
qed

lemma UnPack_short:
  assumes "pb_protocolpacket pb" and l: "int (length xs) + 4 < 2147483648"
    and len: "4 \<le> len" "len < int (length (frame xs))"
    and mem: "mem = take (nat len) (frame xs) @ stale"
  shows "UnPack pb mem len = Some (-1, None, len)"
proof -
  have hd: "mem_read mem 0 4 = Some (htonl_bytes (int (length xs) + 4))"
    using len unfolding mem frame_def by (simp add: mem_read_def)
  have u: "u64 (len - 4) = len - 4" using len l by (intro u64_id) auto
  have "len - 4 < int (length xs)" using len by simp
  then show ?thesis
    unfolding UnPack_def if_P [OF assms(1)] hd Option.bind.simps Let_def frame_header(2) [OF l] u prod.case by simp
qed

section \<open>Properties\<close>


text \<open>A message type whose wire format is the byte string itself.\<close>

definition raw_pb :: "byte list pb" where
  "raw_pb = \<lparr> pb_ByteSize = (\<lambda>xs. int (length xs)), pb_SerializeToArray = Some, pb_ParseFromArray = Some,
     pb_protocolpacket = True \<rparr>"

lemma raw_pb_ok: "pb_ok raw_pb" "pb_protocolpacket raw_pb"
  by (simp_all add: pb_ok_def raw_pb_def)


text \<open>
  With fewer than four bytes received the length test underflows: \<open>len - sizeof(uint32_t)\<close>
  is a huge \<open>size_t\<close>, so the incomplete message is accepted and bytes that were never received
  are parsed (here two received bytes, the rest is stale memory), and when the block ends behind
  the received bytes the header itself is read out of bounds.
\<close>

theorem UnPack_header_overread:
  "UnPack raw_pb ([0, 0] @ [0, 6, 66, 77]) 2 = Some (0, Some [66, 77], 6) \<and> UnPack raw_pb [0, 0] 2 = None"
proof
  show "UnPack raw_pb ([0, 0] @ [0, 6, 66, 77]) 2 = Some (0, Some [66, 77], 6)" by code_simp
  show "UnPack raw_pb [0, 0] 2 = None" by (simp add: UnPack_def mem_read_def raw_pb_def)
qed

end
