(* ===== verification/ServerApp.thy ===== *)
theory ServerApp
  imports TcpServer PbParser
begin

text \<open>
  The application framework of \<^verbatim>\<open>src/util/framework/server_app.{h,cpp}\<close>: a main loop with
  a poller, and a control server on which an operator sends commands, one per line.

  \<open>ServerApp\<close> and its member \<open>m_ctrl_svr\<close> are one state, the control server extended by the
  members of the application. What a derived class adds is the type \<open>'c\<close>, and its virtual
  functions are the parameter \<open>'c app_ops\<close>; among them is the reading of the configuration file
  by the text format parser of protobuf. The clock, \<open>usleep\<close> and the calls of the poller are the
  parameter \<open>'k app_sys\<close>. The first loop of \<open>OnMsgRecv\<close> and the log lines write to the log only.
\<close>

datatype ProcRetMode = PROC_RET_SLEEP | PROC_RET_NO_SLEEP

record 'c app_ops =
  aOnInit :: "'c \<Rightarrow> int \<times> 'c"
  aOnProc :: "'c \<Rightarrow> ProcRetMode \<times> 'c"
  aOnTick :: "'c \<Rightarrow> int \<times> 'c"
  aOnFini :: "'c \<Rightarrow> int \<times> 'c"
  aOnReload :: "'c \<Rightarrow> int \<times> 'c"
  aOnCtrlCmd :: "byte list \<Rightarrow> byte list \<Rightarrow> 'c \<Rightarrow> int \<times> byte list \<times> 'c"
  aParseConf :: "'c \<Rightarrow> bool \<times> 'c"

record 'k app_sys =
  s_sys :: "'k sys"
  s_epoll_create1 :: "'k \<Rightarrow> int \<times> 'k"
  s_epoll_wait :: "int \<Rightarrow> 'k \<Rightarrow> (int \<times> (int \<times> int) list) \<times> 'k"
  s_gettimeofday :: "'k \<Rightarrow> (int \<times> int) \<times> 'k"
  s_usleep :: "int \<Rightarrow> 'k \<Rightarrow> 'k"

record ('k, 'c) ServerApp = "'k TcpServer" +
  m_is_stop :: bool
  m_curtime :: "int \<times> int"
  m_Buff :: "byte list"
  app_state :: 'c

definition Max_Msg_Len :: int where "Max_Msg_Len = 1024 * 1024"

section \<open>Strings\<close>

definition bytes_of :: "string \<Rightarrow> byte list" where
  "bytes_of s = map of_char s"

definition isspace :: "byte \<Rightarrow> bool" where
  "isspace b \<longleftrightarrow> b = 32 \<or> 9 \<le> b \<and> b \<le> 13"

definition ltrim :: "byte list \<Rightarrow> byte list" where
  "ltrim s = dropWhile isspace s"

definition rtrim :: "byte list \<Rightarrow> byte list" where
  "rtrim s = rev (dropWhile isspace (rev s))"

definition trim :: "byte list \<Rightarrow> byte list" where
  "trim s = ltrim (rtrim s)"

text \<open>\<open>instream >> cmd\<close>: the first word.\<close>

definition first_word :: "byte list \<Rightarrow> byte list" where
  "first_word s = takeWhile (\<lambda>b. \<not> isspace b) (dropWhile isspace s)"

section \<open>Control commands\<close>

definition LoadConf :: "'c app_ops \<Rightarrow> 'c \<Rightarrow> int \<times> 'c" where
  "LoadConf ops c = (let (_, c) = aParseConf ops c in (0, c))"

definition ServerApp_OnCtrlCmd :: "byte list \<Rightarrow> byte list \<Rightarrow> 'c \<Rightarrow> int \<times> byte list \<times> 'c" where
  "ServerApp_OnCtrlCmd instr outstr c = (-1, outstr, c)"

text \<open>The results are the return value, \<open>outstr\<close>, \<open>m_is_stop\<close> and the application's state.\<close>

definition ControlCmd :: "'c app_ops \<Rightarrow> byte list \<Rightarrow> byte list \<Rightarrow> bool \<Rightarrow> 'c \<Rightarrow> int \<times> byte list \<times> bool \<times> 'c" where
  "ControlCmd ops instr outstr stop c =
     (let cmd = first_word instr
      in if cmd = bytes_of ''reload''
         then
           let (_, c) = LoadConf ops c;
               (_, c) = aOnReload ops c
           in (0, bytes_of ''Reload success'' @ [10], stop, c)
         else if cmd = bytes_of ''stop''
         then (0, bytes_of ''Done'' @ [10], True, c)
         else
           let (ret, outstr, c) = aOnCtrlCmd ops instr outstr c
           in if ret < 0 then (0, bytes_of ''unsupport cmd '' @ instr @ [10], stop, c)
              else (0, outstr, stop, c))"

fun find_nl :: "byte list \<Rightarrow> nat option" where
  "find_nl [] = None"
| "find_nl (b # bs) = (if b = 10 then Some 0 else map_option Suc (find_nl bs))"

definition run_cmd :: "'c app_ops \<Rightarrow> 'k sys \<Rightarrow> int \<Rightarrow> byte list \<Rightarrow> ('k, 'c) ServerApp \<Rightarrow> ('k, 'c) ServerApp fault" where
  "run_cmd ops sy p instr w = do {
     let (_, outstr, stop, c) = ControlCmd ops instr [] (m_is_stop w) (app_state w);
     let w = w \<lparr> m_is_stop := stop, app_state := c \<rparr>;
     (_, w) \<leftarrow> Server_SendMsg sy p outstr w;
     Some w
   }"

definition retrieve_ch :: "int \<Rightarrow> int \<Rightarrow> ('k, 'c) ServerApp \<Rightarrow> ('k, 'c) ServerApp fault" where
  "retrieve_ch p n w = do {
     ch \<leftarrow> objs w p;
     Some (set_obj p (ch \<lparr> m_RecvBuf := snd (Retrieve (m_RecvBuf ch) n) \<rparr>) w)
   }"

partial_function (option) ctrl_loop ::
  "'c app_ops \<Rightarrow> 'k sys \<Rightarrow> int \<Rightarrow> ('k, 'c) ServerApp \<Rightarrow> ('k, 'c) ServerApp option" where
  "ctrl_loop ops sy p w = do {
     ch \<leftarrow> objs w p;
     if ReadableBytes (m_RecvBuf ch) > 0
     then do {
       p_buf \<leftarrow> Peek (m_RecvBuf ch) (ReadableBytes (m_RecvBuf ch));
       if p_buf ! 0 = 13
       then do { w \<leftarrow> retrieve_ch p 1 w; ctrl_loop ops sy p w }
       else
         case find_nl p_buf of
           None \<Rightarrow> Some w
         | Some i \<Rightarrow> do {
             w \<leftarrow> (if i \<noteq> 0 then run_cmd ops sy p (take i p_buf) w else Some w);
             w \<leftarrow> retrieve_ch p (int i + 1) w;
             ctrl_loop ops sy p w
           }
     }
     else Some w
   }"

definition Ctrl_OnMsgRecv :: "'c app_ops \<Rightarrow> 'k sys \<Rightarrow> int \<Rightarrow> ('k, 'c) ServerApp \<Rightarrow> (int \<times> ('k, 'c) ServerApp) option" where
  "Ctrl_OnMsgRecv ops sy p w = do { w \<leftarrow> ctrl_loop ops sy p w; Some (0, w) }"

definition Ctrl_OnCloseChannel :: "int \<Rightarrow> ('k, 'c) ServerApp \<Rightarrow> (int \<times> ('k, 'c) ServerApp) fault" where
  "Ctrl_OnCloseChannel p w = Server_OnCloseChannel p w"

definition Ctrl_OnNewChannel :: "'k sys \<Rightarrow> int \<Rightarrow> sockaddr_in \<Rightarrow> ('k, 'c) ServerApp \<Rightarrow> (int \<times> ('k, 'c) ServerApp) fault" where
  "Ctrl_OnNewChannel sy iFD addr w =
     Server_OnNewChannel sy \<lparr> vOnNewChannel = (\<lambda>_ _ w. Some (0, w)), vOnMsgRecv = (\<lambda>_ w. Some (0, w)),
       vOnCloseChannel = Ctrl_OnCloseChannel \<rparr> iFD addr w"

definition ctrl_virt :: "'c app_ops \<Rightarrow> 'k sys \<Rightarrow> ('k, 'c) ServerApp server_virt" where
  "ctrl_virt ops sy = \<lparr> vOnNewChannel = Ctrl_OnNewChannel sy, vOnMsgRecv = Ctrl_OnMsgRecv ops sy,
     vOnCloseChannel = Ctrl_OnCloseChannel \<rparr>"

section \<open>Messages\<close>

text \<open>\<open>GetMsg\<close> yields whether it returns the buffer, and \<open>len\<close>.\<close>

definition GetMsg :: "byte list \<Rightarrow> int \<Rightarrow> (bool \<times> int) fault" where
  "GetMsg buff len = do {
     hd \<leftarrow> mem_read buff 0 4;
     let msglen = ntohl_bytes hd;
     if len < msglen then Some (False, 0) else Some (True, msglen)
   }"

text \<open>\<open>SerializeToArray\<close> is told a size of \<open>_Max_Msg_Len\<close> and fails for a larger message.\<close>

definition App_Pack :: "'m pb \<Rightarrow> 'm \<Rightarrow> ('k, 'c) ServerApp \<Rightarrow> (bool \<times> int \<times> ('k, 'c) ServerApp) fault" where
  "App_Pack pb msg w =
     (case pb_SerializeToArray pb msg of
        None \<Rightarrow> Some (False, 0, w)
      | Some xs \<Rightarrow>
          if int (length xs) > Max_Msg_Len then Some (False, 0, w)
          else do {
            b \<leftarrow> mem_write (m_Buff w) 4 xs;
            let len = u32 (s32 (pb_ByteSize pb msg) + 4);
            b \<leftarrow> mem_write b 0 (htonl_bytes len);
            Some (True, len, w \<lparr> m_Buff := b \<rparr>)
          })"

section \<open>The main loop\<close>

definition ServerApp_new :: "'k sys \<Rightarrow> EPollPoller \<Rightarrow> sockaddr_in \<Rightarrow> int \<times> int \<Rightarrow> byte list \<Rightarrow> 'c \<Rightarrow> 'k \<Rightarrow> ('k, 'c) ServerApp" where
  "ServerApp_new sy poll controladdr garbage_time garbage c k =
     (let s = TcpServer_new sy poll controladdr True k
      in \<lparr> m_EPoll = m_EPoll s, m_Acceptor = m_Acceptor s, m_ChannelMap = m_ChannelMap s, objs = objs s,
           next_obj = next_obj s, kern = kern s, m_is_stop = False, m_curtime = garbage_time,
           m_Buff = garbage, app_state = c \<rparr>)"

definition ServerApp_Init :: "'c app_ops \<Rightarrow> 'k app_sys \<Rightarrow> ('k, 'c) ServerApp \<Rightarrow> int \<times> ('k, 'c) ServerApp" where
  "ServerApp_Init ops as w =
     (let (_, ep, k) = InitEpoll (s_epoll_create1 as) (m_EPoll w) (kern w);
          (_, w) = Server_Start (s_sys as) (w \<lparr> m_EPoll := ep, kern := k \<rparr>);
          (_, c) = LoadConf ops (app_state w);
          (ret, c) = aOnInit ops c
      in (ret, w \<lparr> app_state := c \<rparr>))"

text \<open>
  \<open>fcost\<close> is a \<open>float\<close>, a binary number with 24 digits: an integer below \<open>2 ^ 24\<close> is exact, a
  larger one is rounded to the nearest multiple of a power of two, ties to even.
\<close>

function f32_shift :: "int \<Rightarrow> nat" where
  "f32_shift x = (if x < 16777216 then 0 else Suc (f32_shift (x div 2)))"
  by auto
termination by (relation "measure nat") auto

definition f32 :: "int \<Rightarrow> int" where
  "f32 x =
     (let m = 2 ^ f32_shift \<bar>x\<bar>; q = \<bar>x\<bar> div m; r = \<bar>x\<bar> mod m
      in sgn x * (if 2 * r > m \<or> 2 * r = m \<and> odd q then q + 1 else q) * m)"

definition c_div :: "int \<Rightarrow> int \<Rightarrow> int" where
  "c_div a b = sgn a * sgn b * (\<bar>a\<bar> div \<bar>b\<bar>)"

definition fcost :: "int \<times> int \<Rightarrow> int \<times> int \<Rightarrow> int" where
  "fcost curtime ticktime = f32 ((fst curtime - fst ticktime) * 1000 + c_div (snd curtime - snd ticktime) 1000)"

type_synonym ('k, 'c) run_state = "(int \<times> int) \<times> int \<times> ('k, 'c) ServerApp"

text \<open>
  One iteration of the loop of \<open>Run\<close> on \<open>ticktime\<close>, \<open>idlesleepcount\<close> and the application. \<open>vt\<close>
  holds the virtual functions of the sockets that are registered with the poller.
\<close>

definition run_iter ::
  "('k, 'c) ServerApp vtable \<Rightarrow> 'c app_ops \<Rightarrow> 'k app_sys \<Rightarrow> ('k, 'c) run_state \<Rightarrow> ('k, 'c) run_state fault" where
  "run_iter vt ops as s = do {
     let (ticktime, idle, w) = s;
     let (evs, k) = s_epoll_wait as (m_EventListSize (m_EPoll w)) (kern w);
     (_, ep, w) \<leftarrow> Poll vt (\<lambda>_. evs) (m_EPoll w) (w \<lparr> kern := k \<rparr>);
     let w = w \<lparr> m_EPoll := ep \<rparr>;
     let (ret, c) = aOnProc ops (app_state w);
     let idle = (if ret = PROC_RET_SLEEP then s32 (idle + 1) else 0);
     let (t, k) = s_gettimeofday as (kern w);
     let w = w \<lparr> app_state := c, m_curtime := t, kern := k \<rparr>;
     let cost = fcost t ticktime;
     let alignms = s32 (f32 (100 - cost));
     let (idle, w) = (if idle > 10 \<and> alignms > 0
                      then (0, w \<lparr> kern := s_usleep as (s32 (alignms * 1000)) (kern w) \<rparr>) else (idle, w));
     if cost \<ge> 100
     then (let (_, c) = aOnTick ops (app_state w) in Some (t, idle, w \<lparr> app_state := c \<rparr>))
     else Some (ticktime, idle, w)
   }"

partial_function (option) run_loop ::
  "('k, 'c) ServerApp vtable \<Rightarrow> 'c app_ops \<Rightarrow> 'k app_sys \<Rightarrow> ('k, 'c) run_state \<Rightarrow> ('k, 'c) ServerApp option" where
  "run_loop vt ops as s =
     (if m_is_stop (snd (snd s)) then Some (snd (snd s))
      else do { s \<leftarrow> run_iter vt ops as s; run_loop vt ops as s })"

definition Run ::
  "('k, 'c) ServerApp vtable \<Rightarrow> 'c app_ops \<Rightarrow> 'k app_sys \<Rightarrow> ('k, 'c) ServerApp \<Rightarrow> (int \<times> ('k, 'c) ServerApp) option" where
  "Run vt ops as w =
     (let (ret, w) = ServerApp_Init ops as w
      in if ret < 0 then Some (-1, w)
         else do {
           let (ticktime, k) = s_gettimeofday as (kern w);
           w \<leftarrow> run_loop vt ops as (ticktime, 0, w \<lparr> kern := k \<rparr>);
           let (_, c) = aOnFini ops (app_state w);
           Some (0, w \<lparr> app_state := c \<rparr>)
         })"

section \<open>What a control connection means\<close>

text \<open>
  The reference: the bytes are cut at newlines; carriage returns at the start of a line are
  dropped, and empty lines are no commands. What follows the last newline stays.
\<close>

fun lines_of :: "byte list \<Rightarrow> byte list list \<times> byte list" where
  "lines_of [] = ([], [])"
| "lines_of (b # bs) =
     (let (ls, r) = lines_of bs
      in if b = 10 then ([] # ls, r) else case ls of [] \<Rightarrow> ([], b # r) | l # ls \<Rightarrow> ((b # l) # ls, r))"

definition strip_cr :: "byte list \<Rightarrow> byte list" where
  "strip_cr l = dropWhile (\<lambda>b. b = 13) l"

definition ctrl_lines :: "byte list \<Rightarrow> byte list list" where
  "ctrl_lines xs = filter (\<lambda>l. l \<noteq> []) (map strip_cr (fst (lines_of xs)))"

definition ctrl_rest :: "byte list \<Rightarrow> byte list" where
  "ctrl_rest xs = strip_cr (snd (lines_of xs))"

fun cmd_run :: "'c app_ops \<Rightarrow> byte list list \<Rightarrow> bool \<Rightarrow> 'c \<Rightarrow> byte list \<times> bool \<times> 'c" where
  "cmd_run ops [] stop c = ([], stop, c)"
| "cmd_run ops (l # ls) stop c =
     (let (_, out, stop, c) = ControlCmd ops l [] stop c;
          (outs, stop, c) = cmd_run ops ls stop c
      in (out @ outs, stop, c))"

lemma lines_of_none: "find_nl xs = None \<Longrightarrow> lines_of xs = ([], xs)"
  by (induction xs) (auto split: if_splits)

lemma lines_of_some:
  "find_nl xs = Some i \<Longrightarrow> i < length xs \<and>
     lines_of xs = (take i xs # fst (lines_of (drop (Suc i) xs)), snd (lines_of (drop (Suc i) xs)))"
proof (induction xs arbitrary: i)
  case (Cons b bs)
  then show ?case by (cases "b = 10") (auto split: option.splits prod.splits)
qed simp

lemma ctrl_cr:
  "ctrl_lines (13 # xs) = ctrl_lines xs" "ctrl_rest (13 # xs) = ctrl_rest xs"
  by (auto simp: ctrl_lines_def ctrl_rest_def strip_cr_def split: prod.splits list.splits)

lemma ctrl_nl:
  assumes "find_nl xs = Some i" and "xs ! 0 \<noteq> 13"
  shows "ctrl_lines xs = (if i = 0 then [] else [take i xs]) @ ctrl_lines (drop (Suc i) xs)"
    and "ctrl_rest xs = ctrl_rest (drop (Suc i) xs)"
proof -
  note l = lines_of_some [OF assms(1)]
  have "strip_cr (take i xs) = take i xs" using assms(2) l by (cases xs; cases i) (auto simp: strip_cr_def)
  then show "ctrl_lines xs = (if i = 0 then [] else [take i xs]) @ ctrl_lines (drop (Suc i) xs)"
    using l by (auto simp: ctrl_lines_def)
  show "ctrl_rest xs = ctrl_rest (drop (Suc i) xs)" using l by (simp add: ctrl_rest_def)
qed

lemma ctrl_none:
  assumes "find_nl xs = None" and "xs = [] \<or> xs ! 0 \<noteq> 13"
  shows "ctrl_lines xs = []" "ctrl_rest xs = xs"
  using lines_of_none [OF assms(1)] assms(2)
  by (simp_all add: ctrl_lines_def ctrl_rest_def strip_cr_def) (cases xs; auto)

lemma retrieve_ch_ok:
  assumes "objs w p = Some ch" and "send_inv ch" and "0 \<le> n"
  shows "\<exists>ch'. retrieve_ch p n w = Some (set_obj p ch' w) \<and> send_inv ch' \<and> m_iFD ch' = m_iFD ch \<and>
    received ch' = drop (nat n) (received ch) \<and> pending ch' = pending ch"
proof -
  have "buf_inv (m_RecvBuf ch)" using assms(2) by (simp add: send_inv_def chan_inv_def)
  from Retrieve_ok [OF this assms(3)] obtain b where
    b: "snd (Retrieve (m_RecvBuf ch) n) = b" "buf_inv b" "readable b = drop (nat n) (readable (m_RecvBuf ch))" by auto
  have "send_inv (ch \<lparr> m_RecvBuf := b \<rparr>)" using assms(2) b(2)
    by (simp add: send_inv_def chan_inv_def pending_def IsWriting_def)
  then show ?thesis using assms(1) b by (auto simp: retrieve_ch_def received_def pending_def)
qed

lemma ctrl_loop_ok:
  assumes sp: "write_spec sy wire ready"
  shows "objs w p = Some ch \<Longrightarrow> send_inv ch \<Longrightarrow> peer_up sy (m_iFD ch) \<Longrightarrow>
    cmd_run ops (ctrl_lines (received ch)) (m_is_stop w) (app_state w) = (outs, stop, c) \<Longrightarrow>
    int (length (pending ch) + length outs) \<le> k_MaxSendBufSize \<Longrightarrow>
    \<exists>w' ch'. ctrl_loop ops sy p w = Some w' \<and> objs w' = (objs w)(p \<mapsto> ch') \<and> send_inv ch' \<and> m_iFD ch' = m_iFD ch \<and>
      received ch' = ctrl_rest (received ch) \<and> m_is_stop w' = stop \<and> app_state w' = c \<and>
      m_ChannelMap w' = m_ChannelMap w \<and>
      wire (kern w') (m_iFD ch) @ pending ch' = wire (kern w) (m_iFD ch) @ pending ch @ outs"
proof (induction "length (received ch)" arbitrary: w ch outs rule: less_induct)
  case less
  have bi: "buf_inv (m_RecvBuf ch)" using less.prems(2) by (simp add: send_inv_def chan_inv_def)
  let ?xs = "received ch"
  have n: "ReadableBytes (m_RecvBuf ch) = int (length ?xs)" using buf_inv_counts(3) [OF bi] by (simp add: received_def)
  have pk: "Peek (m_RecvBuf ch) (int (length ?xs)) = Some ?xs"
    using Peek_readable [OF bi, of "int (length ?xs)"] n by (simp add: received_def)
  consider (empty) "?xs = []" | (cr) "?xs \<noteq> []" "?xs ! 0 = 13"
    | (none) "?xs \<noteq> []" "?xs ! 0 \<noteq> 13" "find_nl ?xs = None"
    | (line) i where "?xs \<noteq> []" "?xs ! 0 \<noteq> 13" "find_nl ?xs = Some i" by blast
  then show ?case
  proof cases
    case empty
    have "ctrl_loop ops sy p w = Some w" using less.prems(1) n empty by (subst ctrl_loop.simps) simp
    then show ?thesis using less.prems empty ctrl_none [of "[]"]
      by (intro exI [of _ w] exI [of _ ch]) (simp add: fun_upd_idem)
  next
    case none
    have "ctrl_loop ops sy p w = Some w" using less.prems(1) n none pk by (subst ctrl_loop.simps) simp
    then show ?thesis using less.prems ctrl_none [OF none(3)] none(2)
      by (intro exI [of _ w] exI [of _ ch]) (simp add: fun_upd_idem)
  next
    case cr
    from retrieve_ch_ok [OF less.prems(1,2), of 1] obtain ch1 where
      r: "retrieve_ch p 1 w = Some (set_obj p ch1 w)" "send_inv ch1" "m_iFD ch1 = m_iFD ch"
        "received ch1 = drop 1 ?xs" "pending ch1 = pending ch" by auto
    have st: "ctrl_loop ops sy p w = ctrl_loop ops sy p (set_obj p ch1 w)"
      using less.prems(1) n cr pk r(1) by (subst ctrl_loop.simps) simp
    have xs: "?xs = 13 # received ch1" using cr r(4) by (cases ?xs) auto
    have o1: "objs (set_obj p ch1 w) p = Some ch1" by (simp add: set_obj_def)
    have lt: "length (received ch1) < length ?xs" using xs by simp
    have c1: "cmd_run ops (ctrl_lines (received ch1)) (m_is_stop (set_obj p ch1 w)) (app_state (set_obj p ch1 w)) = (outs, stop, c)"
      using less.prems(4) unfolding xs ctrl_cr by (simp add: set_obj_def)
    from less.hyps [OF lt o1 r(2) _ c1] less.prems(3,5) r(3,5) obtain w' ch' where
      "ctrl_loop ops sy p (set_obj p ch1 w) = Some w'" "objs w' = (objs (set_obj p ch1 w))(p \<mapsto> ch')" "send_inv ch'"
      "m_iFD ch' = m_iFD ch1" "received ch' = ctrl_rest (received ch1)" "m_is_stop w' = stop" "app_state w' = c"
      "m_ChannelMap w' = m_ChannelMap (set_obj p ch1 w)"
      "wire (kern w') (m_iFD ch1) @ pending ch' = wire (kern (set_obj p ch1 w)) (m_iFD ch1) @ pending ch1 @ outs" by auto
    moreover have "ctrl_rest ?xs = ctrl_rest (received ch1)" unfolding xs ctrl_cr ..
    ultimately show ?thesis using st r(3,5) by (intro exI [of _ w'] exI [of _ ch']) (simp add: set_obj_def)
  next
    case line
    let ?l = "take i ?xs"
    have il: "i < length ?xs" using lines_of_some [OF line(3)] by simp
    note cl = ctrl_nl [OF line(3,2)]
    obtain out1 stop1 c1 outs2 where
      run: "(if i = 0 then ([], m_is_stop w, app_state w)
          else case ControlCmd ops ?l [] (m_is_stop w) (app_state w) of (_, out, stop, c) \<Rightarrow> (out, stop, c)) = (out1, stop1, c1)"
        "cmd_run ops (ctrl_lines (drop (Suc i) ?xs)) stop1 c1 = (outs2, stop, c)" "outs = out1 @ outs2"
      using less.prems(4) unfolding cl(1) by (auto split: if_splits prod.splits)
    let ?w1 = "w \<lparr> m_is_stop := stop1, app_state := c1 \<rparr>"
    have "\<exists>ch1 k1. (if i \<noteq> 0 then run_cmd ops sy p ?l w else Some w) = Some (set_obj p ch1 ?w1 \<lparr> kern := k1 \<rparr>) \<and> send_inv ch1 \<and>
        m_iFD ch1 = m_iFD ch \<and> received ch1 = received ch \<and> length (pending ch1) \<le> length (pending ch) + length out1 \<and>
        wire k1 (m_iFD ch) @ pending ch1 = wire (kern w) (m_iFD ch) @ pending ch @ out1"
    proof (cases "i = 0")
      case True
      then have "Some w = Some (set_obj p ch ?w1 \<lparr> kern := kern w \<rparr>)" using run(1) less.prems(1) by (simp add: set_obj_def fun_upd_idem)
      then show ?thesis using True run(1) less.prems(2) by (intro exI [of _ ch] exI [of _ "kern w"]) simp
    next
      case False
      then obtain x where cc: "ControlCmd ops ?l [] (m_is_stop w) (app_state w) = (x, out1, stop1, c1)"
        using run(1) by (auto split: prod.splits)
      have "objs ?w1 p = Some ch" "int (length (pending ch) + length out1) \<le> k_MaxSendBufSize"
        using less.prems(1,5) run(3) by auto
      from send_reply [OF sp this(1) less.prems(2,3) this(2)] obtain ch1 k1 where
        "Server_SendMsg sy p out1 ?w1 = Some (0, set_obj p ch1 ?w1 \<lparr> kern := k1 \<rparr>)" "send_inv ch1" "m_iFD ch1 = m_iFD ch"
        "m_RecvBuf ch1 = m_RecvBuf ch" "length (pending ch1) \<le> length (pending ch) + length out1"
        "wire k1 (m_iFD ch) @ pending ch1 = wire (kern ?w1) (m_iFD ch) @ pending ch @ out1" by blast
      then show ?thesis using False cc by (intro exI [of _ ch1] exI [of _ k1]) (simp add: run_cmd_def received_def)
    qed
    then obtain ch1 k1 where
      s: "(if i \<noteq> 0 then run_cmd ops sy p ?l w else Some w) = Some (set_obj p ch1 ?w1 \<lparr> kern := k1 \<rparr>)" "send_inv ch1"
        "m_iFD ch1 = m_iFD ch" "received ch1 = received ch" "length (pending ch1) \<le> length (pending ch) + length out1"
        "wire k1 (m_iFD ch) @ pending ch1 = wire (kern w) (m_iFD ch) @ pending ch @ out1" by blast
    let ?w2 = "set_obj p ch1 ?w1 \<lparr> kern := k1 \<rparr>"
    have "objs ?w2 p = Some ch1" by (simp add: set_obj_def)
    from retrieve_ch_ok [OF this s(2), of "int i + 1"] obtain ch2 where
      r: "retrieve_ch p (int i + 1) ?w2 = Some (set_obj p ch2 ?w2)" "send_inv ch2" "m_iFD ch2 = m_iFD ch1"
        "received ch2 = drop (nat (int i + 1)) (received ch1)" "pending ch2 = pending ch1" by auto
    let ?w3 = "set_obj p ch2 ?w2"
    have rc: "received ch2 = drop (Suc i) ?xs" using r(4) s(4) by (simp add: nat_add_distrib)
    have st: "ctrl_loop ops sy p w = ctrl_loop ops sy p ?w3"
      using less.prems(1) n line pk s(1) r(1) by (subst ctrl_loop.simps) simp
    have o3: "objs ?w3 p = Some ch2" by (simp add: set_obj_def)
    have lt: "length (received ch2) < length ?xs" using rc il by simp
    have c3: "cmd_run ops (ctrl_lines (received ch2)) (m_is_stop ?w3) (app_state ?w3) = (outs2, stop, c)"
      using run(2) unfolding rc by (simp add: set_obj_def)
    have up: "peer_up sy (m_iFD ch2)" using less.prems(3) r(3) s(3) by simp
    have "int (length (pending ch2) + length outs2) \<le> k_MaxSendBufSize" using less.prems(5) run(3) r(5) s(5) by simp
    from less.hyps [OF lt o3 r(2) up c3 this] obtain w' ch' where
      "ctrl_loop ops sy p ?w3 = Some w'" "objs w' = (objs ?w3)(p \<mapsto> ch')" "send_inv ch'"
      "m_iFD ch' = m_iFD ch2" "received ch' = ctrl_rest (received ch2)" "m_is_stop w' = stop" "app_state w' = c"
      "m_ChannelMap w' = m_ChannelMap ?w3"
      "wire (kern w') (m_iFD ch2) @ pending ch' = wire (kern ?w3) (m_iFD ch2) @ pending ch2 @ outs2" by auto
    moreover have "ctrl_rest ?xs = ctrl_rest (received ch2)" unfolding rc cl(2) ..
    moreover have "wire (kern ?w3) (m_iFD ch2) @ pending ch2 = wire (kern w) (m_iFD ch) @ pending ch @ out1"
      using s(3,6) r(3,5) by (simp add: set_obj_def)
    ultimately show ?thesis using st r(3) s(3) run(3)
      by (intro exI [of _ w'] exI [of _ ch']) (auto simp: set_obj_def)
  qed
qed

section \<open>Properties\<close>

text \<open>
  C25. The control server runs each complete line once and in order: whatever part of a command
  stream has arrived, \<open>OnMsgRecv\<close> returns, the commands it executes are exactly the non-empty
  lines (without leading carriage returns), the replies go out in the same order behind what was
  still waiting to be sent, and only the incomplete last line stays in the receive buffer. This
  is for a connection that is up and has room for the replies.
\<close>

theorem control_lines_in_order:
  assumes "write_spec sy wire ready" and "server_inv w" and "objs w p = Some ch" and "peer_up sy (m_iFD ch)"
    and "cmd_run ops (ctrl_lines (received ch)) (m_is_stop w) (app_state w) = (outs, stop, c)"
    and "int (length (pending ch) + length outs) \<le> k_MaxSendBufSize"
  shows "\<exists>w' ch'. Ctrl_OnMsgRecv ops sy p w = Some (0, w') \<and> objs w' = (objs w)(p \<mapsto> ch') \<and>
    received ch' = ctrl_rest (received ch) \<and> m_is_stop w' = stop \<and> app_state w' = c \<and>
    wire (kern w') (m_iFD ch) @ pending ch' = wire (kern w) (m_iFD ch) @ pending ch @ outs"
proof -
  have "send_inv ch" using assms(2,3) by (auto simp: server_inv_def)
  from ctrl_loop_ok [OF assms(1,3) this assms(4-6)] show ?thesis by (auto simp: Ctrl_OnMsgRecv_def)
qed

text \<open>An application without state that knows no commands of its own.\<close>

definition plain_ops :: "unit app_ops" where
  "plain_ops = \<lparr> aOnInit = Pair 0, aOnProc = Pair PROC_RET_SLEEP, aOnTick = Pair 0, aOnFini = Pair 0, aOnReload = Pair 0,
     aOnCtrlCmd = ServerApp_OnCtrlCmd, aParseConf = Pair True \<rparr>"

definition stop_channel :: ServerChannel where
  "stop_channel = ServerChannel_new \<lparr> m_iFD := 7, m_RecvBuf :=
     \<lparr> m_buffer = bytes_of ''stop'' @ [13, 10], m_iReadIndex = 0, m_iWriteIndex = 6 \<rparr> \<rparr>"

definition stop_app :: "(int \<Rightarrow> byte list, unit) ServerApp" where
  "stop_app = (ServerApp_new slow_sys (EPollPoller_new 3) bzero_addr (0, 0) [] () (\<lambda>_. []))
     \<lparr> m_ChannelMap := [(7, 1)], objs := [1 \<mapsto> stop_channel], next_obj := 2 \<rparr>"

lemma stop_bytes: "bytes_of ''stop'' = [115, 116, 111, 112]"
  by (simp add: bytes_of_def)

lemma stop_channel_facts:
  "m_iFD stop_channel = 7" "send_inv stop_channel" "received stop_channel = [115, 116, 111, 112, 13, 10]" "pending stop_channel = []"
  by (simp_all add: stop_channel_def stop_bytes ServerChannel_new_def TcpChannel_new_def TcpChannel.extend_def pending_def
      received_def send_inv_def chan_inv_def buf_inv_def Buffer_new_def readable_def vector_max_def)

lemma stop_app_inv: "server_inv stop_app"
  using stop_channel_facts by (simp add: stop_app_def server_inv_def ServerApp_new_def split: if_splits)

lemma stop_line: "ctrl_lines [115, 116, 111, 112, 13, 10] = [[115, 116, 111, 112, 13]]" "ctrl_rest [115, 116, 111, 112, 13, 10] = []"
  by (simp_all add: ctrl_lines_def ctrl_rest_def strip_cr_def)

lemma stop_cmd: "ControlCmd ops [115, 116, 111, 112, 13] [] st c = (0, bytes_of ''Done'' @ [10], True, c)"
proof -
  have "first_word [115, 116, 111, 112, 13] = bytes_of ''stop''" by (simp add: first_word_def isspace_def stop_bytes)
  then show ?thesis by (simp add: ControlCmd_def bytes_of_def)
qed

lemma slow_peer_up: "peer_up slow_sys 7"
  by (simp add: peer_up_def slow_sys_def idle_sys_def int32_simps)

theorem control_lines_in_order_witness:
  "\<exists>w'. Ctrl_OnMsgRecv plain_ops slow_sys 1 stop_app = Some (0, w') \<and> m_is_stop w'"
proof -
  have o: "objs stop_app 1 = Some stop_channel" by (simp add: stop_app_def)
  have r: "cmd_run plain_ops (ctrl_lines (received stop_channel)) (m_is_stop stop_app) (app_state stop_app) =
      (bytes_of ''Done'' @ [10], True, app_state stop_app)"
    by (simp add: stop_channel_facts stop_line stop_cmd)
  have l: "int (length (pending stop_channel) + length (bytes_of ''Done'' @ [10])) \<le> k_MaxSendBufSize"
    by (simp add: stop_channel_facts k_MaxSendBufSize_def bytes_of_def)
  have "peer_up slow_sys (m_iFD stop_channel)" by (simp add: stop_channel_facts slow_peer_up)
  from control_lines_in_order [OF slow_sys_spec stop_app_inv o this r l] show ?thesis by auto
qed

text \<open>Once a line asked to stop, no later command takes it back.\<close>

lemma ControlCmd_stop:
  assumes "ControlCmd ops l outstr st c = (r, out, st', c')"
  shows "st' \<longleftrightarrow> st \<or> first_word l = bytes_of ''stop''"
proof -
  have "bytes_of ''reload'' \<noteq> bytes_of ''stop''" by (simp add: bytes_of_def)
  then show ?thesis using assms by (auto simp: ControlCmd_def Let_def split: if_splits prod.splits)
qed

lemma cmd_run_stop:
  "cmd_run ops ls st c = (outs, st', c') \<Longrightarrow> st' \<longleftrightarrow> st \<or> (\<exists>l \<in> set ls. first_word l = bytes_of ''stop'')"
proof (induction ls arbitrary: st c outs)
  case (Cons l ls)
  obtain r out st1 c1 where c1: "ControlCmd ops l [] st c = (r, out, st1, c1)" by (metis prod_cases4)
  obtain outs2 st2 c2 where "cmd_run ops ls st1 c1 = (outs2, st2, c2)" by (metis prod_cases3)
  then show ?case using Cons.prems Cons.IH [of st1 c1 outs2] c1 ControlCmd_stop [OF c1] by auto
qed simp

text \<open>A readable control connection hands the new bytes to the command loop.\<close>

lemma recv_commands:
  assumes sp: "write_spec sy wire ready" and rs: "readv_spec sy" and i: "server_inv w" and p: "objs w p = Some ch"
    and up: "peer_up sy (m_iFD ch)"
    and rd: "\<forall>space \<ge> 65536. sys_readv sy (m_iFD ch) space (kern w) = (int (length xs), xs, k')" "xs \<noteq> []" "length xs \<le> 65536"
    and small: "int (length (received ch)) \<le> k_MaxRecvBufSize"
    and run: "cmd_run ops (ctrl_lines (received ch @ xs)) (m_is_stop w) (app_state w) = (outs, stop, c)"
    and room: "int (length (pending ch) + length outs) \<le> k_MaxSendBufSize"
  shows "\<exists>w'. Server_HandleCanRecv sy (ctrl_virt ops sy) p w = Some (int (length xs), w') \<and> m_is_stop w' = stop"
proof -
  have si: "send_inv ch" using i p by (auto simp: server_inv_def)
  then have ci: "chan_inv ch" and bi: "buf_inv (m_RecvBuf ch)" by (auto simp: send_inv_def chan_inv_def)
  let ?b = "if ReadableBytes (m_RecvBuf ch) > k_MaxRecvBufSize
    then snd (Retrieve (m_RecvBuf ch) (ReadableBytes (m_RecvBuf ch))) else m_RecvBuf ch"
  define space where "space = (let w = WritableBytes ?b in if w < 65536 then w + 65536 else w)"
  have "0 \<le> WritableBytes ?b" by (simp add: WritableBytes_def u64_def)
  then have "65536 \<le> space" by (simp add: space_def Let_def)
  then have rv: "sys_readv sy (m_iFD ch) space (kern w) = (int (length xs), xs, k')" using rd(1) by blast
  have "int (length xs) < 2147483648" using rd(3) by simp
  from DoRecv_stream [OF rs ci rv space_def this] rd(2) obtain ch1 b where
    d: "DoRecv sy ch (kern w) = Some (int (length xs), RecvMsg, ch1, k')" "chan_inv ch1"
      "received ch1 = after_limit (received ch) k_MaxRecvBufSize @ xs" "pending ch1 = pending ch" "ch1 = ch \<lparr> m_RecvBuf := b \<rparr>" by auto
  have rc: "received ch1 = received ch @ xs" using d(3) small by (simp add: after_limit_def)
  have s1: "send_inv ch1" using si d(2,4) by (auto simp: send_inv_def d(5) IsWriting_def)
  let ?w = "set_obj p ch1 w \<lparr> kern := k' \<rparr>"
  have o: "objs ?w p = Some ch1" "peer_up sy (m_iFD ch1)" using up by (auto simp: set_obj_def d(5))
  have r1: "cmd_run ops (ctrl_lines (received ch1)) (m_is_stop ?w) (app_state ?w) = (outs, stop, c)"
    using run rc by (simp add: set_obj_def)
  have "int (length (pending ch1) + length outs) \<le> k_MaxSendBufSize" using room d(4) by simp
  from ctrl_loop_ok [OF sp o(1) s1 o(2) r1 this] obtain w' where "ctrl_loop ops sy p ?w = Some w'" "m_is_stop w' = stop" by blast
  then show ?thesis using p d(1)
    by (simp add: Server_HandleCanRecv_def Server_OnRecvMsg_def ctrl_virt_def Ctrl_OnMsgRecv_def Let_def)
qed


text \<open>A machine that delivers one command to descriptor 7.\<close>

definition stop_sys :: "(int \<Rightarrow> byte list) app_sys" where
  "stop_sys = \<lparr> s_sys = slow_sys \<lparr> sys_readv := (\<lambda>fd space k. if space < 6 then (-1, [], k) else (6, [115, 116, 111, 112, 13, 10], k)) \<rparr>,
     s_epoll_create1 = Pair 3, s_epoll_wait = (\<lambda>n k. ((1, [(1, EPOLLIN)]), k)), s_gettimeofday = Pair (0, 0), s_usleep = (\<lambda>_ k. k) \<rparr>"

definition quiet_app :: "(int \<Rightarrow> byte list, unit) ServerApp" where
  "quiet_app = stop_app \<lparr> objs := [1 \<mapsto> ServerChannel_new \<lparr> m_iFD := 7 \<rparr>] \<rparr>"


end
