(* ===== verification/ConnMsg.thy ===== *)
theory ConnMsg
  imports PbParser
begin

text \<open>
  The messages between the connection server and the servers behind it, from
  \<^verbatim>\<open>src/connsvr/protocol/protocol_connsvr.proto\<close>, and the connection server's configuration,
  from \<^verbatim>\<open>src/connsvr/framework/connsvr.proto\<close>. A reader of an optional part that is absent
  gets the default instance, whose numbers are 0 and whose bytes are empty.
\<close>

definition connsvr_start_req :: int where "connsvr_start_req = 0"
definition connsvr_start_rsp :: int where "connsvr_start_rsp = 1"
definition connsvr_stop :: int where "connsvr_stop = 2"
definition connsvr_route :: int where "connsvr_route = 3"
definition connsvr_msg_ntf :: int where "connsvr_msg_ntf = 4"
definition connsvr_cmd_count :: int where "connsvr_cmd_count = 5"

lemmas msg_cmds = connsvr_start_req_def connsvr_start_rsp_def connsvr_stop_def connsvr_route_def
  connsvr_msg_ntf_def connsvr_cmd_count_def

record StartReq =
  currentconn :: int
  channelcnt :: int

record StartRsp =
  accept :: int
  routechannel :: int

record MsgHead =
  cmdid :: int
  connid :: int
  port :: int
  ip :: string

record ConnsvrMsg =
  head :: MsgHead
  startreq :: "StartReq option"
  startrsp :: "StartRsp option"
  stop :: "int option"
  route :: "int option"
  msgntf :: "byte list option"

definition get_startrsp :: "ConnsvrMsg \<Rightarrow> StartRsp" where
  "get_startrsp m = (case startrsp m of Some r \<Rightarrow> r | None \<Rightarrow> \<lparr> accept = 0, routechannel = 0 \<rparr>)"

definition get_buff :: "ConnsvrMsg \<Rightarrow> byte list" where
  "get_buff m = (case msgntf m of Some b \<Rightarrow> b | None \<Rightarrow> [])"

text \<open>A message with only a head; the id and the port are stored as 32-bit unsigned numbers.\<close>

definition new_msg :: "int \<Rightarrow> int \<Rightarrow> int \<Rightarrow> string \<Rightarrow> ConnsvrMsg" where
  "new_msg cmd c p a = \<lparr> head = \<lparr> cmdid = cmd, connid = u32 c, port = p, ip = a \<rparr>, startreq = None,
     startrsp = None, stop = None, route = None, msgntf = None \<rparr>"

record Channel =
  ch_ip :: string
  ch_port :: int

record ConnSvrCfg =
  cfg_port :: int
  maxconn :: nat
  maxidletime :: int
  msglenpos :: int
  msglensize :: int
  defaultchannel :: Channel
  channel :: "Channel list"

end
