(* ===== verification/ConnTable.thy ===== *)
theory ConnTable
  imports Handle_Table TcpSocket
begin

text \<open>
  The connection records of the connection server: \<open>ConnectionRecord\<close> and the part of
  \<open>EpollServer\<close> in \<^verbatim>\<open>src/connsvr/epollsvr/epollsvr.h\<close> that hands out connection ids. A
  record's id is its index plus a multiple of the table size that grows every time the record
  is given back, so ids of closed connections are refused.

  A pointer to a record is its index in the vector. \<open>maxconn\<close> is the configured table size.
\<close>

record ConnectionRecord =
  m_idx :: int
  m_connid :: int
  rec_iFD :: int
  m_channelid :: int
  m_addr :: sockaddr_in
  m_LastActiveTime :: int

record ConnTable =
  m_vec :: "ConnectionRecord list"
  m_idxvec :: "int list"

section \<open>Records\<close>

definition UpdateConnid :: "int \<Rightarrow> ConnectionRecord \<Rightarrow> ConnectionRecord" where
  "UpdateConnid maxconn r =
     (let r = r \<lparr> m_connid := s32 (m_connid r + maxconn) \<rparr>
      in if m_connid r < m_idx r then r \<lparr> m_connid := m_idx r \<rparr> else r)"

definition ConnectionRecord_new :: "int \<Rightarrow> ConnectionRecord \<Rightarrow> ConnectionRecord" where
  "ConnectionRecord_new maxconn garbage =
     UpdateConnid maxconn (garbage \<lparr> m_channelid := 0, rec_iFD := 0, m_addr := bzero_addr \<rparr>)"

definition Attatch :: "int \<Rightarrow> sockaddr_in \<Rightarrow> ConnectionRecord \<Rightarrow> ConnectionRecord" where
  "Attatch fd addr r = r \<lparr> m_addr := addr, rec_iFD := fd \<rparr>"

definition IsValid :: "ConnectionRecord \<Rightarrow> bool" where
  "IsValid r \<longleftrightarrow> rec_iFD r > 0"

definition Detatch :: "int \<Rightarrow> ConnectionRecord \<Rightarrow> ConnectionRecord" where
  "Detatch maxconn r = UpdateConnid maxconn (r \<lparr> m_channelid := 0, rec_iFD := 0, m_addr := bzero_addr \<rparr>)"

definition UpdateActiveTime :: "int \<Rightarrow> ConnectionRecord \<Rightarrow> ConnectionRecord" where
  "UpdateActiveTime now r = r \<lparr> m_LastActiveTime := u64 now \<rparr>"

text \<open>The times are subtracted as \<open>uint64_t\<close>.\<close>

definition IsTimeout :: "int \<Rightarrow> int \<Rightarrow> ConnectionRecord \<Rightarrow> bool" where
  "IsTimeout maxidletime now r \<longleftrightarrow> maxidletime > 0 \<and> u64 (now - m_LastActiveTime r) \<ge> maxidletime"

definition SetChannelid :: "int \<Rightarrow> ConnectionRecord \<Rightarrow> ConnectionRecord" where
  "SetChannelid i r = r \<lparr> m_channelid := i \<rparr>"

section \<open>The table\<close>

text \<open>The loops of the constructor of \<open>EpollServer\<close>: \<open>uint32_t\<close> counter, \<open>int\<close> fields.\<close>

definition ConnTable_new :: "nat \<Rightarrow> ConnectionRecord \<Rightarrow> ConnTable" where
  "ConnTable_new maxconn garbage =
     \<lparr> m_vec = map (\<lambda>i. (ConnectionRecord_new (int maxconn) garbage) \<lparr> m_idx := s32 (int i), m_connid := s32 (int i) \<rparr>) [0..<maxconn],
       m_idxvec = map (\<lambda>i. s32 (int i)) [0..<maxconn] \<rparr>"

definition GetFreeIdx :: "ConnTable \<Rightarrow> int \<times> ConnTable" where
  "GetFreeIdx t =
     (if m_idxvec t = [] then (-1, t)
      else (last (m_idxvec t), t \<lparr> m_idxvec := butlast (m_idxvec t) \<rparr>))"

definition ReturnIdx :: "int \<Rightarrow> int \<Rightarrow> ConnTable \<Rightarrow> ConnTable" where
  "ReturnIdx maxconn idx t =
     (if idx \<ge> 0 \<and> idx < s32 maxconn then t \<lparr> m_idxvec := m_idxvec t @ [idx] \<rparr> else t)"

definition GetCurrConn :: "int \<Rightarrow> ConnTable \<Rightarrow> int" where
  "GetCurrConn maxconn t = u64 (maxconn - int (length (m_idxvec t)))"

definition GetConnectionRecord :: "ConnTable \<Rightarrow> int \<Rightarrow> int option fault" where
  "GetConnectionRecord t connid =
     (if connid \<ge> 0
      then do {
        i \<leftarrow> c_mod connid (int (length (m_vec t)));
        r \<leftarrow> arr_get (m_vec t) i;
        Some (if IsValid r \<and> m_connid r = connid then Some i else None)
      }
      else Some None)"

definition GetConnectionRecordByIdx :: "ConnTable \<Rightarrow> int \<Rightarrow> int option fault" where
  "GetConnectionRecordByIdx t idx =
     (if idx \<ge> 0
      then do {
        i \<leftarrow> c_mod idx (int (length (m_vec t)));
        r \<leftarrow> arr_get (m_vec t) i;
        Some (if m_idx r = idx then Some i else None)
      }
      else Some None)"

definition upd_rec :: "int \<Rightarrow> (ConnectionRecord \<Rightarrow> ConnectionRecord) \<Rightarrow> ConnTable \<Rightarrow> ConnTable fault" where
  "upd_rec i f t = do { v \<leftarrow> arr_upd (m_vec t) i f; Some (t \<lparr> m_vec := v \<rparr>) }"

definition CloseConn :: "int \<Rightarrow> int \<Rightarrow> ConnTable \<Rightarrow> ConnTable fault" where
  "CloseConn maxconn connid t = do {
     connred \<leftarrow> GetConnectionRecord t connid;
     (case connred of
        None \<Rightarrow> Some t
      | Some i \<Rightarrow> do {
          r \<leftarrow> arr_get (m_vec t) i;
          if IsValid r then upd_rec i (Detatch maxconn) (ReturnIdx maxconn (m_idx r) t) else Some t
        })
   }"

definition RecoredNewConn :: "int \<Rightarrow> int \<Rightarrow> sockaddr_in \<Rightarrow> ConnTable \<Rightarrow> (int \<times> ConnTable) fault" where
  "RecoredNewConn maxconn iFD addr t = do {
     let (idx, t) = GetFreeIdx t;
     connred \<leftarrow> GetConnectionRecordByIdx t idx;
     (case connred of
        None \<Rightarrow> do { t \<leftarrow> CloseConn maxconn idx t; Some (-1, t) }
      | Some i \<Rightarrow> do {
          r \<leftarrow> arr_get (m_vec t) i;
          if IsValid r then do { t \<leftarrow> CloseConn maxconn idx t; Some (-1, t) }
          else do {
            t \<leftarrow> upd_rec i (Attatch iFD addr) t;
            r \<leftarrow> arr_get (m_vec t) i;
            Some (m_connid r, t)
          }
        })
   }"

section \<open>Invariant\<close>

definition rec_inv :: "nat \<Rightarrow> nat \<Rightarrow> ConnectionRecord \<Rightarrow> bool" where
  "rec_inv n i r \<longleftrightarrow> m_idx r = int i \<and> int i \<le> m_connid r \<and> m_connid r < 2147483648 \<and>
     m_connid r mod int n = int i"

definition table_inv :: "ConnTable \<Rightarrow> bool" where
  "table_inv t \<longleftrightarrow> 0 < length (m_vec t) \<and> length (m_vec t) < 2147483648 \<and>
     (\<forall>i < length (m_vec t). rec_inv (length (m_vec t)) i (m_vec t ! i)) \<and>
     distinct (m_idxvec t) \<and> set (m_idxvec t) = int ` {i. i < length (m_vec t) \<and> \<not> IsValid (m_vec t ! i)}"

text \<open>The live connections: descriptor, peer address and channel by connection id.\<close>

definition table_map :: "ConnTable \<Rightarrow> int \<Rightarrow> (int \<times> sockaddr_in \<times> int) option" where
  "table_map t h =
     (if h < 0 then None
      else
        let r = m_vec t ! nat (h mod int (length (m_vec t)))
        in if IsValid r \<and> m_connid r = h then Some (rec_iFD r, m_addr r, m_channelid r) else None)"

definition table_capacity :: "ConnTable \<Rightarrow> nat" where
  "table_capacity t = length (m_vec t)"

lemma UpdateConnid_inv:
  assumes "rec_inv n i r" and "i < n" and "n < 2147483648"
  shows "rec_inv n i (UpdateConnid (int n) r)"
proof -
  have r: "m_idx r = int i" "int i \<le> m_connid r" "m_connid r < 2147483648" "m_connid r mod int n = int i"
    using assms(1) by (auto simp: rec_inv_def)
  show ?thesis
  proof (cases "m_connid r + int n < 2147483648")
    case True
    then have "s32 (m_connid r + int n) = m_connid r + int n" using r by (intro s32_id) auto
    then show ?thesis using r True by (simp add: UpdateConnid_def rec_inv_def)
  next
    case False
    then have "s32 (m_connid r + int n) = m_connid r + int n - 4294967296"
      using r assms(3) by (intro s32_wraps_negative) auto
    moreover have "m_connid r + int n - 4294967296 < 0" using r(3) assms(3) by simp
    ultimately show ?thesis using r(1) assms(2,3) by (simp add: UpdateConnid_def rec_inv_def)
  qed
qed

lemma Detatch_inv:
  assumes "rec_inv n i r" and "i < n" and "n < 2147483648"
  shows "rec_inv n i (Detatch (int n) r)" and "\<not> IsValid (Detatch (int n) r)"
proof -
  have "rec_inv n i (r \<lparr> m_channelid := 0, rec_iFD := 0, m_addr := bzero_addr \<rparr>)"
    using assms(1) by (simp add: rec_inv_def)
  from UpdateConnid_inv [OF this assms(2,3)] show "rec_inv n i (Detatch (int n) r)" by (simp add: Detatch_def)
  show "\<not> IsValid (Detatch (int n) r)" by (simp add: Detatch_def UpdateConnid_def IsValid_def Let_def)
qed

lemma table_map_iff:
  assumes i: "table_inv t"
  shows "table_map t h = Some v \<longleftrightarrow>
    (\<exists>j < length (m_vec t). IsValid (m_vec t ! j) \<and> m_connid (m_vec t ! j) = h \<and>
       v = (rec_iFD (m_vec t ! j), m_addr (m_vec t ! j), m_channelid (m_vec t ! j)))"
proof
  let ?n = "length (m_vec t)"
  have n: "0 < ?n" using i by (simp add: table_inv_def)
  { assume "table_map t h = Some v"
    moreover from this have "0 \<le> h" by (simp add: table_map_def split: if_splits)
    moreover have "nat (h mod int ?n) < ?n" using n by (simp add: nat_less_iff)
    ultimately show "\<exists>j < ?n. IsValid (m_vec t ! j) \<and> m_connid (m_vec t ! j) = h \<and>
        v = (rec_iFD (m_vec t ! j), m_addr (m_vec t ! j), m_channelid (m_vec t ! j))"
      by (auto simp: table_map_def Let_def split: if_splits) }
  { assume "\<exists>j < ?n. IsValid (m_vec t ! j) \<and> m_connid (m_vec t ! j) = h \<and>
        v = (rec_iFD (m_vec t ! j), m_addr (m_vec t ! j), m_channelid (m_vec t ! j))"
    then obtain j where j: "j < ?n" "IsValid (m_vec t ! j)" "m_connid (m_vec t ! j) = h"
      "v = (rec_iFD (m_vec t ! j), m_addr (m_vec t ! j), m_channelid (m_vec t ! j))" by blast
    have "rec_inv ?n j (m_vec t ! j)" using i j(1) by (simp add: table_inv_def)
    then have "0 \<le> h" "h mod int ?n = int j" using j(3) by (auto simp: rec_inv_def)
    then show "table_map t h = Some v" using j by (simp add: table_map_def Let_def) }
qed

lemma GetConnectionRecord_eq:
  assumes i: "table_inv t"
  shows "GetConnectionRecord t h =
    Some (if table_map t h = None then None else Some (h mod int (length (m_vec t))))"
proof (cases "h < 0")
  case True
  then show ?thesis by (simp add: GetConnectionRecord_def table_map_def)
next
  case False
  let ?n = "length (m_vec t)"
  have n: "0 < ?n" using i by (simp add: table_inv_def)
  have m: "h mod int ?n = int (nat (h mod int ?n))" using n by simp
  have l: "nat (h mod int ?n) < ?n" using n by (simp add: nat_less_iff)
  have "arr_get (m_vec t) (h mod int ?n) = Some (m_vec t ! nat (h mod int ?n))"
    by (subst m) (rule arr_get_int [OF l])
  then show ?thesis using False n
    by (auto simp: GetConnectionRecord_def table_map_def c_mod_nonneg Let_def)
qed


lemma CloseConn_dead: "table_inv t \<Longrightarrow> table_map t h = None \<Longrightarrow> CloseConn n h t = Some t"
  by (simp add: CloseConn_def GetConnectionRecord_eq)

text \<open>One record changes: what that does to the abstract map.\<close>

lemma table_map_upd:
  assumes i: "table_inv t" and i': "table_inv t'" and j: "j < length (m_vec t)"
    and v: "m_vec t' = (m_vec t)[j := r]"
    and free: "\<not> IsValid (m_vec t ! j) \<or> \<not> IsValid r"
  shows "table_map t' = (if IsValid r then (table_map t)(m_connid r \<mapsto> (rec_iFD r, m_addr r, m_channelid r))
    else if IsValid (m_vec t ! j) then (table_map t)(m_connid (m_vec t ! j) := None) else table_map t)"
proof -
  let ?n = "length (m_vec t)"
  have l: "length (m_vec t') = ?n" using v by simp
  have inj: "m_connid (m_vec t ! a) \<noteq> m_connid (m_vec t' ! j)" if "a < ?n" "a \<noteq> j" for a
  proof -
    have "rec_inv ?n a (m_vec t ! a)" "rec_inv ?n j (m_vec t' ! j)" using i i' that j l by (auto simp: table_inv_def)
    then show ?thesis using that(2) unfolding rec_inv_def by force
  qed
  have inj2: "m_connid (m_vec t ! a) \<noteq> m_connid (m_vec t ! j)" if "a < ?n" "a \<noteq> j" for a
  proof -
    have "rec_inv ?n a (m_vec t ! a)" "rec_inv ?n j (m_vec t ! j)" using i that j by (auto simp: table_inv_def)
    then show ?thesis using that(2) unfolding rec_inv_def by force
  qed
  have tj: "m_vec t' ! j = r" using v j by simp
  have ot: "m_vec t' ! a = m_vec t ! a" if "a \<noteq> j" for a using v that by simp
  have "table_map t' h = Some w \<longleftrightarrow> (if IsValid r then (table_map t)(m_connid r \<mapsto> (rec_iFD r, m_addr r, m_channelid r))
    else if IsValid (m_vec t ! j) then (table_map t)(m_connid (m_vec t ! j) := None) else table_map t) h = Some w" for h w
  proof (cases "IsValid r")
    case True
    then have nv: "\<not> IsValid (m_vec t ! j)" using free by simp
    show ?thesis using True nv j inj tj ot unfolding table_map_iff [OF i'] l fun_upd_def
      by (auto simp: table_map_iff [OF i]) metis+
  next
    case False
    then show ?thesis using j inj2 tj ot unfolding table_map_iff [OF i'] l fun_upd_def
      by (auto simp: table_map_iff [OF i]) metis+
  qed
  then show ?thesis by (intro ext) (metis not_Some_eq)
qed

lemma CloseConn_live:
  assumes i: "table_inv t" and h: "table_map t h \<noteq> None" and n: "n = int (length (m_vec t))"
  shows "\<exists>t'. CloseConn n h t = Some t' \<and> table_inv t' \<and> table_map t' = (table_map t)(h := None) \<and>
    length (m_vec t') = length (m_vec t)"
proof -
  let ?n = "length (m_vec t)"
  obtain v where "table_map t h = Some v" using h by blast
  then obtain j where j: "j < ?n" "IsValid (m_vec t ! j)" "m_connid (m_vec t ! j) = h"
    unfolding table_map_iff [OF i] by blast
  have ri: "rec_inv ?n j (m_vec t ! j)" and nl: "?n < 2147483648" using i j(1) by (auto simp: table_inv_def)
  then have hm: "h mod int ?n = int j" and ix: "m_idx (m_vec t ! j) = int j" using j(3) by (auto simp: rec_inv_def)
  let ?r = "Detatch (int ?n) (m_vec t ! j)"
  note di = Detatch_inv [OF ri j(1) nl]
  let ?t = "t \<lparr> m_idxvec := m_idxvec t @ [int j], m_vec := (m_vec t)[j := ?r] \<rparr>"
  have "s32 (int ?n) = int ?n" using nl by (intro s32_id) auto
  then have c: "CloseConn n h t = Some ?t"
    using j ix n h unfolding CloseConn_def GetConnectionRecord_eq [OF i] if_not_P [OF h] hm
    by (simp add: arr_simps ReturnIdx_def upd_rec_def)
  have it: "table_inv ?t"
    unfolding table_inv_def
  proof (intro conjI allI impI)
    show "0 < length (m_vec ?t)" "length (m_vec ?t) < 2147483648" using j(1) nl by auto
    show "rec_inv (length (m_vec ?t)) a (m_vec ?t ! a)" if "a < length (m_vec ?t)" for a
      using that i di(1) by (cases "a = j") (auto simp: table_inv_def)
    have nj: "int j \<notin> set (m_idxvec t)" using i j(1,2) by (auto simp: table_inv_def)
    then show "distinct (m_idxvec ?t)" using i by (simp add: table_inv_def)
    have "{a. a < length (m_vec ?t) \<and> \<not> IsValid (m_vec ?t ! a)} = insert j {a. a < ?n \<and> \<not> IsValid (m_vec t ! a)}"
      using j(1) di(2) by (auto simp: nth_list_update)
    then show "set (m_idxvec ?t) = int ` {a. a < length (m_vec ?t) \<and> \<not> IsValid (m_vec ?t ! a)}"
      using i by (simp add: table_inv_def)
  qed
  have "table_map ?t = (table_map t)(h := None)"
    using table_map_upd [OF i it j(1), of ?r] di(2) j(2,3) by simp
  then show ?thesis using c it by auto
qed

lemma RecoredNewConn_full:
  assumes "m_idxvec t = []"
  shows "RecoredNewConn n fd addr t = Some (-1, t)"
  using assms by (simp add: RecoredNewConn_def GetFreeIdx_def GetConnectionRecordByIdx_def CloseConn_def GetConnectionRecord_def)

lemma RecoredNewConn_room:
  assumes i: "table_inv t" and ne: "m_idxvec t \<noteq> []" and fd: "0 < fd"
  shows "\<exists>h t'. RecoredNewConn n fd addr t = Some (h, t') \<and> table_inv t' \<and> 0 \<le> h \<and> h < 2147483648 \<and>
    table_map t h = None \<and> (\<exists>c. table_map t' = (table_map t)(h \<mapsto> (fd, addr, c))) \<and>
    length (m_vec t') = length (m_vec t)"
proof -
  let ?n = "length (m_vec t)"
  have "last (m_idxvec t) \<in> set (m_idxvec t)" using ne by simp
  then obtain j where j: "last (m_idxvec t) = int j" "j < ?n" "\<not> IsValid (m_vec t ! j)"
    using i by (auto simp: table_inv_def)
  have ri: "rec_inv ?n j (m_vec t ! j)" and nl: "?n < 2147483648" using i j(2) by (auto simp: table_inv_def)
  let ?u = "t \<lparr> m_idxvec := butlast (m_idxvec t) \<rparr>"
  let ?r = "Attatch fd addr (m_vec t ! j)"
  let ?t = "?u \<lparr> m_vec := (m_vec t)[j := ?r] \<rparr>"
  let ?h = "m_connid (m_vec t ! j)"
  have cm: "c_mod (int j) (int ?n) = Some (int j)" using j(2) by (subst c_mod_nonneg) auto
  have gi: "GetConnectionRecordByIdx ?u (int j) = Some (Some (int j))"
    using j(2) ri by (simp add: GetConnectionRecordByIdx_def cm arr_simps rec_inv_def)
  have gt: "arr_get ((m_vec t)[j := ?r]) (int j) = Some ?r" using j(2) by (simp add: arr_get_def)
  have c: "RecoredNewConn n fd addr t = Some (?h, ?t)"
    using ne j gi gt
    by (simp add: RecoredNewConn_def GetFreeIdx_def arr_simps upd_rec_def Attatch_def)
  have va: "IsValid ?r" using fd by (simp add: IsValid_def Attatch_def)
  have it: "table_inv ?t"
    unfolding table_inv_def
  proof (intro conjI allI impI)
    show "0 < length (m_vec ?t)" "length (m_vec ?t) < 2147483648" using j(2) nl by auto
    show "rec_inv (length (m_vec ?t)) a (m_vec ?t ! a)" if "a < length (m_vec ?t)" for a
      using that i ri by (cases "a = j") (auto simp: table_inv_def rec_inv_def Attatch_def)
    show "distinct (m_idxvec ?t)" using i by (simp add: table_inv_def distinct_butlast)
    have "set (butlast (m_idxvec t)) = set (m_idxvec t) - {int j}"
    proof -
      have e: "m_idxvec t = butlast (m_idxvec t) @ [int j]" using append_butlast_last_id [OF ne] j(1) by simp
      have "distinct (butlast (m_idxvec t) @ [int j])" using i e unfolding table_inv_def by metis
      then show ?thesis by (subst (2) e) auto
    qed
    moreover have "{a. a < length (m_vec ?t) \<and> \<not> IsValid (m_vec ?t ! a)} = {a. a < ?n \<and> \<not> IsValid (m_vec t ! a)} - {j}"
      using j(2) va by (auto simp: nth_list_update)
    ultimately show "set (m_idxvec ?t) = int ` {a. a < length (m_vec ?t) \<and> \<not> IsValid (m_vec ?t ! a)}"
      using i by (simp add: table_inv_def image_set_diff)
  qed
  have "table_map t ?h = None"
  proof (rule ccontr)
    assume "table_map t ?h \<noteq> None"
    then obtain v where "table_map t ?h = Some v" by blast
    then obtain a where a: "a < ?n" "IsValid (m_vec t ! a)" "m_connid (m_vec t ! a) = ?h"
      unfolding table_map_iff [OF i] by blast
    then have "rec_inv ?n a (m_vec t ! a)" using i by (simp add: table_inv_def)
    then have "a = j" using a(3) ri by (simp add: rec_inv_def)
    then show False using a(2) j(3) by simp
  qed
  moreover have "table_map ?t = (table_map t)(?h \<mapsto> (fd, addr, m_channelid (m_vec t ! j)))"
    using table_map_upd [OF i it j(2), of ?r] va j(3) by (simp add: Attatch_def)
  ultimately show ?thesis using c it ri by (auto simp: rec_inv_def)
qed


lemma table_card:
  assumes i: "table_inv t"
  shows "finite (dom (table_map t))" "card (dom (table_map t)) + length (m_idxvec t) = length (m_vec t)"
proof -
  let ?n = "length (m_vec t)"
  let ?V = "{j. j < ?n \<and> IsValid (m_vec t ! j)}" and ?F = "{j. j < ?n \<and> \<not> IsValid (m_vec t ! j)}"
  have d: "dom (table_map t) = (\<lambda>j. m_connid (m_vec t ! j)) ` ?V"
    by (auto simp: table_map_iff [OF i] dom_def)
  then show "finite (dom (table_map t))" by simp
  have "inj_on (\<lambda>j. m_connid (m_vec t ! j)) ?V"
  proof (rule inj_onI)
    fix a b assume ab: "a \<in> ?V" "b \<in> ?V" "m_connid (m_vec t ! a) = m_connid (m_vec t ! b)"
    then have "rec_inv ?n a (m_vec t ! a)" "rec_inv ?n b (m_vec t ! b)" using i by (auto simp: table_inv_def)
    then show "a = b" using ab(3) by (simp add: rec_inv_def)
  qed
  then have "card (dom (table_map t)) = card ?V" unfolding d by (rule card_image)
  moreover have "length (m_idxvec t) = card ?F"
    using i distinct_card [of "m_idxvec t"] by (simp add: table_inv_def card_image inj_on_def)
  moreover have "card ?V + card ?F = card (?V \<union> ?F)" by (rule card_Un_disjoint [symmetric]) auto
  moreover have "?V \<union> ?F = {..<?n}" by auto
  ultimately show "card (dom (table_map t)) + length (m_idxvec t) = ?n" by simp
qed

text \<open>
  \<open>_CloseConn\<close> returns nothing; a caller that wants to know looks the record up first, as
  \<open>CloseConnid\<close> does.
\<close>

definition release_conn :: "ConnTable \<Rightarrow> int \<Rightarrow> (int \<times> ConnTable) fault" where
  "release_conn t connid = do {
     r \<leftarrow> GetConnectionRecord t connid;
     t' \<leftarrow> CloseConn (int (length (m_vec t))) connid t;
     Some (if r = None then -1 else 0, t')
   }"

interpretation conn_ht: handle_table table_inv table_map table_capacity
  "\<lambda>t. RecoredNewConn (int (length (m_vec t))) (1 + int d) addr t" release_conn for d addr
proof unfold_locales
  fix t h
  assume i: "table_inv t"
  note c = table_card [OF i]
  show "finite (dom (table_map t)) \<and> card (dom (table_map t)) \<le> table_capacity t"
    using c by (simp add: table_capacity_def)
  show "\<exists>h t' v. RecoredNewConn (int (length (m_vec t))) (1 + int d) addr t = Some (h, t') \<and> table_inv t' \<and>
      0 \<le> h \<and> table_map t h = None \<and> table_map t' = (table_map t)(h \<mapsto> v) \<and> table_capacity t' = table_capacity t"
    if "card (dom (table_map t)) < table_capacity t"
  proof -
    have "m_idxvec t \<noteq> []" using that c(2) by (auto simp: table_capacity_def)
    from RecoredNewConn_room [OF i this, of "1 + int d" "int (length (m_vec t))" addr] show ?thesis
      by (fastforce simp: table_capacity_def)
  qed
  show "\<exists>e < 0. RecoredNewConn (int (length (m_vec t))) (1 + int d) addr t = Some (e, t)"
    if "card (dom (table_map t)) = table_capacity t"
  proof -
    have "m_idxvec t = []" using that c(2) by (simp add: table_capacity_def)
    then show ?thesis by (simp add: RecoredNewConn_full)
  qed
  show "\<exists>t'. release_conn t h = Some (0, t') \<and> table_inv t' \<and> table_map t' = (table_map t)(h := None) \<and>
      table_capacity t' = table_capacity t" if "h \<in> dom (table_map t)"
  proof -
    have h: "table_map t h \<noteq> None" using that by blast
    from CloseConn_live [OF i h refl] h show ?thesis
      by (auto simp: release_conn_def GetConnectionRecord_eq [OF i] table_capacity_def)
  qed
  show "\<exists>e < 0. release_conn t h = Some (e, t)" if "h \<notin> dom (table_map t)"
  proof -
    have "table_map t h = None" using that by blast
    then show ?thesis using CloseConn_dead [OF i] by (simp add: release_conn_def GetConnectionRecord_eq [OF i])
  qed
qed

lemma ConnTable_new_inv:
  assumes "0 < n" and "n < 2147483648"
  shows "table_inv (ConnTable_new n g)" "table_map (ConnTable_new n g) = Map.empty"
proof -
  let ?t = "ConnTable_new n g"
  have s: "s32 (int i) = int i" if "i < n" for i using that assms(2) by (intro s32_id) auto
  have v: "\<not> IsValid (m_vec ?t ! i)" if "i < n" for i
    using that by (simp add: ConnTable_new_def ConnectionRecord_new_def UpdateConnid_def IsValid_def Let_def)
  have ix: "m_idxvec ?t = map int [0..<n]" using s by (simp add: ConnTable_new_def)
  show i: "table_inv ?t"
    unfolding table_inv_def
  proof (intro conjI allI impI)
    show "0 < length (m_vec ?t)" "length (m_vec ?t) < 2147483648" using assms by (simp_all add: ConnTable_new_def)
    show "rec_inv (length (m_vec ?t)) i (m_vec ?t ! i)" if "i < length (m_vec ?t)" for i
      using that s assms(2) by (simp add: ConnTable_new_def rec_inv_def)
    show "distinct (m_idxvec ?t)" unfolding ix by (simp add: distinct_map inj_on_def)
    have "{a. a < length (m_vec ?t) \<and> \<not> IsValid (m_vec ?t ! a)} = {0..<n}"
      using v by (auto simp: ConnTable_new_def)
    then show "set (m_idxvec ?t) = int ` {a. a < length (m_vec ?t) \<and> \<not> IsValid (m_vec ?t ! a)}"
      unfolding ix by simp
  qed
  have "length (m_idxvec ?t) = length (m_vec ?t)" by (simp add: ConnTable_new_def)
  then have "card (dom (table_map ?t)) = 0" using table_card(2) [OF i] by simp
  then show "table_map ?t = Map.empty" using table_card(1) [OF i] by simp
qed

section \<open>Properties\<close>

datatype conn_op = COpen nat sockaddr_in | CShut int

fun conn_run :: "ConnTable \<Rightarrow> conn_op list \<Rightarrow> ConnTable fault" where
  "conn_run t [] = Some t"
| "conn_run t (COpen d addr # xs) = do {
     (_, t) \<leftarrow> RecoredNewConn (int (length (m_vec t))) (1 + int d) addr t;
     conn_run t xs
   }"
| "conn_run t (CShut h # xs) = do { (_, t) \<leftarrow> release_conn t h; conn_run t xs }"

text \<open>
  C18. The connection table is a bounded map from connection ids to connections: from a new
  table, over any sequence of new connections on positive descriptors and closes of any ids, no
  step faults, a new connection gets an id that no open connection has, refers to its own
  descriptor and address and changes no other connection, is refused with \<open>-1\<close> and no change
  exactly when the table is full, and closing an unknown or stale id changes nothing. The id
  counter wraps around without ever producing the id of another record.
\<close>

theorem connection_table_safe:
  assumes "0 < n" and "n < 2147483648"
  shows "\<exists>t. conn_run (ConnTable_new n g) ops = Some t \<and> table_inv t \<and> table_capacity t = n \<and>
    (\<exists>h t'. RecoredNewConn (int n) (1 + int d) addr t = Some (h, t') \<and> table_inv t' \<and>
       (if card (dom (table_map t)) = n then h = -1 \<and> t' = t
        else table_map t h = None \<and> (\<exists>c. table_map t' = (table_map t)(h \<mapsto> (1 + int d, addr, c))))) \<and>
    (\<forall>h. table_map t h = None \<longrightarrow> CloseConn (int n) h t = Some t)"
proof -
  have run: "\<exists>t'. conn_run t ops = Some t' \<and> table_inv t' \<and> table_capacity t' = table_capacity t" if "table_inv t" for t
    using that
  proof (induction t ops rule: conn_run.induct)
    case (2 t d addr xs)
    from conn_ht.alloc_total [OF "2.prems", of d addr] obtain h t1 where
      "RecoredNewConn (int (length (m_vec t))) (1 + int d) addr t = Some (h, t1)" "table_inv t1"
      "table_capacity t1 = table_capacity t" by blast
    then show ?case using "2.IH" by auto
  next
    case (3 t h xs)
    from conn_ht.release_total [OF "3.prems", of h] obtain e t1 where
      "release_conn t h = Some (e, t1)" "table_inv t1" "table_capacity t1 = table_capacity t" by blast
    then show ?case using "3.IH" by auto
  qed simp
  have "table_capacity (ConnTable_new n g) = n" by (simp add: table_capacity_def ConnTable_new_def)
  then obtain t where t: "conn_run (ConnTable_new n g) ops = Some t" "table_inv t" "table_capacity t = n"
    using run [OF ConnTable_new_inv(1) [OF assms]] by metis
  have ln: "length (m_vec t) = n" using t(3) by (simp add: table_capacity_def)
  note c = table_card [OF t(2)]
  have "\<exists>h t'. RecoredNewConn (int n) (1 + int d) addr t = Some (h, t') \<and> table_inv t' \<and>
       (if card (dom (table_map t)) = n then h = -1 \<and> t' = t
        else table_map t h = None \<and> (\<exists>c. table_map t' = (table_map t)(h \<mapsto> (1 + int d, addr, c))))"
  proof (cases "m_idxvec t = []")
    case True
    then show ?thesis using c(2) ln t(2) RecoredNewConn_full [OF True] by simp
  next
    case False
    then have "0 < length (m_idxvec t)" by simp
    then have "card (dom (table_map t)) \<noteq> n" using c(2) ln by linarith
    moreover from RecoredNewConn_room [OF t(2) False, of "1 + int d" "int n" addr] obtain h t' cc where
      "RecoredNewConn (int n) (1 + int d) addr t = Some (h, t')" "table_inv t'" "table_map t h = None"
      "table_map t' = (table_map t)(h \<mapsto> (1 + int d, addr, cc))" by auto
    ultimately show ?thesis by auto
  qed
  then show ?thesis using t CloseConn_dead [OF t(2)] by blast
qed

theorem connection_table_safe_witness:
  "\<exists>t. conn_run (ConnTable_new 2 \<lparr> m_idx = 0, m_connid = 0, rec_iFD = 0, m_channelid = 0, m_addr = bzero_addr,
     m_LastActiveTime = 0 \<rparr>) [COpen 4 bzero_addr, CShut 1, CShut 1, COpen 5 bzero_addr] = Some t \<and> table_inv t"
proof -
  have "0 < (2 :: nat)" "(2 :: nat) < 2147483648" by simp_all
  from connection_table_safe [OF this, of _ _ 3 bzero_addr] show ?thesis by blast
qed

end
