(* ===== verification/TcpClient.thy ===== *)
theory TcpClient
  imports TcpChannel
begin

text \<open>
  The reconnecting client of \<^verbatim>\<open>src/util/net/tcp_client.{h,cpp}\<close>: a channel with a
  connection state. The base class hands received messages to nobody (\<open>OnRecvMsg\<close> only logs).
\<close>

datatype States = kDisconnected | kConnecting | kConnected

record TcpClient = TcpChannel +
  m_state :: States
  m_isAutoReconnect :: bool
  m_PeerAddr :: sockaddr_in

definition connect_pending :: "int set" where
  "connect_pending = {0, 115, 4, 106}"

definition connect_retry :: "int set" where
  "connect_retry = {11, 98, 99, 111, 101}"

text \<open>
  The two groups of error numbers of \<open>Connect\<close>: \<open>0\<close>, \<open>EINPROGRESS\<close>, \<open>EINTR\<close>, \<open>EISCONN\<close>, and
  \<open>EAGAIN\<close>, \<open>EADDRINUSE\<close>, \<open>EADDRNOTAVAIL\<close>, \<open>ECONNREFUSED\<close>, \<open>ENETUNREACH\<close>. Every other number
  closes the socket.
\<close>

definition TcpClient_new ::
  "'k sys \<Rightarrow> sockaddr_in \<Rightarrow> 'k \<Rightarrow> TcpClient \<times> 'k" where
  "TcpClient_new sy serveraddr k =
     (let c = TcpChannel.extend TcpChannel_new
                \<lparr> m_state = kDisconnected, m_isAutoReconnect = True, m_PeerAddr = serveraddr \<rparr>;
          (_, c, k) = CreateNoBlock sy c k
      in (c, k))"

definition DoClose ::
  "'k sys \<Rightarrow> EPollPoller \<Rightarrow> 'a TcpClient_scheme \<Rightarrow> 'k \<Rightarrow> 'a TcpClient_scheme \<times> 'k" where
  "DoClose sy ep c k = (let (_, c, k) = Close sy ep c k in (c \<lparr> m_state := kDisconnected \<rparr>, k))"

definition Connect ::
  "'k sys \<Rightarrow> EPollPoller \<Rightarrow> 'a TcpClient_scheme \<Rightarrow> 'k \<Rightarrow> int \<times> 'a TcpClient_scheme \<times> 'k" where
  "Connect sy ep c k =
     (if m_state c \<noteq> kDisconnected then (1, c, k)
      else
        let c = c \<lparr> m_isAutoReconnect := True \<rparr>;
            (c, k) = DisableAll sy ep c k;
            (ret, c, k) = CreateNoBlock sy c k
        in if ret < 0 then (-1, c, k)
           else
             let (ret, err, k) = sys_connect sy (m_iFD c) (m_PeerAddr c) k;
                 savedErrno = (if ret = 0 then 0 else err)
             in if savedErrno \<in> connect_pending
                then (let c = c \<lparr> m_state := kConnecting \<rparr>; (c, k) = EnableWriting sy ep c k in (0, c, k))
                else if savedErrno \<in> connect_retry
                then (0, c \<lparr> m_state := kDisconnected \<rparr>, k)
                else (let (c, k) = DoClose sy ep c k in (-1, c, k)))"

definition Disconnect ::
  "'k sys \<Rightarrow> EPollPoller \<Rightarrow> 'a TcpClient_scheme \<Rightarrow> 'k \<Rightarrow> int \<times> 'a TcpClient_scheme \<times> 'k" where
  "Disconnect sy ep c k = (let (c, k) = DoClose sy ep (c \<lparr> m_isAutoReconnect := False \<rparr>) k in (0, c, k))"

definition Client_HandleError :: "'a TcpClient_scheme \<Rightarrow> int \<times> 'a TcpClient_scheme" where
  "Client_HandleError c = (0, c)"

definition Client_OnRecvMsg :: "'a TcpClient_scheme \<Rightarrow> int \<times> 'a TcpClient_scheme" where
  "Client_OnRecvMsg c = (0, c)"

definition Client_HandleClose ::
  "'k sys \<Rightarrow> EPollPoller \<Rightarrow> 'a TcpClient_scheme \<Rightarrow> 'k \<Rightarrow> int \<times> 'a TcpClient_scheme \<times> 'k" where
  "Client_HandleClose sy ep c k =
     (let k = (if m_state c = kConnecting then snd (GetSocketError sy c k) else k);
          (c, k) = (if m_state c \<noteq> kDisconnected then DoClose sy ep c k else (c, k));
          c = c \<lparr> m_SendBuf := snd (Retrieve (m_SendBuf c) (ReadableBytes (m_SendBuf c))) \<rparr>;
          c = c \<lparr> m_RecvBuf := snd (Retrieve (m_RecvBuf c) (ReadableBytes (m_RecvBuf c))) \<rparr>
      in (0, c, k))"

definition Client_HandleCanRecv ::
  "'k sys \<Rightarrow> EPollPoller \<Rightarrow> 'a TcpClient_scheme \<Rightarrow> 'k \<Rightarrow> (int \<times> 'a TcpClient_scheme \<times> 'k) fault" where
  "Client_HandleCanRecv sy ep c k = do {
     (n, next, c, k) \<leftarrow> DoRecv sy c k;
     (case next of
        RecvClose \<Rightarrow> (let (_, c, k) = Client_HandleClose sy ep c k in Some (n, c, k))
      | RecvError \<Rightarrow> Some (n, snd (Client_HandleError c), k)
      | RecvMsg \<Rightarrow> Some (n, snd (Client_OnRecvMsg c), k))
   }"

definition Client_Connected ::
  "'k sys \<Rightarrow> EPollPoller \<Rightarrow> 'a TcpClient_scheme \<Rightarrow> 'k \<Rightarrow> (int \<times> 'a TcpClient_scheme \<times> 'k) fault" where
  "Client_Connected sy ep c k =
     (let (err, k) = GetSocketError sy c k
      in if err \<noteq> 0 then (let (c, k) = DoClose sy ep c k in Some (-1, c, k))
         else
           let c = c \<lparr> m_state := kConnected \<rparr>;
               (c, k) = EnableReading sy ep c k
           in if ReadableBytes (m_SendBuf c) > 0
              then (let (c, k) = EnableWriting sy ep c k in DoContineSend sy ep c k)
              else (let (c, k) = DisableWriting sy ep c k in Some (0, c, k)))"

definition Client_HandleCanSend ::
  "'k sys \<Rightarrow> EPollPoller \<Rightarrow> 'a TcpClient_scheme \<Rightarrow> 'k \<Rightarrow> (int \<times> 'a TcpClient_scheme \<times> 'k) fault" where
  "Client_HandleCanSend sy ep c k =
     (case m_state c of
        kConnecting \<Rightarrow> Client_Connected sy ep c k
      | kConnected \<Rightarrow> DoContineSend sy ep c k
      | kDisconnected \<Rightarrow> Some (-1, c, k))"

definition Client_SendMsg ::
  "'k sys \<Rightarrow> EPollPoller \<Rightarrow> 'a TcpClient_scheme \<Rightarrow> byte list \<Rightarrow> 'k \<Rightarrow> (int \<times> 'a TcpClient_scheme \<times> 'k) fault" where
  "Client_SendMsg sy ep c xs k =
     (case m_state c of
        kConnected \<Rightarrow> DoSend sy ep c xs k
      | kDisconnected \<Rightarrow>
          if m_isAutoReconnect c
          then do {
            (_, c) \<leftarrow> AppendSendBuf c xs;
            Some (Connect sy ep c k)
          }
          else Some (-1, c, k)
      | kConnecting \<Rightarrow> do {
          (_, c) \<leftarrow> AppendSendBuf c xs;
          Some (0, c, k)
        })"

section \<open>The state machine\<close>

datatype client_ev = EvConnect | EvDisconnect | EvSend "byte list" | EvCanSend | EvCanRecv | EvHup

fun client_handle ::
  "'k sys \<Rightarrow> EPollPoller \<Rightarrow> client_ev \<Rightarrow> TcpClient \<Rightarrow> 'k \<Rightarrow> (int \<times> TcpClient \<times> 'k) fault" where
  "client_handle sy ep EvConnect c k = Some (Connect sy ep c k)"
| "client_handle sy ep EvDisconnect c k = Some (Disconnect sy ep c k)"
| "client_handle sy ep (EvSend xs) c k = Client_SendMsg sy ep c xs k"
| "client_handle sy ep EvCanSend c k = Client_HandleCanSend sy ep c k"
| "client_handle sy ep EvCanRecv c k = Client_HandleCanRecv sy ep c k"
| "client_handle sy ep EvHup c k = Some (Client_HandleClose sy ep c k)"

fun ev_ok :: "client_ev \<Rightarrow> bool" where
  "ev_ok (EvSend xs) \<longleftrightarrow> int (length xs) < 2147483648"
| "ev_ok _ \<longleftrightarrow> True"

inductive client_reach :: "'k sys \<Rightarrow> EPollPoller \<Rightarrow> TcpClient \<times> 'k \<Rightarrow> TcpClient \<times> 'k \<Rightarrow> bool"
  for sy :: "'k sys" and ep :: EPollPoller and start :: "TcpClient \<times> 'k" where
  start: "client_reach sy ep start start"
| step: "client_reach sy ep start (c, k) \<Longrightarrow> ev_ok ev \<Longrightarrow> client_handle sy ep ev c k = Some (r, c', k') \<Longrightarrow>
     client_reach sy ep start (c', k')"

text \<open>
  What the states mean: a connecting client waits for the writable event, a connected one
  does so whenever it has bytes to send and always reads, a disconnected one waits for nothing.
\<close>

definition client_ok :: "'a TcpClient_scheme \<Rightarrow> bool" where
  "client_ok c \<longleftrightarrow> chan_inv c \<and>
     (case m_state c of
        kDisconnected \<Rightarrow> m_iEvents c = kNoneEvent
      | kConnecting \<Rightarrow> IsWriting c
      | kConnected \<Rightarrow> (pending c \<noteq> [] \<longrightarrow> IsWriting c) \<and> m_iEvents c AND kReadEvent = kReadEvent)"

lemma event_values: "kNoneEvent = 0" "kReadEvent = 3" "kWriteEvent = 4"
  by (simp_all add: kNoneEvent_def kReadEvent_def kWriteEvent_def epoll_consts)

lemma mask_reading:
  "(e OR kReadEvent) AND kReadEvent = kReadEvent"
  "(e OR kWriteEvent) AND kReadEvent = e AND kReadEvent"
  "(e AND NOT kWriteEvent) AND kReadEvent = e AND kReadEvent"
proof -
  show "(e OR kReadEvent) AND kReadEvent = kReadEvent" by (simp add: bit_eq_iff bit_simps) blast
  show "(e OR kWriteEvent) AND kReadEvent = e AND kReadEvent"
    by (simp add: event_values bit.conj_disj_distrib2)
  have "NOT 4 AND 3 = (3 :: int)" by simp
  then show "(e AND NOT kWriteEvent) AND kReadEvent = e AND kReadEvent"
    by (simp only: event_values and.assoc)
qed

lemma mask_shapes:
  "\<exists>p. fst (EnableReading sy ep s k) = s \<lparr> m_iEvents := m_iEvents s OR kReadEvent, m_isPooling := p \<rparr>"
  "\<exists>p. fst (EnableWriting sy ep s k) = s \<lparr> m_iEvents := m_iEvents s OR kWriteEvent, m_isPooling := p \<rparr>"
  "\<exists>p. fst (DisableWriting sy ep s k) = s \<lparr> m_iEvents := m_iEvents s AND NOT kWriteEvent, m_isPooling := p \<rparr>"
  "\<exists>p. fst (DisableAll sy ep s k) = s \<lparr> m_iEvents := kNoneEvent, m_isPooling := p \<rparr>"
  unfolding EnableReading_def EnableWriting_def DisableWriting_def DisableAll_def
  by (rule UpdateEvent_pooling)+

lemma DoClose_shape: "\<exists>p. fst (DoClose sy ep c k) = c \<lparr> m_iEvents := kNoneEvent, m_isPooling := p, m_state := kDisconnected \<rparr>"
proof -
  obtain p where "fst (DisableAll sy ep c k) = c \<lparr> m_iEvents := kNoneEvent, m_isPooling := p \<rparr>"
    using mask_shapes(4) [of sy ep c k] by blast
  then show ?thesis by (intro exI [of _ p]) (simp add: DoClose_def Close_def split_beta)
qed

lemma DoClose_ok: "chan_inv c \<Longrightarrow> client_ok (fst (DoClose sy ep c k))"
  using DoClose_shape [of sy ep c k] by (auto simp: client_ok_def chan_inv_def)

lemma client_ok_chan: "client_ok c \<Longrightarrow> chan_inv c"
  by (simp add: client_ok_def)

lemma CreateNoBlock_shape: "\<exists>fd. fst (snd (CreateNoBlock sy s k)) = s \<lparr> m_iFD := fd \<rparr>"
proof -
  let ?s = "fst (snd (CreateNoBlock sy s k))"
  have "?s = s \<or> ?s = s \<lparr> m_iFD := fst (sys_socket sy k) \<rparr>" by (simp add: CreateNoBlock_def split_beta)
  moreover have "s = s \<lparr> m_iFD := m_iFD s \<rparr>" by simp
  ultimately show ?thesis by metis
qed

lemma Connect_ok:
  assumes "client_ok c"
  shows "client_ok (fst (snd (Connect sy ep c k)))"
proof (cases "m_state c = kDisconnected")
  case True
  let ?c0 = "c \<lparr> m_isAutoReconnect := True \<rparr>"
  obtain c1 k1 where d: "DisableAll sy ep ?c0 k = (c1, k1)" by fastforce
  obtain p where c1: "c1 = ?c0 \<lparr> m_iEvents := kNoneEvent, m_isPooling := p \<rparr>"
    using mask_shapes(4) [of sy ep ?c0 k] d by auto
  obtain ret c2 k2 where n: "CreateNoBlock sy c1 k1 = (ret, c2, k2)" by (metis prod_cases3)
  obtain fd where c2: "c2 = c1 \<lparr> m_iFD := fd \<rparr>" using CreateNoBlock_shape [of sy c1 k1] n by auto
  have ok: "chan_inv c2" "m_state c2 = kDisconnected" "m_iEvents c2 = kNoneEvent"
    using client_ok_chan [OF assms] True unfolding c2 c1 by (auto simp: chan_inv_def)
  have ok2: "client_ok c2" using ok by (simp add: client_ok_def)
  obtain r err k3 where cn: "sys_connect sy (m_iFD c2) (m_PeerAddr c2) k2 = (r, err, k3)" by (metis prod_cases3)
  let ?cc = "c2 \<lparr> m_state := kConnecting \<rparr>"
  obtain c3 k4 where e: "EnableWriting sy ep ?cc k3 = (c3, k4)" by fastforce
  obtain q where c3: "c3 = ?cc \<lparr> m_iEvents := m_iEvents ?cc OR kWriteEvent, m_isPooling := q \<rparr>"
    using mask_shapes(2) [of sy ep ?cc k3] e by auto
  have ok3: "client_ok c3"
    using ok(1) writing_mask [where s = ?cc and p = q] unfolding c3 by (simp add: client_ok_def chan_inv_def)
  have ok4: "client_ok (c2 \<lparr> m_state := kDisconnected \<rparr>)" using ok by (simp add: client_ok_def chan_inv_def)
  show ?thesis
    using True d n cn e ok2 ok3 ok4 DoClose_ok [OF ok(1), of sy ep k3]
    by (simp add: Connect_def Let_def split_beta)
next
  case False
  then show ?thesis using assms by (simp add: Connect_def)
qed

lemma Disconnect_ok: "client_ok c \<Longrightarrow> client_ok (fst (snd (Disconnect sy ep c k)))"
  using DoClose_ok [of "c \<lparr> m_isAutoReconnect := False \<rparr>" sy ep k]
  by (simp add: Disconnect_def split_beta client_ok_def chan_inv_def)

lemma HandleClose_ok:
  assumes "client_ok c"
  shows "client_ok (fst (snd (Client_HandleClose sy ep c k)))"
    and "pending (fst (snd (Client_HandleClose sy ep c k))) = []"
    and "m_state (fst (snd (Client_HandleClose sy ep c k))) = kDisconnected"
proof -
  let ?k = "if m_state c = kConnecting then snd (GetSocketError sy c k) else k"
  obtain c1 k1 where d: "(if m_state c \<noteq> kDisconnected then DoClose sy ep c ?k else (c, ?k)) = (c1, k1)" by fastforce
  have c1: "client_ok c1" "m_state c1 = kDisconnected"
    using d assms DoClose_ok [OF client_ok_chan [OF assms], of sy ep ?k] DoClose_shape [of sy ep c ?k]
    by (auto split: if_splits)
  have b: "buf_inv (m_SendBuf c1)" "buf_inv (m_RecvBuf c1)"
    using client_ok_chan [OF c1(1)] by (auto simp: chan_inv_def)
  let ?c = "c1 \<lparr> m_SendBuf := snd (Retrieve (m_SendBuf c1) (ReadableBytes (m_SendBuf c1))),
    m_RecvBuf := snd (Retrieve (m_RecvBuf c1) (ReadableBytes (m_RecvBuf c1))) \<rparr>"
  have e: "Client_HandleClose sy ep c k = (0, ?c, k1)"
    unfolding Client_HandleClose_def Let_def d by simp
  have bb: "buf_inv (snd (Retrieve (m_SendBuf c1) (ReadableBytes (m_SendBuf c1))))"
    "readable (snd (Retrieve (m_SendBuf c1) (ReadableBytes (m_SendBuf c1)))) = []"
    "buf_inv (snd (Retrieve (m_RecvBuf c1) (ReadableBytes (m_RecvBuf c1))))"
    using Retrieve_all [OF b(1)] Retrieve_all [OF b(2)] by auto
  show "client_ok (fst (snd (Client_HandleClose sy ep c k)))"
    using bb c1 unfolding e by (simp add: client_ok_def chan_inv_def)
  show "pending (fst (snd (Client_HandleClose sy ep c k))) = []"
    "m_state (fst (snd (Client_HandleClose sy ep c k))) = kDisconnected"
    using bb c1 unfolding e by (simp_all add: pending_def)
qed

lemma HandleCanRecv_ok:
  assumes sp: "readv_spec sy" and lim: "\<And>fd space k. fst (sys_readv sy fd space k) < 2147483648"
    and ok: "client_ok c"
  shows "\<exists>r c' k'. Client_HandleCanRecv sy ep c k = Some (r, c', k') \<and> client_ok c'"
proof -
  have ci: "chan_inv c" by (rule client_ok_chan [OF ok])
  let ?b = "if ReadableBytes (m_RecvBuf c) > k_MaxRecvBufSize
    then snd (Retrieve (m_RecvBuf c) (ReadableBytes (m_RecvBuf c))) else m_RecvBuf c"
  define space where "space = (let w = WritableBytes ?b in if w < 65536 then w + 65536 else w)"
  obtain r xs k1 where rv: "sys_readv sy (m_iFD c) space k = (r, xs, k1)" by (metis prod_cases3)
  have "r < 2147483648" using lim [of "m_iFD c" space k] rv by simp
  from DoRecv_stream [OF sp ci rv space_def this] obtain c1 b where
    d: "DoRecv sy c k = Some (if r < 0 then -1 else r,
        if r < 0 then RecvError else if r = 0 then RecvClose else RecvMsg, c1, k1)" "chan_inv c1"
      "pending c1 = pending c" "c1 = c \<lparr> m_RecvBuf := b \<rparr>" by blast
  have ok1: "client_ok c1"
    using ok d(2,3) unfolding client_ok_def by (cases "m_state c") (auto simp: d(4) IsWriting_def)
  obtain z c2 k2 where h: "Client_HandleClose sy ep c1 k1 = (z, c2, k2)" by (metis prod_cases3)
  show ?thesis using d(1) ok1 h HandleClose_ok(1) [OF ok1, of sy ep k1]
    by (auto simp: Client_HandleCanRecv_def Client_HandleError_def Client_OnRecvMsg_def)
qed


lemma connected_send_inv: "client_ok c \<Longrightarrow> m_state c = kConnected \<Longrightarrow> send_inv c"
  by (simp add: client_ok_def send_inv_def)

text \<open>A step of the send side on a connected client.\<close>

lemma connected_frame:
  assumes "send_inv c'" and "send_frame c c'" and "m_state c = kConnected"
    and "m_iEvents c' = m_iEvents c \<or> m_iEvents c' = m_iEvents c OR kWriteEvent \<or>
      m_iEvents c' = m_iEvents c AND NOT kWriteEvent"
    and "m_iEvents c AND kReadEvent = kReadEvent"
  shows "client_ok c'"
proof -
  have "m_state c' = kConnected" using assms(2,3) by (auto simp: send_frame_def)
  moreover have "m_iEvents c' AND kReadEvent = kReadEvent" using assms(4,5) mask_reading(2,3) by metis
  ultimately show ?thesis using assms(1) by (simp add: client_ok_def send_inv_def)
qed

lemma HandleCanSend_ok:
  assumes sp: "write_spec sy wire ready" and ok: "client_ok c"
  shows "\<exists>r c' k'. Client_HandleCanSend sy ep c k = Some (r, c', k') \<and> client_ok c'"
proof (cases "m_state c")
  case kDisconnected
  then show ?thesis using ok by (simp add: Client_HandleCanSend_def)
next
  case kConnected
  then have rd: "m_iEvents c AND kReadEvent = kReadEvent" using ok by (simp add: client_ok_def)
  from DoContineSend_stream [OF sp connected_send_inv [OF ok kConnected], of ep k] obtain c' k' where
    "DoContineSend sy ep c k = Some (0, c', k')" "send_inv c'" "send_frame c c'"
    "m_iEvents c' = m_iEvents c \<or> m_iEvents c' = m_iEvents c AND NOT kWriteEvent" by blast
  then show ?thesis using connected_frame [OF _ _ kConnected _ rd] kConnected
    by (auto simp: Client_HandleCanSend_def)
next
  case kConnecting
  obtain err k1 where g: "GetSocketError sy c k = (err, k1)" by fastforce
  have ci: "chan_inv c" by (rule client_ok_chan [OF ok])
  show ?thesis
  proof (cases "err = 0")
    case False
    obtain c' k' where "DoClose sy ep c k1 = (c', k')" by fastforce
    then show ?thesis using False kConnecting g DoClose_ok [OF ci, of sy ep k1]
      by (simp add: Client_HandleCanSend_def Client_Connected_def)
  next
    case True
    let ?c = "c \<lparr> m_state := kConnected \<rparr>"
    obtain c1 k2 where e1: "EnableReading sy ep ?c k1 = (c1, k2)" by fastforce
    obtain p where c1: "c1 = ?c \<lparr> m_iEvents := m_iEvents ?c OR kReadEvent, m_isPooling := p \<rparr>"
      using mask_shapes(1) [of sy ep ?c k1] e1 by auto
    have i1: "chan_inv c1" "m_state c1 = kConnected" "m_iEvents c1 AND kReadEvent = kReadEvent"
      using ci mask_reading(1) unfolding c1 by (auto simp: chan_inv_def)
    have bi: "buf_inv (m_SendBuf c1)" using i1(1) by (simp add: chan_inv_def)
    note cnt = buf_inv_counts(3) [OF bi]
    show ?thesis
    proof (cases "ReadableBytes (m_SendBuf c1) > 0")
      case pos: True
      obtain c2 k3 where e2: "EnableWriting sy ep c1 k2 = (c2, k3)" by fastforce
      obtain q where c2: "c2 = c1 \<lparr> m_iEvents := m_iEvents c1 OR kWriteEvent, m_isPooling := q \<rparr>"
        using mask_shapes(2) [of sy ep c1 k2] e2 by auto
      have ok2: "send_inv c2" "m_state c2 = kConnected" "m_iEvents c2 AND kReadEvent = kReadEvent"
        using i1 writing_mask [where s = c1 and p = q] mask_reading(2) unfolding c2
        by (auto simp: send_inv_def chan_inv_def)
      from DoContineSend_stream [OF sp ok2(1), of ep k3] obtain c' k' where
        "DoContineSend sy ep c2 k3 = Some (0, c', k')" "send_inv c'" "send_frame c2 c'"
        "m_iEvents c' = m_iEvents c2 \<or> m_iEvents c' = m_iEvents c2 AND NOT kWriteEvent" by blast
      then show ?thesis using connected_frame [OF _ _ ok2(2) _ ok2(3)] kConnecting g True e1 e2 pos
        by (auto simp: Client_HandleCanSend_def Client_Connected_def)
    next
      case False
      obtain c2 k3 where e2: "DisableWriting sy ep c1 k2 = (c2, k3)" by fastforce
      obtain q where c2: "c2 = c1 \<lparr> m_iEvents := m_iEvents c1 AND NOT kWriteEvent, m_isPooling := q \<rparr>"
        using mask_shapes(3) [of sy ep c1 k2] e2 by auto
      have "length (readable (m_SendBuf c1)) = 0" using False cnt by linarith
      then have "pending c1 = []" by (simp add: pending_def)
      then have "client_ok c2" using i1 mask_reading(3) unfolding c2 by (simp add: client_ok_def chan_inv_def pending_def)
      then show ?thesis using kConnecting g True e1 e2 False
        by (simp add: Client_HandleCanSend_def Client_Connected_def)
    qed
  qed
qed

lemma SendMsg_ok:
  assumes sp: "write_spec sy wire ready" and ok: "client_ok c" and l: "int (length xs) < 2147483648"
  shows "\<exists>r c' k'. Client_SendMsg sy ep c xs k = Some (r, c', k') \<and> client_ok c'"
proof -
  have ci: "chan_inv c" by (rule client_ok_chan [OF ok])
  from AppendSendBuf_ok [OF ci l] obtain b where
    a: "AppendSendBuf c xs = Some (0, c \<lparr> m_SendBuf := b \<rparr>)" "buf_inv b" by blast
  let ?c = "c \<lparr> m_SendBuf := b \<rparr>"
  have okb: "client_ok ?c" if "m_state c \<noteq> kConnected"
    using that ok a(2) by (cases "m_state c") (auto simp: client_ok_def chan_inv_def IsWriting_def)
  show ?thesis
  proof (cases "m_state c")
    case kDisconnected
    obtain r c' k' where "Connect sy ep ?c k = (r, c', k')" by (metis prod_cases3)
    then show ?thesis using kDisconnected a(1) ok Connect_ok [OF okb, of sy ep k]
      by (auto simp: Client_SendMsg_def)
  next
    case kConnecting
    then show ?thesis using a(1) okb by (simp add: Client_SendMsg_def)
  next
    case kConnected
    then have rd: "m_iEvents c AND kReadEvent = kReadEvent" using ok by (simp add: client_ok_def)
    from DoSend_stream [OF sp connected_send_inv [OF ok kConnected] l, of ep k] obtain r c' k' where
      "DoSend sy ep c xs k = Some (r, c', k')" "send_inv c'" "send_frame c c'"
      "m_iEvents c' = m_iEvents c \<or> m_iEvents c' = m_iEvents c OR kWriteEvent" by blast
    then show ?thesis using connected_frame [OF _ _ kConnected _ rd] kConnected
      by (auto simp: Client_SendMsg_def)
  qed
qed

lemma client_handle_ok:
  assumes "write_spec sy wire ready" and "readv_spec sy"
    and "\<And>fd space k. fst (sys_readv sy fd space k) < 2147483648"
    and "client_ok c" and "ev_ok ev"
  shows "\<exists>r c' k'. client_handle sy ep ev c k = Some (r, c', k') \<and> client_ok c'"
proof (cases ev)
  case EvConnect
  obtain r c' k' where "Connect sy ep c k = (r, c', k')" by (metis prod_cases3)
  then show ?thesis using EvConnect Connect_ok [OF assms(4), of sy ep k] by simp
next
  case EvDisconnect
  obtain r c' k' where "Disconnect sy ep c k = (r, c', k')" by (metis prod_cases3)
  then show ?thesis using EvDisconnect Disconnect_ok [OF assms(4), of sy ep k] by simp
next
  case EvHup
  obtain r c' k' where "Client_HandleClose sy ep c k = (r, c', k')" by (metis prod_cases3)
  then show ?thesis using EvHup HandleClose_ok(1) [OF assms(4), of sy ep k] by simp
next
  case EvCanRecv
  then show ?thesis using HandleCanRecv_ok [OF assms(2,3,4), of ep k] by simp
next
  case EvCanSend
  then show ?thesis using HandleCanSend_ok [OF assms(1,4), of ep k] by simp
next
  case (EvSend xs)
  then show ?thesis using SendMsg_ok [OF assms(1,4), of xs ep k] assms(5) by simp
qed

lemma TcpClient_new_ok: "client_ok (fst (TcpClient_new sy addr k))"
proof -
  let ?c = "TcpChannel.extend TcpChannel_new
     \<lparr> m_state = kDisconnected, m_isAutoReconnect = True, m_PeerAddr = addr \<rparr> :: TcpClient"
  obtain fd where "fst (snd (CreateNoBlock sy ?c k)) = ?c \<lparr> m_iFD := fd \<rparr>" using CreateNoBlock_shape [of sy ?c k] by blast
  then have "fst (TcpClient_new sy addr k) = ?c \<lparr> m_iFD := fd \<rparr>" by (simp add: TcpClient_new_def split_beta Let_def)
  then show ?thesis
    by (simp add: client_ok_def chan_inv_def TcpChannel_new_def TcpChannel.extend_def Buffer_new_ok vector_max_def)
qed

section \<open>Properties\<close>

text \<open>
  C14. The client's state machine: with system calls that behave as documented, every state
  reachable from a new client by any interleaving of connects, disconnects, sends and socket
  events is well formed (a disconnected client waits for no event, a connecting one waits for
  the writable event, a connected one reads and waits for the writable event whenever it has
  unsent bytes), and the next event is handled without a fault.
\<close>

theorem client_reachable_ok:
  assumes "write_spec sy wire ready" and "readv_spec sy"
    and "\<forall>fd space k. fst (sys_readv sy fd space k) < 2147483648"
    and "client_reach sy ep (TcpClient_new sy addr k0) (c, k)" and "ev_ok ev"
  shows "client_ok c \<and> (\<exists>r c' k'. client_handle sy ep ev c k = Some (r, c', k') \<and> client_ok c')"
proof -
  have "client_ok (fst (c, k))" using assms(4)
  proof (induction "(c, k)" arbitrary: c k rule: client_reach.induct)
    case start
    then show ?case using TcpClient_new_ok [of sy addr k0] by (metis fst_conv)
  next
    case (step c k ev r c' k')
    then show ?case using client_handle_ok [OF assms(1,2) assms(3) [rule_format], of c ev ep k] by auto
  qed
  then show ?thesis using client_handle_ok [OF assms(1,2) assms(3) [rule_format], of c ev ep k] assms(5) by auto
qed

theorem client_reachable_ok_witness:
  "client_ok (fst (TcpClient_new slow_sys bzero_addr (\<lambda>_. [])))"
proof -
  let ?s = "TcpClient_new slow_sys bzero_addr (\<lambda>_. [])"
  have r: "readv_spec slow_sys" "\<forall>fd space k. fst (sys_readv slow_sys fd space k) < 2147483648"
    by (auto simp: readv_spec_def slow_sys_def idle_sys_def)
  have "client_reach slow_sys (EPollPoller_new 3) ?s (fst ?s, snd ?s)" by (simp add: client_reach.start)
  from client_reachable_ok [OF slow_sys_spec r this, of EvConnect] show ?thesis by simp
qed

end
