(* ===== verification/ConnSvr.thy ===== *)
theory ConnSvr
  imports ConnMsg ConnTable TcpServer TcpClient
begin

text \<open>
  The connection server: \<^verbatim>\<open>src/connsvr/epollsvr/epollsvr.{h,cpp}\<close>,
  \<^verbatim>\<open>src/connsvr/msghandle/MsgHandle.{h,cpp}\<close> and \<^verbatim>\<open>src/connsvr/framework/connsvr.{h,cpp}\<close>.

  Clients connect to an \<open>EpollServer\<close>, which is a \<open>TcpServer\<close> with a connection table and a
  vector of clients (\<open>ConnClient\<close>) of the servers behind it, the channels. What a client sends is
  cut into messages and forwarded to its channel; messages of a channel are dispatched to
  handlers that accept, close, reroute or answer connections.

  The singleton \<open>SEpollServer\<close> and the application object \<open>G_ConnSvr\<close> (configuration, parser,
  clock) are one state. The system calls, protobuf and the address conversions are the
  parameter \<open>env\<close>. A \<open>ConnClient\<close> is named by its index in \<open>m_cptrvec\<close>.
\<close>

record 'k env =
  e_sys :: "'k sys"
  e_pb :: "ConnsvrMsg pb"
  e_ntop :: "int \<Rightarrow> string option"
  e_pton :: "string \<Rightarrow> int option"

record ConnClient = TcpClient +
  m_channid :: int

record 'k EpollServer = "'k TcpServer" +
  m_cptrvec :: "ConnClient list"
  m_table :: ConnTable
  m_parser :: PbParser
  m_config :: ConnSvrCfg
  now :: int

section \<open>Sending to a channel\<close>

definition ConnClient_SendMsg :: "'k env \<Rightarrow> int \<Rightarrow> ConnsvrMsg \<Rightarrow> 'k EpollServer \<Rightarrow> (int \<times> 'k EpollServer) fault" where
  "ConnClient_SendMsg e i msg w = do {
     (ret, buf, len) \<leftarrow> Pack (e_pb e) (m_parser w) msg;
     let w = w \<lparr> m_parser := buf \<rparr>;
     if ret = 0
     then do {
       data \<leftarrow> mem_read buf 0 len;
       c \<leftarrow> arr_get (m_cptrvec w) i;
       (r, c, k) \<leftarrow> Client_SendMsg (e_sys e) (m_EPoll w) c data (kern w);
       Some (r, w \<lparr> m_cptrvec := (m_cptrvec w)[nat i := c], kern := k \<rparr>)
     }
     else Some (ret, w)
   }"

definition IsChannelIdValid :: "int \<Rightarrow> 'k EpollServer \<Rightarrow> bool" where
  "IsChannelIdValid i w \<longleftrightarrow> i \<ge> 0 \<and> i < s32 (int (length (m_cptrvec w)))"

definition EpollServer_SendMsg :: "'k env \<Rightarrow> int \<Rightarrow> ConnsvrMsg \<Rightarrow> 'k EpollServer \<Rightarrow> (int \<times> 'k EpollServer) fault" where
  "EpollServer_SendMsg e channelid msg w =
     (if \<not> IsChannelIdValid channelid w then Some (-1, w) else ConnClient_SendMsg e channelid msg w)"

section \<open>Connections\<close>

definition get_rec :: "int \<Rightarrow> 'k EpollServer \<Rightarrow> int option fault" where
  "get_rec c w = GetConnectionRecord (m_table w) c"

definition close_rec :: "int \<Rightarrow> 'k EpollServer \<Rightarrow> 'k EpollServer fault" where
  "close_rec c w = do { t \<leftarrow> CloseConn (int (maxconn (m_config w))) c (m_table w); Some (w \<lparr> m_table := t \<rparr>) }"

definition GetSvrChannel :: "int \<Rightarrow> 'k EpollServer \<Rightarrow> int option fault" where
  "GetSvrChannel c w = do {
     q \<leftarrow> get_rec c w;
     case q of
       None \<Rightarrow> Some None
     | Some i \<Rightarrow> do { r \<leftarrow> arr_get (m_vec (m_table w)) i; Some (map_of (m_ChannelMap w) (rec_iFD r)) }
   }"

text \<open>The virtual function \<open>OnCloseChannel\<close> of \<open>EpollServer\<close>; the channel it deletes is at address \<open>p\<close>.\<close>

definition stop_msg :: "'k env \<Rightarrow> int \<Rightarrow> ConnectionRecord \<Rightarrow> 'k EpollServer \<Rightarrow> ConnsvrMsg" where
  "stop_msg e c r w = (new_msg connsvr_stop c (ToPort (m_addr r)) (ToIp (e_ntop e) (m_addr r)))
     \<lparr> stop := Some (u64 (now w)) \<rparr>"

definition OnCloseChannel :: "'k env \<Rightarrow> int \<Rightarrow> 'k EpollServer \<Rightarrow> (int \<times> 'k EpollServer) fault" where
  "OnCloseChannel e p w = do {
     ch \<leftarrow> objs w p;
     q \<leftarrow> get_rec (m_id ch) w;
     w \<leftarrow> (case q of
            None \<Rightarrow> Some w
          | Some i \<Rightarrow> do {
              r \<leftarrow> arr_get (m_vec (m_table w)) i;
              (_, w) \<leftarrow> EpollServer_SendMsg e (m_id ch) (stop_msg e (m_id ch) r w) w;
              Some w
            });
     w \<leftarrow> close_rec (m_id ch) w;
     Server_OnCloseChannel p w
   }"

definition close_virt :: "'k env \<Rightarrow> 'k EpollServer server_virt" where
  "close_virt e = \<lparr> vOnNewChannel = (\<lambda>_ _ w. Some (0, w)), vOnMsgRecv = (\<lambda>_ w. Some (0, w)),
     vOnCloseChannel = OnCloseChannel e \<rparr>"

definition CloseConnid :: "'k env \<Rightarrow> int \<Rightarrow> 'k EpollServer \<Rightarrow> 'k EpollServer fault" where
  "CloseConnid e c w = do {
     q \<leftarrow> get_rec c w;
     w \<leftarrow> (case q of
            None \<Rightarrow> Some w
          | Some i \<Rightarrow> do {
              r \<leftarrow> arr_get (m_vec (m_table w)) i;
              if IsValid r
              then (case map_of (m_ChannelMap w) (rec_iFD r) of
                      None \<Rightarrow> Some w
                    | Some p \<Rightarrow> map_option snd (Server_Disconnect (e_sys e) (close_virt e) p w))
              else Some w
            });
     close_rec c w
   }"

text \<open>\<open>CloseChannel\<close> reads the id of the channel after \<open>Disconnect\<close>.\<close>

definition CloseChannel :: "'k env \<Rightarrow> int \<Rightarrow> 'k EpollServer \<Rightarrow> 'k EpollServer fault" where
  "CloseChannel e p w = do {
     (_, w) \<leftarrow> Server_Disconnect (e_sys e) (close_virt e) p w;
     ch \<leftarrow> objs w p;
     close_rec (m_id ch) w
   }"

definition start_msg :: "'k env \<Rightarrow> int \<Rightarrow> sockaddr_in \<Rightarrow> 'k EpollServer \<Rightarrow> ConnsvrMsg" where
  "start_msg e c addr w = (new_msg connsvr_start_req c (ToPort addr) (ToIp (e_ntop e) addr))
     \<lparr> startreq := Some \<lparr> currentconn = u32 (GetCurrConn (int (maxconn (m_config w))) (m_table w)),
         channelcnt = u32 (int (length (m_cptrvec w))) \<rparr> \<rparr>"

definition OnNewChannel :: "'k env \<Rightarrow> int \<Rightarrow> sockaddr_in \<Rightarrow> 'k EpollServer \<Rightarrow> (int \<times> 'k EpollServer) fault" where
  "OnNewChannel e iFD addr w = do {
     (ret, w) \<leftarrow> Server_OnNewChannel (e_sys e) (close_virt e) iFD addr w;
     if ret \<noteq> 0 then Some (-1, w)
     else
       case map_of (m_ChannelMap w) iFD of
         None \<Rightarrow> Some (-1, w)
       | Some p \<Rightarrow> do {
           (c, t) \<leftarrow> RecoredNewConn (int (maxconn (m_config w))) iFD addr (m_table w);
           let w = w \<lparr> m_table := t \<rparr>;
           ch \<leftarrow> objs w p;
           if c < 0
           then
             let (_, ch, k) = Close (e_sys e) (m_EPoll w) ch (kern w)
             in Some (-1, set_obj p ch w \<lparr> kern := k \<rparr>)
           else do {
             let w = set_obj p (ch \<lparr> m_id := c \<rparr>) w;
             (r, w) \<leftarrow> ConnClient_SendMsg e 0 (start_msg e c addr w) w;
             w \<leftarrow> (if r \<noteq> 0 then close_rec c w else Some w);
             Some (0, w)
           }
         }
   }"

section \<open>Forwarding what a client sends\<close>

definition read_msglen :: "int \<Rightarrow> Buffer \<Rightarrow> int fault" where
  "read_msglen typesize b =
     (if typesize = 4 then do { xs \<leftarrow> Peek b 4; Some (ntohl_bytes xs) }
      else if typesize = 2 then do { xs \<leftarrow> Peek b 2; Some (ntohl_bytes (0 # 0 # xs)) }
      else Some 0)"

definition ntf_msg :: "'k env \<Rightarrow> ConnectionRecord \<Rightarrow> byte list \<Rightarrow> ConnsvrMsg" where
  "ntf_msg e r xs = (new_msg connsvr_msg_ntf (m_connid r) (ToPort (m_addr r)) (ToIp (e_ntop e) (m_addr r)))
     \<lparr> msgntf := Some xs \<rparr>"

text \<open>
  The loop of \<open>OnMsgRecv\<close> for the channel at \<open>p\<close> with the record at \<open>i\<close>; \<open>None\<close> is a fault or a
  loop that does not end.
\<close>

partial_function (option) msg_loop :: "'k env \<Rightarrow> int \<Rightarrow> int \<Rightarrow> 'k EpollServer \<Rightarrow> 'k EpollServer option" where
  "msg_loop e p i w = do {
     ch \<leftarrow> objs w p;
     let len = u32 (ReadableBytes (m_RecvBuf ch));
     if len = 0 \<or> msglenpos (m_config w) \<ge> len then Some w
     else do {
       msglen \<leftarrow> read_msglen (msglensize (m_config w)) (m_RecvBuf ch);
       if msglen > len then Some w
       else do {
         r \<leftarrow> arr_get (m_vec (m_table w)) i;
         buf \<leftarrow> Peek (m_RecvBuf ch) msglen;
         (_, w) \<leftarrow> EpollServer_SendMsg e (m_channelid r) (ntf_msg e r buf) w;
         ch \<leftarrow> objs w p;
         msg_loop e p i (set_obj p (ch \<lparr> m_RecvBuf := snd (Retrieve (m_RecvBuf ch) msglen) \<rparr>) w)
       }
     }
   }"

definition OnMsgRecv :: "'k env \<Rightarrow> int \<Rightarrow> 'k EpollServer \<Rightarrow> (int \<times> 'k EpollServer) option" where
  "OnMsgRecv e p w = do {
     ch \<leftarrow> objs w p;
     q \<leftarrow> get_rec (m_id ch) w;
     case q of None \<Rightarrow> Some (0, w) | Some i \<Rightarrow> do { w \<leftarrow> msg_loop e p i w; Some (0, w) }
   }"

definition conn_virt :: "'k env \<Rightarrow> 'k EpollServer server_virt" where
  "conn_virt e = \<lparr> vOnNewChannel = OnNewChannel e, vOnMsgRecv = OnMsgRecv e, vOnCloseChannel = OnCloseChannel e \<rparr>"

section \<open>Handlers of messages from a channel\<close>

definition StartRspHandle :: "'k env \<Rightarrow> ConnsvrMsg \<Rightarrow> int \<Rightarrow> 'k EpollServer \<Rightarrow> (int \<times> 'k EpollServer) fault" where
  "StartRspHandle e msg ci w = do {
     let c = s32 (connid (head msg));
     q \<leftarrow> get_rec c w;
     case q of
       None \<Rightarrow> Some (-1, w)
     | Some i \<Rightarrow>
         if accept (get_startrsp msg) \<noteq> 0 then do { w \<leftarrow> CloseConnid e c w; Some (0, w) }
         else
           let ch = s32 (routechannel (get_startrsp msg)) in
           if IsChannelIdValid ch w
           then do { t \<leftarrow> upd_rec i (SetChannelid ch) (m_table w); Some (0, w \<lparr> m_table := t \<rparr>) }
           else do { w \<leftarrow> CloseConnid e c w; Some (0, w) }
   }"

definition StopHandle :: "'k env \<Rightarrow> ConnsvrMsg \<Rightarrow> int \<Rightarrow> 'k EpollServer \<Rightarrow> (int \<times> 'k EpollServer) fault" where
  "StopHandle e msg ci w = do {
     let c = s32 (connid (head msg));
     q \<leftarrow> get_rec c w;
     case q of
       None \<Rightarrow> Some (-1, w)
     | Some i \<Rightarrow> do {
         r \<leftarrow> arr_get (m_vec (m_table w)) i;
         (_, w) \<leftarrow> EpollServer_SendMsg e (m_channelid r) (stop_msg e c r w) w;
         w \<leftarrow> CloseConnid e c w;
         Some (0, w)
       }
   }"

text \<open>\<open>RouteHandle\<close> reads the new channel from the part \<open>startrsp\<close>, not from \<open>route\<close>.\<close>

definition RouteHandle :: "'k env \<Rightarrow> ConnsvrMsg \<Rightarrow> int \<Rightarrow> 'k EpollServer \<Rightarrow> (int \<times> 'k EpollServer) fault" where
  "RouteHandle e msg ci w = do {
     let c = s32 (connid (head msg));
     q \<leftarrow> get_rec c w;
     case q of
       None \<Rightarrow> Some (-1, w)
     | Some i \<Rightarrow> do {
         r \<leftarrow> arr_get (m_vec (m_table w)) i;
         let routemsg = (new_msg connsvr_route c (ToPort (m_addr r)) (ToIp (e_ntop e) (m_addr r)));
         let ch = s32 (routechannel (get_startrsp msg));
         w \<leftarrow> (if IsChannelIdValid ch w
               then do { t \<leftarrow> upd_rec i (SetChannelid ch) (m_table w); Some (w \<lparr> m_table := t \<rparr>) }
               else Some w);
         r \<leftarrow> arr_get (m_vec (m_table w)) i;
         (_, w) \<leftarrow> EpollServer_SendMsg e (m_channelid r) (routemsg \<lparr> route := Some (u32 (m_channelid r)) \<rparr>) w;
         Some (0, w)
       }
   }"

definition stop_reply :: "ConnsvrMsg \<Rightarrow> 'k EpollServer \<Rightarrow> ConnsvrMsg" where
  "stop_reply msg w = \<lparr> head = (head msg) \<lparr> cmdid := connsvr_stop \<rparr>, startreq = None, startrsp = None,
     stop = Some (u64 (now w)), route = None, msgntf = None \<rparr>"

definition MsgNtfHandle :: "'k env \<Rightarrow> ConnsvrMsg \<Rightarrow> int \<Rightarrow> 'k EpollServer \<Rightarrow> (int \<times> 'k EpollServer) fault" where
  "MsgNtfHandle e msg ci w = do {
     let c = s32 (connid (head msg));
     q \<leftarrow> get_rec c w;
     case q of
       None \<Rightarrow> do {
         cl \<leftarrow> arr_get (m_cptrvec w) ci;
         (_, w) \<leftarrow> EpollServer_SendMsg e (m_channid cl) (stop_reply msg w) w;
         Some (-1, w)
       }
     | Some i \<Rightarrow> do {
         sc \<leftarrow> GetSvrChannel c w;
         case sc of
           None \<Rightarrow> do {
             r \<leftarrow> arr_get (m_vec (m_table w)) i;
             (_, w) \<leftarrow> EpollServer_SendMsg e (m_channelid r) (stop_reply msg w) w;
             w \<leftarrow> CloseConnid e c w;
             Some (-1, w)
           }
         | Some p \<Rightarrow> do {
             (_, w) \<leftarrow> Server_SendMsg (e_sys e) p (get_buff msg) w;
             Some (0, w)
           }
       }
   }"

text \<open>The table of handlers that \<open>Init\<close> fills, and the dispatch.\<close>

definition m_handleArr :: "'k env \<Rightarrow> int \<Rightarrow> (ConnsvrMsg \<Rightarrow> int \<Rightarrow> 'k EpollServer \<Rightarrow> (int \<times> 'k EpollServer) fault) option" where
  "m_handleArr e = [connsvr_start_rsp \<mapsto> StartRspHandle e, connsvr_stop \<mapsto> StopHandle e,
     connsvr_route \<mapsto> RouteHandle e, connsvr_msg_ntf \<mapsto> MsgNtfHandle e]"

definition HandleMsg :: "'k env \<Rightarrow> ConnsvrMsg \<Rightarrow> int \<Rightarrow> 'k EpollServer \<Rightarrow> (int \<times> 'k EpollServer) fault" where
  "HandleMsg e msg ci w =
     (if cmdid (head msg) < connsvr_cmd_count
      then (case m_handleArr e (cmdid (head msg)) of Some f \<Rightarrow> f msg ci w | None \<Rightarrow> Some (-1, w))
      else Some (-1, w))"

text \<open>\<open>OnRecvMsg\<close> of the client number \<open>i\<close>: the messages in its receive buffer, one after the other.\<close>

partial_function (option) client_loop :: "'k env \<Rightarrow> int \<Rightarrow> 'k EpollServer \<Rightarrow> 'k EpollServer option" where
  "client_loop e i w = do {
     c \<leftarrow> arr_get (m_cptrvec w) i;
     let len = s32 (ReadableBytes (m_RecvBuf c));
     if len = 0 then Some w
     else do {
       (ret, m, len) \<leftarrow> UnPack (e_pb e) (drop (nat (m_iReadIndex (m_RecvBuf c))) (m_buffer (m_RecvBuf c))) len;
       if ret \<noteq> 0 then Some w
       else do {
         msg \<leftarrow> m;
         (_, w) \<leftarrow> HandleMsg e msg i w;
         c \<leftarrow> arr_get (m_cptrvec w) i;
         let c = c \<lparr> m_RecvBuf := snd (Retrieve (m_RecvBuf c) (u64 len)) \<rparr>;
         client_loop e i (w \<lparr> m_cptrvec := (m_cptrvec w)[nat i := c] \<rparr>)
       }
     }
   }"

definition ConnClient_OnRecvMsg :: "'k env \<Rightarrow> int \<Rightarrow> 'k EpollServer \<Rightarrow> (int \<times> 'k EpollServer) option" where
  "ConnClient_OnRecvMsg e i w = do { w \<leftarrow> client_loop e i w; Some (0, w) }"

section \<open>Start\<close>

definition ConnClient_new :: "'k env \<Rightarrow> sockaddr_in \<Rightarrow> int \<Rightarrow> 'k \<Rightarrow> ConnClient \<times> 'k" where
  "ConnClient_new e addr channelid k =
     (let (c, k) = TcpClient_new (e_sys e) addr k
      in (\<lparr> m_iFD = m_iFD c, m_iEvents = m_iEvents c, m_isPooling = m_isPooling c, m_RecvBuf = m_RecvBuf c,
            m_SendBuf = m_SendBuf c, m_state = m_state c, m_isAutoReconnect = m_isAutoReconnect c,
            m_PeerAddr = m_PeerAddr c, m_channid = channelid \<rparr>, k))"

fun connect_all :: "'k env \<Rightarrow> EPollPoller \<Rightarrow> int \<Rightarrow> Channel list \<Rightarrow> 'k \<Rightarrow> ConnClient list \<times> 'k" where
  "connect_all e ep i [] k = ([], k)"
| "connect_all e ep i (ch # chs) k =
     (let (c, k) = ConnClient_new e (InetAddress_ip (e_pton e) (ch_ip ch) (ch_port ch mod 65536)) i k;
          (_, c, k) = Connect (e_sys e) ep c k;
          (cs, k) = connect_all e ep (i + 1) chs k
      in (c # cs, k))"

definition EpollServer_new :: "'k env \<Rightarrow> EPollPoller \<Rightarrow> sockaddr_in \<Rightarrow> bool \<Rightarrow> ConnSvrCfg \<Rightarrow> ConnectionRecord \<Rightarrow>
    PbParser \<Rightarrow> int \<Rightarrow> 'k \<Rightarrow> 'k EpollServer" where
  "EpollServer_new e poll addr isReUsePort cfg garbage parser t k =
     (let s = TcpServer_new (e_sys e) poll addr isReUsePort k;
          (cs, k) = connect_all e poll 0 (defaultchannel cfg # channel cfg) (kern s)
      in \<lparr> m_EPoll = m_EPoll s, m_Acceptor = m_Acceptor s, m_ChannelMap = m_ChannelMap s, objs = objs s,
           next_obj = next_obj s, kern = k, m_cptrvec = cs, m_table = ConnTable_new (maxconn cfg) garbage,
           m_parser = parser, m_config = cfg, now = t \<rparr>)"

text \<open>\<open>OnInit\<close> of \<open>ConnSvr\<close>; the result of \<open>Start\<close> is not looked at.\<close>

definition ConnSvr_OnInit :: "'k env \<Rightarrow> EPollPoller \<Rightarrow> ConnSvrCfg \<Rightarrow> ConnectionRecord \<Rightarrow> PbParser \<Rightarrow> int \<Rightarrow> 'k \<Rightarrow>
    int \<times> 'k EpollServer option" where
  "ConnSvr_OnInit e poll cfg garbage parser t k =
     (if msglensize cfg \<noteq> 4 \<and> msglensize cfg \<noteq> 2 then (-1, None)
      else
        let w = EpollServer_new e poll (InetAddress_ip (e_pton e) ''0.0.0.0'' (cfg_port cfg mod 65536)) True cfg garbage parser t k;
            (_, w) = Server_Start (e_sys e) w
        in (0, Some w))"

end
