(* ===== verification/ConnSafety.thy ===== *)
theory ConnSafety
  imports ConnSvr
begin

text \<open>
  Safety of the connection server: the invariant that links the connection table, the channel
  map and the channel objects, that every handler keeps it, and what a refused client does.
\<close>

section \<open>Invariant\<close>

text \<open>
  What the code relies on of protobuf: the size of a message is not negative and below 2 GB, and
  serialising fails or writes exactly that many bytes.
\<close>

definition pb_safe :: "'m pb \<Rightarrow> bool" where
  "pb_safe pb \<longleftrightarrow> pb_protocolpacket pb \<and>
     (\<forall>m. 0 \<le> pb_ByteSize pb m \<and> pb_ByteSize pb m < 2147483644 \<and>
       (\<forall>xs. pb_SerializeToArray pb m = Some xs \<longrightarrow> int (length xs) = pb_ByteSize pb m))"

lemma Pack_safe:
  assumes "pb_safe pb"
  shows "\<exists>ret buf len. Pack pb b m = Some (ret, buf, len) \<and> 0 \<le> len \<and> len \<le> int (length buf) \<and> len < 2147483648"
proof -
  let ?n = "pb_ByteSize pb m"
  have n: "pb_protocolpacket pb" "0 \<le> ?n" "?n < 2147483644" using assms by (auto simp: pb_safe_def)
  have i: "s32 ?n = ?n" "s32 (?n + 4) = ?n + 4" "u64 (?n + 4) = ?n + 4" "u32 (?n + 4) = ?n + 4"
    using n by (simp_all add: int32_simps)
  let ?v = "vec_resize b (?n + 4)"
  have lv: "int (length ?v) = ?n + 4" using n by (auto simp: vec_resize_def)
  have w1: "mem_write ?v 0 (htonl_bytes (?n + 4)) = Some (htonl_bytes (?n + 4) @ drop 4 ?v)"
    using lv n by (simp add: mem_write_def)
  let ?b = "htonl_bytes (?n + 4) @ drop 4 ?v"
  have lb: "int (length ?b) = ?n + 4" using lv n by auto
  have p: "Pack pb b m = (case pb_SerializeToArray pb m of None \<Rightarrow> Some (-1, ?b, 0)
      | Some xs \<Rightarrow> do { b \<leftarrow> mem_write ?b 4 xs; Some (0, b, ?n + 4) })"
    unfolding Pack_def Let_def i if_P [OF n(1)] w1 Option.bind.simps prod.case ..
  show ?thesis
  proof (cases "pb_SerializeToArray pb m")
    case None
    then show ?thesis using p by simp
  next
    case (Some xs)
    then have "int (length xs) = ?n" using assms by (simp add: pb_safe_def)
    then have "4 + int (length xs) \<le> int (length ?b)" using lb by simp
    then obtain z where z: "mem_write ?b 4 xs = Some z" unfolding mem_write_def by simp
    then have "int (length z) = ?n + 4" using mem_write_length [OF z] lb by simp
    then show ?thesis using p Some z n by simp
  qed
qed

definition clients_ok :: "ConnClient list \<Rightarrow> bool" where
  "clients_ok cs \<longleftrightarrow> cs \<noteq> [] \<and> (\<forall>c \<in> set cs. client_ok c)"

text \<open>Sending to a client changes only the parser's buffer, the clients and the kernel.\<close>

lemma SendMsg_safe:
  assumes pb: "pb_safe (e_pb e)" and sp: "write_spec (e_sys e) wire ready" and ok: "clients_ok (m_cptrvec w)"
    and i: "0 \<le> i" "i < int (length (m_cptrvec w))"
  shows "\<exists>r b cs k. ConnClient_SendMsg e i msg w = Some (r, w \<lparr> m_parser := b, m_cptrvec := cs, kern := k \<rparr>) \<and>
    clients_ok cs \<and> length cs = length (m_cptrvec w)"
proof -
  from Pack_safe [OF pb, of "m_parser w" msg] obtain ret buf len where
    p: "Pack (e_pb e) (m_parser w) msg = Some (ret, buf, len)" "0 \<le> len" "len \<le> int (length buf)" "len < 2147483648" by blast
  show ?thesis
  proof (cases "ret = 0")
    case False
    then have "ConnClient_SendMsg e i msg w = Some (ret, w \<lparr> m_parser := buf, m_cptrvec := m_cptrvec w, kern := kern w \<rparr>)"
      using p(1) by (simp add: ConnClient_SendMsg_def)
    then show ?thesis using ok by blast
  next
    case True
    let ?d = "take (nat len) buf"
    have rd: "mem_read buf 0 len = Some ?d" using p by (simp add: mem_read_def)
    let ?c = "m_cptrvec w ! nat i"
    have g: "arr_get (m_cptrvec w) i = Some ?c" using i by (simp add: arr_get_def)
    have "client_ok ?c" using ok i by (simp add: clients_ok_def)
    moreover have "int (length ?d) < 2147483648" using p by simp
    ultimately obtain r c' k' where
      s: "Client_SendMsg (e_sys e) (m_EPoll w) ?c ?d (kern w) = Some (r, c', k')" "client_ok c'"
      using SendMsg_ok [OF sp] by blast
    have "ConnClient_SendMsg e i msg w =
        Some (r, w \<lparr> m_parser := buf, m_cptrvec := (m_cptrvec w)[nat i := c'], kern := k' \<rparr>)"
      using p(1) True rd g s(1) by (simp add: ConnClient_SendMsg_def)
    moreover have "clients_ok ((m_cptrvec w)[nat i := c'])"
      using ok s(2) set_update_subset_insert [of "m_cptrvec w" "nat i" c'] by (fastforce simp: clients_ok_def)
    ultimately show ?thesis by fastforce
  qed
qed

lemma EpollServer_SendMsg_safe:
  assumes "pb_safe (e_pb e)" and "write_spec (e_sys e) wire ready" and ok: "clients_ok (m_cptrvec w)"
    and l: "length (m_cptrvec w) < 2147483648"
  shows "\<exists>r b cs k. EpollServer_SendMsg e i msg w = Some (r, w \<lparr> m_parser := b, m_cptrvec := cs, kern := k \<rparr>) \<and>
    clients_ok cs \<and> length cs = length (m_cptrvec w)"
proof (cases "IsChannelIdValid i w")
  case False
  then have "EpollServer_SendMsg e i msg w = Some (-1, w \<lparr> m_parser := m_parser w, m_cptrvec := m_cptrvec w, kern := kern w \<rparr>)"
    by (simp add: EpollServer_SendMsg_def)
  then show ?thesis using ok by blast
next
  case True
  have "s32 (int (length (m_cptrvec w))) = int (length (m_cptrvec w))" using l by (intro s32_id) auto
  then have "0 \<le> i" "i < int (length (m_cptrvec w))" using True by (auto simp: IsChannelIdValid_def)
  from SendMsg_safe [OF assms(1-3) this] show ?thesis using True by (simp add: EpollServer_SendMsg_def)
qed

definition conn_link :: "'k EpollServer \<Rightarrow> bool" where
  "conn_link w \<longleftrightarrow> (\<forall>h fd a c. table_map (m_table w) h = Some (fd, a, c) \<longrightarrow>
     (\<exists>p ch. map_of (m_ChannelMap w) fd = Some p \<and> objs w p = Some ch \<and> m_id ch = h))"

definition conn_inv :: "'k EpollServer \<Rightarrow> bool" where
  "conn_inv w \<longleftrightarrow> server_inv w \<and> table_inv (m_table w) \<and> length (m_vec (m_table w)) = maxconn (m_config w) \<and>
     clients_ok (m_cptrvec w) \<and> length (m_cptrvec w) < 2147483648 \<and> conn_link w"

text \<open>Connections that end leave the link of the others.\<close>

lemma CloseConn_map:
  assumes "table_inv t" and "n = int (length (m_vec t))"
  shows "\<exists>t'. CloseConn n h t = Some t' \<and> table_inv t' \<and> table_map t' = (table_map t)(h := None) \<and>
    length (m_vec t') = length (m_vec t)"
proof (cases "table_map t h = None")
  case True
  then show ?thesis using CloseConn_dead [OF assms(1) True] assms(1) by (auto simp: fun_upd_idem)
next
  case False
  then show ?thesis using CloseConn_live [OF assms(1) False assms(2)] by blast
qed

lemma close_rec_safe:
  assumes "conn_inv w"
  shows "\<exists>t. close_rec h w = Some (w \<lparr> m_table := t \<rparr>) \<and> conn_inv (w \<lparr> m_table := t \<rparr>) \<and>
    table_map t = (table_map (m_table w))(h := None)"
proof -
  have i: "table_inv (m_table w)" "int (maxconn (m_config w)) = int (length (m_vec (m_table w)))"
    using assms by (auto simp: conn_inv_def)
  from CloseConn_map [OF i, of h] obtain t where
    t: "CloseConn (int (maxconn (m_config w))) h (m_table w) = Some t" "table_inv t"
      "table_map t = (table_map (m_table w))(h := None)" "length (m_vec t) = length (m_vec (m_table w))" by blast
  have "conn_inv (w \<lparr> m_table := t \<rparr>)"
    using assms t unfolding conn_inv_def conn_link_def server_inv_def by simp
  then show ?thesis using t by (auto simp: close_rec_def)
qed

lemma conn_inv_send:
  assumes "conn_inv w" and "clients_ok cs" and "length cs = length (m_cptrvec w)"
  shows "conn_inv (w \<lparr> m_parser := b, m_cptrvec := cs, kern := k \<rparr>)"
  using assms unfolding conn_inv_def conn_link_def server_inv_def by simp

lemma GetConnectionRecord_cases:
  assumes i: "table_inv t"
  obtains (dead) "GetConnectionRecord t h = Some None" "table_map t h = None"
  | (live) j r where "GetConnectionRecord t h = Some (Some (int j))" "j < length (m_vec t)" "r = m_vec t ! j"
      "arr_get (m_vec t) (int j) = Some r" "IsValid r" "m_connid r = h" "0 \<le> h"
      "table_map t h = Some (rec_iFD r, m_addr r, m_channelid r)"
proof (cases "table_map t h")
  case None
  then show ?thesis using dead GetConnectionRecord_eq [OF i, of h] by simp
next
  case (Some v)
  have "0 \<le> h" using Some by (simp add: table_map_def split: if_splits)
  obtain j where j: "j < length (m_vec t)" "IsValid (m_vec t ! j)" "m_connid (m_vec t ! j) = h"
    "v = (rec_iFD (m_vec t ! j), m_addr (m_vec t ! j), m_channelid (m_vec t ! j))"
    using Some unfolding table_map_iff [OF i] by blast
  have "rec_inv (length (m_vec t)) j (m_vec t ! j)" using i j(1) by (simp add: table_inv_def)
  then have "h mod int (length (m_vec t)) = int j" using j(3) by (simp add: rec_inv_def)
  then have "GetConnectionRecord t h = Some (Some (int j))" using GetConnectionRecord_eq [OF i, of h] Some by simp
  then show ?thesis using live [OF _ j(1) refl arr_get_int [OF j(1)] j(2,3) \<open>0 \<le> h\<close>] Some j(4) by simp
qed

text \<open>The environment behaves as documented.\<close>

definition env_ok :: "'k env \<Rightarrow> bool" where
  "env_ok e \<longleftrightarrow> pb_safe (e_pb e) \<and> (\<exists>wire ready. write_spec (e_sys e) wire ready)"

lemma server_SendMsg_env:
  assumes "env_ok e" and "clients_ok (m_cptrvec w)" and "length (m_cptrvec w) < 2147483648"
  shows "\<exists>r b cs k. EpollServer_SendMsg e i msg w = Some (r, w \<lparr> m_parser := b, m_cptrvec := cs, kern := k \<rparr>) \<and>
    clients_ok cs \<and> length cs = length (m_cptrvec w)"
  using assms EpollServer_SendMsg_safe unfolding env_ok_def by blast

lemma conn_link_close:
  assumes l: "conn_link w" and i: "server_inv w" and p: "objs w p = Some ch"
    and o: "objs w' = (objs w)(p := None)"
    and m: "map_of (m_ChannelMap w') = (map_of (m_ChannelMap w))(m_iFD ch := None)"
    and t: "table_map (m_table w') = (table_map (m_table w))(m_id ch := None)"
  shows "conn_link w'"
  unfolding conn_link_def
proof (intro allI impI)
  fix h fd a c assume h: "table_map (m_table w') h = Some (fd, a, c)"
  then have hn: "h \<noteq> m_id ch" "table_map (m_table w) h = Some (fd, a, c)" using t by (auto split: if_splits)
  then obtain q c2 where q: "map_of (m_ChannelMap w) fd = Some q" "objs w q = Some c2" "m_id c2 = h"
    using l unfolding conn_link_def by blast
  have "q \<noteq> p" using q hn(1) p by auto
  moreover have "map_of (m_ChannelMap w) (m_iFD ch) = Some p" using i p by (auto simp: server_inv_def)
  ultimately have "fd \<noteq> m_iFD ch" using q(1) by auto
  then show "\<exists>p ch. map_of (m_ChannelMap w') fd = Some p \<and> objs w' p = Some ch \<and> m_id ch = h"
    using q m o \<open>q \<noteq> p\<close> by (intro exI [of _ q] exI [of _ c2]) simp
qed

text \<open>The configuration of a server never changes.\<close>

definition closes :: "int \<Rightarrow> ServerChannel \<Rightarrow> 'k EpollServer \<Rightarrow> 'k EpollServer \<Rightarrow> bool" where
  "closes p ch w w' \<longleftrightarrow> conn_inv w' \<and> objs w' = (objs w)(p := None) \<and>
     map_of (m_ChannelMap w') = (map_of (m_ChannelMap w))(m_iFD ch := None) \<and>
     table_map (m_table w') = (table_map (m_table w))(m_id ch := None) \<and> next_obj w' = next_obj w \<and>
     m_config w' = m_config w \<and> length (m_cptrvec w') = length (m_cptrvec w)"

lemma OnCloseChannel_safe:
  assumes e: "env_ok e" and i: "conn_inv w" and p: "objs w p = Some ch"
    and ch': "m_iFD ch' = m_iFD ch" "m_id ch' = m_id ch"
  shows "\<exists>w'. OnCloseChannel e p (set_obj p ch' w \<lparr> kern := k \<rparr>) = Some (0, w') \<and> closes p ch w w'"
proof -
  let ?w1 = "set_obj p ch' w \<lparr> kern := k \<rparr>" and ?h = "m_id ch"
  have ti: "table_inv (m_table w)" "int (maxconn (m_config w)) = int (length (m_vec (m_table w)))"
    and si: "server_inv w" and li: "conn_link w" and ci: "clients_ok (m_cptrvec ?w1)" "length (m_cptrvec ?w1) < 2147483648"
    using i by (auto simp: conn_inv_def set_obj_def)
  have o1: "objs ?w1 p = Some ch'" and t1: "m_table ?w1 = m_table w" by (simp_all add: set_obj_def)
  have "\<exists>q b cs k'. get_rec ?h ?w1 = Some q \<and> (case q of
            None \<Rightarrow> Some ?w1
          | Some i \<Rightarrow> do {
              r \<leftarrow> arr_get (m_vec (m_table ?w1)) i;
              (_, w) \<leftarrow> EpollServer_SendMsg e ?h (stop_msg e ?h r ?w1) ?w1;
              Some w
            }) = Some (?w1 \<lparr> m_parser := b, m_cptrvec := cs, kern := k' \<rparr>) \<and>
      clients_ok cs \<and> length cs = length (m_cptrvec w)"
    using ti(1)
  proof (cases rule: GetConnectionRecord_cases [where h = ?h])
    case dead
    have "?w1 = ?w1 \<lparr> m_parser := m_parser w, m_cptrvec := m_cptrvec w, kern := k \<rparr>" by (simp add: set_obj_def)
    then have "get_rec ?h ?w1 = Some None \<and> Some ?w1 = Some (?w1 \<lparr> m_parser := m_parser w, m_cptrvec := m_cptrvec w, kern := k \<rparr>) \<and>
        clients_ok (m_cptrvec w) \<and> length (m_cptrvec w) = length (m_cptrvec w)"
      using dead ci by (simp add: get_rec_def t1 set_obj_def)
    then show ?thesis by (metis option.case(1))
  next
    case (live j r)
    from server_SendMsg_env [OF e ci, of ?h "stop_msg e ?h r ?w1"] obtain x b cs k' where
      s: "EpollServer_SendMsg e ?h (stop_msg e ?h r ?w1) ?w1 = Some (x, ?w1 \<lparr> m_parser := b, m_cptrvec := cs, kern := k' \<rparr>)"
        "clients_ok cs" "length cs = length (m_cptrvec ?w1)" by blast
    have "length (m_cptrvec ?w1) = length (m_cptrvec w)" by (simp add: set_obj_def)
    moreover have "get_rec ?h ?w1 = Some (Some (int j))" using live by (simp add: get_rec_def t1)
    ultimately show ?thesis using s live(4)
      by (intro exI [of _ "Some (int j)"] exI [of _ b] exI [of _ cs] exI [of _ k']) (simp add: t1)
  qed
  then obtain q b cs k' where
    q: "get_rec ?h ?w1 = Some q" "(case q of
            None \<Rightarrow> Some ?w1
          | Some i \<Rightarrow> do {
              r \<leftarrow> arr_get (m_vec (m_table ?w1)) i;
              (_, w) \<leftarrow> EpollServer_SendMsg e ?h (stop_msg e ?h r ?w1) ?w1;
              Some w
            }) = Some (?w1 \<lparr> m_parser := b, m_cptrvec := cs, kern := k' \<rparr>)"
      "clients_ok cs" "length cs = length (m_cptrvec w)" by blast
  from CloseConn_map [OF ti, of ?h] obtain t where
    t: "CloseConn (int (maxconn (m_config w))) ?h (m_table w) = Some t" "table_inv t"
      "table_map t = (table_map (m_table w))(?h := None)" "length (m_vec t) = length (m_vec (m_table w))" by blast
  let ?w0 = "w \<lparr> m_parser := b, m_cptrvec := cs, m_table := t \<rparr>"
  have s0: "server_inv ?w0" using si by (simp add: server_inv_def)
  have p0: "objs ?w0 p = Some ch" using p by simp
  let ?w2 = "?w0 \<lparr> kern := k', objs := (objs ?w0)(p := None), m_ChannelMap := omap_erase (m_iFD ch) (m_ChannelMap ?w0) \<rparr>"
  have c: "Server_OnCloseChannel p (set_obj p ch' ?w0 \<lparr> kern := k' \<rparr>) = Some (0, ?w2)" "server_inv ?w2"
    by (rule OnCloseChannel_eq [OF s0 p0 ch'(1)])+
  have e2: "?w1 \<lparr> m_parser := b, m_cptrvec := cs, kern := k', m_table := t \<rparr> = set_obj p ch' ?w0 \<lparr> kern := k' \<rparr>"
    by (simp add: set_obj_def)
  have "close_rec ?h (?w1 \<lparr> m_parser := b, m_cptrvec := cs, kern := k' \<rparr>) = Some (set_obj p ch' ?w0 \<lparr> kern := k' \<rparr>)"
    unfolding e2 [symmetric] using t(1) by (simp add: close_rec_def set_obj_def)
  then have "OnCloseChannel e p ?w1 = Some (0, ?w2)"
    unfolding OnCloseChannel_def o1 Option.bind.simps ch'(2) q(1) q(2) using c(1) by simp
  moreover have "conn_link ?w2" by (rule conn_link_close [OF li si p]) (simp_all add: t(3))
  then have "conn_inv ?w2" using c(2) t q(3,4) i by (simp add: conn_inv_def)
  ultimately show ?thesis using t q(4) by (auto simp: closes_def)
qed

lemma HandleClose_safe:
  assumes e: "env_ok e" and i: "conn_inv w" and p: "objs w p = Some ch" and v: "vOnCloseChannel vt = OnCloseChannel e"
  shows "\<exists>w'. Server_HandleClose (e_sys e) vt p w = Some (0, w') \<and> closes p ch w w'"
proof -
  obtain ch1 k1 where d: "DisableAll (e_sys e) (m_EPoll w) ch (kern w) = (ch1, k1)" by fastforce
  obtain r ch2 k2 where c: "Close (e_sys e) (m_EPoll w) ch1 k1 = (r, ch2, k2)" by (metis prod_cases3)
  have "m_iFD ch2 = m_iFD ch" "m_id ch2 = m_id ch"
    using DisableAll_shape [of "e_sys e" "m_EPoll w" ch "kern w"] Close_shape [of "e_sys e" "m_EPoll w" ch1 k1] d c by auto
  from OnCloseChannel_safe [OF e i p this, of k2] show ?thesis
    using p d c v by (auto simp: Server_HandleClose_def)
qed

lemma close_virt_close [simp]: "vOnCloseChannel (close_virt e) = OnCloseChannel e"
  by (simp add: close_virt_def)

text \<open>\<open>CloseConnid\<close> ends the connection, and deletes its channel.\<close>

lemma CloseConnid_safe:
  assumes e: "env_ok e" and i: "conn_inv w"
  shows "\<exists>w'. CloseConnid e h w = Some w' \<and> conn_inv w' \<and> table_map (m_table w') = (table_map (m_table w))(h := None) \<and>
    (\<forall>fd a c. table_map (m_table w) h = Some (fd, a, c) \<longrightarrow> map_of (m_ChannelMap w') fd = None) \<and>
    m_config w' = m_config w \<and> length (m_cptrvec w') = length (m_cptrvec w)"
proof -
  have ti: "table_inv (m_table w)" and li: "conn_link w" using i by (auto simp: conn_inv_def)
  show ?thesis using ti
  proof (cases rule: GetConnectionRecord_cases [where h = h])
    case dead
    from close_rec_safe [OF i, of h] dead show ?thesis by (auto simp: CloseConnid_def get_rec_def)
  next
    case (live j r)
    from li live(8) obtain p ch where p: "map_of (m_ChannelMap w) (rec_iFD r) = Some p" "objs w p = Some ch" "m_id ch = h"
      unfolding conn_link_def by blast
    have fd: "m_iFD ch = rec_iFD r" using i p unfolding conn_inv_def server_inv_def by force
    from HandleClose_safe [OF e i p(2) close_virt_close] obtain w1 where
      w1: "Server_Disconnect (e_sys e) (close_virt e) p w = Some (0, w1)" "closes p ch w w1"
      by (auto simp: Server_Disconnect_def)
    then have i1: "conn_inv w1" by (simp add: closes_def)
    from close_rec_safe [OF this, of h] obtain t where
      t: "close_rec h w1 = Some (w1 \<lparr> m_table := t \<rparr>)" "conn_inv (w1 \<lparr> m_table := t \<rparr>)"
        "table_map t = (table_map (m_table w1))(h := None)" by blast
    have "CloseConnid e h w = Some (w1 \<lparr> m_table := t \<rparr>)"
      using live p(1) w1(1) t(1) by (simp add: CloseConnid_def get_rec_def)
    then show ?thesis using t w1(2) p(3) live(8) fd by (auto simp: closes_def)
  qed
qed

text \<open>An accepted descriptor that the server still has is closed first.\<close>

lemma drop_old_safe:
  assumes e: "env_ok e" and i: "conn_inv w" and v: "vOnCloseChannel vt = OnCloseChannel e"
  shows "\<exists>w1. (case map_of (m_ChannelMap w) fd of None \<Rightarrow> Some w
      | Some p \<Rightarrow> map_option snd (Server_Disconnect (e_sys e) vt p w)) = Some w1 \<and>
    conn_inv w1 \<and> map_of (m_ChannelMap w1) fd = None \<and> m_config w1 = m_config w \<and>
    length (m_cptrvec w1) = length (m_cptrvec w) \<and>
    (case map_of (m_ChannelMap w) fd of None \<Rightarrow> w1 = w | Some p \<Rightarrow> closes p (the (objs w p)) w w1)"
proof (cases "map_of (m_ChannelMap w) fd")
  case None
  then show ?thesis using i by simp
next
  case (Some p)
  then obtain ch where ch: "objs w p = Some ch" "m_iFD ch = fd" using i by (auto simp: conn_inv_def server_inv_def)
  from HandleClose_safe [OF e i ch(1) v] Some ch show ?thesis
    by (auto simp: Server_Disconnect_def closes_def)
qed

lemma conn_link_accept:
  assumes l: "conn_link w" and i: "server_inv w" and n: "map_of (m_ChannelMap w) fd = None"
    and o: "objs w' = (objs w)(next_obj w \<mapsto> ch)" "map_of (m_ChannelMap w') = (map_of (m_ChannelMap w))(fd \<mapsto> next_obj w)"
    and t: "\<And>h f a c. table_map (m_table w') h = Some (f, a, c) \<Longrightarrow>
      table_map (m_table w) h = Some (f, a, c) \<or> f = fd \<and> m_id ch = h"
  shows "conn_link w'"
  unfolding conn_link_def
proof (intro allI impI)
  fix h f a c assume h: "table_map (m_table w') h = Some (f, a, c)"
  from t [OF h] show "\<exists>p ch. map_of (m_ChannelMap w') f = Some p \<and> objs w' p = Some ch \<and> m_id ch = h"
  proof
    assume "table_map (m_table w) h = Some (f, a, c)"
    then obtain q c2 where q: "map_of (m_ChannelMap w) f = Some q" "objs w q = Some c2" "m_id c2 = h"
      using l unfolding conn_link_def by blast
    then have "q \<noteq> next_obj w" "f \<noteq> fd" using i n by (auto simp: server_inv_def)
    then show ?thesis using q o by (intro exI [of _ q] exI [of _ c2]) simp
  next
    assume "f = fd \<and> m_id ch = h"
    then show ?thesis using o by auto
  qed
qed

lemma server_inv_more: "server_inv (w \<lparr> m_parser := b, m_cptrvec := cs, m_table := t, kern := k \<rparr>) \<longleftrightarrow> server_inv w"
  by (simp add: server_inv_def)

lemma OnNewChannel_safe:
  assumes e: "env_ok e" and fd: "0 < fd"
    and d: "(case map_of (m_ChannelMap w) fd of None \<Rightarrow> Some w
      | Some p \<Rightarrow> map_option snd (Server_Disconnect (e_sys e) (close_virt e) p w)) = Some w1"
    and i: "conn_inv w1" and n: "map_of (m_ChannelMap w1) fd = None"
  shows "\<exists>r w' ch. OnNewChannel e fd addr w = Some (r, w') \<and> conn_inv w' \<and>
    map_of (m_ChannelMap w') = (map_of (m_ChannelMap w1))(fd \<mapsto> next_obj w1) \<and>
    objs w' = (objs w1)(next_obj w1 \<mapsto> ch) \<and> m_config w' = m_config w1 \<and> length (m_cptrvec w') = length (m_cptrvec w1) \<and>
    (if m_idxvec (m_table w1) = [] then r = -1 \<and> m_table w' = m_table w1 \<and> m_id ch = 0
     else r = 0 \<and> (\<exists>h c. table_map (m_table w1) h = None \<and> m_id ch = h \<and>
       (table_map (m_table w') = table_map (m_table w1) \<or>
        table_map (m_table w') = (table_map (m_table w1))(h \<mapsto> (fd, addr, c)))))"
proof -
  let ?p = "next_obj w1" and ?M = "omap_set fd (next_obj w1) (m_ChannelMap w1)"
  have si: "server_inv w1" and ti: "table_inv (m_table w1)" and li: "conn_link w1"
    and ci: "clients_ok (m_cptrvec w1)" "length (m_cptrvec w1) < 2147483648"
    and mx: "length (m_vec (m_table w1)) = maxconn (m_config w1)" using i by (auto simp: conn_inv_def)
  from accept_new [OF si n, of "e_sys e"] obtain ch k where
    a: "AcceptedFD (e_sys e) ?p fd (set_obj ?p ServerChannel_new w1 \<lparr> next_obj := ?p + 1, m_ChannelMap := ?M \<rparr>) =
        Some (0, w1 \<lparr> objs := (objs w1)(?p \<mapsto> ch), next_obj := ?p + 1, m_ChannelMap := ?M, kern := k \<rparr>)"
      "server_inv (w1 \<lparr> objs := (objs w1)(?p \<mapsto> ch), next_obj := ?p + 1, m_ChannelMap := ?M, kern := k \<rparr>)"
      "m_iFD ch = fd" "pending ch = []" "m_id ch = 0" "send_inv ch" by blast
  let ?w2 = "w1 \<lparr> objs := (objs w1)(?p \<mapsto> ch), next_obj := ?p + 1, m_ChannelMap := ?M, kern := k \<rparr>"
  have sn: "Server_OnNewChannel (e_sys e) (close_virt e) fd addr w = Some (0, ?w2)"
    unfolding Server_OnNewChannel_def d Option.bind.simps Let_def using a(1) by (simp add: set_obj_def)
  have mf: "map_of (m_ChannelMap ?w2) fd = Some ?p" by simp
  have o2: "objs ?w2 ?p = Some ch" by simp
  show ?thesis
  proof (cases "m_idxvec (m_table w1) = []")
    case True
    obtain z ch' k' where c: "Close (e_sys e) (m_EPoll w1) ch k = (z, ch', k')" by (metis prod_cases3)
    then obtain q where ch': "ch' = ch \<lparr> m_iEvents := kNoneEvent, m_isPooling := q \<rparr>"
      using Close_shape [of "e_sys e" "m_EPoll w1" ch k] by auto
    have "send_inv ch'" using a(4,6) by (auto simp: ch' send_inv_def pending_def chan_inv_def)
    then have s3: "server_inv (set_obj ?p ch' ?w2 \<lparr> kern := k' \<rparr>)"
      by (intro server_inv_set [OF a(2) o2]) (simp add: ch')
    let ?w3 = "set_obj ?p ch' ?w2 \<lparr> kern := k' \<rparr>"
    have "conn_link ?w3" by (rule conn_link_accept [OF li si n, where ch = ch']) (simp_all add: set_obj_def)
    then have "conn_inv ?w3" using s3 i by (simp add: conn_inv_def set_obj_def)
    moreover have "OnNewChannel e fd addr w = Some (-1, ?w3)"
      using sn mf RecoredNewConn_full [OF True] c by (simp add: OnNewChannel_def)
    ultimately show ?thesis using True ch' a(5) by (intro exI [of _ "-1"] exI [of _ ?w3] exI [of _ ch']) (simp add: set_obj_def)
  next
    case False
    from RecoredNewConn_room [OF ti False fd, of "int (maxconn (m_config w1))" addr] obtain h t c where
      t: "RecoredNewConn (int (maxconn (m_config w1))) fd addr (m_table w1) = Some (h, t)" "table_inv t" "0 \<le> h"
        "table_map (m_table w1) h = None" "table_map t = (table_map (m_table w1))(h \<mapsto> (fd, addr, c))"
        "length (m_vec t) = length (m_vec (m_table w1))" by blast
    let ?ch = "ch \<lparr> m_id := h \<rparr>"
    let ?w3 = "set_obj ?p ?ch (?w2 \<lparr> m_table := t \<rparr>)"
    have "send_inv ?ch" using a(6) by (simp add: send_inv_def pending_def chan_inv_def IsWriting_def)
    then have "server_inv (set_obj ?p ?ch ?w2 \<lparr> kern := k \<rparr>)" by (intro server_inv_set [OF a(2) o2]) simp_all
    then have "server_inv ?w3" by (simp add: server_inv_def set_obj_def)
    moreover have "conn_link ?w3"
      by (rule conn_link_accept [OF li si n, where ch = ?ch]) (auto simp: set_obj_def t(5) split: if_splits)
    ultimately have i3: "conn_inv ?w3" using i t by (simp add: conn_inv_def set_obj_def)
    have ci3: "clients_ok (m_cptrvec ?w3)" "0 < int (length (m_cptrvec ?w3))"
      using ci by (auto simp: clients_ok_def set_obj_def)
    from e obtain wire ready where ev: "pb_safe (e_pb e)" "write_spec (e_sys e) wire ready" by (auto simp: env_ok_def)
    from SendMsg_safe [OF ev ci3(1) order_refl ci3(2)] obtain r b cs k' where
      s: "ConnClient_SendMsg e 0 (start_msg e h addr ?w3) ?w3 = Some (r, ?w3 \<lparr> m_parser := b, m_cptrvec := cs, kern := k' \<rparr>)"
        "clients_ok cs" "length cs = length (m_cptrvec ?w3)" by blast
    let ?w4 = "?w3 \<lparr> m_parser := b, m_cptrvec := cs, kern := k' \<rparr>"
    have i4: "conn_inv ?w4" by (rule conn_inv_send [OF i3 s(2,3)])
    from close_rec_safe [OF i4, of h] obtain t' where
      c: "close_rec h ?w4 = Some (?w4 \<lparr> m_table := t' \<rparr>)" "conn_inv (?w4 \<lparr> m_table := t' \<rparr>)"
        "table_map t' = (table_map (m_table ?w4))(h := None)" by blast
    have t4: "m_table ?w4 = t" by (simp add: set_obj_def)
    have tt: "table_map t' = table_map (m_table w1)" using c(3) t(4,5) unfolding t4 by (simp add: fun_upd_idem)
    define w5 where "w5 = (if r \<noteq> 0 then ?w4 \<lparr> m_table := t' \<rparr> else ?w4)"
    have "\<not> h < 0" using t(3) by simp
    then have "OnNewChannel e fd addr w = Some (0, w5)"
      using sn mf o2 t(1) s(1) c(1) by (simp add: OnNewChannel_def w5_def)
    moreover have "conn_inv w5" using i4 c(2) by (simp add: w5_def)
    moreover have "map_of (m_ChannelMap w5) = (map_of (m_ChannelMap w1))(fd \<mapsto> ?p)" "objs w5 = (objs w1)(?p \<mapsto> ?ch)"
      "m_config w5 = m_config w1" "length (m_cptrvec w5) = length (m_cptrvec w1)" using s(3) by (auto simp: set_obj_def w5_def)
    moreover have "table_map (m_table w5) = table_map (m_table w1) \<or>
        table_map (m_table w5) = (table_map (m_table w1))(h \<mapsto> (fd, addr, c))" using tt t(5) t4 by (simp add: w5_def)
    moreover have "m_id ?ch = h" by simp
    ultimately show ?thesis unfolding if_not_P [OF False] using t(4) by blast
  qed
qed

text \<open>Changing the route of a connection.\<close>

lemma upd_channel:
  assumes i: "table_inv t" and j: "j < length (m_vec t)" and r: "r = m_vec t ! j" "IsValid r"
  shows "\<exists>t'. upd_rec (int j) (SetChannelid c) t = Some t' \<and> table_inv t' \<and> length (m_vec t') = length (m_vec t) \<and>
    m_vec t' ! j = SetChannelid c r \<and> table_map t' = (table_map t)(m_connid r \<mapsto> (rec_iFD r, m_addr r, c))"
proof -
  let ?n = "length (m_vec t)"
  let ?t = "t \<lparr> m_vec := (m_vec t)[j := SetChannelid c r] \<rparr>"
  have ri: "rec_inv ?n j r" using i j r(1) by (simp add: table_inv_def)
  have v: "IsValid (m_vec ?t ! a) \<longleftrightarrow> IsValid (m_vec t ! a)" if "a < ?n" for a
    using that r j by (simp add: nth_list_update IsValid_def SetChannelid_def)
  have "table_inv ?t"
    unfolding table_inv_def
  proof (intro conjI allI impI)
    show "0 < length (m_vec ?t)" "length (m_vec ?t) < 2147483648" "distinct (m_idxvec ?t)"
      using i by (simp_all add: table_inv_def)
    show "rec_inv (length (m_vec ?t)) a (m_vec ?t ! a)" if "a < length (m_vec ?t)" for a
      using that i ri j by (auto simp: table_inv_def nth_list_update rec_inv_def SetChannelid_def)
    have "{a. a < length (m_vec ?t) \<and> \<not> IsValid (m_vec ?t ! a)} = {a. a < ?n \<and> \<not> IsValid (m_vec t ! a)}"
      using v by auto
    then show "set (m_idxvec ?t) = int ` {a. a < length (m_vec ?t) \<and> \<not> IsValid (m_vec ?t ! a)}"
      using i by (simp add: table_inv_def)
  qed
  moreover have "table_map ?t = (table_map t)(m_connid r \<mapsto> (rec_iFD r, m_addr r, c))"
  proof
    fix h
    have c: "0 \<le> m_connid r" "m_connid r mod int ?n = int j" using ri by (auto simp: rec_inv_def)
    show "table_map ?t h = ((table_map t)(m_connid r \<mapsto> (rec_iFD r, m_addr r, c))) h"
    proof (cases "0 \<le> h \<and> nat (h mod int ?n) = j")
      case True
      then show ?thesis using j r c by (auto simp: table_map_def Let_def IsValid_def SetChannelid_def)
    next
      case False
      then have "h \<noteq> m_connid r" using c by auto
      then show ?thesis using False by (auto simp: table_map_def Let_def)
    qed
  qed
  moreover have "upd_rec (int j) (SetChannelid c) t = Some ?t" using j r(1) by (simp add: upd_rec_def arr_simps)
  ultimately show ?thesis using j by auto
qed

lemma reroute_safe:
  assumes i: "conn_inv w" and j: "j < length (m_vec (m_table w))" and r: "r = m_vec (m_table w) ! j" "IsValid r"
  shows "\<exists>t. upd_rec (int j) (SetChannelid c) (m_table w) = Some t \<and> conn_inv (w \<lparr> m_table := t \<rparr>) \<and>
    arr_get (m_vec t) (int j) = Some (SetChannelid c r)"
proof -
  have ti: "table_inv (m_table w)" using i by (simp add: conn_inv_def)
  from upd_channel [OF ti j r, of c] obtain t where
    t: "upd_rec (int j) (SetChannelid c) (m_table w) = Some t" "table_inv t" "length (m_vec t) = length (m_vec (m_table w))"
      "m_vec t ! j = SetChannelid c r" "table_map t = (table_map (m_table w))(m_connid r \<mapsto> (rec_iFD r, m_addr r, c))" by blast
  have "table_map (m_table w) (m_connid r) = Some (rec_iFD r, m_addr r, m_channelid r)"
    using j r unfolding table_map_iff [OF ti] by blast
  then have "conn_link (w \<lparr> m_table := t \<rparr>)" using i t(5) unfolding conn_inv_def conn_link_def
    by (auto split: if_splits)
  then have "conn_inv (w \<lparr> m_table := t \<rparr>)" using i t by (simp add: conn_inv_def server_inv_def)
  then show ?thesis using t j by (simp add: arr_simps)
qed

lemma conn_inv_set:
  assumes i: "conn_inv w" and p: "objs w p = Some ch" and ch': "m_iFD ch' = m_iFD ch" "m_id ch' = m_id ch" "send_inv ch'"
  shows "conn_inv (set_obj p ch' w \<lparr> kern := k \<rparr>)"
proof -
  have "server_inv (set_obj p ch' w \<lparr> kern := k \<rparr>)" using i p ch' by (intro server_inv_set) (auto simp: conn_inv_def)
  moreover have "conn_link (set_obj p ch' w \<lparr> kern := k \<rparr>)"
    unfolding conn_link_def
  proof (intro allI impI)
    fix h fd a c assume "table_map (m_table (set_obj p ch' w \<lparr> kern := k \<rparr>)) h = Some (fd, a, c)"
    then obtain q c2 where "map_of (m_ChannelMap w) fd = Some q" "objs w q = Some c2" "m_id c2 = h"
      using i unfolding conn_inv_def conn_link_def by (fastforce simp: set_obj_def)
    then show "\<exists>q c2. map_of (m_ChannelMap (set_obj p ch' w \<lparr> kern := k \<rparr>)) fd = Some q \<and>
        objs (set_obj p ch' w \<lparr> kern := k \<rparr>) q = Some c2 \<and> m_id c2 = h"
      using p ch'(2) by (intro exI [of _ q] exI [of _ "if q = p then ch' else c2"]) (auto simp: set_obj_def)
  qed
  ultimately show ?thesis using i by (simp add: conn_inv_def set_obj_def)
qed

section \<open>Every handler keeps the invariant\<close>

definition safe_step :: "'k EpollServer \<Rightarrow> (int \<times> 'k EpollServer) fault \<Rightarrow> bool" where
  "safe_step w res \<longleftrightarrow> (\<exists>r w'. res = Some (r, w') \<and> conn_inv w' \<and> m_config w' = m_config w \<and>
     length (m_cptrvec w') = length (m_cptrvec w))"

lemma safe_close:
  assumes "env_ok e" and "conn_inv w"
  shows "safe_step w (do { w \<leftarrow> CloseConnid e h w; Some (r, w) })"
  using CloseConnid_safe [OF assms, of h] by (auto simp: safe_step_def)

lemma StartRsp_safe:
  assumes e: "env_ok e" and i: "conn_inv w"
  shows "safe_step w (StartRspHandle e msg ci w)"
proof -
  have "table_inv (m_table w)" using i by (simp add: conn_inv_def)
  then show ?thesis
  proof (cases rule: GetConnectionRecord_cases [where h = "s32 (connid (head msg))"])
    case dead
    then show ?thesis using i by (simp add: StartRspHandle_def get_rec_def safe_step_def)
  next
    case (live j r)
    from reroute_safe [OF i live(2,3,5), of "s32 (routechannel (get_startrsp msg))"] live(1) show ?thesis
      using safe_close [OF e i, of "s32 (connid (head msg))" 0]
      by (auto simp: StartRspHandle_def get_rec_def Let_def safe_step_def)
  qed
qed

lemma send_safe:
  assumes e: "env_ok e" and i: "conn_inv w"
  shows "\<exists>r w'. EpollServer_SendMsg e ch msg w = Some (r, w') \<and> conn_inv w' \<and> m_config w' = m_config w \<and>
    m_table w' = m_table w \<and> length (m_cptrvec w') = length (m_cptrvec w)"
proof -
  have "clients_ok (m_cptrvec w)" "length (m_cptrvec w) < 2147483648" using i by (auto simp: conn_inv_def)
  from server_SendMsg_env [OF e this, of ch msg] obtain r b cs k where
    "EpollServer_SendMsg e ch msg w = Some (r, w \<lparr> m_parser := b, m_cptrvec := cs, kern := k \<rparr>)" "clients_ok cs"
    "length cs = length (m_cptrvec w)" by blast
  then show ?thesis using conn_inv_send [OF i, where cs = cs and b = b and k = k] by auto
qed

lemma send_close_safe:
  assumes e: "env_ok e" and i: "conn_inv w"
  shows "safe_step w (do { (_, w) \<leftarrow> EpollServer_SendMsg e ch msg w; w \<leftarrow> CloseConnid e h w; Some (r, w) })"
proof -
  from send_safe [OF e i, of ch msg] obtain x w1 where
    s: "EpollServer_SendMsg e ch msg w = Some (x, w1)" "conn_inv w1" "m_config w1 = m_config w"
      "length (m_cptrvec w1) = length (m_cptrvec w)" by blast
  from safe_close [OF e s(2), of h r] s show ?thesis by (simp add: safe_step_def)
qed

lemma Stop_safe:
  assumes e: "env_ok e" and i: "conn_inv w"
  shows "safe_step w (StopHandle e msg ci w)"
proof -
  have "table_inv (m_table w)" using i by (simp add: conn_inv_def)
  then show ?thesis
  proof (cases rule: GetConnectionRecord_cases [where h = "s32 (connid (head msg))"])
    case dead
    then show ?thesis using i by (simp add: StopHandle_def get_rec_def safe_step_def)
  next
    case (live j r)
    then show ?thesis using send_close_safe [OF e i] by (simp add: StopHandle_def get_rec_def Let_def)
  qed
qed

lemma send_only_safe:
  assumes e: "env_ok e" and i: "conn_inv w"
  shows "safe_step w (do { (_, w) \<leftarrow> EpollServer_SendMsg e ch msg w; Some (r, w) })"
  using send_safe [OF e i, of ch msg] by (auto simp: safe_step_def)

lemma Route_safe:
  assumes e: "env_ok e" and i: "conn_inv w"
  shows "safe_step w (RouteHandle e msg ci w)"
proof -
  have "table_inv (m_table w)" using i by (simp add: conn_inv_def)
  then show ?thesis
  proof (cases rule: GetConnectionRecord_cases [where h = "s32 (connid (head msg))"])
    case dead
    then show ?thesis using i by (simp add: RouteHandle_def get_rec_def safe_step_def)
  next
    case (live j r)
    let ?c = "s32 (routechannel (get_startrsp msg))"
    from reroute_safe [OF i live(2,3,5), of ?c] obtain t where
      t: "upd_rec (int j) (SetChannelid ?c) (m_table w) = Some t" "conn_inv (w \<lparr> m_table := t \<rparr>)"
        "arr_get (m_vec t) (int j) = Some (SetChannelid ?c r)" by blast
    show ?thesis
    proof (cases "IsChannelIdValid ?c w")
      case True
      then show ?thesis using live(1,4) t send_only_safe [OF e t(2)]
        by (simp add: RouteHandle_def get_rec_def Let_def safe_step_def)
    next
      case False
      then show ?thesis using live(1,4) send_only_safe [OF e i]
        by (simp add: RouteHandle_def get_rec_def Let_def)
    qed
  qed
qed

lemma conn_send_safe:
  assumes e: "env_ok e" and i: "conn_inv w" and p: "objs w p = Some ch" and l: "int (length xs) < 2147483648"
  shows "\<exists>r w'. Server_SendMsg (e_sys e) p xs w = Some (r, w') \<and> safe_step w (Some (r, w'))"
proof -
  from e obtain wire ready where sp: "write_spec (e_sys e) wire ready" by (auto simp: env_ok_def)
  have "send_inv ch" using i p by (auto simp: conn_inv_def server_inv_def)
  from DoSend_stream [OF sp this l, of "m_EPoll w" "kern w"] obtain r ch' k' where
    d: "DoSend (e_sys e) (m_EPoll w) ch xs (kern w) = Some (r, ch', k')" "send_inv ch'" "send_frame ch ch'" by blast
  have "m_id ch' = m_id ch" "m_iFD ch' = m_iFD ch" using d(3) by (auto simp: send_frame_def)
  from conn_inv_set [OF i p this(2,1) d(2), of k'] d(1) p show ?thesis
    by (simp add: Server_SendMsg_def safe_step_def set_obj_def)
qed

lemma MsgNtf_safe:
  assumes e: "env_ok e" and i: "conn_inv w" and ci: "0 \<le> ci" "ci < int (length (m_cptrvec w))"
    and l: "int (length (get_buff msg)) < 2147483648"
  shows "safe_step w (MsgNtfHandle e msg ci w)"
proof -
  have ti: "table_inv (m_table w)" using i by (simp add: conn_inv_def)
  then show ?thesis
  proof (cases rule: GetConnectionRecord_cases [where h = "s32 (connid (head msg))"])
    case dead
    have "arr_get (m_cptrvec w) ci = Some (m_cptrvec w ! nat ci)" using ci by (simp add: arr_get_def)
    then show ?thesis using dead send_only_safe [OF e i] by (simp add: MsgNtfHandle_def get_rec_def)
  next
    case (live j r)
    from i live(8) obtain p ch where p: "map_of (m_ChannelMap w) (rec_iFD r) = Some p" "objs w p = Some ch"
      unfolding conn_inv_def conn_link_def by blast
    from conn_send_safe [OF e i p(2) l] obtain x w' where
      "Server_SendMsg (e_sys e) p (get_buff msg) w = Some (x, w')" "safe_step w (Some (x, w'))" by blast
    then show ?thesis using live(1,4) p(1)
      by (simp add: MsgNtfHandle_def get_rec_def GetSvrChannel_def safe_step_def)
  qed
qed

lemma HandleMsg_safe:
  assumes "env_ok e" and "conn_inv w" and "0 \<le> ci" "ci < int (length (m_cptrvec w))"
    and "int (length (get_buff msg)) < 2147483648"
  shows "safe_step w (HandleMsg e msg ci w)"
proof -
  have "safe_step w (Some (-1, w))" using assms(2) by (simp add: safe_step_def)
  then show ?thesis
    using StartRsp_safe [OF assms(1,2)] Stop_safe [OF assms(1,2)] Route_safe [OF assms(1,2)] MsgNtf_safe [OF assms]
    by (simp add: HandleMsg_def m_handleArr_def)
qed

section \<open>Events\<close>

text \<open>
  What can happen to the server: a new client, a client's channel that hangs up, becomes
  writable or fails, a message of the server behind channel \<open>i\<close>, and the socket of channel \<open>i\<close>
  becoming writable or hanging up.
\<close>

datatype conn_ev = NewClient int sockaddr_in | ClientHup int | ClientWritable int | ClientError int
  | BackMsg ConnsvrMsg int | BackWritable int | BackHup int

fun conn_step :: "'k env \<Rightarrow> conn_ev \<Rightarrow> 'k EpollServer \<Rightarrow> (int \<times> 'k EpollServer) fault" where
  "conn_step e (NewClient fd addr) w = vOnNewChannel (conn_virt e) fd addr w"
| "conn_step e (ClientHup p) w = Server_HandleClose (e_sys e) (conn_virt e) p w"
| "conn_step e (ClientWritable p) w = Server_HandleCanSend (e_sys e) p w"
| "conn_step e (ClientError p) w = Server_HandleError (e_sys e) p w"
| "conn_step e (BackMsg msg i) w = HandleMsg e msg i w"
| "conn_step e (BackWritable i) w = do {
     c \<leftarrow> arr_get (m_cptrvec w) i;
     (r, c, k) \<leftarrow> Client_HandleCanSend (e_sys e) (m_EPoll w) c (kern w);
     Some (r, w \<lparr> m_cptrvec := (m_cptrvec w)[nat i := c], kern := k \<rparr>)
   }"
| "conn_step e (BackHup i) w = do {
     c \<leftarrow> arr_get (m_cptrvec w) i;
     let (r, c, k) = Client_HandleClose (e_sys e) (m_EPoll w) c (kern w);
     Some (r, w \<lparr> m_cptrvec := (m_cptrvec w)[nat i := c], kern := k \<rparr>)
   }"

fun conn_ev_ok :: "conn_ev \<Rightarrow> 'k EpollServer \<Rightarrow> bool" where
  "conn_ev_ok (NewClient fd addr) w \<longleftrightarrow> 0 < fd"
| "conn_ev_ok (ClientHup p) w \<longleftrightarrow> objs w p \<noteq> None"
| "conn_ev_ok (ClientWritable p) w \<longleftrightarrow> objs w p \<noteq> None"
| "conn_ev_ok (ClientError p) w \<longleftrightarrow> objs w p \<noteq> None"
| "conn_ev_ok (BackMsg msg i) w \<longleftrightarrow> 0 \<le> i \<and> i < int (length (m_cptrvec w)) \<and> int (length (get_buff msg)) < 2147483648"
| "conn_ev_ok (BackWritable i) w \<longleftrightarrow> 0 \<le> i \<and> i < int (length (m_cptrvec w))"
| "conn_ev_ok (BackHup i) w \<longleftrightarrow> 0 \<le> i \<and> i < int (length (m_cptrvec w))"

inductive conn_reach :: "'k env \<Rightarrow> 'k EpollServer \<Rightarrow> 'k EpollServer \<Rightarrow> bool"
  for e :: "'k env" and w0 :: "'k EpollServer" where
  start: "conn_reach e w0 w0"
| step: "conn_reach e w0 w \<Longrightarrow> conn_ev_ok ev w \<Longrightarrow> conn_step e ev w = Some (r, w') \<Longrightarrow> conn_reach e w0 w'"

lemma conn_inv_client:
  assumes i: "conn_inv w" and c: "client_ok c"
  shows "conn_inv (w \<lparr> m_cptrvec := (m_cptrvec w)[n := c], kern := k \<rparr>)"
proof -
  have "clients_ok ((m_cptrvec w)[n := c])"
    using i c set_update_subset_insert [of "m_cptrvec w" n c] by (fastforce simp: conn_inv_def clients_ok_def)
  then show ?thesis using conn_inv_send [OF i, where cs = "(m_cptrvec w)[n := c]" and b = "m_parser w" and k = k] by simp
qed

lemma conn_step_safe:
  assumes e: "env_ok e" and i: "conn_inv w" and ok: "conn_ev_ok ev w"
  shows "safe_step w (conn_step e ev w)"
proof -
  from e obtain wire ready where sp: "write_spec (e_sys e) wire ready" by (auto simp: env_ok_def)
  show ?thesis
  proof (cases ev)
    case (NewClient fd addr)
    from drop_old_safe [OF e i close_virt_close, of fd] obtain w1 where
      w1: "(case map_of (m_ChannelMap w) fd of None \<Rightarrow> Some w
        | Some p \<Rightarrow> map_option snd (Server_Disconnect (e_sys e) (close_virt e) p w)) = Some w1" "conn_inv w1"
        "map_of (m_ChannelMap w1) fd = None" "m_config w1 = m_config w" "length (m_cptrvec w1) = length (m_cptrvec w)" by blast
    have "0 < fd" using ok NewClient by simp
    from OnNewChannel_safe [OF e this w1(1-3), of addr] w1(4,5) NewClient show ?thesis
      by (auto simp: safe_step_def conn_virt_def)
  next
    case (ClientHup p)
    then obtain ch where "objs w p = Some ch" using ok by auto
    from HandleClose_safe [OF e i this, of "conn_virt e"] ClientHup show ?thesis
      by (auto simp: safe_step_def closes_def conn_virt_def)
  next
    case (ClientWritable p)
    then obtain ch where p: "objs w p = Some ch" using ok by auto
    then have "send_inv ch" using i by (auto simp: conn_inv_def server_inv_def)
    from DoContineSend_stream [OF sp this, of "m_EPoll w" "kern w"] obtain ch' k' where
      d: "DoContineSend (e_sys e) (m_EPoll w) ch (kern w) = Some (0, ch', k')" "send_inv ch'" "send_frame ch ch'" by blast
    have "m_iFD ch' = m_iFD ch" "m_id ch' = m_id ch" using d(3) by (auto simp: send_frame_def)
    from conn_inv_set [OF i p this d(2), of k'] d(1) p ClientWritable show ?thesis
      by (simp add: Server_HandleCanSend_def safe_step_def set_obj_def)
  next
    case (ClientError p)
    then obtain ch where p: "objs w p = Some ch" using ok by auto
    obtain x k where "GetSocketError (e_sys e) ch (kern w) = (x, k)" by fastforce
    moreover have "conn_inv (w \<lparr> kern := k \<rparr>)"
      using i unfolding conn_inv_def conn_link_def server_inv_def by simp
    ultimately show ?thesis using ClientError p by (simp add: Server_HandleError_def safe_step_def)
  next
    case (BackMsg msg i')
    then show ?thesis using HandleMsg_safe [OF e i] ok by simp
  next
    case (BackWritable n)
    let ?c = "m_cptrvec w ! nat n"
    have g: "arr_get (m_cptrvec w) n = Some ?c" "client_ok ?c"
      using ok BackWritable i by (auto simp: arr_get_def conn_inv_def clients_ok_def)
    from HandleCanSend_ok [OF sp g(2), of "m_EPoll w" "kern w"] obtain r c' k' where
      c: "Client_HandleCanSend (e_sys e) (m_EPoll w) ?c (kern w) = Some (r, c', k')" "client_ok c'" by blast
    show ?thesis using BackWritable g(1) c(1) conn_inv_client [OF i c(2), where n = "nat n" and k = k'] by (simp add: safe_step_def)
  next
    case (BackHup n)
    let ?c = "m_cptrvec w ! nat n"
    have g: "arr_get (m_cptrvec w) n = Some ?c" "client_ok ?c"
      using ok BackHup i by (auto simp: arr_get_def conn_inv_def clients_ok_def)
    obtain r c' k' where c: "Client_HandleClose (e_sys e) (m_EPoll w) ?c (kern w) = (r, c', k')" by (metis prod_cases3)
    have "client_ok c'" using HandleClose_ok(1) [OF g(2), of "e_sys e" "m_EPoll w" "kern w"] c by simp
    from conn_inv_client [OF i this, where n = "nat n" and k = k'] show ?thesis using BackHup g(1) c by (simp add: safe_step_def)
  qed
qed

text \<open>A new server.\<close>

lemma ConnClient_new_ok: "client_ok (fst (ConnClient_new e addr n k))"
  using TcpClient_new_ok [of "e_sys e" addr k]
  by (cases "m_state (fst (TcpClient_new (e_sys e) addr k))")
    (simp_all add: ConnClient_new_def split_beta client_ok_def chan_inv_def pending_def IsWriting_def)

lemma connect_all_ok:
  "(\<forall>c \<in> set (fst (connect_all e ep n chs k)). client_ok c) \<and> length (fst (connect_all e ep n chs k)) = length chs"
proof (induction chs arbitrary: n k)
  case (Cons ch chs)
  obtain c k1 where c: "ConnClient_new e (InetAddress_ip (e_pton e) (ch_ip ch) (ch_port ch mod 65536)) n k = (c, k1)" by fastforce
  then have "client_ok c" using ConnClient_new_ok [of e "InetAddress_ip (e_pton e) (ch_ip ch) (ch_port ch mod 65536)" n k] by simp
  moreover obtain r c' k2 where d: "Connect (e_sys e) ep c k1 = (r, c', k2)" by (metis prod_cases3)
  ultimately have "client_ok c'" using Connect_ok [of c "e_sys e" ep k1] by simp
  moreover obtain cs k3 where "connect_all e ep (n + 1) chs k2 = (cs, k3)" by fastforce
  ultimately show ?case using c d Cons.IH [of "n + 1" k2] by simp
qed simp

lemma EpollServer_new_inv:
  assumes "0 < maxconn cfg" and "maxconn cfg < 2147483648" and "length (channel cfg) < 2147483647"
  shows "conn_inv (EpollServer_new e poll addr b cfg g parser t k)"
    and "table_map (m_table (EpollServer_new e poll addr b cfg g parser t k)) = Map.empty"
    and "m_config (EpollServer_new e poll addr b cfg g parser t k) = cfg"
    and "m_ChannelMap (EpollServer_new e poll addr b cfg g parser t k) = []"
    and "length (m_cptrvec (EpollServer_new e poll addr b cfg g parser t k)) = Suc (length (channel cfg))"
    and "m_table (EpollServer_new e poll addr b cfg g parser t k) = ConnTable_new (maxconn cfg) g"
proof -
  let ?w = "EpollServer_new e poll addr b cfg g parser t k"
  let ?s = "TcpServer_new (e_sys e) poll addr b k"
  let ?chs = "defaultchannel cfg # channel cfg"
  obtain cs k1 where cs: "connect_all e poll 0 ?chs (kern ?s) = (cs, k1)" by fastforce
  have w: "?w = \<lparr> m_EPoll = m_EPoll ?s, m_Acceptor = m_Acceptor ?s, m_ChannelMap = m_ChannelMap ?s, objs = objs ?s,
      next_obj = next_obj ?s, kern = k1, m_cptrvec = cs, m_table = ConnTable_new (maxconn cfg) g,
      m_parser = parser, m_config = cfg, now = t \<rparr>"
    unfolding EpollServer_new_def Let_def cs prod.case ..
  have ok: "(\<forall>c \<in> set cs. client_ok c) \<and> length cs = length ?chs" using connect_all_ok [of e poll 0 ?chs "kern ?s"] cs by simp
  have tb: "table_inv (ConnTable_new (maxconn cfg) g)" "table_map (ConnTable_new (maxconn cfg) g) = Map.empty"
    by (rule ConnTable_new_inv [OF assms(1,2)])+
  have "server_inv ?s" by (rule TcpServer_new_inv)
  then have "server_inv ?w" by (simp add: w server_inv_def)
  moreover have "conn_link ?w" using tb(2) by (simp add: w conn_link_def)
  moreover have "clients_ok cs" "length cs < 2147483648" using ok assms(3) by (auto simp: clients_ok_def)
  ultimately show "conn_inv ?w" using tb(1) by (simp add: w conn_inv_def ConnTable_new_def)
  show "table_map (m_table ?w) = Map.empty" "m_config ?w = cfg" "m_table ?w = ConnTable_new (maxconn cfg) g"
    using tb(2) by (simp_all add: w)
  show "length (m_cptrvec ?w) = Suc (length (channel cfg))" using ok by (simp add: w)
  show "m_ChannelMap ?w = []" by (simp add: w TcpServer_new_def split_beta Let_def)
qed

section \<open>Properties\<close>


text \<open>A concrete environment: a slow kernel and messages without content.\<close>

definition still_env :: "(int \<Rightarrow> byte list) env" where
  "still_env = \<lparr> e_sys = slow_sys, e_pb = \<lparr> pb_ByteSize = (\<lambda>_. 0), pb_SerializeToArray = (\<lambda>_. Some []),
     pb_ParseFromArray = (\<lambda>_. None), pb_protocolpacket = True \<rparr>, e_ntop = (\<lambda>_. None), e_pton = (\<lambda>_. None) \<rparr>"

definition one_cfg :: ConnSvrCfg where
  "one_cfg = \<lparr> cfg_port = 80, maxconn = 1, maxidletime = 0, msglenpos = 0, msglensize = 4,
     defaultchannel = \<lparr> ch_ip = [], ch_port = 81 \<rparr>, channel = [] \<rparr>"

definition blank_rec :: ConnectionRecord where
  "blank_rec = \<lparr> m_idx = 0, m_connid = 0, rec_iFD = 0, m_channelid = 0, m_addr = bzero_addr, m_LastActiveTime = 0 \<rparr>"

definition still_server :: "(int \<Rightarrow> byte list) EpollServer" where
  "still_server = EpollServer_new still_env (EPollPoller_new 3) bzero_addr True one_cfg blank_rec [] 0 (\<lambda>_. [])"

lemma still_env_ok: "env_ok still_env"
  using slow_sys_spec by (auto simp: env_ok_def still_env_def pb_safe_def)


text \<open>
  C23. A refused client takes down another one: when the connection table is full, a new client's
  channel is closed but stays in the channel map with id 0. The next client that gets the same
  descriptor makes the server disconnect that channel, which ends the connection with id 0,
  although its client is connected through another descriptor and its channel still exists.
\<close>

theorem refused_accept_ends_connection_0:
  assumes "env_ok e" and "conn_inv w" and "m_idxvec (m_table w) = []" and "0 < fd"
    and "map_of (m_ChannelMap w) fd = None" and "table_map (m_table w) 0 = Some (fd0, a0, c0)"
  shows "\<exists>w1 w2 r. OnNewChannel e fd a1 w = Some (-1, w1) \<and> table_map (m_table w1) 0 = Some (fd0, a0, c0) \<and>
    OnNewChannel e fd a2 w1 = Some (r, w2) \<and> (\<forall>a c. table_map (m_table w2) 0 \<noteq> Some (fd0, a, c)) \<and>
    map_of (m_ChannelMap w2) fd0 \<noteq> None"
proof -
  from assms(2,6) obtain p0 where p0: "map_of (m_ChannelMap w) fd0 = Some p0" unfolding conn_inv_def conn_link_def by blast
  then have ne: "fd0 \<noteq> fd" using assms(5) by auto
  have d: "(case map_of (m_ChannelMap w) fd of None \<Rightarrow> Some w
      | Some p \<Rightarrow> map_option snd (Server_Disconnect (e_sys e) (close_virt e) p w)) = Some w" using assms(5) by simp
  from OnNewChannel_safe [OF assms(1,4) d assms(2,5), of a1] assms(3) obtain w1 ch where
    w1: "OnNewChannel e fd a1 w = Some (-1, w1)" "conn_inv w1" "m_table w1 = m_table w" "m_id ch = 0"
      "map_of (m_ChannelMap w1) = (map_of (m_ChannelMap w))(fd \<mapsto> next_obj w)" "objs w1 = (objs w)(next_obj w \<mapsto> ch)"
    by auto
  from drop_old_safe [OF assms(1) w1(2) close_virt_close, of fd] obtain w1' where
    d': "(case map_of (m_ChannelMap w1) fd of None \<Rightarrow> Some w1
        | Some p \<Rightarrow> map_option snd (Server_Disconnect (e_sys e) (close_virt e) p w1)) = Some w1'" "conn_inv w1'"
      "map_of (m_ChannelMap w1') fd = None" "closes (next_obj w) ch w1 w1'" using w1(5,6) by auto
  have "map_of (m_ChannelMap w1) fd = Some (next_obj w)" using w1(5) by simp
  then have "\<exists>c. objs w1 (next_obj w) = Some c \<and> m_iFD c = fd" using w1(2) unfolding conn_inv_def server_inv_def by blast
  then have fdch: "m_iFD ch = fd" using w1(6) by simp
  have t0: "table_map (m_table w1') 0 = None" and m0: "map_of (m_ChannelMap w1') fd0 = Some p0"
    using d'(4) w1(4,5) p0 ne fdch by (auto simp: closes_def)
  from OnNewChannel_safe [OF assms(1,4) d'(1-3), of a2] obtain r w2 h c where
    w2: "OnNewChannel e fd a2 w1 = Some (r, w2)" "map_of (m_ChannelMap w2) = (map_of (m_ChannelMap w1'))(fd \<mapsto> next_obj w1')"
      "table_map (m_table w2) = table_map (m_table w1') \<or> table_map (m_table w2) = (table_map (m_table w1'))(h \<mapsto> (fd, a2, c))"
    by (auto split: if_splits)
  have "table_map (m_table w2) 0 \<noteq> Some (fd0, a, c')" for a c'
    using w2(3) t0 ne by (auto split: if_splits)
  then show ?thesis using w1(1,3) w2(1,2) m0 ne assms(6) by auto
qed

text \<open>A full server with one client on descriptor 5.\<close>

definition full_server :: "(int \<Rightarrow> byte list) EpollServer" where
  "full_server = still_server \<lparr> m_table := \<lparr> m_vec = [blank_rec \<lparr> rec_iFD := 5 \<rparr>], m_idxvec = [] \<rparr>,
     m_ChannelMap := [(5, 1)], objs := [1 \<mapsto> ServerChannel_new \<lparr> m_iFD := 5 \<rparr>], next_obj := 2 \<rparr>"

lemma full_server_inv: "conn_inv full_server" "table_map (m_table full_server) 0 = Some (5, bzero_addr, 0)"
proof -
  note n = EpollServer_new_inv [of one_cfg still_env "EPollPoller_new 3" bzero_addr True blank_rec "[]" 0 "\<lambda>_. []", folded still_server_def]
  have "conn_inv still_server" "m_config still_server = one_cfg"
    by (rule n(1) n(3); simp add: one_cfg_def)+
  moreover have "send_inv (ServerChannel_new \<lparr> m_iFD := 5 \<rparr>)"
    by (simp add: ServerChannel_new_def TcpChannel_new_def TcpChannel.extend_def pending_def send_inv_def
        chan_inv_def Buffer_new_ok vector_max_def)
  ultimately have ok: "clients_ok (m_cptrvec full_server)" "length (m_cptrvec full_server) < 2147483648"
    "m_config full_server = one_cfg" "server_inv full_server"
    by (auto simp: conn_inv_def full_server_def server_inv_def ServerChannel_new_def TcpChannel.extend_def split: if_splits)
  have t: "m_table full_server = \<lparr> m_vec = [blank_rec \<lparr> rec_iFD := 5 \<rparr>], m_idxvec = [] \<rparr>" by (simp add: full_server_def)
  have no: "{i. i < length (m_vec (m_table full_server)) \<and> \<not> IsValid (m_vec (m_table full_server) ! i)} = {}"
    unfolding t by (auto simp: IsValid_def nth_Cons split: nat.split)
  have "table_inv (m_table full_server)" "length (m_vec (m_table full_server)) = maxconn one_cfg"
    unfolding table_inv_def no by (simp_all add: t rec_inv_def blank_rec_def one_cfg_def)
  moreover have "conn_link full_server"
    using t by (auto simp: conn_link_def full_server_def table_map_def Let_def blank_rec_def
        ServerChannel_new_def TcpChannel.extend_def split: if_splits)
  ultimately show "conn_inv full_server" using ok by (simp add: conn_inv_def)
  show "table_map (m_table full_server) 0 = Some (5, bzero_addr, 0)"
    by (simp add: full_server_def table_map_def blank_rec_def IsValid_def)
qed

theorem refused_accept_ends_connection_0_witness:
  "\<exists>w1 w2 r. OnNewChannel still_env 7 bzero_addr full_server = Some (-1, w1) \<and>
     OnNewChannel still_env 7 bzero_addr w1 = Some (r, w2) \<and> (\<forall>a c. table_map (m_table w2) 0 \<noteq> Some (5, a, c)) \<and>
     map_of (m_ChannelMap w2) 5 \<noteq> None"
proof -
  have "m_idxvec (m_table full_server) = []" "0 < (7 :: int)" "map_of (m_ChannelMap full_server) 7 = None"
    by (simp_all add: full_server_def)
  from refused_accept_ends_connection_0 [OF still_env_ok full_server_inv(1) this full_server_inv(2)] show ?thesis by blast
qed

end
