(* ===== verification/ConnForward.thy ===== *)
theory ConnForward
  imports ConnSafety
begin

text \<open>
  What the connection server does with the bytes of a client: the loop of \<open>OnMsgRecv\<close> cuts them
  into messages and forwards these to the connection's channel, through the framing of
  \<open>PbParser\<close> and the send side of \<open>TcpChannel\<close>.
\<close>

section \<open>The message loop\<close>

lemma ConnClient_SendMsg_frame:
  assumes "ConnClient_SendMsg e i msg w = Some (r, w')"
  shows "objs w' = objs w \<and> m_config w' = m_config w"
  using assms by (auto simp: ConnClient_SendMsg_def Let_def split: Option.bind_splits if_splits prod.splits)

lemma EpollServer_SendMsg_frame:
  assumes "EpollServer_SendMsg e i msg w = Some (r, w')"
  shows "objs w' = objs w \<and> m_config w' = m_config w"
  using assms ConnClient_SendMsg_frame [of e i msg w r w'] by (auto simp: EpollServer_SendMsg_def split: if_splits)

text \<open>The channel at \<open>p\<close> has four zero bytes in front.\<close>

definition zero_front :: "int \<Rightarrow> 'k EpollServer \<Rightarrow> bool" where
  "zero_front p w \<longleftrightarrow> msglensize (m_config w) = 4 \<and> (\<exists>ch. objs w p = Some ch \<and> buf_inv (m_RecvBuf ch) \<and>
     take 4 (received ch) = [0, 0, 0, 0] \<and> int (length (received ch)) < 4294967296 \<and>
     msglenpos (m_config w) < int (length (received ch)))"

lemma msg_loop_zero:
  assumes "msg_loop e p i w = Some w'"
  shows "\<not> zero_front p w"
proof (rule msg_loop.raw_induct [where P = "\<lambda>e p i w w'. \<not> zero_front p w", OF _ assms], goal_cases)
  case (1 loop e p i w w')
  show ?case
  proof
    assume z: "zero_front p w"
    then obtain ch where ch: "msglensize (m_config w) = 4" "objs w p = Some ch" "buf_inv (m_RecvBuf ch)"
      "take 4 (received ch) = [0, 0, 0, 0]" "int (length (received ch)) < 4294967296"
      "msglenpos (m_config w) < int (length (received ch))" by (auto simp: zero_front_def)
    note c = buf_inv_counts [OF ch(3)]
    have l4: "4 \<le> length (received ch)" using arg_cong [OF ch(4), of length] by simp
    have len: "u32 (ReadableBytes (m_RecvBuf ch)) = int (length (received ch))"
      using ch(5) c(3) by (simp add: received_def u32_id)
    have "Peek (m_RecvBuf ch) 4 = Some [0, 0, 0, 0]"
      using Peek_readable [OF ch(3), of 4] l4 ch(4) c(3) by (simp add: received_def)
    then have ml: "read_msglen (msglensize (m_config w)) (m_RecvBuf ch) = Some 0" using ch(1) by (simp add: read_msglen_def)
    have rt: "snd (Retrieve (m_RecvBuf ch) 0) = m_RecvBuf ch"
    proof -
      have "u64 (m_iReadIndex (m_RecvBuf ch)) = m_iReadIndex (m_RecvBuf ch)"
        using ch(3) by (intro u64_small) (auto simp: buf_inv_def)
      moreover have "0 < ReadableBytes (m_RecvBuf ch)" using l4 c(3) by (simp add: received_def)
      ultimately show ?thesis by (simp add: Retrieve_def)
    qed
    from 1(2) ch(2,6) len l4 ml obtain r buf x w1 where
      s: "EpollServer_SendMsg e (m_channelid r) (ntf_msg e r buf) w = Some (x, w1)"
        "(objs w1 p \<bind> (\<lambda>ch. loop e p i (set_obj p (ch \<lparr> m_RecvBuf := snd (Retrieve (m_RecvBuf ch) 0) \<rparr>) w1))) = Some w'"
      by (auto simp: Let_def split: Option.bind_splits if_splits)
    note f = EpollServer_SendMsg_frame [OF s(1)]
    let ?w = "set_obj p (ch \<lparr> m_RecvBuf := snd (Retrieve (m_RecvBuf ch) 0) \<rparr>) w1"
    have "loop e p i ?w = Some w'" using s(2) f ch(2) by simp
    moreover have "zero_front p ?w" using z f unfolding zero_front_def rt by (auto simp: set_obj_def ch(2))
    ultimately show False using 1(1) by blast
  qed
qed


definition zero_server :: "(int \<Rightarrow> byte list) EpollServer" where
  "zero_server = set_obj 1 (ServerChannel_new \<lparr> m_iFD := 5,
     m_RecvBuf := \<lparr> m_buffer = [0, 0, 0, 0], m_iReadIndex = 0, m_iWriteIndex = 4 \<rparr> \<rparr>) full_server"


section \<open>Forwarding in order\<close>

text \<open>The length a message starts with, in network order, and when a message is whole.\<close>

definition msg_header :: "int \<Rightarrow> byte list \<Rightarrow> int" where
  "msg_header ts xs = (if ts = 4 then ntohl_bytes (take 4 xs) else ntohl_bytes (0 # 0 # take 2 xs))"

definition whole_msg :: "ConnSvrCfg \<Rightarrow> byte list \<Rightarrow> bool" where
  "whole_msg cfg f \<longleftrightarrow> msglensize cfg \<le> int (length f) \<and> msglenpos cfg < int (length f) \<and>
     msg_header (msglensize cfg) f = int (length f)"

definition partial_msg :: "ConnSvrCfg \<Rightarrow> byte list \<Rightarrow> bool" where
  "partial_msg cfg f \<longleftrightarrow> f = [] \<or> msglensize cfg \<le> int (length f) \<and> int (length f) < msg_header (msglensize cfg) f"

lemma read_msglen_ok:
  assumes "buf_inv b" and "ts = 4 \<or> ts = 2" and "ts \<le> int (length (readable b))"
  shows "read_msglen ts b = Some (msg_header ts (readable b))"
  using assms Peek_readable [OF assms(1), of ts] buf_inv_counts(3) [OF assms(1)]
  by (auto simp: read_msglen_def msg_header_def)

lemma msg_header_prefix: "ts \<le> int (length f) \<Longrightarrow> ts = 4 \<or> ts = 2 \<Longrightarrow> msg_header ts (f @ xs) = msg_header ts f"
  by (auto simp: msg_header_def)

text \<open>The bytes on their way to channel \<open>n\<close>: those the kernel took and those that wait.\<close>

definition sent :: "('k \<Rightarrow> int \<Rightarrow> byte list) \<Rightarrow> 'k EpollServer \<Rightarrow> nat \<Rightarrow> byte list" where
  "sent wire w n = wire (kern w) (m_iFD (m_cptrvec w ! n)) @ pending (m_cptrvec w ! n)"

text \<open>Channel \<open>n\<close> is connected, has room for \<open>room\<close> more bytes, and its peer does not break the connection.\<close>

definition chan_up :: "'k env \<Rightarrow> 'k EpollServer \<Rightarrow> nat \<Rightarrow> nat \<Rightarrow> bool" where
  "chan_up e w n room \<longleftrightarrow> n < length (m_cptrvec w) \<and> length (m_cptrvec w) < 2147483648 \<and>
     send_inv (m_cptrvec w ! n) \<and> m_state (m_cptrvec w ! n) = kConnected \<and>
     int (length (pending (m_cptrvec w ! n)) + room) \<le> k_MaxSendBufSize \<and>
     peer_up (e_sys e) (m_iFD (m_cptrvec w ! n))"

text \<open>One message to a connected channel joins the bytes on their way to it.\<close>

lemma forward_one:
  assumes sp: "write_spec (e_sys e) wire ready" and pb: "pb_protocolpacket (e_pb e)" "pb_ok (e_pb e)"
    and s: "pb_SerializeToArray (e_pb e) m = Some xs" and l: "int (length xs) + 4 < 2147483648"
    and up: "chan_up e w n (length (frame xs) + room)"
  shows "\<exists>c k. EpollServer_SendMsg e (int n) m w =
      Some (0, w \<lparr> m_parser := frame xs, m_cptrvec := (m_cptrvec w)[n := c], kern := k \<rparr>) \<and>
    chan_up e (w \<lparr> m_parser := frame xs, m_cptrvec := (m_cptrvec w)[n := c], kern := k \<rparr>) n room \<and>
    sent wire (w \<lparr> m_parser := frame xs, m_cptrvec := (m_cptrvec w)[n := c], kern := k \<rparr>) n = sent wire w n @ frame xs"
proof -
  let ?c = "m_cptrvec w ! n"
  have u: "n < length (m_cptrvec w)" "length (m_cptrvec w) < 2147483648" "send_inv ?c" "m_state ?c = kConnected"
      "int (length (pending ?c)) \<le> k_MaxSendBufSize"
      "peer_up (e_sys e) (m_iFD ?c)"
    using up by (auto simp: chan_up_def)
  have lf: "int (length (frame xs)) < 2147483648" using l by simp
  from DoSend_stream [OF sp u(3) lf, of "m_EPoll w" "kern w"] obtain r c k where
    d: "DoSend (e_sys e) (m_EPoll w) ?c (frame xs) (kern w) = Some (r, c, k)" "send_inv c" "send_frame ?c c"
      "wire k (m_iFD ?c) @ pending c = wire (kern w) (m_iFD ?c) @
        (if frame xs = [] then pending ?c else after_limit (pending ?c) k_MaxSendBufSize) @ (if r = 0 then frame xs else [])"
      "length (pending c) \<le> length (pending ?c) + length (frame xs)" by blast
  have r: "r = 0" by (rule DoSend_accepted [OF d(1) u(6)])
  have al: "after_limit (pending ?c) k_MaxSendBufSize = pending ?c" using u(5) by (simp add: after_limit_def)
  have fr: "m_iFD c = m_iFD ?c" "m_state c = kConnected" using d(3) u(4) by (auto simp: send_frame_def)
  let ?w = "w \<lparr> m_parser := frame xs, m_cptrvec := (m_cptrvec w)[n := c], kern := k \<rparr>"
  have "s32 (int (length (m_cptrvec w))) = int (length (m_cptrvec w))" using u(2) by (intro s32_id) auto
  then have "IsChannelIdValid (int n) w" using u(1) by (simp add: IsChannelIdValid_def)
  moreover have "mem_read (frame xs) 0 (int (length (frame xs))) = Some (frame xs)" by (simp add: mem_read_def)
  ultimately have "EpollServer_SendMsg e (int n) m w = Some (0, ?w)"
    using Pack_frame [OF pb s l, of "m_parser w"] u(1,4) d(1) r
    by (simp add: EpollServer_SendMsg_def ConnClient_SendMsg_def arr_simps Client_SendMsg_def)
  moreover have "chan_up e ?w n room"
    using up u d(2,5) fr unfolding chan_up_def by auto
  moreover have "sent wire ?w n = sent wire w n @ frame xs" using d(4) r al fr(1) u(1) by (simp add: sent_def)
  ultimately show ?thesis by blast
qed

definition wire_msg :: "'k env \<Rightarrow> ConnectionRecord \<Rightarrow> byte list \<Rightarrow> byte list" where
  "wire_msg e r f = frame (case pb_SerializeToArray (e_pb e) (ntf_msg e r f) of Some xs \<Rightarrow> xs | None \<Rightarrow> [])"

definition sendable :: "'k env \<Rightarrow> ConnectionRecord \<Rightarrow> byte list \<Rightarrow> bool" where
  "sendable e r f \<longleftrightarrow> pb_SerializeToArray (e_pb e) (ntf_msg e r f) \<noteq> None \<and> length (wire_msg e r f) < 2147483648"

lemma msg_loop_stops:
  assumes o: "objs w p = Some ch" and b: "buf_inv (m_RecvBuf ch)" and ts: "msglensize (m_config w) = 4 \<or> msglensize (m_config w) = 2"
    and l: "int (length (received ch)) < 4294967296" and rest: "partial_msg (m_config w) (received ch)"
  shows "msg_loop e p i w = Some w"
proof -
  have len: "u32 (ReadableBytes (m_RecvBuf ch)) = int (length (received ch))"
    using l buf_inv_counts(3) [OF b] by (simp add: received_def u32_id)
  show ?thesis
  proof (cases "received ch = []")
    case True
    then show ?thesis using o len by (subst msg_loop.simps) simp
  next
    case False
    then have r: "msglensize (m_config w) \<le> int (length (received ch))"
      "int (length (received ch)) < msg_header (msglensize (m_config w)) (received ch)" using rest by (auto simp: partial_msg_def)
    have "read_msglen (msglensize (m_config w)) (m_RecvBuf ch) = Some (msg_header (msglensize (m_config w)) (received ch))"
      using read_msglen_ok [OF b ts] r(1) by (simp add: received_def)
    then show ?thesis using o len r(2) by (subst msg_loop.simps) (simp add: Let_def)
  qed
qed

lemma msg_loop_stream:
  assumes sp: "write_spec (e_sys e) wire ready" and pb: "pb_protocolpacket (e_pb e)" "pb_ok (e_pb e)"
  shows "objs w p = Some ch \<Longrightarrow> buf_inv (m_RecvBuf ch) \<Longrightarrow> msglensize (m_config w) = 4 \<or> msglensize (m_config w) = 2 \<Longrightarrow>
    int (length (received ch)) < 4294967296 \<Longrightarrow> received ch = concat fs @ rest \<Longrightarrow>
    \<forall>f \<in> set fs. whole_msg (m_config w) f \<and> sendable e r f \<Longrightarrow> partial_msg (m_config w) rest \<Longrightarrow>
    arr_get (m_vec (m_table w)) i = Some r \<Longrightarrow> m_channelid r = int n \<Longrightarrow>
    chan_up e w n (length (concat (map (wire_msg e r) fs))) \<Longrightarrow>
    \<exists>w' ch'. msg_loop e p i w = Some w' \<and> objs w' = (objs w)(p \<mapsto> ch') \<and> received ch' = rest \<and>
      m_table w' = m_table w \<and> m_ChannelMap w' = m_ChannelMap w \<and>
      (\<exists>c. m_cptrvec w' = (m_cptrvec w)[n := c]) \<and>
      sent wire w' n = sent wire w n @ concat (map (wire_msg e r) fs)"
proof (induction fs arbitrary: w ch)
  case Nil
  then have "msg_loop e p i w = Some w" by (intro msg_loop_stops) auto
  moreover have "m_cptrvec w = (m_cptrvec w)[n := m_cptrvec w ! n]" by simp
  ultimately show ?case using Nil by (intro exI [of _ w] exI [of _ ch]) (auto simp: fun_upd_idem simp del: list_update_id)
next
  case (Cons f fs)
  let ?ts = "msglensize (m_config w)" and ?b = "m_RecvBuf ch"
  have f: "whole_msg (m_config w) f" "sendable e r f" using Cons.prems(6) by auto
  have rc: "received ch = f @ concat fs @ rest" using Cons.prems(5) by simp
  have w: "?ts \<le> int (length f)" "msglenpos (m_config w) < int (length f)" "msg_header ?ts f = int (length f)"
    using f(1) by (auto simp: whole_msg_def)
  have f0: "0 < length f" using w(1) Cons.prems(3) by auto
  note cnt = buf_inv_counts(3) [OF Cons.prems(2)]
  have len: "u32 (ReadableBytes ?b) = int (length (received ch))"
    using Cons.prems(4) cnt by (simp add: received_def u32_id)
  have "?ts \<le> int (length (readable ?b))" using w(1) rc by (simp add: received_def)
  from read_msglen_ok [OF Cons.prems(2,3) this]
  have ml: "read_msglen ?ts ?b = Some (int (length f))"
    using msg_header_prefix [OF w(1) Cons.prems(3), of "concat fs @ rest"] w(3) rc by (simp add: received_def)
  have pk: "Peek ?b (int (length f)) = Some f"
    using Peek_readable [OF Cons.prems(2), of "int (length f)"] cnt rc by (simp add: received_def)
  from f(2) obtain xs where xs: "pb_SerializeToArray (e_pb e) (ntf_msg e r f) = Some xs" by (auto simp: sendable_def)
  have fx: "wire_msg e r f = frame xs" by (simp add: wire_msg_def xs)
  have lx: "int (length xs) + 4 < 2147483648" using f(2) fx by (simp add: sendable_def)
  have "chan_up e w n (length (frame xs) + length (concat (map (wire_msg e r) fs)))" using Cons.prems(10) fx by simp
  from forward_one [OF sp pb xs lx this] obtain c k where
    s: "EpollServer_SendMsg e (int n) (ntf_msg e r f) w =
        Some (0, w \<lparr> m_parser := frame xs, m_cptrvec := (m_cptrvec w)[n := c], kern := k \<rparr>)"
      "chan_up e (w \<lparr> m_parser := frame xs, m_cptrvec := (m_cptrvec w)[n := c], kern := k \<rparr>) n (length (concat (map (wire_msg e r) fs)))"
      "sent wire (w \<lparr> m_parser := frame xs, m_cptrvec := (m_cptrvec w)[n := c], kern := k \<rparr>) n = sent wire w n @ frame xs" by blast
  have nl: "n < length (m_cptrvec w)" using Cons.prems(10) by (simp add: chan_up_def)
  from Retrieve_ok [OF Cons.prems(2), of "int (length f)"] obtain b where
    b: "snd (Retrieve ?b (int (length f))) = b" "buf_inv b" "readable b = drop (length f) (readable ?b)" by auto
  let ?ch = "ch \<lparr> m_RecvBuf := b \<rparr>"
  let ?w = "set_obj p ?ch (w \<lparr> m_parser := frame xs, m_cptrvec := (m_cptrvec w)[n := c], kern := k \<rparr>)"
  have "int (length (received ch)) = int (length f) + int (length (concat fs @ rest))" using rc by simp
  then have "int (length (received ch)) \<noteq> 0" "\<not> msglenpos (m_config w) \<ge> int (length (received ch))"
    "\<not> int (length f) > int (length (received ch))" using w(2) f0 by linarith+
  then have step: "msg_loop e p i w = msg_loop e p i ?w"
    using Cons.prems(1,8,9) len ml pk s(1) b(1) by (subst msg_loop.simps) (simp add: Let_def)
  have re: "received ?ch = concat fs @ rest" using b(3) rc by (simp add: received_def)
  have "\<exists>w' ch'. msg_loop e p i ?w = Some w' \<and> objs w' = (objs ?w)(p \<mapsto> ch') \<and> received ch' = rest \<and>
      m_table w' = m_table ?w \<and> m_ChannelMap w' = m_ChannelMap ?w \<and> (\<exists>c. m_cptrvec w' = (m_cptrvec ?w)[n := c]) \<and>
      sent wire w' n = sent wire ?w n @ concat (map (wire_msg e r) fs)"
  proof (rule Cons.IH)
    show "objs ?w p = Some ?ch" by (simp add: set_obj_def)
    show "buf_inv (m_RecvBuf ?ch)" using b(2) by simp
    show "msglensize (m_config ?w) = 4 \<or> msglensize (m_config ?w) = 2" using Cons.prems(3) by (simp add: set_obj_def)
    show "int (length (received ?ch)) < 4294967296" using re Cons.prems(4) rc by simp
    show "received ?ch = concat fs @ rest" by (rule re)
    show "\<forall>f \<in> set fs. whole_msg (m_config ?w) f \<and> sendable e r f" using Cons.prems(6) by (simp add: set_obj_def)
    show "partial_msg (m_config ?w) rest" using Cons.prems(7) by (simp add: set_obj_def)
    show "arr_get (m_vec (m_table ?w)) i = Some r" using Cons.prems(8) by (simp add: set_obj_def)
    show "m_channelid r = int n" by (rule Cons.prems(9))
    show "chan_up e ?w n (length (concat (map (wire_msg e r) fs)))" using s(2) nl by (simp add: chan_up_def set_obj_def)
  qed
  then obtain w' ch' c2 where
    w': "msg_loop e p i ?w = Some w'" "objs w' = (objs ?w)(p \<mapsto> ch')" "received ch' = rest" "m_table w' = m_table ?w"
      "m_ChannelMap w' = m_ChannelMap ?w" "m_cptrvec w' = (m_cptrvec ?w)[n := c2]"
      "sent wire w' n = sent wire ?w n @ concat (map (wire_msg e r) fs)" by blast
  have "sent wire ?w n = sent wire w n @ frame xs" using s(3) by (simp add: sent_def set_obj_def)
  then show ?case using w' step fx by (intro exI [of _ w'] exI [of _ ch']) (auto simp: set_obj_def)
qed


text \<open>A server with one connected channel and a client that has sent one message of four bytes.\<close>

definition talk_msg :: ConnsvrMsg where
  "talk_msg = ntf_msg still_env (blank_rec \<lparr> rec_iFD := 5 \<rparr>) [0, 0, 0, 4]"

definition talk_env :: "(int \<Rightarrow> byte list) env" where
  "talk_env = still_env \<lparr> e_pb := \<lparr> pb_ByteSize = (\<lambda>_. 0), pb_SerializeToArray = (\<lambda>m. if m = talk_msg then Some [] else None),
     pb_ParseFromArray = (\<lambda>_. Some talk_msg), pb_protocolpacket = True \<rparr> \<rparr>"

definition talk_channel :: ServerChannel where
  "talk_channel = ServerChannel_new \<lparr> m_iFD := 5,
     m_RecvBuf := \<lparr> m_buffer = [0, 0, 0, 4], m_iReadIndex = 0, m_iWriteIndex = 4 \<rparr> \<rparr>"

definition talk_client :: ConnClient where
  "talk_client = \<lparr> m_iFD = 8, m_iEvents = 3, m_isPooling = True, m_RecvBuf = Buffer_new 0, m_SendBuf = Buffer_new 0,
     m_state = kConnected, m_isAutoReconnect = True, m_PeerAddr = bzero_addr, m_channid = 0 \<rparr>"

definition talk_server :: "(int \<Rightarrow> byte list) EpollServer" where
  "talk_server = set_obj 1 talk_channel (full_server \<lparr> m_cptrvec := [talk_client] \<rparr>)"

lemma talk_server_inv: "conn_inv talk_server"
proof -
  have "client_ok talk_client" "length [talk_client] = 1"
    by (simp_all add: talk_client_def client_ok_def chan_inv_def buf_inv_def vector_max_def pending_def readable_def
        Buffer_new_def event_values)
  moreover have "length (m_cptrvec full_server) = 1"
    using EpollServer_new_inv(5) [of one_cfg still_env "EPollPoller_new 3" bzero_addr True blank_rec "[]" 0 "\<lambda>_. []"]
    by (simp add: full_server_def still_server_def one_cfg_def)
  ultimately have i: "conn_inv (full_server \<lparr> m_parser := [], m_cptrvec := [talk_client], kern := kern full_server \<rparr>)"
    by (intro conn_inv_send [OF full_server_inv(1)]) (simp_all add: clients_ok_def)
  have "send_inv talk_channel"
    by (simp add: talk_channel_def ServerChannel_new_def TcpChannel_new_def TcpChannel.extend_def pending_def send_inv_def
        chan_inv_def Buffer_new_def vector_max_def buf_inv_def readable_def)
  from conn_inv_set [OF i _ _ _ this, of 1 "ServerChannel_new \<lparr> m_iFD := 5 \<rparr>" "kern full_server"]
  have "conn_inv (set_obj 1 talk_channel (full_server \<lparr> m_parser := [], m_cptrvec := [talk_client], kern := kern full_server \<rparr>)
      \<lparr> kern := kern full_server \<rparr>)"
    by (simp add: full_server_def talk_channel_def)
  then show ?thesis by (simp add: talk_server_def conn_inv_def conn_link_def server_inv_def set_obj_def)
qed


end
