(* ===== verification/TestSvr.thy ===== *)
theory TestSvr
  imports ConnMsg TcpServer
begin

text \<open>
  The server that stands behind the connection server in its test:
  \<^verbatim>\<open>src/connsvrtest/epollsvr/epollsvr.{h,cpp}\<close>, \<^verbatim>\<open>src/connsvrtest/msghandle/MsgHandle.{h,cpp}\<close>
  and \<^verbatim>\<open>src/connsvrtest/framework/testconnsvr.{h,cpp}\<close>. It accepts every connection and sends
  every message back.

  The server and the parser of \<open>G_ConnSvr\<close> are one state; the channel a message came from is
  named by its address.
\<close>

record 'k TestServer = "'k TcpServer" +
  t_parser :: PbParser

text \<open>\<open>Pack\<close> and, if it succeeds, \<open>channel.SendMsg(buf, len)\<close>.\<close>

definition pack_send :: "ConnsvrMsg pb \<Rightarrow> 'k sys \<Rightarrow> ConnsvrMsg \<Rightarrow> int \<Rightarrow> 'k TestServer \<Rightarrow> (int \<times> 'k TestServer) fault" where
  "pack_send pb sy msg p w = do {
     (ret, buf, len) \<leftarrow> Pack pb (t_parser w) msg;
     let w = w \<lparr> t_parser := buf \<rparr>;
     if ret = 0
     then do {
       data \<leftarrow> mem_read buf 0 len;
       (_, w) \<leftarrow> Server_SendMsg sy p data w;
       Some (0, w)
     }
     else Some (0, w)
   }"

definition start_reply :: "ConnsvrMsg \<Rightarrow> ConnsvrMsg" where
  "start_reply msg = (new_msg connsvr_start_rsp (connid (head msg)) (port (head msg)) (ip (head msg)))
     \<lparr> startrsp := Some \<lparr> accept = 0, routechannel = 0 \<rparr> \<rparr>"

definition Test_StartRspHandle :: "ConnsvrMsg pb \<Rightarrow> 'k sys \<Rightarrow> ConnsvrMsg \<Rightarrow> int \<Rightarrow> 'k TestServer \<Rightarrow> (int \<times> 'k TestServer) fault" where
  "Test_StartRspHandle pb sy msg p w = pack_send pb sy (start_reply msg) p w"

definition Test_StopHandle :: "ConnsvrMsg \<Rightarrow> int \<Rightarrow> 'k TestServer \<Rightarrow> (int \<times> 'k TestServer) fault" where
  "Test_StopHandle msg p w = Some (0, w)"

definition Test_RouteHandle :: "ConnsvrMsg \<Rightarrow> int \<Rightarrow> 'k TestServer \<Rightarrow> (int \<times> 'k TestServer) fault" where
  "Test_RouteHandle msg p w = Some (0, w)"

definition Test_MsgNtfHandle :: "ConnsvrMsg pb \<Rightarrow> 'k sys \<Rightarrow> ConnsvrMsg \<Rightarrow> int \<Rightarrow> 'k TestServer \<Rightarrow> (int \<times> 'k TestServer) fault" where
  "Test_MsgNtfHandle pb sy msg p w = (let ntf = msg in pack_send pb sy ntf p w)"

definition test_handleArr :: "ConnsvrMsg pb \<Rightarrow> 'k sys \<Rightarrow> int \<Rightarrow>
    (ConnsvrMsg \<Rightarrow> int \<Rightarrow> 'k TestServer \<Rightarrow> (int \<times> 'k TestServer) fault) option" where
  "test_handleArr pb sy = [connsvr_start_req \<mapsto> Test_StartRspHandle pb sy, connsvr_stop \<mapsto> Test_StopHandle,
     connsvr_route \<mapsto> Test_RouteHandle, connsvr_msg_ntf \<mapsto> Test_MsgNtfHandle pb sy]"

definition Test_HandleMsg :: "ConnsvrMsg pb \<Rightarrow> 'k sys \<Rightarrow> ConnsvrMsg \<Rightarrow> int \<Rightarrow> 'k TestServer \<Rightarrow> (int \<times> 'k TestServer) fault" where
  "Test_HandleMsg pb sy msg p w =
     (if cmdid (head msg) < connsvr_cmd_count
      then (case test_handleArr pb sy (cmdid (head msg)) of Some f \<Rightarrow> f msg p w | None \<Rightarrow> Some (-1, w))
      else Some (-1, w))"

partial_function (option) test_loop :: "ConnsvrMsg pb \<Rightarrow> 'k sys \<Rightarrow> int \<Rightarrow> 'k TestServer \<Rightarrow> 'k TestServer option" where
  "test_loop pb sy p w = do {
     ch \<leftarrow> objs w p;
     let len = s32 (ReadableBytes (m_RecvBuf ch));
     if len = 0 then Some w
     else do {
       (ret, m, len) \<leftarrow> UnPack pb (drop (nat (m_iReadIndex (m_RecvBuf ch))) (m_buffer (m_RecvBuf ch))) len;
       if ret = 0
       then do {
         msg \<leftarrow> m;
         (_, w) \<leftarrow> Test_HandleMsg pb sy msg p w;
         ch \<leftarrow> objs w p;
         test_loop pb sy p (set_obj p (ch \<lparr> m_RecvBuf := snd (Retrieve (m_RecvBuf ch) (u64 len)) \<rparr>) w)
       }
       else Some w
     }
   }"

definition Test_OnMsgRecv :: "ConnsvrMsg pb \<Rightarrow> 'k sys \<Rightarrow> int \<Rightarrow> 'k TestServer \<Rightarrow> (int \<times> 'k TestServer) option" where
  "Test_OnMsgRecv pb sy p w = do { w \<leftarrow> test_loop pb sy p w; Some (0, w) }"

definition Test_OnCloseChannel :: "int \<Rightarrow> 'k TestServer \<Rightarrow> (int \<times> 'k TestServer) fault" where
  "Test_OnCloseChannel p w = Server_OnCloseChannel p w"

definition Test_OnNewChannel :: "'k sys \<Rightarrow> int \<Rightarrow> sockaddr_in \<Rightarrow> 'k TestServer \<Rightarrow> (int \<times> 'k TestServer) fault" where
  "Test_OnNewChannel sy iFD addr w =
     Server_OnNewChannel sy \<lparr> vOnNewChannel = (\<lambda>_ _ w. Some (0, w)), vOnMsgRecv = (\<lambda>_ w. Some (0, w)),
       vOnCloseChannel = Test_OnCloseChannel \<rparr> iFD addr w"

definition test_virt :: "ConnsvrMsg pb \<Rightarrow> 'k sys \<Rightarrow> 'k TestServer server_virt" where
  "test_virt pb sy = \<lparr> vOnNewChannel = Test_OnNewChannel sy, vOnMsgRecv = Test_OnMsgRecv pb sy,
     vOnCloseChannel = Test_OnCloseChannel \<rparr>"

definition Test_EpollServer_new :: "'k sys \<Rightarrow> EPollPoller \<Rightarrow> sockaddr_in \<Rightarrow> bool \<Rightarrow> PbParser \<Rightarrow> 'k \<Rightarrow> 'k TestServer" where
  "Test_EpollServer_new sy poll addr isReUsePort parser k =
     (let s = TcpServer_new sy poll addr isReUsePort k
      in \<lparr> m_EPoll = m_EPoll s, m_Acceptor = m_Acceptor s, m_ChannelMap = m_ChannelMap s, objs = objs s,
           next_obj = next_obj s, kern = kern s, t_parser = parser \<rparr>)"

definition Test_OnInit :: "(string \<Rightarrow> int option) \<Rightarrow> 'k sys \<Rightarrow> EPollPoller \<Rightarrow> int \<Rightarrow> PbParser \<Rightarrow> 'k \<Rightarrow> int \<times> 'k TestServer" where
  "Test_OnInit inet_pton sy poll prt parser k =
     (let w = Test_EpollServer_new sy poll (InetAddress_ip inet_pton ''0.0.0.0'' (prt mod 65536)) True parser k;
          (_, w) = Server_Start sy w
      in (0, w))"

section \<open>The replies\<close>

text \<open>What the server answers to a message.\<close>

definition test_reply :: "ConnsvrMsg \<Rightarrow> ConnsvrMsg option" where
  "test_reply m = (if cmdid (head m) = connsvr_start_req then Some (start_reply m)
     else if cmdid (head m) = connsvr_msg_ntf then Some m else None)"

definition reply_bytes :: "ConnsvrMsg pb \<Rightarrow> ConnsvrMsg \<Rightarrow> byte list" where
  "reply_bytes pb m = (case test_reply m of None \<Rightarrow> []
     | Some r \<Rightarrow> case pb_SerializeToArray pb r of None \<Rightarrow> [] | Some xs \<Rightarrow> frame xs)"

definition msg_bytes :: "ConnsvrMsg pb \<Rightarrow> ConnsvrMsg \<Rightarrow> byte list" where
  "msg_bytes pb m = (case pb_SerializeToArray pb m of None \<Rightarrow> [] | Some xs \<Rightarrow> frame xs)"

text \<open>The message and its reply are below 2 GB and the command number is not negative.\<close>

definition exchangeable :: "ConnsvrMsg pb \<Rightarrow> ConnsvrMsg \<Rightarrow> bool" where
  "exchangeable pb m \<longleftrightarrow> 0 \<le> cmdid (head m) \<and>
     (\<exists>xs. pb_SerializeToArray pb m = Some xs) \<and>
     (\<forall>r. test_reply m = Some r \<longrightarrow> (\<exists>ys. pb_SerializeToArray pb r = Some ys \<and> int (length ys) + 4 < 2147483648))"

lemma pack_send_ok:
  assumes sp: "write_spec sy wire ready" and pb: "pb_protocolpacket pb" "pb_ok pb"
    and s: "pb_SerializeToArray pb m = Some ys" "int (length ys) + 4 < 2147483648"
    and p: "objs w p = Some ch" "send_inv ch" "peer_up sy (m_iFD ch)"
    and l: "int (length (pending ch) + length (frame ys)) \<le> k_MaxSendBufSize"
  shows "\<exists>ch' k b. pack_send pb sy m p w = Some (0, set_obj p ch' (w \<lparr> t_parser := b \<rparr>) \<lparr> kern := k \<rparr>) \<and> send_inv ch' \<and>
    m_iFD ch' = m_iFD ch \<and> m_RecvBuf ch' = m_RecvBuf ch \<and> length (pending ch') \<le> length (pending ch) + length (frame ys) \<and>
    wire k (m_iFD ch) @ pending ch' = wire (kern w) (m_iFD ch) @ pending ch @ frame ys"
proof -
  let ?w = "w \<lparr> t_parser := frame ys \<rparr>"
  have "objs ?w p = Some ch" using p(1) by simp
  from send_reply [OF sp this p(2,3) l] obtain ch' k where
    r: "Server_SendMsg sy p (frame ys) ?w = Some (0, set_obj p ch' ?w \<lparr> kern := k \<rparr>)" "send_inv ch'" "m_iFD ch' = m_iFD ch"
      "m_RecvBuf ch' = m_RecvBuf ch" "length (pending ch') \<le> length (pending ch) + length (frame ys)"
      "wire k (m_iFD ch) @ pending ch' = wire (kern ?w) (m_iFD ch) @ pending ch @ frame ys" by blast
  have "mem_read (frame ys) 0 (int (length (frame ys))) = Some (frame ys)" by (simp add: mem_read_def)
  then have "pack_send pb sy m p w = Some (0, set_obj p ch' ?w \<lparr> kern := k \<rparr>)"
    using Pack_frame [OF pb s, of "t_parser w"] r(1) by (simp add: pack_send_def)
  then show ?thesis using r by auto
qed

lemma Test_HandleMsg_ok:
  assumes sp: "write_spec sy wire ready" and pb: "pb_protocolpacket pb" "pb_ok pb" and m: "exchangeable pb m"
    and p: "objs w p = Some ch" "send_inv ch" "peer_up sy (m_iFD ch)"
    and l: "int (length (pending ch) + length (reply_bytes pb m)) \<le> k_MaxSendBufSize"
  shows "\<exists>x ch' k b. Test_HandleMsg pb sy m p w = Some (x, set_obj p ch' (w \<lparr> t_parser := b \<rparr>) \<lparr> kern := k \<rparr>) \<and> send_inv ch' \<and>
    m_iFD ch' = m_iFD ch \<and> m_RecvBuf ch' = m_RecvBuf ch \<and>
    length (pending ch') \<le> length (pending ch) + length (reply_bytes pb m) \<and>
    wire k (m_iFD ch) @ pending ch' = wire (kern w) (m_iFD ch) @ pending ch @ reply_bytes pb m"
proof (cases "test_reply m")
  case None
  have "\<exists>x. Test_HandleMsg pb sy m p w = Some (x, w)"
    using None by (auto simp: Test_HandleMsg_def test_handleArr_def test_reply_def msg_cmds Test_StopHandle_def Test_RouteHandle_def
        split: if_splits)
  moreover have "w = set_obj p ch (w \<lparr> t_parser := t_parser w \<rparr>) \<lparr> kern := kern w \<rparr>"
    using p(1) by (simp add: set_obj_def fun_upd_idem)
  ultimately show ?thesis using p(2) None
    by (auto simp: reply_bytes_def intro!: exI [of _ ch] exI [of _ "kern w"] exI [of _ "t_parser w"])
next
  case (Some r)
  then obtain ys where ys: "pb_SerializeToArray pb r = Some ys" "int (length ys) + 4 < 2147483648"
    using m by (auto simp: exchangeable_def)
  have rb: "reply_bytes pb m = frame ys" using Some ys(1) by (simp add: reply_bytes_def)
  have "Test_HandleMsg pb sy m p w = pack_send pb sy r p w"
    using Some by (auto simp: Test_HandleMsg_def test_handleArr_def test_reply_def msg_cmds Test_StartRspHandle_def
        Test_MsgNtfHandle_def Let_def split: if_splits)
  then show ?thesis using pack_send_ok [OF sp pb ys p] l unfolding rb by (metis (no_types, lifting))
qed

text \<open>The memory behind the read index: what was received, then stale bytes.\<close>

lemma readable_stale:
  assumes "buf_inv b"
  shows "\<exists>stale. drop (nat (m_iReadIndex b)) (m_buffer b) = readable b @ stale"
  by (metis append_take_drop_id readable_def)

text \<open>The beginning of a further message, with its length field.\<close>

definition begun :: "byte list \<Rightarrow> bool" where
  "begun t \<longleftrightarrow> t = [] \<or> (\<exists>xs. int (length xs) + 4 < 2147483648 \<and> 4 \<le> length t \<and> length t < length (frame xs) \<and>
     t = take (length t) (frame xs))"

lemma test_loop_ok:
  assumes sp: "write_spec sy wire ready" and pb: "pb_protocolpacket pb" "pb_ok pb"
  shows "objs w p = Some ch \<Longrightarrow> send_inv ch \<Longrightarrow> peer_up sy (m_iFD ch) \<Longrightarrow>
    \<forall>m \<in> set ms. exchangeable pb m \<Longrightarrow> begun t \<Longrightarrow> received ch = concat (map (msg_bytes pb) ms) @ t \<Longrightarrow>
    int (length (received ch)) < 2147483648 \<Longrightarrow>
    int (length (pending ch) + length (concat (map (reply_bytes pb) ms))) \<le> k_MaxSendBufSize \<Longrightarrow>
    \<exists>w' ch'. test_loop pb sy p w = Some w' \<and> objs w' = (objs w)(p \<mapsto> ch') \<and> received ch' = t \<and>
      wire (kern w') (m_iFD ch) @ pending ch' = wire (kern w) (m_iFD ch) @ pending ch @ concat (map (reply_bytes pb) ms)"
proof (induction ms arbitrary: w ch)
  case Nil
  have bi: "buf_inv (m_RecvBuf ch)" using Nil.prems(2) by (simp add: send_inv_def chan_inv_def)
  obtain stale where st: "drop (nat (m_iReadIndex (m_RecvBuf ch))) (m_buffer (m_RecvBuf ch)) = t @ stale"
    using readable_stale [OF bi] Nil.prems(6) by (auto simp: received_def)
  have n: "s32 (ReadableBytes (m_RecvBuf ch)) = int (length t)"
    using buf_inv_counts(3) [OF bi] Nil.prems(6,7) by (simp add: received_def int32_simps)
  have "test_loop pb sy p w = Some w"
  proof (cases "t = []")
    case True
    then show ?thesis using Nil.prems(1) n by (subst test_loop.simps) simp
  next
    case False
    then obtain xs where xs: "int (length xs) + 4 < 2147483648" "4 \<le> length t" "length t < length (frame xs)"
      "t = take (length t) (frame xs)" using Nil.prems(5) unfolding begun_def by blast
    have "t @ stale = take (nat (int (length t))) (frame xs) @ stale" using xs(4) by simp
    from UnPack_short [OF pb(1) xs(1) _ _ this] xs(2,3) have "UnPack pb (t @ stale) (int (length t)) = Some (-1, None, int (length t))" by simp
    then show ?thesis using Nil.prems(1) n st False by (subst test_loop.simps) simp
  qed
  then show ?case using Nil.prems by (intro exI [of _ w] exI [of _ ch]) (simp add: fun_upd_idem)
next
  case (Cons m ms)
  have bi: "buf_inv (m_RecvBuf ch)" using Cons.prems(2) by (simp add: send_inv_def chan_inv_def)
  have ex: "exchangeable pb m" using Cons.prems(4) by simp
  then obtain xs where xs: "pb_SerializeToArray pb m = Some xs" by (auto simp: exchangeable_def)
  have mb: "msg_bytes pb m = frame xs" by (simp add: msg_bytes_def xs)
  let ?r = "concat (map (msg_bytes pb) ms) @ t"
  have rc: "received ch = frame xs @ ?r" using Cons.prems(6) mb by simp
  obtain stale where st: "drop (nat (m_iReadIndex (m_RecvBuf ch))) (m_buffer (m_RecvBuf ch)) = frame xs @ ?r @ stale"
    using readable_stale [OF bi] rc by (auto simp: received_def)
  have n: "s32 (ReadableBytes (m_RecvBuf ch)) = int (length (received ch))"
    using buf_inv_counts(3) [OF bi] Cons.prems(7) by (simp add: received_def int32_simps)
  have l0: "length (received ch) = length xs + 4 + length ?r" using rc by simp
  have lx: "int (length xs) + 4 < 2147483648" "int (length (frame xs)) \<le> int (length (received ch))" "received ch \<noteq> []"
    using Cons.prems(7) l0 by (simp, simp, metis add_is_0 list.size(3) zero_neq_numeral)
  have "pb_ParseFromArray pb xs = Some m" using pb(2) xs by (simp add: pb_ok_def)
  then have un: "UnPack pb (frame xs @ ?r @ stale) (int (length (received ch))) = Some (0, Some m, int (length (frame xs)))"
    using UnPack_frame [OF pb(1) lx(1,2) Cons.prems(7)] by simp
  have "int (length (pending ch) + length (reply_bytes pb m)) \<le> k_MaxSendBufSize" using Cons.prems(8) by simp
  from Test_HandleMsg_ok [OF sp pb ex Cons.prems(1-3) this] obtain x ch1 k b where
    h: "Test_HandleMsg pb sy m p w = Some (x, set_obj p ch1 (w \<lparr> t_parser := b \<rparr>) \<lparr> kern := k \<rparr>)" "send_inv ch1" "m_iFD ch1 = m_iFD ch"
      "m_RecvBuf ch1 = m_RecvBuf ch" "length (pending ch1) \<le> length (pending ch) + length (reply_bytes pb m)"
      "wire k (m_iFD ch) @ pending ch1 = wire (kern w) (m_iFD ch) @ pending ch @ reply_bytes pb m" by blast
  let ?w1 = "set_obj p ch1 (w \<lparr> t_parser := b \<rparr>) \<lparr> kern := k \<rparr>"
  have u: "u64 (int (length (frame xs))) = int (length (frame xs))" using lx(1) by (intro u64_id) auto
  from Retrieve_ok [OF bi, of "int (length (frame xs))"] obtain rb where
    rb: "snd (Retrieve (m_RecvBuf ch) (int (length (frame xs)))) = rb" "buf_inv rb"
      "readable rb = drop (length (frame xs)) (readable (m_RecvBuf ch))" by (metis nat_int snd_conv zero_le_imp_eq_int of_nat_0_le_iff)
  let ?ch2 = "ch1 \<lparr> m_RecvBuf := rb \<rparr>"
  let ?w2 = "set_obj p ?ch2 ?w1"
  have step: "test_loop pb sy p w = test_loop pb sy p ?w2"
    using Cons.prems(1) n st un h(1,4) u rb(1) lx(3) by (subst test_loop.simps) (simp add: set_obj_def Let_def)
  have "\<exists>w' ch'. test_loop pb sy p ?w2 = Some w' \<and> objs w' = (objs ?w2)(p \<mapsto> ch') \<and> received ch' = t \<and>
      wire (kern w') (m_iFD ?ch2) @ pending ch' = wire (kern ?w2) (m_iFD ?ch2) @ pending ?ch2 @ concat (map (reply_bytes pb) ms)"
  proof (rule Cons.IH)
    show "objs ?w2 p = Some ?ch2" by (simp add: set_obj_def)
    show "send_inv ?ch2" using h(2) rb(2) by (simp add: send_inv_def chan_inv_def pending_def IsWriting_def)
    show "peer_up sy (m_iFD ?ch2)" using Cons.prems(3) h(3) by simp
    show "\<forall>m \<in> set ms. exchangeable pb m" "begun t" using Cons.prems(4,5) by auto
    show re: "received ?ch2 = concat (map (msg_bytes pb) ms) @ t" using rb(3) rc by (simp add: received_def)
    show "int (length (received ?ch2)) < 2147483648" using Cons.prems(7) rc re by simp
    have "pending ?ch2 = pending ch1" by (simp add: pending_def)
    then show "int (length (pending ?ch2) + length (concat (map (reply_bytes pb) ms))) \<le> k_MaxSendBufSize"
      using Cons.prems(8) h(5) by simp
  qed
  then obtain w' ch' where
    "test_loop pb sy p ?w2 = Some w'" "objs w' = (objs ?w2)(p \<mapsto> ch')" "received ch' = t"
    "wire (kern w') (m_iFD ?ch2) @ pending ch' = wire (kern ?w2) (m_iFD ?ch2) @ pending ?ch2 @ concat (map (reply_bytes pb) ms)" by blast
  then show ?case using step h(3,6) by (intro exI [of _ w'] exI [of _ ch']) (simp add: set_obj_def pending_def)
qed


text \<open>A library that knows one data message, serialised as a single byte, and a channel with two of them.\<close>

definition one_msg :: ConnsvrMsg where
  "one_msg = (new_msg connsvr_msg_ntf 0 0 []) \<lparr> msgntf := Some [65] \<rparr>"

definition one_pb :: "ConnsvrMsg pb" where
  "one_pb = \<lparr> pb_ByteSize = (\<lambda>_. 1), pb_SerializeToArray = (\<lambda>m. if m = one_msg then Some [65] else None),
     pb_ParseFromArray = (\<lambda>_. Some one_msg), pb_protocolpacket = True \<rparr>"

definition echo_channel :: ServerChannel where
  "echo_channel = ServerChannel_new \<lparr> m_iFD := 7, m_RecvBuf :=
     \<lparr> m_buffer = frame [65] @ frame [65], m_iReadIndex = 0, m_iWriteIndex = 10 \<rparr> \<rparr>"

definition echo_server :: "(int \<Rightarrow> byte list) TestServer" where
  "echo_server = (Test_EpollServer_new slow_sys (EPollPoller_new 3) bzero_addr True [] (\<lambda>_. []))
     \<lparr> m_ChannelMap := [(7, 1)], objs := [1 \<mapsto> echo_channel], next_obj := 2 \<rparr>"


end
