(* ===== verification/ConnApp.thy ===== *)
theory ConnApp
  imports ServerApp ConnForward TestSvr
begin

text \<open>
  The two programs on the framework: the virtual functions of \<open>ConnSvr\<close>
  (\<^verbatim>\<open>src/connsvr/framework/connsvr.cpp\<close>) and \<open>testConnSvr\<close> (\<^verbatim>\<open>src/connsvrtest/framework/testconnsvr.cpp\<close>),
  apart from log lines. \<open>init\<close> is what \<open>OnInit\<close> does to the application's state, \<open>conf\<close> the reading of the
  configuration file into it.
\<close>

section \<open>The callbacks\<close>

definition ConnSvr_OnProc :: "'c \<Rightarrow> ProcRetMode \<times> 'c" where "ConnSvr_OnProc c = (PROC_RET_SLEEP, c)"
definition ConnSvr_OnTick :: "'c \<Rightarrow> int \<times> 'c" where "ConnSvr_OnTick c = (0, c)"
definition ConnSvr_OnFini :: "'c \<Rightarrow> int \<times> 'c" where "ConnSvr_OnFini c = (0, c)"
definition ConnSvr_OnReload :: "'c \<Rightarrow> int \<times> 'c" where "ConnSvr_OnReload c = (0, c)"

definition ConnSvr_OnCtrlCmd :: "byte list \<Rightarrow> byte list \<Rightarrow> 'c \<Rightarrow> int \<times> byte list \<times> 'c" where
  "ConnSvr_OnCtrlCmd instr outstr c = (0, outstr, c)"

definition ConnSvr_ops :: "('c \<Rightarrow> int \<times> 'c) \<Rightarrow> ('c \<Rightarrow> bool \<times> 'c) \<Rightarrow> 'c app_ops" where
  "ConnSvr_ops init conf = \<lparr> aOnInit = init, aOnProc = ConnSvr_OnProc, aOnTick = ConnSvr_OnTick, aOnFini = ConnSvr_OnFini,
     aOnReload = ConnSvr_OnReload, aOnCtrlCmd = ConnSvr_OnCtrlCmd, aParseConf = conf \<rparr>"

definition Test_OnProc :: "'c \<Rightarrow> ProcRetMode \<times> 'c" where "Test_OnProc c = (PROC_RET_SLEEP, c)"
definition Test_OnTick :: "'c \<Rightarrow> int \<times> 'c" where "Test_OnTick c = (0, c)"
definition Test_OnFini :: "'c \<Rightarrow> int \<times> 'c" where "Test_OnFini c = (0, c)"
definition Test_OnReload :: "'c \<Rightarrow> int \<times> 'c" where "Test_OnReload c = (0, c)"

definition Test_OnCtrlCmd :: "byte list \<Rightarrow> byte list \<Rightarrow> 'c \<Rightarrow> int \<times> byte list \<times> 'c" where
  "Test_OnCtrlCmd instr outstr c = (0, outstr, c)"

definition Test_ops :: "('c \<Rightarrow> int \<times> 'c) \<Rightarrow> ('c \<Rightarrow> bool \<times> 'c) \<Rightarrow> 'c app_ops" where
  "Test_ops init conf = \<lparr> aOnInit = init, aOnProc = Test_OnProc, aOnTick = Test_OnTick, aOnFini = Test_OnFini,
     aOnReload = Test_OnReload, aOnCtrlCmd = Test_OnCtrlCmd, aParseConf = conf \<rparr>"

lemmas conn_ops_simps = ConnSvr_ops_def ConnSvr_OnProc_def ConnSvr_OnTick_def ConnSvr_OnFini_def ConnSvr_OnReload_def
  ConnSvr_OnCtrlCmd_def Test_ops_def Test_OnProc_def Test_OnTick_def Test_OnFini_def Test_OnReload_def Test_OnCtrlCmd_def

section \<open>Control commands of the two programs\<close>

text \<open>
  The framework answers a command it does not know with \<^verbatim>\<open>unsupport cmd\<close>. The programs never let it:
  they accept every command, so that a mistyped one gets an empty reply and does nothing.
\<close>

lemma unknown_command_is_silent:
  assumes "first_word instr \<noteq> bytes_of ''reload''" "first_word instr \<noteq> bytes_of ''stop''"
  shows "ControlCmd (ConnSvr_ops init conf) instr [] halt c = (0, [], halt, c)"
    and "ControlCmd (Test_ops init conf) instr [] halt c = (0, [], halt, c)"
    and "ControlCmd (ops \<lparr> aOnCtrlCmd := ServerApp_OnCtrlCmd \<rparr>) instr [] halt c = (0, bytes_of ''unsupport cmd '' @ instr @ [10], halt, c)"
  using assms by (simp_all add: ControlCmd_def conn_ops_simps ServerApp_OnCtrlCmd_def Let_def)

text \<open>A failing \<open>OnInit\<close>, as for a length size that is neither 2 nor 4, ends the program before its loop.\<close>

lemma failed_init_ends_Run:
  assumes "\<And>c. fst (init c) < 0"
  shows "\<exists>w'. Run vt (ConnSvr_ops init conf) as w = Some (-1, w')"
  using assms by (simp add: Run_def ServerApp_Init_def LoadConf_def conn_ops_simps Let_def split: prod.splits) (metis fst_conv)

lemma ConnSvr_OnInit_refuses:
  "msglensize cfg \<noteq> 4 \<Longrightarrow> msglensize cfg \<noteq> 2 \<Longrightarrow> fst (ConnSvr_OnInit e poll cfg garbage parser t k) < 0"
  by (simp add: ConnSvr_OnInit_def)

end
