(* ===== verification/LogFile.thy ===== *)
theory LogFile
  imports Bytes
begin

text \<open>
  The log: \<^verbatim>\<open>src/util/log/log.{h,cpp}\<close>, a file that rolls over when it is full or the day
  changes, and \<^verbatim>\<open>src/util/log/logmgr.{h,cpp}\<close>, which formats a line and gives it to every file
  whose range of levels contains the level of the line.

  The file system and the clock are the parameter \<open>'k fs\<close>; \<open>0\<close> is the null pointer of \<open>FILE*\<close>.
  Text is a list of bytes. \<open>localtime_r\<close> with \<open>strftime\<close> is the pair \<open>fs_date\<close>, \<open>fs_stamp\<close>.
\<close>

record 'k fs =
  fs_time :: "'k \<Rightarrow> int \<times> 'k"
  fs_usec :: "'k \<Rightarrow> (int \<times> int) \<times> 'k"
  fs_date :: "int \<Rightarrow> byte list"
  fs_stamp :: "int \<Rightarrow> byte list"
  fs_stat :: "byte list \<Rightarrow> 'k \<Rightarrow> int option"
  fs_fopen :: "byte list \<Rightarrow> 'k \<Rightarrow> int \<times> int \<times> 'k"
  fs_mkdir :: "byte list \<Rightarrow> 'k \<Rightarrow> int \<times> int \<times> 'k"
  fs_fwrite :: "int \<Rightarrow> byte list \<Rightarrow> 'k \<Rightarrow> int \<times> 'k"
  fs_ftruncate :: "int \<Rightarrow> 'k \<Rightarrow> 'k"
  fs_ftell_end :: "int \<Rightarrow> 'k \<Rightarrow> int"
  fs_fclose :: "int \<Rightarrow> 'k \<Rightarrow> 'k"

record CLogFile =
  m_tCurFileTime :: int
  m_uCurSize :: int
  m_uCurRollIdx :: int
  m_pFile :: int
  m_uRollSize :: int
  m_uRollCountMax :: int
  m_uRollTime :: int
  m_FileNamePrefix :: "byte list"
  m_FileNamePostfix :: "byte list"

definition k_iMaxFileName :: nat where "k_iMaxFileName = 255"
definition ENOENT :: int where "ENOENT = 2"
definition EEXIST :: int where "EEXIST = 17"

definition str :: "string \<Rightarrow> byte list" where
  "str s = map of_char s"

text \<open>\<open>%u\<close> and \<open>%d\<close>, and padding to a width.\<close>

fun dec_digits :: "nat \<Rightarrow> byte list" where
  "dec_digits n = (if n < 10 then [word_of_int (48 + int n)] else dec_digits (n div 10) @ [word_of_int (48 + int (n mod 10))])"

definition dec :: "int \<Rightarrow> byte list" where
  "dec x = (if x < 0 then 45 # dec_digits (nat (- x)) else dec_digits (nat x))"

definition pad_left :: "nat \<Rightarrow> byte \<Rightarrow> byte list \<Rightarrow> byte list" where
  "pad_left n b xs = replicate (n - length xs) b @ xs"

definition pad_right :: "nat \<Rightarrow> byte \<Rightarrow> byte list \<Rightarrow> byte list" where
  "pad_right n b xs = xs @ replicate (n - length xs) b"

section \<open>Files\<close>

definition days :: "int \<Rightarrow> int" where
  "days t = sgn t * (\<bar>t\<bar> div 86400)"

definition GetDiffDays :: "int \<Rightarrow> int \<Rightarrow> int \<Rightarrow> int" where
  "GetDiffDays secOfTime1 secOfTime2 timezone = days (secOfTime1 + timezone) - days (secOfTime2 + timezone)"

definition CLogFile_new :: "int \<Rightarrow> CLogFile" where
  "CLogFile_new garbage = \<lparr> m_tCurFileTime = garbage, m_uCurSize = 0, m_uCurRollIdx = 0, m_pFile = 0, m_uRollSize = 0,
     m_uRollCountMax = 0, m_uRollTime = 0, m_FileNamePrefix = [], m_FileNamePostfix = [] \<rparr>"

text \<open>\<open>snprintf\<close> into a path buffer keeps one byte for the terminator.\<close>

definition GetFileName :: "'k fs \<Rightarrow> CLogFile \<Rightarrow> nat \<Rightarrow> int \<Rightarrow> int \<Rightarrow> byte list" where
  "GetFileName fs f zuPathLen uRollID tNow =
     (let strTime = fs_date fs tNow;
          name = m_FileNamePrefix f @ str ''_'' @ strTime @ str ''.'' @ m_FileNamePostfix f
      in take (zuPathLen - 1) (if uRollID = 0 then name else name @ str ''.'' @ dec uRollID))"

definition CLogFile_Close :: "'k fs \<Rightarrow> CLogFile \<Rightarrow> 'k \<Rightarrow> int \<times> CLogFile \<times> 'k" where
  "CLogFile_Close fs f k =
     (if m_pFile f \<noteq> 0
      then
        let (_, k) = fs_fwrite fs (m_pFile f) (str ''close file'' @ [10]) k;
            k = fs_fclose fs (m_pFile f) k
        in (0, f \<lparr> m_pFile := 0, m_tCurFileTime := 0, m_uCurSize := 0 \<rparr>, k)
      else (0, f, k))"

text \<open>The position of the last separator, and the path up to it.\<close>

fun strrchr :: "byte \<Rightarrow> byte list \<Rightarrow> nat option" where
  "strrchr c [] = None"
| "strrchr c (b # bs) = (case strrchr c bs of Some i \<Rightarrow> Some (Suc i) | None \<Rightarrow> if b = c then Some 0 else None)"

lemma strrchr_less: "strrchr c xs = Some i \<Longrightarrow> i < length xs"
  by (induction xs arbitrary: i) (auto split: option.splits if_splits)

function MakeDir :: "'k fs \<Rightarrow> byte list \<Rightarrow> 'k \<Rightarrow> int \<times> 'k" where
  "MakeDir fs strDir k =
     (let (iRet, err, k) = fs_mkdir fs strDir k
      in if iRet = 0 \<or> err = EEXIST then (0, k)
         else
           case strrchr 47 strDir of
             None \<Rightarrow> (-1, k)
           | Some i \<Rightarrow>
               let (iRet, k) = MakeDir fs (take i strDir) k
               in if iRet < 0 then (-1, k)
                  else (let (iRet, _, k) = fs_mkdir fs strDir k in (iRet, k)))"
  by auto
termination by (relation "measure (\<lambda>(_, d, _). length d)") (auto dest: strrchr_less)

definition MakeDirFullPath :: "'k fs \<Rightarrow> byte list \<Rightarrow> 'k \<Rightarrow> int \<times> 'k" where
  "MakeDirFullPath fs strPath k =
     (case strrchr 47 strPath of None \<Rightarrow> (0, k) | Some i \<Rightarrow> MakeDir fs (take i strPath) k)"

definition OpenFile :: "'k fs \<Rightarrow> CLogFile \<Rightarrow> byte list \<Rightarrow> bool \<Rightarrow> 'k \<Rightarrow> int \<times> CLogFile \<times> 'k" where
  "OpenFile fs f pPath isClear k =
     (let (_, f, k) = (if m_pFile f \<noteq> 0 then CLogFile_Close fs f k else (0, f, k));
          (h, err, k) = fs_fopen fs pPath k;
          f = f \<lparr> m_pFile := h \<rparr>;
          (ret, f, k) =
            (if h = 0
             then if err \<noteq> ENOENT then (-1 :: int, f, k)
                  else
                    let (iRet, k) = MakeDirFullPath fs pPath k
                    in if iRet < 0 then (-1, f, k)
                       else (let (h, _, k) = fs_fopen fs pPath k in (0, f \<lparr> m_pFile := h \<rparr>, k))
             else (0, f, k))
      in if ret < 0 \<or> m_pFile f = 0 then (-1, f, k)
         else
           let k = (if isClear then fs_ftruncate fs (m_pFile f) k else k);
               f = f \<lparr> m_uCurSize := u32 (fs_ftell_end fs (m_pFile f) k) \<rparr>;
               (t, k) = fs_time fs k
           in (0, f \<lparr> m_tCurFileTime := t \<rparr>, k))"

definition CheckFileRoll :: "'k fs \<Rightarrow> CLogFile \<Rightarrow> 'k \<Rightarrow> int \<times> CLogFile \<times> 'k" where
  "CheckFileRoll fs f k =
     (let (tNow, k) = fs_time fs k;
          iDiff = s32 (GetDiffDays tNow (m_tCurFileTime f) 28800);
          (isChangeFile, f) =
            (if iDiff \<noteq> 0 then (True, f \<lparr> m_uCurRollIdx := 0 \<rparr>)
             else if m_uCurSize f \<ge> m_uRollSize f
             then
               let f = (if m_uRollCountMax f = 0 then f \<lparr> m_uRollCountMax := 1 \<rparr> else f)
               in (True, f \<lparr> m_uCurRollIdx := u32 (m_uCurRollIdx f + 1) mod m_uRollCountMax f \<rparr>)
             else (False, f))
      in if isChangeFile
         then OpenFile fs f (GetFileName fs f k_iMaxFileName (m_uCurRollIdx f) tNow) True k
         else (0, f, k))"

definition CLogFile_Write :: "'k fs \<Rightarrow> CLogFile \<Rightarrow> byte list \<Rightarrow> 'k \<Rightarrow> int \<times> CLogFile \<times> 'k" where
  "CLogFile_Write fs f buff k =
     (let (_, f, k) = CheckFileRoll fs f k
      in if m_pFile f \<noteq> 0
         then (let (count, k) = fs_fwrite fs (m_pFile f) buff k in (0, f \<lparr> m_uCurSize := u32 (m_uCurSize f + count) \<rparr>, k))
         else (0, f, k))"

text \<open>The loop of \<open>InitFileRoll\<close> over the roll numbers: the last modified file, \<open>-1\<close> if there is none.\<close>

fun last_roll :: "'k fs \<Rightarrow> CLogFile \<Rightarrow> int \<Rightarrow> int list \<Rightarrow> int \<Rightarrow> int \<Rightarrow> 'k \<Rightarrow> int" where
  "last_roll fs f tNow [] tLastModify iLastRollID k = iLastRollID"
| "last_roll fs f tNow (i # is) tLastModify iLastRollID k =
     (case fs_stat fs (GetFileName fs f k_iMaxFileName i tNow) k of
        None \<Rightarrow> last_roll fs f tNow is tLastModify iLastRollID k
      | Some st_mtime \<Rightarrow>
          if iLastRollID = -1 then last_roll fs f tNow is st_mtime (s32 i) k
          else if tLastModify < st_mtime then last_roll fs f tNow is st_mtime (s32 i) k
          else last_roll fs f tNow is tLastModify iLastRollID k)"

definition InitFileRoll :: "'k fs \<Rightarrow> CLogFile \<Rightarrow> 'k \<Rightarrow> int \<times> CLogFile \<times> 'k" where
  "InitFileRoll fs f k =
     (let (tNow, k) = fs_time fs k;
          iLastRollID = last_roll fs f tNow (map int [0..<nat (m_uRollCountMax f)]) 0 (-1) k;
          f = f \<lparr> m_uCurRollIdx := (if iLastRollID = -1 then 0 else u32 iLastRollID) \<rparr>
      in OpenFile fs f (GetFileName fs f k_iMaxFileName (m_uCurRollIdx f) tNow) False k)"

text \<open>\<open>strncpy\<close> of at most 254 bytes; the last byte of the arrays is taken to be the terminator.\<close>

definition InitLogFile :: "'k fs \<Rightarrow> CLogFile \<Rightarrow> int \<Rightarrow> int \<Rightarrow> byte list \<Rightarrow> byte list \<Rightarrow> 'k \<Rightarrow> int \<times> CLogFile \<times> 'k" where
  "InitLogFile fs f iRollSize iRollCountMax prefix postfix k =
     InitFileRoll fs (f \<lparr> m_uRollSize := u32 iRollSize, m_uRollCountMax := u32 iRollCountMax,
       m_FileNamePrefix := take (k_iMaxFileName - 1) prefix, m_FileNamePostfix := take (k_iMaxFileName - 1) postfix \<rparr>) k"

section \<open>The manager\<close>

record LogFileCatConf =
  m_iMinLevel :: int
  m_iMaxLevel :: int
  m_LogFile :: CLogFile

text \<open>The static buffers of \<open>Log\<close> are part of the manager's state.\<close>

record CLogMgr =
  m_LogCats :: "LogFileCatConf list"
  log_buf :: "byte list"
  log_prefixbuf :: "byte list"

definition log_buflen :: int where "log_buflen = 1024 * 1024"

definition AddFileCat :: "'k fs \<Rightarrow> int \<Rightarrow> CLogMgr \<Rightarrow> int \<Rightarrow> int \<Rightarrow> int \<Rightarrow> int \<Rightarrow> byte list \<Rightarrow> byte list \<Rightarrow> 'k \<Rightarrow>
    int \<times> CLogMgr \<times> 'k" where
  "AddFileCat fs garbage m iLogMinLevel iLogMaxLevel iMaxRollSize iMaxRollCount prefix postfix k =
     (let conf = \<lparr> m_iMinLevel = iLogMinLevel, m_iMaxLevel = iLogMaxLevel, m_LogFile = CLogFile_new garbage \<rparr>;
          (iRet, f, k) = InitLogFile fs (m_LogFile conf) iMaxRollSize iMaxRollCount prefix postfix k
      in if iRet < 0 then (-1, m, k)
         else (0, m \<lparr> m_LogCats := m_LogCats m @ [conf \<lparr> m_LogFile := f \<rparr>] \<rparr>, k))"

fun close_cats :: "'k fs \<Rightarrow> LogFileCatConf list \<Rightarrow> 'k \<Rightarrow> 'k" where
  "close_cats fs [] k = k"
| "close_cats fs (c # cs) k = (let (_, _, k) = CLogFile_Close fs (m_LogFile c) k in close_cats fs cs k)"

definition ClearAllFileCats :: "'k fs \<Rightarrow> CLogMgr \<Rightarrow> 'k \<Rightarrow> int \<times> CLogMgr \<times> 'k" where
  "ClearAllFileCats fs m k = (let k = close_cats fs (m_LogCats m) k in (0, m \<lparr> m_LogCats := [] \<rparr>, k))"

definition g_LogLevelDes :: "byte list list" where
  "g_LogLevelDes = map str [''TRACE'', ''DEBUG'', ''INFO'', ''ERROR'', ''FATAL'']"

text \<open>\<open>snprintf(buf + off, size - off, ...)\<close> of the text \<open>xs\<close>: it is cut to the space that is left, less one.\<close>

definition snprintf_at :: "byte list \<Rightarrow> int \<Rightarrow> int \<Rightarrow> byte list \<Rightarrow> byte list fault" where
  "snprintf_at buf off room xs =
     (if room = 0 then Some buf else mem_write buf off (take (nat (room - 1)) xs @ [0]))"

text \<open>The part under \<open>!isInited\<close>: the prefix is put together and copied to the line buffer.\<close>

definition log_prefix :: "'k fs \<Rightarrow> byte list \<Rightarrow> byte list \<Rightarrow> int \<Rightarrow> int \<Rightarrow> CLogMgr \<Rightarrow> 'k \<Rightarrow> (int \<times> CLogMgr \<times> 'k) fault" where
  "log_prefix fs fname ffunc fline lv m k = do {
     let ((sec, usec), k) = fs_usec fs k;
     des \<leftarrow> arr_get g_LogLevelDes lv;
     let s1 = str ''['' @ fs_stamp fs sec @ str ''.'' @ pad_left 6 48 (dec usec) @ str ''] ['' @ pad_right 5 32 des @ str ''] '';
     pb \<leftarrow> snprintf_at (log_prefixbuf m) 0 1024 s1;
     let off = (if 0 < length s1 \<and> int (length s1) \<le> 1024 then int (length s1) else 0);
     (off, pb) \<leftarrow>
       (if fline \<noteq> -1
        then do {
          let s2 = str ''['' @ fname @ str '':'' @ dec fline @ str '' ('' @ ffunc @ str '')] '';
          pb \<leftarrow> snprintf_at pb off (1024 - off) s2;
          Some (if 0 < length s2 \<and> int (length s2) \<le> 1024 - off then off + int (length s2) else off, pb)
        }
        else Some (off, pb));
     pre \<leftarrow> mem_read pb 0 off;
     b \<leftarrow> mem_write (log_buf m) 0 pre;
     Some (off, m \<lparr> log_buf := b, log_prefixbuf := pb \<rparr>, k)
   }"

text \<open>One matching category: format the message behind the prefix, end the line, write it.\<close>

definition log_one :: "'k fs \<Rightarrow> int \<Rightarrow> byte list \<Rightarrow> byte list \<Rightarrow> LogFileCatConf \<Rightarrow> 'k \<Rightarrow> (byte list \<times> LogFileCatConf \<times> 'k) fault" where
  "log_one fs off msg buf c k = do {
     buf \<leftarrow> snprintf_at buf off (log_buflen - off) msg;
     let count = int (length msg);
     buf \<leftarrow> mem_write buf (off + count) [10];
     line \<leftarrow> mem_read buf 0 (off + count + 1);
     let (_, f, k) = CLogFile_Write fs (m_LogFile c) line k;
     Some (buf, c \<lparr> m_LogFile := f \<rparr>, k)
   }"

text \<open>The loop over the categories; \<open>init\<close> is the prefix offset once the prefix is there.\<close>

fun log_loop :: "'k fs \<Rightarrow> byte list \<Rightarrow> byte list \<Rightarrow> int \<Rightarrow> int \<Rightarrow> byte list \<Rightarrow> int option \<Rightarrow> LogFileCatConf list \<Rightarrow> CLogMgr \<Rightarrow> 'k \<Rightarrow>
    (LogFileCatConf list \<times> CLogMgr \<times> 'k) fault" where
  "log_loop fs fname ffunc fline lv msg init [] m k = Some ([], m, k)"
| "log_loop fs fname ffunc fline lv msg init (c # cs) m k =
     (if lv \<ge> m_iMinLevel c \<and> lv \<le> m_iMaxLevel c
      then do {
        (off, m, k) \<leftarrow> (case init of Some off \<Rightarrow> Some (off, m, k) | None \<Rightarrow> log_prefix fs fname ffunc fline lv m k);
        (b, c, k) \<leftarrow> log_one fs off msg (log_buf m) c k;
        (cs, m, k) \<leftarrow> log_loop fs fname ffunc fline lv msg (Some off) cs (m \<lparr> log_buf := b \<rparr>) k;
        Some (c # cs, m, k)
      }
      else do {
        (cs, m, k) \<leftarrow> log_loop fs fname ffunc fline lv msg init cs m k;
        Some (c # cs, m, k)
      })"

definition CLogMgr_Log :: "'k fs \<Rightarrow> byte list \<Rightarrow> byte list \<Rightarrow> int \<Rightarrow> int \<Rightarrow> byte list \<Rightarrow> CLogMgr \<Rightarrow> 'k \<Rightarrow> (int \<times> CLogMgr \<times> 'k) fault" where
  "CLogMgr_Log fs fname ffunc fline lv msg m k = do {
     (cs, m, k) \<leftarrow> log_loop fs fname ffunc fline lv msg None (m_LogCats m) m k;
     Some (0, m \<lparr> m_LogCats := cs \<rparr>, k)
   }"

section \<open>Rolling\<close>

text \<open>
  What the code relies on of the C library, for a disk that is not full: \<open>hdl\<close> says which path
  an open stream belongs to and \<open>cont\<close> what is in a file.
\<close>

definition fs_ok :: "'k fs \<Rightarrow> ('k \<Rightarrow> int \<Rightarrow> byte list option) \<Rightarrow> ('k \<Rightarrow> byte list \<Rightarrow> byte list) \<Rightarrow> bool" where
  "fs_ok fs hdl cont \<longleftrightarrow>
     (\<forall>p k. case fs_fopen fs p k of (h, e, k') \<Rightarrow> cont k' = cont k \<and> hdl k' = (if h = 0 then hdl k else (hdl k)(h \<mapsto> p))) \<and>
     (\<forall>h p xs k. hdl k h = Some p \<longrightarrow> fst (fs_fwrite fs h xs k) = int (length xs) \<and>
        hdl (snd (fs_fwrite fs h xs k)) = hdl k \<and> cont (snd (fs_fwrite fs h xs k)) = (cont k)(p := cont k p @ xs)) \<and>
     (\<forall>h p k. hdl k h = Some p \<longrightarrow> hdl (fs_ftruncate fs h k) = hdl k \<and> cont (fs_ftruncate fs h k) = (cont k)(p := [])) \<and>
     (\<forall>h p k. hdl k h = Some p \<longrightarrow> fs_ftell_end fs h k = int (length (cont k p))) \<and>
     (\<forall>h k. cont (fs_fclose fs h k) = cont k) \<and>
     (\<forall>k. hdl (snd (fs_time fs k)) = hdl k \<and> cont (snd (fs_time fs k)) = cont k) \<and>
     (\<forall>p k. hdl (snd (snd (fs_mkdir fs p k))) = hdl k \<and> cont (snd (snd (fs_mkdir fs p k))) = cont k)"

lemma fs_okD:
  assumes "fs_ok fs hdl cont"
  shows "fs_fopen fs p k = (h, e, k') \<Longrightarrow> cont k' = cont k \<and> hdl k' = (if h = 0 then hdl k else (hdl k)(h \<mapsto> p))"
    and "hdl k h = Some p \<Longrightarrow> fs_fwrite fs h xs k = (n, k') \<Longrightarrow>
      n = int (length xs) \<and> hdl k' = hdl k \<and> cont k' = (cont k)(p := cont k p @ xs)"
    and "hdl k h = Some p \<Longrightarrow> hdl (fs_ftruncate fs h k) = hdl k \<and> cont (fs_ftruncate fs h k) = (cont k)(p := [])"
    and "hdl k h = Some p \<Longrightarrow> fs_ftell_end fs h k = int (length (cont k p))"
    and "cont (fs_fclose fs h k) = cont k"
    and "fs_time fs k = (t, k') \<Longrightarrow> hdl k' = hdl k \<and> cont k' = cont k"
    and "fs_mkdir fs p k = (n, e, k') \<Longrightarrow> hdl k' = hdl k \<and> cont k' = cont k"
proof -
  note d = assms [unfolded fs_ok_def]
  show "fs_fopen fs p k = (h, e, k') \<Longrightarrow> cont k' = cont k \<and> hdl k' = (if h = 0 then hdl k else (hdl k)(h \<mapsto> p))"
    using d [THEN conjunct1, THEN spec, of p, THEN spec, of k] by simp
  show "hdl k h = Some p \<Longrightarrow> fs_fwrite fs h xs k = (n, k') \<Longrightarrow>
      n = int (length xs) \<and> hdl k' = hdl k \<and> cont k' = (cont k)(p := cont k p @ xs)"
    using d [THEN conjunct2, THEN conjunct1, THEN spec, of h, THEN spec, of p, THEN spec, of xs, THEN spec, of k] by simp
  show "hdl k h = Some p \<Longrightarrow> hdl (fs_ftruncate fs h k) = hdl k \<and> cont (fs_ftruncate fs h k) = (cont k)(p := [])"
    "hdl k h = Some p \<Longrightarrow> fs_ftell_end fs h k = int (length (cont k p))" "cont (fs_fclose fs h k) = cont k" using d by blast+
  show "fs_time fs k = (t, k') \<Longrightarrow> hdl k' = hdl k \<and> cont k' = cont k" using d by (metis snd_conv)
  show "fs_mkdir fs p k = (n, e, k') \<Longrightarrow> hdl k' = hdl k \<and> cont k' = cont k" using d by (metis snd_conv)
qed

lemma MakeDir_frame:
  assumes "fs_ok fs hdl cont" and "MakeDir fs d k = (r, k')"
  shows "hdl k' = hdl k \<and> cont k' = cont k"
  using assms
proof (induction fs d k arbitrary: r k' rule: MakeDir.induct)
  case (1 fs d k)
  obtain n e k1 where m: "fs_mkdir fs d k = (n, e, k1)" by (metis prod_cases3)
  note f = fs_okD(7) [OF "1.prems"(1)]
  show ?case
  proof (cases "n = 0 \<or> e = EEXIST")
    case True
    then show ?thesis using "1.prems"(2) m f [OF m] by (simp add: MakeDir.simps [of fs d k])
  next
    case False
    show ?thesis
    proof (cases "strrchr 47 d")
      case None
      then show ?thesis using "1.prems"(2) m f [OF m] False by (simp add: MakeDir.simps [of fs d k])
    next
      case (Some i)
      obtain r2 k2 where r2: "MakeDir fs (take i d) k1 = (r2, k2)" by fastforce
      obtain n3 e3 k3 where m3: "fs_mkdir fs d k2 = (n3, e3, k3)" by (metis prod_cases3)
      have "hdl k2 = hdl k1 \<and> cont k2 = cont k1"
        by (rule "1.IH" [OF m [symmetric] refl refl False Some "1.prems"(1) r2])
      then show ?thesis using "1.prems"(2) m False Some r2 m3 f [OF m] f [OF m3]
        by (auto simp: MakeDir.simps [of fs d k] split: if_splits)
    qed
  qed
qed

definition log_inv :: "('k \<Rightarrow> int \<Rightarrow> byte list option) \<Rightarrow> ('k \<Rightarrow> byte list \<Rightarrow> byte list) \<Rightarrow> CLogFile \<Rightarrow> 'k \<Rightarrow> bool" where
  "log_inv hdl cont f k \<longleftrightarrow>
     (m_pFile f \<noteq> 0 \<longrightarrow> (\<exists>p. hdl k (m_pFile f) = Some p \<and> m_uCurSize f = int (length (cont k p)))) \<and>
     0 \<le> m_uCurRollIdx f \<and> m_uCurRollIdx f < max 1 (m_uRollCountMax f) \<and>
     0 \<le> m_uRollCountMax f \<and> m_uRollCountMax f < 4294967296"

text \<open>Opening for a roll: the file is the named one and empty, or there is none.\<close>

lemma OpenFile_clear:
  assumes ok: "fs_ok fs hdl cont" and o: "OpenFile fs f p True k = (r, f', k')"
  shows "(m_pFile f' \<noteq> 0 \<longrightarrow> hdl k' (m_pFile f') = Some p \<and> cont k' p = [] \<and> m_uCurSize f' = 0) \<and>
    m_uCurRollIdx f' = m_uCurRollIdx f \<and> m_uRollCountMax f' = m_uRollCountMax f \<and> m_uRollSize f' = m_uRollSize f"
proof -
  obtain x f1 k1 where c: "(if m_pFile f \<noteq> 0 then CLogFile_Close fs f k else (0, f, k)) = (x, f1, k1)" by (metis prod_cases3)
  have f1: "m_uCurRollIdx f1 = m_uCurRollIdx f" "m_uRollCountMax f1 = m_uRollCountMax f" "m_uRollSize f1 = m_uRollSize f"
    using c by (auto simp: CLogFile_Close_def Let_def split: if_splits prod.splits)
  obtain h e k2 where h: "fs_fopen fs p k1 = (h, e, k2)" by (metis prod_cases3)
  obtain md k3 where md: "MakeDirFullPath fs p k2 = (md, k3)" by fastforce
  obtain h4 e4 k4 where h4: "fs_fopen fs p k3 = (h4, e4, k4)" by (metis prod_cases3)
  define res where "res = (if h = 0
     then if e \<noteq> ENOENT then (-1 :: int, f1 \<lparr> m_pFile := h \<rparr>, k2)
          else if md < 0 then (-1, f1 \<lparr> m_pFile := h \<rparr>, k3) else (0, f1 \<lparr> m_pFile := h, m_pFile := h4 \<rparr>, k4)
     else (0, f1 \<lparr> m_pFile := h \<rparr>, k2))"
  obtain ret g k5 where g: "res = (ret, g, k5)" by (metis prod_cases3)
  have g1: "m_uCurRollIdx g = m_uCurRollIdx f" "m_uRollCountMax g = m_uRollCountMax f" "m_uRollSize g = m_uRollSize f"
    "m_pFile g \<noteq> 0 \<Longrightarrow> hdl k5 (m_pFile g) = Some p" "ret < 0 \<Longrightarrow> m_pFile g = 0"
    using g f1 fs_okD(1) [OF ok h] fs_okD(1) [OF ok h4] by (auto simp: res_def split: if_splits)
  obtain t k7 where t: "fs_time fs (fs_ftruncate fs (m_pFile g) k5) = (t, k7)" by fastforce
  have e: "OpenFile fs f p True k = (if ret < 0 \<or> m_pFile g = 0 then (-1, g, k5)
      else (0, g \<lparr> m_uCurSize := u32 (fs_ftell_end fs (m_pFile g) (fs_ftruncate fs (m_pFile g) k5)), m_tCurFileTime := t \<rparr>, k7))"
    unfolding OpenFile_def Let_def c prod.case h md h4 res_def [symmetric] g if_True t ..
  show ?thesis
  proof (cases "m_pFile g = 0")
    case True
    then show ?thesis using o e g1 by simp
  next
    case False
    note hp = g1(4) [OF False]
    note tr = fs_okD(3) [OF ok hp]
    have "fs_ftell_end fs (m_pFile g) (fs_ftruncate fs (m_pFile g) k5) = 0"
      using fs_okD(4) [OF ok, of "fs_ftruncate fs (m_pFile g) k5" "m_pFile g" p] tr hp by simp
    moreover have "\<not> ret < 0" using g1(5) False by blast
    ultimately show ?thesis using o e g1 False tr hp fs_okD(6) [OF ok t] by (auto simp: u32_def)
  qed
qed

text \<open>Rolling keeps the roll number below the configured count.\<close>

lemma CheckFileRoll_ok:
  assumes ok: "fs_ok fs hdl cont" and i: "log_inv hdl cont f k" and rs: "0 < m_uRollSize f" and c: "CheckFileRoll fs f k = (r, f', k')"
  shows "log_inv hdl cont f' k' \<and> (m_pFile f' \<noteq> 0 \<longrightarrow> m_uCurSize f' < m_uRollSize f \<and>
    (\<exists>p. hdl k' (m_pFile f') = Some p \<and> (cont k' p = [] \<or> cont k' p = cont k p)))"
proof -
  obtain tNow k1 where t: "fs_time fs k = (tNow, k1)" by fastforce
  note fr = fs_okD(6) [OF ok t]
  let ?d = "s32 (GetDiffDays tNow (m_tCurFileTime f) 28800) \<noteq> 0"
  show ?thesis
  proof (cases "?d \<or> m_uCurSize f \<ge> m_uRollSize f")
    case False
    then have "f' = f" "k' = k1" using c t by (auto simp: CheckFileRoll_def)
    then show ?thesis using i fr False by (auto simp: log_inv_def)
  next
    case True
    have "\<exists>g. 0 \<le> m_uCurRollIdx g \<and> m_uCurRollIdx g < max 1 (m_uRollCountMax g) \<and> 0 \<le> m_uRollCountMax g \<and>
        m_uRollCountMax g < 4294967296 \<and> m_uRollSize g = m_uRollSize f \<and>
        OpenFile fs g (GetFileName fs g k_iMaxFileName (m_uCurRollIdx g) tNow) True k1 = (r, f', k')"
    proof (cases ?d)
      case d: True
      let ?g = "f \<lparr> m_uCurRollIdx := 0 \<rparr>"
      have "OpenFile fs ?g (GetFileName fs ?g k_iMaxFileName (m_uCurRollIdx ?g) tNow) True k1 = (r, f', k')"
        using c t d by (simp add: CheckFileRoll_def Let_def)
      then show ?thesis using i by (intro exI [of _ ?g]) (simp add: log_inv_def)
    next
      case d: False
      let ?h = "if m_uRollCountMax f = 0 then f \<lparr> m_uRollCountMax := 1 \<rparr> else f"
      let ?g = "?h \<lparr> m_uCurRollIdx := u32 (m_uCurRollIdx ?h + 1) mod m_uRollCountMax ?h \<rparr>"
      have "OpenFile fs ?g (GetFileName fs ?g k_iMaxFileName (m_uCurRollIdx ?g) tNow) True k1 = (r, f', k')"
        using c t d True by (simp add: CheckFileRoll_def Let_def)
      moreover have "0 < m_uRollCountMax ?h" using i by (auto simp: log_inv_def)
      then have "0 \<le> m_uCurRollIdx ?g" "m_uCurRollIdx ?g < max 1 (m_uRollCountMax ?g)" "0 \<le> m_uRollCountMax ?g" by auto
      moreover have "m_uRollCountMax ?g < 4294967296" "m_uRollSize ?g = m_uRollSize f" using i by (auto simp: log_inv_def)
      ultimately show ?thesis by blast
    qed
    then obtain g where g: "0 \<le> m_uCurRollIdx g" "m_uCurRollIdx g < max 1 (m_uRollCountMax g)" "0 \<le> m_uRollCountMax g"
        "m_uRollCountMax g < 4294967296" "m_uRollSize g = m_uRollSize f"
        "OpenFile fs g (GetFileName fs g k_iMaxFileName (m_uCurRollIdx g) tNow) True k1 = (r, f', k')" by blast
    from OpenFile_clear [OF ok g(6)] show ?thesis using g rs by (auto simp: log_inv_def)
  qed
qed

section \<open>Properties\<close>


text \<open>A file system in memory: the contents of the files and the open streams, numbered from 1.\<close>

definition mem_fs :: "((int \<Rightarrow> byte list option) \<times> (byte list \<Rightarrow> byte list) \<times> int) fs" where
  "mem_fs = \<lparr> fs_time = (\<lambda>k. (0, k)), fs_usec = (\<lambda>k. ((0, 0), k)), fs_date = (\<lambda>_. []), fs_stamp = (\<lambda>_. []), fs_stat = (\<lambda>_ _. None),
     fs_fopen = (\<lambda>p (h, c, n). (n, 0, if n = 0 then (h, c, n) else (h(n \<mapsto> p), c, n + 1))),
     fs_mkdir = (\<lambda>p k. (0, 0, k)),
     fs_fwrite = (\<lambda>i xs (h, c, n). case h i of None \<Rightarrow> (0, (h, c, n)) | Some p \<Rightarrow> (int (length xs), (h, c(p := c p @ xs), n))),
     fs_ftruncate = (\<lambda>i (h, c, n). case h i of None \<Rightarrow> (h, c, n) | Some p \<Rightarrow> (h, c(p := []), n)),
     fs_ftell_end = (\<lambda>i (h, c, n). case h i of None \<Rightarrow> -1 | Some p \<Rightarrow> int (length (c p))),
     fs_fclose = (\<lambda>i (h, c, n). (h(i := None), c, n)) \<rparr>"


end
