(* ===== verification/Singleton.thy ===== *)
theory Singleton
  imports Wdd_Prelude
begin

text \<open>
  The singleton holder of \<^verbatim>\<open>util/singleton/Singleton.{h,hpp}\<close>. The state is the static pointer, whether
  the static collector in \<open>SetSingleton\<close> was constructed, the objects that are allocated and the
  objects whose \<open>_singleton_init\<close> was called. \<open>need\<close> is the compile-time test whether the class has
  that function. Using an object that is not allocated is a fault, and so is a failed \<open>assert\<close>.
\<close>

record holder =
  m_pHoldee :: "int option"
  gc_constructed :: bool
  allocated :: "int set"
  inited :: "int list"

definition holder_start :: holder where
  "holder_start = \<lparr> m_pHoldee = None, gc_constructed = False, allocated = {}, inited = [] \<rparr>"

definition singleton_init :: "int \<Rightarrow> holder \<Rightarrow> holder fault" where
  "singleton_init p h = (if p \<in> allocated h then Some (h \<lparr> inited := p # inited h \<rparr>) else None)"

definition IFTHENELSE_OP :: "bool \<Rightarrow> int \<Rightarrow> holder \<Rightarrow> holder fault" where
  "IFTHENELSE_OP need pT h =
     (if pT = 0 then None
      else if m_pHoldee h = None
      then (let h = h \<lparr> m_pHoldee := Some pT \<rparr> in if need then singleton_init pT h else Some h)
      else Some h)"

definition SetSingleton :: "bool \<Rightarrow> int \<Rightarrow> holder \<Rightarrow> holder fault" where
  "SetSingleton need pT h = IFTHENELSE_OP need pT (h \<lparr> gc_constructed := True \<rparr>)"

definition GetInstance :: "holder \<Rightarrow> int option" where
  "GetInstance h = m_pHoldee h"

definition Holder_Release :: "holder \<Rightarrow> holder fault" where
  "Holder_Release h =
     (case m_pHoldee h of
        None \<Rightarrow> Some h
      | Some p \<Rightarrow> if p \<in> allocated h then Some (h \<lparr> allocated := allocated h - {p}, m_pHoldee := None \<rparr>) else None)"

text \<open>The destructors of static objects at the end of the program.\<close>

definition SHGC_destroy :: "holder \<Rightarrow> holder fault" where
  "SHGC_destroy h = (if gc_constructed h then Holder_Release h else Some h)"

text \<open>What a program does: it gives a new object to the holder, or releases it.\<close>

datatype holder_op = Give int | Drop

fun holder_run :: "bool \<Rightarrow> holder_op list \<Rightarrow> holder \<Rightarrow> holder fault" where
  "holder_run need [] h = Some h"
| "holder_run need (Give p # ops) h =
     (if p = 0 \<or> p \<in> allocated h then None
      else do { h \<leftarrow> SetSingleton need p (h \<lparr> allocated := insert p (allocated h) \<rparr>); holder_run need ops h })"
| "holder_run need (Drop # ops) h = do { h \<leftarrow> Holder_Release h; holder_run need ops h }"

text \<open>New objects come at addresses that are not in use.\<close>

fun fresh_gives :: "holder_op list \<Rightarrow> int set \<Rightarrow> bool" where
  "fresh_gives [] A = True"
| "fresh_gives (Give p # ops) A = (p \<noteq> 0 \<and> p \<notin> A \<and> fresh_gives ops (insert p A))"
| "fresh_gives (Drop # ops) A = fresh_gives ops A"

definition holder_ok :: "bool \<Rightarrow> holder \<Rightarrow> bool" where
  "holder_ok need h \<longleftrightarrow> (\<forall>p. m_pHoldee h = Some p \<longrightarrow> p \<in> allocated h \<and> gc_constructed h \<and> (need \<longrightarrow> p \<in> set (inited h))) \<and>
     distinct (inited h)"

lemma holder_steps_ok:
  assumes "holder_ok need h"
  shows "p \<noteq> 0 \<Longrightarrow> p \<notin> allocated h \<Longrightarrow> p \<notin> set (inited h) \<Longrightarrow>
      \<exists>h'. SetSingleton need p (h \<lparr> allocated := insert p (allocated h) \<rparr>) = Some h' \<and> holder_ok need h' \<and>
        allocated h' = insert p (allocated h) \<and> set (inited h') \<subseteq> insert p (set (inited h))"
    and "\<exists>h'. Holder_Release h = Some h' \<and> holder_ok need h' \<and> allocated h' \<subseteq> allocated h \<and> inited h' = inited h \<and>
      m_pHoldee h' = None"
  using assms
  by (auto simp: holder_ok_def SetSingleton_def IFTHENELSE_OP_def singleton_init_def Holder_Release_def Let_def split: option.splits)

lemma holder_runs_ok:
  assumes "fresh_gives ops A" "holder_ok need h" "allocated h \<subseteq> A" "set (inited h) \<subseteq> A"
  shows "\<exists>h'. holder_run need ops h = Some h' \<and> holder_ok need h'"
  using assms
proof (induction ops arbitrary: h A)
  case (Cons op ops)
  show ?case
  proof (cases op)
    case (Give p)
    with Cons.prems obtain h' where h': "SetSingleton need p (h \<lparr> allocated := insert p (allocated h) \<rparr>) = Some h'"
      "holder_ok need h'" "allocated h' = insert p (allocated h)" "set (inited h') \<subseteq> insert p (set (inited h))"
      using holder_steps_ok(1) [OF Cons.prems(2), of p] by auto
    moreover from this Cons.prems(3,4) have "allocated h' \<subseteq> insert p A" "set (inited h') \<subseteq> insert p A" by auto
    ultimately show ?thesis using Cons.IH [of "insert p A" h'] Cons.prems Give by auto
  next
    case Drop
    with Cons.prems obtain h' where "Holder_Release h = Some h'" "holder_ok need h'" "allocated h' \<subseteq> allocated h" "inited h' = inited h"
      using holder_steps_ok(2) [OF Cons.prems(2)] by auto
    with Cons.IH [of A h'] Cons.prems Drop show ?thesis by auto
  qed
qed simp

text \<open>
  However a program gives objects to the holder and releases it, no freed object is used, the
  instance is allocated and was initialised once, and at the end of the program the collector
  releases it.
\<close>

lemma singleton_runs_safe:
  assumes "fresh_gives ops {}"
  shows "\<exists>h h'. holder_run need ops holder_start = Some h \<and>
    (\<forall>p. GetInstance h = Some p \<longrightarrow> p \<in> allocated h \<and> (need \<longrightarrow> p \<in> set (inited h) \<and> distinct (inited h))) \<and>
    SHGC_destroy h = Some h' \<and> GetInstance h' = None"
proof -
  have "holder_ok need holder_start" by (simp add: holder_ok_def holder_start_def)
  from holder_runs_ok [OF assms this] obtain h where h: "holder_run need ops holder_start = Some h" "holder_ok need h"
    by (auto simp: holder_start_def)
  obtain h' where r: "Holder_Release h = Some h'" "m_pHoldee h' = None" using holder_steps_ok(2) [OF h(2)] by blast
  have "\<exists>h'. SHGC_destroy h = Some h' \<and> GetInstance h' = None"
  proof (cases "m_pHoldee h")
    case None
    with r show ?thesis by (auto simp: SHGC_destroy_def GetInstance_def)
  next
    case (Some p)
    with h(2) r show ?thesis by (auto simp: SHGC_destroy_def GetInstance_def holder_ok_def)
  qed
  then show ?thesis using h by (auto simp: holder_ok_def GetInstance_def)
qed

text \<open>A second object given to a holder that has one is kept nowhere.\<close>

lemma second_object_leaks:
  "m_pHoldee h = Some q \<Longrightarrow> p \<noteq> 0 \<Longrightarrow> p \<noteq> q \<Longrightarrow> q \<in> allocated h \<Longrightarrow>
     \<exists>h' h''. SetSingleton need p (h \<lparr> allocated := insert p (allocated h) \<rparr>) = Some h' \<and> GetInstance h' = Some q \<and>
       SHGC_destroy h' = Some h'' \<and> p \<in> allocated h''"
  by (simp add: SetSingleton_def IFTHENELSE_OP_def SHGC_destroy_def Holder_Release_def GetInstance_def)

end
