(* ===== verification/WireFormat.thy ===== *)
theory WireFormat
  imports Bytes
begin

unbundle bit_operations_syntax

text \<open>
  The part of the protobuf runtime that is inlined into the generated message classes, from
  \<^verbatim>\<open>dep/protobuf/include/google/protobuf/io/coded_stream.h\<close>, \<^verbatim>\<open>wire_format_lite.h\<close> and
  \<^verbatim>\<open>wire_format_lite_inl.h\<close>: the fast paths of the readers and writers, tags, sizes and embedded
  messages.

  The out-of-line part of the library is a parameter, the record \<open>'u runtime\<close>; \<open>'u\<close> is the type of
  its sets of unknown fields. What the headers document of it is stated in \<open>runtime_ok\<close>, for
  well-formed input, and in \<open>runtime_sane\<close>, for any input.

  A stream reads from a flat array, as it does under \<open>ParseFromArray\<close>: \<open>is_buffer\<close> holds the bytes
  from \<^verbatim>\<open>buffer_\<close> to \<^verbatim>\<open>buffer_end_\<close>, \<open>is_after_limit\<close> the bytes of the array behind them, of which the
  code keeps the number. A function with a \<open>target\<close> pointer appends to the bytes written so far.
\<close>

section \<open>Streams and the library behind them\<close>

record CodedInputStream =
  is_buffer :: "byte list"
  is_after_limit :: "byte list"
  is_total_bytes_read :: int
  is_current_limit :: int
  is_last_tag :: int
  is_legitimate_message_end :: bool
  is_recursion_depth :: int
  is_recursion_limit :: int

definition kDefaultTotalBytesLimit :: int where "kDefaultTotalBytesLimit = 67108864"

definition CodedInputStream_new :: "byte list \<Rightarrow> CodedInputStream" where
  "CodedInputStream_new xs = \<lparr> is_buffer = xs, is_after_limit = [], is_total_bytes_read = int (length xs),
     is_current_limit = int (length xs), is_last_tag = 0, is_legitimate_message_end = False,
     is_recursion_depth = 0, is_recursion_limit = 100 \<rparr>"

record 'u runtime =
  rt_ReadVarint32Fallback :: "CodedInputStream \<Rightarrow> bool \<times> int \<times> CodedInputStream"
  rt_ReadVarint64Fallback :: "CodedInputStream \<Rightarrow> bool \<times> int \<times> CodedInputStream"
  rt_ReadLittleEndian32Fallback :: "CodedInputStream \<Rightarrow> bool \<times> int \<times> CodedInputStream"
  rt_ReadTagFallback :: "CodedInputStream \<Rightarrow> int \<times> CodedInputStream"
  rt_ReadString :: "CodedInputStream \<Rightarrow> bool \<times> byte list \<times> CodedInputStream"
  rt_ReadBytes :: "CodedInputStream \<Rightarrow> bool \<times> byte list \<times> CodedInputStream"
  rt_PushLimit :: "int \<Rightarrow> CodedInputStream \<Rightarrow> int \<times> CodedInputStream"
  rt_PopLimit :: "int \<Rightarrow> CodedInputStream \<Rightarrow> CodedInputStream"
  rt_SkipField :: "int \<Rightarrow> 'u \<Rightarrow> CodedInputStream \<Rightarrow> bool \<times> 'u \<times> CodedInputStream"
  rt_WriteVarint32FallbackToArray :: "int \<Rightarrow> byte list \<Rightarrow> byte list"
  rt_WriteVarint64ToArray :: "int \<Rightarrow> byte list \<Rightarrow> byte list"
  rt_WriteRawToArray :: "byte list \<Rightarrow> byte list \<Rightarrow> byte list"
  rt_VarintSize32Fallback :: "int \<Rightarrow> int"
  rt_VarintSize64 :: "int \<Rightarrow> int"
  rt_unknown_new :: 'u
  rt_unknown_empty :: "'u \<Rightarrow> bool"
  rt_unknown_Clear :: "'u \<Rightarrow> 'u"
  rt_unknown_MergeFrom :: "'u \<Rightarrow> 'u \<Rightarrow> 'u"
  rt_SerializeUnknownFieldsToArray :: "'u \<Rightarrow> byte list \<Rightarrow> byte list"
  rt_ComputeUnknownFieldsSize :: "'u \<Rightarrow> int"

section \<open>Reading\<close>

definition Advance :: "nat \<Rightarrow> CodedInputStream \<Rightarrow> CodedInputStream" where
  "Advance amount s = s \<lparr> is_buffer := drop amount (is_buffer s) \<rparr>"

definition BufferSize :: "CodedInputStream \<Rightarrow> int" where
  "BufferSize s = int (length (is_buffer s))"

definition ReadVarint32 :: "'u runtime \<Rightarrow> CodedInputStream \<Rightarrow> bool \<times> int \<times> CodedInputStream" where
  "ReadVarint32 rt s =
     (if BufferSize s > 0 \<and> is_buffer s ! 0 < 0x80 then (True, uint (is_buffer s ! 0), Advance 1 s)
      else rt_ReadVarint32Fallback rt s)"

definition ReadVarint64 :: "'u runtime \<Rightarrow> CodedInputStream \<Rightarrow> bool \<times> int \<times> CodedInputStream" where
  "ReadVarint64 rt s =
     (if BufferSize s > 0 \<and> is_buffer s ! 0 < 0x80 then (True, uint (is_buffer s ! 0), Advance 1 s)
      else rt_ReadVarint64Fallback rt s)"

text \<open>\<open>memcpy\<close> from and to a \<open>uint32\<close> on a little-endian machine.\<close>

definition ReadLittleEndian32 :: "'u runtime \<Rightarrow> CodedInputStream \<Rightarrow> bool \<times> int \<times> CodedInputStream" where
  "ReadLittleEndian32 rt s =
     (if BufferSize s \<ge> 4 then (True, ntohl_bytes (rev (take 4 (is_buffer s))), Advance 4 s)
      else rt_ReadLittleEndian32Fallback rt s)"

definition ReadTag :: "'u runtime \<Rightarrow> CodedInputStream \<Rightarrow> int \<times> CodedInputStream" where
  "ReadTag rt s =
     (if BufferSize s > 0 \<and> is_buffer s ! 0 < 0x80
      then (uint (is_buffer s ! 0), Advance 1 (s \<lparr> is_last_tag := uint (is_buffer s ! 0) \<rparr>))
      else let (tag, s) = rt_ReadTagFallback rt s in (tag, s \<lparr> is_last_tag := tag \<rparr>))"

definition ConsumedEntireMessage :: "CodedInputStream \<Rightarrow> bool" where
  "ConsumedEntireMessage s = is_legitimate_message_end s"

definition ExpectTag :: "int \<Rightarrow> CodedInputStream \<Rightarrow> bool \<times> CodedInputStream" where
  "ExpectTag expected s =
     (if expected < 128
      then if BufferSize s > 0 \<and> uint (is_buffer s ! 0) = expected then (True, Advance 1 s) else (False, s)
      else if expected < 16384
      then if BufferSize s \<ge> 2 \<and> is_buffer s ! 0 = word_of_int (expected OR 0x80) \<and>
             is_buffer s ! 1 = word_of_int (drop_bit 7 expected)
           then (True, Advance 2 s) else (False, s)
      else (False, s))"

definition ExpectAtEnd :: "CodedInputStream \<Rightarrow> bool \<times> CodedInputStream" where
  "ExpectAtEnd s =
     (if BufferSize s = 0 \<and> (length (is_after_limit s) \<noteq> 0 \<or> is_total_bytes_read s = is_current_limit s)
      then (True, s \<lparr> is_last_tag := 0, is_legitimate_message_end := True \<rparr>) else (False, s))"

definition IncrementRecursionDepth :: "CodedInputStream \<Rightarrow> bool \<times> CodedInputStream" where
  "IncrementRecursionDepth s =
     (let s = s \<lparr> is_recursion_depth := s32 (is_recursion_depth s + 1) \<rparr>
      in (is_recursion_depth s \<le> is_recursion_limit s, s))"

definition DecrementRecursionDepth :: "CodedInputStream \<Rightarrow> CodedInputStream" where
  "DecrementRecursionDepth s =
     (if is_recursion_depth s > 0 then s \<lparr> is_recursion_depth := is_recursion_depth s - 1 \<rparr> else s)"

section \<open>Writing\<close>

definition WriteVarint32ToArray :: "'u runtime \<Rightarrow> int \<Rightarrow> byte list \<Rightarrow> byte list" where
  "WriteVarint32ToArray rt v target =
     (if v < 0x80 then target @ [word_of_int v] else rt_WriteVarint32FallbackToArray rt v target)"

definition WriteVarint32SignExtendedToArray :: "'u runtime \<Rightarrow> int \<Rightarrow> byte list \<Rightarrow> byte list" where
  "WriteVarint32SignExtendedToArray rt v target =
     (if v < 0 then rt_WriteVarint64ToArray rt (u64 v) target else WriteVarint32ToArray rt (u32 v) target)"

definition WriteLittleEndian32ToArray :: "int \<Rightarrow> byte list \<Rightarrow> byte list" where
  "WriteLittleEndian32ToArray v target = target @ rev (htonl_bytes v)"

definition WriteTagToArray :: "'u runtime \<Rightarrow> int \<Rightarrow> byte list \<Rightarrow> byte list" where
  "WriteTagToArray rt v target =
     (if v < 128 then target @ [word_of_int v]
      else if v < 16384 then target @ [word_of_int (v OR 0x80), word_of_int (drop_bit 7 v)]
      else rt_WriteVarint32FallbackToArray rt v target)"

definition VarintSize32 :: "'u runtime \<Rightarrow> int \<Rightarrow> int" where
  "VarintSize32 rt v = (if v < 128 then 1 else rt_VarintSize32Fallback rt v)"

definition VarintSize32SignExtended :: "'u runtime \<Rightarrow> int \<Rightarrow> int" where
  "VarintSize32SignExtended rt v = (if v < 0 then 10 else VarintSize32 rt (u32 v))"

definition WriteStringToArray :: "'u runtime \<Rightarrow> byte list \<Rightarrow> byte list \<Rightarrow> byte list" where
  "WriteStringToArray rt str target = rt_WriteRawToArray rt str target"

section \<open>Fields on the wire\<close>

definition WIRETYPE_VARINT :: int where "WIRETYPE_VARINT = 0"
definition WIRETYPE_LENGTH_DELIMITED :: int where "WIRETYPE_LENGTH_DELIMITED = 2"
definition WIRETYPE_END_GROUP :: int where "WIRETYPE_END_GROUP = 4"
definition WIRETYPE_FIXED32 :: int where "WIRETYPE_FIXED32 = 5"

lemmas wiretypes = WIRETYPE_VARINT_def WIRETYPE_LENGTH_DELIMITED_def WIRETYPE_END_GROUP_def WIRETYPE_FIXED32_def

definition MakeTag :: "int \<Rightarrow> int \<Rightarrow> int" where
  "MakeTag field_number ty = u32 (push_bit 3 field_number OR ty)"

definition GetTagWireType :: "int \<Rightarrow> int" where
  "GetTagWireType tag = tag AND 7"

definition GetTagFieldNumber :: "int \<Rightarrow> int" where
  "GetTagFieldNumber tag = s32 (drop_bit 3 tag)"

definition ReadPrimitive_INT32 :: "'u runtime \<Rightarrow> CodedInputStream \<Rightarrow> bool \<times> int \<times> CodedInputStream" where
  "ReadPrimitive_INT32 rt s = (let (ok, temp, s) = ReadVarint32 rt s in (ok, s32 temp, s))"

definition ReadPrimitive_UINT32 :: "'u runtime \<Rightarrow> CodedInputStream \<Rightarrow> bool \<times> int \<times> CodedInputStream" where
  "ReadPrimitive_UINT32 rt s = ReadVarint32 rt s"

definition ReadPrimitive_UINT64 :: "'u runtime \<Rightarrow> CodedInputStream \<Rightarrow> bool \<times> int \<times> CodedInputStream" where
  "ReadPrimitive_UINT64 rt s = ReadVarint64 rt s"

definition ReadPrimitive_FIXED32 :: "'u runtime \<Rightarrow> CodedInputStream \<Rightarrow> bool \<times> int \<times> CodedInputStream" where
  "ReadPrimitive_FIXED32 rt s = ReadLittleEndian32 rt s"

text \<open>An embedded message; \<open>merge\<close> is the \<open>MergePartialFromCodedStream\<close> of its class.\<close>

definition ReadMessageNoVirtual ::
  "'u runtime \<Rightarrow> ('m \<Rightarrow> CodedInputStream \<Rightarrow> (bool \<times> 'm \<times> CodedInputStream) option) \<Rightarrow>
     'm \<Rightarrow> CodedInputStream \<Rightarrow> (bool \<times> 'm \<times> CodedInputStream) option" where
  "ReadMessageNoVirtual rt merge m s =
     (let (ok, len, s) = ReadVarint32 rt s
      in if \<not> ok then Some (False, m, s)
         else
           let (ok, s) = IncrementRecursionDepth s
           in if \<not> ok then Some (False, m, s)
              else
                let (limit, s) = rt_PushLimit rt (s32 len) s
                in do {
                     (ok, m, s) \<leftarrow> merge m s;
                     if \<not> ok then Some (False, m, s)
                     else if \<not> ConsumedEntireMessage s then Some (False, m, s)
                     else Some (True, m, DecrementRecursionDepth (rt_PopLimit rt limit s))
                   })"

definition WriteUInt32ToArray :: "'u runtime \<Rightarrow> int \<Rightarrow> int \<Rightarrow> byte list \<Rightarrow> byte list" where
  "WriteUInt32ToArray rt field_number v target =
     WriteVarint32ToArray rt v (WriteTagToArray rt (MakeTag field_number WIRETYPE_VARINT) target)"

definition WriteInt32ToArray :: "'u runtime \<Rightarrow> int \<Rightarrow> int \<Rightarrow> byte list \<Rightarrow> byte list" where
  "WriteInt32ToArray rt field_number v target =
     WriteVarint32SignExtendedToArray rt v (WriteTagToArray rt (MakeTag field_number WIRETYPE_VARINT) target)"

definition WriteUInt64ToArray :: "'u runtime \<Rightarrow> int \<Rightarrow> int \<Rightarrow> byte list \<Rightarrow> byte list" where
  "WriteUInt64ToArray rt field_number v target =
     rt_WriteVarint64ToArray rt v (WriteTagToArray rt (MakeTag field_number WIRETYPE_VARINT) target)"

definition WriteFixed32ToArray :: "'u runtime \<Rightarrow> int \<Rightarrow> int \<Rightarrow> byte list \<Rightarrow> byte list" where
  "WriteFixed32ToArray rt field_number v target =
     WriteLittleEndian32ToArray v (WriteTagToArray rt (MakeTag field_number WIRETYPE_FIXED32) target)"

definition WriteFieldStringToArray :: "'u runtime \<Rightarrow> int \<Rightarrow> byte list \<Rightarrow> byte list \<Rightarrow> byte list" where
  "WriteFieldStringToArray rt field_number v target =
     (let target = WriteTagToArray rt (MakeTag field_number WIRETYPE_LENGTH_DELIMITED) target;
          target = WriteVarint32ToArray rt (u32 (int (length v))) target
      in WriteStringToArray rt v target)"

definition WriteFieldBytesToArray :: "'u runtime \<Rightarrow> int \<Rightarrow> byte list \<Rightarrow> byte list \<Rightarrow> byte list" where
  "WriteFieldBytesToArray rt field_number v target =
     (let target = WriteTagToArray rt (MakeTag field_number WIRETYPE_LENGTH_DELIMITED) target;
          target = WriteVarint32ToArray rt (u32 (int (length v))) target
      in WriteStringToArray rt v target)"

text \<open>\<open>cached\<close> is the cached size of the message, \<open>body\<close> its \<open>SerializeWithCachedSizesToArray\<close>.\<close>

definition WriteMessageNoVirtualToArray ::
  "'u runtime \<Rightarrow> int \<Rightarrow> int \<Rightarrow> (byte list \<Rightarrow> byte list) \<Rightarrow> byte list \<Rightarrow> byte list" where
  "WriteMessageNoVirtualToArray rt field_number cached body target =
     (let target = WriteTagToArray rt (MakeTag field_number WIRETYPE_LENGTH_DELIMITED) target;
          target = WriteVarint32ToArray rt (u32 cached) target
      in body target)"

definition Int32Size :: "'u runtime \<Rightarrow> int \<Rightarrow> int" where
  "Int32Size rt v = VarintSize32SignExtended rt v"

definition UInt32Size :: "'u runtime \<Rightarrow> int \<Rightarrow> int" where
  "UInt32Size rt v = VarintSize32 rt v"

definition UInt64Size :: "'u runtime \<Rightarrow> int \<Rightarrow> int" where
  "UInt64Size rt v = rt_VarintSize64 rt v"

definition StringSize :: "'u runtime \<Rightarrow> byte list \<Rightarrow> int" where
  "StringSize rt v = s32 (VarintSize32 rt (u32 (int (length v))) + int (length v))"

definition BytesSize :: "'u runtime \<Rightarrow> byte list \<Rightarrow> int" where
  "BytesSize rt v = s32 (VarintSize32 rt (u32 (int (length v))) + int (length v))"

definition LengthDelimitedSize :: "'u runtime \<Rightarrow> int \<Rightarrow> int" where
  "LengthDelimitedSize rt len = s32 (VarintSize32 rt (u32 len) + len)"

section \<open>What the headers document of the library\<close>

text \<open>The encoding of the comment at the top of \<^verbatim>\<open>coded_stream.h\<close>.\<close>

fun varint :: "nat \<Rightarrow> byte list" where
  "varint n = (if n < 128 then [of_nat n] else of_nat (n mod 128 + 128) # varint (n div 128))"

declare varint.simps [simp del]

text \<open>On a flat stream the current limit is where the visible bytes end.\<close>

definition flat :: "CodedInputStream \<Rightarrow> bool" where
  "flat s \<longleftrightarrow> is_current_limit s = is_total_bytes_read s - int (length (is_after_limit s)) \<and>
     is_total_bytes_read s \<le> kDefaultTotalBytesLimit"

definition writes_ok :: "'u runtime \<Rightarrow> bool" where
  "writes_ok rt \<longleftrightarrow>
     (\<forall>v t. 128 \<le> v \<longrightarrow> v < 2 ^ 32 \<longrightarrow> rt_WriteVarint32FallbackToArray rt v t = t @ varint (nat v)) \<and>
     (\<forall>v t. 0 \<le> v \<longrightarrow> v < 2 ^ 64 \<longrightarrow> rt_WriteVarint64ToArray rt v t = t @ varint (nat v)) \<and>
     (\<forall>xs t. rt_WriteRawToArray rt xs t = t @ xs) \<and>
     (\<forall>v. 128 \<le> v \<longrightarrow> v < 2 ^ 32 \<longrightarrow> rt_VarintSize32Fallback rt v = int (length (varint (nat v)))) \<and>
     (\<forall>v. 0 \<le> v \<longrightarrow> v < 2 ^ 64 \<longrightarrow> rt_VarintSize64 rt v = int (length (varint (nat v)))) \<and>
     rt_unknown_empty rt (rt_unknown_new rt) \<and> rt_unknown_Clear rt (rt_unknown_new rt) = rt_unknown_new rt"

definition reads_ok :: "'u runtime \<Rightarrow> bool" where
  "reads_ok rt \<longleftrightarrow>
     (\<forall>s n xs. 128 \<le> n \<longrightarrow> n < 2 ^ 64 \<longrightarrow> is_buffer s = varint n @ xs \<longrightarrow>
        rt_ReadVarint32Fallback rt s = (True, u32 (int n), s \<lparr> is_buffer := xs \<rparr>) \<and>
        rt_ReadVarint64Fallback rt s = (True, int n, s \<lparr> is_buffer := xs \<rparr>)) \<and>
     (\<forall>s xs ys. length xs < 2 ^ 31 \<longrightarrow> is_buffer s = varint (length xs) @ xs @ ys \<longrightarrow>
        rt_ReadString rt s = (True, xs, s \<lparr> is_buffer := ys \<rparr>) \<and>
        rt_ReadBytes rt s = (True, xs, s \<lparr> is_buffer := ys \<rparr>)) \<and>
     (\<forall>s. flat s \<longrightarrow> is_buffer s = [] \<longrightarrow>
        rt_ReadTagFallback rt s = (0, s \<lparr> is_legitimate_message_end := True \<rparr>))"

text \<open>
  A limit hides the bytes behind it; popping it shows them again up to the previous limit, and
  says nothing of how the message ended.
\<close>

definition limits_ok :: "'u runtime \<Rightarrow> bool" where
  "limits_ok rt \<longleftrightarrow>
     (\<forall>s xs ys. flat s \<longrightarrow> is_buffer s = xs @ ys \<longrightarrow>
        rt_PushLimit rt (int (length xs)) s =
          (is_current_limit s, s \<lparr> is_buffer := xs, is_after_limit := ys @ is_after_limit s,
             is_current_limit := is_current_limit s - int (length ys) \<rparr>)) \<and>
     (\<forall>s ys zs. flat s \<longrightarrow> is_buffer s = [] \<longrightarrow> is_after_limit s = ys @ zs \<longrightarrow>
        (\<exists>e. rt_PopLimit rt (is_current_limit s + int (length ys)) s =
          s \<lparr> is_buffer := ys, is_after_limit := zs,
              is_current_limit := is_current_limit s + int (length ys), is_legitimate_message_end := e \<rparr>))"

definition runtime_ok :: "'u runtime \<Rightarrow> bool" where
  "runtime_ok rt \<longleftrightarrow> writes_ok rt \<and> reads_ok rt \<and> limits_ok rt"

section \<open>Reading what was written\<close>

lemma varint_small: "n < 128 \<Longrightarrow> varint n = [of_nat n]"
  by (simp add: varint.simps)

lemma byte_of_small: "v < 128 \<Longrightarrow> uint (of_nat v :: byte) = int v \<and> (of_nat v :: byte) < 128"
  by (auto simp: uint_nat unat_of_nat word_less_nat_alt)

lemma byte_of_small_int:
  "0 \<le> v \<Longrightarrow> v < 128 \<Longrightarrow> uint (word_of_int v :: byte) = v \<and> (word_of_int v :: byte) < 128"
  using byte_of_small [of "nat v"] by simp

lemma varint_hd: "128 \<le> n \<Longrightarrow> \<exists>b bs. varint n = b # bs \<and> \<not> b < 128"
proof -
  assume "128 \<le> n"
  moreover have "unat (of_nat (n mod 128 + 128) :: byte) = n mod 128 + 128"
    by (simp only: unat_of_nat) simp
  then have "\<not> (of_nat (n mod 128 + 128) :: byte) < 128" by (simp only: word_less_nat_alt) simp
  ultimately show ?thesis by (simp add: varint.simps [of n])
qed

text \<open>The two writers of a 32-bit number and their size are one encoding.\<close>

lemma WriteVarint32_varint:
  "writes_ok rt \<Longrightarrow> 0 \<le> v \<Longrightarrow> v < 2 ^ 32 \<Longrightarrow> WriteVarint32ToArray rt v t = t @ varint (nat v)"
  by (simp add: WriteVarint32ToArray_def writes_ok_def varint_small)

lemma VarintSize32_varint:
  "writes_ok rt \<Longrightarrow> 0 \<le> v \<Longrightarrow> v < 2 ^ 32 \<Longrightarrow> VarintSize32 rt v = int (length (varint (nat v)))"
  by (simp add: VarintSize32_def writes_ok_def varint_small)

lemma ReadVarint_varint:
  assumes "reads_ok rt" "n < 2 ^ 64" "is_buffer s = varint n @ xs"
  shows "ReadVarint32 rt s = (True, u32 (int n), s \<lparr> is_buffer := xs \<rparr>)"
    and "ReadVarint64 rt s = (True, int n, s \<lparr> is_buffer := xs \<rparr>)"
  using assms byte_of_small [of n] varint_hd [of n]
  by (cases "n < 128"; auto simp: ReadVarint32_def ReadVarint64_def BufferSize_def Advance_def reads_ok_def
      varint_small u32_id)+

text \<open>A negative number is sign-extended to 64 bits; the reader cuts it to 32.\<close>

lemma length_varint_sign: "2 ^ 63 \<le> n \<Longrightarrow> n < 2 ^ 64 \<Longrightarrow> length (varint n) = 10"
  by (simp add: varint.simps div_less_iff_less_mult flip: div_mult2_eq)

end
