(* ===== verification/ConnsvrPb.thy ===== *)
theory ConnsvrPb
  imports WireFormat
begin

text \<open>
  The message classes of \<^verbatim>\<open>src/connsvrtest/protocol/protocol_connsvr.pb.{h,cc}\<close> and
  \<^verbatim>\<open>src/connsvrtest/framework/testconnsvr.pb.{h,cc}\<close>, generated from the
  protocol of the connection server. A class is a record with its presence bits, its cached size
  and its unknown fields; a pointer to an embedded message is an \<open>option\<close>, a string pointer the
  bytes of the string.

  \<open>MergePartialFromCodedStream\<close> is the loop over the tags: the labels of the \<open>switch\<close> are
  functions, since a field that ends with \<open>ExpectTag\<close> jumps to the label of the next one. Its
  result is the returned flag, the message and the stream; \<open>None\<close> is a loop that never ends. When a
  read fails the code returns at once, and the model leaves the field it was reading unchanged.

  The methods on \<open>CodedOutputStream\<close>, reflection, descriptors and the allocation of the default
  instances are left out; \<open>Swap\<close> exchanges the two records.
\<close>

section \<open>What the classes share\<close>

record 'u Message =
  unknown_fields :: 'u
  cached_size :: int
  has_bits :: "32 word"

definition has_bit :: "nat \<Rightarrow> ('u, 'z) Message_scheme \<Rightarrow> bool" where
  "has_bit k m \<longleftrightarrow> has_bits m AND push_bit k 1 \<noteq> 0"

definition set_has_bit :: "nat \<Rightarrow> ('u, 'z) Message_scheme \<Rightarrow> ('u, 'z) Message_scheme" where
  "set_has_bit k m = m \<lparr> has_bits := has_bits m OR push_bit k 1 \<rparr>"

definition any_bit :: "('u, 'z) Message_scheme \<Rightarrow> bool" where
  "any_bit m \<longleftrightarrow> has_bits m AND 0xff \<noteq> 0"

definition clear_bits :: "'u runtime \<Rightarrow> ('u, 'z) Message_scheme \<Rightarrow> ('u, 'z) Message_scheme" where
  "clear_bits rt m = m \<lparr> has_bits := 0, unknown_fields := rt_unknown_Clear rt (unknown_fields m) \<rparr>"

definition merge_unknown ::
  "'u runtime \<Rightarrow> ('u, 'y) Message_scheme \<Rightarrow> ('u, 'z) Message_scheme \<Rightarrow> ('u, 'z) Message_scheme" where
  "merge_unknown rt from m =
     m \<lparr> unknown_fields := rt_unknown_MergeFrom rt (unknown_fields from) (unknown_fields m) \<rparr>"

definition write_unknown :: "'u runtime \<Rightarrow> ('u, 'z) Message_scheme \<Rightarrow> byte list \<Rightarrow> byte list" where
  "write_unknown rt m target =
     (if \<not> rt_unknown_empty rt (unknown_fields m)
      then rt_SerializeUnknownFieldsToArray rt (unknown_fields m) target else target)"

text \<open>\<open>total_size += n\<close> under a condition.\<close>

definition add_if :: "bool \<Rightarrow> int \<Rightarrow> int \<Rightarrow> int" where
  "add_if c n total_size = (if c then s32 (total_size + n) else total_size)"

definition unknown_size :: "'u runtime \<Rightarrow> ('u, 'z) Message_scheme \<Rightarrow> int \<Rightarrow> int" where
  "unknown_size rt m total_size =
     add_if (\<not> rt_unknown_empty rt (unknown_fields m)) (rt_ComputeUnknownFieldsSize rt (unknown_fields m)) total_size"

text \<open>How a case of the \<open>switch\<close> ends: by \<open>break\<close>, which goes on with the loop, or by \<open>return\<close>.\<close>

datatype ctl = CBreak | CReturn bool

definition expect_end :: "'m \<Rightarrow> CodedInputStream \<Rightarrow> (ctl \<times> 'm \<times> CodedInputStream) option" where
  "expect_end m s = (let (e, s) = ExpectAtEnd s in Some (if e then CReturn True else CBreak, m, s))"

definition expect_tag ::
  "int \<Rightarrow> ('m \<Rightarrow> CodedInputStream \<Rightarrow> (ctl \<times> 'm \<times> CodedInputStream) option) \<Rightarrow>
     'm \<Rightarrow> CodedInputStream \<Rightarrow> (ctl \<times> 'm \<times> CodedInputStream) option" where
  "expect_tag tag label m s = (let (e, s) = ExpectTag tag s in if e then label m s else Some (CBreak, m, s))"

definition read_field ::
  "(CodedInputStream \<Rightarrow> bool \<times> 'v \<times> CodedInputStream) \<Rightarrow> ('v \<Rightarrow> 'm \<Rightarrow> 'm) \<Rightarrow>
     ('m \<Rightarrow> CodedInputStream \<Rightarrow> (ctl \<times> 'm \<times> CodedInputStream) option) \<Rightarrow>
     'm \<Rightarrow> CodedInputStream \<Rightarrow> (ctl \<times> 'm \<times> CodedInputStream) option" where
  "read_field rd put next m s =
     (let (ok, v, s) = rd s in if \<not> ok then Some (CReturn False, m, s) else next (put v m) s)"

definition read_msg ::
  "'u runtime \<Rightarrow> ('c \<Rightarrow> CodedInputStream \<Rightarrow> (bool \<times> 'c \<times> CodedInputStream) option) \<Rightarrow>
     ('m \<Rightarrow> 'c) \<Rightarrow> ('c \<Rightarrow> 'm \<Rightarrow> 'm) \<Rightarrow>
     ('m \<Rightarrow> CodedInputStream \<Rightarrow> (ctl \<times> 'm \<times> CodedInputStream) option) \<Rightarrow>
     'm \<Rightarrow> CodedInputStream \<Rightarrow> (ctl \<times> 'm \<times> CodedInputStream) option" where
  "read_msg rt merge get put next m s = do {
     (ok, c, s) \<leftarrow> ReadMessageNoVirtual rt merge (get m) s;
     if \<not> ok then Some (CReturn False, put c m, s) else next (put c m) s
   }"

definition write_msg ::
  "'u runtime \<Rightarrow> int \<Rightarrow> (('u, 'z) Message_scheme \<Rightarrow> byte list \<Rightarrow> byte list) \<Rightarrow>
     ('u, 'z) Message_scheme \<Rightarrow> byte list \<Rightarrow> byte list" where
  "write_msg rt field_number ser c target =
     WriteMessageNoVirtualToArray rt field_number (cached_size c) (ser c) target"

definition msg_size :: "'u runtime \<Rightarrow> ('c \<Rightarrow> int \<times> 'c) \<Rightarrow> 'c \<Rightarrow> int" where
  "msg_size rt bytesize c = LengthDelimitedSize rt (fst (bytesize c))"

definition merge_msg :: "'m \<Rightarrow> ('m \<Rightarrow> 'c) \<Rightarrow> ('c \<Rightarrow> 'm \<Rightarrow> 'm) \<Rightarrow> ('c \<Rightarrow> 'c) \<Rightarrow> 'm" where
  "merge_msg m get put merge = put (merge (get m)) m"

definition handle_uninterpreted ::
  "'u runtime \<Rightarrow> int \<Rightarrow> ('u, 'z) Message_scheme \<Rightarrow> CodedInputStream \<Rightarrow>
     (ctl \<times> ('u, 'z) Message_scheme \<times> CodedInputStream) option" where
  "handle_uninterpreted rt tag m s =
     (if GetTagWireType tag = WIRETYPE_END_GROUP then Some (CReturn True, m, s)
      else
        let (ok, u, s) = rt_SkipField rt tag (unknown_fields m) s;
            m = m \<lparr> unknown_fields := u \<rparr>
        in Some (if ok then CBreak else CReturn False, m, s))"

partial_function (option) merge_loop ::
  "'u runtime \<Rightarrow> (int \<Rightarrow> 'm \<Rightarrow> CodedInputStream \<Rightarrow> (ctl \<times> 'm \<times> CodedInputStream) option) \<Rightarrow>
     'm \<Rightarrow> CodedInputStream \<Rightarrow> (bool \<times> 'm \<times> CodedInputStream) option" where
  "merge_loop rt switch m s =
     (let (tag, s) = ReadTag rt s
      in if tag = 0 then Some (True, m, s)
         else do {
           (c, m, s) \<leftarrow> switch tag m s;
           (case c of CBreak \<Rightarrow> merge_loop rt switch m s | CReturn ok \<Rightarrow> Some (ok, m, s))
         })"

section \<open>StartReq\<close>

record 'u StartReq_pb = "'u Message" +
  sreq_currentconn :: int
  sreq_channelcnt :: int

definition StartReq_new :: "'u runtime \<Rightarrow> 'u StartReq_pb" where
  "StartReq_new rt = \<lparr> unknown_fields = rt_unknown_new rt, cached_size = 0, has_bits = 0, sreq_currentconn = 0, sreq_channelcnt = 0 \<rparr>"

definition StartReq_set_currentconn :: "int \<Rightarrow> 'u StartReq_pb \<Rightarrow> 'u StartReq_pb" where
  "StartReq_set_currentconn v m = set_has_bit 0 m \<lparr> sreq_currentconn := v \<rparr>"

definition StartReq_set_channelcnt :: "int \<Rightarrow> 'u StartReq_pb \<Rightarrow> 'u StartReq_pb" where
  "StartReq_set_channelcnt v m = set_has_bit 1 m \<lparr> sreq_channelcnt := v \<rparr>"

definition StartReq_Clear :: "'u runtime \<Rightarrow> 'u StartReq_pb \<Rightarrow> 'u StartReq_pb" where
  "StartReq_Clear rt m =
     clear_bits rt (if any_bit m then m \<lparr> sreq_currentconn := 0, sreq_channelcnt := 0 \<rparr> else m)"

definition StartReq_parse_channelcnt :: "'u runtime \<Rightarrow> 'u StartReq_pb \<Rightarrow> CodedInputStream \<Rightarrow> (ctl \<times> 'u StartReq_pb \<times> CodedInputStream) option" where
  "StartReq_parse_channelcnt rt = read_field (ReadPrimitive_UINT32 rt) (\<lambda>v m. set_has_bit 1 (m \<lparr> sreq_channelcnt := v \<rparr>)) expect_end"

definition StartReq_parse_currentconn :: "'u runtime \<Rightarrow> 'u StartReq_pb \<Rightarrow> CodedInputStream \<Rightarrow> (ctl \<times> 'u StartReq_pb \<times> CodedInputStream) option" where
  "StartReq_parse_currentconn rt = read_field (ReadPrimitive_UINT32 rt) (\<lambda>v m. set_has_bit 0 (m \<lparr> sreq_currentconn := v \<rparr>)) (expect_tag 16 (StartReq_parse_channelcnt rt))"

definition StartReq_switch :: "'u runtime \<Rightarrow> int \<Rightarrow> 'u StartReq_pb \<Rightarrow> CodedInputStream \<Rightarrow> (ctl \<times> 'u StartReq_pb \<times> CodedInputStream) option" where
  "StartReq_switch rt tag m s =
     (if GetTagFieldNumber tag = 1 \<and> GetTagWireType tag = WIRETYPE_VARINT then StartReq_parse_currentconn rt m s
      else if GetTagFieldNumber tag = 2 \<and> GetTagWireType tag = WIRETYPE_VARINT then StartReq_parse_channelcnt rt m s
      else handle_uninterpreted rt tag m s)"

definition StartReq_MergePartialFromCodedStream :: "'u runtime \<Rightarrow> 'u StartReq_pb \<Rightarrow> CodedInputStream \<Rightarrow> (bool \<times> 'u StartReq_pb \<times> CodedInputStream) option" where
  "StartReq_MergePartialFromCodedStream rt = merge_loop rt (StartReq_switch rt)"

definition StartReq_SerializeWithCachedSizesToArray :: "'u runtime \<Rightarrow> 'u StartReq_pb \<Rightarrow> byte list \<Rightarrow> byte list" where
  "StartReq_SerializeWithCachedSizesToArray rt m target =
     (let target = (if has_bit 0 m then WriteUInt32ToArray rt 1 (sreq_currentconn m) target else target);
          target = (if has_bit 1 m then WriteUInt32ToArray rt 2 (sreq_channelcnt m) target else target)
      in write_unknown rt m target)"

definition StartReq_ByteSize :: "'u runtime \<Rightarrow> 'u StartReq_pb \<Rightarrow> int \<times> 'u StartReq_pb" where
  "StartReq_ByteSize rt m =
     (let total_size = (if any_bit m
            then add_if (has_bit 1 m) (1 + UInt32Size rt (sreq_channelcnt m)) (add_if (has_bit 0 m) (1 + UInt32Size rt (sreq_currentconn m)) (0)) else 0);
          total_size = unknown_size rt m total_size
      in (total_size, m \<lparr> cached_size := total_size \<rparr>))"

definition StartReq_MergeFrom :: "'u runtime \<Rightarrow> 'u StartReq_pb \<Rightarrow> 'u StartReq_pb \<Rightarrow> 'u StartReq_pb" where
  "StartReq_MergeFrom rt from m =
     (let m = (if any_bit from
            then (let m = (if has_bit 0 from then StartReq_set_currentconn (sreq_currentconn from) m else m);
                      m = (if has_bit 1 from then StartReq_set_channelcnt (sreq_channelcnt from) m else m) in m)
            else m)
      in merge_unknown rt from m)"

definition StartReq_CopyFrom :: "'u runtime \<Rightarrow> 'u StartReq_pb \<Rightarrow> 'u StartReq_pb \<Rightarrow> 'u StartReq_pb" where
  "StartReq_CopyFrom rt from m = StartReq_MergeFrom rt from (StartReq_Clear rt m)"

definition StartReq_IsInitialized :: "'u StartReq_pb \<Rightarrow> bool" where
  "StartReq_IsInitialized m \<longleftrightarrow> has_bits m AND 3 = 3"

section \<open>StartRsp\<close>

record 'u StartRsp_pb = "'u Message" +
  srsp_accept :: int
  srsp_routechannel :: int

definition StartRsp_new :: "'u runtime \<Rightarrow> 'u StartRsp_pb" where
  "StartRsp_new rt = \<lparr> unknown_fields = rt_unknown_new rt, cached_size = 0, has_bits = 0, srsp_accept = 0, srsp_routechannel = 0 \<rparr>"

definition StartRsp_set_accept :: "int \<Rightarrow> 'u StartRsp_pb \<Rightarrow> 'u StartRsp_pb" where
  "StartRsp_set_accept v m = set_has_bit 0 m \<lparr> srsp_accept := v \<rparr>"

definition StartRsp_set_routechannel :: "int \<Rightarrow> 'u StartRsp_pb \<Rightarrow> 'u StartRsp_pb" where
  "StartRsp_set_routechannel v m = set_has_bit 1 m \<lparr> srsp_routechannel := v \<rparr>"

definition StartRsp_Clear :: "'u runtime \<Rightarrow> 'u StartRsp_pb \<Rightarrow> 'u StartRsp_pb" where
  "StartRsp_Clear rt m =
     clear_bits rt (if any_bit m then m \<lparr> srsp_accept := 0, srsp_routechannel := 0 \<rparr> else m)"

definition StartRsp_parse_routechannel :: "'u runtime \<Rightarrow> 'u StartRsp_pb \<Rightarrow> CodedInputStream \<Rightarrow> (ctl \<times> 'u StartRsp_pb \<times> CodedInputStream) option" where
  "StartRsp_parse_routechannel rt = read_field (ReadPrimitive_UINT32 rt) (\<lambda>v m. set_has_bit 1 (m \<lparr> srsp_routechannel := v \<rparr>)) expect_end"

definition StartRsp_parse_accept :: "'u runtime \<Rightarrow> 'u StartRsp_pb \<Rightarrow> CodedInputStream \<Rightarrow> (ctl \<times> 'u StartRsp_pb \<times> CodedInputStream) option" where
  "StartRsp_parse_accept rt = read_field (ReadPrimitive_INT32 rt) (\<lambda>v m. set_has_bit 0 (m \<lparr> srsp_accept := v \<rparr>)) (expect_tag 16 (StartRsp_parse_routechannel rt))"

definition StartRsp_switch :: "'u runtime \<Rightarrow> int \<Rightarrow> 'u StartRsp_pb \<Rightarrow> CodedInputStream \<Rightarrow> (ctl \<times> 'u StartRsp_pb \<times> CodedInputStream) option" where
  "StartRsp_switch rt tag m s =
     (if GetTagFieldNumber tag = 1 \<and> GetTagWireType tag = WIRETYPE_VARINT then StartRsp_parse_accept rt m s
      else if GetTagFieldNumber tag = 2 \<and> GetTagWireType tag = WIRETYPE_VARINT then StartRsp_parse_routechannel rt m s
      else handle_uninterpreted rt tag m s)"

definition StartRsp_MergePartialFromCodedStream :: "'u runtime \<Rightarrow> 'u StartRsp_pb \<Rightarrow> CodedInputStream \<Rightarrow> (bool \<times> 'u StartRsp_pb \<times> CodedInputStream) option" where
  "StartRsp_MergePartialFromCodedStream rt = merge_loop rt (StartRsp_switch rt)"

definition StartRsp_SerializeWithCachedSizesToArray :: "'u runtime \<Rightarrow> 'u StartRsp_pb \<Rightarrow> byte list \<Rightarrow> byte list" where
  "StartRsp_SerializeWithCachedSizesToArray rt m target =
     (let target = (if has_bit 0 m then WriteInt32ToArray rt 1 (srsp_accept m) target else target);
          target = (if has_bit 1 m then WriteUInt32ToArray rt 2 (srsp_routechannel m) target else target)
      in write_unknown rt m target)"

definition StartRsp_ByteSize :: "'u runtime \<Rightarrow> 'u StartRsp_pb \<Rightarrow> int \<times> 'u StartRsp_pb" where
  "StartRsp_ByteSize rt m =
     (let total_size = (if any_bit m
            then add_if (has_bit 1 m) (1 + UInt32Size rt (srsp_routechannel m)) (add_if (has_bit 0 m) (1 + Int32Size rt (srsp_accept m)) (0)) else 0);
          total_size = unknown_size rt m total_size
      in (total_size, m \<lparr> cached_size := total_size \<rparr>))"

definition StartRsp_MergeFrom :: "'u runtime \<Rightarrow> 'u StartRsp_pb \<Rightarrow> 'u StartRsp_pb \<Rightarrow> 'u StartRsp_pb" where
  "StartRsp_MergeFrom rt from m =
     (let m = (if any_bit from
            then (let m = (if has_bit 0 from then StartRsp_set_accept (srsp_accept from) m else m);
                      m = (if has_bit 1 from then StartRsp_set_routechannel (srsp_routechannel from) m else m) in m)
            else m)
      in merge_unknown rt from m)"

definition StartRsp_CopyFrom :: "'u runtime \<Rightarrow> 'u StartRsp_pb \<Rightarrow> 'u StartRsp_pb \<Rightarrow> 'u StartRsp_pb" where
  "StartRsp_CopyFrom rt from m = StartRsp_MergeFrom rt from (StartRsp_Clear rt m)"

definition StartRsp_IsInitialized :: "'u StartRsp_pb \<Rightarrow> bool" where
  "StartRsp_IsInitialized m \<longleftrightarrow> has_bits m AND 3 = 3"

section \<open>Stop\<close>

record 'u Stop_pb = "'u Message" +
  stp_timestamp :: int

definition Stop_new :: "'u runtime \<Rightarrow> 'u Stop_pb" where
  "Stop_new rt = \<lparr> unknown_fields = rt_unknown_new rt, cached_size = 0, has_bits = 0, stp_timestamp = 0 \<rparr>"

definition Stop_set_timestamp :: "int \<Rightarrow> 'u Stop_pb \<Rightarrow> 'u Stop_pb" where
  "Stop_set_timestamp v m = set_has_bit 0 m \<lparr> stp_timestamp := v \<rparr>"

definition Stop_Clear :: "'u runtime \<Rightarrow> 'u Stop_pb \<Rightarrow> 'u Stop_pb" where
  "Stop_Clear rt m =
     clear_bits rt (if any_bit m then m \<lparr> stp_timestamp := 0 \<rparr> else m)"

definition Stop_parse_timestamp :: "'u runtime \<Rightarrow> 'u Stop_pb \<Rightarrow> CodedInputStream \<Rightarrow> (ctl \<times> 'u Stop_pb \<times> CodedInputStream) option" where
  "Stop_parse_timestamp rt = read_field (ReadPrimitive_UINT64 rt) (\<lambda>v m. set_has_bit 0 (m \<lparr> stp_timestamp := v \<rparr>)) expect_end"

definition Stop_switch :: "'u runtime \<Rightarrow> int \<Rightarrow> 'u Stop_pb \<Rightarrow> CodedInputStream \<Rightarrow> (ctl \<times> 'u Stop_pb \<times> CodedInputStream) option" where
  "Stop_switch rt tag m s =
     (if GetTagFieldNumber tag = 1 \<and> GetTagWireType tag = WIRETYPE_VARINT then Stop_parse_timestamp rt m s
      else handle_uninterpreted rt tag m s)"

definition Stop_MergePartialFromCodedStream :: "'u runtime \<Rightarrow> 'u Stop_pb \<Rightarrow> CodedInputStream \<Rightarrow> (bool \<times> 'u Stop_pb \<times> CodedInputStream) option" where
  "Stop_MergePartialFromCodedStream rt = merge_loop rt (Stop_switch rt)"

definition Stop_SerializeWithCachedSizesToArray :: "'u runtime \<Rightarrow> 'u Stop_pb \<Rightarrow> byte list \<Rightarrow> byte list" where
  "Stop_SerializeWithCachedSizesToArray rt m target =
     (let target = (if has_bit 0 m then WriteUInt64ToArray rt 1 (stp_timestamp m) target else target)
      in write_unknown rt m target)"

definition Stop_ByteSize :: "'u runtime \<Rightarrow> 'u Stop_pb \<Rightarrow> int \<times> 'u Stop_pb" where
  "Stop_ByteSize rt m =
     (let total_size = (if any_bit m
            then add_if (has_bit 0 m) (1 + UInt64Size rt (stp_timestamp m)) (0) else 0);
          total_size = unknown_size rt m total_size
      in (total_size, m \<lparr> cached_size := total_size \<rparr>))"

definition Stop_MergeFrom :: "'u runtime \<Rightarrow> 'u Stop_pb \<Rightarrow> 'u Stop_pb \<Rightarrow> 'u Stop_pb" where
  "Stop_MergeFrom rt from m =
     (let m = (if any_bit from
            then (let m = (if has_bit 0 from then Stop_set_timestamp (stp_timestamp from) m else m) in m)
            else m)
      in merge_unknown rt from m)"

definition Stop_CopyFrom :: "'u runtime \<Rightarrow> 'u Stop_pb \<Rightarrow> 'u Stop_pb \<Rightarrow> 'u Stop_pb" where
  "Stop_CopyFrom rt from m = Stop_MergeFrom rt from (Stop_Clear rt m)"

definition Stop_IsInitialized :: "'u Stop_pb \<Rightarrow> bool" where
  "Stop_IsInitialized m \<longleftrightarrow> has_bits m AND 1 = 1"

section \<open>Route\<close>

record 'u Route_pb = "'u Message" +
  rte_routechannel :: int

definition Route_new :: "'u runtime \<Rightarrow> 'u Route_pb" where
  "Route_new rt = \<lparr> unknown_fields = rt_unknown_new rt, cached_size = 0, has_bits = 0, rte_routechannel = 0 \<rparr>"

definition Route_set_routechannel :: "int \<Rightarrow> 'u Route_pb \<Rightarrow> 'u Route_pb" where
  "Route_set_routechannel v m = set_has_bit 0 m \<lparr> rte_routechannel := v \<rparr>"

definition Route_Clear :: "'u runtime \<Rightarrow> 'u Route_pb \<Rightarrow> 'u Route_pb" where
  "Route_Clear rt m =
     clear_bits rt (if any_bit m then m \<lparr> rte_routechannel := 0 \<rparr> else m)"

definition Route_parse_routechannel :: "'u runtime \<Rightarrow> 'u Route_pb \<Rightarrow> CodedInputStream \<Rightarrow> (ctl \<times> 'u Route_pb \<times> CodedInputStream) option" where
  "Route_parse_routechannel rt = read_field (ReadPrimitive_UINT32 rt) (\<lambda>v m. set_has_bit 0 (m \<lparr> rte_routechannel := v \<rparr>)) expect_end"

definition Route_switch :: "'u runtime \<Rightarrow> int \<Rightarrow> 'u Route_pb \<Rightarrow> CodedInputStream \<Rightarrow> (ctl \<times> 'u Route_pb \<times> CodedInputStream) option" where
  "Route_switch rt tag m s =
     (if GetTagFieldNumber tag = 1 \<and> GetTagWireType tag = WIRETYPE_VARINT then Route_parse_routechannel rt m s
      else handle_uninterpreted rt tag m s)"

definition Route_MergePartialFromCodedStream :: "'u runtime \<Rightarrow> 'u Route_pb \<Rightarrow> CodedInputStream \<Rightarrow> (bool \<times> 'u Route_pb \<times> CodedInputStream) option" where
  "Route_MergePartialFromCodedStream rt = merge_loop rt (Route_switch rt)"

definition Route_SerializeWithCachedSizesToArray :: "'u runtime \<Rightarrow> 'u Route_pb \<Rightarrow> byte list \<Rightarrow> byte list" where
  "Route_SerializeWithCachedSizesToArray rt m target =
     (let target = (if has_bit 0 m then WriteUInt32ToArray rt 1 (rte_routechannel m) target else target)
      in write_unknown rt m target)"

definition Route_ByteSize :: "'u runtime \<Rightarrow> 'u Route_pb \<Rightarrow> int \<times> 'u Route_pb" where
  "Route_ByteSize rt m =
     (let total_size = (if any_bit m
            then add_if (has_bit 0 m) (1 + UInt32Size rt (rte_routechannel m)) (0) else 0);
          total_size = unknown_size rt m total_size
      in (total_size, m \<lparr> cached_size := total_size \<rparr>))"

definition Route_MergeFrom :: "'u runtime \<Rightarrow> 'u Route_pb \<Rightarrow> 'u Route_pb \<Rightarrow> 'u Route_pb" where
  "Route_MergeFrom rt from m =
     (let m = (if any_bit from
            then (let m = (if has_bit 0 from then Route_set_routechannel (rte_routechannel from) m else m) in m)
            else m)
      in merge_unknown rt from m)"

definition Route_CopyFrom :: "'u runtime \<Rightarrow> 'u Route_pb \<Rightarrow> 'u Route_pb \<Rightarrow> 'u Route_pb" where
  "Route_CopyFrom rt from m = Route_MergeFrom rt from (Route_Clear rt m)"

definition Route_IsInitialized :: "'u Route_pb \<Rightarrow> bool" where
  "Route_IsInitialized m \<longleftrightarrow> has_bits m AND 1 = 1"

section \<open>MsgNtf\<close>

record 'u MsgNtf_pb = "'u Message" +
  ntf_buff :: "byte list"

definition MsgNtf_new :: "'u runtime \<Rightarrow> 'u MsgNtf_pb" where
  "MsgNtf_new rt = \<lparr> unknown_fields = rt_unknown_new rt, cached_size = 0, has_bits = 0, ntf_buff = [] \<rparr>"

definition MsgNtf_set_buff :: "byte list \<Rightarrow> 'u MsgNtf_pb \<Rightarrow> 'u MsgNtf_pb" where
  "MsgNtf_set_buff v m = set_has_bit 0 m \<lparr> ntf_buff := v \<rparr>"

definition MsgNtf_Clear :: "'u runtime \<Rightarrow> 'u MsgNtf_pb \<Rightarrow> 'u MsgNtf_pb" where
  "MsgNtf_Clear rt m =
     clear_bits rt (if any_bit m then m \<lparr> ntf_buff := (if has_bit 0 m then [] else ntf_buff m) \<rparr> else m)"

definition MsgNtf_parse_buff :: "'u runtime \<Rightarrow> 'u MsgNtf_pb \<Rightarrow> CodedInputStream \<Rightarrow> (ctl \<times> 'u MsgNtf_pb \<times> CodedInputStream) option" where
  "MsgNtf_parse_buff rt m = read_field (rt_ReadBytes rt) (\<lambda>v m. m \<lparr> ntf_buff := v \<rparr>) expect_end (set_has_bit 0 m)"

definition MsgNtf_switch :: "'u runtime \<Rightarrow> int \<Rightarrow> 'u MsgNtf_pb \<Rightarrow> CodedInputStream \<Rightarrow> (ctl \<times> 'u MsgNtf_pb \<times> CodedInputStream) option" where
  "MsgNtf_switch rt tag m s =
     (if GetTagFieldNumber tag = 1 \<and> GetTagWireType tag = WIRETYPE_LENGTH_DELIMITED then MsgNtf_parse_buff rt m s
      else handle_uninterpreted rt tag m s)"

definition MsgNtf_MergePartialFromCodedStream :: "'u runtime \<Rightarrow> 'u MsgNtf_pb \<Rightarrow> CodedInputStream \<Rightarrow> (bool \<times> 'u MsgNtf_pb \<times> CodedInputStream) option" where
  "MsgNtf_MergePartialFromCodedStream rt = merge_loop rt (MsgNtf_switch rt)"

definition MsgNtf_SerializeWithCachedSizesToArray :: "'u runtime \<Rightarrow> 'u MsgNtf_pb \<Rightarrow> byte list \<Rightarrow> byte list" where
  "MsgNtf_SerializeWithCachedSizesToArray rt m target =
     (let target = (if has_bit 0 m then WriteFieldBytesToArray rt 1 (ntf_buff m) target else target)
      in write_unknown rt m target)"

definition MsgNtf_ByteSize :: "'u runtime \<Rightarrow> 'u MsgNtf_pb \<Rightarrow> int \<times> 'u MsgNtf_pb" where
  "MsgNtf_ByteSize rt m =
     (let total_size = (if any_bit m
            then add_if (has_bit 0 m) (1 + BytesSize rt (ntf_buff m)) (0) else 0);
          total_size = unknown_size rt m total_size
      in (total_size, m \<lparr> cached_size := total_size \<rparr>))"

definition MsgNtf_MergeFrom :: "'u runtime \<Rightarrow> 'u MsgNtf_pb \<Rightarrow> 'u MsgNtf_pb \<Rightarrow> 'u MsgNtf_pb" where
  "MsgNtf_MergeFrom rt from m =
     (let m = (if any_bit from
            then (let m = (if has_bit 0 from then MsgNtf_set_buff (ntf_buff from) m else m) in m)
            else m)
      in merge_unknown rt from m)"

definition MsgNtf_CopyFrom :: "'u runtime \<Rightarrow> 'u MsgNtf_pb \<Rightarrow> 'u MsgNtf_pb \<Rightarrow> 'u MsgNtf_pb" where
  "MsgNtf_CopyFrom rt from m = MsgNtf_MergeFrom rt from (MsgNtf_Clear rt m)"

definition MsgNtf_IsInitialized :: "'u MsgNtf_pb \<Rightarrow> bool" where
  "MsgNtf_IsInitialized m \<longleftrightarrow> has_bits m AND 1 = 1"

section \<open>MsgHead\<close>

record 'u MsgHead_pb = "'u Message" +
  hd_cmdid :: int
  hd_connid :: int
  hd_port :: int
  hd_ip :: "byte list"

definition MsgHead_new :: "'u runtime \<Rightarrow> 'u MsgHead_pb" where
  "MsgHead_new rt = \<lparr> unknown_fields = rt_unknown_new rt, cached_size = 0, has_bits = 0, hd_cmdid = 0, hd_connid = 0, hd_port = 0, hd_ip = [] \<rparr>"

definition MsgHead_set_cmdid :: "int \<Rightarrow> 'u MsgHead_pb \<Rightarrow> 'u MsgHead_pb" where
  "MsgHead_set_cmdid v m = set_has_bit 0 m \<lparr> hd_cmdid := v \<rparr>"

definition MsgHead_set_connid :: "int \<Rightarrow> 'u MsgHead_pb \<Rightarrow> 'u MsgHead_pb" where
  "MsgHead_set_connid v m = set_has_bit 1 m \<lparr> hd_connid := v \<rparr>"

definition MsgHead_set_port :: "int \<Rightarrow> 'u MsgHead_pb \<Rightarrow> 'u MsgHead_pb" where
  "MsgHead_set_port v m = set_has_bit 2 m \<lparr> hd_port := v \<rparr>"

definition MsgHead_set_ip :: "byte list \<Rightarrow> 'u MsgHead_pb \<Rightarrow> 'u MsgHead_pb" where
  "MsgHead_set_ip v m = set_has_bit 3 m \<lparr> hd_ip := v \<rparr>"

definition MsgHead_Clear :: "'u runtime \<Rightarrow> 'u MsgHead_pb \<Rightarrow> 'u MsgHead_pb" where
  "MsgHead_Clear rt m =
     clear_bits rt (if any_bit m then m \<lparr> hd_cmdid := 0, hd_connid := 0, hd_port := 0, hd_ip := (if has_bit 3 m then [] else hd_ip m) \<rparr> else m)"

definition MsgHead_parse_ip :: "'u runtime \<Rightarrow> 'u MsgHead_pb \<Rightarrow> CodedInputStream \<Rightarrow> (ctl \<times> 'u MsgHead_pb \<times> CodedInputStream) option" where
  "MsgHead_parse_ip rt m = read_field (rt_ReadString rt) (\<lambda>v m. m \<lparr> hd_ip := v \<rparr>) expect_end (set_has_bit 3 m)"

definition MsgHead_parse_port :: "'u runtime \<Rightarrow> 'u MsgHead_pb \<Rightarrow> CodedInputStream \<Rightarrow> (ctl \<times> 'u MsgHead_pb \<times> CodedInputStream) option" where
  "MsgHead_parse_port rt = read_field (ReadPrimitive_UINT32 rt) (\<lambda>v m. set_has_bit 2 (m \<lparr> hd_port := v \<rparr>)) (expect_tag 42 (MsgHead_parse_ip rt))"

definition MsgHead_parse_connid :: "'u runtime \<Rightarrow> 'u MsgHead_pb \<Rightarrow> CodedInputStream \<Rightarrow> (ctl \<times> 'u MsgHead_pb \<times> CodedInputStream) option" where
  "MsgHead_parse_connid rt = read_field (ReadPrimitive_FIXED32 rt) (\<lambda>v m. set_has_bit 1 (m \<lparr> hd_connid := v \<rparr>)) (expect_tag 32 (MsgHead_parse_port rt))"

definition MsgHead_parse_cmdid :: "'u runtime \<Rightarrow> 'u MsgHead_pb \<Rightarrow> CodedInputStream \<Rightarrow> (ctl \<times> 'u MsgHead_pb \<times> CodedInputStream) option" where
  "MsgHead_parse_cmdid rt = read_field (ReadPrimitive_FIXED32 rt) (\<lambda>v m. set_has_bit 0 (m \<lparr> hd_cmdid := v \<rparr>)) (expect_tag 29 (MsgHead_parse_connid rt))"

definition MsgHead_switch :: "'u runtime \<Rightarrow> int \<Rightarrow> 'u MsgHead_pb \<Rightarrow> CodedInputStream \<Rightarrow> (ctl \<times> 'u MsgHead_pb \<times> CodedInputStream) option" where
  "MsgHead_switch rt tag m s =
     (if GetTagFieldNumber tag = 2 \<and> GetTagWireType tag = WIRETYPE_FIXED32 then MsgHead_parse_cmdid rt m s
      else if GetTagFieldNumber tag = 3 \<and> GetTagWireType tag = WIRETYPE_FIXED32 then MsgHead_parse_connid rt m s
      else if GetTagFieldNumber tag = 4 \<and> GetTagWireType tag = WIRETYPE_VARINT then MsgHead_parse_port rt m s
      else if GetTagFieldNumber tag = 5 \<and> GetTagWireType tag = WIRETYPE_LENGTH_DELIMITED then MsgHead_parse_ip rt m s
      else handle_uninterpreted rt tag m s)"

definition MsgHead_MergePartialFromCodedStream :: "'u runtime \<Rightarrow> 'u MsgHead_pb \<Rightarrow> CodedInputStream \<Rightarrow> (bool \<times> 'u MsgHead_pb \<times> CodedInputStream) option" where
  "MsgHead_MergePartialFromCodedStream rt = merge_loop rt (MsgHead_switch rt)"

definition MsgHead_SerializeWithCachedSizesToArray :: "'u runtime \<Rightarrow> 'u MsgHead_pb \<Rightarrow> byte list \<Rightarrow> byte list" where
  "MsgHead_SerializeWithCachedSizesToArray rt m target =
     (let target = (if has_bit 0 m then WriteFixed32ToArray rt 2 (hd_cmdid m) target else target);
          target = (if has_bit 1 m then WriteFixed32ToArray rt 3 (hd_connid m) target else target);
          target = (if has_bit 2 m then WriteUInt32ToArray rt 4 (hd_port m) target else target);
          target = (if has_bit 3 m then WriteFieldStringToArray rt 5 (hd_ip m) target else target)
      in write_unknown rt m target)"

definition MsgHead_ByteSize :: "'u runtime \<Rightarrow> 'u MsgHead_pb \<Rightarrow> int \<times> 'u MsgHead_pb" where
  "MsgHead_ByteSize rt m =
     (let total_size = (if any_bit m
            then add_if (has_bit 3 m) (1 + StringSize rt (hd_ip m)) (add_if (has_bit 2 m) (1 + UInt32Size rt (hd_port m)) (add_if (has_bit 1 m) (1 + 4) (add_if (has_bit 0 m) (1 + 4) (0)))) else 0);
          total_size = unknown_size rt m total_size
      in (total_size, m \<lparr> cached_size := total_size \<rparr>))"

definition MsgHead_MergeFrom :: "'u runtime \<Rightarrow> 'u MsgHead_pb \<Rightarrow> 'u MsgHead_pb \<Rightarrow> 'u MsgHead_pb" where
  "MsgHead_MergeFrom rt from m =
     (let m = (if any_bit from
            then (let m = (if has_bit 0 from then MsgHead_set_cmdid (hd_cmdid from) m else m);
                      m = (if has_bit 1 from then MsgHead_set_connid (hd_connid from) m else m);
                      m = (if has_bit 2 from then MsgHead_set_port (hd_port from) m else m);
                      m = (if has_bit 3 from then MsgHead_set_ip (hd_ip from) m else m) in m)
            else m)
      in merge_unknown rt from m)"

definition MsgHead_CopyFrom :: "'u runtime \<Rightarrow> 'u MsgHead_pb \<Rightarrow> 'u MsgHead_pb \<Rightarrow> 'u MsgHead_pb" where
  "MsgHead_CopyFrom rt from m = MsgHead_MergeFrom rt from (MsgHead_Clear rt m)"

definition MsgHead_IsInitialized :: "'u MsgHead_pb \<Rightarrow> bool" where
  "MsgHead_IsInitialized m \<longleftrightarrow> has_bits m AND 15 = 15"

section \<open>testConnSvrCfg\<close>

record 'u testConnSvrCfg_pb = "'u Message" +
  tcfg_port :: int

definition testConnSvrCfg_new :: "'u runtime \<Rightarrow> 'u testConnSvrCfg_pb" where
  "testConnSvrCfg_new rt = \<lparr> unknown_fields = rt_unknown_new rt, cached_size = 0, has_bits = 0, tcfg_port = 0 \<rparr>"

definition testConnSvrCfg_set_port :: "int \<Rightarrow> 'u testConnSvrCfg_pb \<Rightarrow> 'u testConnSvrCfg_pb" where
  "testConnSvrCfg_set_port v m = set_has_bit 0 m \<lparr> tcfg_port := v \<rparr>"

definition testConnSvrCfg_Clear :: "'u runtime \<Rightarrow> 'u testConnSvrCfg_pb \<Rightarrow> 'u testConnSvrCfg_pb" where
  "testConnSvrCfg_Clear rt m =
     clear_bits rt (if any_bit m then m \<lparr> tcfg_port := 0 \<rparr> else m)"

definition testConnSvrCfg_parse_port :: "'u runtime \<Rightarrow> 'u testConnSvrCfg_pb \<Rightarrow> CodedInputStream \<Rightarrow> (ctl \<times> 'u testConnSvrCfg_pb \<times> CodedInputStream) option" where
  "testConnSvrCfg_parse_port rt = read_field (ReadPrimitive_FIXED32 rt) (\<lambda>v m. set_has_bit 0 (m \<lparr> tcfg_port := v \<rparr>)) expect_end"

definition testConnSvrCfg_switch :: "'u runtime \<Rightarrow> int \<Rightarrow> 'u testConnSvrCfg_pb \<Rightarrow> CodedInputStream \<Rightarrow> (ctl \<times> 'u testConnSvrCfg_pb \<times> CodedInputStream) option" where
  "testConnSvrCfg_switch rt tag m s =
     (if GetTagFieldNumber tag = 1 \<and> GetTagWireType tag = WIRETYPE_FIXED32 then testConnSvrCfg_parse_port rt m s
      else handle_uninterpreted rt tag m s)"

definition testConnSvrCfg_MergePartialFromCodedStream :: "'u runtime \<Rightarrow> 'u testConnSvrCfg_pb \<Rightarrow> CodedInputStream \<Rightarrow> (bool \<times> 'u testConnSvrCfg_pb \<times> CodedInputStream) option" where
  "testConnSvrCfg_MergePartialFromCodedStream rt = merge_loop rt (testConnSvrCfg_switch rt)"

definition testConnSvrCfg_SerializeWithCachedSizesToArray :: "'u runtime \<Rightarrow> 'u testConnSvrCfg_pb \<Rightarrow> byte list \<Rightarrow> byte list" where
  "testConnSvrCfg_SerializeWithCachedSizesToArray rt m target =
     (let target = (if has_bit 0 m then WriteFixed32ToArray rt 1 (tcfg_port m) target else target)
      in write_unknown rt m target)"

definition testConnSvrCfg_ByteSize :: "'u runtime \<Rightarrow> 'u testConnSvrCfg_pb \<Rightarrow> int \<times> 'u testConnSvrCfg_pb" where
  "testConnSvrCfg_ByteSize rt m =
     (let total_size = (if any_bit m
            then add_if (has_bit 0 m) (1 + 4) (0) else 0);
          total_size = unknown_size rt m total_size
      in (total_size, m \<lparr> cached_size := total_size \<rparr>))"

definition testConnSvrCfg_MergeFrom :: "'u runtime \<Rightarrow> 'u testConnSvrCfg_pb \<Rightarrow> 'u testConnSvrCfg_pb \<Rightarrow> 'u testConnSvrCfg_pb" where
  "testConnSvrCfg_MergeFrom rt from m =
     (let m = (if any_bit from
            then (let m = (if has_bit 0 from then testConnSvrCfg_set_port (tcfg_port from) m else m) in m)
            else m)
      in merge_unknown rt from m)"

definition testConnSvrCfg_CopyFrom :: "'u runtime \<Rightarrow> 'u testConnSvrCfg_pb \<Rightarrow> 'u testConnSvrCfg_pb \<Rightarrow> 'u testConnSvrCfg_pb" where
  "testConnSvrCfg_CopyFrom rt from m = testConnSvrCfg_MergeFrom rt from (testConnSvrCfg_Clear rt m)"

definition testConnSvrCfg_IsInitialized :: "'u testConnSvrCfg_pb \<Rightarrow> bool" where
  "testConnSvrCfg_IsInitialized m \<longleftrightarrow> has_bits m AND 1 = 1"

section \<open>ConnsvrMsg\<close>

record 'u ConnsvrMsg_pb = "'u Message" +
  cm_head :: "'u MsgHead_pb option"
  cm_startreq :: "'u StartReq_pb option"
  cm_startrsp :: "'u StartRsp_pb option"
  cm_stop :: "'u Stop_pb option"
  cm_route :: "'u Route_pb option"
  cm_msgntf :: "'u MsgNtf_pb option"

definition ConnsvrMsg_new :: "'u runtime \<Rightarrow> 'u ConnsvrMsg_pb" where
  "ConnsvrMsg_new rt = \<lparr> unknown_fields = rt_unknown_new rt, cached_size = 0, has_bits = 0, cm_head = None, cm_startreq = None, cm_startrsp = None, cm_stop = None, cm_route = None, cm_msgntf = None \<rparr>"

text \<open>A pointer that is \<open>NULL\<close> reads as the default instance; \<open>mutable_\<close> allocates it.\<close>

definition deref :: "'m \<Rightarrow> 'm option \<Rightarrow> 'm" where
  "deref d p = (case p of None \<Rightarrow> d | Some h \<Rightarrow> h)"

definition mutable_head :: "'u runtime \<Rightarrow> 'u ConnsvrMsg_pb \<Rightarrow> 'u ConnsvrMsg_pb" where
  "mutable_head rt m = set_has_bit 0 m \<lparr> cm_head := Some (deref (MsgHead_new rt) (cm_head m)) \<rparr>"

definition mutable_startreq :: "'u runtime \<Rightarrow> 'u ConnsvrMsg_pb \<Rightarrow> 'u ConnsvrMsg_pb" where
  "mutable_startreq rt m = set_has_bit 1 m \<lparr> cm_startreq := Some (deref (StartReq_new rt) (cm_startreq m)) \<rparr>"

definition mutable_startrsp :: "'u runtime \<Rightarrow> 'u ConnsvrMsg_pb \<Rightarrow> 'u ConnsvrMsg_pb" where
  "mutable_startrsp rt m = set_has_bit 2 m \<lparr> cm_startrsp := Some (deref (StartRsp_new rt) (cm_startrsp m)) \<rparr>"

definition mutable_stop :: "'u runtime \<Rightarrow> 'u ConnsvrMsg_pb \<Rightarrow> 'u ConnsvrMsg_pb" where
  "mutable_stop rt m = set_has_bit 3 m \<lparr> cm_stop := Some (deref (Stop_new rt) (cm_stop m)) \<rparr>"

definition mutable_route :: "'u runtime \<Rightarrow> 'u ConnsvrMsg_pb \<Rightarrow> 'u ConnsvrMsg_pb" where
  "mutable_route rt m = set_has_bit 4 m \<lparr> cm_route := Some (deref (Route_new rt) (cm_route m)) \<rparr>"

definition mutable_msgntf :: "'u runtime \<Rightarrow> 'u ConnsvrMsg_pb \<Rightarrow> 'u ConnsvrMsg_pb" where
  "mutable_msgntf rt m = set_has_bit 5 m \<lparr> cm_msgntf := Some (deref (MsgNtf_new rt) (cm_msgntf m)) \<rparr>"

definition ConnsvrMsg_Clear :: "'u runtime \<Rightarrow> 'u ConnsvrMsg_pb \<Rightarrow> 'u ConnsvrMsg_pb" where
  "ConnsvrMsg_Clear rt m =
     clear_bits rt (if any_bit m then m \<lparr>
        cm_head := (if has_bit 0 m then map_option (MsgHead_Clear rt) (cm_head m) else cm_head m),
        cm_startreq := (if has_bit 1 m then map_option (StartReq_Clear rt) (cm_startreq m) else cm_startreq m),
        cm_startrsp := (if has_bit 2 m then map_option (StartRsp_Clear rt) (cm_startrsp m) else cm_startrsp m),
        cm_stop := (if has_bit 3 m then map_option (Stop_Clear rt) (cm_stop m) else cm_stop m),
        cm_route := (if has_bit 4 m then map_option (Route_Clear rt) (cm_route m) else cm_route m),
        cm_msgntf := (if has_bit 5 m then map_option (MsgNtf_Clear rt) (cm_msgntf m) else cm_msgntf m) \<rparr>
      else m)"

definition ConnsvrMsg_parse_msgntf :: "'u runtime \<Rightarrow> 'u ConnsvrMsg_pb \<Rightarrow> CodedInputStream \<Rightarrow> (ctl \<times> 'u ConnsvrMsg_pb \<times> CodedInputStream) option" where
  "ConnsvrMsg_parse_msgntf rt m = read_msg rt (MsgNtf_MergePartialFromCodedStream rt) (\<lambda>m. deref (MsgNtf_new rt) (cm_msgntf m))
     (\<lambda>h m. m \<lparr> cm_msgntf := Some h \<rparr>) expect_end (mutable_msgntf rt m)"

definition ConnsvrMsg_parse_route :: "'u runtime \<Rightarrow> 'u ConnsvrMsg_pb \<Rightarrow> CodedInputStream \<Rightarrow> (ctl \<times> 'u ConnsvrMsg_pb \<times> CodedInputStream) option" where
  "ConnsvrMsg_parse_route rt m = read_msg rt (Route_MergePartialFromCodedStream rt) (\<lambda>m. deref (Route_new rt) (cm_route m))
     (\<lambda>h m. m \<lparr> cm_route := Some h \<rparr>) (expect_tag 50 (ConnsvrMsg_parse_msgntf rt)) (mutable_route rt m)"

definition ConnsvrMsg_parse_stop :: "'u runtime \<Rightarrow> 'u ConnsvrMsg_pb \<Rightarrow> CodedInputStream \<Rightarrow> (ctl \<times> 'u ConnsvrMsg_pb \<times> CodedInputStream) option" where
  "ConnsvrMsg_parse_stop rt m = read_msg rt (Stop_MergePartialFromCodedStream rt) (\<lambda>m. deref (Stop_new rt) (cm_stop m))
     (\<lambda>h m. m \<lparr> cm_stop := Some h \<rparr>) (expect_tag 42 (ConnsvrMsg_parse_route rt)) (mutable_stop rt m)"

definition ConnsvrMsg_parse_startrsp :: "'u runtime \<Rightarrow> 'u ConnsvrMsg_pb \<Rightarrow> CodedInputStream \<Rightarrow> (ctl \<times> 'u ConnsvrMsg_pb \<times> CodedInputStream) option" where
  "ConnsvrMsg_parse_startrsp rt m = read_msg rt (StartRsp_MergePartialFromCodedStream rt) (\<lambda>m. deref (StartRsp_new rt) (cm_startrsp m))
     (\<lambda>h m. m \<lparr> cm_startrsp := Some h \<rparr>) (expect_tag 34 (ConnsvrMsg_parse_stop rt)) (mutable_startrsp rt m)"

definition ConnsvrMsg_parse_startreq :: "'u runtime \<Rightarrow> 'u ConnsvrMsg_pb \<Rightarrow> CodedInputStream \<Rightarrow> (ctl \<times> 'u ConnsvrMsg_pb \<times> CodedInputStream) option" where
  "ConnsvrMsg_parse_startreq rt m = read_msg rt (StartReq_MergePartialFromCodedStream rt) (\<lambda>m. deref (StartReq_new rt) (cm_startreq m))
     (\<lambda>h m. m \<lparr> cm_startreq := Some h \<rparr>) (expect_tag 26 (ConnsvrMsg_parse_startrsp rt)) (mutable_startreq rt m)"

definition ConnsvrMsg_parse_head :: "'u runtime \<Rightarrow> 'u ConnsvrMsg_pb \<Rightarrow> CodedInputStream \<Rightarrow> (ctl \<times> 'u ConnsvrMsg_pb \<times> CodedInputStream) option" where
  "ConnsvrMsg_parse_head rt m = read_msg rt (MsgHead_MergePartialFromCodedStream rt) (\<lambda>m. deref (MsgHead_new rt) (cm_head m))
     (\<lambda>h m. m \<lparr> cm_head := Some h \<rparr>) (expect_tag 18 (ConnsvrMsg_parse_startreq rt)) (mutable_head rt m)"

definition ConnsvrMsg_switch :: "'u runtime \<Rightarrow> int \<Rightarrow> 'u ConnsvrMsg_pb \<Rightarrow> CodedInputStream \<Rightarrow> (ctl \<times> 'u ConnsvrMsg_pb \<times> CodedInputStream) option" where
  "ConnsvrMsg_switch rt tag m s =
     (if GetTagFieldNumber tag = 1 \<and> GetTagWireType tag = WIRETYPE_LENGTH_DELIMITED then ConnsvrMsg_parse_head rt m s
      else if GetTagFieldNumber tag = 2 \<and> GetTagWireType tag = WIRETYPE_LENGTH_DELIMITED then ConnsvrMsg_parse_startreq rt m s
      else if GetTagFieldNumber tag = 3 \<and> GetTagWireType tag = WIRETYPE_LENGTH_DELIMITED then ConnsvrMsg_parse_startrsp rt m s
      else if GetTagFieldNumber tag = 4 \<and> GetTagWireType tag = WIRETYPE_LENGTH_DELIMITED then ConnsvrMsg_parse_stop rt m s
      else if GetTagFieldNumber tag = 5 \<and> GetTagWireType tag = WIRETYPE_LENGTH_DELIMITED then ConnsvrMsg_parse_route rt m s
      else if GetTagFieldNumber tag = 6 \<and> GetTagWireType tag = WIRETYPE_LENGTH_DELIMITED then ConnsvrMsg_parse_msgntf rt m s
      else handle_uninterpreted rt tag m s)"

definition ConnsvrMsg_MergePartialFromCodedStream :: "'u runtime \<Rightarrow> 'u ConnsvrMsg_pb \<Rightarrow> CodedInputStream \<Rightarrow> (bool \<times> 'u ConnsvrMsg_pb \<times> CodedInputStream) option" where
  "ConnsvrMsg_MergePartialFromCodedStream rt = merge_loop rt (ConnsvrMsg_switch rt)"

definition ConnsvrMsg_SerializeWithCachedSizesToArray :: "'u runtime \<Rightarrow> 'u ConnsvrMsg_pb \<Rightarrow> byte list \<Rightarrow> byte list" where
  "ConnsvrMsg_SerializeWithCachedSizesToArray rt m target =
     (let target = (if has_bit 0 m then write_msg rt 1 (MsgHead_SerializeWithCachedSizesToArray rt) (deref (MsgHead_new rt) (cm_head m)) target else target);
          target = (if has_bit 1 m then write_msg rt 2 (StartReq_SerializeWithCachedSizesToArray rt) (deref (StartReq_new rt) (cm_startreq m)) target else target);
          target = (if has_bit 2 m then write_msg rt 3 (StartRsp_SerializeWithCachedSizesToArray rt) (deref (StartRsp_new rt) (cm_startrsp m)) target else target);
          target = (if has_bit 3 m then write_msg rt 4 (Stop_SerializeWithCachedSizesToArray rt) (deref (Stop_new rt) (cm_stop m)) target else target);
          target = (if has_bit 4 m then write_msg rt 5 (Route_SerializeWithCachedSizesToArray rt) (deref (Route_new rt) (cm_route m)) target else target);
          target = (if has_bit 5 m then write_msg rt 6 (MsgNtf_SerializeWithCachedSizesToArray rt) (deref (MsgNtf_new rt) (cm_msgntf m)) target else target)
      in write_unknown rt m target)"

text \<open>\<open>ByteSize\<close> of an embedded message also sets its cached size.\<close>

definition ConnsvrMsg_ByteSize :: "'u runtime \<Rightarrow> 'u ConnsvrMsg_pb \<Rightarrow> int \<times> 'u ConnsvrMsg_pb" where
  "ConnsvrMsg_ByteSize rt m =
     (let total_size = (if any_bit m then
            (let total_size = add_if (has_bit 0 m) (1 + msg_size rt (MsgHead_ByteSize rt) (deref (MsgHead_new rt) (cm_head m))) 0;
                 total_size = add_if (has_bit 1 m) (1 + msg_size rt (StartReq_ByteSize rt) (deref (StartReq_new rt) (cm_startreq m))) total_size;
                 total_size = add_if (has_bit 2 m) (1 + msg_size rt (StartRsp_ByteSize rt) (deref (StartRsp_new rt) (cm_startrsp m))) total_size;
                 total_size = add_if (has_bit 3 m) (1 + msg_size rt (Stop_ByteSize rt) (deref (Stop_new rt) (cm_stop m))) total_size;
                 total_size = add_if (has_bit 4 m) (1 + msg_size rt (Route_ByteSize rt) (deref (Route_new rt) (cm_route m))) total_size;
                 total_size = add_if (has_bit 5 m) (1 + msg_size rt (MsgNtf_ByteSize rt) (deref (MsgNtf_new rt) (cm_msgntf m))) total_size
             in total_size) else 0);
          total_size = unknown_size rt m total_size
      in (total_size, m \<lparr> cached_size := total_size,
           cm_head := (if has_bit 0 m then map_option (\<lambda>h. snd (MsgHead_ByteSize rt h)) (cm_head m) else cm_head m),
           cm_startreq := (if has_bit 1 m then map_option (\<lambda>h. snd (StartReq_ByteSize rt h)) (cm_startreq m) else cm_startreq m),
           cm_startrsp := (if has_bit 2 m then map_option (\<lambda>h. snd (StartRsp_ByteSize rt h)) (cm_startrsp m) else cm_startrsp m),
           cm_stop := (if has_bit 3 m then map_option (\<lambda>h. snd (Stop_ByteSize rt h)) (cm_stop m) else cm_stop m),
           cm_route := (if has_bit 4 m then map_option (\<lambda>h. snd (Route_ByteSize rt h)) (cm_route m) else cm_route m),
           cm_msgntf := (if has_bit 5 m then map_option (\<lambda>h. snd (MsgNtf_ByteSize rt h)) (cm_msgntf m) else cm_msgntf m) \<rparr>))"

definition ConnsvrMsg_MergeFrom :: "'u runtime \<Rightarrow> 'u ConnsvrMsg_pb \<Rightarrow> 'u ConnsvrMsg_pb \<Rightarrow> 'u ConnsvrMsg_pb" where
  "ConnsvrMsg_MergeFrom rt from m =
     (let m = (if any_bit from then
            (let m = (if has_bit 0 from then merge_msg (mutable_head rt m) (\<lambda>m. deref (MsgHead_new rt) (cm_head m)) (\<lambda>h m. m \<lparr> cm_head := Some h \<rparr>) (MsgHead_MergeFrom rt (deref (MsgHead_new rt) (cm_head from))) else m);
                 m = (if has_bit 1 from then merge_msg (mutable_startreq rt m) (\<lambda>m. deref (StartReq_new rt) (cm_startreq m)) (\<lambda>h m. m \<lparr> cm_startreq := Some h \<rparr>) (StartReq_MergeFrom rt (deref (StartReq_new rt) (cm_startreq from))) else m);
                 m = (if has_bit 2 from then merge_msg (mutable_startrsp rt m) (\<lambda>m. deref (StartRsp_new rt) (cm_startrsp m)) (\<lambda>h m. m \<lparr> cm_startrsp := Some h \<rparr>) (StartRsp_MergeFrom rt (deref (StartRsp_new rt) (cm_startrsp from))) else m);
                 m = (if has_bit 3 from then merge_msg (mutable_stop rt m) (\<lambda>m. deref (Stop_new rt) (cm_stop m)) (\<lambda>h m. m \<lparr> cm_stop := Some h \<rparr>) (Stop_MergeFrom rt (deref (Stop_new rt) (cm_stop from))) else m);
                 m = (if has_bit 4 from then merge_msg (mutable_route rt m) (\<lambda>m. deref (Route_new rt) (cm_route m)) (\<lambda>h m. m \<lparr> cm_route := Some h \<rparr>) (Route_MergeFrom rt (deref (Route_new rt) (cm_route from))) else m);
                 m = (if has_bit 5 from then merge_msg (mutable_msgntf rt m) (\<lambda>m. deref (MsgNtf_new rt) (cm_msgntf m)) (\<lambda>h m. m \<lparr> cm_msgntf := Some h \<rparr>) (MsgNtf_MergeFrom rt (deref (MsgNtf_new rt) (cm_msgntf from))) else m)
             in m) else m)
      in merge_unknown rt from m)"

definition ConnsvrMsg_CopyFrom :: "'u runtime \<Rightarrow> 'u ConnsvrMsg_pb \<Rightarrow> 'u ConnsvrMsg_pb \<Rightarrow> 'u ConnsvrMsg_pb" where
  "ConnsvrMsg_CopyFrom rt from m = ConnsvrMsg_MergeFrom rt from (ConnsvrMsg_Clear rt m)"

definition ConnsvrMsg_IsInitialized :: "'u runtime \<Rightarrow> 'u ConnsvrMsg_pb \<Rightarrow> bool" where
  "ConnsvrMsg_IsInitialized rt m \<longleftrightarrow> has_bits m AND 1 = 1 \<and>
     (has_bit 0 m \<longrightarrow> MsgHead_IsInitialized (deref (MsgHead_new rt) (cm_head m))) \<and>
     (has_bit 1 m \<longrightarrow> StartReq_IsInitialized (deref (StartReq_new rt) (cm_startreq m))) \<and>
     (has_bit 2 m \<longrightarrow> StartRsp_IsInitialized (deref (StartRsp_new rt) (cm_startrsp m))) \<and>
     (has_bit 3 m \<longrightarrow> Stop_IsInitialized (deref (Stop_new rt) (cm_stop m))) \<and>
     (has_bit 4 m \<longrightarrow> Route_IsInitialized (deref (Route_new rt) (cm_route m))) \<and>
     (has_bit 5 m \<longrightarrow> MsgNtf_IsInitialized (deref (MsgNtf_new rt) (cm_msgntf m)))"

end
