(* ===== verification/WireParse.thy ===== *)
theory WireParse
  imports ConnsvrPb
begin

text \<open>
  Parsing a sequence of fields, independently of the message class: the loop over the tags, the jump
  from one field to the label of the next, and embedded messages. \<open>parses n merge m bs m'\<close> says that
  \<open>merge\<close> reads exactly the bytes \<open>bs\<close> and takes the message \<open>m\<close> to \<open>m'\<close>. The locale \<open>wire_class\<close> is what
  a message class owes to the message that embeds it.
\<close>

section \<open>Parsing a sequence of fields\<close>

text \<open>A stream that can still enter \<open>n\<close> levels of embedded messages.\<close>

definition ready :: "nat \<Rightarrow> CodedInputStream \<Rightarrow> bool" where
  "ready n s \<longleftrightarrow> flat s \<and> 0 \<le> is_recursion_depth s \<and> is_recursion_depth s + int n \<le> is_recursion_limit s \<and>
     is_recursion_limit s \<le> 100"

definition same_place :: "CodedInputStream \<Rightarrow> CodedInputStream \<Rightarrow> bool" where
  "same_place s s' \<longleftrightarrow> is_after_limit s' = is_after_limit s \<and> is_total_bytes_read s' = is_total_bytes_read s \<and>
     is_current_limit s' = is_current_limit s \<and> is_recursion_depth s' = is_recursion_depth s \<and>
     is_recursion_limit s' = is_recursion_limit s"

text \<open>The whole of the bytes up to the limit was consumed, and the message ended there.\<close>

definition ended :: "CodedInputStream \<Rightarrow> CodedInputStream \<Rightarrow> bool" where
  "ended s s' \<longleftrightarrow> same_place s s' \<and> is_buffer s' = [] \<and> ConsumedEntireMessage s'"

definition parses ::
  "nat \<Rightarrow> ('m \<Rightarrow> CodedInputStream \<Rightarrow> (bool \<times> 'm \<times> CodedInputStream) option) \<Rightarrow> 'm \<Rightarrow> byte list \<Rightarrow> 'm \<Rightarrow> bool" where
  "parses n merge m bs m' \<longleftrightarrow>
     (\<forall>s. ready n s \<longrightarrow> is_buffer s = bs \<longrightarrow> (\<exists>s'. merge m s = Some (True, m', s') \<and> ended s s'))"

text \<open>A case of the switch, followed by the rest of the loop.\<close>

definition resume where
  "resume rt switch label m s = do {
     (c, m, s) \<leftarrow> label m s;
     (case c of CBreak \<Rightarrow> merge_loop rt switch m s | CReturn ok \<Rightarrow> Some (ok, m, s))
   }"

definition stage where
  "stage n rt switch t label m bs m' \<longleftrightarrow> parses n (merge_loop rt switch) m bs m' \<and>
     (\<forall>xs. bs = t # xs \<longrightarrow> parses n (resume rt switch label) m xs m')"

lemma ready_buffer [simp]: "ready n (s \<lparr> is_buffer := xs \<rparr>) = ready n s" "ready n (s \<lparr> is_last_tag := t \<rparr>) = ready n s"
  by (simp_all add: ready_def flat_def)

lemma ended_buffer [simp]: "ended (s \<lparr> is_buffer := xs \<rparr>) s' = ended s s'" "ended (s \<lparr> is_last_tag := t \<rparr>) s' = ended s s'"
  by (simp_all add: ended_def same_place_def)

lemma ready_same: "same_place s s' \<Longrightarrow> ready n s' = ready n s"
  by (simp add: same_place_def ready_def flat_def)

lemma parsesD:
  assumes "parses n merge m bs m'" "ready n s" "is_buffer s = bs"
  obtains s' where "merge m s = Some (True, m', s')" "ended s s'"
  using assms by (auto simp: parses_def)

lemma ReadTag_end:
  assumes "reads_ok rt" "ready n s" "is_buffer s = []"
  shows "ReadTag rt s = (0, s \<lparr> is_legitimate_message_end := True, is_last_tag := 0 \<rparr>)"
  using assms by (simp add: ReadTag_def BufferSize_def reads_ok_def ready_def)

lemma ReadTag_byte:
  assumes "t < 128" "is_buffer s = t # xs"
  shows "ReadTag rt s = (uint t, s \<lparr> is_buffer := xs, is_last_tag := uint t \<rparr>)"
  using assms by (simp add: ReadTag_def BufferSize_def Advance_def)

lemma merge_loop_end:
  assumes "reads_ok rt"
  shows "parses n (merge_loop rt switch) m [] m"
  unfolding parses_def
proof (intro allI impI)
  fix s assume s: "ready n s" "is_buffer s = []"
  show "\<exists>s'. merge_loop rt switch m s = Some (True, m, s') \<and> ended s s'"
    using s by (subst merge_loop.simps)
      (simp add: ReadTag_end [OF assms s] ended_def same_place_def ConsumedEntireMessage_def)
qed

text \<open>A tag leads to the label of its case.\<close>

lemma stage_present:
  assumes t: "t < 128" "t \<noteq> 0" and sw: "\<And>m s. switch (uint t) m s = label m s"
    and p: "parses n (resume rt switch label) m xs m'"
  shows "stage n rt switch t label m (t # xs) m'"
proof -
  have "parses n (merge_loop rt switch) m (t # xs) m'"
    unfolding parses_def
  proof (intro allI impI)
    fix s assume s: "ready n s" "is_buffer s = t # xs"
    from t(2) have u: "uint t \<noteq> 0" by (simp add: uint_0_iff)
    let ?s = "s \<lparr> is_buffer := xs, is_last_tag := uint t \<rparr>"
    obtain s' where "resume rt switch label m ?s = Some (True, m', s')" "ended ?s s'"
      using parsesD [OF p, of ?s] s(1) by auto
    then have "merge_loop rt switch m s = Some (True, m', s')" "ended s s'"
      using u by (subst merge_loop.simps, simp_all add: ReadTag_byte [OF t(1) s(2)] sw resume_def)
    then show "\<exists>s'. merge_loop rt switch m s = Some (True, m', s') \<and> ended s s'" by blast
  qed
  with p show ?thesis by (simp add: stage_def)
qed

lemma stage_absent:
  assumes "stage n rt switch t' label' m bs m'" and "bs = [] \<or> hd bs \<noteq> t"
  shows "stage n rt switch t label m bs m'"
  using assms by (auto simp: stage_def)

lemma parses_resume_break:
  assumes "\<And>s. ready n s \<Longrightarrow> is_buffer s = bs \<Longrightarrow> label m s = Some (CBreak, m', s)"
    and "parses n (merge_loop rt switch) m' bs m''"
  shows "parses n (resume rt switch label) m bs m''"
  unfolding parses_def
proof (intro allI impI)
  fix s assume s: "ready n s" "is_buffer s = bs"
  from parsesD [OF assms(2) s] show "\<exists>s'. resume rt switch label m s = Some (True, m'', s') \<and> ended s s'"
    by (simp add: resume_def assms(1) [OF s]) blast
qed

lemma parses_expect_tag:
  assumes t: "t < 128" and st: "stage n rt switch t label m bs m'"
  shows "parses n (resume rt switch (expect_tag (uint t) label)) m bs m'"
proof (cases "\<exists>xs. bs = t # xs")
  case True
  then obtain xs where bs: "bs = t # xs" by blast
  from st have p: "parses n (resume rt switch label) m xs m'" by (simp add: stage_def bs)
  have u: "uint t < 128" using t by (simp add: word_less_def)
  show ?thesis
    unfolding parses_def
  proof (intro allI impI)
    fix s assume s: "ready n s" "is_buffer s = bs"
    have "resume rt switch (expect_tag (uint t) label) m s = resume rt switch label m (s \<lparr> is_buffer := xs \<rparr>)"
      using s(2) u by (simp add: resume_def expect_tag_def ExpectTag_def BufferSize_def Advance_def bs)
    with parsesD [OF p, of "s \<lparr> is_buffer := xs \<rparr>"] s(1)
    show "\<exists>s'. resume rt switch (expect_tag (uint t) label) m s = Some (True, m', s') \<and> ended s s'" by auto
  qed
next
  case False
  have u: "uint t < 128" using t by (simp add: word_less_def)
  have "expect_tag (uint t) label m s = Some (CBreak, m, s)" if "is_buffer s = bs" for s
    using False that u by (cases bs) (auto simp: expect_tag_def ExpectTag_def BufferSize_def Advance_def simp flip: word_uint_eq_iff)
  moreover have "parses n (merge_loop rt switch) m bs m'" using st by (simp add: stage_def)
  ultimately show ?thesis by (blast intro: parses_resume_break)
qed

lemma parses_expect_end:
  assumes "reads_ok rt"
  shows "parses n (resume rt switch expect_end) m [] m"
  by (auto simp: parses_def resume_def expect_end_def ExpectAtEnd_def BufferSize_def ready_def flat_def ended_def
      same_place_def ConsumedEntireMessage_def)

lemma parses_read_field:
  assumes rd: "\<And>s. is_buffer s = enc @ xs \<Longrightarrow> rd s = (True, v, s \<lparr> is_buffer := xs \<rparr>)"
    and p: "parses n (resume rt switch next) (put v m) xs m'"
  shows "parses n (resume rt switch (read_field rd put next)) m (enc @ xs) m'"
  unfolding parses_def
proof (intro allI impI)
  fix s assume s: "ready n s" "is_buffer s = enc @ xs"
  have "resume rt switch (read_field rd put next) m s = resume rt switch next (put v m) (s \<lparr> is_buffer := xs \<rparr>)"
    by (simp add: resume_def read_field_def rd [OF s(2)])
  with parsesD [OF p, of "s \<lparr> is_buffer := xs \<rparr>"] s(1)
  show "\<exists>s'. resume rt switch (read_field rd put next) m s = Some (True, m', s') \<and> ended s s'" by auto
qed

text \<open>An embedded message between its length and the rest.\<close>

lemma PopLimit_ok:
  assumes "limits_ok rt" "flat s" "is_buffer s = []" "is_after_limit s = ys @ zs"
    and "lim = is_current_limit s + int (length ys)"
  shows "\<exists>e. rt_PopLimit rt lim s = s \<lparr> is_buffer := ys, is_after_limit := zs, is_current_limit := lim,
    is_legitimate_message_end := e \<rparr>"
  using assms by (simp add: limits_ok_def)

lemma ReadMessage_parses:
  assumes ok: "reads_ok rt" "limits_ok rt" and p: "parses n merge c enc c'" and len: "length enc < 2 ^ 31"
    and s: "ready (Suc n) s" "is_buffer s = varint (length enc) @ enc @ xs"
  shows "\<exists>s'. ReadMessageNoVirtual rt merge c s = Some (True, c', s') \<and> same_place s s' \<and> is_buffer s' = xs"
proof -
  let ?s1 = "s \<lparr> is_buffer := enc @ xs, is_recursion_depth := is_recursion_depth s + 1 \<rparr>"
  let ?s2 = "?s1 \<lparr> is_buffer := enc, is_after_limit := xs @ is_after_limit s,
     is_current_limit := is_current_limit s - int (length xs) \<rparr>"
  have n: "int (length enc) < 2147483648" using len by simp
  then have r: "ReadVarint32 rt s = (True, int (length enc), s \<lparr> is_buffer := enc @ xs \<rparr>)"
    using ReadVarint_varint(1) [OF ok(1) _ s(2)] len by (simp add: u32_id)
  have d: "IncrementRecursionDepth (s \<lparr> is_buffer := enc @ xs \<rparr>) = (True, ?s1)"
    using s(1) by (simp add: IncrementRecursionDepth_def Let_def ready_def s32_id)
  have l: "rt_PushLimit rt (s32 (int (length enc))) ?s1 = (is_current_limit s, ?s2)"
    using ok(2) s(1) n by (simp add: limits_ok_def ready_def flat_def s32_id)
  have "ready n ?s2" using s(1) by (simp add: ready_def flat_def)
  from parsesD [OF p this] obtain s3 where s3: "merge c ?s2 = Some (True, c', s3)" "ended ?s2 s3" by auto
  have "flat s3" using s3(2) s(1) by (simp add: ended_def same_place_def ready_def flat_def)
  then obtain e where "rt_PopLimit rt (is_current_limit s) s3 = s3 \<lparr> is_buffer := xs,
      is_after_limit := is_after_limit s, is_current_limit := is_current_limit s, is_legitimate_message_end := e \<rparr>"
    using PopLimit_ok [OF ok(2), of s3 xs "is_after_limit s" "is_current_limit s"] s3(2)
    by (auto simp: ended_def same_place_def)
  moreover have "0 \<le> is_recursion_depth s" using s(1) by (simp add: ready_def)
  ultimately show ?thesis using s3
    by (simp add: ReadMessageNoVirtual_def r d l ended_def same_place_def DecrementRecursionDepth_def)
qed

lemma parses_read_msg:
  assumes ok: "reads_ok rt" "limits_ok rt" and c: "parses n merge (get m) enc c" and len: "length enc < 2 ^ 31"
    and p: "parses (Suc n) (resume rt switch next) (put c m) xs m'"
  shows "parses (Suc n) (resume rt switch (read_msg rt merge get put next)) m (varint (length enc) @ enc @ xs) m'"
  unfolding parses_def
proof (intro allI impI)
  fix s assume s: "ready (Suc n) s" "is_buffer s = varint (length enc) @ enc @ xs"
  from ReadMessage_parses [OF ok c len s] obtain s1 where
    s1: "ReadMessageNoVirtual rt merge (get m) s = Some (True, c, s1)" "same_place s s1" "is_buffer s1 = xs" by blast
  have "resume rt switch (read_msg rt merge get put next) m s = resume rt switch next (put c m) s1"
    by (simp add: resume_def read_msg_def s1)
  moreover from s1(2) s(1) have "ready (Suc n) s1" by (simp add: ready_same)
  moreover from s1(2) have "ended s1 s' \<Longrightarrow> ended s s'" for s' by (simp add: ended_def same_place_def)
  ultimately show "\<exists>s'. resume rt switch (read_msg rt merge get put next) m s = Some (True, m', s') \<and> ended s s'"
    using parsesD [OF p _ s1(3)] by metis
qed

section \<open>Presence bits\<close>

lemma has_bit_iff [simp]: "has_bit k m \<longleftrightarrow> bit (has_bits m) k"
  by (simp add: has_bit_def bit_iff_and_push_bit_not_eq_0)

lemma any_bitI: "k < 8 \<Longrightarrow> bit (has_bits m) k \<Longrightarrow> any_bit m"
proof -
  assume k: "k < 8" "bit (has_bits m) k"
  have "(255 :: 32 word) = mask 8" by (simp add: mask_eq_exp_minus_1)
  moreover have "bit (has_bits m AND mask 8) k" using k by (simp only: bit_and_iff bit_mask_iff) simp
  ultimately show ?thesis by (auto simp: any_bit_def)
qed

lemma has_bits_set [simp]: "has_bits (set_has_bit k m) = has_bits m OR push_bit k 1"
  "unknown_fields (set_has_bit k m) = unknown_fields m" "cached_size (set_has_bit k m) = cached_size m"
  by (simp_all add: set_has_bit_def)

lemma bit_set_32: "bit (w OR push_bit j 1 :: 32 word) k \<longleftrightarrow> bit w k \<or> k = j \<and> k < 32"
  by (simp only: bit_or_iff bit_push_bit_iff bit_1_iff) auto

section \<open>The bytes of a field\<close>

definition enc_uint :: "int \<Rightarrow> byte list" where "enc_uint v = varint (nat v)"
definition enc_int32 :: "int \<Rightarrow> byte list" where "enc_int32 v = varint (nat (u64 v))"
definition enc_fixed32 :: "int \<Rightarrow> byte list" where "enc_fixed32 v = rev (htonl_bytes v)"
definition enc_bytes :: "byte list \<Rightarrow> byte list" where "enc_bytes xs = varint (length xs) @ xs"

abbreviation fits_u32 :: "int \<Rightarrow> bool" where "fits_u32 v \<equiv> 0 \<le> v \<and> v < 4294967296"

lemma length_enc_fixed32 [simp]: "length (enc_fixed32 v) = 4"
  by (simp add: enc_fixed32_def)

lemma runtime_okD: "runtime_ok rt \<Longrightarrow> writes_ok rt" "runtime_ok rt \<Longrightarrow> reads_ok rt" "runtime_ok rt \<Longrightarrow> limits_ok rt"
  by (simp_all add: runtime_ok_def)

lemma tag_bytes:
  assumes "k \<in> {1, 2, 3, 4, 5, 6}" "ty \<in> {0, 2, 5}"
  shows "WriteTagToArray rt (MakeTag k ty) t = t @ [word_of_int (8 * k + ty)]"
  using assms by (auto simp: WriteTagToArray_def MakeTag_def u32_def)

text \<open>Each writer appends a tag and an encoding, each reader takes the encoding off, each size is its length.\<close>

lemma write_fields:
  assumes w: "writes_ok rt" and k: "k \<in> {1, 2, 3, 4, 5, 6}"
  shows "fits_u32 v \<Longrightarrow> WriteUInt32ToArray rt k v t = t @ word_of_int (8 * k) # enc_uint v"
    and "fits_u32 v \<Longrightarrow> WriteFixed32ToArray rt k v t = t @ word_of_int (8 * k + 5) # enc_fixed32 v"
    and "0 \<le> v \<Longrightarrow> v < 18446744073709551616 \<Longrightarrow> WriteUInt64ToArray rt k v t = t @ word_of_int (8 * k) # enc_uint v"
    and "- 2147483648 \<le> v \<Longrightarrow> v < 2147483648 \<Longrightarrow> WriteInt32ToArray rt k v t = t @ word_of_int (8 * k) # enc_int32 v"
    and "length xs < 2 ^ 31 \<Longrightarrow> WriteFieldStringToArray rt k xs t = t @ word_of_int (8 * k + 2) # enc_bytes xs"
    and "length xs < 2 ^ 31 \<Longrightarrow> WriteFieldBytesToArray rt k xs t = t @ word_of_int (8 * k + 2) # enc_bytes xs"
proof -
  note tb = tag_bytes [OF k, of 0 rt] tag_bytes [OF k, of 2 rt] tag_bytes [OF k, of 5 rt]
  have raw: "rt_WriteRawToArray rt ys t = t @ ys" for ys t using w by (simp add: writes_ok_def)
  show "fits_u32 v \<Longrightarrow> WriteUInt32ToArray rt k v t = t @ word_of_int (8 * k) # enc_uint v"
    by (simp add: WriteUInt32ToArray_def WIRETYPE_VARINT_def tb WriteVarint32_varint [OF w] enc_uint_def)
  show "fits_u32 v \<Longrightarrow> WriteFixed32ToArray rt k v t = t @ word_of_int (8 * k + 5) # enc_fixed32 v"
    by (simp add: WriteFixed32ToArray_def WIRETYPE_FIXED32_def tb WriteLittleEndian32ToArray_def enc_fixed32_def)
  show "WriteUInt64ToArray rt k v t = t @ word_of_int (8 * k) # enc_uint v"
    if "0 \<le> v" "v < 18446744073709551616"
    using w that by (simp add: WriteUInt64ToArray_def WIRETYPE_VARINT_def tb writes_ok_def enc_uint_def)
  show "WriteInt32ToArray rt k v t = t @ word_of_int (8 * k) # enc_int32 v"
    if v: "- 2147483648 \<le> v" "v < 2147483648"
  proof (cases "v < 0")
    case True
    have "0 \<le> u64 v" "u64 v < 2 ^ 64" by (simp_all add: u64_def)
    then have "rt_WriteVarint64ToArray rt (u64 v) t = t @ varint (nat (u64 v))" for t
      using w by (simp add: writes_ok_def)
    with True show ?thesis
      by (simp add: WriteInt32ToArray_def WriteVarint32SignExtendedToArray_def WIRETYPE_VARINT_def tb enc_int32_def)
  next
    case False
    with v have "u64 v = v" "u32 v = v" by (simp_all add: u64_id u32_id)
    with False v show ?thesis
      by (simp add: WriteInt32ToArray_def WriteVarint32SignExtendedToArray_def WIRETYPE_VARINT_def tb enc_int32_def
          WriteVarint32_varint [OF w])
  qed
  show "WriteFieldStringToArray rt k xs t = t @ word_of_int (8 * k + 2) # enc_bytes xs"
    "WriteFieldBytesToArray rt k xs t = t @ word_of_int (8 * k + 2) # enc_bytes xs" if "length xs < 2 ^ 31"
    using that by (simp_all add: WriteFieldStringToArray_def WriteFieldBytesToArray_def WIRETYPE_LENGTH_DELIMITED_def tb
        WriteStringToArray_def raw WriteVarint32_varint [OF w] u32_id enc_bytes_def Let_def)
qed

lemma u64_negative: "v < 0 \<Longrightarrow> - 18446744073709551616 \<le> v \<Longrightarrow> u64 v = v + 18446744073709551616"
  using mod_add_self2 [of v "18446744073709551616 :: int"] unfolding u64_def
  by (simp only: mod_pos_pos_trivial)

lemma size_fields:
  assumes w: "writes_ok rt"
  shows "fits_u32 v \<Longrightarrow> UInt32Size rt v = int (length (enc_uint v))"
    and "0 \<le> v \<Longrightarrow> v < 18446744073709551616 \<Longrightarrow> UInt64Size rt v = int (length (enc_uint v))"
    and "- 2147483648 \<le> v \<Longrightarrow> v < 2147483648 \<Longrightarrow> Int32Size rt v = int (length (enc_int32 v))"
    and "length (enc_bytes xs) < 2 ^ 31 \<Longrightarrow> StringSize rt xs = int (length (enc_bytes xs))"
    and "length (enc_bytes xs) < 2 ^ 31 \<Longrightarrow> BytesSize rt xs = int (length (enc_bytes xs))"
    and "length (enc_bytes xs) < 2 ^ 31 \<Longrightarrow> LengthDelimitedSize rt (int (length xs)) = int (length (enc_bytes xs))"
proof -
  show "fits_u32 v \<Longrightarrow> UInt32Size rt v = int (length (enc_uint v))"
    by (simp add: UInt32Size_def VarintSize32_varint [OF w] enc_uint_def)
  show "0 \<le> v \<Longrightarrow> v < 18446744073709551616 \<Longrightarrow> UInt64Size rt v = int (length (enc_uint v))"
    using w by (simp add: UInt64Size_def writes_ok_def enc_uint_def)
  show "Int32Size rt v = int (length (enc_int32 v))" if v: "- 2147483648 \<le> v" "v < 2147483648"
  proof (cases "v < 0")
    case True
    have "u64 v = v + 18446744073709551616" using True v by (intro u64_negative) simp_all
    with v True have "length (varint (nat (u64 v))) = 10" by (intro length_varint_sign) (simp_all add: nat_le_iff le_nat_iff nat_less_iff)
    with True show ?thesis by (simp add: Int32Size_def VarintSize32SignExtended_def enc_int32_def)
  next
    case False
    with v have "u64 v = v" "u32 v = v" by (simp_all add: u64_id u32_id)
    with False v show ?thesis
      by (simp add: Int32Size_def VarintSize32SignExtended_def enc_int32_def VarintSize32_varint [OF w])
  qed
  show "StringSize rt xs = int (length (enc_bytes xs))" "BytesSize rt xs = int (length (enc_bytes xs))"
    "LengthDelimitedSize rt (int (length xs)) = int (length (enc_bytes xs))" if l: "length (enc_bytes xs) < 2 ^ 31"
  proof -
    from l have "length xs < 2 ^ 31" by (simp add: enc_bytes_def)
    then have "VarintSize32 rt (u32 (int (length xs))) = int (length (varint (length xs)))"
      by (simp add: u32_id VarintSize32_varint [OF w])
    with l show "StringSize rt xs = int (length (enc_bytes xs))" "BytesSize rt xs = int (length (enc_bytes xs))"
      "LengthDelimitedSize rt (int (length xs)) = int (length (enc_bytes xs))"
      by (simp_all add: StringSize_def BytesSize_def LengthDelimitedSize_def enc_bytes_def s32_id)
  qed
qed

lemma read_fields:
  assumes r: "reads_ok rt"
  shows "fits_u32 v \<Longrightarrow> is_buffer s = enc_uint v @ xs \<Longrightarrow> ReadPrimitive_UINT32 rt s = (True, v, s \<lparr> is_buffer := xs \<rparr>)"
    and "0 \<le> v \<Longrightarrow> v < 18446744073709551616 \<Longrightarrow> is_buffer s = enc_uint v @ xs \<Longrightarrow>
      ReadPrimitive_UINT64 rt s = (True, v, s \<lparr> is_buffer := xs \<rparr>)"
    and "- 2147483648 \<le> v \<Longrightarrow> v < 2147483648 \<Longrightarrow> is_buffer s = enc_int32 v @ xs \<Longrightarrow>
      ReadPrimitive_INT32 rt s = (True, v, s \<lparr> is_buffer := xs \<rparr>)"
    and "fits_u32 v \<Longrightarrow> is_buffer s = enc_fixed32 v @ xs \<Longrightarrow> ReadPrimitive_FIXED32 rt s = (True, v, s \<lparr> is_buffer := xs \<rparr>)"
    and "length ys < 2 ^ 31 \<Longrightarrow> is_buffer s = enc_bytes ys @ xs \<Longrightarrow> rt_ReadString rt s = (True, ys, s \<lparr> is_buffer := xs \<rparr>)"
    and "length ys < 2 ^ 31 \<Longrightarrow> is_buffer s = enc_bytes ys @ xs \<Longrightarrow> rt_ReadBytes rt s = (True, ys, s \<lparr> is_buffer := xs \<rparr>)"
proof -
  show "fits_u32 v \<Longrightarrow> is_buffer s = enc_uint v @ xs \<Longrightarrow> ReadPrimitive_UINT32 rt s = (True, v, s \<lparr> is_buffer := xs \<rparr>)"
    using ReadVarint_varint(1) [OF r, of "nat v" s xs] by (simp add: ReadPrimitive_UINT32_def enc_uint_def u32_id nat_less_iff)
  show "0 \<le> v \<Longrightarrow> v < 18446744073709551616 \<Longrightarrow> is_buffer s = enc_uint v @ xs \<Longrightarrow>
      ReadPrimitive_UINT64 rt s = (True, v, s \<lparr> is_buffer := xs \<rparr>)"
    using ReadVarint_varint(2) [OF r, of "nat v" s xs] by (simp add: ReadPrimitive_UINT64_def enc_uint_def nat_less_iff)
  show "ReadPrimitive_INT32 rt s = (True, v, s \<lparr> is_buffer := xs \<rparr>)"
    if v: "- 2147483648 \<le> v" "v < 2147483648" and b: "is_buffer s = enc_int32 v @ xs"
  proof -
    have u: "0 \<le> u64 v" "u64 v < 18446744073709551616" by (simp_all add: u64_def)
    have "s32 (u32 (u64 v)) = s32 v" unfolding s32_def u32_def u64_def
      by (simp add: mod_simps mod_mod_cancel)
    with v have "s32 (u32 (u64 v)) = v" by (simp add: s32_id)
    then show ?thesis using ReadVarint_varint(1) [OF r, of "nat (u64 v)" s xs] u b
      by (simp add: ReadPrimitive_INT32_def enc_int32_def nat_less_iff)
  qed
  show "ReadPrimitive_FIXED32 rt s = (True, v, s \<lparr> is_buffer := xs \<rparr>)"
    if "fits_u32 v" "is_buffer s = enc_fixed32 v @ xs"
    using that by (simp add: ReadPrimitive_FIXED32_def ReadLittleEndian32_def BufferSize_def Advance_def enc_fixed32_def
        ntohl_htonl)
  show "rt_ReadString rt s = (True, ys, s \<lparr> is_buffer := xs \<rparr>)" "rt_ReadBytes rt s = (True, ys, s \<lparr> is_buffer := xs \<rparr>)"
    if "length ys < 2 ^ 31" "is_buffer s = enc_bytes ys @ xs"
    using r that by (simp_all add: reads_ok_def enc_bytes_def)
qed

section \<open>The contract of a message class\<close>

text \<open>
  \<open>build\<close> makes the object of a value by the setters, \<open>enc\<close> is the bytes of the value. An object
  serialises to them, has their number as its size, and is parsed back from them.
\<close>

locale wire_class =
  fixes new :: "'u runtime \<Rightarrow> ('u, 'z) Message_scheme"
    and build :: "'u runtime \<Rightarrow> 'a \<Rightarrow> ('u, 'z) Message_scheme"
    and fits :: "'a \<Rightarrow> bool"
    and enc :: "'a \<Rightarrow> byte list"
    and ser :: "'u runtime \<Rightarrow> ('u, 'z) Message_scheme \<Rightarrow> byte list \<Rightarrow> byte list"
    and bytesize :: "'u runtime \<Rightarrow> ('u, 'z) Message_scheme \<Rightarrow> int \<times> ('u, 'z) Message_scheme"
    and merge :: "'u runtime \<Rightarrow> ('u, 'z) Message_scheme \<Rightarrow> CodedInputStream \<Rightarrow>
      (bool \<times> ('u, 'z) Message_scheme \<times> CodedInputStream) option"
    and isinit :: "('u, 'z) Message_scheme \<Rightarrow> bool"
  assumes ser_enc: "runtime_ok rt \<Longrightarrow> fits a \<Longrightarrow> length (enc a) < 2 ^ 31 \<Longrightarrow>
      ser rt (build rt a \<lparr> cached_size := c \<rparr>) t = t @ enc a"
    and size_enc: "runtime_ok rt \<Longrightarrow> fits a \<Longrightarrow> length (enc a) < 2 ^ 31 \<Longrightarrow>
      bytesize rt (build rt a) = (int (length (enc a)), build rt a \<lparr> cached_size := int (length (enc a)) \<rparr>)"
    and merge_enc: "runtime_ok rt \<Longrightarrow> fits a \<Longrightarrow> length (enc a) < 2 ^ 31 \<Longrightarrow>
      parses n (merge rt) (new rt) (enc a) (build rt a)"
    and isinit_build: "isinit (build rt a)"
begin

lemma write_msg_enc:
  assumes "runtime_ok rt" "fits a" "length (enc a) < 2 ^ 31" "k \<in> {1, 2, 3, 4, 5, 6}"
  shows "write_msg rt k (ser rt) (snd (bytesize rt (build rt a))) t = t @ word_of_int (8 * k + 2) # enc_bytes (enc a)"
  using assms(3) ser_enc [OF assms(1,2,3)] tag_bytes [OF assms(4), of 2 rt] WriteVarint32_varint [OF runtime_okD(1) [OF assms(1)]]
  by (simp add: write_msg_def WriteMessageNoVirtualToArray_def size_enc [OF assms(1,2,3)] WIRETYPE_LENGTH_DELIMITED_def
      Let_def u32_id enc_bytes_def)

lemma msg_size_enc:
  assumes "runtime_ok rt" "fits a" "length (enc_bytes (enc a)) < 2 ^ 31"
  shows "msg_size rt (bytesize rt) (build rt a) = int (length (enc_bytes (enc a)))"
proof -
  have "length (enc a) < 2 ^ 31" using assms(3) by (simp add: enc_bytes_def)
  then show ?thesis using size_fields(6) [OF runtime_okD(1) [OF assms(1)] assms(3)]
    by (simp add: msg_size_def size_enc [OF assms(1,2)])
qed

lemma read_msg_enc:
  assumes "runtime_ok rt" "fits a" "length (enc a) < 2 ^ 31" "get m = new rt"
    and "parses (Suc n) (resume rt switch next) (put (build rt a) m) xs m'"
  shows "parses (Suc n) (resume rt switch (read_msg rt (merge rt) get put next)) m (enc_bytes (enc a) @ xs) m'"
  using parses_read_msg [OF runtime_okD(2,3) [OF assms(1)], of n "merge rt" get m "enc a" "build rt a" switch "next" put xs m']
    merge_enc [OF assms(1-3)] assms(3-5) by (simp add: enc_bytes_def)

end

end
