(* ===== verification/ConnsvrWire.thy ===== *)
theory ConnsvrWire
  imports WireParse ConnMsg
begin

text \<open>
  The generated classes write the protocol buffer encoding of their values and read it back. Every
  class of an embedded message is an interpretation of \<open>wire_class\<close>; the message of the connection server
  is put together from their lemmas. \<open>generated_pb\<close> relates the generated code to the parameter of the
  framing in \<open>PbParser\<close>, and its assumption \<open>pb_ok\<close> becomes a lemma.
\<close>

text \<open>The three positions of a field: the first, the ones that are followed by another and the last.\<close>

lemma parses_first:
  assumes "uint t = k" "0 < k" "k < 128" "\<And>m s. switch k m s = label m s"
    and "parses n (resume rt switch label) m xs m'"
  shows "parses n (merge_loop rt switch) m (t # xs) m'"
proof -
  have "t < 128" "t \<noteq> 0" using assms(1-3) by (auto simp: word_less_def)
  with stage_present [of t switch label n rt m xs m'] assms show ?thesis by (simp add: stage_def)
qed

lemma parses_next:
  assumes rd: "\<And>s. is_buffer s = enc @ t # xs \<Longrightarrow> rd s = (True, v, s \<lparr> is_buffer := t # xs \<rparr>)"
    and t: "uint t = k" "0 < k" "k < 128" and sw: "\<And>m s. switch k m s = label m s"
    and m1: "put v m = m1" and p: "parses n (resume rt switch label) m1 xs m'"
  shows "parses n (resume rt switch (read_field rd put (expect_tag k label))) m (enc @ t # xs) m'"
proof -
  have u: "t < 128" "t \<noteq> 0" using t by (auto simp: word_less_def)
  have "stage n rt switch t label (put v m) (t # xs) m'" using u t sw p m1 by (intro stage_present) auto
  from parses_expect_tag [OF u(1) this] show ?thesis using rd t by (intro parses_read_field) auto
qed

lemma parses_last:
  assumes "reads_ok rt" "\<And>s. is_buffer s = enc @ [] \<Longrightarrow> rd s = (True, v, s \<lparr> is_buffer := [] \<rparr>)" "put v m = m'"
  shows "parses n (resume rt switch (read_field rd put expect_end)) m enc m'"
  using parses_read_field [of enc "[]" rd, OF assms(2) parses_expect_end [OF assms(1), of n switch]] unfolding assms(3) [symmetric] by simp

lemmas tag_simps = GetTagFieldNumber_def GetTagWireType_def wiretypes s32_def

section \<open>The classes of the parts of a message\<close>

text \<open>A character string and its bytes.\<close>

definition ip_bytes :: "string \<Rightarrow> byte list" where
  "ip_bytes s = map (\<lambda>c. of_nat (of_char c)) s"

definition ip_string :: "byte list \<Rightarrow> string" where
  "ip_string bs = map (\<lambda>b. char_of (unat b)) bs"

lemma ip_string_bytes [simp]: "ip_string (ip_bytes s) = s"
proof -
  have "(of_char c :: nat) < 256" for c by (metis char_of_char nat_of_char_less_256)
  then have "char_of (unat (of_nat (of_char c) :: byte)) = c" for c by (simp add: unat_of_nat)
  then show ?thesis by (simp add: ip_string_def ip_bytes_def map_idI comp_def)
qed

lemma write_unknown_new [simp]:
  assumes "writes_ok rt" "unknown_fields m = rt_unknown_new rt"
  shows "write_unknown rt m t = t" "unknown_size rt m n = n"
  using assms by (simp_all add: write_unknown_def unknown_size_def add_if_def writes_ok_def)

lemma parses_prep: "parses n (resume rt sw label) (f m) bs m' \<Longrightarrow> parses n (resume rt sw (\<lambda>m. label (f m))) m bs m'"
  by (simp add: parses_def resume_def)

definition StartReq_build :: "'u runtime \<Rightarrow> StartReq \<Rightarrow> 'u StartReq_pb" where
  "StartReq_build rt r = StartReq_set_channelcnt (channelcnt r) (StartReq_set_currentconn (currentconn r) (StartReq_new rt))"

definition StartReq_fits :: "StartReq \<Rightarrow> bool" where
  "StartReq_fits r \<longleftrightarrow> fits_u32 (currentconn r) \<and> fits_u32 (channelcnt r)"

definition StartReq_enc :: "StartReq \<Rightarrow> byte list" where
  "StartReq_enc r = 8 # enc_uint (currentconn r) @ 16 # enc_uint (channelcnt r)"

lemmas StartReq_set_defs = StartReq_set_currentconn_def StartReq_set_channelcnt_def

lemma StartReq_build_fields [simp]:
  "has_bits (StartReq_build rt r) = 3" "unknown_fields (StartReq_build rt r) = rt_unknown_new rt"
  "sreq_currentconn (StartReq_build rt r) = currentconn r"
  "sreq_channelcnt (StartReq_build rt r) = channelcnt r"
  by (simp_all add: StartReq_build_def StartReq_set_defs StartReq_new_def set_has_bit_def)

lemma StartReq_ser_enc:
  assumes "runtime_ok rt" "StartReq_fits r"
  shows "StartReq_SerializeWithCachedSizesToArray rt (StartReq_build rt r \<lparr> cached_size := c \<rparr>) t = t @ StartReq_enc r"
  using assms(2) by (simp add: StartReq_SerializeWithCachedSizesToArray_def StartReq_fits_def StartReq_enc_def
      runtime_okD [OF assms(1)] write_fields)

lemma StartReq_size_enc:
  assumes "runtime_ok rt" "StartReq_fits r" "length (StartReq_enc r) < 2 ^ 31"
  shows "StartReq_ByteSize rt (StartReq_build rt r) = (int (length (StartReq_enc r)),
    StartReq_build rt r \<lparr> cached_size := int (length (StartReq_enc r)) \<rparr>)"
  using assms(2,3) any_bitI [of 0 "StartReq_build rt r"]
  by (simp add: StartReq_ByteSize_def StartReq_fits_def StartReq_enc_def runtime_okD [OF assms(1)] size_fields add_if_def s32_id Let_def)

lemma StartReq_switch_tags:
  "StartReq_switch rt 8 m s = StartReq_parse_currentconn rt m s" "StartReq_switch rt 16 m s = StartReq_parse_channelcnt rt m s"
  by (simp_all add: StartReq_switch_def tag_simps)

lemma StartReq_merge_enc:
  assumes ok: "runtime_ok rt" and f: "StartReq_fits r"
  shows "parses n (StartReq_MergePartialFromCodedStream rt) (StartReq_new rt) (StartReq_enc r) (StartReq_build rt r)"
proof -
  note rd = read_fields [OF runtime_okD(2) [OF ok]]
  have p1: "parses n (resume rt (StartReq_switch rt) (StartReq_parse_channelcnt rt)) (StartReq_set_currentconn (currentconn r) (StartReq_new rt)) (enc_uint (channelcnt r)) (StartReq_build rt r)"
    unfolding StartReq_parse_channelcnt_def
    by (rule parses_last [OF runtime_okD(2) [OF ok] rd(1)])
      (use f in \<open>simp_all add: StartReq_fits_def StartReq_build_def StartReq_set_defs StartReq_new_def set_has_bit_def\<close>)
  have p0: "parses n (resume rt (StartReq_switch rt) (StartReq_parse_currentconn rt)) (StartReq_new rt) (enc_uint (currentconn r) @ 16 # enc_uint (channelcnt r)) (StartReq_build rt r)"
    unfolding StartReq_parse_currentconn_def
    by (rule parses_next [OF rd(1) _ _ _ StartReq_switch_tags(2) _ p1])
      (use f in \<open>simp_all add: StartReq_fits_def StartReq_build_def StartReq_set_defs StartReq_new_def set_has_bit_def\<close>)
  show ?thesis unfolding StartReq_MergePartialFromCodedStream_def StartReq_enc_def
    by (rule parses_first [OF _ _ _ StartReq_switch_tags(1) p0]) simp_all
qed

interpretation startReq_class: wire_class StartReq_new StartReq_build StartReq_fits StartReq_enc StartReq_SerializeWithCachedSizesToArray
    StartReq_ByteSize StartReq_MergePartialFromCodedStream StartReq_IsInitialized
  by unfold_locales (simp_all add: StartReq_ser_enc StartReq_size_enc StartReq_merge_enc StartReq_IsInitialized_def)

definition StartRsp_build :: "'u runtime \<Rightarrow> StartRsp \<Rightarrow> 'u StartRsp_pb" where
  "StartRsp_build rt r = StartRsp_set_routechannel (routechannel r) (StartRsp_set_accept (accept r) (StartRsp_new rt))"

definition StartRsp_fits :: "StartRsp \<Rightarrow> bool" where
  "StartRsp_fits r \<longleftrightarrow> - 2147483648 \<le> (accept r) \<and> (accept r) < 2147483648 \<and> fits_u32 (routechannel r)"

definition StartRsp_enc :: "StartRsp \<Rightarrow> byte list" where
  "StartRsp_enc r = 8 # enc_int32 (accept r) @ 16 # enc_uint (routechannel r)"

lemmas StartRsp_set_defs = StartRsp_set_accept_def StartRsp_set_routechannel_def

lemma StartRsp_build_fields [simp]:
  "has_bits (StartRsp_build rt r) = 3" "unknown_fields (StartRsp_build rt r) = rt_unknown_new rt"
  "srsp_accept (StartRsp_build rt r) = accept r"
  "srsp_routechannel (StartRsp_build rt r) = routechannel r"
  by (simp_all add: StartRsp_build_def StartRsp_set_defs StartRsp_new_def set_has_bit_def)

lemma StartRsp_ser_enc:
  assumes "runtime_ok rt" "StartRsp_fits r"
  shows "StartRsp_SerializeWithCachedSizesToArray rt (StartRsp_build rt r \<lparr> cached_size := c \<rparr>) t = t @ StartRsp_enc r"
  using assms(2) by (simp add: StartRsp_SerializeWithCachedSizesToArray_def StartRsp_fits_def StartRsp_enc_def
      runtime_okD [OF assms(1)] write_fields)

lemma StartRsp_size_enc:
  assumes "runtime_ok rt" "StartRsp_fits r" "length (StartRsp_enc r) < 2 ^ 31"
  shows "StartRsp_ByteSize rt (StartRsp_build rt r) = (int (length (StartRsp_enc r)),
    StartRsp_build rt r \<lparr> cached_size := int (length (StartRsp_enc r)) \<rparr>)"
  using assms(2,3) any_bitI [of 0 "StartRsp_build rt r"]
  by (simp add: StartRsp_ByteSize_def StartRsp_fits_def StartRsp_enc_def runtime_okD [OF assms(1)] size_fields add_if_def s32_id Let_def)

lemma StartRsp_switch_tags:
  "StartRsp_switch rt 8 m s = StartRsp_parse_accept rt m s" "StartRsp_switch rt 16 m s = StartRsp_parse_routechannel rt m s"
  by (simp_all add: StartRsp_switch_def tag_simps)

lemma StartRsp_merge_enc:
  assumes ok: "runtime_ok rt" and f: "StartRsp_fits r"
  shows "parses n (StartRsp_MergePartialFromCodedStream rt) (StartRsp_new rt) (StartRsp_enc r) (StartRsp_build rt r)"
proof -
  note rd = read_fields [OF runtime_okD(2) [OF ok]]
  have p1: "parses n (resume rt (StartRsp_switch rt) (StartRsp_parse_routechannel rt)) (StartRsp_set_accept (accept r) (StartRsp_new rt)) (enc_uint (routechannel r)) (StartRsp_build rt r)"
    unfolding StartRsp_parse_routechannel_def
    by (rule parses_last [OF runtime_okD(2) [OF ok] rd(1)])
      (use f in \<open>simp_all add: StartRsp_fits_def StartRsp_build_def StartRsp_set_defs StartRsp_new_def set_has_bit_def\<close>)
  have p0: "parses n (resume rt (StartRsp_switch rt) (StartRsp_parse_accept rt)) (StartRsp_new rt) (enc_int32 (accept r) @ 16 # enc_uint (routechannel r)) (StartRsp_build rt r)"
    unfolding StartRsp_parse_accept_def
    by (rule parses_next [OF rd(3) _ _ _ StartRsp_switch_tags(2) _ p1])
      (use f in \<open>simp_all add: StartRsp_fits_def StartRsp_build_def StartRsp_set_defs StartRsp_new_def set_has_bit_def\<close>)
  show ?thesis unfolding StartRsp_MergePartialFromCodedStream_def StartRsp_enc_def
    by (rule parses_first [OF _ _ _ StartRsp_switch_tags(1) p0]) simp_all
qed

interpretation startRsp_class: wire_class StartRsp_new StartRsp_build StartRsp_fits StartRsp_enc StartRsp_SerializeWithCachedSizesToArray
    StartRsp_ByteSize StartRsp_MergePartialFromCodedStream StartRsp_IsInitialized
  by unfold_locales (simp_all add: StartRsp_ser_enc StartRsp_size_enc StartRsp_merge_enc StartRsp_IsInitialized_def)

definition Stop_build :: "'u runtime \<Rightarrow> int \<Rightarrow> 'u Stop_pb" where
  "Stop_build rt r = Stop_set_timestamp r (Stop_new rt)"

definition Stop_fits :: "int \<Rightarrow> bool" where
  "Stop_fits r \<longleftrightarrow> 0 \<le> r \<and> r < 18446744073709551616"

definition Stop_enc :: "int \<Rightarrow> byte list" where
  "Stop_enc r = 8 # enc_uint r"

lemmas Stop_set_defs = Stop_set_timestamp_def

lemma Stop_build_fields [simp]:
  "has_bits (Stop_build rt r) = 1" "unknown_fields (Stop_build rt r) = rt_unknown_new rt"
  "stp_timestamp (Stop_build rt r) = r"
  by (simp_all add: Stop_build_def Stop_set_defs Stop_new_def set_has_bit_def)

lemma Stop_ser_enc:
  assumes "runtime_ok rt" "Stop_fits r"
  shows "Stop_SerializeWithCachedSizesToArray rt (Stop_build rt r \<lparr> cached_size := c \<rparr>) t = t @ Stop_enc r"
  using assms(2) by (simp add: Stop_SerializeWithCachedSizesToArray_def Stop_fits_def Stop_enc_def
      runtime_okD [OF assms(1)] write_fields)

lemma Stop_size_enc:
  assumes "runtime_ok rt" "Stop_fits r" "length (Stop_enc r) < 2 ^ 31"
  shows "Stop_ByteSize rt (Stop_build rt r) = (int (length (Stop_enc r)),
    Stop_build rt r \<lparr> cached_size := int (length (Stop_enc r)) \<rparr>)"
  using assms(2,3) any_bitI [of 0 "Stop_build rt r"]
  by (simp add: Stop_ByteSize_def Stop_fits_def Stop_enc_def runtime_okD [OF assms(1)] size_fields add_if_def s32_id Let_def)

lemma Stop_switch_tags:
  "Stop_switch rt 8 m s = Stop_parse_timestamp rt m s"
  by (simp_all add: Stop_switch_def tag_simps)

lemma Stop_merge_enc:
  assumes ok: "runtime_ok rt" and f: "Stop_fits r"
  shows "parses n (Stop_MergePartialFromCodedStream rt) (Stop_new rt) (Stop_enc r) (Stop_build rt r)"
proof -
  note rd = read_fields [OF runtime_okD(2) [OF ok]]
  have p0: "parses n (resume rt (Stop_switch rt) (Stop_parse_timestamp rt)) (Stop_new rt) (enc_uint r) (Stop_build rt r)"
    unfolding Stop_parse_timestamp_def
    by (rule parses_last [OF runtime_okD(2) [OF ok] rd(2)])
      (use f in \<open>simp_all add: Stop_fits_def Stop_build_def Stop_set_defs Stop_new_def set_has_bit_def\<close>)
  show ?thesis unfolding Stop_MergePartialFromCodedStream_def Stop_enc_def
    by (rule parses_first [OF _ _ _ Stop_switch_tags(1) p0]) simp_all
qed

interpretation stop_class: wire_class Stop_new Stop_build Stop_fits Stop_enc Stop_SerializeWithCachedSizesToArray
    Stop_ByteSize Stop_MergePartialFromCodedStream Stop_IsInitialized
  by unfold_locales (simp_all add: Stop_ser_enc Stop_size_enc Stop_merge_enc Stop_IsInitialized_def)

definition Route_build :: "'u runtime \<Rightarrow> int \<Rightarrow> 'u Route_pb" where
  "Route_build rt r = Route_set_routechannel r (Route_new rt)"

definition Route_fits :: "int \<Rightarrow> bool" where
  "Route_fits r \<longleftrightarrow> fits_u32 (r)"

definition Route_enc :: "int \<Rightarrow> byte list" where
  "Route_enc r = 8 # enc_uint r"

lemmas Route_set_defs = Route_set_routechannel_def

lemma Route_build_fields [simp]:
  "has_bits (Route_build rt r) = 1" "unknown_fields (Route_build rt r) = rt_unknown_new rt"
  "rte_routechannel (Route_build rt r) = r"
  by (simp_all add: Route_build_def Route_set_defs Route_new_def set_has_bit_def)

lemma Route_ser_enc:
  assumes "runtime_ok rt" "Route_fits r"
  shows "Route_SerializeWithCachedSizesToArray rt (Route_build rt r \<lparr> cached_size := c \<rparr>) t = t @ Route_enc r"
  using assms(2) by (simp add: Route_SerializeWithCachedSizesToArray_def Route_fits_def Route_enc_def
      runtime_okD [OF assms(1)] write_fields)

lemma Route_size_enc:
  assumes "runtime_ok rt" "Route_fits r" "length (Route_enc r) < 2 ^ 31"
  shows "Route_ByteSize rt (Route_build rt r) = (int (length (Route_enc r)),
    Route_build rt r \<lparr> cached_size := int (length (Route_enc r)) \<rparr>)"
  using assms(2,3) any_bitI [of 0 "Route_build rt r"]
  by (simp add: Route_ByteSize_def Route_fits_def Route_enc_def runtime_okD [OF assms(1)] size_fields add_if_def s32_id Let_def)

lemma Route_switch_tags:
  "Route_switch rt 8 m s = Route_parse_routechannel rt m s"
  by (simp_all add: Route_switch_def tag_simps)

lemma Route_merge_enc:
  assumes ok: "runtime_ok rt" and f: "Route_fits r"
  shows "parses n (Route_MergePartialFromCodedStream rt) (Route_new rt) (Route_enc r) (Route_build rt r)"
proof -
  note rd = read_fields [OF runtime_okD(2) [OF ok]]
  have p0: "parses n (resume rt (Route_switch rt) (Route_parse_routechannel rt)) (Route_new rt) (enc_uint r) (Route_build rt r)"
    unfolding Route_parse_routechannel_def
    by (rule parses_last [OF runtime_okD(2) [OF ok] rd(1)])
      (use f in \<open>simp_all add: Route_fits_def Route_build_def Route_set_defs Route_new_def set_has_bit_def\<close>)
  show ?thesis unfolding Route_MergePartialFromCodedStream_def Route_enc_def
    by (rule parses_first [OF _ _ _ Route_switch_tags(1) p0]) simp_all
qed

interpretation route_class: wire_class Route_new Route_build Route_fits Route_enc Route_SerializeWithCachedSizesToArray
    Route_ByteSize Route_MergePartialFromCodedStream Route_IsInitialized
  by unfold_locales (simp_all add: Route_ser_enc Route_size_enc Route_merge_enc Route_IsInitialized_def)

definition MsgNtf_build :: "'u runtime \<Rightarrow> byte list \<Rightarrow> 'u MsgNtf_pb" where
  "MsgNtf_build rt r = MsgNtf_set_buff r (MsgNtf_new rt)"

definition MsgNtf_fits :: "byte list \<Rightarrow> bool" where
  "MsgNtf_fits r \<longleftrightarrow> length (r) < 2 ^ 31"

definition MsgNtf_enc :: "byte list \<Rightarrow> byte list" where
  "MsgNtf_enc r = 10 # enc_bytes r"

lemmas MsgNtf_set_defs = MsgNtf_set_buff_def

lemma MsgNtf_build_fields [simp]:
  "has_bits (MsgNtf_build rt r) = 1" "unknown_fields (MsgNtf_build rt r) = rt_unknown_new rt"
  "ntf_buff (MsgNtf_build rt r) = r"
  by (simp_all add: MsgNtf_build_def MsgNtf_set_defs MsgNtf_new_def set_has_bit_def)

lemma MsgNtf_ser_enc:
  assumes "runtime_ok rt" "MsgNtf_fits r"
  shows "MsgNtf_SerializeWithCachedSizesToArray rt (MsgNtf_build rt r \<lparr> cached_size := c \<rparr>) t = t @ MsgNtf_enc r"
  using assms(2) by (simp add: MsgNtf_SerializeWithCachedSizesToArray_def MsgNtf_fits_def MsgNtf_enc_def
      runtime_okD [OF assms(1)] write_fields)

lemma MsgNtf_size_enc:
  assumes "runtime_ok rt" "MsgNtf_fits r" "length (MsgNtf_enc r) < 2 ^ 31"
  shows "MsgNtf_ByteSize rt (MsgNtf_build rt r) = (int (length (MsgNtf_enc r)),
    MsgNtf_build rt r \<lparr> cached_size := int (length (MsgNtf_enc r)) \<rparr>)"
  using assms(2,3) any_bitI [of 0 "MsgNtf_build rt r"]
  by (simp add: MsgNtf_ByteSize_def MsgNtf_fits_def MsgNtf_enc_def runtime_okD [OF assms(1)] size_fields add_if_def s32_id Let_def)

lemma MsgNtf_switch_tags:
  "MsgNtf_switch rt 10 m s = MsgNtf_parse_buff rt m s"
  by (simp_all add: MsgNtf_switch_def tag_simps)

lemma MsgNtf_merge_enc:
  assumes ok: "runtime_ok rt" and f: "MsgNtf_fits r"
  shows "parses n (MsgNtf_MergePartialFromCodedStream rt) (MsgNtf_new rt) (MsgNtf_enc r) (MsgNtf_build rt r)"
proof -
  note rd = read_fields [OF runtime_okD(2) [OF ok]]
  have p0: "parses n (resume rt (MsgNtf_switch rt) (MsgNtf_parse_buff rt)) (MsgNtf_new rt) (enc_bytes r) (MsgNtf_build rt r)"
    unfolding MsgNtf_parse_buff_def
    by (rule parses_prep [where f = "set_has_bit 0"], rule parses_last [OF runtime_okD(2) [OF ok] rd(6)])
      (use f in \<open>simp_all add: MsgNtf_fits_def MsgNtf_build_def MsgNtf_set_defs MsgNtf_new_def set_has_bit_def\<close>)
  show ?thesis unfolding MsgNtf_MergePartialFromCodedStream_def MsgNtf_enc_def
    by (rule parses_first [OF _ _ _ MsgNtf_switch_tags(1) p0]) simp_all
qed

interpretation msgNtf_class: wire_class MsgNtf_new MsgNtf_build MsgNtf_fits MsgNtf_enc MsgNtf_SerializeWithCachedSizesToArray
    MsgNtf_ByteSize MsgNtf_MergePartialFromCodedStream MsgNtf_IsInitialized
  by unfold_locales (simp_all add: MsgNtf_ser_enc MsgNtf_size_enc MsgNtf_merge_enc MsgNtf_IsInitialized_def)

definition MsgHead_build :: "'u runtime \<Rightarrow> MsgHead \<Rightarrow> 'u MsgHead_pb" where
  "MsgHead_build rt r = MsgHead_set_ip (ip_bytes (ip r)) (MsgHead_set_port (port r) (MsgHead_set_connid (connid r) (MsgHead_set_cmdid (cmdid r) (MsgHead_new rt))))"

definition MsgHead_fits :: "MsgHead \<Rightarrow> bool" where
  "MsgHead_fits r \<longleftrightarrow> fits_u32 (cmdid r) \<and> fits_u32 (connid r) \<and> fits_u32 (port r) \<and> length (ip_bytes (ip r)) < 2 ^ 31"

definition MsgHead_enc :: "MsgHead \<Rightarrow> byte list" where
  "MsgHead_enc r = 21 # enc_fixed32 (cmdid r) @ 29 # enc_fixed32 (connid r) @ 32 # enc_uint (port r) @ 42 # enc_bytes (ip_bytes (ip r))"

lemmas MsgHead_set_defs = MsgHead_set_cmdid_def MsgHead_set_connid_def MsgHead_set_port_def MsgHead_set_ip_def

lemma MsgHead_build_fields [simp]:
  "has_bits (MsgHead_build rt r) = 15" "unknown_fields (MsgHead_build rt r) = rt_unknown_new rt"
  "hd_cmdid (MsgHead_build rt r) = cmdid r"
  "hd_connid (MsgHead_build rt r) = connid r"
  "hd_port (MsgHead_build rt r) = port r"
  "hd_ip (MsgHead_build rt r) = ip_bytes (ip r)"
  by (simp_all add: MsgHead_build_def MsgHead_set_defs MsgHead_new_def set_has_bit_def)

lemma MsgHead_ser_enc:
  assumes "runtime_ok rt" "MsgHead_fits r"
  shows "MsgHead_SerializeWithCachedSizesToArray rt (MsgHead_build rt r \<lparr> cached_size := c \<rparr>) t = t @ MsgHead_enc r"
  using assms(2) by (simp add: MsgHead_SerializeWithCachedSizesToArray_def MsgHead_fits_def MsgHead_enc_def
      runtime_okD [OF assms(1)] write_fields)

lemma MsgHead_size_enc:
  assumes "runtime_ok rt" "MsgHead_fits r" "length (MsgHead_enc r) < 2 ^ 31"
  shows "MsgHead_ByteSize rt (MsgHead_build rt r) = (int (length (MsgHead_enc r)),
    MsgHead_build rt r \<lparr> cached_size := int (length (MsgHead_enc r)) \<rparr>)"
  using assms(2,3) any_bitI [of 0 "MsgHead_build rt r"]
  by (simp add: MsgHead_ByteSize_def MsgHead_fits_def MsgHead_enc_def runtime_okD [OF assms(1)] size_fields add_if_def s32_id Let_def)

lemma MsgHead_switch_tags:
  "MsgHead_switch rt 21 m s = MsgHead_parse_cmdid rt m s" "MsgHead_switch rt 29 m s = MsgHead_parse_connid rt m s" "MsgHead_switch rt 32 m s = MsgHead_parse_port rt m s" "MsgHead_switch rt 42 m s = MsgHead_parse_ip rt m s"
  by (simp_all add: MsgHead_switch_def tag_simps)

lemma MsgHead_merge_enc:
  assumes ok: "runtime_ok rt" and f: "MsgHead_fits r"
  shows "parses n (MsgHead_MergePartialFromCodedStream rt) (MsgHead_new rt) (MsgHead_enc r) (MsgHead_build rt r)"
proof -
  note rd = read_fields [OF runtime_okD(2) [OF ok]]
  have p3: "parses n (resume rt (MsgHead_switch rt) (MsgHead_parse_ip rt)) (MsgHead_set_port (port r) (MsgHead_set_connid (connid r) (MsgHead_set_cmdid (cmdid r) (MsgHead_new rt)))) (enc_bytes (ip_bytes (ip r))) (MsgHead_build rt r)"
    unfolding MsgHead_parse_ip_def
    by (rule parses_prep [where f = "set_has_bit 3"], rule parses_last [OF runtime_okD(2) [OF ok] rd(5)])
      (use f in \<open>simp_all add: MsgHead_fits_def MsgHead_build_def MsgHead_set_defs MsgHead_new_def set_has_bit_def\<close>)
  have p2: "parses n (resume rt (MsgHead_switch rt) (MsgHead_parse_port rt)) (MsgHead_set_connid (connid r) (MsgHead_set_cmdid (cmdid r) (MsgHead_new rt))) (enc_uint (port r) @ 42 # enc_bytes (ip_bytes (ip r))) (MsgHead_build rt r)"
    unfolding MsgHead_parse_port_def
    by (rule parses_next [OF rd(1) _ _ _ MsgHead_switch_tags(4) _ p3])
      (use f in \<open>simp_all add: MsgHead_fits_def MsgHead_build_def MsgHead_set_defs MsgHead_new_def set_has_bit_def\<close>)
  have p1: "parses n (resume rt (MsgHead_switch rt) (MsgHead_parse_connid rt)) (MsgHead_set_cmdid (cmdid r) (MsgHead_new rt)) (enc_fixed32 (connid r) @ 32 # enc_uint (port r) @ 42 # enc_bytes (ip_bytes (ip r))) (MsgHead_build rt r)"
    unfolding MsgHead_parse_connid_def
    by (rule parses_next [OF rd(4) _ _ _ MsgHead_switch_tags(3) _ p2])
      (use f in \<open>simp_all add: MsgHead_fits_def MsgHead_build_def MsgHead_set_defs MsgHead_new_def set_has_bit_def\<close>)
  have p0: "parses n (resume rt (MsgHead_switch rt) (MsgHead_parse_cmdid rt)) (MsgHead_new rt) (enc_fixed32 (cmdid r) @ 29 # enc_fixed32 (connid r) @ 32 # enc_uint (port r) @ 42 # enc_bytes (ip_bytes (ip r))) (MsgHead_build rt r)"
    unfolding MsgHead_parse_cmdid_def
    by (rule parses_next [OF rd(4) _ _ _ MsgHead_switch_tags(2) _ p1])
      (use f in \<open>simp_all add: MsgHead_fits_def MsgHead_build_def MsgHead_set_defs MsgHead_new_def set_has_bit_def\<close>)
  show ?thesis unfolding MsgHead_MergePartialFromCodedStream_def MsgHead_enc_def
    by (rule parses_first [OF _ _ _ MsgHead_switch_tags(1) p0]) simp_all
qed

interpretation msgHead_class: wire_class MsgHead_new MsgHead_build MsgHead_fits MsgHead_enc MsgHead_SerializeWithCachedSizesToArray
    MsgHead_ByteSize MsgHead_MergePartialFromCodedStream MsgHead_IsInitialized
  by unfold_locales (simp_all add: MsgHead_ser_enc MsgHead_size_enc MsgHead_merge_enc MsgHead_IsInitialized_def)

definition testConnSvrCfg_build :: "'u runtime \<Rightarrow> int \<Rightarrow> 'u testConnSvrCfg_pb" where
  "testConnSvrCfg_build rt r = testConnSvrCfg_set_port r (testConnSvrCfg_new rt)"

definition testConnSvrCfg_fits :: "int \<Rightarrow> bool" where
  "testConnSvrCfg_fits r \<longleftrightarrow> fits_u32 (r)"

definition testConnSvrCfg_enc :: "int \<Rightarrow> byte list" where
  "testConnSvrCfg_enc r = 13 # enc_fixed32 r"

lemmas testConnSvrCfg_set_defs = testConnSvrCfg_set_port_def

lemma testConnSvrCfg_build_fields [simp]:
  "has_bits (testConnSvrCfg_build rt r) = 1" "unknown_fields (testConnSvrCfg_build rt r) = rt_unknown_new rt"
  "tcfg_port (testConnSvrCfg_build rt r) = r"
  by (simp_all add: testConnSvrCfg_build_def testConnSvrCfg_set_defs testConnSvrCfg_new_def set_has_bit_def)

lemma testConnSvrCfg_ser_enc:
  assumes "runtime_ok rt" "testConnSvrCfg_fits r"
  shows "testConnSvrCfg_SerializeWithCachedSizesToArray rt (testConnSvrCfg_build rt r \<lparr> cached_size := c \<rparr>) t = t @ testConnSvrCfg_enc r"
  using assms(2) by (simp add: testConnSvrCfg_SerializeWithCachedSizesToArray_def testConnSvrCfg_fits_def testConnSvrCfg_enc_def
      runtime_okD [OF assms(1)] write_fields)

lemma testConnSvrCfg_size_enc:
  assumes "runtime_ok rt" "testConnSvrCfg_fits r" "length (testConnSvrCfg_enc r) < 2 ^ 31"
  shows "testConnSvrCfg_ByteSize rt (testConnSvrCfg_build rt r) = (int (length (testConnSvrCfg_enc r)),
    testConnSvrCfg_build rt r \<lparr> cached_size := int (length (testConnSvrCfg_enc r)) \<rparr>)"
  using assms(2,3) any_bitI [of 0 "testConnSvrCfg_build rt r"]
  by (simp add: testConnSvrCfg_ByteSize_def testConnSvrCfg_fits_def testConnSvrCfg_enc_def runtime_okD [OF assms(1)] size_fields add_if_def s32_id Let_def)

lemma testConnSvrCfg_switch_tags:
  "testConnSvrCfg_switch rt 13 m s = testConnSvrCfg_parse_port rt m s"
  by (simp_all add: testConnSvrCfg_switch_def tag_simps)

lemma testConnSvrCfg_merge_enc:
  assumes ok: "runtime_ok rt" and f: "testConnSvrCfg_fits r"
  shows "parses n (testConnSvrCfg_MergePartialFromCodedStream rt) (testConnSvrCfg_new rt) (testConnSvrCfg_enc r) (testConnSvrCfg_build rt r)"
proof -
  note rd = read_fields [OF runtime_okD(2) [OF ok]]
  have p0: "parses n (resume rt (testConnSvrCfg_switch rt) (testConnSvrCfg_parse_port rt)) (testConnSvrCfg_new rt) (enc_fixed32 r) (testConnSvrCfg_build rt r)"
    unfolding testConnSvrCfg_parse_port_def
    by (rule parses_last [OF runtime_okD(2) [OF ok] rd(4)])
      (use f in \<open>simp_all add: testConnSvrCfg_fits_def testConnSvrCfg_build_def testConnSvrCfg_set_defs testConnSvrCfg_new_def set_has_bit_def\<close>)
  show ?thesis unfolding testConnSvrCfg_MergePartialFromCodedStream_def testConnSvrCfg_enc_def
    by (rule parses_first [OF _ _ _ testConnSvrCfg_switch_tags(1) p0]) simp_all
qed

interpretation testConnSvrCfg_class: wire_class testConnSvrCfg_new testConnSvrCfg_build testConnSvrCfg_fits testConnSvrCfg_enc testConnSvrCfg_SerializeWithCachedSizesToArray
    testConnSvrCfg_ByteSize testConnSvrCfg_MergePartialFromCodedStream testConnSvrCfg_IsInitialized
  by unfold_locales (simp_all add: testConnSvrCfg_ser_enc testConnSvrCfg_size_enc testConnSvrCfg_merge_enc testConnSvrCfg_IsInitialized_def)

section \<open>A part of a message that may be absent\<close>

definition opt_part :: "byte \<Rightarrow> ('a \<Rightarrow> byte list) \<Rightarrow> 'a option \<Rightarrow> byte list" where
  "opt_part t enc x = (case x of None \<Rightarrow> [] | Some a \<Rightarrow> t # enc_bytes (enc a))"

definition not_hd :: "byte \<Rightarrow> byte list \<Rightarrow> bool" where
  "not_hd t bs \<longleftrightarrow> bs = [] \<or> hd bs \<noteq> t"

lemma not_hd_opt: "t2 \<noteq> t \<Longrightarrow> not_hd t rest \<Longrightarrow> not_hd t (opt_part t2 enc x @ rest)" "t2 \<noteq> t \<Longrightarrow> not_hd t (opt_part t2 enc x)"
  by (auto simp: not_hd_def opt_part_def split: option.splits)

definition part_fits :: "('a \<Rightarrow> bool) \<Rightarrow> 'a option \<Rightarrow> bool" where
  "part_fits fits x \<longleftrightarrow> (case x of None \<Rightarrow> True | Some a \<Rightarrow> fits a)"

context wire_class
begin

lemma add_part:
  assumes "runtime_ok rt" "part_fits fits x" "0 \<le> n" "n + int (length (opt_part t enc x)) < 2 ^ 31"
  shows "add_if (x \<noteq> None) (1 + msg_size rt (bytesize rt) (deref (new rt) (map_option (build rt) x))) n =
    n + int (length (opt_part t enc x))"
  using assms msg_size_enc [OF assms(1)]
  by (cases x) (simp_all add: add_if_def opt_part_def part_fits_def deref_def s32_id)

lemma write_part:
  assumes "runtime_ok rt" "part_fits fits x" "length (opt_part b enc x) < 2 ^ 31" "k \<in> {1, 2, 3, 4, 5, 6}"
    and "b = word_of_int (8 * k + 2)"
  shows "(if x \<noteq> None then write_msg rt k (ser rt)
       (deref (new rt) (map_option (\<lambda>h. snd (bytesize rt h)) (map_option (build rt) x))) t else t) = t @ opt_part b enc x"
  using assms write_msg_enc [OF assms(1) _ _ assms(4)]
  by (cases x) (simp_all add: opt_part_def part_fits_def deref_def enc_bytes_def)

lemma stage_part:
  assumes ok: "runtime_ok rt" and x: "part_fits fits x" "length (opt_part t enc x) < 2 ^ 31"
    and label: "\<And>m. label m = read_msg rt (merge rt) get put cont (mut m)" and get: "get (mut M) = new rt"
    and t: "uint t = k" "0 < k" "k < 128" and sw: "\<And>m s. switch k m s = label m s"
    and M': "M' = (case x of None \<Rightarrow> M | Some a \<Rightarrow> put (build rt a) (mut M))"
    and st: "parses (Suc n) (merge_loop rt switch) M' rest m'" "not_hd t rest"
    and nxt: "parses (Suc n) (resume rt switch cont) M' rest m'"
  shows "stage (Suc n) rt switch t label M (opt_part t enc x @ rest) m'"
proof (cases x)
  case None
  with st M' show ?thesis by (auto simp: stage_def opt_part_def not_hd_def)
next
  case (Some a)
  have u: "t < 128" "t \<noteq> 0" using t by (auto simp: word_less_def)
  have "parses (Suc n) (resume rt switch (read_msg rt (merge rt) get put cont)) (mut M) (enc_bytes (enc a) @ rest) m'"
    using ok x get nxt M' Some by (intro read_msg_enc) (simp_all add: part_fits_def opt_part_def enc_bytes_def)
  then have "parses (Suc n) (resume rt switch label) M (enc_bytes (enc a) @ rest) m'"
    by (simp add: parses_def resume_def label)
  with stage_present [OF u, of switch label "Suc n" rt M] sw t(1) Some show ?thesis by (simp add: opt_part_def)
qed

end

section \<open>The whole message\<close>

definition ConnsvrMsg_fits :: "ConnsvrMsg \<Rightarrow> bool" where
  "ConnsvrMsg_fits m \<longleftrightarrow> MsgHead_fits (head m) \<and> part_fits StartReq_fits (startreq m) \<and> part_fits StartRsp_fits (startrsp m) \<and>
     part_fits Stop_fits (stop m) \<and> part_fits Route_fits (route m) \<and> part_fits MsgNtf_fits (msgntf m)"

definition ConnsvrMsg_enc :: "ConnsvrMsg \<Rightarrow> byte list" where
  "ConnsvrMsg_enc m = opt_part 10 MsgHead_enc (Some (head m)) @ opt_part 18 StartReq_enc (startreq m) @
     opt_part 26 StartRsp_enc (startrsp m) @ opt_part 34 Stop_enc (stop m) @ opt_part 42 Route_enc (route m) @
     opt_part 50 MsgNtf_enc (msgntf m)"

text \<open>The object, part by part, as \<open>mutable_\<close> and the setters of the part make it.\<close>

definition put_part :: "('m \<Rightarrow> 'm) \<Rightarrow> ('c \<Rightarrow> 'm \<Rightarrow> 'm) \<Rightarrow> ('a \<Rightarrow> 'c) \<Rightarrow> 'a option \<Rightarrow> 'm \<Rightarrow> 'm" where
  "put_part mut put build x M = (case x of None \<Rightarrow> M | Some a \<Rightarrow> put (build a) (mut M))"

definition put_head where
  "put_head rt h = put_part (mutable_head rt) (\<lambda>h m. m \<lparr> cm_head := Some h \<rparr>) (MsgHead_build rt) (Some h)"
definition put_startreq where
  "put_startreq rt = put_part (mutable_startreq rt) (\<lambda>h m. m \<lparr> cm_startreq := Some h \<rparr>) (StartReq_build rt)"
definition put_startrsp where
  "put_startrsp rt = put_part (mutable_startrsp rt) (\<lambda>h m. m \<lparr> cm_startrsp := Some h \<rparr>) (StartRsp_build rt)"
definition put_stop where
  "put_stop rt = put_part (mutable_stop rt) (\<lambda>h m. m \<lparr> cm_stop := Some h \<rparr>) (Stop_build rt)"
definition put_route where
  "put_route rt = put_part (mutable_route rt) (\<lambda>h m. m \<lparr> cm_route := Some h \<rparr>) (Route_build rt)"
definition put_msgntf where
  "put_msgntf rt = put_part (mutable_msgntf rt) (\<lambda>h m. m \<lparr> cm_msgntf := Some h \<rparr>) (MsgNtf_build rt)"

lemmas put_defs = put_head_def put_startreq_def put_startrsp_def put_stop_def put_route_def put_msgntf_def
lemmas mutable_defs = mutable_head_def mutable_startreq_def mutable_startrsp_def mutable_stop_def mutable_route_def
  mutable_msgntf_def

definition ConnsvrMsg_build :: "'u runtime \<Rightarrow> ConnsvrMsg \<Rightarrow> 'u ConnsvrMsg_pb" where
  "ConnsvrMsg_build rt m = put_msgntf rt (msgntf m) (put_route rt (route m) (put_stop rt (stop m)
     (put_startrsp rt (startrsp m) (put_startreq rt (startreq m) (put_head rt (head m) (ConnsvrMsg_new rt))))))"

lemma ConnsvrMsg_build_parts [simp]:
  "cm_head (ConnsvrMsg_build rt m) = Some (MsgHead_build rt (head m))"
  "cm_startreq (ConnsvrMsg_build rt m) = map_option (StartReq_build rt) (startreq m)"
  "cm_startrsp (ConnsvrMsg_build rt m) = map_option (StartRsp_build rt) (startrsp m)"
  "cm_stop (ConnsvrMsg_build rt m) = map_option (Stop_build rt) (stop m)"
  "cm_route (ConnsvrMsg_build rt m) = map_option (Route_build rt) (route m)"
  "cm_msgntf (ConnsvrMsg_build rt m) = map_option (MsgNtf_build rt) (msgntf m)"
  "unknown_fields (ConnsvrMsg_build rt m) = rt_unknown_new rt"
  unfolding ConnsvrMsg_build_def put_defs
  by (simp_all add: put_part_def mutable_defs set_has_bit_def ConnsvrMsg_new_def split: option.splits)

lemma put_part_bits:
  assumes "\<And>c m. has_bits (put c m) = has_bits m" "\<And>m. has_bits (mut m) = has_bits m OR push_bit j 1"
  shows "bit (has_bits (put_part mut put build x M)) k \<longleftrightarrow> bit (has_bits M) k \<or> x \<noteq> None \<and> k = j \<and> k < 32"
  using assms bit_set_32 [of "has_bits M" j k] by (auto simp add: put_part_def split: option.splits)

lemma ConnsvrMsg_build_bits:
  "bit (has_bits (ConnsvrMsg_build rt m)) k \<longleftrightarrow> k = 0 \<or> startreq m \<noteq> None \<and> k = 1 \<or> startrsp m \<noteq> None \<and> k = 2 \<or>
     stop m \<noteq> None \<and> k = 3 \<or> route m \<noteq> None \<and> k = 4 \<or> msgntf m \<noteq> None \<and> k = 5"
proof -
  have "bit (has_bits (put_head rt h M)) k \<longleftrightarrow> bit (has_bits M) k \<or> k = 0" for h M
    unfolding put_head_def by (subst put_part_bits [where j = 0]) (auto simp: mutable_defs set_has_bit_def)
  moreover have "bit (has_bits (put_startreq rt x M)) k \<longleftrightarrow> bit (has_bits M) k \<or> x \<noteq> None \<and> k = 1" for x M
    unfolding put_startreq_def by (subst put_part_bits [where j = 1]) (auto simp: mutable_defs set_has_bit_def)
  moreover have "bit (has_bits (put_startrsp rt x M)) k \<longleftrightarrow> bit (has_bits M) k \<or> x \<noteq> None \<and> k = 2" for x M
    unfolding put_startrsp_def by (subst put_part_bits [where j = 2]) (auto simp: mutable_defs set_has_bit_def)
  moreover have "bit (has_bits (put_stop rt x M)) k \<longleftrightarrow> bit (has_bits M) k \<or> x \<noteq> None \<and> k = 3" for x M
    unfolding put_stop_def by (subst put_part_bits [where j = 3]) (auto simp: mutable_defs set_has_bit_def)
  moreover have "bit (has_bits (put_route rt x M)) k \<longleftrightarrow> bit (has_bits M) k \<or> x \<noteq> None \<and> k = 4" for x M
    unfolding put_route_def by (subst put_part_bits [where j = 4]) (auto simp: mutable_defs set_has_bit_def)
  moreover have "bit (has_bits (put_msgntf rt x M)) k \<longleftrightarrow> bit (has_bits M) k \<or> x \<noteq> None \<and> k = 5" for x M
    unfolding put_msgntf_def by (subst put_part_bits [where j = 5]) (auto simp: mutable_defs set_has_bit_def)
  ultimately show ?thesis by (auto simp: ConnsvrMsg_build_def ConnsvrMsg_new_def)
qed

text \<open>The size that \<open>ByteSize\<close> computes is the number of bytes written, and it leaves the sizes of the parts in them.\<close>

lemma ConnsvrMsg_size_enc:
  assumes ok: "runtime_ok rt" and f: "ConnsvrMsg_fits m" and l: "length (ConnsvrMsg_enc m) < 2 ^ 31"
  shows "fst (ConnsvrMsg_ByteSize rt (ConnsvrMsg_build rt m)) = int (length (ConnsvrMsg_enc m))"
proof -
  have a: "any_bit (ConnsvrMsg_build rt m)" by (rule any_bitI [of 0]) (simp_all add: ConnsvrMsg_build_bits)
  have h: "add_if True (1 + msg_size rt (MsgHead_ByteSize rt) (deref (MsgHead_new rt) (Some (MsgHead_build rt (head m))))) 0 =
      int (length (opt_part 10 MsgHead_enc (Some (head m))))"
    using msgHead_class.add_part [OF ok, of "Some (head m)" 0 10] f l
    by (simp add: ConnsvrMsg_fits_def part_fits_def ConnsvrMsg_enc_def)
  show ?thesis
    using f l unfolding ConnsvrMsg_fits_def ConnsvrMsg_enc_def
    by (simp add: ConnsvrMsg_ByteSize_def a ConnsvrMsg_build_bits h Let_def runtime_okD [OF ok]
        startReq_class.add_part [OF ok, where t = 18] startRsp_class.add_part [OF ok, where t = 26]
        stop_class.add_part [OF ok, where t = 34] route_class.add_part [OF ok, where t = 42] msgNtf_class.add_part [OF ok, where t = 50] del: not_None_eq)
qed

lemma ConnsvrMsg_sized:
  defines "S \<equiv> \<lambda>rt m. snd (ConnsvrMsg_ByteSize rt (ConnsvrMsg_build rt m))"
  shows "has_bit 0 (S rt m) \<longleftrightarrow> True" "has_bit 1 (S rt m) \<longleftrightarrow> startreq m \<noteq> None" "has_bit 2 (S rt m) \<longleftrightarrow> startrsp m \<noteq> None"
    "has_bit 3 (S rt m) \<longleftrightarrow> stop m \<noteq> None" "has_bit 4 (S rt m) \<longleftrightarrow> route m \<noteq> None" "has_bit 5 (S rt m) \<longleftrightarrow> msgntf m \<noteq> None"
    and "cm_head (S rt m) = Some (snd (MsgHead_ByteSize rt (MsgHead_build rt (head m))))"
    and "cm_startreq (S rt m) = map_option (\<lambda>h. snd (StartReq_ByteSize rt h)) (map_option (StartReq_build rt) (startreq m))"
    and "cm_startrsp (S rt m) = map_option (\<lambda>h. snd (StartRsp_ByteSize rt h)) (map_option (StartRsp_build rt) (startrsp m))"
    and "cm_stop (S rt m) = map_option (\<lambda>h. snd (Stop_ByteSize rt h)) (map_option (Stop_build rt) (stop m))"
    and "cm_route (S rt m) = map_option (\<lambda>h. snd (Route_ByteSize rt h)) (map_option (Route_build rt) (route m))"
    and "cm_msgntf (S rt m) = map_option (\<lambda>h. snd (MsgNtf_ByteSize rt h)) (map_option (MsgNtf_build rt) (msgntf m))"
    and "unknown_fields (S rt m) = rt_unknown_new rt"
  by (simp_all add: S_def ConnsvrMsg_ByteSize_def ConnsvrMsg_build_bits Let_def)

lemma ConnsvrMsg_ser_enc:
  assumes ok: "runtime_ok rt" and f: "ConnsvrMsg_fits m" and l: "length (ConnsvrMsg_enc m) < 2 ^ 31"
  shows "ConnsvrMsg_SerializeWithCachedSizesToArray rt (snd (ConnsvrMsg_ByteSize rt (ConnsvrMsg_build rt m))) t = t @ ConnsvrMsg_enc m"
proof -
  have fs: "part_fits StartReq_fits (startreq m)" "part_fits StartRsp_fits (startrsp m)" "part_fits Stop_fits (stop m)"
    "part_fits Route_fits (route m)" "part_fits MsgNtf_fits (msgntf m)"
    "part_fits MsgHead_fits (Some (head m))" using f by (simp_all add: ConnsvrMsg_fits_def part_fits_def)
  have ls: "length (opt_part 18 StartReq_enc (startreq m)) < 2 ^ 31" "length (opt_part 26 StartRsp_enc (startrsp m)) < 2 ^ 31"
    "length (opt_part 34 Stop_enc (stop m)) < 2 ^ 31" "length (opt_part 42 Route_enc (route m)) < 2 ^ 31"
    "length (opt_part 50 MsgNtf_enc (msgntf m)) < 2 ^ 31" "length (opt_part 10 MsgHead_enc (Some (head m))) < 2 ^ 31"
    using l by (simp_all add: ConnsvrMsg_enc_def)
  have "(if Some (head m) \<noteq> None then write_msg rt 1 (MsgHead_SerializeWithCachedSizesToArray rt) (deref (MsgHead_new rt)
       (map_option (\<lambda>h. snd (MsgHead_ByteSize rt h)) (map_option (MsgHead_build rt) (Some (head m))))) t else t) =
      t @ opt_part 10 MsgHead_enc (Some (head m))" for t
    by (rule msgHead_class.write_part [OF ok fs(6) ls(6)]) simp_all
  then have h: "write_msg rt 1 (MsgHead_SerializeWithCachedSizesToArray rt)
       (deref (MsgHead_new rt) (Some (snd (MsgHead_ByteSize rt (MsgHead_build rt (head m)))))) t =
      t @ opt_part 10 MsgHead_enc (Some (head m))" for t
    by (simp only: option.distinct option.map not_False_eq_True if_True)
  have w2: "(if startreq m \<noteq> None then write_msg rt 2 (StartReq_SerializeWithCachedSizesToArray rt) (deref (StartReq_new rt)
       (map_option (\<lambda>h. snd (StartReq_ByteSize rt h)) (map_option (StartReq_build rt) (startreq m)))) t else t) =
      t @ opt_part 18 StartReq_enc (startreq m)" for t
    by (rule startReq_class.write_part [OF ok fs(1) ls(1)]) simp_all
  have w3: "(if startrsp m \<noteq> None then write_msg rt 3 (StartRsp_SerializeWithCachedSizesToArray rt) (deref (StartRsp_new rt)
       (map_option (\<lambda>h. snd (StartRsp_ByteSize rt h)) (map_option (StartRsp_build rt) (startrsp m)))) t else t) =
      t @ opt_part 26 StartRsp_enc (startrsp m)" for t
    by (rule startRsp_class.write_part [OF ok fs(2) ls(2)]) simp_all
  have w4: "(if stop m \<noteq> None then write_msg rt 4 (Stop_SerializeWithCachedSizesToArray rt) (deref (Stop_new rt)
       (map_option (\<lambda>h. snd (Stop_ByteSize rt h)) (map_option (Stop_build rt) (stop m)))) t else t) =
      t @ opt_part 34 Stop_enc (stop m)" for t
    by (rule stop_class.write_part [OF ok fs(3) ls(3)]) simp_all
  have w5: "(if route m \<noteq> None then write_msg rt 5 (Route_SerializeWithCachedSizesToArray rt) (deref (Route_new rt)
       (map_option (\<lambda>h. snd (Route_ByteSize rt h)) (map_option (Route_build rt) (route m)))) t else t) =
      t @ opt_part 42 Route_enc (route m)" for t
    by (rule route_class.write_part [OF ok fs(4) ls(4)]) simp_all
  have w6: "(if msgntf m \<noteq> None then write_msg rt 6 (MsgNtf_SerializeWithCachedSizesToArray rt) (deref (MsgNtf_new rt)
       (map_option (\<lambda>h. snd (MsgNtf_ByteSize rt h)) (map_option (MsgNtf_build rt) (msgntf m)))) t else t) =
      t @ opt_part 50 MsgNtf_enc (msgntf m)" for t
    by (rule msgNtf_class.write_part [OF ok fs(5) ls(5)]) simp_all
  show ?thesis
    unfolding ConnsvrMsg_SerializeWithCachedSizesToArray_def ConnsvrMsg_sized if_True Let_def h w2 w3 w4 w5 w6
    by (simp add: ConnsvrMsg_enc_def runtime_okD [OF ok] ConnsvrMsg_sized)
qed

lemma ConnsvrMsg_switch_tags:
  "ConnsvrMsg_switch rt 10 m s = ConnsvrMsg_parse_head rt m s" "ConnsvrMsg_switch rt 18 m s = ConnsvrMsg_parse_startreq rt m s"
  "ConnsvrMsg_switch rt 26 m s = ConnsvrMsg_parse_startrsp rt m s" "ConnsvrMsg_switch rt 34 m s = ConnsvrMsg_parse_stop rt m s"
  "ConnsvrMsg_switch rt 42 m s = ConnsvrMsg_parse_route rt m s" "ConnsvrMsg_switch rt 50 m s = ConnsvrMsg_parse_msgntf rt m s"
  by (simp_all add: ConnsvrMsg_switch_def tag_simps)

text \<open>From a stage to the label before it.\<close>

lemma stage_expect:
  assumes "stage n rt switch t label m bs m'" "uint t = k" "k < 128"
  shows "parses n (merge_loop rt switch) m bs m'" "parses n (resume rt switch (expect_tag k label)) m bs m'"
  using assms parses_expect_tag [of t n rt switch label m bs m'] by (auto simp: stage_def word_less_def)

lemma put_part_none:
  assumes "\<And>c m. f (put c m) = f m" "\<And>m. f (mut m) = f m"
  shows "f (put_part mut put build x M) = f M"
  using assms by (simp add: put_part_def split: option.splits)

lemmas put_none = put_part_none [of cm_head] put_part_none [of cm_startreq] put_part_none [of cm_startrsp]
  put_part_none [of cm_stop] put_part_none [of cm_route] put_part_none [of cm_msgntf]

lemma mutable_fresh:
  "cm_head m = None \<Longrightarrow> deref (MsgHead_new rt) (cm_head (mutable_head rt m)) = MsgHead_new rt"
  "cm_startreq m = None \<Longrightarrow> deref (StartReq_new rt) (cm_startreq (mutable_startreq rt m)) = StartReq_new rt"
  "cm_startrsp m = None \<Longrightarrow> deref (StartRsp_new rt) (cm_startrsp (mutable_startrsp rt m)) = StartRsp_new rt"
  "cm_stop m = None \<Longrightarrow> deref (Stop_new rt) (cm_stop (mutable_stop rt m)) = Stop_new rt"
  "cm_route m = None \<Longrightarrow> deref (Route_new rt) (cm_route (mutable_route rt m)) = Route_new rt"
  "cm_msgntf m = None \<Longrightarrow> deref (MsgNtf_new rt) (cm_msgntf (mutable_msgntf rt m)) = MsgNtf_new rt"
  by (simp_all add: mutable_defs deref_def)

lemma not_hd_Nil [simp]: "not_hd t []"
  by (simp add: not_hd_def)

lemma ConnsvrMsg_merge_enc:
  assumes ok: "runtime_ok rt" and f: "ConnsvrMsg_fits m" and l: "length (ConnsvrMsg_enc m) < 2 ^ 31"
  shows "parses (Suc n) (ConnsvrMsg_MergePartialFromCodedStream rt) (ConnsvrMsg_new rt) (ConnsvrMsg_enc m) (ConnsvrMsg_build rt m)"
proof -
  note rd = runtime_okD(2) [OF ok]
  let ?sw = "ConnsvrMsg_switch rt" and ?B = "ConnsvrMsg_build rt m"
  define M1 where "M1 = put_head rt (head m) (ConnsvrMsg_new rt)"
  define M2 where "M2 = put_startreq rt (startreq m) M1"
  define M3 where "M3 = put_startrsp rt (startrsp m) M2"
  define M4 where "M4 = put_stop rt (stop m) M3"
  define M5 where "M5 = put_route rt (route m) M4"
  have M6: "?B = put_msgntf rt (msgntf m) M5"
    by (simp add: ConnsvrMsg_build_def M1_def M2_def M3_def M4_def M5_def)
  have fs: "part_fits StartReq_fits (startreq m)" "part_fits StartRsp_fits (startrsp m)" "part_fits Stop_fits (stop m)"
    "part_fits Route_fits (route m)" "part_fits MsgNtf_fits (msgntf m)"
    "part_fits MsgHead_fits (Some (head m))" using f by (simp_all add: ConnsvrMsg_fits_def part_fits_def)
  have ls: "length (opt_part 18 StartReq_enc (startreq m)) < 2 ^ 31" "length (opt_part 26 StartRsp_enc (startrsp m)) < 2 ^ 31"
    "length (opt_part 34 Stop_enc (stop m)) < 2 ^ 31" "length (opt_part 42 Route_enc (route m)) < 2 ^ 31"
    "length (opt_part 50 MsgNtf_enc (msgntf m)) < 2 ^ 31" "length (opt_part 10 MsgHead_enc (Some (head m))) < 2 ^ 31"
    using l by (simp_all add: ConnsvrMsg_enc_def)
  have none: "cm_head (ConnsvrMsg_new rt) = None" "cm_startreq M1 = None" "cm_startrsp M2 = None" "cm_stop M3 = None" "cm_route M4 = None" "cm_msgntf M5 = None"
    by (simp_all add: M1_def M2_def M3_def M4_def M5_def put_defs put_none mutable_defs set_has_bit_def ConnsvrMsg_new_def)
  have "stage (Suc n) rt ?sw 50 (ConnsvrMsg_parse_msgntf rt) M5 (opt_part 50 MsgNtf_enc (msgntf m) @ []) ?B"
    by (rule msgNtf_class.stage_part [OF ok fs(5) ls(5), where mut = "mutable_msgntf rt" and M' = "?B" and k = 50 and
          get = "\<lambda>m. deref (MsgNtf_new rt) (cm_msgntf m)" and put = "\<lambda>h m. m \<lparr> cm_msgntf := Some h \<rparr>" and cont = "expect_end"])
      (simp_all add: merge_loop_end [OF rd] parses_expect_end [OF rd] ConnsvrMsg_parse_msgntf_def ConnsvrMsg_switch_tags none mutable_fresh
        not_hd_opt M6 [unfolded put_defs put_part_def option.case, symmetric])
  note s5 = stage_expect [OF this, of 50, simplified]
  have "stage (Suc n) rt ?sw 42 (ConnsvrMsg_parse_route rt) M4 (opt_part 42 Route_enc (route m) @ opt_part 50 MsgNtf_enc (msgntf m) @ []) ?B"
    by (rule route_class.stage_part [OF ok fs(4) ls(4), where mut = "mutable_route rt" and M' = "M5" and k = 42 and
          get = "\<lambda>m. deref (Route_new rt) (cm_route m)" and put = "\<lambda>h m. m \<lparr> cm_route := Some h \<rparr>" and cont = "expect_tag 50 (ConnsvrMsg_parse_msgntf rt)"])
      (simp_all add: s5(1) s5(2) ConnsvrMsg_parse_route_def ConnsvrMsg_switch_tags none mutable_fresh
        not_hd_opt M5_def [unfolded put_defs put_part_def option.case, symmetric])
  note s4 = stage_expect [OF this, of 42, simplified]
  have "stage (Suc n) rt ?sw 34 (ConnsvrMsg_parse_stop rt) M3 (opt_part 34 Stop_enc (stop m) @ opt_part 42 Route_enc (route m) @ opt_part 50 MsgNtf_enc (msgntf m) @ []) ?B"
    by (rule stop_class.stage_part [OF ok fs(3) ls(3), where mut = "mutable_stop rt" and M' = "M4" and k = 34 and
          get = "\<lambda>m. deref (Stop_new rt) (cm_stop m)" and put = "\<lambda>h m. m \<lparr> cm_stop := Some h \<rparr>" and cont = "expect_tag 42 (ConnsvrMsg_parse_route rt)"])
      (simp_all add: s4(1) s4(2) ConnsvrMsg_parse_stop_def ConnsvrMsg_switch_tags none mutable_fresh
        not_hd_opt M4_def [unfolded put_defs put_part_def option.case, symmetric])
  note s3 = stage_expect [OF this, of 34, simplified]
  have "stage (Suc n) rt ?sw 26 (ConnsvrMsg_parse_startrsp rt) M2 (opt_part 26 StartRsp_enc (startrsp m) @ opt_part 34 Stop_enc (stop m) @ opt_part 42 Route_enc (route m) @ opt_part 50 MsgNtf_enc (msgntf m) @ []) ?B"
    by (rule startRsp_class.stage_part [OF ok fs(2) ls(2), where mut = "mutable_startrsp rt" and M' = "M3" and k = 26 and
          get = "\<lambda>m. deref (StartRsp_new rt) (cm_startrsp m)" and put = "\<lambda>h m. m \<lparr> cm_startrsp := Some h \<rparr>" and cont = "expect_tag 34 (ConnsvrMsg_parse_stop rt)"])
      (simp_all add: s3(1) s3(2) ConnsvrMsg_parse_startrsp_def ConnsvrMsg_switch_tags none mutable_fresh
        not_hd_opt M3_def [unfolded put_defs put_part_def option.case, symmetric])
  note s2 = stage_expect [OF this, of 26, simplified]
  have "stage (Suc n) rt ?sw 18 (ConnsvrMsg_parse_startreq rt) M1 (opt_part 18 StartReq_enc (startreq m) @ opt_part 26 StartRsp_enc (startrsp m) @ opt_part 34 Stop_enc (stop m) @ opt_part 42 Route_enc (route m) @ opt_part 50 MsgNtf_enc (msgntf m) @ []) ?B"
    by (rule startReq_class.stage_part [OF ok fs(1) ls(1), where mut = "mutable_startreq rt" and M' = "M2" and k = 18 and
          get = "\<lambda>m. deref (StartReq_new rt) (cm_startreq m)" and put = "\<lambda>h m. m \<lparr> cm_startreq := Some h \<rparr>" and cont = "expect_tag 26 (ConnsvrMsg_parse_startrsp rt)"])
      (simp_all add: s2(1) s2(2) ConnsvrMsg_parse_startreq_def ConnsvrMsg_switch_tags none mutable_fresh
        not_hd_opt M2_def [unfolded put_defs put_part_def option.case, symmetric])
  note s1 = stage_expect [OF this, of 18, simplified]
  have "stage (Suc n) rt ?sw 10 (ConnsvrMsg_parse_head rt) (ConnsvrMsg_new rt) (opt_part 10 MsgHead_enc (Some (head m)) @ opt_part 18 StartReq_enc (startreq m) @ opt_part 26 StartRsp_enc (startrsp m) @ opt_part 34 Stop_enc (stop m) @ opt_part 42 Route_enc (route m) @ opt_part 50 MsgNtf_enc (msgntf m) @ []) ?B"
    by (rule msgHead_class.stage_part [OF ok fs(6) ls(6), where mut = "mutable_head rt" and M' = "M1" and k = 10 and
          get = "\<lambda>m. deref (MsgHead_new rt) (cm_head m)" and put = "\<lambda>h m. m \<lparr> cm_head := Some h \<rparr>" and cont = "expect_tag 18 (ConnsvrMsg_parse_startreq rt)"])
      (simp_all add: s1(1) s1(2) ConnsvrMsg_parse_head_def ConnsvrMsg_switch_tags none mutable_fresh
        not_hd_opt M1_def [unfolded put_defs put_part_def option.case, symmetric])
  then show ?thesis
    by (simp add: stage_def ConnsvrMsg_MergePartialFromCodedStream_def ConnsvrMsg_enc_def)
qed

text \<open>What the getters say of an object.\<close>

definition ConnsvrMsg_view :: "'u runtime \<Rightarrow> 'u ConnsvrMsg_pb \<Rightarrow> ConnsvrMsg" where
  "ConnsvrMsg_view rt M = (let h = deref (MsgHead_new rt) (cm_head M) in
     \<lparr> head = \<lparr> cmdid = hd_cmdid h, connid = hd_connid h, port = hd_port h, ip = ip_string (hd_ip h) \<rparr>,
       startreq = (if has_bit 1 M then (let r = deref (StartReq_new rt) (cm_startreq M) in
         Some \<lparr> currentconn = sreq_currentconn r, channelcnt = sreq_channelcnt r \<rparr>) else None),
       startrsp = (if has_bit 2 M then (let r = deref (StartRsp_new rt) (cm_startrsp M) in
         Some \<lparr> accept = srsp_accept r, routechannel = srsp_routechannel r \<rparr>) else None),
       stop = (if has_bit 3 M then Some (stp_timestamp (deref (Stop_new rt) (cm_stop M))) else None),
       route = (if has_bit 4 M then Some (rte_routechannel (deref (Route_new rt) (cm_route M))) else None),
       msgntf = (if has_bit 5 M then Some (ntf_buff (deref (MsgNtf_new rt) (cm_msgntf M))) else None) \<rparr>)"

lemma ConnsvrMsg_view_build: "ConnsvrMsg_view rt (ConnsvrMsg_build rt m) = m"
proof -
  obtain h r1 r2 r3 r4 r5 where "m = \<lparr> head = h, startreq = r1, startrsp = r2, stop = r3, route = r4, msgntf = r5 \<rparr>"
    by (cases m) blast
  then show ?thesis by (auto simp: ConnsvrMsg_view_def ConnsvrMsg_build_bits deref_def)
qed

lemma ConnsvrMsg_build_initialized: "ConnsvrMsg_IsInitialized rt (ConnsvrMsg_build rt m)"
proof -
  have "bit (has_bits (ConnsvrMsg_build rt m)) 0" by (simp add: ConnsvrMsg_build_bits)
  then have "has_bits (ConnsvrMsg_build rt m) AND 1 = 1" by (simp add: and_one_eq bit_0 odd_iff_mod_2_eq_one)
  then show ?thesis
    by (auto simp: ConnsvrMsg_IsInitialized_def ConnsvrMsg_build_bits deref_def msgHead_class.isinit_build
        startReq_class.isinit_build startRsp_class.isinit_build stop_class.isinit_build route_class.isinit_build
        msgNtf_class.isinit_build)
qed

lemma ready_new: "int (length xs) \<le> kDefaultTotalBytesLimit \<Longrightarrow> n \<le> 100 \<Longrightarrow> ready n (CodedInputStream_new xs)"
  by (simp add: ready_def flat_def CodedInputStream_new_def)

definition msg_fits :: "ConnsvrMsg \<Rightarrow> bool" where
  "msg_fits m \<longleftrightarrow> ConnsvrMsg_fits m \<and> int (length (ConnsvrMsg_enc m)) \<le> kDefaultTotalBytesLimit"

lemma msg_fits_bound: "msg_fits m \<Longrightarrow> length (ConnsvrMsg_enc m) < 2 ^ 31"
  by (simp add: msg_fits_def kDefaultTotalBytesLimit_def)

lemma ConnsvrMsg_Clear_new: "writes_ok rt \<Longrightarrow> ConnsvrMsg_Clear rt (ConnsvrMsg_new rt) = ConnsvrMsg_new rt"
  by (simp add: ConnsvrMsg_Clear_def any_bit_def clear_bits_def ConnsvrMsg_new_def writes_ok_def)

text \<open>What the code does to send and to receive an object.\<close>

definition wire_bytes :: "'u runtime \<Rightarrow> 'u ConnsvrMsg_pb \<Rightarrow> byte list" where
  "wire_bytes rt M = ConnsvrMsg_SerializeWithCachedSizesToArray rt (snd (ConnsvrMsg_ByteSize rt M)) []"

lemma wire_bytes_enc: "runtime_ok rt \<Longrightarrow> msg_fits m \<Longrightarrow> wire_bytes rt (ConnsvrMsg_build rt m) = ConnsvrMsg_enc m"
  using ConnsvrMsg_ser_enc [of rt m "[]"] msg_fits_bound [of m] by (simp add: wire_bytes_def msg_fits_def)

lemma parse_wire_bytes:
  assumes "runtime_ok rt" "msg_fits m"
  obtains s where "ConnsvrMsg_MergePartialFromCodedStream rt (ConnsvrMsg_Clear rt (ConnsvrMsg_new rt))
      (CodedInputStream_new (wire_bytes rt (ConnsvrMsg_build rt m))) = Some (True, ConnsvrMsg_build rt m, s)"
    "ConsumedEntireMessage s" "is_buffer s = []"
proof -
  have "parses 1 (ConnsvrMsg_MergePartialFromCodedStream rt) (ConnsvrMsg_new rt) (ConnsvrMsg_enc m) (ConnsvrMsg_build rt m)"
    using ConnsvrMsg_merge_enc [OF assms(1) _ msg_fits_bound [OF assms(2)], of 0] assms(2) by (simp add: msg_fits_def)
  moreover have "ready 1 (CodedInputStream_new (ConnsvrMsg_enc m))"
    using assms(2) by (intro ready_new) (simp_all add: msg_fits_def)
  ultimately show ?thesis
    using that assms by (auto simp: parses_def wire_bytes_enc ended_def CodedInputStream_new_def
        ConnsvrMsg_Clear_new runtime_okD)
qed

section \<open>The parameter of the framing\<close>

text \<open>
  What the headers document of \<open>MessageLite\<close>: \<open>ParseFromArray\<close> is \<open>Clear\<close>, \<open>MergePartialFromCodedStream\<close>
  on a stream over the array and \<open>IsInitialized\<close>, and the stream must have ended with the message;
  \<open>SerializeToArray\<close> is \<open>ByteSize\<close> and \<open>SerializeWithCachedSizesToArray\<close>. A value that does not fit
  the types of its fields is no object; \<open>pb\<close> gives no bytes for it.
\<close>

definition generated_pb :: "'u runtime \<Rightarrow> ConnsvrMsg pb \<Rightarrow> bool" where
  "generated_pb rt pb \<longleftrightarrow> pb_protocolpacket pb \<and>
     (\<forall>m. pb_ByteSize pb m = fst (ConnsvrMsg_ByteSize rt (ConnsvrMsg_build rt m))) \<and>
     (\<forall>m. pb_SerializeToArray pb m =
        (if msg_fits m \<and> ConnsvrMsg_IsInitialized rt (ConnsvrMsg_build rt m)
         then Some (wire_bytes rt (ConnsvrMsg_build rt m)) else None)) \<and>
     (\<forall>xs M s. ConnsvrMsg_MergePartialFromCodedStream rt (ConnsvrMsg_Clear rt (ConnsvrMsg_new rt)) (CodedInputStream_new xs) =
          Some (True, M, s) \<longrightarrow> ConnsvrMsg_IsInitialized rt M \<longrightarrow> ConsumedEntireMessage s \<longrightarrow>
        pb_ParseFromArray pb xs = Some (ConnsvrMsg_view rt M))"

lemma generated_pb_ok:
  assumes ok: "runtime_ok rt" and g: "generated_pb rt pb"
  shows "pb_ok pb"
  unfolding pb_ok_def
proof (intro allI impI)
  fix m xs assume x: "pb_SerializeToArray pb m = Some xs"
  with g have f: "msg_fits m" and xs: "xs = wire_bytes rt (ConnsvrMsg_build rt m)"
    by (simp_all add: generated_pb_def split: if_splits)
  have sz: "pb_ByteSize pb m = int (length xs)"
    using g f ConnsvrMsg_size_enc [OF ok _ msg_fits_bound [OF f]]
    by (simp add: generated_pb_def xs wire_bytes_enc [OF ok] msg_fits_def)
  obtain s where "ConnsvrMsg_MergePartialFromCodedStream rt (ConnsvrMsg_Clear rt (ConnsvrMsg_new rt)) (CodedInputStream_new xs) =
      Some (True, ConnsvrMsg_build rt m, s)" "ConsumedEntireMessage s"
    using parse_wire_bytes [OF ok f] xs by blast
  then have "pb_ParseFromArray pb xs = Some (ConnsvrMsg_view rt (ConnsvrMsg_build rt m))"
    using g ConnsvrMsg_build_initialized [of rt m] by (simp add: generated_pb_def)
  with sz show "pb_ByteSize pb m = int (length xs) \<and> pb_ParseFromArray pb xs = Some m"
    by (simp add: ConnsvrMsg_view_build)
qed

end
