(* ===== verification/ConnsvrInput.thy ===== *)
theory ConnsvrInput
  imports ConnsvrWire
begin

text \<open>
  The parser on arbitrary bytes: it returns, and the object it leaves is well typed. A label of a
  \<open>switch\<close> is safe if it returns, keeps an invariant of the message and never moves the stream back;
  the loop over safe labels is safe because each round reads a tag.
\<close>

section \<open>Any input\<close>

text \<open>The bytes of the array that were not read yet, before and behind the limit.\<close>

definition unread :: "CodedInputStream \<Rightarrow> nat" where
  "unread s = length (is_buffer s) + length (is_after_limit s)"

definition reader_sane :: "('v \<Rightarrow> bool) \<Rightarrow> (CodedInputStream \<Rightarrow> bool \<times> 'v \<times> CodedInputStream) \<Rightarrow> bool" where
  "reader_sane P rd \<longleftrightarrow> (\<forall>s. case rd s of (ok, v, s') \<Rightarrow> unread s' \<le> unread s \<and> P v)"

abbreviation fits_s32 :: "int \<Rightarrow> bool" where "fits_s32 v \<equiv> - 2147483648 \<le> v \<and> v < 2147483648"
abbreviation fits_u64 :: "int \<Rightarrow> bool" where "fits_u64 v \<equiv> 0 \<le> v \<and> v < 18446744073709551616"

text \<open>
  For any input the readers return values of their types and never move back, a tag that is not 0
  was read from at least one byte, and a limit neither reads nor drops a byte.
\<close>

definition runtime_sane :: "'u runtime \<Rightarrow> bool" where
  "runtime_sane rt \<longleftrightarrow>
     reader_sane (\<lambda>v. 0 \<le> v \<and> v < 4294967296) (rt_ReadVarint32Fallback rt) \<and>
     reader_sane (\<lambda>v. 0 \<le> v \<and> v < 18446744073709551616) (rt_ReadVarint64Fallback rt) \<and>
     reader_sane (\<lambda>v. 0 \<le> v \<and> v < 4294967296) (rt_ReadLittleEndian32Fallback rt) \<and>
     reader_sane (\<lambda>v. True) (rt_ReadString rt) \<and> reader_sane (\<lambda>v. True) (rt_ReadBytes rt) \<and>
     (\<forall>s. case rt_ReadTagFallback rt s of (tag, s') \<Rightarrow> unread s' \<le> unread s \<and> (tag \<noteq> 0 \<longrightarrow> unread s' < unread s)) \<and>
     (\<forall>n s. unread (snd (rt_PushLimit rt n s)) = unread s) \<and> (\<forall>l s. unread (rt_PopLimit rt l s) = unread s) \<and>
     (\<forall>t u. reader_sane (\<lambda>v. True) (rt_SkipField rt t u))"

text \<open>A step that returns, keeps an invariant of the message and never moves back.\<close>

definition safe_label :: "('m \<Rightarrow> bool) \<Rightarrow> ('m \<Rightarrow> CodedInputStream \<Rightarrow> ('c \<times> 'm \<times> CodedInputStream) option) \<Rightarrow> bool" where
  "safe_label P label \<longleftrightarrow> (\<forall>m s. P m \<longrightarrow> (\<exists>c m' s'. label m s = Some (c, m', s') \<and> P m' \<and> unread s' \<le> unread s))"

lemma safe_labelD:
  assumes "safe_label P label" "P m"
  obtains c m' s' where "label m s = Some (c, m', s')" "P m'" "unread s' \<le> unread s"
  using assms unfolding safe_label_def by blast

lemma unread_simps [simp]: "unread (Advance k s) \<le> unread s" "unread (s \<lparr> is_last_tag := t \<rparr>) = unread s"
  "unread (s \<lparr> is_legitimate_message_end := b \<rparr>) = unread s" "unread (s \<lparr> is_recursion_depth := d \<rparr>) = unread s"
  by (simp_all add: unread_def Advance_def)

lemma readers_sane:
  assumes "runtime_sane rt"
  shows "reader_sane fits_u32 (ReadPrimitive_UINT32 rt)" "reader_sane fits_s32 (ReadPrimitive_INT32 rt)"
    "reader_sane fits_u64 (ReadPrimitive_UINT64 rt)" "reader_sane fits_u32 (ReadPrimitive_FIXED32 rt)"
proof -
  have b: "0 \<le> uint (x :: byte)" "uint (x :: byte) < 256" for x by (rule byte_uint)+
  have v: "reader_sane fits_u32 (ReadVarint32 rt)"
    unfolding reader_sane_def
  proof
    fix s show "case ReadVarint32 rt s of (ok, v, s') \<Rightarrow> unread s' \<le> unread s \<and> fits_u32 v"
      using assms b(2) [of "is_buffer s ! 0"] by (auto simp: ReadVarint32_def runtime_sane_def reader_sane_def split: prod.splits)
  qed
  then show "reader_sane fits_u32 (ReadPrimitive_UINT32 rt)" by (simp add: reader_sane_def ReadPrimitive_UINT32_def)
  show "reader_sane fits_s32 (ReadPrimitive_INT32 rt)"
    using v by (auto simp: reader_sane_def ReadPrimitive_INT32_def s32_range split: prod.splits)
  show "reader_sane fits_u64 (ReadPrimitive_UINT64 rt)"
    unfolding reader_sane_def
  proof
    fix s show "case ReadPrimitive_UINT64 rt s of (ok, v, s') \<Rightarrow> unread s' \<le> unread s \<and> fits_u64 v"
      using assms b(2) [of "is_buffer s ! 0"]
      by (auto simp: ReadPrimitive_UINT64_def ReadVarint64_def runtime_sane_def reader_sane_def split: prod.splits)
  qed
  show "reader_sane fits_u32 (ReadPrimitive_FIXED32 rt)"
    using assms ntohl_range
    by (auto simp: reader_sane_def ReadPrimitive_FIXED32_def ReadLittleEndian32_def runtime_sane_def split: prod.splits)
qed

lemma safe_expect_end: "safe_label P expect_end"
  by (auto simp: safe_label_def expect_end_def ExpectAtEnd_def)

lemma ExpectTag_unread: "unread (snd (ExpectTag k s)) \<le> unread s"
  by (simp add: ExpectTag_def)

lemma safe_expect_tag:
  assumes "safe_label P label"
  shows "safe_label P (expect_tag k label)"
  unfolding safe_label_def
proof (intro allI impI)
  fix m s assume m: "P m"
  obtain e s1 where e: "ExpectTag k s = (e, s1)" by force
  then have "unread s1 \<le> unread s" using ExpectTag_unread [of k s] by simp
  then show "\<exists>c m' s'. expect_tag k label m s = Some (c, m', s') \<and> P m' \<and> unread s' \<le> unread s"
    using safe_labelD [OF assms m, of s1] m e by (cases e) (auto simp: expect_tag_def, metis le_trans)
qed

lemma safe_read_field:
  assumes rd: "reader_sane Q rd" and put: "\<And>v m. P m \<Longrightarrow> Q v \<Longrightarrow> P (put v m)" and cont: "safe_label P cont"
  shows "safe_label P (read_field rd put cont)"
  unfolding safe_label_def
proof (intro allI impI)
  fix m s assume m: "P m"
  obtain ok v s1 where r: "rd s = (ok, v, s1)" by (cases "rd s") auto
  with rd have v: "unread s1 \<le> unread s" "Q v" by (auto simp: reader_sane_def dest!: spec [of _ s])
  then obtain c m' s' where "cont (put v m) s1 = Some (c, m', s')" "P m'" "unread s' \<le> unread s1"
    using safe_labelD [OF cont put [OF m v(2)], of s1] by blast
  with v(1) m show "\<exists>c m' s'. read_field rd put cont m s = Some (c, m', s') \<and> P m' \<and> unread s' \<le> unread s"
    by (cases ok) (auto simp: read_field_def r)
qed

lemma safe_read_msg:
  assumes rt: "runtime_sane rt" and merge: "safe_label Q merge" and get: "\<And>m. P m \<Longrightarrow> Q (get m)"
    and put: "\<And>c m. P m \<Longrightarrow> Q c \<Longrightarrow> P (put c m)" and cont: "safe_label P cont"
  shows "safe_label P (read_msg rt merge get put cont)"
  unfolding safe_label_def
proof (intro allI impI)
  fix m s assume m: "P m"
  have "\<exists>ok c s'. ReadMessageNoVirtual rt merge (get m) s = Some (ok, c, s') \<and> Q c \<and> unread s' \<le> unread s"
  proof -
    obtain ok len s1 where r: "ReadVarint32 rt s = (ok, len, s1)" by (cases "ReadVarint32 rt s") auto
    have u1: "unread s1 \<le> unread s" using readers_sane(1) [OF rt] r
      by (auto simp: reader_sane_def ReadPrimitive_UINT32_def dest!: spec [of _ s])
    obtain d s2 where d: "IncrementRecursionDepth s1 = (d, s2)" by force
    then have u2: "unread s2 = unread s1" by (auto simp: IncrementRecursionDepth_def Let_def)
    obtain l s3 where l: "rt_PushLimit rt (s32 len) s2 = (l, s3)" by force
    have u3: "unread s3 = unread s2" using rt l by (auto simp: runtime_sane_def) (metis snd_conv)
    obtain k c s4 where k: "merge (get m) s3 = Some (k, c, s4)" "Q c" "unread s4 \<le> unread s3"
      by (rule safe_labelD [OF merge get [OF m]])
    have "unread (DecrementRecursionDepth (rt_PopLimit rt l s4)) = unread s4"
      using rt by (simp add: DecrementRecursionDepth_def runtime_sane_def)
    with u1 u2 u3 k get [OF m] show ?thesis
      by (auto simp: ReadMessageNoVirtual_def r d l split: if_splits)
  qed
  then obtain ok c s1 where r: "ReadMessageNoVirtual rt merge (get m) s = Some (ok, c, s1)" "Q c" "unread s1 \<le> unread s"
    by blast
  obtain e m' s' where "cont (put c m) s1 = Some (e, m', s')" "P m'" "unread s' \<le> unread s1"
    by (rule safe_labelD [OF cont put [OF m r(2)]])
  with r put [OF m r(2)] show "\<exists>c m' s'. read_msg rt merge get put cont m s = Some (c, m', s') \<and> P m' \<and> unread s' \<le> unread s"
    by (cases ok) (auto simp: read_msg_def)
qed

lemma safe_uninterpreted:
  assumes "runtime_sane rt" "\<And>u m. P m \<Longrightarrow> P (m \<lparr> unknown_fields := u \<rparr>)"
  shows "safe_label P (handle_uninterpreted rt tag)"
  unfolding safe_label_def
proof (intro allI impI)
  fix m s assume m: "P m"
  obtain ok u s1 where "rt_SkipField rt tag (unknown_fields m) s = (ok, u, s1)"
    by (cases "rt_SkipField rt tag (unknown_fields m) s") auto
  moreover from this assms(1) have "unread s1 \<le> unread s"
    by (auto simp: runtime_sane_def reader_sane_def) (metis (no_types, lifting) case_prod_conv)
  ultimately show "\<exists>c m' s'. handle_uninterpreted rt tag m s = Some (c, m', s') \<and> P m' \<and> unread s' \<le> unread s"
    using m assms(2) [OF m] by (auto simp: handle_uninterpreted_def)
qed

lemma ReadTag_unread:
  assumes "runtime_sane rt" "ReadTag rt s = (tag, s')" "tag \<noteq> 0"
  shows "unread s' < unread s"
proof (cases "BufferSize s > 0 \<and> is_buffer s ! 0 < 0x80")
  case True
  with assms(2) show ?thesis by (auto simp: ReadTag_def unread_def Advance_def BufferSize_def)
next
  case False
  obtain t s1 where t: "rt_ReadTagFallback rt s = (t, s1)" by force
  with assms(1) have "t \<noteq> 0 \<Longrightarrow> unread s1 < unread s" by (auto simp: runtime_sane_def dest!: spec [of _ s])
  with False t assms(2,3) show ?thesis by (auto simp: ReadTag_def)
qed

text \<open>Every round of the loop reads a tag, so the loop ends.\<close>

lemma safe_merge_loop:
  assumes rt: "runtime_sane rt" and sw: "\<And>tag. safe_label P (switch tag)"
  shows "safe_label P (merge_loop rt switch)"
proof -
  have "P m \<Longrightarrow> \<exists>ok m' s'. merge_loop rt switch m s = Some (ok, m', s') \<and> P m' \<and> unread s' \<le> unread s" for m s
  proof (induction "unread s" arbitrary: m s rule: less_induct)
    case less
    obtain tag s1 where t: "ReadTag rt s = (tag, s1)" by force
    show ?case
    proof (cases "tag = 0")
      case True
      have "unread s1 \<le> unread s"
      proof (cases "BufferSize s > 0 \<and> is_buffer s ! 0 < 0x80")
        case True
        with t show ?thesis by (auto simp: ReadTag_def unread_def Advance_def)
      next
        case False
        with t rt show ?thesis by (auto simp: ReadTag_def runtime_sane_def split: prod.splits dest!: spec [of _ s])
      qed
      with True t less.prems show ?thesis by (subst merge_loop.simps) auto
    next
      case False
      from ReadTag_unread [OF rt t False] have u: "unread s1 < unread s" .
      obtain c m2 s2 where s2: "switch tag m s1 = Some (c, m2, s2)" "P m2" "unread s2 \<le> unread s1"
        by (rule safe_labelD [OF sw less.prems])
      show ?thesis
      proof (cases c)
        case CBreak
        from s2(3) u have "unread s2 < unread s" by simp
        from less.hyps [OF this s2(2)] obtain ok m' s' where
          "merge_loop rt switch m2 s2 = Some (ok, m', s')" "P m'" "unread s' \<le> unread s2" by blast
        with \<open>unread s2 < unread s\<close> False t s2 CBreak show ?thesis by (subst merge_loop.simps) simp
      next
        case (CReturn ok)
        with False t s2 u show ?thesis by (subst merge_loop.simps) simp
      qed
    qed
  qed
  then show ?thesis by (simp add: safe_label_def)
qed

text \<open>The values of an object are values of the types of its fields.\<close>

definition StartReq_typed :: "'u StartReq_pb \<Rightarrow> bool" where
  "StartReq_typed m \<longleftrightarrow> fits_u32 (sreq_currentconn m) \<and> fits_u32 (sreq_channelcnt m)"

definition StartRsp_typed :: "'u StartRsp_pb \<Rightarrow> bool" where
  "StartRsp_typed m \<longleftrightarrow> fits_s32 (srsp_accept m) \<and> fits_u32 (srsp_routechannel m)"

definition Stop_typed :: "'u Stop_pb \<Rightarrow> bool" where
  "Stop_typed m \<longleftrightarrow> fits_u64 (stp_timestamp m)"

definition Route_typed :: "'u Route_pb \<Rightarrow> bool" where
  "Route_typed m \<longleftrightarrow> fits_u32 (rte_routechannel m)"

definition MsgHead_typed :: "'u MsgHead_pb \<Rightarrow> bool" where
  "MsgHead_typed m \<longleftrightarrow> fits_u32 (hd_cmdid m) \<and> fits_u32 (hd_connid m) \<and> fits_u32 (hd_port m)"

lemma safe_prep: "(\<And>m. P m \<Longrightarrow> P (f m)) \<Longrightarrow> safe_label P label \<Longrightarrow> safe_label P (\<lambda>m. label (f m))"
  unfolding safe_label_def by blast

lemma safe_if: "(b \<Longrightarrow> safe_label P x) \<Longrightarrow> (\<not> b \<Longrightarrow> safe_label P y) \<Longrightarrow> safe_label P (\<lambda>m s. if b then x m s else y m s)"
  by (cases b) simp_all

lemma reader_true: "runtime_sane rt \<Longrightarrow> reader_sane (\<lambda>v. True) (rt_ReadString rt)" "runtime_sane rt \<Longrightarrow> reader_sane (\<lambda>v. True) (rt_ReadBytes rt)"
  by (simp_all add: runtime_sane_def)

lemma StartReq_merge_safe:
  assumes rt: "runtime_sane rt"
  shows "safe_label StartReq_typed (StartReq_MergePartialFromCodedStream rt)"
proof -
  have p1: "safe_label StartReq_typed (StartReq_parse_channelcnt rt)"
    unfolding StartReq_parse_channelcnt_def
    by (rule safe_read_field [OF readers_sane(1) [OF rt] _ safe_expect_end]) (simp add: set_has_bit_def StartReq_typed_def)
  have p0: "safe_label StartReq_typed (StartReq_parse_currentconn rt)"
    unfolding StartReq_parse_currentconn_def
    by (rule safe_read_field [OF readers_sane(1) [OF rt] _ safe_expect_tag [OF p1]]) (simp add: set_has_bit_def StartReq_typed_def)
  have u: "safe_label StartReq_typed (handle_uninterpreted rt tag)" for tag
    by (rule safe_uninterpreted [OF rt]) (simp add: StartReq_typed_def)
  have "safe_label StartReq_typed (StartReq_switch rt tag)" for tag
    unfolding StartReq_switch_def [abs_def] by (intro safe_if p0 p1 u)
  then show ?thesis unfolding StartReq_MergePartialFromCodedStream_def by (rule safe_merge_loop [OF rt])
qed

lemma StartRsp_merge_safe:
  assumes rt: "runtime_sane rt"
  shows "safe_label StartRsp_typed (StartRsp_MergePartialFromCodedStream rt)"
proof -
  have p1: "safe_label StartRsp_typed (StartRsp_parse_routechannel rt)"
    unfolding StartRsp_parse_routechannel_def
    by (rule safe_read_field [OF readers_sane(1) [OF rt] _ safe_expect_end]) (simp add: set_has_bit_def StartRsp_typed_def)
  have p0: "safe_label StartRsp_typed (StartRsp_parse_accept rt)"
    unfolding StartRsp_parse_accept_def
    by (rule safe_read_field [OF readers_sane(2) [OF rt] _ safe_expect_tag [OF p1]]) (simp add: set_has_bit_def StartRsp_typed_def)
  have u: "safe_label StartRsp_typed (handle_uninterpreted rt tag)" for tag
    by (rule safe_uninterpreted [OF rt]) (simp add: StartRsp_typed_def)
  have "safe_label StartRsp_typed (StartRsp_switch rt tag)" for tag
    unfolding StartRsp_switch_def [abs_def] by (intro safe_if p0 p1 u)
  then show ?thesis unfolding StartRsp_MergePartialFromCodedStream_def by (rule safe_merge_loop [OF rt])
qed

lemma Stop_merge_safe:
  assumes rt: "runtime_sane rt"
  shows "safe_label Stop_typed (Stop_MergePartialFromCodedStream rt)"
proof -
  have p0: "safe_label Stop_typed (Stop_parse_timestamp rt)"
    unfolding Stop_parse_timestamp_def
    by (rule safe_read_field [OF readers_sane(3) [OF rt] _ safe_expect_end]) (simp add: set_has_bit_def Stop_typed_def)
  have u: "safe_label Stop_typed (handle_uninterpreted rt tag)" for tag
    by (rule safe_uninterpreted [OF rt]) (simp add: Stop_typed_def)
  have "safe_label Stop_typed (Stop_switch rt tag)" for tag
    unfolding Stop_switch_def [abs_def] by (intro safe_if p0 u)
  then show ?thesis unfolding Stop_MergePartialFromCodedStream_def by (rule safe_merge_loop [OF rt])
qed

lemma Route_merge_safe:
  assumes rt: "runtime_sane rt"
  shows "safe_label Route_typed (Route_MergePartialFromCodedStream rt)"
proof -
  have p0: "safe_label Route_typed (Route_parse_routechannel rt)"
    unfolding Route_parse_routechannel_def
    by (rule safe_read_field [OF readers_sane(1) [OF rt] _ safe_expect_end]) (simp add: set_has_bit_def Route_typed_def)
  have u: "safe_label Route_typed (handle_uninterpreted rt tag)" for tag
    by (rule safe_uninterpreted [OF rt]) (simp add: Route_typed_def)
  have "safe_label Route_typed (Route_switch rt tag)" for tag
    unfolding Route_switch_def [abs_def] by (intro safe_if p0 u)
  then show ?thesis unfolding Route_MergePartialFromCodedStream_def by (rule safe_merge_loop [OF rt])
qed

lemma MsgNtf_merge_safe:
  assumes rt: "runtime_sane rt"
  shows "safe_label (\<lambda>m. True) (MsgNtf_MergePartialFromCodedStream rt)"
proof -
  have p0: "safe_label (\<lambda>m. True) (MsgNtf_parse_buff rt)"
    unfolding MsgNtf_parse_buff_def
    by (rule safe_prep [where f = "set_has_bit 0"]; (rule safe_read_field [OF reader_true(2) [OF rt] _ safe_expect_end])?) (simp_all add: set_has_bit_def)
  have u: "safe_label (\<lambda>m. True) (handle_uninterpreted rt tag)" for tag
    by (rule safe_uninterpreted [OF rt]) (simp)
  have "safe_label (\<lambda>m. True) (MsgNtf_switch rt tag)" for tag
    unfolding MsgNtf_switch_def [abs_def] by (intro safe_if p0 u)
  then show ?thesis unfolding MsgNtf_MergePartialFromCodedStream_def by (rule safe_merge_loop [OF rt])
qed

lemma MsgHead_merge_safe:
  assumes rt: "runtime_sane rt"
  shows "safe_label MsgHead_typed (MsgHead_MergePartialFromCodedStream rt)"
proof -
  have p3: "safe_label MsgHead_typed (MsgHead_parse_ip rt)"
    unfolding MsgHead_parse_ip_def
    by (rule safe_prep [where f = "set_has_bit 3"]; (rule safe_read_field [OF reader_true(1) [OF rt] _ safe_expect_end])?) (simp_all add: set_has_bit_def MsgHead_typed_def)
  have p2: "safe_label MsgHead_typed (MsgHead_parse_port rt)"
    unfolding MsgHead_parse_port_def
    by (rule safe_read_field [OF readers_sane(1) [OF rt] _ safe_expect_tag [OF p3]]) (simp add: set_has_bit_def MsgHead_typed_def)
  have p1: "safe_label MsgHead_typed (MsgHead_parse_connid rt)"
    unfolding MsgHead_parse_connid_def
    by (rule safe_read_field [OF readers_sane(4) [OF rt] _ safe_expect_tag [OF p2]]) (simp add: set_has_bit_def MsgHead_typed_def)
  have p0: "safe_label MsgHead_typed (MsgHead_parse_cmdid rt)"
    unfolding MsgHead_parse_cmdid_def
    by (rule safe_read_field [OF readers_sane(4) [OF rt] _ safe_expect_tag [OF p1]]) (simp add: set_has_bit_def MsgHead_typed_def)
  have u: "safe_label MsgHead_typed (handle_uninterpreted rt tag)" for tag
    by (rule safe_uninterpreted [OF rt]) (simp add: MsgHead_typed_def)
  have "safe_label MsgHead_typed (MsgHead_switch rt tag)" for tag
    unfolding MsgHead_switch_def [abs_def] by (intro safe_if p0 p1 p2 p3 u)
  then show ?thesis unfolding MsgHead_MergePartialFromCodedStream_def by (rule safe_merge_loop [OF rt])
qed

text \<open>A present part is allocated, and its values have their types.\<close>

definition part_typed :: "('c \<Rightarrow> bool) \<Rightarrow> bool \<Rightarrow> 'c option \<Rightarrow> bool" where
  "part_typed P present p \<longleftrightarrow> (case p of None \<Rightarrow> \<not> present | Some c \<Rightarrow> P c)"

definition ConnsvrMsg_typed :: "'u ConnsvrMsg_pb \<Rightarrow> bool" where
  "ConnsvrMsg_typed m \<longleftrightarrow>
     part_typed MsgHead_typed (has_bit 0 m) (cm_head m) \<and>
     part_typed StartReq_typed (has_bit 1 m) (cm_startreq m) \<and>
     part_typed StartRsp_typed (has_bit 2 m) (cm_startrsp m) \<and>
     part_typed Stop_typed (has_bit 3 m) (cm_stop m) \<and>
     part_typed Route_typed (has_bit 4 m) (cm_route m) \<and>
     part_typed (\<lambda>c. True) (has_bit 5 m) (cm_msgntf m)"

lemmas typed_defs = StartReq_typed_def StartRsp_typed_def Stop_typed_def Route_typed_def MsgHead_typed_def

lemmas new_defs = StartReq_new_def StartRsp_new_def Stop_new_def Route_new_def MsgNtf_new_def MsgHead_new_def

lemma deref_typed: "part_typed P b p \<Longrightarrow> P d \<Longrightarrow> P (deref d p)"
  by (auto simp: part_typed_def deref_def split: option.splits)

lemma bit_has_set: "bit (has_bits (set_has_bit j m)) k \<longleftrightarrow> bit (has_bits m) k \<or> k = j \<and> k < 32"
  by (simp only: has_bits_set bit_set_32)

lemma cm_set [simp]: "cm_head (set_has_bit k m) = cm_head m" "cm_startreq (set_has_bit k m) = cm_startreq m" "cm_startrsp (set_has_bit k m) = cm_startrsp m" "cm_stop (set_has_bit k m) = cm_stop m" "cm_route (set_has_bit k m) = cm_route m" "cm_msgntf (set_has_bit k m) = cm_msgntf m"
  by (simp_all add: set_has_bit_def)

lemma part_typed_Some: "part_typed P b (Some c) = P c"
  by (simp add: part_typed_def)

lemma new_typed: "StartReq_typed (StartReq_new rt)" "StartRsp_typed (StartRsp_new rt)" "Stop_typed (Stop_new rt)" "Route_typed (Route_new rt)" "MsgHead_typed (MsgHead_new rt)"
  by (simp_all add: typed_defs new_defs)

lemma ConnsvrMsg_typed_set:
  "ConnsvrMsg_typed m \<Longrightarrow> ConnsvrMsg_typed (mutable_head rt m)"
  "ConnsvrMsg_typed m \<Longrightarrow> ConnsvrMsg_typed (mutable_startreq rt m)"
  "ConnsvrMsg_typed m \<Longrightarrow> ConnsvrMsg_typed (mutable_startrsp rt m)"
  "ConnsvrMsg_typed m \<Longrightarrow> ConnsvrMsg_typed (mutable_stop rt m)"
  "ConnsvrMsg_typed m \<Longrightarrow> ConnsvrMsg_typed (mutable_route rt m)"
  "ConnsvrMsg_typed m \<Longrightarrow> ConnsvrMsg_typed (mutable_msgntf rt m)"
  "ConnsvrMsg_typed m \<Longrightarrow> MsgHead_typed c0 \<Longrightarrow> ConnsvrMsg_typed (m \<lparr> cm_head := Some c0 \<rparr>)"
  "ConnsvrMsg_typed m \<Longrightarrow> StartReq_typed c1 \<Longrightarrow> ConnsvrMsg_typed (m \<lparr> cm_startreq := Some c1 \<rparr>)"
  "ConnsvrMsg_typed m \<Longrightarrow> StartRsp_typed c2 \<Longrightarrow> ConnsvrMsg_typed (m \<lparr> cm_startrsp := Some c2 \<rparr>)"
  "ConnsvrMsg_typed m \<Longrightarrow> Stop_typed c3 \<Longrightarrow> ConnsvrMsg_typed (m \<lparr> cm_stop := Some c3 \<rparr>)"
  "ConnsvrMsg_typed m \<Longrightarrow> Route_typed c4 \<Longrightarrow> ConnsvrMsg_typed (m \<lparr> cm_route := Some c4 \<rparr>)"
  "ConnsvrMsg_typed m \<Longrightarrow> ConnsvrMsg_typed (m \<lparr> cm_msgntf := Some c5 \<rparr>)"
  by (auto simp: ConnsvrMsg_typed_def mutable_defs bit_has_set part_typed_Some simp del: has_bits_set intro: deref_typed new_typed)

lemma ConnsvrMsg_safe:
  assumes rt: "runtime_sane rt"
  shows "safe_label ConnsvrMsg_typed (ConnsvrMsg_MergePartialFromCodedStream rt)"
proof -
  have p5: "safe_label ConnsvrMsg_typed (ConnsvrMsg_parse_msgntf rt)"
    unfolding ConnsvrMsg_parse_msgntf_def
    by (rule safe_prep [where f = "mutable_msgntf rt"], erule ConnsvrMsg_typed_set, rule safe_read_msg [OF rt MsgNtf_merge_safe [OF rt] _ _ safe_expect_end])
      (auto intro: ConnsvrMsg_typed_set deref_typed new_typed simp: ConnsvrMsg_typed_def part_typed_Some)
  have p4: "safe_label ConnsvrMsg_typed (ConnsvrMsg_parse_route rt)"
    unfolding ConnsvrMsg_parse_route_def
    by (rule safe_prep [where f = "mutable_route rt"], erule ConnsvrMsg_typed_set, rule safe_read_msg [OF rt Route_merge_safe [OF rt] _ _ safe_expect_tag [OF p5]])
      (auto intro: ConnsvrMsg_typed_set deref_typed new_typed simp: ConnsvrMsg_typed_def part_typed_Some)
  have p3: "safe_label ConnsvrMsg_typed (ConnsvrMsg_parse_stop rt)"
    unfolding ConnsvrMsg_parse_stop_def
    by (rule safe_prep [where f = "mutable_stop rt"], erule ConnsvrMsg_typed_set, rule safe_read_msg [OF rt Stop_merge_safe [OF rt] _ _ safe_expect_tag [OF p4]])
      (auto intro: ConnsvrMsg_typed_set deref_typed new_typed simp: ConnsvrMsg_typed_def part_typed_Some)
  have p2: "safe_label ConnsvrMsg_typed (ConnsvrMsg_parse_startrsp rt)"
    unfolding ConnsvrMsg_parse_startrsp_def
    by (rule safe_prep [where f = "mutable_startrsp rt"], erule ConnsvrMsg_typed_set, rule safe_read_msg [OF rt StartRsp_merge_safe [OF rt] _ _ safe_expect_tag [OF p3]])
      (auto intro: ConnsvrMsg_typed_set deref_typed new_typed simp: ConnsvrMsg_typed_def part_typed_Some)
  have p1: "safe_label ConnsvrMsg_typed (ConnsvrMsg_parse_startreq rt)"
    unfolding ConnsvrMsg_parse_startreq_def
    by (rule safe_prep [where f = "mutable_startreq rt"], erule ConnsvrMsg_typed_set, rule safe_read_msg [OF rt StartReq_merge_safe [OF rt] _ _ safe_expect_tag [OF p2]])
      (auto intro: ConnsvrMsg_typed_set deref_typed new_typed simp: ConnsvrMsg_typed_def part_typed_Some)
  have p0: "safe_label ConnsvrMsg_typed (ConnsvrMsg_parse_head rt)"
    unfolding ConnsvrMsg_parse_head_def
    by (rule safe_prep [where f = "mutable_head rt"], erule ConnsvrMsg_typed_set, rule safe_read_msg [OF rt MsgHead_merge_safe [OF rt] _ _ safe_expect_tag [OF p1]])
      (auto intro: ConnsvrMsg_typed_set deref_typed new_typed simp: ConnsvrMsg_typed_def part_typed_Some)
  have u: "safe_label ConnsvrMsg_typed (handle_uninterpreted rt tag)" for tag
    by (rule safe_uninterpreted [OF rt]) (simp add: ConnsvrMsg_typed_def)
  have "safe_label ConnsvrMsg_typed (ConnsvrMsg_switch rt tag)" for tag
    unfolding ConnsvrMsg_switch_def [abs_def] by (intro safe_if p0 p1 p2 p3 p4 p5 u)
  then show ?thesis unfolding ConnsvrMsg_MergePartialFromCodedStream_def by (rule safe_merge_loop [OF rt])
qed

end
