(* ===== verification/ConnsvrCodec.thy ===== *)
theory ConnsvrCodec
  imports ConnsvrInput
begin

text \<open>
  The properties of the generated message classes, with a runtime that satisfies what the headers
  document, so that their hypotheses hold somewhere.
\<close>

section \<open>Copying a message\<close>

lemma any_bit_build:
  "any_bit (StartReq_build rt a)" "any_bit (StartRsp_build rt b)" "any_bit (Stop_build rt c)" "any_bit (Route_build rt c)"
  "any_bit (MsgNtf_build rt d)" "any_bit (MsgHead_build rt h)" "any_bit (ConnsvrMsg_build rt m)"
  by (rule any_bitI [of 0]; simp add: ConnsvrMsg_build_bits)+

lemma merge_unknown_fields [simp]:
  "has_bits (merge_unknown rt from m) = has_bits m" "sreq_currentconn (merge_unknown rt from a) = sreq_currentconn a"
  "sreq_channelcnt (merge_unknown rt from a) = sreq_channelcnt a" "srsp_accept (merge_unknown rt from b) = srsp_accept b"
  "srsp_routechannel (merge_unknown rt from b) = srsp_routechannel b" "stp_timestamp (merge_unknown rt from c) = stp_timestamp c"
  "rte_routechannel (merge_unknown rt from d) = rte_routechannel d" "ntf_buff (merge_unknown rt from e) = ntf_buff e"
  "hd_cmdid (merge_unknown rt from f) = hd_cmdid f" "hd_connid (merge_unknown rt from f) = hd_connid f"
  "hd_port (merge_unknown rt from f) = hd_port f" "hd_ip (merge_unknown rt from f) = hd_ip f"
  "cm_head (merge_unknown rt from g) = cm_head g" "cm_startreq (merge_unknown rt from g) = cm_startreq g"
  "cm_startrsp (merge_unknown rt from g) = cm_startrsp g" "cm_stop (merge_unknown rt from g) = cm_stop g"
  "cm_route (merge_unknown rt from g) = cm_route g" "cm_msgntf (merge_unknown rt from g) = cm_msgntf g"
  by (simp_all add: merge_unknown_def)

text \<open>Merging a part that was built by its setters overwrites every field.\<close>

lemma MergeFrom_build:
  "sreq_currentconn (StartReq_MergeFrom rt (StartReq_build rt a) x) = currentconn a"
  "sreq_channelcnt (StartReq_MergeFrom rt (StartReq_build rt a) x) = channelcnt a"
  "srsp_accept (StartRsp_MergeFrom rt (StartRsp_build rt b) y) = accept b"
  "srsp_routechannel (StartRsp_MergeFrom rt (StartRsp_build rt b) y) = routechannel b"
  "stp_timestamp (Stop_MergeFrom rt (Stop_build rt c) z) = c"
  "rte_routechannel (Route_MergeFrom rt (Route_build rt c) u) = c"
  "ntf_buff (MsgNtf_MergeFrom rt (MsgNtf_build rt d) v) = d"
  "hd_cmdid (MsgHead_MergeFrom rt (MsgHead_build rt h) w) = cmdid h" "hd_connid (MsgHead_MergeFrom rt (MsgHead_build rt h) w) = connid h"
  "hd_port (MsgHead_MergeFrom rt (MsgHead_build rt h) w) = port h" "hd_ip (MsgHead_MergeFrom rt (MsgHead_build rt h) w) = ip_bytes (ip h)"
  by (simp_all add: StartReq_MergeFrom_def StartRsp_MergeFrom_def Stop_MergeFrom_def Route_MergeFrom_def MsgNtf_MergeFrom_def
      MsgHead_MergeFrom_def any_bit_build StartReq_set_defs StartRsp_set_defs Stop_set_defs Route_set_defs MsgNtf_set_defs
      MsgHead_set_defs set_has_bit_def)

lemma ConnsvrMsg_MergeFrom_build:
  defines "X \<equiv> \<lambda>rt m M. ConnsvrMsg_MergeFrom rt (ConnsvrMsg_build rt m) M"
  shows "cm_head (X rt m M) = Some (MsgHead_MergeFrom rt (MsgHead_build rt (head m)) (deref (MsgHead_new rt) (cm_head M)))"
    and "startreq m = Some a1 \<Longrightarrow> cm_startreq (X rt m M) =
      Some (StartReq_MergeFrom rt (StartReq_build rt a1) (deref (StartReq_new rt) (cm_startreq M)))"
    and "startrsp m = Some a2 \<Longrightarrow> cm_startrsp (X rt m M) =
      Some (StartRsp_MergeFrom rt (StartRsp_build rt a2) (deref (StartRsp_new rt) (cm_startrsp M)))"
    and "stop m = Some a3 \<Longrightarrow> cm_stop (X rt m M) = Some (Stop_MergeFrom rt (Stop_build rt a3) (deref (Stop_new rt) (cm_stop M)))"
    and "route m = Some a4 \<Longrightarrow> cm_route (X rt m M) = Some (Route_MergeFrom rt (Route_build rt a4) (deref (Route_new rt) (cm_route M)))"
    and "msgntf m = Some a5 \<Longrightarrow> cm_msgntf (X rt m M) = Some (MsgNtf_MergeFrom rt (MsgNtf_build rt a5) (deref (MsgNtf_new rt) (cm_msgntf M)))"
    and "k < 32 \<Longrightarrow> bit (has_bits (X rt m M)) k \<longleftrightarrow> bit (has_bits M) k \<or> bit (has_bits (ConnsvrMsg_build rt m)) k"
  by (simp_all add: X_def ConnsvrMsg_MergeFrom_def any_bit_build ConnsvrMsg_build_bits merge_msg_def mutable_defs deref_def bit_has_set
      Let_def del: has_bits_set)

lemma ConnsvrMsg_CopyFrom_view: "ConnsvrMsg_view rt (ConnsvrMsg_CopyFrom rt (ConnsvrMsg_build rt m) M) = m"
proof -
  obtain h r1 r2 r3 r4 r5 where m: "m = \<lparr> head = h, startreq = r1, startrsp = r2, stop = r3, route = r4, msgntf = r5 \<rparr>"
    by (cases m) blast
  have z: "has_bits (ConnsvrMsg_Clear rt M) = 0" by (simp add: ConnsvrMsg_Clear_def clear_bits_def)
  show ?thesis unfolding ConnsvrMsg_CopyFrom_def
    by (cases r1; cases r2; cases r3; cases r4; cases r5;
        simp add: m ConnsvrMsg_view_def ConnsvrMsg_MergeFrom_build(1-6) ConnsvrMsg_MergeFrom_build(7) z deref_def MergeFrom_build
          ConnsvrMsg_build_bits Let_def)
qed

section \<open>A runtime\<close>

text \<open>An implementation of what the headers document, without unknown fields.\<close>

fun decode :: "byte list \<Rightarrow> (nat \<times> byte list) option" where
  "decode [] = None"
| "decode (b # bs) = (if b < 128 then Some (unat b, bs)
     else (case decode bs of None \<Rightarrow> None | Some (n, r) \<Rightarrow> Some (unat b - 128 + 128 * n, r)))"

definition ref_read :: "(int \<Rightarrow> int) \<Rightarrow> CodedInputStream \<Rightarrow> bool \<times> int \<times> CodedInputStream" where
  "ref_read trunc s = (case decode (is_buffer s) of None \<Rightarrow> (False, 0, s)
     | Some (n, r) \<Rightarrow> (True, trunc (int n), s \<lparr> is_buffer := r \<rparr>))"

definition ref_bytes :: "CodedInputStream \<Rightarrow> bool \<times> byte list \<times> CodedInputStream" where
  "ref_bytes s = (case decode (is_buffer s) of None \<Rightarrow> (False, [], s)
     | Some (n, r) \<Rightarrow> if n \<le> length r then (True, take n r, s \<lparr> is_buffer := drop n r \<rparr>) else (False, [], s))"

definition ref_push :: "int \<Rightarrow> CodedInputStream \<Rightarrow> int \<times> CodedInputStream" where
  "ref_push n s = (is_current_limit s, if 0 \<le> n \<and> n \<le> int (length (is_buffer s))
     then s \<lparr> is_buffer := take (nat n) (is_buffer s), is_after_limit := drop (nat n) (is_buffer s) @ is_after_limit s,
            is_current_limit := is_current_limit s - (int (length (is_buffer s)) - n) \<rparr>
     else s)"

definition ref_pop :: "int \<Rightarrow> CodedInputStream \<Rightarrow> CodedInputStream" where
  "ref_pop lim s = (let k = nat (lim - is_current_limit s) in
     s \<lparr> is_buffer := is_buffer s @ take k (is_after_limit s), is_after_limit := drop k (is_after_limit s),
         is_current_limit := lim, is_legitimate_message_end := False \<rparr>)"

definition ref_runtime :: "unit runtime" where
  "ref_runtime = \<lparr> rt_ReadVarint32Fallback = ref_read u32, rt_ReadVarint64Fallback = ref_read u64,
     rt_ReadLittleEndian32Fallback = (\<lambda>s. (False, 0, s)),
     rt_ReadTagFallback = (\<lambda>s. if is_buffer s = [] then (0, s \<lparr> is_legitimate_message_end := True \<rparr>)
        else (let (ok, v, s) = ref_read u32 s in (if ok then v else 0, s))),
     rt_ReadString = ref_bytes, rt_ReadBytes = ref_bytes, rt_PushLimit = ref_push, rt_PopLimit = ref_pop,
     rt_SkipField = (\<lambda>tag u s. (False, u, s)),
     rt_WriteVarint32FallbackToArray = (\<lambda>v t. t @ varint (nat v)), rt_WriteVarint64ToArray = (\<lambda>v t. t @ varint (nat v)),
     rt_WriteRawToArray = (\<lambda>xs t. t @ xs), rt_VarintSize32Fallback = (\<lambda>v. int (length (varint (nat v)))),
     rt_VarintSize64 = (\<lambda>v. int (length (varint (nat v)))), rt_unknown_new = (), rt_unknown_empty = (\<lambda>u. True),
     rt_unknown_Clear = (\<lambda>u. ()), rt_unknown_MergeFrom = (\<lambda>u v. ()), rt_SerializeUnknownFieldsToArray = (\<lambda>u t. t),
     rt_ComputeUnknownFieldsSize = (\<lambda>u. 0) \<rparr>"

lemma decode_varint: "decode (varint n @ xs) = Some (n, xs)"
proof (induction n rule: varint.induct)
  case (1 n)
  show ?case
  proof (cases "n < 128")
    case True
    then show ?thesis using byte_of_small [of n] by (simp add: varint_small unat_of_nat)
  next
    case False
    let ?b = "of_nat (n mod 128 + 128) :: byte"
    have u: "unat ?b = n mod 128 + 128" by (simp only: unat_of_nat) simp
    then have "\<not> ?b < 128" by (simp only: word_less_nat_alt) simp
    with False 1 u show ?thesis by (simp add: varint.simps [of n] mod_mult_div_eq)
  qed
qed

lemma decode_shorter: "decode bs = Some (n, r) \<Longrightarrow> length r < length bs"
  by (induction bs arbitrary: n r) (auto split: if_splits option.splits prod.splits intro: less_SucI)

lemma ref_runtime_ok: "runtime_ok ref_runtime"
proof -
  have "writes_ok ref_runtime" by (simp add: writes_ok_def ref_runtime_def)
  moreover have "reads_ok ref_runtime"
    by (auto simp: reads_ok_def ref_runtime_def ref_read_def ref_bytes_def decode_varint u64_id)
  moreover have "limits_ok ref_runtime"
    by (auto simp: limits_ok_def ref_runtime_def ref_push_def ref_pop_def)
  ultimately show ?thesis by (simp add: runtime_ok_def)
qed

lemma ref_runtime_sane: "runtime_sane ref_runtime"
proof -
  have r: "reader_sane P (ref_read trunc)" if "\<And>n. P (trunc n)" "P 0" for P trunc
    using that by (auto simp: reader_sane_def ref_read_def unread_def split: option.splits dest!: decode_shorter)
  have b: "reader_sane (\<lambda>v. True) ref_bytes"
    by (auto simp: reader_sane_def ref_bytes_def unread_def split: option.splits dest!: decode_shorter)
  have "0 \<le> u64 n \<and> u64 n < 18446744073709551616" for n by (simp add: u64_def)
  then have "reader_sane fits_u64 (ref_read u64)" by (intro r) auto
  moreover have "reader_sane fits_u32 (ref_read u32)" using u32_range by (intro r) auto
  moreover have "unread (snd (ref_push n s)) = unread s" for n s
    by (auto simp: ref_push_def unread_def)
  moreover have "unread (ref_pop l s) = unread s" for l s
    by (simp add: ref_pop_def unread_def Let_def)
  moreover have "case rt_ReadTagFallback ref_runtime s of (tag, s') \<Rightarrow> unread s' \<le> unread s \<and> (tag \<noteq> 0 \<longrightarrow> unread s' < unread s)" for s
    by (auto simp: ref_runtime_def ref_read_def unread_def split: option.splits dest!: decode_shorter)
  ultimately show ?thesis using b
    by (simp add: runtime_sane_def ref_runtime_def) (simp add: reader_sane_def)
qed

section \<open>Properties\<close>

text \<open>A notification with four bytes of payload, a negative answer and its parser.\<close>

definition sample_msg :: ConnsvrMsg where
  "sample_msg = \<lparr> head = \<lparr> cmdid = 4, connid = 300, port = 8080, ip = ''10.0.0.1'' \<rparr>, startreq = None,
     startrsp = Some \<lparr> accept = - 1, routechannel = 200 \<rparr>, stop = None, route = None, msgntf = Some [1, 2, 3, 255] \<rparr>"

lemma sample_fits: "msg_fits sample_msg"
proof -
  have e: "enc_int32 (- 1) = [255, 255, 255, 255, 255, 255, 255, 255, 255, 1]"
    by (simp add: enc_int32_def u64_def varint.simps)
  show ?thesis
    by (simp add: msg_fits_def sample_msg_def ConnsvrMsg_fits_def part_fits_def MsgHead_fits_def StartRsp_fits_def MsgNtf_fits_def
        ConnsvrMsg_enc_def opt_part_def MsgHead_enc_def StartRsp_enc_def MsgNtf_enc_def ip_bytes_def enc_bytes_def enc_uint_def e
        varint.simps kDefaultTotalBytesLimit_def)
qed

definition sample_pb :: "ConnsvrMsg pb" where
  "sample_pb = \<lparr> pb_ByteSize = (\<lambda>m. fst (ConnsvrMsg_ByteSize ref_runtime (ConnsvrMsg_build ref_runtime m))),
     pb_SerializeToArray = (\<lambda>m. if msg_fits m \<and> ConnsvrMsg_IsInitialized ref_runtime (ConnsvrMsg_build ref_runtime m)
        then Some (wire_bytes ref_runtime (ConnsvrMsg_build ref_runtime m)) else None),
     pb_ParseFromArray = (\<lambda>xs. case ConnsvrMsg_MergePartialFromCodedStream ref_runtime
          (ConnsvrMsg_Clear ref_runtime (ConnsvrMsg_new ref_runtime)) (CodedInputStream_new xs) of
        Some (ok, M, s) \<Rightarrow> if ok \<and> ConnsvrMsg_IsInitialized ref_runtime M \<and> ConsumedEntireMessage s
          then Some (ConnsvrMsg_view ref_runtime M) else None
      | None \<Rightarrow> None),
     pb_protocolpacket = True \<rparr>"

lemma sample_generated: "generated_pb ref_runtime sample_pb"
  by (simp add: generated_pb_def sample_pb_def)

text \<open>
  C29. The generated code reads back what it writes. For a message whose values fit their field types
  and whose encoding is below the 64 MB limit of the library, the bytes that \<open>ByteSize\<close> followed by
  \<open>SerializeWithCachedSizesToArray\<close> writes are parsed, into a fresh message, with the result true, to
  the end of the bytes, and the object that comes out is the object that went in: it is initialised
  and its getters return the values that were set, whichever of the optional parts are present.
\<close>

theorem connsvr_msg_roundtrip:
  assumes "runtime_ok rt" and "msg_fits m"
  shows "(\<exists>s. ConnsvrMsg_MergePartialFromCodedStream rt (ConnsvrMsg_Clear rt (ConnsvrMsg_new rt))
        (CodedInputStream_new (wire_bytes rt (ConnsvrMsg_build rt m))) = Some (True, ConnsvrMsg_build rt m, s) \<and>
      ConsumedEntireMessage s \<and> is_buffer s = []) \<and>
    ConnsvrMsg_IsInitialized rt (ConnsvrMsg_build rt m) \<and> ConnsvrMsg_view rt (ConnsvrMsg_build rt m) = m"
  using parse_wire_bytes [OF assms] ConnsvrMsg_build_initialized [of rt m] ConnsvrMsg_view_build [of rt m] by metis

theorem connsvr_msg_roundtrip_witness:
  "\<exists>s. ConnsvrMsg_MergePartialFromCodedStream ref_runtime (ConnsvrMsg_Clear ref_runtime (ConnsvrMsg_new ref_runtime))
      (CodedInputStream_new (wire_bytes ref_runtime (ConnsvrMsg_build ref_runtime sample_msg))) =
    Some (True, ConnsvrMsg_build ref_runtime sample_msg, s) \<and> ConsumedEntireMessage s \<and> is_buffer s = []"
  using connsvr_msg_roundtrip [OF ref_runtime_ok sample_fits] by blast

text \<open>
  C33. \<open>ByteSize\<close> is exact: it is the number of bytes that are written after it, including the bytes of
  the lengths of the embedded messages, which are taken from the sizes it leaves in them. \<open>Pack\<close>
  allocates by this number and writes without a bound.
\<close>

theorem connsvr_msg_size_exact:
  assumes "runtime_ok rt" and "msg_fits m"
  shows "fst (ConnsvrMsg_ByteSize rt (ConnsvrMsg_build rt m)) = int (length (wire_bytes rt (ConnsvrMsg_build rt m)))"
  using ConnsvrMsg_size_enc [OF assms(1) _ msg_fits_bound [OF assms(2)]] assms
  by (simp add: wire_bytes_enc msg_fits_def)

theorem connsvr_msg_size_exact_witness:
  "fst (ConnsvrMsg_ByteSize ref_runtime (ConnsvrMsg_build ref_runtime sample_msg)) =
     int (length (wire_bytes ref_runtime (ConnsvrMsg_build ref_runtime sample_msg)))"
  by (rule connsvr_msg_size_exact [OF ref_runtime_ok sample_fits])

text \<open>
  C30. The generated code implements what the framing relies on: with \<open>pb\<close> given by it, \<open>Pack\<close> of a
  message that fits returns a frame, and \<open>UnPack\<close> of the received bytes, whatever follows the frame,
  returns the same message and the length of the frame. So a message of the connection server
  arrives unchanged at the server behind it.
\<close>

theorem connsvr_frames_arrive:
  assumes "runtime_ok rt" and "generated_pb rt pb" and "msg_fits m"
    and "int (length rest) < 1073741824"
  shows "\<exists>buf len. Pack pb b m = Some (0, buf, len) \<and> len = int (length buf) \<and>
    UnPack pb (buf @ rest) (len + int (length rest)) = Some (0, Some m, len)"
proof -
  let ?xs = "wire_bytes rt (ConnsvrMsg_build rt m)"
  have ok: "pb_ok pb" "pb_protocolpacket pb" using generated_pb_ok [OF assms(1,2)] assms(2) by (simp_all add: generated_pb_def)
  have x: "pb_SerializeToArray pb m = Some ?xs"
    using assms(2,3) ConnsvrMsg_build_initialized [of rt m] by (simp add: generated_pb_def)
  have l: "int (length ?xs) \<le> 67108864" using assms(1,3) by (simp add: wire_bytes_enc msg_fits_def kDefaultTotalBytesLimit_def)
  then have l4: "int (length ?xs) + 4 < 2147483648" by simp
  have "pb_ParseFromArray pb ?xs = Some m" using ok(1) x by (simp add: pb_ok_def)
  then have "UnPack pb (frame ?xs @ rest) (int (length (frame ?xs)) + int (length rest)) =
      Some (0, Some m, int (length (frame ?xs)))"
    using UnPack_frame [OF ok(2) l4, of "int (length (frame ?xs)) + int (length rest)" rest] l assms(4) by simp
  then show ?thesis using Pack_frame [OF ok(2,1) x l4, of b] by blast
qed

theorem connsvr_frames_arrive_witness:
  "\<exists>buf len. Pack sample_pb [] sample_msg = Some (0, buf, len) \<and> len = int (length buf) \<and>
    UnPack sample_pb (buf @ [7]) (len + int (length [7 :: byte])) = Some (0, Some sample_msg, len)"
  by (rule connsvr_frames_arrive [OF ref_runtime_ok sample_generated sample_fits]) simp

text \<open>
  C31. The parser returns on every input. Whatever bytes are received, the loops over the tags of the
  message and of its parts end, with true or false: every round reads at least the byte of a tag, and
  the limits of the parts never give a byte back.
\<close>

theorem parser_returns:
  assumes "runtime_sane rt"
  shows "\<exists>ok M s. ConnsvrMsg_MergePartialFromCodedStream rt (ConnsvrMsg_new rt) (CodedInputStream_new xs) = Some (ok, M, s)"
proof -
  have "ConnsvrMsg_typed (ConnsvrMsg_new rt)" by (simp add: ConnsvrMsg_typed_def ConnsvrMsg_new_def part_typed_def)
  from safe_labelD [OF ConnsvrMsg_safe [OF assms] this] show ?thesis by metis
qed

theorem parser_returns_witness:
  "\<exists>ok M s. ConnsvrMsg_MergePartialFromCodedStream ref_runtime (ConnsvrMsg_new ref_runtime)
     (CodedInputStream_new [10, 200, 8, 8, 255]) = Some (ok, M, s)"
  by (rule parser_returns [OF ref_runtime_sane])



text \<open>
  \<open>CopyFrom\<close> leaves nothing of the old contents: whatever a message held before, after copying a
  message its getters return the copied values, also for the parts that the old message had and the
  new one has not, whose objects stay allocated.
\<close>

theorem copied_message_reads_same:
  "ConnsvrMsg_view rt (ConnsvrMsg_CopyFrom rt (ConnsvrMsg_build rt m) M) = ConnsvrMsg_view rt (ConnsvrMsg_build rt m)"
  by (simp add: ConnsvrMsg_CopyFrom_view ConnsvrMsg_view_build)

end
