(* ===== verification/WireFields.thy ===== *)
theory WireFields
  imports ConnsvrCodec
begin

text \<open>
  The primitive field types of \<^verbatim>\<open>wire_format_lite.h\<close> and \<^verbatim>\<open>wire_format_lite_inl.h\<close> that theory
  \<open>WireFormat\<close> leaves out, among them the ZigZag code of the signed types, and the functions of
  \<^verbatim>\<open>io/coded_stream.h\<close> they use. Every type is read back as it was written, under any field number.

  A value is an \<open>int\<close> in the range of its C++ type, a \<open>bool\<close> is 0 or 1, a floating-point
  number is its bits. \<open>runtime_more\<close> is the part of the library that only these functions and the
  repeated fields call.
\<close>

record 'u runtime_more =
  rt_base :: "'u runtime"
  rt_ReadLittleEndian64Fallback :: "CodedInputStream \<Rightarrow> bool \<times> int \<times> CodedInputStream"
  rt_Skip :: "int \<Rightarrow> CodedInputStream \<Rightarrow> bool \<times> CodedInputStream"
  rt_BytesUntilLimit :: "CodedInputStream \<Rightarrow> int"
  rt_AddVarint :: "int \<Rightarrow> int \<Rightarrow> 'u \<Rightarrow> 'u"

section \<open>ZigZag\<close>

definition s64 :: "int \<Rightarrow> int" where
  "s64 x = (x + 9223372036854775808) mod 18446744073709551616 - 9223372036854775808"

definition ZigZagEncode32 :: "int \<Rightarrow> int" where
  "ZigZagEncode32 n = u32 (s32 (push_bit 1 n) XOR drop_bit 31 n)"

definition ZigZagDecode32 :: "int \<Rightarrow> int" where
  "ZigZagDecode32 n = s32 (drop_bit 1 n XOR u32 (- (n AND 1)))"

definition ZigZagEncode64 :: "int \<Rightarrow> int" where
  "ZigZagEncode64 n = u64 (s64 (push_bit 1 n) XOR drop_bit 63 n)"

definition ZigZagDecode64 :: "int \<Rightarrow> int" where
  "ZigZagDecode64 n = s64 (drop_bit 1 n XOR u64 (- (n AND 1)))"

text \<open>The table in the comment: small magnitudes become small numbers.\<close>

definition zigzag :: "int \<Rightarrow> int" where
  "zigzag n = (if 0 \<le> n then 2 * n else - 2 * n - 1)"

abbreviation fits_s64 :: "int \<Rightarrow> bool" where
  "fits_s64 v \<equiv> - 9223372036854775808 \<le> v \<and> v < 9223372036854775808"

lemma s64_id: "fits_s64 x \<Longrightarrow> s64 x = x"
  by (simp add: s64_def)

lemma s64_range: "fits_s64 (s64 x)"
  by (simp add: s64_def)

lemma u32_s32: "u32 (s32 x) = u32 x"
  by (simp add: u32_def s32_def mod_diff_left_eq)

lemma u64_s64: "u64 (s64 x) = u64 x"
  by (simp add: u64_def s64_def mod_diff_left_eq)

lemma s32_u32: "s32 (u32 x) = s32 x"
  by (simp add: u32_def s32_def mod_add_left_eq)

lemma s64_u64: "s64 (u64 x) = s64 x"
  by (simp add: u64_def s64_def mod_add_left_eq)

lemma drop_bit_sign:
  fixes v :: int
  assumes "- (2 ^ n) \<le> v" "v < 2 ^ n"
  shows "drop_bit n v = (if v < 0 then - 1 else 0)"
proof (cases "v < 0")
  case True
  have "(v + 2 ^ n) div 2 ^ n = 0" using assms True by (simp add: div_pos_pos_trivial)
  then have "v div 2 ^ n + 1 = 0" using div_add_self2 [of "2 ^ n" v] by simp
  with True show ?thesis by (simp add: drop_bit_eq_div)
qed (use assms in \<open>simp add: drop_bit_eq_div\<close>)

lemma xor_minus1: "(x :: int) XOR - 1 = - x - 1"
  by (simp add: bit.xor_one_right not_int_def)

text \<open>Complementing the bits of an unsigned number is taking it from the largest one.\<close>

lemma xor_mask_int: "(x :: int) XOR take_bit n (- 1) = take_bit n (- x - 1)" if "0 \<le> x" "x < 2 ^ n"
proof -
  have "x = take_bit n x" using that by (simp add: take_bit_int_eq_self)
  then have "x XOR take_bit n (- 1) = take_bit n (x XOR - 1)" by (simp only: take_bit_xor)
  then show ?thesis by (simp only: xor_minus1)
qed

lemma ZigZagEncode32_zigzag: "fits_s32 n \<Longrightarrow> ZigZagEncode32 n = zigzag n"
proof -
  assume n: "fits_s32 n"
  then have d: "drop_bit 31 n = (if n < 0 then - 1 else 0)" by (intro drop_bit_sign) simp_all
  have "u32 (- s32 (2 * n) - 1) = u32 (- (2 * n) - 1)"
    using mod_diff_cong [OF refl u32_s32 [of "2 * n", unfolded u32_def], of "- 1"]
    unfolding u32_def by (simp only: uminus_add_conv_diff diff_minus_eq_add minus_diff_commute)
  then show ?thesis using n by (auto simp: ZigZagEncode32_def d not_int_def mult.commute zigzag_def push_bit_eq_mult
        u32_s32 u32_id)
qed

lemma ZigZagEncode64_zigzag: "fits_s64 n \<Longrightarrow> ZigZagEncode64 n = zigzag n"
proof -
  assume n: "fits_s64 n"
  then have d: "drop_bit 63 n = (if n < 0 then - 1 else 0)" by (intro drop_bit_sign) simp_all
  have "u64 (- s64 (2 * n) - 1) = u64 (- (2 * n) - 1)"
    using mod_diff_cong [OF refl u64_s64 [of "2 * n", unfolded u64_def], of "- 1"]
    unfolding u64_def by (simp only: uminus_add_conv_diff diff_minus_eq_add minus_diff_commute)
  then show ?thesis using n by (auto simp: ZigZagEncode64_def d not_int_def mult.commute zigzag_def push_bit_eq_mult
        u64_s64 u64_id)
qed

lemma zigzag_parts: "zigzag n AND 1 = (if 0 \<le> n then 0 else 1)" "drop_bit (Suc 0) (zigzag n) = (if 0 \<le> n then n else - n - 1)"
  by (auto simp: zigzag_def drop_bit_eq_div and_one_eq, presburger+)

lemma ZigZagDecode32_zigzag: "fits_s32 n \<Longrightarrow> ZigZagDecode32 (zigzag n) = n"
proof -
  assume n: "fits_s32 n"
  have "(- n - 1) XOR take_bit 32 (- 1) = take_bit 32 n" if "n < 0"
    using xor_mask_int [of "- n - 1" 32] n that by simp
  then show ?thesis using n s32_u32 [of n]
    by (auto simp: ZigZagDecode32_def zigzag_parts u32_def take_bit_eq_mod s32_id not_le)
qed

lemma ZigZagDecode64_zigzag: "fits_s64 n \<Longrightarrow> ZigZagDecode64 (zigzag n) = n"
proof -
  assume n: "fits_s64 n"
  have "(- n - 1) XOR take_bit 64 (- 1) = take_bit 64 n" if "n < 0"
    using xor_mask_int [of "- n - 1" 64] n that by simp
  then show ?thesis using n s64_u64 [of n]
    by (auto simp: ZigZagDecode64_def zigzag_parts u64_def take_bit_eq_mod s64_id not_le)
qed

section \<open>Fixed 64-bit numbers\<close>

text \<open>\<open>memcpy\<close> from and to a \<open>uint64\<close> on a little-endian machine; a pointer into an array is the bytes from there on.\<close>

definition le64 :: "byte list \<Rightarrow> int" where
  "le64 bs = ntohl_bytes (rev (take 4 bs)) + 4294967296 * ntohl_bytes (rev (drop 4 bs))"

definition bytes64 :: "int \<Rightarrow> byte list" where
  "bytes64 v = rev (htonl_bytes (v mod 4294967296)) @ rev (htonl_bytes (v div 4294967296))"

definition ReadLittleEndian64 :: "'u runtime_more \<Rightarrow> CodedInputStream \<Rightarrow> bool \<times> int \<times> CodedInputStream" where
  "ReadLittleEndian64 rt s =
     (if BufferSize s \<ge> 8 then (True, le64 (take 8 (is_buffer s)), Advance 8 s)
      else rt_ReadLittleEndian64Fallback rt s)"

definition ReadLittleEndian32FromArray :: "byte list \<Rightarrow> (int \<times> byte list) fault" where
  "ReadLittleEndian32FromArray buffer =
     (if length buffer < 4 then None else Some (ntohl_bytes (rev (take 4 buffer)), drop 4 buffer))"

definition ReadLittleEndian64FromArray :: "byte list \<Rightarrow> (int \<times> byte list) fault" where
  "ReadLittleEndian64FromArray buffer =
     (if length buffer < 8 then None else Some (le64 (take 8 buffer), drop 8 buffer))"

definition WriteLittleEndian64ToArray :: "int \<Rightarrow> byte list \<Rightarrow> byte list" where
  "WriteLittleEndian64ToArray v target = target @ bytes64 v"

definition LastTagWas :: "int \<Rightarrow> CodedInputStream \<Rightarrow> bool" where
  "LastTagWas expected s \<longleftrightarrow> is_last_tag s = expected"

definition CurrentPosition :: "CodedInputStream \<Rightarrow> int" where
  "CurrentPosition s = is_total_bytes_read s - (BufferSize s + int (length (is_after_limit s)))"

section \<open>The field types\<close>

text \<open>
  A \<open>float\<close> or \<open>double\<close> is its bits, read as an unsigned number, so that the unions of the four conversions
  below, which only reinterpret these bits, are the identity.
\<close>

definition EncodeFloat :: "int \<Rightarrow> int" where "EncodeFloat f = f"
definition DecodeFloat :: "int \<Rightarrow> int" where "DecodeFloat i = i"
definition EncodeDouble :: "int \<Rightarrow> int" where "EncodeDouble f = f"
definition DecodeDouble :: "int \<Rightarrow> int" where "DecodeDouble i = i"

datatype FieldType =
  TYPE_DOUBLE | TYPE_FLOAT | TYPE_INT64 | TYPE_UINT64 | TYPE_INT32 | TYPE_FIXED64 | TYPE_FIXED32 | TYPE_BOOL | TYPE_UINT32 | TYPE_ENUM |
  TYPE_SFIXED32 | TYPE_SFIXED64 | TYPE_SINT32 | TYPE_SINT64

definition WIRETYPE_FIXED64 :: int where "WIRETYPE_FIXED64 = 1"

definition ReadPrimitive_INT64 :: "'u runtime \<Rightarrow> CodedInputStream \<Rightarrow> bool \<times> int \<times> CodedInputStream" where
  "ReadPrimitive_INT64 rt s = (let (ok, temp, s) = ReadVarint64 rt s in (ok, s64 temp, s))"

definition ReadPrimitive_SINT32 :: "'u runtime \<Rightarrow> CodedInputStream \<Rightarrow> bool \<times> int \<times> CodedInputStream" where
  "ReadPrimitive_SINT32 rt s = (let (ok, temp, s) = ReadVarint32 rt s in (ok, ZigZagDecode32 temp, s))"

definition ReadPrimitive_SINT64 :: "'u runtime \<Rightarrow> CodedInputStream \<Rightarrow> bool \<times> int \<times> CodedInputStream" where
  "ReadPrimitive_SINT64 rt s = (let (ok, temp, s) = ReadVarint64 rt s in (ok, ZigZagDecode64 temp, s))"

definition ReadPrimitive_FIXED64 :: "'u runtime_more \<Rightarrow> CodedInputStream \<Rightarrow> bool \<times> int \<times> CodedInputStream" where
  "ReadPrimitive_FIXED64 rt s = ReadLittleEndian64 rt s"

definition ReadPrimitive_SFIXED32 :: "'u runtime \<Rightarrow> CodedInputStream \<Rightarrow> bool \<times> int \<times> CodedInputStream" where
  "ReadPrimitive_SFIXED32 rt s = (let (ok, temp, s) = ReadLittleEndian32 rt s in (ok, s32 temp, s))"

definition ReadPrimitive_SFIXED64 :: "'u runtime_more \<Rightarrow> CodedInputStream \<Rightarrow> bool \<times> int \<times> CodedInputStream" where
  "ReadPrimitive_SFIXED64 rt s = (let (ok, temp, s) = ReadLittleEndian64 rt s in (ok, s64 temp, s))"

definition ReadPrimitive_FLOAT :: "'u runtime \<Rightarrow> CodedInputStream \<Rightarrow> bool \<times> int \<times> CodedInputStream" where
  "ReadPrimitive_FLOAT rt s = (let (ok, temp, s) = ReadLittleEndian32 rt s in (ok, DecodeFloat temp, s))"

definition ReadPrimitive_DOUBLE :: "'u runtime_more \<Rightarrow> CodedInputStream \<Rightarrow> bool \<times> int \<times> CodedInputStream" where
  "ReadPrimitive_DOUBLE rt s = (let (ok, temp, s) = ReadLittleEndian64 rt s in (ok, DecodeDouble temp, s))"

definition ReadPrimitive_BOOL :: "'u runtime \<Rightarrow> CodedInputStream \<Rightarrow> bool \<times> int \<times> CodedInputStream" where
  "ReadPrimitive_BOOL rt s = (let (ok, temp, s) = ReadVarint32 rt s in (ok, if temp \<noteq> 0 then 1 else 0, s))"

definition ReadPrimitive_ENUM :: "'u runtime \<Rightarrow> CodedInputStream \<Rightarrow> bool \<times> int \<times> CodedInputStream" where
  "ReadPrimitive_ENUM rt s = (let (ok, temp, s) = ReadVarint32 rt s in (ok, s32 temp, s))"

fun ReadPrimitive :: "'u runtime_more \<Rightarrow> FieldType \<Rightarrow> CodedInputStream \<Rightarrow> bool \<times> int \<times> CodedInputStream" where
  "ReadPrimitive rt TYPE_INT32 = ReadPrimitive_INT32 (rt_base rt)"
| "ReadPrimitive rt TYPE_INT64 = ReadPrimitive_INT64 (rt_base rt)"
| "ReadPrimitive rt TYPE_UINT32 = ReadPrimitive_UINT32 (rt_base rt)"
| "ReadPrimitive rt TYPE_UINT64 = ReadPrimitive_UINT64 (rt_base rt)"
| "ReadPrimitive rt TYPE_SINT32 = ReadPrimitive_SINT32 (rt_base rt)"
| "ReadPrimitive rt TYPE_SINT64 = ReadPrimitive_SINT64 (rt_base rt)"
| "ReadPrimitive rt TYPE_FIXED32 = ReadPrimitive_FIXED32 (rt_base rt)"
| "ReadPrimitive rt TYPE_FIXED64 = ReadPrimitive_FIXED64 rt"
| "ReadPrimitive rt TYPE_SFIXED32 = ReadPrimitive_SFIXED32 (rt_base rt)"
| "ReadPrimitive rt TYPE_SFIXED64 = ReadPrimitive_SFIXED64 rt"
| "ReadPrimitive rt TYPE_FLOAT = ReadPrimitive_FLOAT (rt_base rt)"
| "ReadPrimitive rt TYPE_DOUBLE = ReadPrimitive_DOUBLE rt"
| "ReadPrimitive rt TYPE_BOOL = ReadPrimitive_BOOL (rt_base rt)"
| "ReadPrimitive rt TYPE_ENUM = ReadPrimitive_ENUM (rt_base rt)"

fun WriteNoTagToArray :: "'u runtime \<Rightarrow> FieldType \<Rightarrow> int \<Rightarrow> byte list \<Rightarrow> byte list" where
  "WriteNoTagToArray rt TYPE_INT32 v target = WriteVarint32SignExtendedToArray rt v target"
| "WriteNoTagToArray rt TYPE_INT64 v target = rt_WriteVarint64ToArray rt (u64 v) target"
| "WriteNoTagToArray rt TYPE_UINT32 v target = WriteVarint32ToArray rt v target"
| "WriteNoTagToArray rt TYPE_UINT64 v target = rt_WriteVarint64ToArray rt v target"
| "WriteNoTagToArray rt TYPE_SINT32 v target = WriteVarint32ToArray rt (ZigZagEncode32 v) target"
| "WriteNoTagToArray rt TYPE_SINT64 v target = rt_WriteVarint64ToArray rt (ZigZagEncode64 v) target"
| "WriteNoTagToArray rt TYPE_FIXED32 v target = WriteLittleEndian32ToArray v target"
| "WriteNoTagToArray rt TYPE_FIXED64 v target = WriteLittleEndian64ToArray v target"
| "WriteNoTagToArray rt TYPE_SFIXED32 v target = WriteLittleEndian32ToArray (u32 v) target"
| "WriteNoTagToArray rt TYPE_SFIXED64 v target = WriteLittleEndian64ToArray (u64 v) target"
| "WriteNoTagToArray rt TYPE_FLOAT v target = WriteLittleEndian32ToArray (EncodeFloat v) target"
| "WriteNoTagToArray rt TYPE_DOUBLE v target = WriteLittleEndian64ToArray (EncodeDouble v) target"
| "WriteNoTagToArray rt TYPE_BOOL v target = WriteVarint32ToArray rt (if v \<noteq> 0 then 1 else 0) target"
| "WriteNoTagToArray rt TYPE_ENUM v target = WriteVarint32SignExtendedToArray rt v target"

fun wire_type :: "FieldType \<Rightarrow> int" where
  "wire_type TYPE_FIXED32 = WIRETYPE_FIXED32"
| "wire_type TYPE_SFIXED32 = WIRETYPE_FIXED32"
| "wire_type TYPE_FIXED64 = WIRETYPE_FIXED64"
| "wire_type TYPE_SFIXED64 = WIRETYPE_FIXED64"
| "wire_type TYPE_FLOAT = WIRETYPE_FIXED32"
| "wire_type TYPE_DOUBLE = WIRETYPE_FIXED64"
| "wire_type ty = WIRETYPE_VARINT"

definition WriteFieldToArray :: "'u runtime \<Rightarrow> FieldType \<Rightarrow> int \<Rightarrow> int \<Rightarrow> byte list \<Rightarrow> byte list" where
  "WriteFieldToArray rt ty field_number v target =
     WriteNoTagToArray rt ty v (WriteTagToArray rt (MakeTag field_number (wire_type ty)) target)"

text \<open>The sizes; for the types of fixed size these are the constants \<open>kFixed32Size\<close> to \<open>kBoolSize\<close>.\<close>

fun FieldSize :: "'u runtime \<Rightarrow> FieldType \<Rightarrow> int \<Rightarrow> int" where
  "FieldSize rt TYPE_INT32 v = VarintSize32SignExtended rt v"
| "FieldSize rt TYPE_INT64 v = rt_VarintSize64 rt (u64 v)"
| "FieldSize rt TYPE_UINT32 v = VarintSize32 rt v"
| "FieldSize rt TYPE_UINT64 v = rt_VarintSize64 rt v"
| "FieldSize rt TYPE_SINT32 v = VarintSize32 rt (ZigZagEncode32 v)"
| "FieldSize rt TYPE_SINT64 v = rt_VarintSize64 rt (ZigZagEncode64 v)"
| "FieldSize rt TYPE_ENUM v = VarintSize32SignExtended rt v"
| "FieldSize rt TYPE_FIXED32 v = 4"
| "FieldSize rt TYPE_SFIXED32 v = 4"
| "FieldSize rt TYPE_FIXED64 v = 8"
| "FieldSize rt TYPE_SFIXED64 v = 8"
| "FieldSize rt TYPE_FLOAT v = 4"
| "FieldSize rt TYPE_DOUBLE v = 8"
| "FieldSize rt TYPE_BOOL v = 1"

text \<open>\<open>is_group\<close> says whether the type is \<open>TYPE_GROUP\<close>, which has a start and an end tag.\<close>

definition TagSize :: "'u runtime \<Rightarrow> int \<Rightarrow> bool \<Rightarrow> int" where
  "TagSize rt field_number is_group =
     (let result = VarintSize32 rt (u32 (push_bit 3 field_number)) in if is_group then s32 (result * 2) else result)"

section \<open>Every field type is read back as it was written\<close>

fun in_range :: "FieldType \<Rightarrow> int \<Rightarrow> bool" where
  "in_range TYPE_INT64 v = fits_s64 v"
| "in_range TYPE_SINT64 v = fits_s64 v"
| "in_range TYPE_SFIXED64 v = fits_s64 v"
| "in_range TYPE_UINT64 v = fits_u64 v"
| "in_range TYPE_FIXED64 v = fits_u64 v"
| "in_range TYPE_UINT32 v = fits_u32 v"
| "in_range TYPE_FIXED32 v = fits_u32 v"
| "in_range TYPE_FLOAT v = fits_u32 v"
| "in_range TYPE_DOUBLE v = fits_u64 v"
| "in_range TYPE_BOOL v = (v = 0 \<or> v = 1)"
| "in_range ty v = fits_s32 v"

text \<open>The bytes of a value.\<close>

fun enc_field :: "FieldType \<Rightarrow> int \<Rightarrow> byte list" where
  "enc_field TYPE_FIXED32 v = enc_fixed32 v"
| "enc_field TYPE_SFIXED32 v = enc_fixed32 (u32 v)"
| "enc_field TYPE_FIXED64 v = bytes64 v"
| "enc_field TYPE_SFIXED64 v = bytes64 (u64 v)"
| "enc_field TYPE_FLOAT v = enc_fixed32 v"
| "enc_field TYPE_DOUBLE v = bytes64 v"
| "enc_field TYPE_SINT32 v = varint (nat (zigzag v))"
| "enc_field TYPE_SINT64 v = varint (nat (zigzag v))"
| "enc_field ty v = varint (nat (u64 v))"

definition reads_more_ok :: "'u runtime_more \<Rightarrow> bool" where
  "reads_more_ok rt \<longleftrightarrow>
     (\<forall>s n xs. 128 \<le> n \<longrightarrow> n < 2 ^ 32 \<longrightarrow> is_buffer s = varint n @ xs \<longrightarrow>
        rt_ReadTagFallback (rt_base rt) s = (int n, s \<lparr> is_buffer := xs \<rparr>))"

lemma length_bytes64 [simp]: "length (bytes64 v) = 8"
  by (simp add: bytes64_def)

lemma le64_bytes64:
  assumes "fits_u64 v"
  shows "le64 (bytes64 v) = v"
proof -
  have "0 \<le> v div 4294967296" "v div 4294967296 < 4294967296" using assms by linarith+
  then show ?thesis by (simp add: le64_def bytes64_def ntohl_htonl)
qed

lemma WriteVarint64_varint: "writes_ok rt \<Longrightarrow> fits_u64 v \<Longrightarrow> rt_WriteVarint64ToArray rt v t = t @ varint (nat v)"
  by (simp add: writes_ok_def)

lemma VarintSize64_varint: "writes_ok rt \<Longrightarrow> fits_u64 v \<Longrightarrow> rt_VarintSize64 rt v = int (length (varint (nat v)))"
  by (simp add: writes_ok_def)

lemma u64_range: "fits_u64 (u64 v)"
  by (simp add: u64_def)

lemma zigzag_range: "fits_s32 v \<Longrightarrow> fits_u32 (zigzag v)" "fits_s64 v \<Longrightarrow> fits_u64 (zigzag v)"
  by (auto simp: zigzag_def)

lemma WriteVarintSigned_varint:
  assumes "writes_ok rt" "fits_s32 v"
  shows "WriteVarint32SignExtendedToArray rt v t = t @ varint (nat (u64 v))"
proof (cases "v < 0")
  case True
  then show ?thesis using WriteVarint64_varint [OF assms(1) u64_range] by (simp add: WriteVarint32SignExtendedToArray_def)
next
  case False
  with assms show ?thesis
    by (simp add: WriteVarint32SignExtendedToArray_def u32_id u64_id WriteVarint32_varint)
qed

lemmas varint_writers = WriteVarint32_varint WriteVarint64_varint WriteVarintSigned_varint VarintSize32_varint
  VarintSize64_varint u64_range zigzag_range ZigZagEncode32_zigzag ZigZagEncode64_zigzag

lemma write_no_tag:
  assumes "writes_ok rt" "in_range ty v"
  shows "WriteNoTagToArray rt ty v t = t @ enc_field ty v"
  using assms by (cases ty) (auto simp: varint_writers u64_id WriteLittleEndian32ToArray_def
      WriteLittleEndian64ToArray_def enc_fixed32_def EncodeFloat_def EncodeDouble_def)

lemma field_size:
  assumes "writes_ok rt" "in_range ty v"
  shows "FieldSize rt ty v = int (length (enc_field ty v))"
  using assms size_fields(3) [OF assms(1), of v]
  by (cases ty) (auto simp: varint_writers u64_id Int32Size_def enc_int32_def varint_small)

lemma read_varints:
  assumes "reads_ok rt" "fits_u64 u" "is_buffer s = varint (nat u) @ xs"
  shows "ReadVarint32 rt s = (True, u32 u, s \<lparr> is_buffer := xs \<rparr>)" "ReadVarint64 rt s = (True, u, s \<lparr> is_buffer := xs \<rparr>)"
  using ReadVarint_varint [OF assms(1) _ assms(3)] assms(2) by (simp_all add: nat_less_iff)

lemma u32_u64: "u32 (u64 v) = u32 v"
  by (simp add: u32_def u64_def mod_mod_cancel)

lemma read_fixed32:
  assumes "fits_u32 u" "is_buffer s = enc_fixed32 u @ xs"
  shows "ReadLittleEndian32 rt s = (True, u, s \<lparr> is_buffer := xs \<rparr>)"
  using assms by (simp add: ReadLittleEndian32_def BufferSize_def Advance_def enc_fixed32_def ntohl_htonl)

lemma read_fixed64:
  assumes "fits_u64 u" "is_buffer s = bytes64 u @ xs"
  shows "ReadLittleEndian64 rt s = (True, u, s \<lparr> is_buffer := xs \<rparr>)"
  using assms by (simp add: ReadLittleEndian64_def BufferSize_def Advance_def le64_bytes64)

lemmas read_primitive_defs = ReadPrimitive_INT32_def ReadPrimitive_INT64_def ReadPrimitive_UINT32_def
  ReadPrimitive_UINT64_def ReadPrimitive_SINT32_def ReadPrimitive_SINT64_def ReadPrimitive_FIXED32_def
  ReadPrimitive_FIXED64_def ReadPrimitive_SFIXED32_def ReadPrimitive_SFIXED64_def ReadPrimitive_BOOL_def
  ReadPrimitive_ENUM_def ReadPrimitive_FLOAT_def ReadPrimitive_DOUBLE_def DecodeFloat_def DecodeDouble_def

lemma read_primitive:
  assumes r: "reads_ok (rt_base rt)" and v: "in_range ty v" and b: "is_buffer s = enc_field ty v @ xs"
  shows "ReadPrimitive rt ty s = (True, v, s \<lparr> is_buffer := xs \<rparr>)"
proof -
  note varint = read_varints [OF r u64_range [of v], of s xs] and zz = read_varints [OF r, of "zigzag v" s xs]
  note fixed = read_fixed32 [of v s xs "rt_base rt"] read_fixed32 [OF u32_range, of s v xs "rt_base rt"]
    read_fixed64 [of v s xs rt] read_fixed64 [OF u64_range, of s v xs rt]
  note conv = u32_u64 s32_u32 s64_u64 s32_id s64_id u32_id u64_id ZigZagDecode32_zigzag ZigZagDecode64_zigzag
  show ?thesis
    using v b varint zz fixed zigzag_range [of v] by (cases ty) (auto simp: read_primitive_defs conv)
qed

section \<open>Tags\<close>

lemma MakeTag_value:
  assumes "1 \<le> k" "k < 536870912" "0 \<le> ty" "ty < 8"
  shows "MakeTag k ty = 8 * k + ty"
proof -
  have ty: "ty = take_bit 3 ty" using assms by (simp add: take_bit_int_eq_self)
  have "push_bit 3 k AND take_bit 3 ty = 0" by (rule bit_eqI) (auto simp: bit_simps)
  then have "push_bit 3 k + take_bit 3 ty = push_bit 3 k OR take_bit 3 ty" by (rule disjunctive_add_eq_or)
  then have "push_bit 3 k OR ty = 8 * k + ty" using ty by (simp add: push_bit_eq_mult)
  then show ?thesis using assms by (simp add: MakeTag_def u32_id)
qed

lemma tag_parts:
  assumes "1 \<le> k" "k < 536870912" "0 \<le> ty" "ty < 8"
  shows "GetTagFieldNumber (MakeTag k ty) = k" "GetTagWireType (MakeTag k ty) = ty"
proof -
  show "GetTagFieldNumber (MakeTag k ty) = k"
    using assms by (simp add: MakeTag_value GetTagFieldNumber_def drop_bit_eq_div s32_id)
  have "(8 * k + ty) AND 7 = take_bit 3 (8 * k + ty)" by (simp add: take_bit_eq_mask mask_eq_exp_minus_1)
  then show "GetTagWireType (MakeTag k ty) = ty"
    using assms by (simp add: MakeTag_value GetTagWireType_def take_bit_eq_mod)
qed

lemma or_128: "take_bit 8 (v OR 128) = v mod 128 + (128 :: int)"
proof -
  have p: "(128 :: int) = push_bit 7 1" by simp
  have "take_bit 7 v AND push_bit 7 1 = 0"
    by (rule bit_eqI) (auto simp only: bit_and_iff bit_take_bit_iff bit_push_bit_iff bit_1_iff bit_0_eq bot_apply bot_bool_def)
  then have "take_bit 7 v + 128 = take_bit 7 v OR push_bit 7 1" unfolding p by (rule disjunctive_add_eq_or)
  also have "\<dots> = take_bit 8 (v OR push_bit 7 1)"
    by (rule bit_eqI) (auto simp only: bit_or_iff bit_take_bit_iff bit_push_bit_iff bit_1_iff)
  finally show ?thesis by (simp add: take_bit_eq_mod)
qed

text \<open>A tag of one or two bytes is written out by hand; it is the same encoding.\<close>

lemma tag_varint:
  assumes "writes_ok rt" "fits_u32 v"
  shows "WriteTagToArray rt v t = t @ varint (nat v)"
proof -
  have "varint (nat v) = [word_of_int (v OR 128), word_of_int (drop_bit 7 v)]" if v: "128 \<le> v" "v < 16384"
  proof -
    have "word_of_int (v OR 128) = (word_of_int (v mod 128 + 128) :: byte)"
      unfolding word_of_int_eq_iff using or_128 [of v] by (simp flip: or_128)
    moreover have "int (nat v mod 128 + 128) = v mod 128 + 128" using v by (simp add: zmod_int)
    then have "of_nat (nat v mod 128 + 128) = (word_of_int (v mod 128 + 128) :: byte)"
      by (metis of_int_of_nat_eq)
    moreover have "int (nat v div 128) = v div 128" using v by (simp add: zdiv_int)
    then have "of_nat (nat v div 128) = (word_of_int (v div 128) :: byte)" by (metis of_int_of_nat_eq)
    then have "varint (nat v div 128) = [word_of_int (drop_bit 7 v)]"
      using v by (simp add: varint_small drop_bit_eq_div)
    ultimately show ?thesis using v by (simp add: varint.simps [of "nat v"])
  qed
  then show ?thesis using assms by (auto simp: WriteTagToArray_def writes_ok_def varint_small)
qed

lemma tag_size:
  assumes "writes_ok rt" "1 \<le> k" "k < 536870912" "0 \<le> ty" "ty < 8"
  shows "TagSize rt k False = int (length (varint (nat (8 * k + ty))))"
proof -
  have "length (varint (nat (8 * k + ty))) = length (varint (nat (8 * k)))"
  proof -
    have d: "nat (8 * k + ty) div 128 = nat (8 * k) div 128"
      using assms by (simp add: nat_add_distrib nat_mult_distrib)
    then have "nat (8 * k + ty) < 128 \<longleftrightarrow> nat (8 * k) < 128" by (metis div_less div_eq_0_iff zero_neq_numeral)
    with d show ?thesis by (simp add: varint.simps [of "nat (8 * k + ty)"] varint.simps [of "nat (8 * k)"])
  qed
  moreover have "u32 (push_bit 3 k) = 8 * k" using assms by (simp add: push_bit_eq_mult u32_id)
  ultimately show ?thesis using assms by (simp add: TagSize_def VarintSize32_varint)
qed

lemma read_tag_varint:
  assumes "reads_more_ok rt" "0 < n" "n < 2 ^ 32" "is_buffer s = varint n @ xs"
  shows "ReadTag (rt_base rt) s = (int n, s \<lparr> is_buffer := xs, is_last_tag := int n \<rparr>)"
proof (cases "n < 128")
  case True
  with assms byte_of_small [of n] ReadTag_byte [of "of_nat n" s xs] show ?thesis by (simp add: varint_small)
next
  case False
  with varint_hd [of n] obtain b bs where "varint n = b # bs" "\<not> b < 128" by auto
  moreover have "rt_ReadTagFallback (rt_base rt) s = (int n, s \<lparr> is_buffer := xs \<rparr>)"
    using False assms by (simp add: reads_more_ok_def)
  ultimately show ?thesis using assms(4) by (simp add: ReadTag_def BufferSize_def)
qed

lemma wire_type_range: "0 \<le> wire_type ty \<and> wire_type ty < 8"
  by (cases ty) (simp_all add: wiretypes WIRETYPE_FIXED64_def)

text \<open>
  C38. Every primitive field type is read back as it was written. Under any field number the tag and the
  value are written as some bytes whose number is what \<open>TagSize\<close> and the size function of the type
  say. A stream that starts with these bytes delivers the tag, whose two parts are the number and the
  wire type of the field, and then the value, and is left exactly behind them.
\<close>

theorem field_roundtrip:
  assumes rt: "runtime_ok (rt_base rt)" "reads_more_ok rt"
    and k: "1 \<le> k" "k < 536870912" and v: "in_range ty v"
  shows "\<exists>bs. (\<forall>target. WriteFieldToArray (rt_base rt) ty k v target = target @ bs) \<and>
    int (length bs) = TagSize (rt_base rt) k False + FieldSize (rt_base rt) ty v \<and>
    (\<forall>s xs. is_buffer s = bs @ xs \<longrightarrow>
       (let (tag, s1) = ReadTag (rt_base rt) s
        in GetTagFieldNumber tag = k \<and> GetTagWireType tag = wire_type ty \<and>
           ReadPrimitive rt ty s1 = (True, v, s \<lparr> is_buffer := xs, is_last_tag := tag \<rparr>)))"
proof -
  let ?tag = "MakeTag k (wire_type ty)"
  note ok = runtime_okD [OF rt(1)]
  note t = wire_type_range [of ty]
  have tag: "?tag = 8 * k + wire_type ty" using MakeTag_value [OF k] t by simp
  then have r: "fits_u32 ?tag" "0 < nat ?tag" "nat ?tag < 2 ^ 32" using k t by auto
  show ?thesis
  proof (intro exI [of _ "varint (nat ?tag) @ enc_field ty v"] conjI allI impI)
    show "WriteFieldToArray (rt_base rt) ty k v target = target @ varint (nat ?tag) @ enc_field ty v" for target
      by (simp add: WriteFieldToArray_def tag_varint [OF ok(1) r(1)] write_no_tag [OF ok(1) v])
    show "int (length (varint (nat ?tag) @ enc_field ty v)) = TagSize (rt_base rt) k False + FieldSize (rt_base rt) ty v"
      using tag_size [OF ok(1) k, of "wire_type ty"] field_size [OF ok(1) v] t tag by simp
  next
    fix s :: CodedInputStream and xs
    assume "is_buffer s = (varint (nat ?tag) @ enc_field ty v) @ xs"
    then have "ReadTag (rt_base rt) s = (?tag, s \<lparr> is_buffer := enc_field ty v @ xs, is_last_tag := ?tag \<rparr>)"
      using read_tag_varint [OF rt(2) r(2,3), of s "enc_field ty v @ xs"] r(1) by simp
    then show "let (tag, s1) = ReadTag (rt_base rt) s
      in GetTagFieldNumber tag = k \<and> GetTagWireType tag = wire_type ty \<and>
         ReadPrimitive rt ty s1 = (True, v, s \<lparr> is_buffer := xs, is_last_tag := tag \<rparr>)"
      using tag_parts [OF k, of "wire_type ty"] t read_primitive [OF ok(2) v] by simp
  qed
qed

definition ref_runtime_more :: "unit runtime_more" where
  "ref_runtime_more = \<lparr> rt_base = ref_runtime, rt_ReadLittleEndian64Fallback = (\<lambda>s. (False, 0, s)),
     rt_Skip = (\<lambda>n s. if n \<le> BufferSize s then (True, Advance (nat n) s) else (False, s)),
     rt_BytesUntilLimit = (\<lambda>s. is_current_limit s - CurrentPosition s), rt_AddVarint = (\<lambda>k v u. ()) \<rparr>"

lemma ref_reads_more: "reads_more_ok ref_runtime_more"
proof -
  have "varint n \<noteq> []" for n by (simp add: varint.simps [of n])
  then show ?thesis
    by (auto simp: reads_more_ok_def ref_runtime_more_def ref_runtime_def ref_read_def decode_varint u32_id)
qed

theorem field_roundtrip_witness:
  "\<exists>bs. (\<forall>target. WriteFieldToArray ref_runtime TYPE_SINT64 1000 (- 5) target = target @ bs) \<and>
    int (length bs) = TagSize ref_runtime 1000 False + FieldSize ref_runtime TYPE_SINT64 (- 5)"
  using field_roundtrip [OF _ ref_reads_more, of 1000 TYPE_SINT64 "- 5"] ref_runtime_ok
  by (auto simp: ref_runtime_more_def)

end
