(* ===== verification/PacketOptions.thy ===== *)
theory PacketOptions
  imports WireFields
begin

text \<open>
  The generated class \<^verbatim>\<open>ProtocolPacketOptions\<close> of \<^verbatim>\<open>src/util/pbparser/UtilProtocol.pb.{h,cc}\<close>: the
  option of a message type that switches its framing on. Its one field is an enumeration, so that the
  parser has a case the other classes have not: a number that is not one of the enumeration is kept
  among the unknown fields (\<open>add\<close>, the \<open>AddVarint\<close> of the library) and the field stays as it was.
\<close>

section \<open>The class\<close>

definition protocol_no :: int where "protocol_no = 0"
definition protocol_yes :: int where "protocol_yes = 1"

definition ProtocolSwitch_IsValid :: "int \<Rightarrow> bool" where
  "ProtocolSwitch_IsValid v \<longleftrightarrow> v = 0 \<or> v = 1"

record 'u ProtocolPacketOptions_pb = "'u Message" +
  ppo_protocolpacket :: int

definition ProtocolPacketOptions_new :: "'u runtime \<Rightarrow> 'u ProtocolPacketOptions_pb" where
  "ProtocolPacketOptions_new rt = \<lparr> unknown_fields = rt_unknown_new rt, cached_size = 0, has_bits = 0, ppo_protocolpacket = 0 \<rparr>"

definition has_protocolpacket :: "'u ProtocolPacketOptions_pb \<Rightarrow> bool" where
  "has_protocolpacket m = has_bit 0 m"

definition clear_protocolpacket :: "'u ProtocolPacketOptions_pb \<Rightarrow> 'u ProtocolPacketOptions_pb" where
  "clear_protocolpacket m = m \<lparr> ppo_protocolpacket := 0, has_bits := has_bits m AND NOT 1 \<rparr>"

text \<open>The setter asserts that the value is one of the enumeration.\<close>

definition set_protocolpacket :: "int \<Rightarrow> 'u ProtocolPacketOptions_pb \<Rightarrow> 'u ProtocolPacketOptions_pb fault" where
  "set_protocolpacket v m =
     (if ProtocolSwitch_IsValid v then Some (set_has_bit 0 m \<lparr> ppo_protocolpacket := v \<rparr>) else None)"

definition ProtocolPacketOptions_Clear :: "'u runtime \<Rightarrow> 'u ProtocolPacketOptions_pb \<Rightarrow> 'u ProtocolPacketOptions_pb" where
  "ProtocolPacketOptions_Clear rt m = clear_bits rt (if any_bit m then m \<lparr> ppo_protocolpacket := 0 \<rparr> else m)"

definition ProtocolPacketOptions_parse ::
  "'u runtime \<Rightarrow> (int \<Rightarrow> int \<Rightarrow> 'u \<Rightarrow> 'u) \<Rightarrow> 'u ProtocolPacketOptions_pb \<Rightarrow> CodedInputStream \<Rightarrow>
     (ctl \<times> 'u ProtocolPacketOptions_pb \<times> CodedInputStream) option" where
  "ProtocolPacketOptions_parse rt add m s =
     (let (ok, v, s) = ReadPrimitive_ENUM rt s
      in if \<not> ok then Some (CReturn False, m, s)
         else do {
           m \<leftarrow> (if ProtocolSwitch_IsValid v then set_protocolpacket v m
                else Some (m \<lparr> unknown_fields := add 1 (u64 v) (unknown_fields m) \<rparr>));
           expect_end m s
         })"

definition ProtocolPacketOptions_switch ::
  "'u runtime \<Rightarrow> (int \<Rightarrow> int \<Rightarrow> 'u \<Rightarrow> 'u) \<Rightarrow> int \<Rightarrow> 'u ProtocolPacketOptions_pb \<Rightarrow> CodedInputStream \<Rightarrow>
     (ctl \<times> 'u ProtocolPacketOptions_pb \<times> CodedInputStream) option" where
  "ProtocolPacketOptions_switch rt add tag m s =
     (if GetTagFieldNumber tag = 1 \<and> GetTagWireType tag = WIRETYPE_VARINT then ProtocolPacketOptions_parse rt add m s
      else handle_uninterpreted rt tag m s)"

definition ProtocolPacketOptions_MergePartialFromCodedStream ::
  "'u runtime \<Rightarrow> (int \<Rightarrow> int \<Rightarrow> 'u \<Rightarrow> 'u) \<Rightarrow> 'u ProtocolPacketOptions_pb \<Rightarrow> CodedInputStream \<Rightarrow>
     (bool \<times> 'u ProtocolPacketOptions_pb \<times> CodedInputStream) option" where
  "ProtocolPacketOptions_MergePartialFromCodedStream rt add = merge_loop rt (ProtocolPacketOptions_switch rt add)"

definition ProtocolPacketOptions_SerializeWithCachedSizesToArray ::
  "'u runtime \<Rightarrow> 'u ProtocolPacketOptions_pb \<Rightarrow> byte list \<Rightarrow> byte list" where
  "ProtocolPacketOptions_SerializeWithCachedSizesToArray rt m target =
     (let target = (if has_protocolpacket m then WriteFieldToArray rt TYPE_ENUM 1 (ppo_protocolpacket m) target else target)
      in write_unknown rt m target)"

definition ProtocolPacketOptions_ByteSize ::
  "'u runtime \<Rightarrow> 'u ProtocolPacketOptions_pb \<Rightarrow> int \<times> 'u ProtocolPacketOptions_pb" where
  "ProtocolPacketOptions_ByteSize rt m =
     (let total_size = (if any_bit m
            then add_if (has_protocolpacket m) (1 + FieldSize rt TYPE_ENUM (ppo_protocolpacket m)) 0 else 0);
          total_size = unknown_size rt m total_size
      in (total_size, m \<lparr> cached_size := total_size \<rparr>))"

definition ProtocolPacketOptions_MergeFrom ::
  "'u runtime \<Rightarrow> 'u ProtocolPacketOptions_pb \<Rightarrow> 'u ProtocolPacketOptions_pb \<Rightarrow> 'u ProtocolPacketOptions_pb fault" where
  "ProtocolPacketOptions_MergeFrom rt from m = do {
     m \<leftarrow> (if any_bit from \<and> has_protocolpacket from then set_protocolpacket (ppo_protocolpacket from) m else Some m);
     Some (merge_unknown rt from m)
   }"

definition ProtocolPacketOptions_CopyFrom ::
  "'u runtime \<Rightarrow> 'u ProtocolPacketOptions_pb \<Rightarrow> 'u ProtocolPacketOptions_pb \<Rightarrow> 'u ProtocolPacketOptions_pb fault" where
  "ProtocolPacketOptions_CopyFrom rt from m = ProtocolPacketOptions_MergeFrom rt from (ProtocolPacketOptions_Clear rt m)"

definition ProtocolPacketOptions_IsInitialized :: "'u ProtocolPacketOptions_pb \<Rightarrow> bool" where
  "ProtocolPacketOptions_IsInitialized m = True"

definition ProtocolPacketOptions_Swap ::
  "'u ProtocolPacketOptions_pb \<Rightarrow> 'u ProtocolPacketOptions_pb \<Rightarrow> 'u ProtocolPacketOptions_pb \<times> 'u ProtocolPacketOptions_pb" where
  "ProtocolPacketOptions_Swap m other =
     (m \<lparr> ppo_protocolpacket := ppo_protocolpacket other, has_bits := has_bits other,
          unknown_fields := unknown_fields other, cached_size := cached_size other \<rparr>,
      other \<lparr> ppo_protocolpacket := ppo_protocolpacket m, has_bits := has_bits m,
          unknown_fields := unknown_fields m, cached_size := cached_size m \<rparr>)"

section \<open>Encoding\<close>

definition ppo_build :: "'u runtime \<Rightarrow> bool \<Rightarrow> 'u ProtocolPacketOptions_pb" where
  "ppo_build rt b = set_has_bit 0 (ProtocolPacketOptions_new rt) \<lparr> ppo_protocolpacket := of_bool b \<rparr>"

definition ppo_enc :: "bool \<Rightarrow> byte list" where
  "ppo_enc b = [8, of_bool b]"

lemma ppo_set: "set_protocolpacket (of_bool b) (ProtocolPacketOptions_new rt) = Some (ppo_build rt b)"
  by (cases b) (simp_all add: set_protocolpacket_def ProtocolSwitch_IsValid_def ppo_build_def)

lemma ppo_build_fields [simp]:
  "has_bits (ppo_build rt b) = 1" "unknown_fields (ppo_build rt b) = rt_unknown_new rt"
  "ppo_protocolpacket (ppo_build rt b) = of_bool b"
  by (simp_all add: ppo_build_def ProtocolPacketOptions_new_def set_has_bit_def)

lemma enum_enc: "enc_field TYPE_ENUM (of_bool b) = [of_bool b]"
  by (cases b) (simp_all add: u64_def varint_small)

lemma ppo_ser_enc:
  assumes "runtime_ok rt"
  shows "ProtocolPacketOptions_SerializeWithCachedSizesToArray rt (ppo_build rt b \<lparr> cached_size := c \<rparr>) t = t @ ppo_enc b"
  using write_no_tag [OF runtime_okD(1) [OF assms], of TYPE_ENUM "of_bool b"] tag_bytes [of 1 0 rt] runtime_okD(1) [OF assms]
  by (cases b) (simp_all add: ProtocolPacketOptions_SerializeWithCachedSizesToArray_def WriteFieldToArray_def has_protocolpacket_def
      ppo_enc_def WIRETYPE_VARINT_def enum_enc Let_def u64_def varint_small)

lemma ppo_size_enc:
  assumes "runtime_ok rt"
  shows "ProtocolPacketOptions_ByteSize rt (ppo_build rt b) =
    (int (length (ppo_enc b)), ppo_build rt b \<lparr> cached_size := int (length (ppo_enc b)) \<rparr>)"
proof -
  have "FieldSize rt TYPE_ENUM (of_bool b) = 1"
    using field_size [OF runtime_okD(1) [OF assms], of TYPE_ENUM "of_bool b"] enum_enc [of b] by (cases b) simp_all
  moreover have "any_bit (ppo_build rt b)" by (rule any_bitI [of 0]) simp_all
  ultimately show ?thesis
    by (simp add: ProtocolPacketOptions_ByteSize_def has_protocolpacket_def ppo_enc_def add_if_def s32_def Let_def
        runtime_okD [OF assms])
qed

lemma read_enum:
  assumes "reads_ok rt" "fits_s32 v" "is_buffer s = enc_field TYPE_ENUM v @ xs"
  shows "ReadPrimitive_ENUM rt s = (True, v, s \<lparr> is_buffer := xs \<rparr>)"
  using read_varints(1) [OF assms(1) u64_range, of s v xs] assms(2,3)
  by (simp add: ReadPrimitive_ENUM_def u32_u64 s32_u32 s32_id)

definition ppo_put :: "(int \<Rightarrow> int \<Rightarrow> 'u \<Rightarrow> 'u) \<Rightarrow> int \<Rightarrow> 'u ProtocolPacketOptions_pb \<Rightarrow> 'u ProtocolPacketOptions_pb" where
  "ppo_put add v m = (if ProtocolSwitch_IsValid v then set_has_bit 0 m \<lparr> ppo_protocolpacket := v \<rparr>
     else m \<lparr> unknown_fields := add 1 (u64 v) (unknown_fields m) \<rparr>)"

lemma ppo_parse_read_field:
  "ProtocolPacketOptions_parse rt add = read_field (ReadPrimitive_ENUM rt) (ppo_put add) expect_end"
  by (intro ext) (auto simp: ProtocolPacketOptions_parse_def read_field_def ppo_put_def set_protocolpacket_def split: prod.split)

lemma ppo_switch_tag: "ProtocolPacketOptions_switch rt add 8 m s = ProtocolPacketOptions_parse rt add m s"
  by (simp add: ProtocolPacketOptions_switch_def tag_simps)

text \<open>A value of the enumeration is taken, any other number goes to the unknown fields.\<close>

lemma ppo_merge_value:
  assumes "runtime_ok rt" "fits_s32 v"
  shows "parses n (ProtocolPacketOptions_MergePartialFromCodedStream rt add) m (8 # enc_field TYPE_ENUM v) (ppo_put add v m)"
proof -
  note r = runtime_okD(2) [OF assms(1)]
  have p: "parses n (resume rt (ProtocolPacketOptions_switch rt add) (ProtocolPacketOptions_parse rt add)) m
      (enc_field TYPE_ENUM v) (ppo_put add v m)"
    unfolding ppo_parse_read_field by (rule parses_last [OF r read_enum [OF r assms(2)] refl])
  show ?thesis unfolding ProtocolPacketOptions_MergePartialFromCodedStream_def
    by (rule parses_first [where k = 8, OF _ _ _ _ p]) (simp_all add: ppo_switch_tag)
qed

lemma ppo_merge_enc:
  assumes "runtime_ok rt"
  shows "parses n (ProtocolPacketOptions_MergePartialFromCodedStream rt add) (ProtocolPacketOptions_new rt) (ppo_enc b) (ppo_build rt b)"
proof -
  have "ppo_put add (of_bool b) (ProtocolPacketOptions_new rt) = ppo_build rt b"
    by (cases b) (simp_all add: ppo_put_def ProtocolSwitch_IsValid_def ppo_build_def)
  then show ?thesis using ppo_merge_value [OF assms, of "of_bool b" n add "ProtocolPacketOptions_new rt"] enum_enc [of b]
    by (cases b) (simp_all add: ppo_enc_def)
qed

interpretation packet_options_class: wire_class ProtocolPacketOptions_new ppo_build "\<lambda>b. True" ppo_enc
    ProtocolPacketOptions_SerializeWithCachedSizesToArray ProtocolPacketOptions_ByteSize
    "\<lambda>rt. ProtocolPacketOptions_MergePartialFromCodedStream rt add" ProtocolPacketOptions_IsInitialized for add
  by unfold_locales (simp_all add: ppo_ser_enc ppo_size_enc ppo_merge_enc ProtocolPacketOptions_IsInitialized_def)

section \<open>Any input\<close>

lemma ppo_merge_safe:
  assumes rt: "runtime_sane rt"
  shows "safe_label (\<lambda>m. ProtocolSwitch_IsValid (ppo_protocolpacket m)) (ProtocolPacketOptions_MergePartialFromCodedStream rt add)"
proof -
  have enum: "reader_sane (\<lambda>v. True) (ReadPrimitive_ENUM rt)"
    using readers_sane(2) [OF rt] by (auto simp: reader_sane_def ReadPrimitive_ENUM_def ReadPrimitive_INT32_def split: prod.splits)
  have "safe_label (\<lambda>m. ProtocolSwitch_IsValid (ppo_protocolpacket m)) (ProtocolPacketOptions_parse rt add)"
    unfolding ppo_parse_read_field by (rule safe_read_field [OF enum _ safe_expect_end]) (simp add: ppo_put_def set_has_bit_def)
  moreover have "safe_label (\<lambda>m. ProtocolSwitch_IsValid (ppo_protocolpacket m)) (handle_uninterpreted rt tag)" for tag
    by (rule safe_uninterpreted [OF rt]) simp
  ultimately have "safe_label (\<lambda>m. ProtocolSwitch_IsValid (ppo_protocolpacket m)) (ProtocolPacketOptions_switch rt add tag)" for tag
    unfolding ProtocolPacketOptions_switch_def [abs_def] by (intro safe_if)
  then show ?thesis unfolding ProtocolPacketOptions_MergePartialFromCodedStream_def by (rule safe_merge_loop [OF rt])
qed

lemma packet_options_parser_returns:
  assumes "runtime_sane rt"
  shows "\<exists>ok m s. ProtocolPacketOptions_MergePartialFromCodedStream rt add (ProtocolPacketOptions_new rt) (CodedInputStream_new xs) =
    Some (ok, m, s) \<and> ProtocolSwitch_IsValid (ppo_protocolpacket m)"
proof -
  have "ProtocolSwitch_IsValid (ppo_protocolpacket (ProtocolPacketOptions_new rt))"
    by (simp add: ProtocolPacketOptions_new_def ProtocolSwitch_IsValid_def)
  from safe_labelD [OF ppo_merge_safe [OF assms] this] show ?thesis by metis
qed

section \<open>Copying\<close>

text \<open>Copying an object that holds a value of the enumeration does not run into the assertion.\<close>

lemma packet_options_copied:
  assumes "ProtocolSwitch_IsValid (ppo_protocolpacket from)"
  shows "\<exists>m'. ProtocolPacketOptions_CopyFrom rt from m = Some m' \<and> has_protocolpacket m' = has_protocolpacket from \<and>
    (has_protocolpacket from \<longrightarrow> ppo_protocolpacket m' = ppo_protocolpacket from)"
  using assms any_bitI [of 0 "from"]
  by (auto simp: ProtocolPacketOptions_CopyFrom_def ProtocolPacketOptions_MergeFrom_def ProtocolPacketOptions_Clear_def
      has_protocolpacket_def set_protocolpacket_def merge_unknown_def clear_bits_def bit_set_32)

lemma swap_swap: "(case ProtocolPacketOptions_Swap a b of (x, y) \<Rightarrow> ProtocolPacketOptions_Swap x y) = (a, b)"
  by (simp add: ProtocolPacketOptions_Swap_def)

end
