(* ===== verification/RepeatedField.thy ===== *)
theory RepeatedField
  imports Step_Simulation
begin

text \<open>
  \<^verbatim>\<open>RepeatedField\<close> of \<^verbatim>\<open>dep/protobuf/include/google/protobuf/repeated_field.h\<close>, the growing array
  behind the repeated fields of primitive types. An element that was allocated but never written is
  \<open>None\<close>; reading one, or an access outside the array, is a fault. The checks \<open>GOOGLE_DCHECK\<close> are not
  part of a release build.
\<close>

section \<open>The class\<close>

record 'a RepeatedField =
  rf_elements :: "'a option list option"
  rf_current_size :: int
  rf_total_size :: int

definition kMinRepeatedFieldAllocationSize :: int where "kMinRepeatedFieldAllocationSize = 4"

definition RF_new :: "'a RepeatedField" where
  "RF_new = \<lparr> rf_elements = None, rf_current_size = 0, rf_total_size = 0 \<rparr>"

definition rf_block :: "'a RepeatedField \<Rightarrow> 'a option list" where
  "rf_block r = (case rf_elements r of None \<Rightarrow> [] | Some b \<Rightarrow> b)"

definition rf_write :: "int \<Rightarrow> 'a \<Rightarrow> 'a RepeatedField \<Rightarrow> 'a RepeatedField fault" where
  "rf_write i v r = do { b \<leftarrow> arr_upd (rf_block r) i (\<lambda>_. Some v); Some (r \<lparr> rf_elements := Some b \<rparr>) }"

definition RF_size :: "'a RepeatedField \<Rightarrow> int" where "RF_size r = rf_current_size r"
definition RF_Capacity :: "'a RepeatedField \<Rightarrow> int" where "RF_Capacity r = rf_total_size r"

definition RF_Get :: "int \<Rightarrow> 'a RepeatedField \<Rightarrow> 'a fault" where
  "RF_Get i r = do { x \<leftarrow> arr_get (rf_block r) i; x }"

definition RF_Set :: "int \<Rightarrow> 'a \<Rightarrow> 'a RepeatedField \<Rightarrow> 'a RepeatedField fault" where
  "RF_Set i v r = rf_write i v r"

text \<open>\<open>CopyArray\<close> from one array to a position of another.\<close>

definition CopyArray :: "'a option list \<Rightarrow> int \<Rightarrow> 'a option list \<Rightarrow> int \<Rightarrow> 'a option list fault" where
  "CopyArray to off from n =
     (if 0 \<le> n \<and> n \<le> int (length from) \<and> 0 \<le> off \<and> off + n \<le> int (length to)
      then Some (take (nat off) to @ take (nat n) from @ drop (nat (off + n)) to) else None)"

definition RF_Reserve :: "int \<Rightarrow> 'a RepeatedField \<Rightarrow> 'a RepeatedField fault" where
  "RF_Reserve new_size r =
     (if rf_total_size r \<ge> new_size then Some r
      else do {
        let total = max kMinRepeatedFieldAllocationSize (max (s32 (rf_total_size r * 2)) new_size);
        let fresh = replicate (nat total) None;
        b \<leftarrow> (case rf_elements r of
               None \<Rightarrow> Some fresh
             | Some old \<Rightarrow> CopyArray fresh 0 old (rf_current_size r));
        Some (r \<lparr> rf_elements := Some b, rf_total_size := total \<rparr>)
      })"

definition RF_AddAlreadyReserved :: "'a \<Rightarrow> 'a RepeatedField \<Rightarrow> 'a RepeatedField fault" where
  "RF_AddAlreadyReserved v r = do {
     r \<leftarrow> rf_write (rf_current_size r) v r;
     Some (r \<lparr> rf_current_size := s32 (rf_current_size r + 1) \<rparr>)
   }"

definition RF_Add :: "'a \<Rightarrow> 'a RepeatedField \<Rightarrow> 'a RepeatedField fault" where
  "RF_Add v r = do {
     r \<leftarrow> (if rf_current_size r = rf_total_size r then RF_Reserve (s32 (rf_total_size r + 1)) r else Some r);
     r \<leftarrow> rf_write (rf_current_size r) v r;
     Some (r \<lparr> rf_current_size := s32 (rf_current_size r + 1) \<rparr>)
   }"

definition RF_RemoveLast :: "'a RepeatedField \<Rightarrow> 'a RepeatedField" where
  "RF_RemoveLast r = r \<lparr> rf_current_size := s32 (rf_current_size r - 1) \<rparr>"

definition RF_Truncate :: "int \<Rightarrow> 'a RepeatedField \<Rightarrow> 'a RepeatedField" where
  "RF_Truncate new_size r = r \<lparr> rf_current_size := new_size \<rparr>"

definition RF_Clear :: "'a RepeatedField \<Rightarrow> 'a RepeatedField" where
  "RF_Clear r = r \<lparr> rf_current_size := 0 \<rparr>"

text \<open>The two loops of \<open>ExtractSubrange\<close>; \<open>n\<close> is the number of rounds left.\<close>

fun RF_get_range :: "nat \<Rightarrow> int \<Rightarrow> 'a RepeatedField \<Rightarrow> 'a list fault" where
  "RF_get_range 0 i r = Some []"
| "RF_get_range (Suc n) i r = do { x \<leftarrow> RF_Get i r; xs \<leftarrow> RF_get_range n (i + 1) r; Some (x # xs) }"

fun RF_slide :: "nat \<Rightarrow> int \<Rightarrow> int \<Rightarrow> 'a RepeatedField \<Rightarrow> 'a RepeatedField fault" where
  "RF_slide 0 i num r = Some r"
| "RF_slide (Suc n) i num r = do { x \<leftarrow> RF_Get i r; r \<leftarrow> RF_Set (i - num) x r; RF_slide n (i + 1) num r }"

text \<open>\<open>want\<close> says whether \<open>elements\<close> is not \<open>NULL\<close>; the first result is what is stored there.\<close>

definition RF_ExtractSubrange :: "int \<Rightarrow> int \<Rightarrow> bool \<Rightarrow> 'a RepeatedField \<Rightarrow> ('a list \<times> 'a RepeatedField) fault" where
  "RF_ExtractSubrange start num want r = do {
     xs \<leftarrow> (if want then RF_get_range (nat num) start r else Some []);
     r \<leftarrow> (if num > 0
          then do {
            r \<leftarrow> RF_slide (nat (rf_current_size r - (start + num))) (start + num) num r;
            Some (RF_Truncate (rf_current_size r - num) r)
          }
          else Some r);
     Some (xs, r)
   }"

definition RF_MergeFrom :: "'a RepeatedField \<Rightarrow> 'a RepeatedField \<Rightarrow> 'a RepeatedField fault" where
  "RF_MergeFrom other r =
     (if rf_current_size other \<noteq> 0
      then do {
        r \<leftarrow> RF_Reserve (s32 (rf_current_size r + rf_current_size other)) r;
        b \<leftarrow> CopyArray (rf_block r) (rf_current_size r) (rf_block other) (rf_current_size other);
        Some (r \<lparr> rf_elements := Some b, rf_current_size := s32 (rf_current_size r + rf_current_size other) \<rparr>)
      }
      else Some r)"

definition RF_CopyFrom :: "'a RepeatedField \<Rightarrow> 'a RepeatedField \<Rightarrow> 'a RepeatedField fault" where
  "RF_CopyFrom other r = RF_MergeFrom other (RF_Clear r)"

definition RF_Swap :: "'a RepeatedField \<Rightarrow> 'a RepeatedField \<Rightarrow> 'a RepeatedField \<times> 'a RepeatedField" where
  "RF_Swap r other =
     (r \<lparr> rf_elements := rf_elements other, rf_current_size := rf_current_size other, rf_total_size := rf_total_size other \<rparr>,
      other \<lparr> rf_elements := rf_elements r, rf_current_size := rf_current_size r, rf_total_size := rf_total_size r \<rparr>)"

definition RF_SwapElements :: "int \<Rightarrow> int \<Rightarrow> 'a RepeatedField \<Rightarrow> 'a RepeatedField fault" where
  "RF_SwapElements i j r = do {
     x \<leftarrow> arr_get (rf_block r) i;
     y \<leftarrow> arr_get (rf_block r) j;
     b \<leftarrow> arr_upd (rf_block r) i (\<lambda>_. y);
     b \<leftarrow> arr_upd b j (\<lambda>_. x);
     Some (r \<lparr> rf_elements := Some b \<rparr>)
   }"

text \<open>The constructor from a range, and the assignment.\<close>

fun RF_add_all :: "'a list \<Rightarrow> 'a RepeatedField \<Rightarrow> 'a RepeatedField fault" where
  "RF_add_all [] r = Some r"
| "RF_add_all (x # xs) r = do { r \<leftarrow> RF_Add x r; RF_add_all xs r }"

definition RF_SpaceUsedExcludingSelf :: "int \<Rightarrow> 'a RepeatedField \<Rightarrow> int" where
  "RF_SpaceUsedExcludingSelf sizeof_elem r =
     (if rf_elements r \<noteq> None then s32 (rf_total_size r * sizeof_elem) else 0)"

section \<open>The elements\<close>

definition rf_inv :: "'a RepeatedField \<Rightarrow> bool" where
  "rf_inv r \<longleftrightarrow> 0 \<le> rf_current_size r \<and> rf_current_size r \<le> rf_total_size r \<and> rf_total_size r < 2147483648 \<and>
     int (length (rf_block r)) = rf_total_size r \<and> list_all (\<lambda>x. x \<noteq> None) (take (nat (rf_current_size r)) (rf_block r))"

definition rf_list :: "'a RepeatedField \<Rightarrow> 'a list" where
  "rf_list r = map the (take (nat (rf_current_size r)) (rf_block r))"

text \<open>A field that holds \<open>xs\<close>: its block starts with them.\<close>

definition holds :: "'a RepeatedField \<Rightarrow> 'a list \<Rightarrow> bool" where
  "holds r xs \<longleftrightarrow> (\<exists>junk. rf_block r = map Some xs @ junk \<and> rf_current_size r = int (length xs) \<and>
     rf_total_size r = int (length xs + length junk) \<and> rf_total_size r < 2147483648)"

lemma map_Some_the: "list_all (\<lambda>x. x \<noteq> None) ys \<Longrightarrow> map Some (map the ys) = ys"
  by (induction ys) auto

lemma holds_iff: "holds r xs \<longleftrightarrow> rf_inv r \<and> xs = rf_list r"
proof
  assume "holds r xs"
  then show "rf_inv r \<and> xs = rf_list r" by (auto simp: holds_def rf_inv_def rf_list_def list_all_iff)
next
  assume a: "rf_inv r \<and> xs = rf_list r"
  let ?n = "nat (rf_current_size r)"
  have "rf_block r = map Some xs @ drop ?n (rf_block r)"
    using a map_Some_the [of "take ?n (rf_block r)"] by (simp add: rf_inv_def rf_list_def)
  moreover have "length xs = ?n" "length (drop ?n (rf_block r)) = length (rf_block r) - ?n"
    using a by (auto simp: rf_inv_def rf_list_def)
  ultimately show "holds r xs" using a unfolding holds_def rf_inv_def
    by (intro exI [of _ "drop ?n (rf_block r)"]) auto
qed

lemma holds_new: "holds RF_new []"
  by (simp add: holds_def RF_new_def rf_block_def)

lemma holdsE:
  assumes "holds r xs"
  obtains junk where "rf_block r = map Some xs @ junk" "rf_current_size r = int (length xs)"
    "rf_total_size r = int (length xs + length junk)" "rf_total_size r < 2147483648"
  using assms unfolding holds_def by blast

lemma holds_Get: "holds r xs \<Longrightarrow> i < length xs \<Longrightarrow> RF_Get (int i) r = Some (xs ! i)"
  by (elim holdsE) (simp add: RF_Get_def arr_get_def nth_append)

lemma rf_block_upd [simp]: "rf_block (r \<lparr> rf_elements := Some b \<rparr>) = b" "rf_block (r \<lparr> rf_current_size := n \<rparr>) = rf_block r"
  "rf_block (r \<lparr> rf_total_size := n \<rparr>) = rf_block r"
  by (simp_all add: rf_block_def)

lemma holds_Set:
  assumes "holds r xs" "i < length xs"
  shows "\<exists>r'. RF_Set (int i) v r = Some r' \<and> holds r' (xs[i := v]) \<and> rf_current_size r' = rf_current_size r"
proof -
  from assms(1) obtain junk where j: "rf_block r = map Some xs @ junk" "rf_current_size r = int (length xs)"
    "rf_total_size r = int (length xs + length junk)" "rf_total_size r < 2147483648" by (rule holdsE)
  have "(map Some xs @ junk)[i := Some v] = map Some (xs[i := v]) @ junk"
    using assms(2) by (simp add: list_update_append map_update)
  then show ?thesis using j assms(2)
    by (auto simp: RF_Set_def rf_write_def arr_upd_def holds_def)
qed

lemma holds_Reserve:
  assumes "holds r xs" "n < 2147483648"
  shows "\<exists>r'. RF_Reserve n r = Some r' \<and> holds r' xs \<and> n \<le> RF_Capacity r' \<and>
    (RF_Capacity r < n \<longrightarrow> RF_Capacity r < 1073741824 \<longrightarrow> 2 * RF_Capacity r \<le> RF_Capacity r')"
proof (cases "n \<le> rf_total_size r")
  case True
  with assms show ?thesis by (simp add: RF_Reserve_def RF_Capacity_def)
next
  case False
  from assms(1) obtain junk where j: "rf_block r = map Some xs @ junk" "rf_current_size r = int (length xs)"
    "rf_total_size r = int (length xs + length junk)" "rf_total_size r < 2147483648" by (rule holdsE)
  define T where "T = max kMinRepeatedFieldAllocationSize (max (s32 (rf_total_size r * 2)) n)"
  have t: "n \<le> T" "T < 2147483648" "0 \<le> T"
    using assms(2) s32_range [of "rf_total_size r * 2"] by (auto simp: T_def kMinRepeatedFieldAllocationSize_def)
  have d: "2 * rf_total_size r \<le> T" if "rf_total_size r < 1073741824"
    using that j(3) by (simp add: T_def s32_id le_max_iff_disj)
  let ?b = "map Some xs @ replicate (nat T - length xs) None"
  have "(case rf_elements r of None \<Rightarrow> Some (replicate (nat T) None)
      | Some old \<Rightarrow> CopyArray (replicate (nat T) None) 0 old (rf_current_size r)) = Some ?b"
  proof (cases "rf_elements r")
    case None
    with j show ?thesis by (simp add: rf_block_def)
  next
    case (Some old)
    have "int (length xs) \<le> T" using False j t by linarith
    with Some j t(3) show ?thesis by (simp add: rf_block_def CopyArray_def)
  qed
  then have "RF_Reserve n r = Some (r \<lparr> rf_elements := Some ?b, rf_total_size := T \<rparr>)"
    using False by (simp add: RF_Reserve_def Let_def flip: T_def)
  moreover have "holds (r \<lparr> rf_elements := Some ?b, rf_total_size := T \<rparr>) xs"
    using j t False unfolding holds_def by (intro exI [of _ "replicate (nat T - length xs) None"]) auto
  ultimately show ?thesis using t d by (auto simp: RF_Capacity_def)
qed

lemma holds_AddAlreadyReserved:
  assumes "holds r xs" "RF_size r < RF_Capacity r"
  shows "\<exists>r'. RF_AddAlreadyReserved v r = Some r' \<and> holds r' (xs @ [v]) \<and> RF_Capacity r' = RF_Capacity r"
proof -
  from assms(1) obtain junk where j: "rf_block r = map Some xs @ junk" "rf_current_size r = int (length xs)"
    "rf_total_size r = int (length xs + length junk)" "rf_total_size r < 2147483648" by (rule holdsE)
  with assms(2) obtain y ys where y: "junk = y # ys" by (cases junk) (auto simp: RF_size_def RF_Capacity_def)
  then have "(map Some xs @ junk)[length xs := Some v] = map Some (xs @ [v]) @ ys" by (simp add: list_update_append)
  with j y show ?thesis
    by (auto simp: RF_AddAlreadyReserved_def rf_write_def arr_upd_def holds_def RF_Capacity_def s32_id)
qed

lemma holds_size: "holds r xs \<Longrightarrow> RF_size r = int (length xs)"
  by (auto simp: holds_def RF_size_def)

lemma holds_capacity: "holds r xs \<Longrightarrow> RF_size r \<le> RF_Capacity r"
  by (auto simp: holds_def RF_size_def RF_Capacity_def)

lemma RF_Add_alt:
  "RF_Add v r = do { r \<leftarrow> (if RF_size r = RF_Capacity r then RF_Reserve (s32 (RF_Capacity r + 1)) r else Some r);
     RF_AddAlreadyReserved v r }"
  by (simp add: RF_Add_def RF_AddAlreadyReserved_def RF_size_def RF_Capacity_def)

lemma holds_Add:
  assumes "holds r xs" "length xs < 2147483647"
  shows "\<exists>r'. RF_Add v r = Some r' \<and> holds r' (xs @ [v])"
proof (cases "RF_size r = RF_Capacity r")
  case True
  then have c: "RF_Capacity r = int (length xs)" using holds_size [OF assms(1)] by simp
  with assms obtain r1 where r1: "RF_Reserve (RF_Capacity r + 1) r = Some r1" "holds r1 xs" "RF_Capacity r + 1 \<le> RF_Capacity r1"
    using holds_Reserve [OF assms(1), of "RF_Capacity r + 1"] by auto
  have "RF_size r1 < RF_Capacity r1" using r1 c holds_size [OF r1(2)] by simp
  from holds_AddAlreadyReserved [OF r1(2) this, of v] r1 True c assms(2) show ?thesis
    by (auto simp: RF_Add_alt s32_id)
next
  case False
  with holds_capacity [OF assms(1)] have "RF_size r < RF_Capacity r" by simp
  from holds_AddAlreadyReserved [OF assms(1) this, of v] False show ?thesis by (auto simp: RF_Add_alt)
qed

lemma holds_Truncate:
  assumes "holds r xs" "n \<le> length xs"
  shows "holds (RF_Truncate (int n) r) (take n xs)"
proof -
  from assms(1) obtain junk where j: "rf_block r = map Some xs @ junk" "rf_current_size r = int (length xs)"
    "rf_total_size r = int (length xs + length junk)" "rf_total_size r < 2147483648" by (rule holdsE)
  have "map Some xs @ junk = map Some (take n xs) @ map Some (drop n xs) @ junk"
    by (simp flip: map_append append_assoc)
  with j assms(2) show ?thesis unfolding holds_def RF_Truncate_def
    by (intro exI [of _ "map Some (drop n xs) @ junk"]) auto
qed

lemma holds_RemoveLast: "holds r xs \<Longrightarrow> xs \<noteq> [] \<Longrightarrow> holds (RF_RemoveLast r) (butlast xs)"
proof -
  assume h: "holds r xs" "xs \<noteq> []"
  from h(1) have "rf_current_size r = int (length xs)" "int (length xs) < 2147483648" by (auto elim!: holdsE)
  then have "RF_RemoveLast r = RF_Truncate (int (length xs - 1)) r"
    using h(2) by (simp add: RF_RemoveLast_def RF_Truncate_def s32_id of_nat_diff Suc_le_eq)
  with holds_Truncate [OF h(1), of "length xs - 1"] show ?thesis by (simp add: butlast_conv_take)
qed

lemma holds_Clear: "holds r xs \<Longrightarrow> holds (RF_Clear r) []"
  using holds_Truncate [of r xs 0] by (simp add: RF_Clear_def RF_Truncate_def)

lemma holds_get_range:
  "holds r xs \<Longrightarrow> i + n \<le> length xs \<Longrightarrow> RF_get_range n (int i) r = Some (take n (drop i xs))"
proof (induction n arbitrary: i)
  case (Suc n)
  have "take (Suc n) (drop i xs) = xs ! i # take n (drop (Suc i) xs)"
    using Suc.prems(2) by (simp add: take_Suc_conv_app_nth Cons_nth_drop_Suc [symmetric])
  with Suc.IH [of "Suc i"] Suc.prems holds_Get [OF Suc.prems(1), of i] show ?case by (simp add: add.commute)
qed simp

text \<open>After \<open>n\<close> rounds the \<open>n\<close> elements behind the gap have moved down.\<close>

lemma holds_slide:
  "holds r xs \<Longrightarrow> num \<le> i \<Longrightarrow> i + n \<le> length xs \<Longrightarrow>
    \<exists>r'. RF_slide n (int i) (int num) r = Some r' \<and>
      holds r' (take (i - num) xs @ take n (drop i xs) @ drop (i - num + n) xs)"
proof (induction n arbitrary: i r xs)
  case 0
  then show ?case by auto
next
  case (Suc n)
  let ?ys = "xs[i - num := xs ! i]"
  have "i - num < length xs" using Suc.prems by simp
  from holds_Set [OF Suc.prems(1) this, of "xs ! i"] Suc.prems(2) obtain r1 where
    r1: "RF_Set (int i - int num) (xs ! i) r = Some r1" "holds r1 ?ys" by (auto simp: of_nat_diff)
  from Suc.IH [OF r1(2), of "Suc i"] Suc.prems obtain r2 where
    r2: "RF_slide n (int (Suc i)) (int num) r1 = Some r2"
      "holds r2 (take (Suc i - num) ?ys @ take n (drop (Suc i) ?ys) @ drop (Suc i - num + n) ?ys)" by auto
  have "take (Suc i - num) ?ys @ take n (drop (Suc i) ?ys) @ drop (Suc i - num + n) ?ys =
      take (i - num) xs @ take (Suc n) (drop i xs) @ drop (i - num + Suc n) xs"
  proof -
    have "take (Suc i - num) ?ys = take (i - num) xs @ [xs ! i]"
      using Suc.prems by (simp add: Suc_diff_le take_Suc_conv_app_nth)
    moreover have "drop (Suc i) ?ys = drop (Suc i) xs" "drop (Suc i - num + n) ?ys = drop (i - num + Suc n) xs"
      using Suc.prems by (simp_all add: drop_update_cancel Suc_diff_le)
    moreover have "take (Suc n) (drop i xs) = xs ! i # take n (drop (Suc i) xs)"
      using Suc.prems by (simp add: Cons_nth_drop_Suc [symmetric])
    ultimately show ?thesis by simp
  qed
  with r1 r2 holds_Get [OF Suc.prems(1), of i] Suc.prems show ?case by (auto simp: add.commute)
qed

lemma holds_ExtractSubrange:
  assumes h: "holds r xs" and n: "start + num \<le> length xs"
  shows "\<exists>r'. RF_ExtractSubrange (int start) (int num) want r = Some (if want then take num (drop start xs) else [], r') \<and>
    holds r' (take start xs @ drop (start + num) xs)"
proof -
  let ?k = "length xs - (start + num)"
  have sz: "rf_current_size r = int (length xs)" using holds_size [OF h] by (simp add: RF_size_def)
  from holds_slide [OF h, of num "start + num" ?k] n obtain r1 where
    r1: "RF_slide ?k (int (start + num)) (int num) r = Some r1" "holds r1 (take start xs @ drop (start + num) xs @ drop (start + ?k) xs)"
    by (auto simp: take_all)
  let ?ys = "take start xs @ drop (start + num) xs @ drop (start + ?k) xs"
  have l: "length ?ys = length xs" using n by simp
  have "holds (RF_Truncate (rf_current_size r1 - int num) r1) (take start xs @ drop (start + num) xs)"
    using holds_Truncate [OF r1(2), of "length xs - num"] holds_size [OF r1(2)] l n
    by (simp add: RF_size_def of_nat_diff)
  moreover have "nat (rf_current_size r - (int start + int num)) = ?k" using sz n by simp
  ultimately show ?thesis using r1(1) holds_get_range [OF h, of start num] n h
    by (cases "num = 0") (auto simp: RF_ExtractSubrange_def sz)
qed

lemma holds_MergeFrom:
  assumes h: "holds r xs" and o: "holds other ys" and l: "length xs + length ys < 2147483648"
  shows "\<exists>r'. RF_MergeFrom other r = Some r' \<and> holds r' (xs @ ys)"
proof (cases "ys = []")
  case True
  with h holds_size [OF o] show ?thesis by (simp add: RF_MergeFrom_def RF_size_def)
next
  case False
  have sz: "rf_current_size r = int (length xs)" "rf_current_size other = int (length ys)"
    using holds_size [OF h] holds_size [OF o] by (simp_all add: RF_size_def)
  from holds_Reserve [OF h, of "int (length xs + length ys)"] l obtain r1 where
    r1: "RF_Reserve (int (length xs) + int (length ys)) r = Some r1" "holds r1 xs" "int (length xs + length ys) \<le> RF_Capacity r1"
    by auto
  from r1(2) obtain junk where j: "rf_block r1 = map Some xs @ junk" "rf_current_size r1 = int (length xs)"
    "rf_total_size r1 = int (length xs + length junk)" "rf_total_size r1 < 2147483648" by (rule holdsE)
  obtain junk' where j': "rf_block other = map Some ys @ junk'" using o by (auto elim: holdsE)
  have k: "length ys \<le> length junk" using r1(3) j by (simp add: RF_Capacity_def)
  then have "CopyArray (rf_block r1) (int (length xs)) (rf_block other) (int (length ys)) =
      Some (map Some (xs @ ys) @ drop (length ys) junk)"
    using j j' by (simp add: CopyArray_def nat_add_distrib)
  with r1(1) j k False sz l show ?thesis
    by (auto simp: RF_MergeFrom_def s32_id holds_def)
qed

lemma holds_CopyFrom:
  "holds r xs \<Longrightarrow> holds other ys \<Longrightarrow> length ys < 2147483648 \<Longrightarrow> \<exists>r'. RF_CopyFrom other r = Some r' \<and> holds r' ys"
  using holds_MergeFrom [OF holds_Clear, of r xs other ys] by (simp add: RF_CopyFrom_def)

lemma holds_SwapElements:
  assumes h: "holds r xs" and n: "i < length xs" "j < length xs"
  shows "\<exists>r'. RF_SwapElements (int i) (int j) r = Some r' \<and> holds r' (xs[i := xs ! j, j := xs ! i])"
proof -
  from h obtain junk where b: "rf_block r = map Some xs @ junk" "rf_current_size r = int (length xs)"
    "rf_total_size r = int (length xs + length junk)" "rf_total_size r < 2147483648" by (rule holdsE)
  have "(map Some xs @ junk)[i := Some (xs ! j), j := Some (xs ! i)] = map Some (xs[i := xs ! j, j := xs ! i]) @ junk"
    using n by (simp add: list_update_append map_update)
  with b n show ?thesis
    by (auto simp: RF_SwapElements_def arr_get_def arr_upd_def nth_append holds_def)
qed

lemma holds_add_all:
  "holds r xs \<Longrightarrow> length xs + length ys < 2147483648 \<Longrightarrow> \<exists>r'. RF_add_all ys r = Some r' \<and> holds r' (xs @ ys)"
proof (induction ys arbitrary: r xs)
  case (Cons y ys)
  from holds_Add [OF Cons.prems(1), of y] Cons.prems(2) obtain r1 where
    "RF_Add y r = Some r1" "holds r1 (xs @ [y])" by auto
  with Cons.IH [of r1 "xs @ [y]"] Cons.prems(2) show ?case by auto
qed auto

section \<open>Programs on a field\<close>

text \<open>
  The operations of a client, on lists and on the class; another field that is merged or copied has
  been filled from a list. The observation of a step is the elements it returns.
\<close>

datatype 'a rf_op = OpAdd 'a | OpGet int | OpSet int 'a | OpRemoveLast | OpTruncate int | OpExtract int int bool |
  OpClear | OpReserve int | OpMerge "'a list" | OpCopy "'a list" | OpSwapElements int int

fun list_step :: "'a rf_op \<Rightarrow> 'a list \<Rightarrow> ('a list \<times> 'a list) option" where
  "list_step (OpAdd v) xs = (if length xs < 2147483647 then Some ([], xs @ [v]) else None)"
| "list_step (OpGet i) xs = (if 0 \<le> i \<and> i < int (length xs) then Some ([xs ! nat i], xs) else None)"
| "list_step (OpSet i v) xs = (if 0 \<le> i \<and> i < int (length xs) then Some ([], xs[nat i := v]) else None)"
| "list_step OpRemoveLast xs = (if xs \<noteq> [] then Some ([], butlast xs) else None)"
| "list_step (OpTruncate n) xs = (if 0 \<le> n \<and> n \<le> int (length xs) then Some ([], take (nat n) xs) else None)"
| "list_step (OpExtract start num want) xs =
     (if 0 \<le> start \<and> 0 \<le> num \<and> start + num \<le> int (length xs)
      then Some (if want then take (nat num) (drop (nat start) xs) else [], take (nat start) xs @ drop (nat (start + num)) xs)
      else None)"
| "list_step OpClear xs = Some ([], [])"
| "list_step (OpReserve n) xs = (if n < 2147483648 then Some ([], xs) else None)"
| "list_step (OpMerge ys) xs = (if length xs + length ys < 2147483648 then Some ([], xs @ ys) else None)"
| "list_step (OpCopy ys) xs = (if length ys < 2147483648 then Some ([], ys) else None)"
| "list_step (OpSwapElements i j) xs =
     (if 0 \<le> i \<and> i < int (length xs) \<and> 0 \<le> j \<and> j < int (length xs)
      then Some ([], xs[nat i := xs ! nat j, nat j := xs ! nat i]) else None)"

definition no_result :: "'s fault \<Rightarrow> ('a list \<times> 's) option" where
  "no_result x = map_option (Pair []) x"

fun rf_step :: "'a rf_op \<Rightarrow> 'a RepeatedField \<Rightarrow> ('a list \<times> 'a RepeatedField) option" where
  "rf_step (OpAdd v) r = no_result (RF_Add v r)"
| "rf_step (OpGet i) r = map_option (\<lambda>x. ([x], r)) (RF_Get i r)"
| "rf_step (OpSet i v) r = no_result (RF_Set i v r)"
| "rf_step OpRemoveLast r = no_result (Some (RF_RemoveLast r))"
| "rf_step (OpTruncate n) r = no_result (Some (RF_Truncate n r))"
| "rf_step (OpExtract start num want) r = RF_ExtractSubrange start num want r"
| "rf_step OpClear r = no_result (Some (RF_Clear r))"
| "rf_step (OpReserve n) r = no_result (RF_Reserve n r)"
| "rf_step (OpMerge ys) r = do { other \<leftarrow> RF_add_all ys RF_new; no_result (RF_MergeFrom other r) }"
| "rf_step (OpCopy ys) r = do { other \<leftarrow> RF_add_all ys RF_new; no_result (RF_CopyFrom other r) }"
| "rf_step (OpSwapElements i j) r = no_result (RF_SwapElements i j r)"

lemma rf_step_simulates:
  assumes h: "holds r xs" and s: "list_step x xs = Some (o1, xs')"
  shows "\<exists>r'. rf_step x r = Some (o1, r') \<and> holds r' xs'"
proof (cases x)
  case (OpAdd v)
  with holds_Add [OF h, of v] s show ?thesis by (auto simp: no_result_def split: if_splits)
next
  case (OpGet i)
  with holds_Get [OF h, of "nat i"] s h show ?thesis by (auto split: if_splits)
next
  case (OpSet i v)
  with holds_Set [OF h, of "nat i" v] s show ?thesis by (auto simp: no_result_def nat_less_iff split: if_splits)
next
  case OpRemoveLast
  with holds_RemoveLast [OF h] s show ?thesis by (auto simp: no_result_def split: if_splits)
next
  case (OpTruncate n)
  with holds_Truncate [OF h, of "nat n"] s show ?thesis by (auto simp: no_result_def split: if_splits)
next
  case (OpExtract start num want)
  with holds_ExtractSubrange [OF h, of "nat start" "nat num" want] s show ?thesis
    by (auto simp: nat_add_distrib split: if_splits)
next
  case OpClear
  with holds_Clear [OF h] s show ?thesis by (auto simp: no_result_def)
next
  case (OpReserve n)
  with holds_Reserve [OF h, of n] s show ?thesis by (auto simp: no_result_def split: if_splits)
next
  case (OpMerge ys)
  with s have l: "length xs + length ys < 2147483648" by (auto split: if_splits)
  with holds_add_all [OF holds_new, of ys] obtain other where o: "RF_add_all ys RF_new = Some other" "holds other ys" by auto
  with holds_MergeFrom [OF h o(2) l] s OpMerge show ?thesis by (auto simp: no_result_def split: if_splits)
next
  case (OpCopy ys)
  with s have l: "length ys < 2147483648" by (auto split: if_splits)
  with holds_add_all [OF holds_new, of ys] obtain other where o: "RF_add_all ys RF_new = Some other" "holds other ys" by auto
  with holds_CopyFrom [OF h o(2) l] s OpCopy show ?thesis by (auto simp: no_result_def split: if_splits)
next
  case (OpSwapElements i j)
  with holds_SwapElements [OF h, of "nat i" "nat j"] s show ?thesis by (auto simp: no_result_def split: if_splits)
qed

interpretation rf_sim: step_simulation holds "\<lambda>x. True" list_step rf_step
  by unfold_locales (rule rf_step_simulates)

text \<open>
  C37. A repeated field is a list. From an empty field every program of additions, reads, writes,
  removals, truncations, extractions of a range, merges and copies of other fields, swaps of elements
  and reservations that keeps its indices in range and its length in an \<open>int\<close> runs without a fault:
  no access leaves the allocated array and no element is read that was not written, whatever growth
  happens on the way. It returns what the same program returns on a list, and the field then holds
  the elements of that list.
\<close>

theorem repeated_field_is_a_list:
  assumes "run_steps list_step ops [] = Some (outs, xs)"
  shows "\<exists>r. run_steps rf_step ops RF_new = Some (outs, r) \<and> rf_inv r \<and> rf_list r = xs \<and> RF_size r = int (length xs)"
  using rf_sim.runs [OF holds_new _ assms] holds_size by (fastforce simp: holds_iff list_all_iff)

theorem repeated_field_is_a_list_witness:
  "\<exists>r. run_steps rf_step [OpAdd (1 :: int), OpMerge [2, 3, 4, 5], OpExtract 1 2 True, OpSet 0 9, OpRemoveLast] RF_new =
      Some ([[], [], [2, 3], [], []], r) \<and> rf_list r = [9, 4]"
proof -
  have "run_steps list_step [OpAdd (1 :: int), OpMerge [2, 3, 4, 5], OpExtract 1 2 True, OpSet 0 9, OpRemoveLast] [] =
      Some ([[], [], [2, 3], [], []], [9, 4])" by simp
  from repeated_field_is_a_list [OF this] show ?thesis by blast
qed

end
