(* ===== verification/RepeatedRead.thy ===== *)
theory RepeatedRead
  imports WireFields RepeatedField
begin

text \<open>
  Reading repeated fields of the primitive types, from \<^verbatim>\<open>wire_format_lite_inl.h\<close>: the plain loop, the
  faster one for the types of fixed size, which reads straight from the array, and packed fields.
  The fast loop is equivalent to the plain one, and a packed field is read back as it was written.
  A pointer into the array is the bytes from there on; reading behind them is a fault.
\<close>

section \<open>The readers\<close>

definition ExpectTagFromArray :: "byte list \<Rightarrow> int \<Rightarrow> byte list option fault" where
  "ExpectTagFromArray buffer expected =
     (if expected < 128
      then do { b0 \<leftarrow> arr_get buffer 0; Some (if uint b0 = expected then Some (drop 1 buffer) else None) }
      else if expected < 16384
      then do {
        b0 \<leftarrow> arr_get buffer 0;
        if b0 = word_of_int (expected OR 0x80)
        then do {
          b1 \<leftarrow> arr_get buffer 1;
          Some (if b1 = word_of_int (drop_bit 7 expected) then Some (drop 2 buffer) else None)
        }
        else Some None
      }
      else Some None)"

fun ReadPrimitiveFromArray :: "FieldType \<Rightarrow> byte list \<Rightarrow> (int \<times> byte list) fault" where
  "ReadPrimitiveFromArray TYPE_FIXED32 buffer = ReadLittleEndian32FromArray buffer"
| "ReadPrimitiveFromArray TYPE_FIXED64 buffer = ReadLittleEndian64FromArray buffer"
| "ReadPrimitiveFromArray TYPE_SFIXED32 buffer = do { (t, b) \<leftarrow> ReadLittleEndian32FromArray buffer; Some (s32 t, b) }"
| "ReadPrimitiveFromArray TYPE_SFIXED64 buffer = do { (t, b) \<leftarrow> ReadLittleEndian64FromArray buffer; Some (s64 t, b) }"
| "ReadPrimitiveFromArray TYPE_FLOAT buffer = do { (t, b) \<leftarrow> ReadLittleEndian32FromArray buffer; Some (DecodeFloat t, b) }"
| "ReadPrimitiveFromArray TYPE_DOUBLE buffer = do { (t, b) \<leftarrow> ReadLittleEndian64FromArray buffer; Some (DecodeDouble t, b) }"
| "ReadPrimitiveFromArray ty buffer = None"

text \<open>The loop of \<open>ReadRepeatedPrimitive\<close>; \<open>n\<close> is \<open>elements_already_reserved\<close>.\<close>

fun reserved_loop :: "'u runtime_more \<Rightarrow> FieldType \<Rightarrow> int \<Rightarrow> nat \<Rightarrow> CodedInputStream \<Rightarrow> int RepeatedField \<Rightarrow>
    (bool \<times> int RepeatedField \<times> CodedInputStream) fault" where
  "reserved_loop rt ty tag 0 s values = Some (True, values, s)"
| "reserved_loop rt ty tag (Suc n) s values =
     (let (e, s) = ExpectTag tag s
      in if \<not> e then Some (True, values, s)
         else
           let (ok, v, s) = ReadPrimitive rt ty s
           in if \<not> ok then Some (False, values, s)
              else do { values \<leftarrow> RF_AddAlreadyReserved v values; reserved_loop rt ty tag n s values })"

definition ReadRepeatedPrimitive :: "'u runtime_more \<Rightarrow> FieldType \<Rightarrow> int \<Rightarrow> CodedInputStream \<Rightarrow> int RepeatedField \<Rightarrow>
    (bool \<times> int RepeatedField \<times> CodedInputStream) fault" where
  "ReadRepeatedPrimitive rt ty tag s values =
     (let (ok, v, s) = ReadPrimitive rt ty s
      in if \<not> ok then Some (False, values, s)
         else do {
           values \<leftarrow> RF_Add v values;
           reserved_loop rt ty tag (nat (RF_Capacity values - RF_size values)) s values
         })"

text \<open>The loop over the array; the results are the number of elements read and the field.\<close>

fun array_loop :: "FieldType \<Rightarrow> int \<Rightarrow> nat \<Rightarrow> byte list \<Rightarrow> nat \<Rightarrow> int RepeatedField \<Rightarrow> (nat \<times> int RepeatedField) fault" where
  "array_loop ty tag 0 buffer num_read values = Some (num_read, values)"
| "array_loop ty tag (Suc n) buffer num_read values = do {
     e \<leftarrow> ExpectTagFromArray buffer tag;
     (case e of
        None \<Rightarrow> Some (num_read, values)
      | Some buffer \<Rightarrow> do {
          (v, buffer) \<leftarrow> ReadPrimitiveFromArray ty buffer;
          values \<leftarrow> RF_AddAlreadyReserved v values;
          array_loop ty tag n buffer (Suc num_read) values
        })
   }"

fun sizeof_type :: "FieldType \<Rightarrow> nat" where
  "sizeof_type ty = (if ty \<in> {TYPE_FIXED64, TYPE_SFIXED64, TYPE_DOUBLE} then 8 else 4)"

definition ReadRepeatedFixedSizePrimitive :: "'u runtime_more \<Rightarrow> FieldType \<Rightarrow> nat \<Rightarrow> int \<Rightarrow> CodedInputStream \<Rightarrow>
    int RepeatedField \<Rightarrow> (bool \<times> int RepeatedField \<times> CodedInputStream) fault" where
  "ReadRepeatedFixedSizePrimitive rt ty tag_size tag s values =
     (let (ok, v, s) = ReadPrimitive rt ty s
      in if \<not> ok then Some (False, values, s)
         else do {
           values \<leftarrow> RF_Add v values;
           let size = length (is_buffer s);
           if size > 0
           then do {
             let per_value_size = tag_size + sizeof_type ty;
             let elements_available = min (nat (RF_Capacity values - RF_size values)) (size div per_value_size);
             (num_read, values) \<leftarrow> array_loop ty tag elements_available (is_buffer s) 0 values;
             let read_bytes = num_read * per_value_size;
             Some (True, values, if read_bytes > 0 then snd (rt_Skip rt (int read_bytes) s) else s)
           }
           else Some (True, values, s)
         })"

partial_function (option) packed_loop :: "'u runtime_more \<Rightarrow> FieldType \<Rightarrow> CodedInputStream \<Rightarrow> int RepeatedField \<Rightarrow>
    (bool \<times> int RepeatedField \<times> CodedInputStream) option" where
  "packed_loop rt ty s values =
     (if rt_BytesUntilLimit rt s > 0
      then let (ok, v, s) = ReadPrimitive rt ty s
           in if \<not> ok then Some (False, values, s)
              else do { values \<leftarrow> RF_Add v values; packed_loop rt ty s values }
      else Some (True, values, s))"

definition ReadPackedPrimitive :: "'u runtime_more \<Rightarrow> FieldType \<Rightarrow> CodedInputStream \<Rightarrow> int RepeatedField \<Rightarrow>
    (bool \<times> int RepeatedField \<times> CodedInputStream) option" where
  "ReadPackedPrimitive rt ty s values =
     (let (ok, len, s) = ReadVarint32 (rt_base rt) s
      in if \<not> ok then Some (False, values, s)
         else
           let (limit, s) = rt_PushLimit (rt_base rt) (s32 len) s
           in do {
                (ok, values, s) \<leftarrow> packed_loop rt ty s values;
                Some (if ok then (True, values, rt_PopLimit (rt_base rt) limit s) else (False, values, s))
              })"

section \<open>The fast loop\<close>

text \<open>The bytes of a tag, as far as the two loops look for it.\<close>

definition tag_bytes_of :: "int \<Rightarrow> byte list" where
  "tag_bytes_of tag = (if tag < 128 then [word_of_int tag] else [word_of_int (tag OR 0x80), word_of_int (drop_bit 7 tag)])"

definition starts_with :: "byte list \<Rightarrow> byte list \<Rightarrow> bool" where
  "starts_with xs bs \<longleftrightarrow> take (length xs) bs = xs"

lemma ExpectTag_starts:
  assumes "0 \<le> tag" "tag < 16384"
  shows "ExpectTag tag s = (if starts_with (tag_bytes_of tag) (is_buffer s)
    then (True, Advance (length (tag_bytes_of tag)) s) else (False, s))"
proof (cases "is_buffer s")
  case Nil
  with assms show ?thesis by (simp add: ExpectTag_def tag_bytes_of_def starts_with_def BufferSize_def)
next
  case (Cons b bs)
  have "uint b = tag \<longleftrightarrow> b = word_of_int tag" if "tag < 128"
    using assms that byte_of_small_int [of tag] by auto
  with Cons assms show ?thesis
    by (cases bs) (auto simp: ExpectTag_def tag_bytes_of_def starts_with_def BufferSize_def Advance_def)
qed

lemma ExpectTagFromArray_starts:
  assumes "0 \<le> tag" "tag < 16384" "length (tag_bytes_of tag) \<le> length bs"
  shows "ExpectTagFromArray bs tag = Some (if starts_with (tag_bytes_of tag) bs
    then Some (drop (length (tag_bytes_of tag)) bs) else None)"
proof (cases bs)
  case Nil
  with assms show ?thesis by (simp add: tag_bytes_of_def split: if_splits)
next
  case (Cons b cs)
  have "uint b = tag \<longleftrightarrow> b = word_of_int tag" if "tag < 128"
    using assms that byte_of_small_int [of tag] by auto
  with Cons assms show ?thesis
    by (cases cs) (auto simp: ExpectTagFromArray_def tag_bytes_of_def starts_with_def arr_get_def split: if_splits)
qed

definition fixed_type :: "FieldType \<Rightarrow> bool" where
  "fixed_type ty \<longleftrightarrow> ty \<in> {TYPE_FIXED32, TYPE_FIXED64, TYPE_SFIXED32, TYPE_SFIXED64, TYPE_FLOAT, TYPE_DOUBLE}"

lemma ReadPrimitive_array:
  assumes "fixed_type ty" "sizeof_type ty \<le> length (is_buffer s)"
  shows "\<exists>v. ReadPrimitive rt ty s = (True, v, Advance (sizeof_type ty) s) \<and>
    ReadPrimitiveFromArray ty (is_buffer s) = Some (v, drop (sizeof_type ty) (is_buffer s))"
  using assms by (auto simp: fixed_type_def read_primitive_defs ReadLittleEndian32_def ReadLittleEndian64_def
      ReadLittleEndian32FromArray_def ReadLittleEndian64FromArray_def BufferSize_def)

lemma Advance_add [simp]: "Advance j (Advance i s) = Advance (i + j) s" "is_buffer (Advance i s) = drop i (is_buffer s)"
  by (simp_all add: Advance_def add.commute)

text \<open>
  As long as whole elements fit into the buffer the two loops do the same. The plain loop may make
  \<open>d\<close> more rounds; the first of them ends it, if no tag follows there.
\<close>

lemma loops_agree:
  assumes ty: "fixed_type ty" and tag: "0 \<le> tag" "tag < 16384"
    and per: "per = length (tag_bytes_of tag) + sizeof_type ty"
  shows "n * per \<le> length (is_buffer s) \<Longrightarrow> d = 0 \<or> \<not> starts_with (tag_bytes_of tag) (drop (n * per) (is_buffer s)) \<Longrightarrow>
    reserved_loop rt ty tag (n + d) s vs =
      map_option (\<lambda>(k, vs). (True, vs, Advance ((k - j) * per) s)) (array_loop ty tag n (is_buffer s) j vs) \<and>
    (\<forall>k vs'. array_loop ty tag n (is_buffer s) j vs = Some (k, vs') \<longrightarrow> j \<le> k \<and> k \<le> j + n)"
proof (induction n arbitrary: s vs j)
  case 0
  then show ?case by (cases d) (auto simp: ExpectTag_starts [OF tag] Advance_def)
next
  case (Suc n)
  have p: "length (tag_bytes_of tag) \<le> length (is_buffer s)" using Suc.prems(1) per by (simp add: trans_le_add1)
  note expect = ExpectTag_starts [OF tag] ExpectTagFromArray_starts [OF tag p]
  show ?case
  proof (cases "starts_with (tag_bytes_of tag) (is_buffer s)")
    case False
    then show ?thesis by (simp add: expect Advance_def)
  next
    case True
    let ?s1 = "Advance (length (tag_bytes_of tag)) s"
    have "sizeof_type ty \<le> length (is_buffer ?s1)" using Suc.prems(1) per by simp
    from ReadPrimitive_array [OF ty this] obtain v where
      v: "ReadPrimitive rt ty ?s1 = (True, v, Advance per s)"
        "ReadPrimitiveFromArray ty (drop (length (tag_bytes_of tag)) (is_buffer s)) = Some (v, drop per (is_buffer s))"
      by (auto simp: per add.commute)
    show ?thesis
    proof (cases "RF_AddAlreadyReserved v vs")
      case None
      with True v show ?thesis by (simp add: expect)
    next
      case (Some vs1)
      have "n * per \<le> length (is_buffer (Advance per s))" using Suc.prems(1) by simp
      moreover have "d = 0 \<or> \<not> starts_with (tag_bytes_of tag) (drop (n * per) (is_buffer (Advance per s)))"
        using Suc.prems(2) by (simp add: add.commute)
      ultimately have ih: "reserved_loop rt ty tag (n + d) (Advance per s) vs1 =
          map_option (\<lambda>(k, vs). (True, vs, Advance ((k - Suc j) * per) (Advance per s))) (array_loop ty tag n (drop per (is_buffer s)) (Suc j) vs1)"
        "\<forall>k vs'. array_loop ty tag n (drop per (is_buffer s)) (Suc j) vs1 = Some (k, vs') \<longrightarrow> Suc j \<le> k \<and> k \<le> Suc j + n"
        using Suc.IH [of "Advance per s" vs1 "Suc j"] by auto
      show ?thesis
      proof (cases "array_loop ty tag n (drop per (is_buffer s)) (Suc j) vs1")
        case None
        with True v Some ih(1) show ?thesis by (simp add: expect)
      next
        case (Some res)
        then obtain k vs' where res: "array_loop ty tag n (drop per (is_buffer s)) (Suc j) vs1 = Some (k, vs')" by (cases res) auto
        with ih(2) have k: "Suc j \<le> k" "k \<le> Suc j + n" by auto
        then have "(k - j) * per = per + (k - Suc j) * per" by (metis Suc_diff_le diff_Suc_Suc mult_Suc)
        with True v \<open>RF_AddAlreadyReserved v vs = Some vs1\<close> ih(1) res k show ?thesis by (simp add: expect)
      qed
    qed
  qed
qed

definition skip_ok :: "'u runtime_more \<Rightarrow> bool" where
  "skip_ok rt \<longleftrightarrow> (\<forall>n s. n \<le> length (is_buffer s) \<longrightarrow> rt_Skip rt (int n) s = (True, Advance n s))"

text \<open>
  C39. The fast loop for repeated fields of fixed size is equivalent to the plain one: for a library
  whose \<open>Skip\<close> skips, a tag of one or two bytes and a buffer that does not end inside an element, reading
  whole elements straight from the array and skipping them afterwards gives the same result, the same
  elements in the field and the same position of the stream, and never reads behind the buffer.
\<close>

theorem fixed_size_loop_equivalent:
  assumes ty: "fixed_type ty" and tag: "0 \<le> tag" "tag < 16384" and skip: "skip_ok rt"
    and per: "per = length (tag_bytes_of tag) + sizeof_type ty"
    and whole: "\<And>v s'. ReadPrimitive rt ty s = (True, v, s') \<Longrightarrow>
      \<not> starts_with (tag_bytes_of tag) (drop (length (is_buffer s') div per * per) (is_buffer s'))"
  shows "ReadRepeatedFixedSizePrimitive rt ty (length (tag_bytes_of tag)) tag s r = ReadRepeatedPrimitive rt ty tag s r"
proof -
  obtain ok v s1 where p: "ReadPrimitive rt ty s = (ok, v, s1)" by (cases "ReadPrimitive rt ty s") auto
  show ?thesis
  proof (cases "ok \<and> RF_Add v r \<noteq> None")
    case False
    then show ?thesis
      by (cases ok) (simp_all add: ReadRepeatedFixedSizePrimitive_def ReadRepeatedPrimitive_def p)
  next
    case True
    then obtain r1 where r1: "RF_Add v r = Some r1" by auto
    define N where "N = nat (RF_Capacity r1 - RF_size r1)"
    define n where "n = min N (length (is_buffer s1) div per)"
    have n: "n * per \<le> length (is_buffer s1)"
      by (rule le_trans [OF mult_le_mono1 div_times_less_eq_dividend]) (simp add: n_def)
    have "N - n = 0 \<or> \<not> starts_with (tag_bytes_of tag) (drop (n * per) (is_buffer s1))"
      using whole [of v s1] p True by (cases "N \<le> length (is_buffer s1) div per") (simp_all add: n_def)
    moreover have "n + (N - n) = N" by (simp add: n_def)
    ultimately have loops: "reserved_loop rt ty tag N s1 r1 =
        map_option (\<lambda>(k, vs). (True, vs, Advance (k * per) s1)) (array_loop ty tag n (is_buffer s1) 0 r1)"
      "\<And>k vs. array_loop ty tag n (is_buffer s1) 0 r1 = Some (k, vs) \<Longrightarrow> k \<le> n"
      using loops_agree [OF ty tag per n, of "N - n" rt r1 0] by simp_all
    have skip': "k \<le> n \<Longrightarrow> rt_Skip rt (int (k * per)) s1 = (True, Advance (k * per) s1)" for k
      using skip le_trans [OF mult_le_mono1 n] unfolding skip_ok_def by blast
    have plain: "ReadRepeatedPrimitive rt ty tag s r = reserved_loop rt ty tag N s1 r1"
      using True by (simp add: ReadRepeatedPrimitive_def p r1 N_def)
    have fast: "ReadRepeatedFixedSizePrimitive rt ty (length (tag_bytes_of tag)) tag s r =
        (if is_buffer s1 \<noteq> [] then do { (k, vs) \<leftarrow> array_loop ty tag n (is_buffer s1) 0 r1;
           Some (True, vs, if k * per > 0 then snd (rt_Skip rt (int (k * per)) s1) else s1) } else Some (True, r1, s1))"
      unfolding n_def N_def per using True by (simp add: ReadRepeatedFixedSizePrimitive_def p r1 Let_def del: sizeof_type.simps)
    have s0: "Advance 0 s1 = s1" by (simp add: Advance_def)
    show ?thesis
    proof (cases "array_loop ty tag n (is_buffer s1) 0 r1")
      case None
      then have "is_buffer s1 \<noteq> []" by (auto simp: n_def)
      with None loops(1) show ?thesis unfolding plain fast by simp
    next
      case (Some res)
      obtain k vs where res: "res = (k, vs)" by force
      with loops(2) Some have k: "k \<le> n" by blast
      have "is_buffer s1 = [] \<Longrightarrow> k = 0 \<and> vs = r1" using Some res by (simp add: n_def)
      then show ?thesis unfolding plain fast loops(1) Some res
        using skip' [OF k] s0 by (cases "is_buffer s1 = []"; cases "k = 0"; cases "per = 0") simp_all
    qed
  qed
qed

definition ex_repeated :: CodedInputStream where
  "ex_repeated = CodedInputStream_new (enc_fixed32 7 @ 13 # enc_fixed32 8 @ 13 # enc_fixed32 9)"

theorem fixed_size_loop_equivalent_witness:
  "ReadRepeatedFixedSizePrimitive ref_runtime_more TYPE_FIXED32 1 13 ex_repeated RF_new =
    ReadRepeatedPrimitive ref_runtime_more TYPE_FIXED32 13 ex_repeated RF_new"
proof -
  have skip: "skip_ok ref_runtime_more" by (simp add: skip_ok_def ref_runtime_more_def BufferSize_def)
  have r: "reads_ok (rt_base ref_runtime_more)" using runtime_okD(2) [OF ref_runtime_ok] by (simp add: ref_runtime_more_def)
  have "ReadPrimitive ref_runtime_more TYPE_FIXED32 ex_repeated =
      (True, 7, ex_repeated \<lparr> is_buffer := 13 # enc_fixed32 8 @ 13 # enc_fixed32 9 \<rparr>)"
    using read_primitive [OF r, of TYPE_FIXED32 7 ex_repeated] by (simp add: ex_repeated_def CodedInputStream_new_def)
  with fixed_size_loop_equivalent [of TYPE_FIXED32 13 ref_runtime_more 5 ex_repeated RF_new] skip show ?thesis
    by (simp add: fixed_type_def tag_bytes_of_def starts_with_def)
qed

section \<open>Packed fields\<close>

definition until_ok :: "'u runtime_more \<Rightarrow> bool" where
  "until_ok rt \<longleftrightarrow> (\<forall>s. flat s \<longrightarrow> rt_BytesUntilLimit rt s = int (length (is_buffer s)))"

definition enc_packed :: "FieldType \<Rightarrow> int list \<Rightarrow> byte list" where
  "enc_packed ty vs = concat (map (enc_field ty) vs)"

lemma enc_field_nonempty: "enc_field ty v \<noteq> []"
proof -
  have "varint n \<noteq> []" for n by (simp add: varint.simps [of n])
  moreover have "enc_fixed32 w \<noteq> []" "bytes64 w \<noteq> []" for w
    using length_enc_fixed32 [of w] length_bytes64 [of w] by (metis list.size(3) zero_neq_numeral)+
  ultimately show ?thesis by (cases ty) simp_all
qed

lemma packed_loop_reads:
  assumes ok: "reads_ok (rt_base rt)" "until_ok rt"
  shows "flat s \<Longrightarrow> is_buffer s = enc_packed ty vs \<Longrightarrow> list_all (in_range ty) vs \<Longrightarrow> holds r xs \<Longrightarrow>
    length xs + length vs < 2147483648 \<Longrightarrow>
    \<exists>r'. packed_loop rt ty s r = Some (True, r', s \<lparr> is_buffer := [] \<rparr>) \<and> holds r' (xs @ vs)"
proof (induction vs arbitrary: s r xs)
  case Nil
  then show ?case using ok(2) by (subst packed_loop.simps) (auto simp: until_ok_def enc_packed_def)
next
  case (Cons v vs)
  let ?s = "s \<lparr> is_buffer := enc_packed ty vs \<rparr>"
  have b: "is_buffer s = enc_field ty v @ enc_packed ty vs" using Cons.prems(2) by (simp add: enc_packed_def)
  have rd: "ReadPrimitive rt ty s = (True, v, ?s)" using read_primitive [OF ok(1) _ b] Cons.prems(3) by simp
  from holds_Add [OF Cons.prems(4), of v] Cons.prems(5) obtain r1 where
    r1: "RF_Add v r = Some r1" "holds r1 (xs @ [v])" by auto
  have "flat ?s" using Cons.prems(1) by (simp add: flat_def)
  from Cons.IH [OF this _ _ r1(2)] Cons.prems(3,5) obtain r2 where
    r2: "packed_loop rt ty ?s r1 = Some (True, r2, s \<lparr> is_buffer := [] \<rparr>)" "holds r2 (xs @ v # vs)" by auto
  have "0 < rt_BytesUntilLimit rt s" using ok(2) Cons.prems(1) b enc_field_nonempty [of ty v]
    by (cases "enc_field ty v") (auto simp: until_ok_def)
  then show ?case using rd r1(1) r2 by (subst packed_loop.simps) simp
qed

text \<open>
  C40. A packed repeated field is read back as it was written: from a length and that many bytes, the
  encodings of some values one behind the other, \<open>ReadPackedPrimitive\<close> returns true, has appended
  exactly these values to the field and leaves the stream at the first byte behind them, with its
  limit restored.
\<close>

theorem packed_field_roundtrip:
  assumes ok: "runtime_ok (rt_base rt)" "until_ok rt"
    and vs: "list_all (in_range ty) vs" "length (enc_packed ty vs) < 2 ^ 31"
    and r: "rf_inv r" "length (rf_list r) + length vs < 2147483648"
    and s: "flat s" "is_buffer s = enc_bytes (enc_packed ty vs) @ rest"
  shows "\<exists>r' s'. ReadPackedPrimitive rt ty s r = Some (True, r', s') \<and> rf_inv r' \<and> rf_list r' = rf_list r @ vs \<and>
    is_buffer s' = rest \<and> same_place s s'"
proof -
  let ?b = "enc_packed ty vs"
  let ?s1 = "s \<lparr> is_buffer := ?b @ rest \<rparr>"
  let ?s2 = "?s1 \<lparr> is_buffer := ?b, is_after_limit := rest @ is_after_limit s,
     is_current_limit := is_current_limit s - int (length rest) \<rparr>"
  note okD = runtime_okD [OF ok(1)]
  have n: "s32 (u32 (int (length ?b))) = int (length ?b)" using vs(2) by (simp add: u32_id s32_id)
  have rd: "ReadVarint32 (rt_base rt) s = (True, u32 (int (length ?b)), ?s1)"
    using ReadVarint_varint(1) [OF okD(2), of "length ?b" s "?b @ rest"] vs(2) s(2) by (simp add: enc_bytes_def)
  have push: "rt_PushLimit (rt_base rt) (int (length ?b)) ?s1 = (is_current_limit s, ?s2)"
    using okD(3) s(1) by (simp add: limits_ok_def flat_def)
  have f2: "flat ?s2" and f3: "flat (?s2 \<lparr> is_buffer := [] \<rparr>)" using s(1) by (simp_all add: flat_def)
  from packed_loop_reads [OF okD(2) ok(2) f2 _ vs(1), of r "rf_list r"] r obtain r' where
    r': "packed_loop rt ty ?s2 r = Some (True, r', ?s2 \<lparr> is_buffer := [] \<rparr>)" "holds r' (rf_list r @ vs)"
    by (auto simp: holds_iff)
  obtain e where "rt_PopLimit (rt_base rt) (is_current_limit s) (?s2 \<lparr> is_buffer := [] \<rparr>) = (?s2 \<lparr> is_buffer := [] \<rparr>)
      \<lparr> is_buffer := rest, is_after_limit := is_after_limit s, is_current_limit := is_current_limit s, is_legitimate_message_end := e \<rparr>"
    using PopLimit_ok [OF okD(3) f3, of rest "is_after_limit s" "is_current_limit s"] by auto
  with r' rd push n show ?thesis by (auto simp: ReadPackedPrimitive_def holds_iff same_place_def)
qed

definition ex_packed :: CodedInputStream where
  "ex_packed = CodedInputStream_new (enc_bytes (enc_packed TYPE_SINT32 [1, - 2, 300]) @ [8, 1])"

theorem packed_field_roundtrip_witness:
  "\<exists>r s. ReadPackedPrimitive ref_runtime_more TYPE_SINT32 ex_packed RF_new = Some (True, r, s) \<and>
    rf_list r = [1, - 2, 300] \<and> is_buffer s = [8, 1]"
proof -
  have u: "until_ok ref_runtime_more"
    by (auto simp: until_ok_def ref_runtime_more_def flat_def CurrentPosition_def BufferSize_def)
  have l: "length (enc_packed TYPE_SINT32 [1, - 2, 300]) = 4"
    by (simp add: enc_packed_def zigzag_def varint.simps)
  have f: "flat ex_packed" "is_buffer ex_packed = enc_bytes (enc_packed TYPE_SINT32 [1, - 2, 300]) @ [8, 1]"
    using l by (simp_all add: ex_packed_def CodedInputStream_new_def flat_def kDefaultTotalBytesLimit_def enc_bytes_def varint_small)
  have i: "rf_inv (RF_new :: int RepeatedField)" "rf_list (RF_new :: int RepeatedField) = []"
    using holds_new [where 'a = int] unfolding holds_iff by simp_all
  from packed_field_roundtrip [OF _ u _ _ i(1) _ f] ref_runtime_ok l i show ?thesis
    by (auto simp: ref_runtime_more_def)
qed

end
