(* ===== verification/RepeatedPtrField.thy ===== *)
theory RepeatedPtrField
  imports RepeatedField ConnsvrCodec
begin

text \<open>
  \<^verbatim>\<open>RepeatedPtrField\<close> and its base class, of \<^verbatim>\<open>dep/protobuf/include/google/protobuf/repeated_field.h\<close>:
  the array of pointers behind the repeated fields of strings and messages. It owns its objects and
  keeps those that were removed, cleared, for later use. The objects live in a heap, so that a leak, a
  second \<open>delete\<close> and a use of a deleted object show; the array belongs to one field and is a value in it.

  \<open>handler\<close> is the template argument \<open>TypeHandler\<close>, \<open>res\<close> is \<open>Reserve\<close>, which is not in the header. The
  checks \<open>GOOGLE_DCHECK\<close> are not part of a release build.
\<close>

section \<open>Objects\<close>

record 'a objects =
  objs :: "nat \<rightharpoonup> 'a"
  next_addr :: nat

record 'a handler =
  th_New :: 'a
  th_Clear :: "'a \<Rightarrow> 'a"
  th_Merge :: "'a \<Rightarrow> 'a \<Rightarrow> 'a"
  th_SpaceUsed :: "'a \<Rightarrow> int"

definition obj_new :: "'a \<Rightarrow> 'a objects \<Rightarrow> nat \<times> 'a objects" where
  "obj_new x w = (next_addr w, w \<lparr> objs := (objs w)(next_addr w \<mapsto> x), next_addr := Suc (next_addr w) \<rparr>)"

definition obj_upd :: "nat \<Rightarrow> ('a \<Rightarrow> 'a) \<Rightarrow> 'a objects \<Rightarrow> 'a objects fault" where
  "obj_upd p f w = do { x \<leftarrow> objs w p; Some (w \<lparr> objs := (objs w)(p \<mapsto> f x) \<rparr>) }"

definition obj_delete :: "nat \<Rightarrow> 'a objects \<Rightarrow> 'a objects fault" where
  "obj_delete p w = do { x \<leftarrow> objs w p; Some (w \<lparr> objs := (objs w)(p := None) \<rparr>) }"

text \<open>
  The handler of a message class, from what the class provides, and that of strings. The body of \<open>New\<close> for strings and
  \<open>StringSpaceUsedExcludingSelf\<close> are in the library (\<open>new_string\<close>, \<open>space\<close>).
\<close>

definition GenericTypeHandler :: "'a \<Rightarrow> ('a \<Rightarrow> 'a) \<Rightarrow> ('a \<Rightarrow> 'a \<Rightarrow> 'a) \<Rightarrow> ('a \<Rightarrow> int) \<Rightarrow> 'a handler" where
  "GenericTypeHandler new clear merge_from space_used =
     \<lparr> th_New = new, th_Clear = clear, th_Merge = merge_from, th_SpaceUsed = space_used \<rparr>"

definition StringTypeHandler :: "byte list \<Rightarrow> int \<Rightarrow> (byte list \<Rightarrow> int) \<Rightarrow> byte list handler" where
  "StringTypeHandler new_string sizeof_string space =
     \<lparr> th_New = new_string, th_Clear = (\<lambda>value. []), th_Merge = (\<lambda>from to. from), th_SpaceUsed = (\<lambda>value. s32 (sizeof_string + space value)) \<rparr>"

section \<open>The class\<close>

record RepeatedPtrField =
  rp_elements :: "nat option list option"
  rp_current_size :: int
  rp_allocated_size :: int
  rp_total_size :: int

type_synonym reserve = "int \<Rightarrow> RepeatedPtrField \<Rightarrow> RepeatedPtrField"

definition rp_block :: "RepeatedPtrField \<Rightarrow> nat option list" where
  "rp_block r = (case rp_elements r of None \<Rightarrow> [] | Some b \<Rightarrow> b)"

definition rp_read :: "int \<Rightarrow> RepeatedPtrField \<Rightarrow> nat fault" where
  "rp_read i r = do { x \<leftarrow> arr_get (rp_block r) i; x }"

definition rp_write :: "int \<Rightarrow> nat \<Rightarrow> RepeatedPtrField \<Rightarrow> RepeatedPtrField fault" where
  "rp_write i p r = do { b \<leftarrow> arr_upd (rp_block r) i (\<lambda>_. Some p); Some (r \<lparr> rp_elements := Some b \<rparr>) }"

definition RP_new :: RepeatedPtrField where
  "RP_new = \<lparr> rp_elements = None, rp_current_size = 0, rp_allocated_size = 0, rp_total_size = 0 \<rparr>"

text \<open>Loops count the rounds that are left.\<close>

fun RP_delete_loop :: "nat \<Rightarrow> int \<Rightarrow> RepeatedPtrField \<Rightarrow> 'a objects \<Rightarrow> 'a objects fault" where
  "RP_delete_loop 0 i r w = Some w"
| "RP_delete_loop (Suc n) i r w = do { p \<leftarrow> rp_read i r; w \<leftarrow> obj_delete p w; RP_delete_loop n (i + 1) r w }"

definition RP_Destroy :: "RepeatedPtrField \<Rightarrow> 'a objects \<Rightarrow> 'a objects fault" where
  "RP_Destroy r w = RP_delete_loop (nat (rp_allocated_size r)) 0 r w"

definition RP_size :: "RepeatedPtrField \<Rightarrow> int" where "RP_size r = rp_current_size r"
definition RP_Capacity :: "RepeatedPtrField \<Rightarrow> int" where "RP_Capacity r = rp_total_size r"

definition RP_Get :: "int \<Rightarrow> RepeatedPtrField \<Rightarrow> 'a objects \<Rightarrow> 'a fault" where
  "RP_Get i r w = do { p \<leftarrow> rp_read i r; objs w p }"

definition RP_Mutable :: "int \<Rightarrow> RepeatedPtrField \<Rightarrow> nat fault" where
  "RP_Mutable i r = rp_read i r"

definition RP_Add :: "reserve \<Rightarrow> 'a handler \<Rightarrow> RepeatedPtrField \<Rightarrow> 'a objects \<Rightarrow> (nat \<times> RepeatedPtrField \<times> 'a objects) fault" where
  "RP_Add res h r w =
     (if rp_current_size r < rp_allocated_size r
      then do {
        p \<leftarrow> rp_read (rp_current_size r) r;
        Some (p, r \<lparr> rp_current_size := s32 (rp_current_size r + 1) \<rparr>, w)
      }
      else do {
        let r = (if rp_allocated_size r = rp_total_size r then res (s32 (rp_total_size r + 1)) r else r);
        let r = r \<lparr> rp_allocated_size := s32 (rp_allocated_size r + 1) \<rparr>;
        let (p, w) = obj_new (th_New h) w;
        r \<leftarrow> rp_write (rp_current_size r) p r;
        Some (p, r \<lparr> rp_current_size := s32 (rp_current_size r + 1) \<rparr>, w)
      })"

definition RP_RemoveLast :: "'a handler \<Rightarrow> RepeatedPtrField \<Rightarrow> 'a objects \<Rightarrow> (RepeatedPtrField \<times> 'a objects) fault" where
  "RP_RemoveLast h r w = do {
     let r = r \<lparr> rp_current_size := s32 (rp_current_size r - 1) \<rparr>;
     p \<leftarrow> rp_read (rp_current_size r) r;
     w \<leftarrow> obj_upd p (th_Clear h) w;
     Some (r, w)
   }"

fun RP_clear_loop :: "'a handler \<Rightarrow> nat \<Rightarrow> int \<Rightarrow> RepeatedPtrField \<Rightarrow> 'a objects \<Rightarrow> 'a objects fault" where
  "RP_clear_loop h 0 i r w = Some w"
| "RP_clear_loop h (Suc n) i r w = do { p \<leftarrow> rp_read i r; w \<leftarrow> obj_upd p (th_Clear h) w; RP_clear_loop h n (i + 1) r w }"

definition RP_Clear :: "'a handler \<Rightarrow> RepeatedPtrField \<Rightarrow> 'a objects \<Rightarrow> (RepeatedPtrField \<times> 'a objects) fault" where
  "RP_Clear h r w = do {
     w \<leftarrow> RP_clear_loop h (nat (rp_current_size r)) 0 r w;
     Some (r \<lparr> rp_current_size := 0 \<rparr>, w)
   }"

fun RP_merge_loop :: "reserve \<Rightarrow> 'a handler \<Rightarrow> nat \<Rightarrow> int \<Rightarrow> RepeatedPtrField \<Rightarrow> RepeatedPtrField \<Rightarrow> 'a objects \<Rightarrow>
    (RepeatedPtrField \<times> 'a objects) fault" where
  "RP_merge_loop res h 0 i other r w = Some (r, w)"
| "RP_merge_loop res h (Suc n) i other r w = do {
     x \<leftarrow> RP_Get i other w;
     (p, r, w) \<leftarrow> RP_Add res h r w;
     w \<leftarrow> obj_upd p (th_Merge h x) w;
     RP_merge_loop res h n (i + 1) other r w
   }"

definition RP_MergeFrom :: "reserve \<Rightarrow> 'a handler \<Rightarrow> RepeatedPtrField \<Rightarrow> RepeatedPtrField \<Rightarrow> 'a objects \<Rightarrow>
    (RepeatedPtrField \<times> 'a objects) fault" where
  "RP_MergeFrom res h other r w =
     (let r = res (s32 (rp_current_size r + rp_current_size other)) r
      in RP_merge_loop res h (nat (rp_current_size other)) 0 other r w)"

definition RP_CopyFrom :: "reserve \<Rightarrow> 'a handler \<Rightarrow> RepeatedPtrField \<Rightarrow> RepeatedPtrField \<Rightarrow> 'a objects \<Rightarrow>
    (RepeatedPtrField \<times> 'a objects) fault" where
  "RP_CopyFrom res h other r w = do { (r, w) \<leftarrow> RP_Clear h r w; RP_MergeFrom res h other r w }"

fun RP_slide :: "nat \<Rightarrow> int \<Rightarrow> int \<Rightarrow> RepeatedPtrField \<Rightarrow> RepeatedPtrField fault" where
  "RP_slide 0 i num r = Some r"
| "RP_slide (Suc n) i num r = do { p \<leftarrow> rp_read i r; r \<leftarrow> rp_write (i - num) p r; RP_slide n (i + 1) num r }"

definition RP_CloseGap :: "int \<Rightarrow> int \<Rightarrow> RepeatedPtrField \<Rightarrow> RepeatedPtrField fault" where
  "RP_CloseGap start num r = do {
     r \<leftarrow> RP_slide (nat (rp_allocated_size r - (start + num))) (start + num) num r;
     Some (r \<lparr> rp_current_size := s32 (rp_current_size r - num), rp_allocated_size := s32 (rp_allocated_size r - num) \<rparr>)
   }"

fun RP_get_range :: "nat \<Rightarrow> int \<Rightarrow> RepeatedPtrField \<Rightarrow> nat list fault" where
  "RP_get_range 0 i r = Some []"
| "RP_get_range (Suc n) i r = do { p \<leftarrow> RP_Mutable i r; ps \<leftarrow> RP_get_range n (i + 1) r; Some (p # ps) }"

text \<open>\<open>want\<close> says whether \<open>elements\<close> is not \<open>NULL\<close>; the first result is what is stored there.\<close>

definition RP_ExtractSubrange :: "int \<Rightarrow> int \<Rightarrow> bool \<Rightarrow> RepeatedPtrField \<Rightarrow> (nat list \<times> RepeatedPtrField) fault" where
  "RP_ExtractSubrange start num want r =
     (if num > 0
      then do {
        ps \<leftarrow> (if want then RP_get_range (nat num) start r else Some []);
        r \<leftarrow> RP_CloseGap start num r;
        Some (ps, r)
      }
      else Some ([], r))"

definition RP_DeleteSubrange :: "int \<Rightarrow> int \<Rightarrow> RepeatedPtrField \<Rightarrow> 'a objects \<Rightarrow> (RepeatedPtrField \<times> 'a objects) fault" where
  "RP_DeleteSubrange start num r w = do {
     w \<leftarrow> RP_delete_loop (nat num) start r w;
     (ps, r) \<leftarrow> RP_ExtractSubrange start num False r;
     Some (r, w)
   }"

definition RP_SwapElements :: "int \<Rightarrow> int \<Rightarrow> RepeatedPtrField \<Rightarrow> RepeatedPtrField fault" where
  "RP_SwapElements i j r = do {
     p \<leftarrow> rp_read i r;
     q \<leftarrow> rp_read j r;
     r \<leftarrow> rp_write i q r;
     rp_write j p r
   }"

fun RP_space_loop :: "'a handler \<Rightarrow> nat \<Rightarrow> int \<Rightarrow> RepeatedPtrField \<Rightarrow> 'a objects \<Rightarrow> int \<Rightarrow> int fault" where
  "RP_space_loop h 0 i r w bytes = Some bytes"
| "RP_space_loop h (Suc n) i r w bytes = do {
     p \<leftarrow> rp_read i r;
     x \<leftarrow> objs w p;
     RP_space_loop h n (i + 1) r w (s32 (bytes + th_SpaceUsed h x))
   }"

definition RP_SpaceUsedExcludingSelf :: "'a handler \<Rightarrow> RepeatedPtrField \<Rightarrow> 'a objects \<Rightarrow> int fault" where
  "RP_SpaceUsedExcludingSelf h r w =
     RP_space_loop h (nat (rp_allocated_size r)) 0 r w (if rp_elements r \<noteq> None then s32 (rp_total_size r * 8) else 0)"

definition RP_AddFromCleared :: "RepeatedPtrField \<Rightarrow> (nat option \<times> RepeatedPtrField) fault" where
  "RP_AddFromCleared r =
     (if rp_current_size r < rp_allocated_size r
      then do {
        p \<leftarrow> rp_read (rp_current_size r) r;
        Some (Some p, r \<lparr> rp_current_size := s32 (rp_current_size r + 1) \<rparr>)
      }
      else Some (None, r))"

definition RP_AddAllocated :: "reserve \<Rightarrow> nat \<Rightarrow> RepeatedPtrField \<Rightarrow> 'a objects \<Rightarrow> (RepeatedPtrField \<times> 'a objects) fault" where
  "RP_AddAllocated res p r w = do {
     (r, w) \<leftarrow>
       (if rp_current_size r = rp_total_size r
        then let r = res (s32 (rp_total_size r + 1)) r
             in Some (r \<lparr> rp_allocated_size := s32 (rp_allocated_size r + 1) \<rparr>, w)
        else if rp_allocated_size r = rp_total_size r
        then do {
          q \<leftarrow> rp_read (rp_current_size r) r;
          w \<leftarrow> obj_delete q w;
          Some (r, w)
        }
        else if rp_current_size r < rp_allocated_size r
        then do {
          q \<leftarrow> rp_read (rp_current_size r) r;
          r \<leftarrow> rp_write (rp_allocated_size r) q r;
          Some (r \<lparr> rp_allocated_size := s32 (rp_allocated_size r + 1) \<rparr>, w)
        }
        else Some (r \<lparr> rp_allocated_size := s32 (rp_allocated_size r + 1) \<rparr>, w));
     r \<leftarrow> rp_write (rp_current_size r) p r;
     Some (r \<lparr> rp_current_size := s32 (rp_current_size r + 1) \<rparr>, w)
   }"

definition RP_ReleaseLast :: "RepeatedPtrField \<Rightarrow> (nat \<times> RepeatedPtrField) fault" where
  "RP_ReleaseLast r = do {
     let r = r \<lparr> rp_current_size := s32 (rp_current_size r - 1) \<rparr>;
     p \<leftarrow> rp_read (rp_current_size r) r;
     let r = r \<lparr> rp_allocated_size := s32 (rp_allocated_size r - 1) \<rparr>;
     r \<leftarrow> (if rp_current_size r < rp_allocated_size r
          then do { q \<leftarrow> rp_read (rp_allocated_size r) r; rp_write (rp_current_size r) q r }
          else Some r);
     Some (p, r)
   }"

definition RP_ClearedCount :: "RepeatedPtrField \<Rightarrow> int" where
  "RP_ClearedCount r = s32 (rp_allocated_size r - rp_current_size r)"

definition RP_AddCleared :: "reserve \<Rightarrow> nat \<Rightarrow> RepeatedPtrField \<Rightarrow> RepeatedPtrField fault" where
  "RP_AddCleared res p r = do {
     let r = (if rp_allocated_size r = rp_total_size r then res (s32 (rp_total_size r + 1)) r else r);
     r \<leftarrow> rp_write (rp_allocated_size r) p r;
     Some (r \<lparr> rp_allocated_size := s32 (rp_allocated_size r + 1) \<rparr>)
   }"

definition RP_ReleaseCleared :: "RepeatedPtrField \<Rightarrow> (nat \<times> RepeatedPtrField) fault" where
  "RP_ReleaseCleared r = do {
     let r = r \<lparr> rp_allocated_size := s32 (rp_allocated_size r - 1) \<rparr>;
     p \<leftarrow> rp_read (rp_allocated_size r) r;
     Some (p, r)
   }"

text \<open>The constructor from a range, and the copying one.\<close>

fun RP_add_all :: "reserve \<Rightarrow> 'a handler \<Rightarrow> 'a list \<Rightarrow> RepeatedPtrField \<Rightarrow> 'a objects \<Rightarrow> (RepeatedPtrField \<times> 'a objects) fault" where
  "RP_add_all res h [] r w = Some (r, w)"
| "RP_add_all res h (x # xs) r w = do {
     (p, r, w) \<leftarrow> RP_Add res h r w;
     w \<leftarrow> obj_upd p (\<lambda>_. x) w;
     RP_add_all res h xs r w
   }"

definition RP_copy :: "reserve \<Rightarrow> 'a handler \<Rightarrow> RepeatedPtrField \<Rightarrow> 'a objects \<Rightarrow> (RepeatedPtrField \<times> 'a objects) fault" where
  "RP_copy res h other w = RP_CopyFrom res h other RP_new w"

section \<open>The array of pointers\<close>

text \<open>
  \<open>slots r os\<close>: the array starts with the pointers \<open>os\<close>. \<open>rp_at r ps qs\<close>: the field has the elements \<open>ps\<close> and
  the cleared objects \<open>qs\<close>, in the order of the array.
\<close>

definition slots :: "RepeatedPtrField \<Rightarrow> nat list \<Rightarrow> bool" where
  "slots r os \<longleftrightarrow> take (length os) (rp_block r) = map Some os"

definition rp_at :: "RepeatedPtrField \<Rightarrow> nat list \<Rightarrow> nat list \<Rightarrow> bool" where
  "rp_at r ps qs \<longleftrightarrow> slots r (ps @ qs) \<and> rp_current_size r = int (length ps) \<and>
     rp_allocated_size r = int (length ps + length qs) \<and> rp_total_size r = int (length (rp_block r)) \<and>
     rp_total_size r < 2147483648"

definition reserve_ok :: "reserve \<Rightarrow> bool" where
  "reserve_ok res \<longleftrightarrow> (\<forall>r ps qs n. rp_at r ps qs \<longrightarrow> n < 2147483648 \<longrightarrow> rp_at (res n r) ps qs \<and> n \<le> rp_total_size (res n r))"

lemma rp_block_simps [simp]:
  "rp_block (r \<lparr> rp_current_size := c \<rparr>) = rp_block r" "rp_block (r \<lparr> rp_allocated_size := c \<rparr>) = rp_block r"
  "rp_block (r \<lparr> rp_elements := Some b \<rparr>) = b"
  by (simp_all add: rp_block_def)

lemma slots_length: "slots r os \<Longrightarrow> length os \<le> length (rp_block r)"
  by (drule arg_cong [where f = length, OF iffD1 [OF slots_def]]) (simp add: min_def split: if_splits)

lemma slots_nth: "slots r os \<Longrightarrow> i < length os \<Longrightarrow> rp_block r ! i = Some (os ! i)"
  unfolding slots_def by (metis nth_map nth_take)

lemma slots_prefix: "slots r (os @ os') \<Longrightarrow> slots r os"
  by (drule arg_cong [where f = "take (length os)", OF iffD1 [OF slots_def]]) (simp add: slots_def min_def)

lemma slots_read: "slots r os \<Longrightarrow> i < length os \<Longrightarrow> rp_read (int i) r = Some (os ! i)"
  using slots_length [of r os] slots_nth [of r os i] by (simp add: rp_read_def arr_get_def)

lemma rp_write_block:
  assumes "i < length (rp_block r)"
  shows "rp_write (int i) p r = Some (r \<lparr> rp_elements := Some ((rp_block r)[i := Some p]) \<rparr>)"
  using assms by (simp add: rp_write_def arr_upd_def)

lemma slots_update:
  "slots r os \<Longrightarrow> i < length os \<Longrightarrow> slots (r \<lparr> rp_elements := Some ((rp_block r)[i := Some p]) \<rparr>) (os[i := p])"
  by (simp add: slots_def take_update_swap map_update)

lemma slots_snoc:
  assumes "slots r os" "length os < length (rp_block r)"
  shows "slots (r \<lparr> rp_elements := Some ((rp_block r)[length os := Some p]) \<rparr>) (os @ [p])"
  using assms by (simp add: slots_def take_Suc_conv_app_nth)

lemma rp_at_new: "rp_at RP_new [] []"
  by (simp add: rp_at_def RP_new_def rp_block_def slots_def)

lemma rp_atD:
  assumes "rp_at r ps qs"
  shows "slots r (ps @ qs)" "rp_current_size r = int (length ps)" "rp_allocated_size r = int (length ps + length qs)"
    "rp_total_size r = int (length (rp_block r))" "length (rp_block r) < 2147483648" "length ps + length qs \<le> length (rp_block r)"
  using assms slots_length [of r "ps @ qs"] by (auto simp: rp_at_def)

lemma reserveD:
  assumes "reserve_ok res" "rp_at r ps qs" "n < 2147483648"
  shows "rp_at (res n r) ps qs" "n \<le> rp_total_size (res n r)"
  using assms by (auto simp: reserve_ok_def)

text \<open>Sliding the elements from \<open>i\<close> on down closes the gap in front of them.\<close>

lemma slide_slots:
  assumes "slots r os" "num \<le> i" "i + n = length os" "0 < num"
  shows "\<exists>b. RP_slide n (int i) (int num) r = Some (r \<lparr> rp_elements := b \<rparr>) \<and>
    slots (r \<lparr> rp_elements := b \<rparr>) (take (i - num) os @ drop i os) \<and> length (rp_block (r \<lparr> rp_elements := b \<rparr>)) = length (rp_block r)"
  using assms
proof (induction n arbitrary: i r os)
  case 0
  then have "slots r (take (i - num) os)" using slots_prefix [of r "take (i - num) os" "drop (i - num) os"] by simp
  with 0 show ?case by (auto intro!: exI [of _ "rp_elements r"])
next
  case (Suc n)
  let ?j = "i - num"
  define r1 where "r1 = r \<lparr> rp_elements := Some ((rp_block r)[?j := Some (os ! i)]) \<rparr>"
  define os1 where "os1 = os[?j := os ! i]"
  have i: "i < length os" "?j < length os" using Suc.prems by auto
  have w: "rp_write (int i - int num) (os ! i) r = Some r1"
    using rp_write_block [of ?j r "os ! i"] i slots_length [OF Suc.prems(1)] Suc.prems(2) by (simp add: r1_def of_nat_diff)
  have s1: "slots r1 os1" unfolding r1_def os1_def by (rule slots_update [OF Suc.prems(1) i(2)])
  have "take (Suc i - num) os1 @ drop (Suc i) os1 = take ?j os @ drop i os"
    using Suc.prems(2,4) i Cons_nth_drop_Suc [OF i(1)] by (simp add: os1_def Suc_diff_le take_Suc_conv_app_nth)
  with Suc.IH [OF s1, of "Suc i"] Suc.prems obtain b where
    "RP_slide n (int i + 1) (int num) r1 = Some (r1 \<lparr> rp_elements := b \<rparr>)"
    "slots (r1 \<lparr> rp_elements := b \<rparr>) (take ?j os @ drop i os)" "length (rp_block (r1 \<lparr> rp_elements := b \<rparr>)) = length (rp_block r1)"
    by (auto simp: os1_def add.commute)
  then show ?case using slots_read [OF Suc.prems(1) i(1)] w
    by (intro exI [of _ b]) (simp_all add: r1_def)
qed

lemma rp_at_elements:
  assumes "rp_at r ps qs" "slots (r \<lparr> rp_elements := b \<rparr>) os" "length (rp_block (r \<lparr> rp_elements := b \<rparr>)) = length (rp_block r)"
    and "os = ps' @ qs'" "c = int (length ps')" "a = int (length os)"
  shows "rp_at (r \<lparr> rp_elements := b, rp_current_size := c, rp_allocated_size := a \<rparr>) ps' qs'"
  using assms by (simp add: rp_at_def slots_def rp_block_def)

lemma at_CloseGap:
  assumes at: "rp_at r (as @ bs @ cs) qs" and n: "bs \<noteq> []"
  shows "\<exists>r'. RP_CloseGap (int (length as)) (int (length bs)) r = Some r' \<and> rp_at r' (as @ cs) qs"
proof -
  note d = rp_atD [OF at]
  let ?i = "length as + length bs"
  have rounds: "nat (rp_allocated_size r - int ?i) = length cs + length qs" using d by simp
  have i: "int (length as) + int (length bs) = int ?i" by simp
  from slide_slots [OF d(1), of "length bs" ?i "length cs + length qs"] n obtain b where
    b: "RP_slide (length cs + length qs) (int ?i) (int (length bs)) r = Some (r \<lparr> rp_elements := b \<rparr>)"
      "slots (r \<lparr> rp_elements := b \<rparr>) (as @ cs @ qs)" "length (rp_block (r \<lparr> rp_elements := b \<rparr>)) = length (rp_block r)"
    by auto
  have sz: "s32 (rp_current_size r - int (length bs)) = int (length (as @ cs))"
    "s32 (rp_allocated_size r - int (length bs)) = int (length (as @ cs @ qs))" using d by (simp_all add: s32_id)
  have "RP_CloseGap (int (length as)) (int (length bs)) r = Some (r \<lparr> rp_elements := b,
      rp_current_size := int (length (as @ cs)), rp_allocated_size := int (length (as @ cs @ qs)) \<rparr>)"
    unfolding RP_CloseGap_def i rounds b(1) sz [symmetric] bind.bind_lunit by simp
  with rp_at_elements [OF at b(2,3), of "as @ cs" qs] show ?thesis by simp
qed

lemma get_range_slots:
  "slots r (as @ bs @ cs) \<Longrightarrow> RP_get_range (length bs) (int (length as)) r = Some bs"
proof (induction bs arbitrary: as)
  case (Cons b bs)
  have "rp_read (int (length as)) r = Some b" using slots_read [OF Cons.prems, of "length as"] by simp
  with Cons.IH [of "as @ [b]"] Cons.prems show ?case by (simp add: RP_Mutable_def add.commute)
qed simp

lemma at_ExtractSubrange:
  assumes "rp_at r (as @ bs @ cs) qs"
  shows "\<exists>r'. RP_ExtractSubrange (int (length as)) (int (length bs)) want r = Some (if want then bs else [], r') \<and> rp_at r' (as @ cs) qs"
  using assms at_CloseGap [OF assms] get_range_slots [of r as bs "cs @ qs"] rp_atD(1) [OF assms]
  by (cases "bs = []") (auto simp: RP_ExtractSubrange_def)

lemma at_SwapElements:
  assumes at: "rp_at r ps qs" and i: "i < length ps" and j: "j < length ps"
  shows "\<exists>r'. RP_SwapElements (int i) (int j) r = Some r' \<and> rp_at r' (ps[i := ps ! j, j := ps ! i]) qs"
proof -
  note d = rp_atD [OF at]
  define r1 where "r1 = r \<lparr> rp_elements := Some ((rp_block r)[i := Some (ps ! j)]) \<rparr>"
  have rd: "rp_read (int i) r = Some (ps ! i)" "rp_read (int j) r = Some (ps ! j)"
    using slots_read [OF d(1), of i] slots_read [OF d(1), of j] i j by (simp_all add: nth_append)
  have w: "rp_write (int i) (ps ! j) r = Some r1" using rp_write_block [of i r] d(6) i by (simp add: r1_def)
  have s1: "slots r1 ((ps @ qs)[i := ps ! j])" unfolding r1_def by (rule slots_update [OF d(1)]) (simp add: i trans_less_add1)
  have s2: "slots (r1 \<lparr> rp_elements := Some ((rp_block r1)[j := Some (ps ! i)]) \<rparr>) ((ps @ qs)[i := ps ! j, j := ps ! i])"
    by (rule slots_update [OF s1]) (simp add: j trans_less_add1)
  have "rp_write (int j) (ps ! i) r1 = Some (r1 \<lparr> rp_elements := Some ((rp_block r1)[j := Some (ps ! i)]) \<rparr>)"
    by (rule rp_write_block) (use d(6) j in \<open>simp add: r1_def\<close>)
  with rd w show ?thesis using s2 at i j
    by (simp add: RP_SwapElements_def rp_at_def r1_def list_update_append1)
qed

section \<open>Ownership\<close>

text \<open>
  What is read of an object (\<open>view\<close>) after it was cleared is what is read of a new one, and merging into such an object copies.
\<close>

definition handler_ok :: "'a handler \<Rightarrow> ('a \<Rightarrow> 'b) \<Rightarrow> bool" where
  "handler_ok h view \<longleftrightarrow> (\<forall>x. view (th_Clear h x) = view (th_New h)) \<and>
     (\<forall>x y. view y = view (th_New h) \<longrightarrow> view (th_Merge h x y) = view x)"

definition shows_as :: "('a \<Rightarrow> 'b) \<Rightarrow> 'a objects \<Rightarrow> nat \<Rightarrow> 'b \<Rightarrow> bool" where
  "shows_as view w p x \<longleftrightarrow> map_option view (objs w p) = Some x"

text \<open>
  \<open>owns view e F w ps qs xs\<close>: the objects \<open>ps\<close> and \<open>qs\<close> are alive, distinct and not among the objects \<open>F\<close> of others,
  and there are no objects but these. \<open>ps\<close> reads as the list \<open>xs\<close>, every object of \<open>qs\<close> as \<open>e\<close>.
\<close>

definition owns :: "('a \<Rightarrow> 'b) \<Rightarrow> 'b \<Rightarrow> (nat \<rightharpoonup> 'a) \<Rightarrow> 'a objects \<Rightarrow> nat list \<Rightarrow> nat list \<Rightarrow> 'b list \<Rightarrow> bool" where
  "owns view e F w ps qs xs \<longleftrightarrow> distinct (ps @ qs) \<and> (\<forall>p\<in>set (ps @ qs). F p = None) \<and>
     (\<forall>p. p \<notin> set (ps @ qs) \<longrightarrow> objs w p = F p) \<and> (\<forall>p\<ge>next_addr w. objs w p = None) \<and>
     list_all2 (shows_as view w) ps xs \<and> (\<forall>q\<in>set qs. shows_as view w q e)"

lemma owns_length: "owns view e F w ps qs xs \<Longrightarrow> length ps = length xs"
  by (auto simp: owns_def dest: list_all2_lengthD)

lemma owns_nth: "owns view e F w ps qs xs \<Longrightarrow> i < length xs \<Longrightarrow> shows_as view w (ps ! i) (xs ! i)"
  unfolding owns_def by (metis list_all2_conv_all_nth)

lemma owns_alive:
  assumes "owns view e F w ps qs xs" "p \<in> set ps \<or> p \<in> set qs"
  shows "objs w p \<noteq> None"
proof -
  have "\<exists>x. shows_as view w p x" using assms unfolding owns_def by (metis in_set_conv_nth list_all2_conv_all_nth)
  then show ?thesis by (auto simp: shows_as_def)
qed

lemma shows_as_other: "p \<noteq> q \<Longrightarrow> shows_as view (w \<lparr> objs := (objs w)(q := v) \<rparr>) p x = shows_as view w p x"
  by (simp add: shows_as_def)

lemma list_all2_other:
  "q \<notin> set ps \<Longrightarrow> list_all2 (shows_as view (w \<lparr> objs := (objs w)(q := v) \<rparr>)) ps xs = list_all2 (shows_as view w) ps xs"
  by (rule list.rel_cong [OF refl refl]) (metis shows_as_other)

lemma owns_write:
  assumes o: "owns view e F w ps qs xs" and i: "i < length xs"
  shows "\<exists>w'. obj_upd (ps ! i) f w = Some w' \<and> owns view e F w' ps qs (xs[i := view (f (the (objs w (ps ! i))))])"
proof -
  have l: "length ps = length xs" by (rule owns_length [OF o])
  obtain v where v: "objs w (ps ! i) = Some v" using owns_nth [OF o i] by (auto simp: shows_as_def)
  let ?w = "w \<lparr> objs := (objs w)(ps ! i \<mapsto> f v) \<rparr>"
  have d: "distinct (ps @ qs)" and all: "list_all2 (shows_as view w) ps xs" using o by (simp_all add: owns_def)
  have "list_all2 (shows_as view ?w) ps (xs[i := view (f v)])"
    unfolding list_all2_conv_all_nth
  proof (intro conjI allI impI)
    fix j assume j: "j < length ps"
    with d i l have "j = i \<or> ps ! j \<noteq> ps ! i" by (auto simp: nth_eq_iff_index_eq)
    with j all i l show "shows_as view ?w (ps ! j) (xs[i := view (f v)] ! j)"
      by (cases "j = i") (auto simp: shows_as_def list_all2_conv_all_nth)
  qed (simp add: l)
  moreover have "q \<noteq> ps ! i" if "q \<in> set qs" for q using that d i l by (auto simp: disjoint_iff)
  moreover have "next_addr w > ps ! i" using o v unfolding owns_def by (metis leI option.distinct(1))
  ultimately have "owns view e F ?w ps qs (xs[i := view (f v)])"
    using o i l unfolding owns_def by (auto simp: shows_as_other)
  with v show ?thesis by (simp add: obj_upd_def)
qed

lemma owns_use: "owns view e F w ps (q # qs) xs \<Longrightarrow> owns view e F w (ps @ [q]) qs (xs @ [e])"
  by (auto simp: owns_def intro: list_all2_appendI)

lemma owns_unuse: "owns view e F w (ps @ [p]) qs (xs @ [e]) \<Longrightarrow> owns view e F w ps (p # qs) xs"
  by (auto simp: owns_def list_all2_append2)

lemma owns_mset: "owns view e F w ps qs xs \<Longrightarrow> mset qs' = mset qs \<Longrightarrow> owns view e F w ps qs' xs"
  unfolding owns_def by (metis (no_types, lifting) Un_iff distinct_append mset_eq_imp_distinct_iff mset_eq_setD set_append)

lemma owns_new:
  assumes "owns view e F w ps qs xs" "obj_new v w = (p, w')"
  shows "owns view e F w' (ps @ [p]) qs (xs @ [view v])"
proof -
  have "objs w p = None" using assms by (auto simp: owns_def obj_new_def)
  then have n: "p \<notin> set ps" "p \<notin> set qs" using owns_alive [OF assms(1), of p] by auto
  have "F p = None" using assms(1) n \<open>objs w p = None\<close> by (auto simp: owns_def)
  have w': "w' = w \<lparr> objs := (objs w)(p \<mapsto> v), next_addr := Suc p \<rparr>" "p = next_addr w"
    using assms(2) by (auto simp: obj_new_def)
  have s: "shows_as view w' q = shows_as view w q" if "q \<noteq> p" for q using that by (auto simp: w'(1) shows_as_def)
  have "list_all2 (shows_as view w') ps xs"
    using assms(1) n unfolding owns_def by (metis list.rel_mono_strong s)
  moreover have "shows_as view w' p (view v)" by (simp add: w'(1) shows_as_def)
  moreover have "\<forall>q\<in>set qs. shows_as view w' q e" using assms(1) n unfolding owns_def by (metis s)
  ultimately show ?thesis using assms(1) n \<open>F p = None\<close>
    by (auto simp: owns_def list_all2_append list_all2_lengthD w')
qed

lemma owns_delete:
  assumes o: "owns view e F w (as @ p # cs) qs (xs @ x # zs)" and l: "length as = length xs"
  shows "\<exists>w'. obj_delete p w = Some w' \<and> owns view e F w' (as @ cs) qs (xs @ zs)"
proof -
  obtain v where "objs w p = Some v" using owns_alive [OF o, of p] by auto
  moreover have "owns view e F (w \<lparr> objs := (objs w)(p := None) \<rparr>) (as @ cs) qs (xs @ zs)"
  proof -
    have "q \<in> set qs \<Longrightarrow> q \<noteq> p" for q using o by (auto simp: owns_def)
    then show ?thesis using o l unfolding owns_def by (auto simp: list_all2_append list_all2_other shows_as_other)
  qed
  ultimately show ?thesis by (simp add: obj_delete_def)
qed

lemma owns_delete_cleared:
  assumes "owns view e F w ps (q # qs) xs"
  shows "\<exists>w'. obj_delete q w = Some w' \<and> owns view e F w' ps qs xs"
  using owns_delete [of view e F w ps q "[]" qs xs e "[]"] owns_use [OF assms] owns_length [OF assms] by simp

section \<open>The operations\<close>

lemma at_push:
  assumes at: "rp_at r ps []" and room: "int (length ps) < rp_total_size r"
  shows "\<exists>r'. rp_write (int (length ps)) p (r \<lparr> rp_allocated_size := int (length ps) + 1 \<rparr>) = Some r' \<and>
    rp_current_size r' = int (length ps) \<and> rp_at (r' \<lparr> rp_current_size := int (length ps) + 1 \<rparr>) (ps @ [p]) []"
proof -
  note d = rp_atD [OF at]
  have "slots (r \<lparr> rp_elements := Some ((rp_block r)[length ps := Some p]) \<rparr>) (ps @ [p])"
    using slots_snoc [of r ps p] d room by simp
  then have "rp_at (r \<lparr> rp_allocated_size := int (length ps) + 1, rp_elements := Some ((rp_block r)[length ps := Some p]),
      rp_current_size := int (length ps) + 1 \<rparr>) (ps @ [p]) []"
    using at by (simp add: rp_at_def slots_def)
  then show ?thesis using rp_write_block [of "length ps" "r \<lparr> rp_allocated_size := int (length ps) + 1 \<rparr>" p] d room by simp
qed

lemma at_replace:
  assumes at: "rp_at r ps (q # qs)"
  shows "\<exists>r'. rp_write (int (length ps)) p r = Some r' \<and> rp_current_size r' = int (length ps) \<and>
    rp_at (r' \<lparr> rp_current_size := int (length ps) + 1 \<rparr>) (ps @ [p]) qs"
proof -
  note d = rp_atD [OF at]
  let ?r = "r \<lparr> rp_elements := Some ((rp_block r)[length ps := Some p]) \<rparr>"
  have "slots ?r (ps @ p # qs)" using slots_update [OF d(1), of "length ps" p] by simp
  then have "rp_at (?r \<lparr> rp_current_size := int (length ps) + 1 \<rparr>) (ps @ [p]) qs" using at by (simp add: rp_at_def slots_def)
  then show ?thesis using rp_write_block [of "length ps" r p] d by simp
qed

lemma at_push_cleared:
  assumes at: "rp_at r ps qs" and room: "int (length ps + length qs) < rp_total_size r"
  shows "\<exists>r'. rp_write (int (length ps + length qs)) p r = Some r' \<and> rp_allocated_size r' = int (length ps + length qs) \<and>
    rp_current_size r' = int (length ps) \<and> rp_at (r' \<lparr> rp_allocated_size := int (length ps + length qs) + 1 \<rparr>) ps (qs @ [p])"
proof -
  note d = rp_atD [OF at]
  let ?r = "r \<lparr> rp_elements := Some ((rp_block r)[length (ps @ qs) := Some p]) \<rparr>"
  have "slots ?r ((ps @ qs) @ [p])" using slots_snoc [OF d(1), of p] d(4) room by simp
  then have "rp_at (?r \<lparr> rp_allocated_size := int (length ps + length qs) + 1 \<rparr>) ps (qs @ [p])"
    using at by (simp add: rp_at_def slots_def)
  then show ?thesis using rp_write_block [of "length ps + length qs" r p] d room by simp
qed

lemma op_Add:
  assumes res: "reserve_ok res" and at: "rp_at r ps qs" and o: "owns view (view (th_New h)) F w ps qs xs"
    and l: "length xs < 2147483647"
  shows "\<exists>p qs' r' w'. RP_Add res h r w = Some (p, r', w') \<and> rp_at r' (ps @ [p]) qs' \<and>
    owns view (view (th_New h)) F w' (ps @ [p]) qs' (xs @ [view (th_New h)])"
proof (cases qs)
  case (Cons q qs1)
  note d = rp_atD [OF at]
  have "rp_read (int (length ps)) r = Some q" using slots_read [OF d(1), of "length ps"] Cons by simp
  moreover have "rp_at (r \<lparr> rp_current_size := int (length ps) + 1 \<rparr>) (ps @ [q]) qs1"
    using at Cons by (simp add: rp_at_def slots_def)
  ultimately show ?thesis using owns_use [of view _ F w ps q qs1 xs] o d Cons owns_length [OF o] l
    by (auto simp: RP_Add_def s32_id)
next
  case Nil
  note d = rp_atD [OF at]
  define r1 where "r1 = (if rp_allocated_size r = rp_total_size r then res (s32 (rp_total_size r + 1)) r else r)"
  have at1: "rp_at r1 ps []" and room: "int (length ps) < rp_total_size r1"
    using at d reserveD [OF res at, of "rp_total_size r + 1"] owns_length [OF o] l Nil
    by (auto simp: r1_def s32_id)
  note d1 = rp_atD [OF at1]
  obtain p w' where p: "obj_new (th_New h) w = (p, w')" by fastforce
  from at_push [OF at1 room, of p] obtain r' where
    "rp_write (int (length ps)) p (r1 \<lparr> rp_allocated_size := int (length ps) + 1 \<rparr>) = Some r'"
    "rp_current_size r' = int (length ps)" "rp_at (r' \<lparr> rp_current_size := int (length ps) + 1 \<rparr>) (ps @ [p]) []" by auto
  moreover have "s32 (int (length ps) + 1) = int (length ps) + 1" using owns_length [OF o] l by (simp add: s32_id)
  ultimately have "RP_Add res h r w = Some (p, r' \<lparr> rp_current_size := int (length ps) + 1 \<rparr>, w')"
      "rp_at (r' \<lparr> rp_current_size := int (length ps) + 1 \<rparr>) (ps @ [p]) []"
    using d(2,3) d1(2,3) Nil p unfolding RP_Add_def r1_def [symmetric] by simp_all
  then show ?thesis using owns_new [OF o p] Nil by blast
qed

lemma op_RemoveLast:
  assumes h: "handler_ok h view" and at: "rp_at r (ps @ [p]) qs" and o: "owns view (view (th_New h)) F w (ps @ [p]) qs (xs @ [x])"
  shows "\<exists>r' w'. RP_RemoveLast h r w = Some (r', w') \<and> rp_at r' ps (p # qs) \<and> owns view (view (th_New h)) F w' ps (p # qs) xs"
proof -
  note d = rp_atD [OF at]
  have l: "length ps = length xs" using owns_length [OF o] by simp
  have "rp_read (int (length ps)) (r \<lparr> rp_current_size := c \<rparr>) = Some p" for c
    using slots_read [of "r \<lparr> rp_current_size := c \<rparr>" "ps @ p # qs" "length ps"] d(1) by (simp add: slots_def)
  moreover from owns_write [OF o, of "length ps" "th_Clear h"] h l obtain w' where
    "obj_upd p (th_Clear h) w = Some w'" "owns view (view (th_New h)) F w' (ps @ [p]) qs (xs @ [view (th_New h)])"
    by (auto simp: handler_ok_def nth_append)
  moreover have "rp_at (r \<lparr> rp_current_size := int (length ps) \<rparr>) ps (p # qs)" using at by (simp add: rp_at_def slots_def)
  ultimately show ?thesis using owns_unuse d by (auto simp: RP_RemoveLast_def s32_id)
qed

lemma clear_loop_owns:
  assumes h: "handler_ok h view" and s: "slots r (ps @ qs)"
  shows "owns view (view (th_New h)) F w ps qs xs \<Longrightarrow> i + n = length ps \<Longrightarrow>
    \<exists>w'. RP_clear_loop h n (int i) r w = Some w' \<and> owns view (view (th_New h)) F w' ps qs (take i xs @ replicate n (view (th_New h)))"
proof (induction n arbitrary: i w xs)
  case 0
  then show ?case using owns_length [OF "0.prems"(1)] by simp
next
  case (Suc n)
  have l: "length ps = length xs" by (rule owns_length [OF Suc.prems(1)])
  have rd: "rp_read (int i) r = Some (ps ! i)" using slots_read [OF s, of i] Suc.prems(2) by (simp add: nth_append)
  from owns_write [OF Suc.prems(1), of i "th_Clear h"] h Suc.prems(2) l obtain w1 where
    w1: "obj_upd (ps ! i) (th_Clear h) w = Some w1" "owns view (view (th_New h)) F w1 ps qs (xs[i := view (th_New h)])"
    by (auto simp: handler_ok_def)
  have "take (Suc i) (xs[i := view (th_New h)]) @ replicate n (view (th_New h)) = take i xs @ replicate (Suc n) (view (th_New h))"
    using Suc.prems(2) l by (simp add: take_Suc_conv_app_nth)
  with Suc.IH [OF w1(2), of "Suc i"] Suc.prems(2) rd w1(1) show ?case by (auto simp: add.commute)
qed

lemma op_Clear:
  assumes h: "handler_ok h view" and at: "rp_at r ps qs" and o: "owns view (view (th_New h)) F w ps qs xs"
  shows "\<exists>r' w'. RP_Clear h r w = Some (r', w') \<and> rp_at r' [] (ps @ qs) \<and> owns view (view (th_New h)) F w' [] (ps @ qs) []"
proof -
  note d = rp_atD [OF at]
  from clear_loop_owns [OF h d(1) o, of 0 "length ps"] obtain w' where
    w': "RP_clear_loop h (length ps) 0 r w = Some w'" "owns view (view (th_New h)) F w' ps qs (replicate (length ps) (view (th_New h)))"
    by auto
  from w'(2) have "owns view (view (th_New h)) F w' [] (ps @ qs) []"
    by (auto simp: owns_def list_all2_conv_all_nth in_set_conv_nth)
  moreover have "rp_at (r \<lparr> rp_current_size := 0 \<rparr>) [] (ps @ qs)" using at by (simp add: rp_at_def slots_def)
  ultimately show ?thesis using w'(1) d(2) by (simp add: RP_Clear_def)
qed

lemma merge_loop_owns:
  assumes res: "reserve_ok res" and h: "handler_ok h view"
    and other: "slots other os" "\<And>i. i < length ys \<Longrightarrow> i < length os \<and> map_option view (F (os ! i)) = Some (ys ! i)"
  shows "rp_at r ps qs \<Longrightarrow> owns view (view (th_New h)) F w ps qs xs \<Longrightarrow> i + n = length ys \<Longrightarrow> length xs + n < 2147483648 \<Longrightarrow>
    \<exists>ps' qs' r' w'. RP_merge_loop res h n (int i) other r w = Some (r', w') \<and> rp_at r' ps' qs' \<and>
      owns view (view (th_New h)) F w' ps' qs' (xs @ drop i ys)"
proof (induction n arbitrary: i r w ps qs xs)
  case 0
  then show ?case by auto
next
  case (Suc n)
  have i: "i < length ys" using Suc.prems(3) by simp
  obtain v where v: "F (os ! i) = Some v" "view v = ys ! i" using other(2) [OF i] by auto
  have "objs w (os ! i) = Some v" using Suc.prems(2) v(1) unfolding owns_def by (metis option.distinct(1))
  then have get: "RP_Get (int i) other w = Some v" using slots_read [OF other(1), of i] other(2) [OF i] by (simp add: RP_Get_def)
  from op_Add [OF res Suc.prems(1,2)] Suc.prems(4) obtain p qs1 r1 w1 where
    a: "RP_Add res h r w = Some (p, r1, w1)" "rp_at r1 (ps @ [p]) qs1"
      "owns view (view (th_New h)) F w1 (ps @ [p]) qs1 (xs @ [view (th_New h)])" by auto
  have l: "length ps = length xs" by (rule owns_length [OF Suc.prems(2)])
  obtain y where y: "objs w1 p = Some y" "view y = view (th_New h)"
    using owns_nth [OF a(3), of "length xs"] l by (auto simp: shows_as_def nth_append)
  from owns_write [OF a(3), of "length xs" "th_Merge h v"] h y v(2) l obtain w2 where
    w2: "obj_upd p (th_Merge h v) w1 = Some w2" "owns view (view (th_New h)) F w2 (ps @ [p]) qs1 (xs @ [ys ! i])"
    by (auto simp: handler_ok_def nth_append)
  from Suc.IH [OF a(2) w2(2), of "Suc i"] Suc.prems(3,4) get a(1) w2(1) Cons_nth_drop_Suc [OF i]
  show ?case by (auto simp: add.commute)
qed

lemma op_MergeFrom:
  assumes res: "reserve_ok res" and h: "handler_ok h view"
    and other: "rp_at other os os'" "list_all2 (\<lambda>p y. map_option view (F p) = Some y) os ys"
    and at: "rp_at r ps qs" and o: "owns view (view (th_New h)) F w ps qs xs" and l: "length xs + length ys < 2147483648"
  shows "\<exists>ps' qs' r' w'. RP_MergeFrom res h other r w = Some (r', w') \<and> rp_at r' ps' qs' \<and>
      owns view (view (th_New h)) F w' ps' qs' (xs @ ys)"
proof -
  let ?n = "rp_current_size r + rp_current_size other"
  have len: "length os = length ys" using other(2) by (rule list_all2_lengthD)
  have n: "s32 ?n = ?n" "?n < 2147483648" and c: "nat (rp_current_size other) = length ys"
    using rp_atD(2) [OF at] rp_atD(2) [OF other(1)] owns_length [OF o] l len by (auto simp: s32_id)
  have at1: "rp_at (res ?n r) ps qs" by (rule reserveD(1) [OF res at n(2)])
  have "slots other os" using slots_prefix rp_atD(1) [OF other(1)] by blast
  from merge_loop_owns [OF res h this _ at1 o, of ys 0 "length ys"] other(2) len l show ?thesis
    unfolding RP_MergeFrom_def n(1) c by (auto simp: list_all2_conv_all_nth)
qed

lemma op_AddAllocated:
  assumes res: "reserve_ok res" and at: "rp_at r ps qs" and o: "owns view e F w (ps @ [p]) qs (xs @ [x])"
    and l: "length xs < 2147483647"
  shows "\<exists>qs' r' w'. RP_AddAllocated res p r w = Some (r', w') \<and> rp_at r' (ps @ [p]) qs' \<and>
    owns view e F w' (ps @ [p]) qs' (xs @ [x])"
proof -
  note d = rp_atD [OF at]
  have ln: "length ps = length xs" using owns_length [OF o] by simp
  have s1: "s32 (int (length xs) + 1) = int (length xs) + 1" using l by (simp add: s32_id)
  consider (full) "rp_current_size r = rp_total_size r" "qs = []" |
    (reuse) q qs1 where "qs = q # qs1" "rp_current_size r \<noteq> rp_total_size r" "rp_allocated_size r = rp_total_size r" |
    (move) q qs1 where "qs = q # qs1" "rp_current_size r \<noteq> rp_total_size r" "rp_allocated_size r \<noteq> rp_total_size r" |
    (free) "qs = []" "rp_current_size r \<noteq> rp_total_size r"
    using d by (cases qs) auto
  then show ?thesis
  proof cases
    case full
    let ?r = "res (rp_total_size r + 1) r"
    have "rp_total_size r + 1 < 2147483648" using full d ln l by simp
    from reserveD [OF res at this] full d have a: "rp_at ?r ps []" "int (length ps) < rp_total_size ?r" by auto
    from at_push [OF a, of p] obtain r' where
      "rp_write (int (length ps)) p (?r \<lparr> rp_allocated_size := int (length ps) + 1 \<rparr>) = Some r'"
      "rp_current_size r' = int (length ps)" "rp_at (r' \<lparr> rp_current_size := int (length ps) + 1 \<rparr>) (ps @ [p]) []" by auto
    with full d rp_atD [OF a(1)] ln s1 o show ?thesis by (auto simp: RP_AddAllocated_def Let_def)
  next
    case reuse
    have rd: "rp_read (int (length ps)) r = Some q" using slots_read [OF d(1), of "length ps"] reuse by simp
    from owns_delete_cleared [of view e F w "ps @ [p]" q qs1] o reuse obtain w' where
      "obj_delete q w = Some w'" "owns view e F w' (ps @ [p]) qs1 (xs @ [x])" by auto
    moreover from at_replace [of r ps q qs1 p] at reuse obtain r' where
      "rp_write (int (length ps)) p r = Some r'" "rp_current_size r' = int (length ps)"
      "rp_at (r' \<lparr> rp_current_size := int (length ps) + 1 \<rparr>) (ps @ [p]) qs1" by auto
    ultimately show ?thesis using rd reuse d ln s1 by (auto simp: RP_AddAllocated_def)
  next
    case move
    have rd: "rp_read (int (length ps)) r = Some q" using slots_read [OF d(1), of "length ps"] move by simp
    have room: "int (length ps + length qs) < rp_total_size r" using d move by auto
    from at_push_cleared [OF at room, of q] obtain r1 where
      r1: "rp_write (int (length ps + length qs)) q r = Some r1" "rp_allocated_size r1 = int (length ps + length qs)"
        "rp_current_size r1 = int (length ps)" "rp_at (r1 \<lparr> rp_allocated_size := int (length ps + length qs) + 1 \<rparr>) ps (q # qs1 @ [q])"
      using move by auto
    from at_replace [OF r1(4), of p] obtain r' where
      "rp_write (int (length ps)) p (r1 \<lparr> rp_allocated_size := int (length ps + length qs) + 1 \<rparr>) = Some r'"
      "rp_current_size r' = int (length ps)" "rp_at (r' \<lparr> rp_current_size := int (length ps) + 1 \<rparr>) (ps @ [p]) (qs1 @ [q])" by auto
    moreover have "owns view e F w (ps @ [p]) (qs1 @ [q]) (xs @ [x])" using owns_mset [OF o] move by simp
    moreover have "s32 (int (length ps + length qs) + 1) = int (length ps + length qs) + 1" using room d by (simp add: s32_id)
    ultimately show ?thesis using rd r1 move d ln s1 by (auto simp: RP_AddAllocated_def)
  next
    case free
    then have "int (length ps) < rp_total_size r" using d by auto
    from at_push [OF _ this, of p] at free obtain r' where
      "rp_write (int (length ps)) p (r \<lparr> rp_allocated_size := int (length ps) + 1 \<rparr>) = Some r'"
      "rp_current_size r' = int (length ps)" "rp_at (r' \<lparr> rp_current_size := int (length ps) + 1 \<rparr>) (ps @ [p]) []" by auto
    moreover have "rp_allocated_size r \<noteq> rp_total_size r" using free d by simp
    ultimately show ?thesis using free d ln s1 o by (auto simp: RP_AddAllocated_def)
  qed
qed

lemma at_ReleaseLast:
  assumes at: "rp_at r (ps @ [p]) qs"
  shows "\<exists>qs' r'. RP_ReleaseLast r = Some (p, r') \<and> rp_at r' ps qs' \<and> mset qs' = mset qs"
proof -
  note d = rp_atD [OF at]
  define r1 where "r1 = r \<lparr> rp_current_size := int (length ps), rp_allocated_size := int (length ps + length qs) \<rparr>"
  have s: "slots r1 (ps @ p # qs)" using d(1) by (simp add: slots_def r1_def)
  have rd: "rp_read (int (length ps)) (r \<lparr> rp_current_size := c \<rparr>) = Some p" for c
    using slots_read [of "r \<lparr> rp_current_size := c \<rparr>" "ps @ p # qs" "length ps"] d(1) by (simp add: slots_def)
  have sz: "s32 (rp_current_size r - 1) = int (length ps)" "s32 (rp_allocated_size r - 1) = int (length ps + length qs)"
    using d by (simp_all add: s32_id)
  have step: "RP_ReleaseLast r = do { r' \<leftarrow> (if qs \<noteq> []
      then do { q \<leftarrow> rp_read (int (length ps + length qs)) r1; rp_write (int (length ps)) q r1 } else Some r1); Some (p, r') }"
    by (simp add: RP_ReleaseLast_def sz rd r1_def Let_def)
  show ?thesis
  proof (cases qs rule: rev_cases)
    case Nil
    have "rp_at r1 ps []" using at slots_prefix [OF s] Nil by (simp add: rp_at_def r1_def)
    with step Nil show ?thesis by auto
  next
    case (snoc bs q)
    have "(ps @ p # qs) ! (length ps + length qs) = q" unfolding snoc by (simp add: nth_append)
    with slots_read [OF s, of "length ps + length qs"] have "rp_read (int (length ps + length qs)) r1 = Some q" by simp
    moreover have "rp_write (int (length ps)) q r1 = Some (r1 \<lparr> rp_elements := Some ((rp_block r1)[length ps := Some q]) \<rparr>)"
      by (rule rp_write_block) (use d in \<open>simp add: r1_def\<close>)
    moreover have "slots (r1 \<lparr> rp_elements := Some ((rp_block r1)[length ps := Some q]) \<rparr>) (ps @ q # bs)"
      by (rule slots_prefix [of _ _ "[q]"]) (use slots_update [OF s, of "length ps" q] snoc in simp)
    then have "rp_at (r1 \<lparr> rp_elements := Some ((rp_block r1)[length ps := Some q]) \<rparr>) ps (q # bs)"
      using at snoc by (simp add: rp_at_def r1_def)
    ultimately show ?thesis using step snoc by auto
  qed
qed

lemma at_AddCleared:
  assumes res: "reserve_ok res" and at: "rp_at r ps qs" and l: "length ps + length qs < 2147483647"
  shows "\<exists>r'. RP_AddCleared res p r = Some r' \<and> rp_at r' ps (qs @ [p])"
proof -
  define r1 where "r1 = (if rp_allocated_size r = rp_total_size r then res (s32 (rp_total_size r + 1)) r else r)"
  have at1: "rp_at r1 ps qs" and room: "int (length ps + length qs) < rp_total_size r1"
    using at rp_atD [OF at] reserveD [OF res at, of "rp_total_size r + 1"] l by (auto simp: r1_def s32_id)
  from at_push_cleared [OF at1 room, of p] rp_atD [OF at1] l show ?thesis
    unfolding RP_AddCleared_def r1_def [symmetric] by (auto simp: s32_id)
qed

lemma at_ReleaseCleared:
  assumes at: "rp_at r ps (qs @ [q])"
  shows "\<exists>r'. RP_ReleaseCleared r = Some (q, r') \<and> rp_at r' ps qs"
proof -
  note d = rp_atD [OF at]
  let ?r = "r \<lparr> rp_allocated_size := int (length ps + length qs) \<rparr>"
  have s: "slots ?r ((ps @ qs) @ [q])" using d(1) by (simp add: slots_def)
  have "rp_read (int (length ps + length qs)) ?r = Some q"
    using slots_read [OF s, of "length ps + length qs"] by (simp add: nth_append)
  moreover have "rp_at ?r ps qs" using at slots_prefix [OF s] by (simp add: rp_at_def)
  moreover have "s32 (rp_allocated_size r - 1) = int (length ps + length qs)" using d by (simp add: s32_id)
  ultimately show ?thesis by (simp add: RP_ReleaseCleared_def)
qed

section \<open>Objects leave the field\<close>

text \<open>What a client does with pointers it was given: it looks at the objects and deletes them.\<close>

fun take_objects :: "nat list \<Rightarrow> 'a objects \<Rightarrow> ('a list \<times> 'a objects) fault" where
  "take_objects [] w = Some ([], w)"
| "take_objects (p # ps) w = do {
     x \<leftarrow> objs w p;
     w \<leftarrow> obj_delete p w;
     (xs, w) \<leftarrow> take_objects ps w;
     Some (x # xs, w)
   }"

lemma delete_loop_take:
  "slots r (as @ bs @ cs) \<Longrightarrow> RP_delete_loop (length bs) (int (length as)) r w = map_option snd (take_objects bs w)"
proof (induction bs arbitrary: as w)
  case (Cons b bs)
  have "rp_read (int (length as)) r = Some b" using slots_read [OF Cons.prems, of "length as"] by simp
  with Cons.IH [of "as @ [b]"] Cons.prems show ?case
    by (cases "objs w b") (auto simp: obj_delete_def add.commute bind_map_option comp_def split: bind_splits)
qed simp

lemma owns_take:
  "owns view e F w (as @ bs @ cs) qs (xs @ ys @ zs) \<Longrightarrow> length as = length xs \<Longrightarrow> length bs = length ys \<Longrightarrow>
    \<exists>vs w'. take_objects bs w = Some (vs, w') \<and> map view vs = ys \<and> owns view e F w' (as @ cs) qs (xs @ zs)"
proof (induction bs arbitrary: ys w)
  case (Cons b bs)
  then obtain y ys1 where ys: "ys = y # ys1" by (cases ys) auto
  have "shows_as view w b y" using owns_nth [OF Cons.prems(1), of "length xs"] Cons.prems(2) ys by (simp add: nth_append)
  then obtain v where v: "objs w b = Some v" "view v = y" by (auto simp: shows_as_def)
  from owns_delete [of view e F w as b "bs @ cs" qs xs y "ys1 @ zs"] Cons.prems(1,2) ys obtain w1 where
    w1: "obj_delete b w = Some w1" "owns view e F w1 (as @ bs @ cs) qs (xs @ ys1 @ zs)" by auto
  from Cons.IH [OF w1(2)] Cons.prems(2,3) ys v w1(1) show ?case by auto
qed simp

lemma owns_take_all:
  assumes "owns view e F w ps qs xs"
  shows "\<exists>vs w'. take_objects (ps @ qs) w = Some (vs, w') \<and> objs w' = F"
proof -
  have "owns view e F w (ps @ qs) [] (xs @ replicate (length qs) e)"
    using assms by (auto simp: owns_def list_all2_conv_all_nth nth_append)
  from owns_take [of view e F w "[]" "ps @ qs" "[]" "[]" "[]" "xs @ replicate (length qs) e" "[]"] this owns_length [OF this] obtain vs w' where
    "take_objects (ps @ qs) w = Some (vs, w')" "owns view e F w' [] [] []" by auto
  then show ?thesis by (auto simp: owns_def)
qed

lemma op_Destroy:
  assumes "rp_at r ps qs" "owns view e F w ps qs xs"
  shows "\<exists>w'. RP_Destroy r w = Some w' \<and> objs w' = F"
  using rp_atD [OF assms(1)] delete_loop_take [of r "[]" "ps @ qs" "[]" w] owns_take_all [OF assms(2)]
  by (auto simp: RP_Destroy_def nat_int_add)

lemma op_DeleteSubrange:
  assumes at: "rp_at r (as @ bs @ cs) qs" and o: "owns view e F w (as @ bs @ cs) qs (xs @ ys @ zs)"
    and l: "length as = length xs" "length bs = length ys"
  shows "\<exists>r' w'. RP_DeleteSubrange (int (length as)) (int (length bs)) r w = Some (r', w') \<and> rp_at r' (as @ cs) qs \<and>
    owns view e F w' (as @ cs) qs (xs @ zs)"
  using owns_take [OF o l] at_ExtractSubrange [OF at, of False] delete_loop_take [of r as bs "cs @ qs" w] rp_atD(1) [OF at]
  by (auto simp: RP_DeleteSubrange_def)

section \<open>Two fields\<close>

text \<open>
  While a second field is filled, the objects of the first are among those of others, and the other way round.
\<close>

definition with_other :: "nat list \<Rightarrow> 'a objects \<Rightarrow> (nat \<rightharpoonup> 'a) \<Rightarrow> (nat \<rightharpoonup> 'a)" where
  "with_other os w F = (\<lambda>p. if p \<in> set os then objs w p else F p)"

lemma owns_both:
  assumes o: "owns view e F w ps qs xs" and oth: "owns view e (objs w) w1 os os' ys"
  shows "owns view e (with_other (os @ os') w1 F) w1 ps qs xs"
    "list_all2 (\<lambda>p y. map_option view (with_other (os @ os') w1 F p) = Some y) os ys"
    "\<forall>p \<in> set (os @ os'). F p = None"
proof -
  have new: "objs w p = None" if "p \<in> set (os @ os')" for p using oth that by (simp add: owns_def)
  then have disj: "p \<notin> set ps \<and> p \<notin> set qs" if "p \<in> set (os @ os')" for p using owns_alive [OF o, of p] that by metis
  then show F: "\<forall>p \<in> set (os @ os'). F p = None" using o new by (auto simp: owns_def)
  have same: "objs w1 p = objs w p" if "p \<notin> set (os @ os')" for p using oth that by (simp add: owns_def)
  have sh: "shows_as view w1 p = shows_as view w p" if "p \<in> set ps \<or> p \<in> set qs" for p
  proof -
    have "objs w1 p = objs w p" using that disj [of p] same [of p] by blast
    then show ?thesis by (simp add: shows_as_def fun_eq_iff)
  qed
  have d: "p \<in> set (ps @ qs) \<Longrightarrow> p \<notin> set (os @ os')" for p using disj [of p] by auto
  show "owns view e (with_other (os @ os') w1 F) w1 ps qs xs"
    unfolding owns_def
  proof (intro conjI allI ballI impI)
    show "distinct (ps @ qs)" using o by (simp add: owns_def)
    show "with_other (os @ os') w1 F p = None" if "p \<in> set (ps @ qs)" for p
      using d [OF that] that o by (simp add: owns_def with_other_def)
    show "objs w1 p = with_other (os @ os') w1 F p" if "p \<notin> set (ps @ qs)" for p
      using that o same [of p] by (simp add: owns_def with_other_def)
    show "objs w1 p = None" if "next_addr w1 \<le> p" for p using that oth by (simp add: owns_def)
    have "list_all2 (shows_as view w) ps xs" using o by (simp add: owns_def)
    then show "list_all2 (shows_as view w1) ps xs" by (rule list.rel_mono_strong) (simp add: sh)
    show "shows_as view w1 q e" if "q \<in> set qs" for q using o sh that by (simp add: owns_def)
  qed
  show "list_all2 (\<lambda>p y. map_option view (with_other (os @ os') w1 F p) = Some y) os ys"
    using oth unfolding owns_def by (auto simp: with_other_def shows_as_def elim!: list.rel_mono_strong)
qed

lemma owns_take_other:
  "owns view e F w ps qs xs \<Longrightarrow> distinct os \<Longrightarrow> \<forall>p \<in> set os. F p \<noteq> None \<Longrightarrow>
    \<exists>vs w'. take_objects os w = Some (vs, w') \<and> owns view e (\<lambda>p. if p \<in> set os then None else F p) w' ps qs xs"
proof (induction os arbitrary: w F)
  case (Cons p os)
  have n: "p \<notin> set ps" "p \<notin> set qs" using Cons.prems(1,3) by (auto simp: owns_def)
  then have v: "objs w p = F p" using Cons.prems(1) by (simp add: owns_def)
  let ?w = "w \<lparr> objs := (objs w)(p := None) \<rparr>"
  have "q \<in> set qs \<Longrightarrow> q \<noteq> p" for q using n by auto
  then have o1: "owns view e (F(p := None)) ?w ps qs xs"
    using Cons.prems(1) n by (auto simp: owns_def list_all2_other shows_as_other)
  have ne: "\<forall>q \<in> set os. (F(p := None)) q \<noteq> None" using Cons.prems(2,3) by fastforce
  from Cons.IH [OF o1 _ ne] Cons.prems(2) obtain vs w' where
    "take_objects os ?w = Some (vs, w')" "owns view e (\<lambda>q. if q \<in> set os then None else (F(p := None)) q) w' ps qs xs" by auto
  moreover have "(\<lambda>q. if q \<in> set os then None else (F(p := None)) q) = (\<lambda>q. if q \<in> set (p # os) then None else F q)" by auto
  ultimately show ?case using v Cons.prems(3) by (auto simp: obj_delete_def)
qed simp

lemma op_Destroy_other:
  assumes at: "rp_at other os os'" and oth: "owns view e G w1 os os' ys"
    and o: "owns view e (with_other (os @ os') w1 F) w ps qs xs" and F: "\<forall>p \<in> set (os @ os'). F p = None"
  shows "\<exists>w'. RP_Destroy other w = Some w' \<and> owns view e F w' ps qs xs"
proof -
  have "\<forall>p \<in> set (os @ os'). with_other (os @ os') w1 F p \<noteq> None"
    using owns_alive [OF oth] by (auto simp: with_other_def)
  moreover have "distinct (os @ os')" using oth by (simp add: owns_def)
  ultimately obtain vs w' where w': "take_objects (os @ os') w = Some (vs, w')"
    "owns view e (\<lambda>p. if p \<in> set (os @ os') then None else with_other (os @ os') w1 F p) w' ps qs xs"
    using owns_take_other [OF o] by blast
  have "(\<lambda>p. if p \<in> set (os @ os') then None else with_other (os @ os') w1 F p) = F"
    using F by (auto simp: with_other_def)
  with w' show ?thesis using rp_atD [OF at] delete_loop_take [of other "[]" "os @ os'" "[]" w]
    by (auto simp: RP_Destroy_def nat_int_add)
qed

lemma op_add_all:
  assumes res: "reserve_ok res"
  shows "rp_at r ps qs \<Longrightarrow> owns view (view (th_New h)) F w ps qs xs \<Longrightarrow> length xs + length vs < 2147483648 \<Longrightarrow>
    \<exists>ps' qs' r' w'. RP_add_all res h vs r w = Some (r', w') \<and> rp_at r' ps' qs' \<and>
      owns view (view (th_New h)) F w' ps' qs' (xs @ map view vs)"
proof (induction vs arbitrary: r w ps qs xs)
  case (Cons v vs)
  from op_Add [OF res Cons.prems(1,2)] Cons.prems(3) obtain p qs1 r1 w1 where
    a: "RP_Add res h r w = Some (p, r1, w1)" "rp_at r1 (ps @ [p]) qs1"
      "owns view (view (th_New h)) F w1 (ps @ [p]) qs1 (xs @ [view (th_New h)])" by auto
  from owns_write [OF a(3), of "length xs" "\<lambda>_. v"] owns_length [OF Cons.prems(2)] obtain w2 where
    w2: "obj_upd p (\<lambda>_. v) w1 = Some w2" "owns view (view (th_New h)) F w2 (ps @ [p]) qs1 (xs @ [view v])"
    by (auto simp: nth_append)
  from Cons.IH [OF a(2) w2(2)] Cons.prems(3) a(1) w2(1) show ?case by auto
qed auto

section \<open>Programs on a field of objects\<close>

text \<open>
  The operations of a client. An object that is handed out is looked at and then overwritten (\<open>PAdd\<close>, \<open>PAddFromCleared\<close>,
  the latter with a new object given to the field when it has none to reuse), an object that leaves the
  field is looked at and deleted (\<open>PReleaseLast\<close>, \<open>PExtract\<close>, \<open>PReleaseCleared\<close>), and the other field of a merge or
  a copy is made for it from a list and destroyed afterwards. On lists the cleared objects do not show.
\<close>

datatype 'a rp_op = PAdd 'a | PAddFromCleared 'a | PAddAllocated 'a | PGet int | PSet int 'a | PRemoveLast | PReleaseLast |
  PDelete int int | PExtract int int | PSwapElements int int | PClear | PMerge "'a list" | PCopy "'a list" | PReserve int |
  PAddCleared | PReleaseCleared

fun seq_step :: "('a \<Rightarrow> 'b) \<Rightarrow> 'b \<Rightarrow> 'a rp_op \<Rightarrow> 'b list \<Rightarrow> ('b list \<times> 'b list) option" where
  "seq_step view e (PAdd v) xs = (if length xs < 2147483647 then Some ([e], xs @ [view v]) else None)"
| "seq_step view e (PAddFromCleared v) xs = (if length xs < 2147483647 then Some ([e], xs @ [view v]) else None)"
| "seq_step view e (PAddAllocated v) xs = (if length xs < 2147483647 then Some ([], xs @ [view v]) else None)"
| "seq_step view e (PGet i) xs = (if 0 \<le> i \<and> i < int (length xs) then Some ([xs ! nat i], xs) else None)"
| "seq_step view e (PSet i v) xs = (if 0 \<le> i \<and> i < int (length xs) then Some ([], xs[nat i := view v]) else None)"
| "seq_step view e PRemoveLast xs = (if xs \<noteq> [] then Some ([], butlast xs) else None)"
| "seq_step view e PReleaseLast xs = (if xs \<noteq> [] then Some ([last xs], butlast xs) else None)"
| "seq_step view e (PDelete start num) xs =
     (if 0 \<le> start \<and> 0 \<le> num \<and> start + num \<le> int (length xs)
      then Some ([], take (nat start) xs @ drop (nat (start + num)) xs) else None)"
| "seq_step view e (PExtract start num) xs =
     (if 0 \<le> start \<and> 0 \<le> num \<and> start + num \<le> int (length xs)
      then Some (take (nat num) (drop (nat start) xs), take (nat start) xs @ drop (nat (start + num)) xs) else None)"
| "seq_step view e (PSwapElements i j) xs =
     (if 0 \<le> i \<and> i < int (length xs) \<and> 0 \<le> j \<and> j < int (length xs)
      then Some ([], xs[nat i := xs ! nat j, nat j := xs ! nat i]) else None)"
| "seq_step view e PClear xs = Some ([], [])"
| "seq_step view e (PMerge vs) xs = (if length xs + length vs < 2147483648 then Some ([], xs @ map view vs) else None)"
| "seq_step view e (PCopy vs) xs = (if length vs < 2147483648 then Some ([], map view vs) else None)"
| "seq_step view e (PReserve n) xs = (if n < 2147483648 then Some ([], xs) else None)"
| "seq_step view e PAddCleared xs = Some ([], xs)"
| "seq_step view e PReleaseCleared xs = Some ([], xs)"

text \<open>The same with another field.\<close>

definition with_field :: "reserve \<Rightarrow> 'a handler \<Rightarrow> 'a list \<Rightarrow> (RepeatedPtrField \<Rightarrow> 'a objects \<Rightarrow> (RepeatedPtrField \<times> 'a objects) fault) \<Rightarrow>
    'a objects \<Rightarrow> (RepeatedPtrField \<times> 'a objects) fault" where
  "with_field res h vs f w = do {
     (other, w) \<leftarrow> RP_add_all res h vs RP_new w;
     (r, w) \<leftarrow> f other w;
     w \<leftarrow> RP_Destroy other w;
     Some (r, w)
   }"

fun rp_step :: "reserve \<Rightarrow> 'a handler \<Rightarrow> ('a \<Rightarrow> 'b) \<Rightarrow> 'a rp_op \<Rightarrow> RepeatedPtrField \<times> 'a objects \<Rightarrow>
    ('b list \<times> RepeatedPtrField \<times> 'a objects) option" where
  "rp_step res h view (PAdd v) (r, w) = do {
     (p, r, w) \<leftarrow> RP_Add res h r w;
     x \<leftarrow> objs w p;
     w \<leftarrow> obj_upd p (\<lambda>_. v) w;
     Some ([view x], r, w)
   }"
| "rp_step res h view (PAddFromCleared v) (r, w) = do {
     (q, r) \<leftarrow> RP_AddFromCleared r;
     (p, r, w) \<leftarrow> (case q of
        Some p \<Rightarrow> Some (p, r, w)
      | None \<Rightarrow> do { let (p, w) = obj_new (th_New h) w; (r, w) \<leftarrow> RP_AddAllocated res p r w; Some (p, r, w) });
     x \<leftarrow> objs w p;
     w \<leftarrow> obj_upd p (\<lambda>_. v) w;
     Some ([view x], r, w)
   }"
| "rp_step res h view (PAddAllocated v) (r, w) = do {
     let (p, w) = obj_new v w;
     (r, w) \<leftarrow> RP_AddAllocated res p r w;
     Some ([], r, w)
   }"
| "rp_step res h view (PGet i) (r, w) = do { x \<leftarrow> RP_Get i r w; Some ([view x], r, w) }"
| "rp_step res h view (PSet i v) (r, w) = do { p \<leftarrow> RP_Mutable i r; w \<leftarrow> obj_upd p (\<lambda>_. v) w; Some ([], r, w) }"
| "rp_step res h view PRemoveLast (r, w) = do { (r, w) \<leftarrow> RP_RemoveLast h r w; Some ([], r, w) }"
| "rp_step res h view PReleaseLast (r, w) = do {
     (p, r) \<leftarrow> RP_ReleaseLast r;
     (vs, w) \<leftarrow> take_objects [p] w;
     Some (map view vs, r, w)
   }"
| "rp_step res h view (PDelete start num) (r, w) = do { (r, w) \<leftarrow> RP_DeleteSubrange start num r w; Some ([], r, w) }"
| "rp_step res h view (PExtract start num) (r, w) = do {
     (ps, r) \<leftarrow> RP_ExtractSubrange start num True r;
     (vs, w) \<leftarrow> take_objects ps w;
     Some (map view vs, r, w)
   }"
| "rp_step res h view (PSwapElements i j) (r, w) = do { r \<leftarrow> RP_SwapElements i j r; Some ([], r, w) }"
| "rp_step res h view PClear (r, w) = do { (r, w) \<leftarrow> RP_Clear h r w; Some ([], r, w) }"
| "rp_step res h view (PMerge vs) (r, w) = do { (r, w) \<leftarrow> with_field res h vs (\<lambda>other. RP_MergeFrom res h other r) w; Some ([], r, w) }"
| "rp_step res h view (PCopy vs) (r, w) = do { (r, w) \<leftarrow> with_field res h vs (\<lambda>other. RP_CopyFrom res h other r) w; Some ([], r, w) }"
| "rp_step res h view (PReserve n) (r, w) = Some ([], res n r, w)"
| "rp_step res h view PAddCleared (r, w) =
     (if RP_size r + RP_ClearedCount r < 2147483647
      then do { let (p, w) = obj_new (th_New h) w; r \<leftarrow> RP_AddCleared res p r; Some ([], r, w) }
      else Some ([], r, w))"
| "rp_step res h view PReleaseCleared (r, w) =
     (if RP_ClearedCount r > 0
      then do { (p, r) \<leftarrow> RP_ReleaseCleared r; (vs, w) \<leftarrow> take_objects [p] w; Some ([], r, w) }
      else Some ([], r, w))"

definition rp_holds :: "'a handler \<Rightarrow> ('a \<Rightarrow> 'b) \<Rightarrow> (nat \<rightharpoonup> 'a) \<Rightarrow> RepeatedPtrField \<times> 'a objects \<Rightarrow> 'b list \<Rightarrow> bool" where
  "rp_holds h view F s xs \<longleftrightarrow> (\<exists>ps qs. rp_at (fst s) ps qs \<and> owns view (view (th_New h)) F (snd s) ps qs xs)"

lemma rp_holdsI: "rp_at r ps qs \<Longrightarrow> owns view (view (th_New h)) F w ps qs xs \<Longrightarrow> rp_holds h view F (r, w) xs"
  by (auto simp: rp_holds_def)

lemma rp_holds_new: "\<forall>p\<ge>next_addr w. objs w p = None \<Longrightarrow> rp_holds h view (objs w) (RP_new, w) []"
  by (rule rp_holdsI [OF rp_at_new]) (simp add: owns_def)

lemma op_overwrite:
  assumes o: "owns view e F w (ps @ [p]) qs (xs @ [x])"
  shows "\<exists>y w'. objs w p = Some y \<and> view y = x \<and> obj_upd p (\<lambda>_. v) w = Some w' \<and> owns view e F w' (ps @ [p]) qs (xs @ [view v])"
  using owns_write [OF o, of "length xs" "\<lambda>_. v"] owns_nth [OF o, of "length xs"] owns_length [OF o]
  by (auto simp: nth_append shows_as_def)

lemma owns_split:
  assumes "owns view e F w ps qs xs" "xs = as @ bs @ cs"
  obtains ps1 ps2 ps3 where "ps = ps1 @ ps2 @ ps3" "length ps1 = length as" "length ps2 = length bs" "length ps3 = length cs"
proof -
  have "length ps = length as + length bs + length cs" using owns_length [OF assms(1)] assms(2) by simp
  then show thesis
    using that [of "take (length as) ps" "take (length bs) (drop (length as) ps)" "drop (length as + length bs) ps"]
    by (simp flip: append_assoc take_add)
qed

lemma op_with_field:
  assumes res: "reserve_ok res" and o: "owns view (view (th_New h)) F w ps qs xs" and l: "length vs < 2147483648"
    and f: "\<And>other w1 os os' G. rp_at other os os' \<Longrightarrow> owns view (view (th_New h)) G w1 ps qs xs \<Longrightarrow>
      list_all2 (\<lambda>p y. map_option view (G p) = Some y) os (map view vs) \<Longrightarrow>
      \<exists>ps' qs' r' w'. f other w1 = Some (r', w') \<and> rp_at r' ps' qs' \<and> owns view (view (th_New h)) G w' ps' qs' zs"
  shows "\<exists>r' w'. with_field res h vs f w = Some (r', w') \<and> rp_holds h view F (r', w') zs"
proof -
  have "owns view (view (th_New h)) (objs w) w [] [] []" using o by (simp add: owns_def)
  from op_add_all [OF res rp_at_new this, of vs] l obtain os os' other w1 where
    a: "RP_add_all res h vs RP_new w = Some (other, w1)" "rp_at other os os'"
      "owns view (view (th_New h)) (objs w) w1 os os' (map view vs)" by auto
  note both = owns_both [OF o a(3)]
  from f [OF a(2) both(1,2)] obtain ps' qs' r' w2 where
    b: "f other w1 = Some (r', w2)" "rp_at r' ps' qs'"
      "owns view (view (th_New h)) (with_other (os @ os') w1 F) w2 ps' qs' zs" by auto
  from op_Destroy_other [OF a(2,3) b(3) both(3)] a(1) b(1,2) show ?thesis
    by (auto simp: with_field_def intro: rp_holdsI)
qed

text \<open>The steps, in groups.\<close>

lemma rp_step_adds:
  assumes ok: "reserve_ok res" "handler_ok h view" and at: "rp_at r ps qs" and o: "owns view (view (th_New h)) F w ps qs xs"
    and l: "length xs < 2147483647"
  shows "\<exists>s. rp_step res h view (PAdd v) (r, w) = Some ([view (th_New h)], s) \<and> rp_holds h view F s (xs @ [view v])"
    "\<exists>s. rp_step res h view (PAddFromCleared v) (r, w) = Some ([view (th_New h)], s) \<and> rp_holds h view F s (xs @ [view v])"
    "\<exists>s. rp_step res h view (PAddAllocated v) (r, w) = Some ([], s) \<and> rp_holds h view F s (xs @ [view v])"
proof -
  from op_Add [OF ok(1) at o l] obtain p qs' r' w' where
    a: "RP_Add res h r w = Some (p, r', w')" "rp_at r' (ps @ [p]) qs'"
      "owns view (view (th_New h)) F w' (ps @ [p]) qs' (xs @ [view (th_New h)])" by auto
  from op_overwrite [OF a(3), of v] a show "\<exists>s. rp_step res h view (PAdd v) (r, w) = Some ([view (th_New h)], s) \<and> rp_holds h view F s (xs @ [view v])"
    by (auto intro: rp_holdsI)
  have alloc: "\<exists>qs' r' w'. RP_AddAllocated res p r w1 = Some (r', w') \<and> rp_at r' (ps @ [p]) qs' \<and>
      owns view (view (th_New h)) F w' (ps @ [p]) qs' (xs @ [view y])" if "obj_new y w = (p, w1)" for p y w1
    by (rule op_AddAllocated [OF ok(1) at owns_new [OF o that] l])
  show "\<exists>s. rp_step res h view (PAddAllocated v) (r, w) = Some ([], s) \<and> rp_holds h view F s (xs @ [view v])"
    using alloc by (cases "obj_new v w") (fastforce intro: rp_holdsI)
  show "\<exists>s. rp_step res h view (PAddFromCleared v) (r, w) = Some ([view (th_New h)], s) \<and> rp_holds h view F s (xs @ [view v])"
  proof (cases qs)
    case Nil
    then have none: "RP_AddFromCleared r = Some (None, r)" using rp_atD [OF at] by (simp add: RP_AddFromCleared_def)
    obtain p w1 where p: "obj_new (th_New h) w = (p, w1)" by fastforce
    from alloc [OF p] obtain qs' r' w' where b: "RP_AddAllocated res p r w1 = Some (r', w')" "rp_at r' (ps @ [p]) qs'"
      "owns view (view (th_New h)) F w' (ps @ [p]) qs' (xs @ [view (th_New h)])" by auto
    from op_overwrite [OF b(3), of v] none p b show ?thesis by (auto intro: rp_holdsI)
  next
    case (Cons q qs1)
    have "RP_AddFromCleared r = Some (Some p, r') \<and> w' = w"
      using a(1) rp_atD [OF at] Cons by (auto simp: RP_AddFromCleared_def RP_Add_def split: bind_splits)
    with op_overwrite [OF a(3), of v] a(2) show ?thesis by (auto intro: rp_holdsI)
  qed
qed

lemma rp_step_removes:
  assumes ok: "reserve_ok res" "handler_ok h view" and at: "rp_at r ps qs" and o: "owns view (view (th_New h)) F w ps qs xs"
  shows "xs \<noteq> [] \<Longrightarrow> \<exists>s. rp_step res h view PRemoveLast (r, w) = Some ([], s) \<and> rp_holds h view F s (butlast xs)"
    "xs \<noteq> [] \<Longrightarrow> \<exists>s. rp_step res h view PReleaseLast (r, w) = Some ([last xs], s) \<and> rp_holds h view F s (butlast xs)"
    "xs = as @ bs @ cs \<Longrightarrow> \<exists>s. rp_step res h view (PDelete (int (length as)) (int (length bs))) (r, w) = Some ([], s) \<and> rp_holds h view F s (as @ cs)"
    "xs = as @ bs @ cs \<Longrightarrow> \<exists>s. rp_step res h view (PExtract (int (length as)) (int (length bs))) (r, w) = Some (bs, s) \<and> rp_holds h view F s (as @ cs)"
    "\<exists>s. rp_step res h view PClear (r, w) = Some ([], s) \<and> rp_holds h view F s []"
proof -
  { assume "xs \<noteq> []"
    then obtain ys y where xs: "xs = ys @ [y]" by (cases xs rule: rev_cases) auto
    with owns_length [OF o] obtain ps1 p where ps: "ps = ps1 @ [p]" by (cases ps rule: rev_cases) auto
    have o1: "owns view (view (th_New h)) F w (ps1 @ [p]) qs (ys @ [y])" and at1: "rp_at r (ps1 @ [p]) qs" using o at xs ps by simp_all
    have l: "length ps1 = length ys" using owns_length [OF o1] by simp
    show "\<exists>s. rp_step res h view PRemoveLast (r, w) = Some ([], s) \<and> rp_holds h view F s (butlast xs)"
      using op_RemoveLast [OF ok(2) at1 o1] xs by (auto intro: rp_holdsI)
    from at_ReleaseLast [OF at1] obtain qs' r' where rel: "RP_ReleaseLast r = Some (p, r')" "rp_at r' ps1 qs'" "mset qs' = mset qs" by auto
    from owns_take [of view "view (th_New h)" F w ps1 "[p]" "[]" qs ys "[y]" "[]"] o1 l obtain vs w' where
      t: "take_objects [p] w = Some (vs, w')" "map view vs = [y]" "owns view (view (th_New h)) F w' ps1 qs ys" by auto
    with owns_mset [OF t(3) rel(3)] rel xs
    show "\<exists>s. rp_step res h view PReleaseLast (r, w) = Some ([last xs], s) \<and> rp_holds h view F s (butlast xs)"
      by (auto intro: rp_holdsI simp del: take_objects.simps) }
  { assume xs: "xs = as @ bs @ cs"
    from owns_split [OF o xs] obtain p1 p2 p3 where p: "ps = p1 @ p2 @ p3" "length p1 = length as" "length p2 = length bs" by metis
    have o1: "owns view (view (th_New h)) F w (p1 @ p2 @ p3) qs (as @ bs @ cs)" and at1: "rp_at r (p1 @ p2 @ p3) qs" using o at xs p by simp_all
    show "\<exists>s. rp_step res h view (PDelete (int (length as)) (int (length bs))) (r, w) = Some ([], s) \<and> rp_holds h view F s (as @ cs)"
      using op_DeleteSubrange [OF at1 o1 p(2,3)] p by (auto intro: rp_holdsI)
    show "\<exists>s. rp_step res h view (PExtract (int (length as)) (int (length bs))) (r, w) = Some (bs, s) \<and> rp_holds h view F s (as @ cs)"
      using at_ExtractSubrange [OF at1, of True] owns_take [OF o1 p(2,3)] p by (auto intro: rp_holdsI) }
  show "\<exists>s. rp_step res h view PClear (r, w) = Some ([], s) \<and> rp_holds h view F s []"
    using op_Clear [OF ok(2) at o] by (auto intro: rp_holdsI)
qed

lemma owns_swap:
  assumes o: "owns view e F w ps qs xs" and i: "i < length xs" and j: "j < length xs"
  shows "owns view e F w (ps[i := ps ! j, j := ps ! i]) qs (xs[i := xs ! j, j := xs ! i])"
proof -
  have l: "length ps = length xs" by (rule owns_length [OF o])
  have "mset (ps[i := ps ! j, j := ps ! i]) = mset ps" using i j l by (simp add: mset_swap)
  then have "distinct (ps[i := ps ! j, j := ps ! i]) = distinct ps" "set (ps[i := ps ! j, j := ps ! i]) = set ps"
    by (metis mset_eq_imp_distinct_iff, metis mset_eq_setD)
  then show ?thesis using o i j l by (simp add: owns_def list_all2_conv_all_nth nth_list_update)
qed

lemma rp_step_others:
  assumes ok: "reserve_ok res" "handler_ok h view" and at: "rp_at r ps qs" and o: "owns view (view (th_New h)) F w ps qs xs"
  shows "i < length xs \<Longrightarrow> rp_step res h view (PGet (int i)) (r, w) = Some ([xs ! i], r, w)"
    "i < length xs \<Longrightarrow> \<exists>s. rp_step res h view (PSet (int i) v) (r, w) = Some ([], s) \<and> rp_holds h view F s (xs[i := view v])"
    "i < length xs \<Longrightarrow> j < length xs \<Longrightarrow> \<exists>s. rp_step res h view (PSwapElements (int i) (int j)) (r, w) = Some ([], s) \<and>
       rp_holds h view F s (xs[i := xs ! j, j := xs ! i])"
    "length xs + length vs < 2147483648 \<Longrightarrow> \<exists>s. rp_step res h view (PMerge vs) (r, w) = Some ([], s) \<and> rp_holds h view F s (xs @ map view vs)"
    "length vs < 2147483648 \<Longrightarrow> \<exists>s. rp_step res h view (PCopy vs) (r, w) = Some ([], s) \<and> rp_holds h view F s (map view vs)"
    "n < 2147483648 \<Longrightarrow> \<exists>s. rp_step res h view (PReserve n) (r, w) = Some ([], s) \<and> rp_holds h view F s xs"
proof -
  note d = rp_atD [OF at] and l = owns_length [OF o]
  have rd: "rp_read (int i) r = Some (ps ! i)" if "i < length xs" for i
    using slots_read [OF d(1), of i] that l by (simp add: nth_append)
  show "i < length xs \<Longrightarrow> rp_step res h view (PGet (int i)) (r, w) = Some ([xs ! i], r, w)"
    using rd [of i] owns_nth [OF o, of i] by (auto simp: RP_Get_def shows_as_def)
  show "i < length xs \<Longrightarrow> \<exists>s. rp_step res h view (PSet (int i) v) (r, w) = Some ([], s) \<and> rp_holds h view F s (xs[i := view v])"
    using rd [of i] owns_write [OF o, of i "\<lambda>_. v"] at by (auto simp: RP_Mutable_def intro: rp_holdsI)
  show "i < length xs \<Longrightarrow> j < length xs \<Longrightarrow> \<exists>s. rp_step res h view (PSwapElements (int i) (int j)) (r, w) = Some ([], s) \<and>
       rp_holds h view F s (xs[i := xs ! j, j := xs ! i])"
    using at_SwapElements [OF at, of i j] owns_swap [OF o, of i j] l by (auto intro: rp_holdsI)
  show "length xs + length vs < 2147483648 \<Longrightarrow> \<exists>s. rp_step res h view (PMerge vs) (r, w) = Some ([], s) \<and> rp_holds h view F s (xs @ map view vs)"
    using op_with_field [OF ok(1) o, of vs "\<lambda>other. RP_MergeFrom res h other r" "xs @ map view vs"]
      op_MergeFrom [OF ok _ _ at, where ys = "map view vs"] by fastforce
  show "length vs < 2147483648 \<Longrightarrow> \<exists>s. rp_step res h view (PCopy vs) (r, w) = Some ([], s) \<and> rp_holds h view F s (map view vs)"
  proof -
    assume lv: "length vs < 2147483648"
    have "\<exists>ps' qs' r' w'. RP_CopyFrom res h other r w1 = Some (r', w') \<and> rp_at r' ps' qs' \<and>
        owns view (view (th_New h)) G w' ps' qs' (map view vs)"
      if other: "rp_at other os os'" "list_all2 (\<lambda>p y. map_option view (G p) = Some y) os (map view vs)"
        and o1: "owns view (view (th_New h)) G w1 ps qs xs" for other w1 os os' G
      using op_Clear [OF ok(2) at o1] op_MergeFrom [OF ok other] lv by (fastforce simp: RP_CopyFrom_def)
    with op_with_field [OF ok(1) o lv, of "\<lambda>other. RP_CopyFrom res h other r" "map view vs"] show ?thesis by fastforce
  qed
  show "n < 2147483648 \<Longrightarrow> \<exists>s. rp_step res h view (PReserve n) (r, w) = Some ([], s) \<and> rp_holds h view F s xs"
    using reserveD(1) [OF ok(1) at, of n] o by (auto intro: rp_holdsI)
qed

lemma rp_step_cleared:
  assumes ok: "reserve_ok res" "handler_ok h view" and at: "rp_at r ps qs" and o: "owns view (view (th_New h)) F w ps qs xs"
  shows "\<exists>s. rp_step res h view PAddCleared (r, w) = Some ([], s) \<and> rp_holds h view F s xs"
    "\<exists>s. rp_step res h view PReleaseCleared (r, w) = Some ([], s) \<and> rp_holds h view F s xs"
proof -
  note d = rp_atD [OF at]
  have cleared: "RP_ClearedCount r = int (length qs)" using d by (simp add: RP_ClearedCount_def s32_id)
  show "\<exists>s. rp_step res h view PAddCleared (r, w) = Some ([], s) \<and> rp_holds h view F s xs"
  proof (cases "RP_size r + RP_ClearedCount r < 2147483647")
    case True
    obtain p w1 where p: "obj_new (th_New h) w = (p, w1)" by fastforce
    have "owns view (view (th_New h)) F w1 ps (qs @ [p]) xs"
      using owns_mset [OF owns_unuse [OF owns_new [OF o p]], of "qs @ [p]"] by simp
    with at_AddCleared [OF ok(1) at, of p] True p d(2) cleared show ?thesis by (auto simp: RP_size_def intro: rp_holdsI)
  qed (use at o in \<open>auto intro: rp_holdsI\<close>)
  show "\<exists>s. rp_step res h view PReleaseCleared (r, w) = Some ([], s) \<and> rp_holds h view F s xs"
  proof (cases qs rule: rev_cases)
    case (snoc bs q)
    have "owns view (view (th_New h)) F w ps (q # bs) xs" using owns_mset [OF o] snoc by simp
    from owns_delete_cleared [OF this] owns_alive [OF this, of q]
    have "\<exists>vs w'. take_objects [q] w = Some (vs, w') \<and> owns view (view (th_New h)) F w' ps bs xs" by auto
    with at_ReleaseCleared [of r ps bs q] at cleared snoc show ?thesis
      by (auto intro: rp_holdsI simp del: take_objects.simps)
  qed (use at o cleared in \<open>auto intro: rp_holdsI\<close>)
qed

lemma rp_step_simulates:
  assumes ok: "reserve_ok res" "handler_ok h view" and s: "rp_holds h view F s xs"
    and step: "seq_step view (view (th_New h)) x xs = Some (out, xs')"
  shows "\<exists>s'. rp_step res h view x s = Some (out, s') \<and> rp_holds h view F s' xs'"
proof -
  obtain r w ps qs where sw: "s = (r, w)" and at: "rp_at r ps qs" and o: "owns view (view (th_New h)) F w ps qs xs"
    using s by (cases s) (auto simp: rp_holds_def)
  note steps = rp_step_adds [OF ok at o] rp_step_removes [OF ok at o] rp_step_others [OF ok at o]
    rp_step_cleared [OF ok at o]
  have range: "xs = take (nat a) xs @ take (nat n) (drop (nat a) xs) @ drop (nat (a + n)) xs"
    "int (length (take (nat a) xs)) = a" "int (length (take (nat n) (drop (nat a) xs))) = n"
    if "0 \<le> a" "0 \<le> n" "a + n \<le> int (length xs)" for a n
  proof -
    have "drop (nat (a + n)) xs = drop (nat n) (drop (nat a) xs)" using that by (simp add: nat_add_distrib add.commute)
    then show "xs = take (nat a) xs @ take (nat n) (drop (nat a) xs) @ drop (nat (a + n)) xs" by (simp only: append_take_drop_id)
  qed (use that in simp_all)
  note subrange = range steps(6,7) [OF range(1)]
  show ?thesis
  proof (cases x)
    case (PGet i)
    with step steps(9) [of "nat i"] s sw show ?thesis by (auto simp del: rp_step.simps split: if_splits)
  next
    case (PSet i v)
    with step steps(10) [of "nat i" v] sw show ?thesis by (auto simp del: rp_step.simps split: if_splits)
  next
    case (PDelete a n)
    with step subrange(2-4) [of a n] sw show ?thesis by (auto simp del: rp_step.simps split: if_splits)
  next
    case (PExtract a n)
    with step subrange(2,3,5) [of a n] sw show ?thesis by (auto simp del: rp_step.simps split: if_splits)
  next
    case (PSwapElements i j)
    with step steps(11) [of "nat i" "nat j"] sw show ?thesis by (auto simp del: rp_step.simps split: if_splits)
  qed (use step steps sw in \<open>auto simp del: rp_step.simps split: if_splits\<close>)
qed

section \<open>The handlers\<close>

lemma string_handler_ok: "handler_ok (StringTypeHandler [] n space) (\<lambda>x. x)"
  by (simp add: handler_ok_def StringTypeHandler_def)

text \<open>A generated class, seen through the getters of the fields that are present.\<close>

definition MsgHead_seen :: "'u MsgHead_pb \<Rightarrow> int option \<times> int option \<times> int option \<times> byte list option" where
  "MsgHead_seen m = (if has_bit 0 m then Some (hd_cmdid m) else None, if has_bit 1 m then Some (hd_connid m) else None,
     if has_bit 2 m then Some (hd_port m) else None, if has_bit 3 m then Some (hd_ip m) else None)"

lemma hd_set: "hd_cmdid (set_has_bit k m) = hd_cmdid m" "hd_connid (set_has_bit k m) = hd_connid m"
  "hd_port (set_has_bit k m) = hd_port m" "hd_ip (set_has_bit k m) = hd_ip m"
  by (simp_all add: set_has_bit_def)

lemma MsgHead_handler_ok:
  "handler_ok (GenericTypeHandler (MsgHead_new rt) (MsgHead_Clear rt) (MsgHead_MergeFrom rt) space) MsgHead_seen"
proof -
  have new: "MsgHead_seen (MsgHead_new rt) = (None, None, None, None)" "MsgHead_seen (MsgHead_Clear rt x) = (None, None, None, None)" for x
    by (simp_all add: MsgHead_seen_def MsgHead_new_def MsgHead_Clear_def clear_bits_def)
  have "MsgHead_seen (MsgHead_MergeFrom rt x y) = MsgHead_seen x" if y: "MsgHead_seen y = (None, None, None, None)" for x y
  proof -
    have "\<not> bit (has_bits y) k" if "k < 4" for k
      using y that by (auto simp: MsgHead_seen_def less_Suc_eq eval_nat_numeral split: if_splits)
    moreover have "any_bit x" if "bit (has_bits x) k" "k < 4" for k using that any_bitI [of k x] by simp
    ultimately show ?thesis
      by (cases "bit (has_bits x) 0"; cases "bit (has_bits x) 1"; cases "bit (has_bits x) 2"; cases "bit (has_bits x) 3")
        (simp_all add: MsgHead_MergeFrom_def MsgHead_seen_def MsgHead_set_defs merge_unknown_def bit_has_set hd_set Let_def
          del: has_bits_set)
  qed
  then show ?thesis by (simp add: handler_ok_def GenericTypeHandler_def new)
qed

section \<open>A field of objects is a list and owns its objects\<close>

text \<open>The growth of the plain repeated field, as an instance of what is required of \<open>Reserve\<close>.\<close>

definition ref_Reserve :: reserve where
  "ref_Reserve n r =
     (if rp_total_size r \<ge> n then r
      else let total = max kMinRepeatedFieldAllocationSize (max (s32 (rp_total_size r * 2)) n)
           in r \<lparr> rp_elements := Some (rp_block r @ replicate (nat total - length (rp_block r)) None), rp_total_size := total \<rparr>)"

lemma ref_Reserve_ok: "reserve_ok ref_Reserve"
  unfolding reserve_ok_def
proof (intro allI impI)
  fix r ps qs and n :: int
  assume at: "rp_at r ps qs" and n: "n < 2147483648"
  note d = rp_atD [OF at]
  show "rp_at (ref_Reserve n r) ps qs \<and> n \<le> rp_total_size (ref_Reserve n r)"
  proof (cases "rp_total_size r \<ge> n")
    case False
    define total where "total = max kMinRepeatedFieldAllocationSize (max (s32 (rp_total_size r * 2)) n)"
    have t: "total < 2147483648" "n \<le> total" "int (length (rp_block r)) \<le> total"
      using n d False by (auto simp: total_def kMinRepeatedFieldAllocationSize_def s32_def)
    have r: "ref_Reserve n r = r \<lparr> rp_elements := Some (rp_block r @ replicate (nat total - length (rp_block r)) None), rp_total_size := total \<rparr>"
      using False by (simp add: ref_Reserve_def total_def Let_def)
    have b: "rp_block (ref_Reserve n r) = rp_block r @ replicate (nat total - length (rp_block r)) None"
      unfolding r by (simp add: rp_block_def)
    have "slots (ref_Reserve n r) (ps @ qs)" using d(1,6) unfolding slots_def b by simp
    then show ?thesis using at t b unfolding rp_at_def by (simp add: r)
  qed (use at in \<open>simp add: ref_Reserve_def\<close>)
qed

text \<open>
  C36. A repeated field of strings or messages is a list, and manages memory. From an empty field every
  program of additions, with new, reused or given objects, of reads, writes, removals, releases,
  deletions and extractions of a range, swaps, clearings, merges and copies of other fields and of
  changes to the store of cleared objects that keeps its indices in range and its length in an \<open>int\<close>
  runs without a fault: no access leaves the array, no object is used after it was deleted or deleted
  twice, and an object that is handed out again reads as a new one. It returns what the same program
  returns on a list. When the field is destroyed in the end, no object is left but those
  there were before, and these are unchanged.
\<close>

theorem repeated_ptr_field_owns_a_list:
  assumes ok: "reserve_ok res" "handler_ok h view" and w: "\<forall>p\<ge>next_addr w. objs w p = None"
    and run: "run_steps (seq_step view (view (th_New h))) ops [] = Some (outs, xs)"
  shows "\<exists>r w1 w2. run_steps (rp_step res h view) ops (RP_new, w) = Some (outs, (r, w1)) \<and> RP_size r = int (length xs) \<and>
    (\<forall>i < length xs. map_option view (RP_Get (int i) r w1) = Some (xs ! i)) \<and>
    RP_Destroy r w1 = Some w2 \<and> objs w2 = objs w"
proof -
  have "step_simulation (rp_holds h view (objs w)) (\<lambda>x. True) (seq_step view (view (th_New h))) (rp_step res h view)"
    by (rule step_simulation.intro) (rule rp_step_simulates [OF ok])
  from step_simulation.runs [OF this rp_holds_new [OF w] _ run] obtain r w1 where
    s: "run_steps (rp_step res h view) ops (RP_new, w) = Some (outs, (r, w1))" "rp_holds h view (objs w) (r, w1) xs"
    by (auto simp: list_all_iff)
  then obtain ps qs where at: "rp_at r ps qs" and o: "owns view (view (th_New h)) (objs w) w1 ps qs xs" by (auto simp: rp_holds_def)
  from op_Destroy [OF at o] obtain w2 where "RP_Destroy r w1 = Some w2" "objs w2 = objs w" by auto
  moreover have "RP_size r = int (length xs)" using rp_atD(2) [OF at] owns_length [OF o] by (simp add: RP_size_def)
  moreover have "map_option view (RP_Get (int i) r w1) = Some (xs ! i)" if "i < length xs" for i
    using rp_step_others(1) [OF ok at o that] by (auto split: bind_splits)
  ultimately show ?thesis using s(1) by blast
qed

theorem repeated_ptr_field_owns_a_list_witness:
  "\<exists>r w1 w2. run_steps (rp_step ref_Reserve (StringTypeHandler [] 8 (\<lambda>_. 0)) (\<lambda>x. x))
      [PAdd [1], PAdd [2], PRemoveLast, PAddAllocated [3], PMerge [[4], [5]], PDelete 0 1, PAdd [6]] (RP_new, \<lparr> objs = [7 \<mapsto> [9]], next_addr = 8 \<rparr>) =
      Some ([[[]], [[]], [], [], [], [], [[]]], (r, w1)) \<and> RP_size r = 4 \<and> RP_Destroy r w1 = Some w2 \<and> objs w2 = [7 \<mapsto> [9]]"
proof -
  have run: "run_steps (seq_step (\<lambda>x. x) (th_New (StringTypeHandler [] 8 (\<lambda>_. 0))))
      [PAdd [1], PAdd [2], PRemoveLast, PAddAllocated [3], PMerge [[4], [5]], PDelete 0 1, PAdd [6]] [] =
      Some ([[[]], [[]], [], [], [], [], [[]]], [[3], [4], [5], [6]])"
    by (simp add: StringTypeHandler_def)
  from repeated_ptr_field_owns_a_list [OF ref_Reserve_ok string_handler_ok _ run, of "\<lparr> objs = [7 \<mapsto> [9]], next_addr = 8 \<rparr>"]
  show ?thesis by auto
qed

end
