(* ===== verification/Spec2Isabelle.thy ===== *)
theory Spec2Isabelle
  imports LiteTimer CoMgr CoSwapContext ConnApp LogFile Singleton PacketOptions RepeatedRead RepeatedPtrField
begin

text \<open>
  A verification library for \<^verbatim>\<open>wddlib\<close>, a C++ library for single-threaded network servers, and
  for the connection server built on it. All source paths are below \<^verbatim>\<open>src/\<close>.

  \<^bold>\<open>The program.\<close> The library has containers (an object pool, a timer heap on top of it),
  stackful coroutines with a manager, a network layer (byte buffer, socket and poller, buffered
  channel, reconnecting client, server), the framing of protobuf messages, a rolling log and a
  framework with a main loop and a control connection. The connection server accepts clients,
  gives each an id from a table, cuts what they send into messages and forwards these to servers
  behind it (the channels), and carries out what those servers answer. A small test server plays
  the part of a channel. Components call each other directly; the poller calls sockets back
  through virtual functions, and a server's channels call the server back.

  \<^bold>\<open>How it is modelled.\<close> A struct or class is a \<^verbatim>\<open>record\<close>, derived classes extend the record of
  the base class, every operation is one HOL function with the name of the C++ one (with the
  class name in front where two classes share a name, and without leading underscores). State is
  passed explicitly. \<open>None\<close> is a fault: an access outside an array or a block, a use of a deleted
  object, an invalid iterator, a division by zero; in the \<^verbatim>\<open>partial_function\<close>s also a loop that
  does not end. Error codes are ordinary results. So a theorem that says \<open>f x = Some y\<close> includes
  memory safety and termination. Integers are \<open>int\<close> with \<open>s32\<close>, \<open>u32\<close>, \<open>u64\<close> wherever the type
  can be left. System calls, the file system, the clock, \<^verbatim>\<open>malloc\<close> and the protobuf library are
  parameters (\<open>sys\<close>, \<open>fs\<close>, \<open>app_sys\<close>, \<open>pb\<close>, \<open>env\<close>, \<open>runtime\<close>, \<open>runtime_more\<close>), and what the code relies on of them is stated in
  \<open>write_spec\<close>, \<open>readv_spec\<close>, \<open>epoll_spec\<close>, \<open>fs_ok\<close>, \<open>pb_ok\<close>, \<open>pb_safe\<close>, \<open>runtime_ok\<close>, \<open>runtime_sane\<close>,
  \<open>reads_more_ok\<close>, \<open>skip_ok\<close>, \<open>until_ok\<close>, \<open>reserve_ok\<close>, \<open>handler_ok\<close>. Virtual calls go through records of
  functions (\<open>vtable\<close>, \<open>server_virt\<close>, \<open>app_ops\<close>).

  \<^bold>\<open>Theories and sources.\<close>
    \<^item> \<^verbatim>\<open>Wdd_Prelude\<close>: machine integers, checked arrays, facts on lists and maps.
      \<^verbatim>\<open>Bytes\<close>: memory blocks and network byte order.
    \<^item> \<^verbatim>\<open>ObjPool\<close>: \<^verbatim>\<open>util/container/obj_pool.{h,cpp}\<close>. The pool is a bounded map from handles to
      objects; the invariant describes the two intrusive chains. Contract: locale \<open>handle_table\<close>
      (\<^verbatim>\<open>Handle_Table\<close>).
    \<^item> \<^verbatim>\<open>LiteTimer\<close>: \<^verbatim>\<open>util/timer/lite_timer.{h,cpp}\<close>, with the heap operations of the C++ library
      against a reference (\<^verbatim>\<open>Heap_Ref\<close>). Contract: locale \<open>timer_service\<close> (\<^verbatim>\<open>Timer_Service\<close>).
    \<^item> \<^verbatim>\<open>Coroutine\<close>, \<^verbatim>\<open>CoMgr\<close>: \<^verbatim>\<open>util/coroutine/\<close>. A context is the continuation saved in it; the code
      of a coroutine is the tree of the calls it makes. Both implement abstract step systems, by
      the locale \<open>step_simulation\<close> (\<^verbatim>\<open>Step_Simulation\<close>).
    \<^item> \<^verbatim>\<open>X86\<close>, \<^verbatim>\<open>CoSwapContext\<close>: the assembly \<^verbatim>\<open>util/coroutine/co_swapcontext.S\<close> for both processors, on a
      machine with registers and a memory of bytes. Both satisfy the locale \<open>context_switch\<close>, and carry
      out the transfer of control that \<^verbatim>\<open>Coroutine\<close> takes \<^verbatim>\<open>co_swapcontext\<close> for.
    \<^item> \<^verbatim>\<open>Buffer\<close>, \<^verbatim>\<open>TcpSocket\<close>, \<^verbatim>\<open>TcpChannel\<close>, \<^verbatim>\<open>TcpClient\<close>, \<^verbatim>\<open>TcpServer\<close>: \<^verbatim>\<open>util/net/\<close>. The buffer
      satisfies the locale \<open>byte_queue\<close> (\<^verbatim>\<open>Byte_Queue\<close>); channels keep the byte stream; clients and
      servers are state machines with invariants over all reachable states. Channel objects of a
      server live in a heap with addresses, so that deleting one while it is in use is visible.
    \<^item> \<^verbatim>\<open>PbParser\<close>: \<^verbatim>\<open>util/pbparser/PbParser.{h,cpp}\<close>, the length-prefixed framing.
    \<^item> \<^verbatim>\<open>WireFormat\<close>: the part of the protobuf headers that is inlined into the generated classes
      (\<^verbatim>\<open>io/coded_stream.h\<close>, \<^verbatim>\<open>wire_format_lite.h\<close> and \<^verbatim>\<open>wire_format_lite_inl.h\<close>).
      \<^verbatim>\<open>ConnsvrPb\<close>: the generated classes \<^verbatim>\<open>connsvrtest/protocol/protocol_connsvr.pb.{h,cc}\<close> and
      \<^verbatim>\<open>connsvrtest/framework/testconnsvr.pb.{h,cc}\<close>. \<^verbatim>\<open>WireParse\<close> has the lemmas on parsing fields and the
      locale \<open>wire_class\<close>, which every class of a message part satisfies, \<^verbatim>\<open>ConnsvrWire\<close> their encodings
      and the link to the parameter \<open>pb\<close> of the framing, \<^verbatim>\<open>ConnsvrInput\<close> the parser on any bytes,
      \<^verbatim>\<open>ConnsvrCodec\<close> the properties.
    \<^item> \<^verbatim>\<open>WireFields\<close>: the remaining primitive field types of the same headers. \<^verbatim>\<open>RepeatedField\<close>,
      \<^verbatim>\<open>RepeatedPtrField\<close>: \<^verbatim>\<open>repeated_field.h\<close>, the second with its objects in a heap. \<^verbatim>\<open>RepeatedRead\<close>:
      reading repeated fields. \<^verbatim>\<open>PacketOptions\<close>: the generated class of the message option,
      \<^verbatim>\<open>util/pbparser/UtilProtocol.pb.{h,cc}\<close>, which is again a \<open>wire_class\<close>.
    \<^item> \<^verbatim>\<open>Singleton\<close>: \<^verbatim>\<open>util/singleton/\<close>, the holder of the one instance of a class.
    \<^item> \<^verbatim>\<open>ServerApp\<close>: \<^verbatim>\<open>util/framework/server_app.{h,cpp}\<close>, main loop, control server, commands.
    \<^item> \<^verbatim>\<open>LogFile\<close>: \<^verbatim>\<open>util/log/\<close>, rolling files and the manager.
    \<^item> \<^verbatim>\<open>ConnTable\<close>: the connection records of \<^verbatim>\<open>connsvr/epollsvr/epollsvr.h\<close>, again a \<open>handle_table\<close>.
    \<^item> \<^verbatim>\<open>ConnMsg\<close>, \<^verbatim>\<open>ConnSvr\<close>: \<^verbatim>\<open>connsvr/protocol\<close>, \<^verbatim>\<open>connsvr/epollsvr\<close>, \<^verbatim>\<open>connsvr/msghandle\<close>,
      \<^verbatim>\<open>connsvr/framework\<close>. \<^verbatim>\<open>ConnSafety\<close> has the invariant that ties table, channel map and channel
      objects together, \<^verbatim>\<open>ConnForward\<close> the forwarding of client messages.
    \<^item> \<^verbatim>\<open>TestSvr\<close>: \<^verbatim>\<open>connsvrtest/\<close>. \<^verbatim>\<open>ConnApp\<close>: the callbacks of the two programs on the framework.

  \<^bold>\<open>What is shown.\<close> Refinement: pool, timers, connection table, coroutines and their manager
  against abstract maps, timer sets and stacks of control, the context switch of the processor
  against the transfer of control, repeated fields against lists, with what they own. Invariants over all runs: pool, timer,
  client, server, connection server. Byte streams: buffer, channel, framing, control connection,
  forwarding through server, channel and framing, the test server's replies. Encoding: the generated
  classes read back what they write, with exact sizes, and so satisfy \<open>pb_ok\<close>; on any bytes their
  parser returns a well-typed object; every primitive type, packed fields, and the fast loop for
  fields of fixed size against the plain one. Termination and progress: ticking, traversals, the message
  loops on well-formed input, the parser on any input, the end of the main loop on a stop command.
  Bounds: log files, sizes of messages. The theorems of kind error show, on the model, inputs on
  which the code corrupts its state, faults, or does not return.

  \<^bold>\<open>Hypotheses worth knowing.\<close> Descriptors of clients are positive, as the code takes 0 for "no
  connection". The stream theorems assume send buffers below the 50 MB limit at which the code
  discards them, and received messages whose header has arrived, since the code reads the header
  without checking. Loops that may not end are not given fuel; they are least fixed points, and
  their theorems state that they return.

  \<^bold>\<open>Not modelled.\<close> Of the generated code, descriptors, reflection, output to a stream and the
  transfer of ownership of parts, which the program does not use. Of the vendored protobuf headers,
  groups, streams that are not over an array, iterators, and the headers that only declare what the
  library defines (descriptors, messages, extensions, reflection); the library behind them is the
  parameter \<open>runtime\<close> and its extension \<open>runtime_more\<close>, and \<^verbatim>\<open>Reserve\<close> of the repeated fields of objects the parameter
  \<open>res\<close>. \<^verbatim>\<open>makecontext\<close> and \<^verbatim>\<open>getcontext\<close> of the C library. Tests, build files, log and \<^verbatim>\<open>printf\<close> lines
  inside other components, and the overload of \<^verbatim>\<open>Log\<close> that passes on a \<^verbatim>\<open>va_list\<close>.
\<close>

end
